(* ===== verification/Alg_Prelude.thy ===== *)
theory Alg_Prelude
  imports Main "HOL-Library.Word" "HOL-Library.AList"
begin

text \<open>
  Shared vocabulary of the development: JavaScript strings as lists of UTF-16 code units,
  decimal rendering of numbers, the issue lists that the validators of the program collect,
  keyed updates of insertion-ordered objects, and the generic lemmas on lists and maps that
  the component theories rest on.
\<close>

section \<open>Automation collections\<close>

named_theorems issue_simps \<open>when a collected issue list is empty\<close>
named_theorems frame_simps \<open>fields an operation leaves unchanged\<close>

section \<open>JavaScript strings\<close>

text \<open>
  A JavaScript string is a sequence of 16-bit code units; \<open>value.length\<close> counts them and
  \<open>value.slice(0, n)\<close> is \<open>take n\<close>. ASCII literals of the source are written with \<open>js\<close>
  applied to an Isabelle string literal.
\<close>

type_synonym code_unit = "16 word"
type_synonym jstr = "code_unit list"

definition js :: "string \<Rightarrow> jstr" where
  "js s = map of_char s"

lemma of_char_code_unit: "(of_char c :: code_unit) = of_nat (of_char c)"
  by (simp add: of_nat_of_char)

lemma of_char_code_unit_inject [simp]:
  "(of_char c :: code_unit) = of_char d \<longleftrightarrow> c = d"
proof
  assume eq: "(of_char c :: code_unit) = of_char d"
  have small: "(of_char x :: nat) < 2 ^ 16" for x :: char
    using order.strict_trans2 [OF nat_of_char_less_256 [of x], of "2 ^ 16"] by simp
  have "unat (of_char x :: code_unit) = (of_char x :: nat)" for x :: char
    using small [of x] by (simp add: of_char_code_unit unat_of_nat take_bit_nat_eq_self)
  then have "(of_char c :: nat) = of_char d" using eq by metis
  then show "c = d" by simp
qed simp

lemma js_inject [simp]: "js s = js t \<longleftrightarrow> s = t"
  unfolding js_def by (rule inj_map_eq_map) (simp add: inj_def)

lemma js_Nil_iff [simp]: "js s = [] \<longleftrightarrow> s = []" "[] = js s \<longleftrightarrow> s = []"
  by (auto simp: js_def)

lemma length_js [simp]: "length (js s) = length s"
  by (simp add: js_def)

lemma js_Cons: "js (c # s) = of_char c # js s"
  by (simp add: js_def)

lemma js_Nil: "js [] = []"
  by (simp add: js_def)

text \<open>White space as \<open>String.prototype.trim\<close> strips it: the ECMAScript white space and line ends.\<close>

definition js_space :: "code_unit \<Rightarrow> bool" where
  "js_space c \<longleftrightarrow>
     c = 0x20 \<or> (0x09 \<le> c \<and> c \<le> 0x0D) \<or> c = 0xA0 \<or> c = 0x1680 \<or>
     (0x2000 \<le> c \<and> c \<le> 0x200A) \<or> c = 0x2028 \<or> c = 0x2029 \<or> c = 0x202F \<or>
     c = 0x205F \<or> c = 0x3000 \<or> c = 0xFEFF"

definition js_trim :: "jstr \<Rightarrow> jstr" where
  "js_trim s = rev (dropWhile js_space (rev (dropWhile js_space s)))"

definition js_trimmed :: "jstr \<Rightarrow> bool" where
  "js_trimmed s \<longleftrightarrow> js_trim s = s"

lemma js_trimmed_iff:
  "js_trimmed s \<longleftrightarrow> s = [] \<or> (\<not> js_space (hd s) \<and> \<not> js_space (last s))"
proof (cases "s = []")
  case False
  then obtain x xs where s: "s = x # xs" by (cases s) auto
  show ?thesis
  proof (cases "js_space x")
    case True
    have "length (js_trim s) \<le> length (dropWhile js_space s)"
      unfolding js_trim_def using length_dropWhile_le [of js_space "rev (dropWhile js_space s)"] by simp
    also have "\<dots> < length s"
      using True s length_dropWhile_le [of js_space xs] by (simp add: less_Suc_eq_le)
    finally show ?thesis using True s by (auto simp: js_trimmed_def)
  next
    case False
    then have d: "dropWhile js_space s = s" using s by simp
    have hr: "hd (rev s) = last s" using \<open>s \<noteq> []\<close> by (simp add: hd_rev)
    obtain y ys where r: "rev s = y # ys" using \<open>s \<noteq> []\<close> by (cases "rev s") auto
    show ?thesis
    proof (cases "js_space y")
      case True
      have "length (js_trim s) = length (dropWhile js_space (y # ys))"
        by (simp add: js_trim_def d r)
      also have "\<dots> < length (y # ys)"
        using True length_dropWhile_le [of js_space ys] by (simp add: less_Suc_eq_le)
      also have "\<dots> = length s" using r by (metis length_rev)
      finally show ?thesis using True r hr \<open>s \<noteq> []\<close> by (auto simp: js_trimmed_def)
    next
      case nsp: False
      then have "js_trim s = rev (rev s)" using d r by (simp add: js_trim_def)
      then have "js_trim s = s" by simp
      then show ?thesis using nsp False s r hr by (simp add: js_trimmed_def)
    qed
  qed
qed (simp add: js_trimmed_def js_trim_def)

lemma js_trim_idem [simp]: "js_trimmed (js_trim s)"
proof (cases "js_trim s = []")
  case False
  let ?d = "dropWhile js_space s"
  let ?t = "dropWhile js_space (rev ?d)"
  have t: "?t \<noteq> []" and jt: "js_trim s = rev ?t" using False by (auto simp: js_trim_def)
  have "\<not> js_space (hd ?t)" using hd_dropWhile [OF t] .
  moreover have "hd (rev ?t) = hd ?d"
  proof -
    have "?t = drop (length (takeWhile js_space (rev ?d))) (rev ?d)" by (simp add: dropWhile_eq_drop)
    then have "last ?t = last (rev ?d)" using t by (simp add: last_drop)
    then show ?thesis using t by (simp add: hd_rev last_rev)
  qed
  moreover have "\<not> js_space (hd ?d)"
    by (rule hd_dropWhile) (use t in \<open>cases "?d = []"; simp\<close>)
  ultimately show ?thesis using t by (simp add: jt js_trimmed_iff last_rev)
qed (simp add: js_trimmed_iff)

lemma length_js_trim_le: "length (js_trim s) \<le> length s"
  unfolding js_trim_def
  by (metis (no_types, lifting) length_dropWhile_le length_rev order_trans)

text \<open>\<open>Array.prototype.join\<close>.\<close>

fun js_join :: "jstr \<Rightarrow> jstr list \<Rightarrow> jstr" where
  "js_join sep [] = []"
| "js_join sep [x] = x"
| "js_join sep (x # y # zs) = x @ sep @ js_join sep (y # zs)"

text \<open>\<open>String(n)\<close> of a non-negative integer.\<close>

fun dec :: "nat \<Rightarrow> jstr" where
  "dec n = (if n < 10 then [48 + of_nat n] else dec (n div 10) @ [48 + of_nat (n mod 10)])"

declare dec.simps [simp del]

lemma dec_not_Nil [simp]: "dec n \<noteq> []"
  by (subst dec.simps) simp

lemma length_dec_le: "length (dec n) \<le> Suc n"
proof (induction n rule: dec.induct)
  case (1 n)
  show ?case
  proof (cases "n < 10")
    case True
    then show ?thesis by (subst dec.simps) simp
  next
    case False
    have "length (dec n) = Suc (length (dec (n div 10)))"
      using False by (subst dec.simps) simp
    then show ?thesis using "1.IH" False by linarith
  qed
qed

lemma length_dec_small: "n < 10 ^ k \<Longrightarrow> 0 < k \<Longrightarrow> length (dec n) \<le> k"
proof (induction k arbitrary: n)
  case (Suc k)
  show ?case
  proof (cases "n < 10")
    case True
    then show ?thesis by (subst dec.simps) simp
  next
    case False
    then have "0 < k" using Suc.prems(1) by (cases k) auto
    moreover have "n div 10 < 10 ^ k" using Suc.prems(1) by (simp add: less_mult_imp_div_less)
    ultimately have "length (dec (n div 10)) \<le> k" using Suc.IH by blast
    then show ?thesis using False by (subst dec.simps) simp
  qed
qed simp

section \<open>Collected issues\<close>

text \<open>
  The validators of the program do not stop at the first violation: \<open>ctx.addIssue\<close> and
  \<open>add(message)\<close> append to a list, and the parse fails when the list is not empty. A check
  contributes one message when its condition fails.
\<close>

type_synonym issues = "jstr list"

definition check :: "bool \<Rightarrow> jstr \<Rightarrow> issues" where
  "check ok m = (if ok then [] else [m])"

lemma check_Nil [simp, issue_simps]: "check ok m = [] \<longleftrightarrow> ok"
  by (simp add: check_def)

section \<open>Insertion-ordered objects\<close>

text \<open>
  A JavaScript object used as a dictionary is an association list with distinct keys;
  \<open>AList.update\<close> replaces a value in place or appends a new key.
\<close>

lemma map_of_update [simp]: "map_of (AList.update k v al) = (map_of al)(k \<mapsto> v)"
  by (simp add: update_conv')

lemma map_fst_update_present:
  "k \<in> fst ` set al \<Longrightarrow> map fst (AList.update k v al) = map fst al"
  by (induction al) auto

lemma set_alist_map_of:
  "distinct (map fst al) \<Longrightarrow> (k, v) \<in> set al \<longleftrightarrow> map_of al k = Some v"
  by (meson map_of_eq_Some_iff)

lemma values_all_iff:
  assumes "distinct (map fst al)"
  shows "(\<forall>v \<in> snd ` set al. P v) \<longleftrightarrow> (\<forall>k v. map_of al k = Some v \<longrightarrow> P v)"
  using assms by (force simp: set_alist_map_of [symmetric])

lemma values_ex_iff:
  assumes "distinct (map fst al)"
  shows "(\<exists>v \<in> snd ` set al. P v) \<longleftrightarrow> (\<exists>k v. map_of al k = Some v \<and> P v)"
  using assms by (force simp: set_alist_map_of [symmetric])

section \<open>Lists\<close>

definition last_opt :: "'a list \<Rightarrow> 'a option" where
  "last_opt xs = (if xs = [] then None else Some (last xs))"

lemma last_opt_simps [simp]:
  "last_opt [] = None" "last_opt (xs @ [x]) = Some x"
  by (simp_all add: last_opt_def)

lemma last_opt_None_iff [simp]: "last_opt xs = None \<longleftrightarrow> xs = []"
  by (simp add: last_opt_def)

lemma last_opt_SomeD: "last_opt xs = Some x \<Longrightarrow> xs = butlast xs @ [x]"
  by (auto simp: last_opt_def split: if_splits)

text \<open>Replacing the last element, as mutating \<open>xs.at(-1)\<close> does.\<close>

definition update_last :: "('a \<Rightarrow> 'a) \<Rightarrow> 'a list \<Rightarrow> 'a list" where
  "update_last f xs = (if xs = [] then [] else butlast xs @ [f (last xs)])"

lemma update_last_snoc [simp]: "update_last f (xs @ [x]) = xs @ [f x]"
  by (simp add: update_last_def)

lemma update_last_Nil [simp]: "update_last f [] = []"
  by (simp add: update_last_def)

lemma length_update_last [simp]: "length (update_last f xs) = length xs"
  by (cases xs rule: rev_cases) auto

lemma distinct_index_unique:
  assumes "distinct (map f xs)" "x \<in> set xs" "y \<in> set xs" "f x = f y"
  shows "x = y"
  using assms by (metis eq_key_imp_eq_value distinct_map inj_on_eq_iff)

lemma find_distinct:
  assumes "distinct (map f xs)" "x \<in> set xs"
  shows "find (\<lambda>y. f y = f x) xs = Some x"
  using assms by (induction xs) auto

end
