(* ===== verification/Alg_Types.thy ===== *)
theory Alg_Types
  imports Alg_Prelude
begin

text \<open>
  \<open>src/types.ts\<close>: the durable and runtime contracts. String unions become datatypes, interfaces
  become records (optional fields are options), the node table \<open>Record<string, NodeState>\<close> an
  association list in insertion order. Timestamps are milliseconds since the epoch: the
  program writes them with \<open>toISOString\<close> and reads them with \<open>Date.parse\<close>, which is the
  identity on those strings. Field names carry a prefix naming their interface.
\<close>

section \<open>Enumerations\<close>

datatype alg_agent = Explorer | Researcher | Implementer | Checker | Shell

definition ALG_AGENTS :: "alg_agent list" where
  "ALG_AGENTS = [Explorer, Researcher, Implementer, Checker, Shell]"

definition MODEL_AGENTS :: "alg_agent list" where
  "MODEL_AGENTS = [Explorer, Researcher, Implementer, Checker]"

datatype model_role = Role_planner | Role_agent alg_agent | Role_repair | Role_default

definition MODEL_ROLES :: "model_role list" where
  "MODEL_ROLES = [Role_planner, Role_agent Explorer, Role_agent Researcher,
     Role_agent Implementer, Role_agent Checker, Role_repair, Role_default]"

fun agent_name :: "alg_agent \<Rightarrow> jstr" where
  "agent_name Explorer = js ''explorer''"
| "agent_name Researcher = js ''researcher''"
| "agent_name Implementer = js ''implementer''"
| "agent_name Checker = js ''checker''"
| "agent_name Shell = js ''shell''"

datatype node_status = Pending | Ready | Running | Done | Failed | Skipped

fun node_status_name :: "node_status \<Rightarrow> jstr" where
  "node_status_name Pending = js ''pending''"
| "node_status_name Ready = js ''ready''"
| "node_status_name Running = js ''running''"
| "node_status_name Done = js ''done''"
| "node_status_name Failed = js ''failed''"
| "node_status_name Skipped = js ''skipped''"

datatype run_status = Run_planning | Run_running | Run_done | Run_failed | Run_blocked

fun run_status_name :: "run_status \<Rightarrow> jstr" where
  "run_status_name Run_planning = js ''planning''"
| "run_status_name Run_running = js ''running''"
| "run_status_name Run_done = js ''done''"
| "run_status_name Run_failed = js ''failed''"
| "run_status_name Run_blocked = js ''blocked''"

datatype gate_kind = Gate_schema | Gate_shell | Gate_all

fun gate_name :: "gate_kind \<Rightarrow> jstr" where
  "gate_name Gate_schema = js ''schema''"
| "gate_name Gate_shell = js ''shell''"
| "gate_name Gate_all = js ''all''"

datatype attempt_outcome =
  Passed | Schema_invalid | Sdk_error | Substantive_rejection | Incomplete | Gate_failure

fun outcome_name :: "attempt_outcome \<Rightarrow> jstr" where
  "outcome_name Passed = js ''passed''"
| "outcome_name Schema_invalid = js ''schema_invalid''"
| "outcome_name Sdk_error = js ''sdk_error''"
| "outcome_name Substantive_rejection = js ''substantive_rejection''"
| "outcome_name Incomplete = js ''incomplete''"
| "outcome_name Gate_failure = js ''gate_failure''"

datatype run_mode = Live | Dry

section \<open>Models\<close>

record model_ref =
  mr_providerID :: jstr
  mr_modelID :: jstr
  mr_variant :: "jstr option"

datatype model_resolution_source =
  Alg_project_override | Opencode_role_config | Opencode_top_level_default |
  Inherited_sdk_default | Legacy_unknown

record model_resolution =
  mres_source :: model_resolution_source
  mres_providerID :: "jstr option"
  mres_modelID :: "jstr option"
  mres_variant :: "jstr option"

section \<open>Graphs\<close>

record node_loop =
  nl_max_attempts :: nat
  nl_gate :: gate_kind

record shell_gate_def =
  sg_cmd :: jstr
  sg_cwd :: "jstr option"
  sg_timeout_ms :: "nat option"

record node_def =
  nd_id :: jstr
  nd_agent :: alg_agent
  nd_depends_on :: "jstr list"
  nd_inputs :: "(jstr \<times> jstr) list option"
  nd_description :: "jstr option"
  nd_loop :: "node_loop option"
  nd_shell_gate :: "shell_gate_def option"
  nd_isolated_check :: "bool option"
  nd_feedback_to :: "jstr option"

record graph_def =
  gd_name :: jstr
  gd_description :: "jstr option"
  gd_nodes :: "node_def list"
  gd_max_global_attempts :: nat
  gd_max_concurrency :: nat

text \<open>\<open>node.loop?.max_attempts ?? 1\<close> and \<open>node.loop?.gate ?? "schema"\<close>, used all over the program.\<close>

definition max_attempts :: "node_def \<Rightarrow> nat" where
  "max_attempts d = (case nd_loop d of None \<Rightarrow> 1 | Some l \<Rightarrow> nl_max_attempts l)"

definition node_gate :: "node_def \<Rightarrow> gate_kind" where
  "node_gate d = (case nd_loop d of None \<Rightarrow> Gate_schema | Some l \<Rightarrow> nl_gate l)"

definition shell_gated :: "node_def \<Rightarrow> bool" where
  "shell_gated d \<longleftrightarrow> node_gate d = Gate_shell \<or> node_gate d = Gate_all"

definition requires_shell :: "node_def \<Rightarrow> bool" where
  "requires_shell d \<longleftrightarrow> nd_agent d = Shell \<or> shell_gated d"

section \<open>Integrity-bound references\<close>

record data_ref =
  dr_artifact_path :: jstr
  dr_sha256 :: jstr
  dr_byte_size :: nat

record failure_commitment =
  fc_sha256 :: jstr
  fc_entry_count :: nat

record outcome_counts =
  oc_passed :: nat
  oc_schema_invalid :: nat
  oc_sdk_error :: nat
  oc_substantive_rejection :: nat
  oc_incomplete :: nat
  oc_gate_failure :: nat
  oc_legacy_unknown :: nat

record attempt_history_ref = data_ref +
  ah_attempt_count :: nat
  ah_output_count :: nat
  ah_session_count :: "nat option"
  ah_failure_entries_omitted :: nat
  ah_failure_texts_truncated :: nat
  ah_error_bytes_omitted :: nat
  ah_failure_commitment_count :: "nat option"
  ah_outcome_counts :: "outcome_counts option"
  ah_feedback_applied_count :: "nat option"

datatype root_operation = Op_plan | Op_run | Op_resume

record root_operation_counts =
  roc_plan :: nat
  roc_run :: nat
  roc_resume :: nat

record root_authorization_ref = data_ref +
  ra_authorization_count :: nat
  ra_operation_counts :: root_operation_counts

section \<open>Typed agent outputs\<close>

datatype explore_next = Next_researcher | Next_implementer | Next_none

record explore_out =
  eo_query :: jstr
  eo_map :: "(jstr \<times> jstr) list"
  eo_key_hits :: "(jstr \<times> jstr) list"
  eo_next :: explore_next

record research_option =
  rop_name :: jstr
  rop_pros :: "jstr list"
  rop_cons :: "jstr list"

record research_out =
  reo_answer :: jstr
  reo_evidence :: "(jstr \<times> jstr) list"
  reo_constraints :: "jstr list"
  reo_options :: "research_option list"
  reo_acceptance_criteria :: "jstr list"
  reo_risks :: "jstr list"

record implement_out =
  io_summary :: "jstr list"
  io_files_touched :: "jstr list"
  io_commands_run :: "(jstr \<times> jstr) list"
  io_risks :: "jstr list"
  io_done :: bool
  io_blockers :: "jstr list option"
  io_artifact_path :: "jstr option"

record check_out =
  co_passed :: bool
  co_failures :: "jstr list"
  co_score :: nat
  co_notes :: "jstr option"

record shell_out =
  so_cmd :: jstr
  so_exit_code :: int
  so_ok :: bool
  so_stdout_tail :: jstr
  so_stderr_tail :: jstr
  so_timed_out :: "bool option"
  so_cancelled :: "bool option"
  so_termination_failed :: "bool option"

datatype agent_output =
  Explore_output explore_out
| Research_output research_out
| Implement_output implement_out
| Check_output check_out
| Shell_output shell_out

section \<open>Run state\<close>

record node_attempt =
  na_attempt :: nat
  na_status :: node_status
  na_session_id :: "jstr option"
  na_started_at :: nat
  na_finished_at :: "nat option"
  na_output :: "agent_output option"
  na_output_ref :: "data_ref option"
  na_detail_ref :: "data_ref option"
  na_failures :: "jstr list"
  na_failures_commitment :: "failure_commitment option"
  na_failures_omitted :: "nat option"
  na_failure_texts_truncated :: "nat option"
  na_score :: "nat option"
  na_shell_ok :: "bool option"
  na_schema_ok :: "bool option"
  na_error :: "jstr option"
  na_error_bytes_omitted :: "nat option"
  na_feedback_applied :: "bool option"
  na_outcome :: "attempt_outcome option"

record node_state =
  ns_id :: jstr
  ns_agent :: alg_agent
  ns_status :: node_status
  ns_attempts :: "node_attempt list"
  ns_attempt_history_ref :: "attempt_history_ref option"
  ns_current_attempt :: nat
  ns_output :: "agent_output option"
  ns_output_ref :: "data_ref option"
  ns_last_failures :: "jstr list"
  ns_last_failures_commitment :: "failure_commitment option"
  ns_last_failures_ref :: "data_ref option"
  ns_last_failures_omitted :: "nat option"
  ns_last_failure_texts_truncated :: "nat option"

record state_projection =
  sp_outputs_externalized :: nat
  sp_attempts_archived :: nat
  sp_failure_entries_omitted :: nat
  sp_failure_texts_truncated :: nat
  sp_error_bytes_omitted :: nat
  sp_root_authorizations_omitted :: nat

record owner_transfer =
  ot_from_session_id :: jstr
  ot_to_session_id :: jstr
  ot_by_session_id :: jstr
  ot_transferred_at :: nat

record root_authorization =
  rauth_operation :: root_operation
  rauth_by_session_id :: jstr
  rauth_authorized_at :: nat
  rauth_authorized :: bool
  rauth_path :: "jstr option"

record run_state =
  rs_revision :: nat
  rs_run_id :: jstr
  rs_owner_session_id :: jstr
  rs_parent_session_id :: jstr
  rs_owner_transfers :: "owner_transfer list"
  rs_execution_directory :: "jstr option"
  rs_project_directory :: jstr
  rs_goal :: jstr
  rs_criteria :: "jstr list"
  rs_criteria_locked :: bool
  rs_graph :: graph_def
  rs_status :: run_status
  rs_phase :: jstr
  rs_nodes :: "(jstr \<times> node_state) list"
  rs_global_attempts :: nat
  rs_created_at :: nat
  rs_updated_at :: nat
  rs_mode :: run_mode
  rs_model_snapshot :: "(alg_agent \<times> model_ref) list"
  rs_model_resolution :: "(model_role \<times> model_resolution) list option"
  rs_filesystem_root_authorizations :: "root_authorization list option"
  rs_filesystem_root_authorizations_ref :: "root_authorization_ref option"
  rs_filesystem_root_authorizations_omitted :: "nat option"
  rs_summary :: "jstr option"
  rs_state_projection :: "state_projection option"

section \<open>Access to nodes\<close>

text \<open>
  \<open>run.nodes[id]\<close> and \<open>run.nodes[id]!.field = value\<close>; \<open>Object.values(run.nodes)\<close> in insertion
  order.
\<close>

definition node_of :: "run_state \<Rightarrow> jstr \<Rightarrow> node_state option" where
  "node_of run i = map_of (rs_nodes run) i"

definition set_node :: "jstr \<Rightarrow> node_state \<Rightarrow> run_state \<Rightarrow> run_state" where
  "set_node i st run = run\<lparr>rs_nodes := AList.update i st (rs_nodes run)\<rparr>"

definition modify_node :: "jstr \<Rightarrow> (node_state \<Rightarrow> node_state) \<Rightarrow> run_state \<Rightarrow> run_state" where
  "modify_node i f run = (case node_of run i of None \<Rightarrow> run | Some st \<Rightarrow> set_node i (f st) run)"

definition node_values :: "run_state \<Rightarrow> node_state list" where
  "node_values run = map snd (rs_nodes run)"

definition node_status_of :: "run_state \<Rightarrow> jstr \<Rightarrow> node_status option" where
  "node_status_of run i = map_option ns_status (node_of run i)"

lemma node_of_set_node [simp]:
  "node_of (set_node i st run) j = (if j = i then Some st else node_of run j)"
  by (simp add: node_of_def set_node_def)

lemma node_of_modify_node [simp]:
  "node_of (modify_node i f run) j =
     (if j = i then map_option f (node_of run j) else node_of run j)"
  by (auto simp: modify_node_def split: option.split)

lemma node_status_of_modify_node [simp]:
  "node_status_of (modify_node i f run) j =
     (if j = i then map_option (\<lambda>st. ns_status (f st)) (node_of run j) else node_status_of run j)"
  by (simp add: node_status_of_def option.map_comp o_def)

lemma keys_set_node:
  "node_of run i \<noteq> None \<Longrightarrow> map fst (rs_nodes (set_node i st run)) = map fst (rs_nodes run)"
  unfolding node_of_def set_node_def
  using map_of_eq_None_iff [of "rs_nodes run" i] by (simp add: map_fst_update_present)

lemma keys_modify_node [simp]:
  "map fst (rs_nodes (modify_node i f run)) = map fst (rs_nodes run)"
  by (auto simp: modify_node_def keys_set_node split: option.split)

text \<open>Writing one node leaves every other field of the run alone.\<close>

lemma modify_node_frame [simp]:
  "rs_revision (modify_node i f run) = rs_revision run"
  "rs_run_id (modify_node i f run) = rs_run_id run"
  "rs_owner_session_id (modify_node i f run) = rs_owner_session_id run"
  "rs_parent_session_id (modify_node i f run) = rs_parent_session_id run"
  "rs_owner_transfers (modify_node i f run) = rs_owner_transfers run"
  "rs_execution_directory (modify_node i f run) = rs_execution_directory run"
  "rs_project_directory (modify_node i f run) = rs_project_directory run"
  "rs_goal (modify_node i f run) = rs_goal run"
  "rs_criteria (modify_node i f run) = rs_criteria run"
  "rs_criteria_locked (modify_node i f run) = rs_criteria_locked run"
  "rs_graph (modify_node i f run) = rs_graph run"
  "rs_status (modify_node i f run) = rs_status run"
  "rs_phase (modify_node i f run) = rs_phase run"
  "rs_global_attempts (modify_node i f run) = rs_global_attempts run"
  "rs_created_at (modify_node i f run) = rs_created_at run"
  "rs_updated_at (modify_node i f run) = rs_updated_at run"
  "rs_mode (modify_node i f run) = rs_mode run"
  "rs_model_snapshot (modify_node i f run) = rs_model_snapshot run"
  "rs_model_resolution (modify_node i f run) = rs_model_resolution run"
  "rs_filesystem_root_authorizations (modify_node i f run) = rs_filesystem_root_authorizations run"
  "rs_filesystem_root_authorizations_ref (modify_node i f run) = rs_filesystem_root_authorizations_ref run"
  "rs_filesystem_root_authorizations_omitted (modify_node i f run) = rs_filesystem_root_authorizations_omitted run"
  "rs_summary (modify_node i f run) = rs_summary run"
  "rs_state_projection (modify_node i f run) = rs_state_projection run"
  by (auto simp: modify_node_def set_node_def split: option.split)

end
