(* ===== verification/Limits.thy ===== *)
theory Limits
  imports Alg_Prelude
begin

text \<open>
  \<open>src/limits.ts\<close>: the byte limits of the program, the UTF-8 size of a JavaScript string and
  its bisecting truncation. \<open>Buffer.byteLength(value, "utf8")\<close> encodes a surrogate pair in
  four bytes and every other code unit on its own, an unpaired surrogate as the three bytes of
  U+FFFD.
\<close>

section \<open>Constants\<close>

definition MAX_WORKER_PROMPT_BYTES :: nat where "MAX_WORKER_PROMPT_BYTES = 384 * 1024"
definition MAX_CHECKER_PROMPT_BYTES :: nat where "MAX_CHECKER_PROMPT_BYTES = 384 * 1024"
definition MAX_AGENT_RESPONSE_TEXT_BYTES :: nat where "MAX_AGENT_RESPONSE_TEXT_BYTES = 512 * 1024"
definition MAX_STATE_BYTES :: nat where "MAX_STATE_BYTES = 5 * 1024 * 1024"
definition STATE_WRITE_HEADROOM_BYTES :: nat where "STATE_WRITE_HEADROOM_BYTES = 256 * 1024"
definition MAX_PERSISTED_STATE_BYTES :: nat where
  "MAX_PERSISTED_STATE_BYTES = MAX_STATE_BYTES - STATE_WRITE_HEADROOM_BYTES"
definition MAX_GRAPH_STATE_BYTES :: nat where "MAX_GRAPH_STATE_BYTES = 512 * 1024"
definition MAX_ATTEMPT_HISTORY_BYTES :: nat where "MAX_ATTEMPT_HISTORY_BYTES = 512 * 1024"
definition MAX_INLINE_ATTEMPTS_PER_NODE :: nat where "MAX_INLINE_ATTEMPTS_PER_NODE = 4"
definition MAX_PROJECTED_ATTEMPT_FAILURES :: nat where "MAX_PROJECTED_ATTEMPT_FAILURES = 1"
definition MAX_PROJECTED_NODE_FAILURES :: nat where "MAX_PROJECTED_NODE_FAILURES = 3"
definition MAX_PROJECTED_FAILURE_BYTES :: nat where "MAX_PROJECTED_FAILURE_BYTES = 128"
definition MAX_PROJECTED_NODE_FAILURE_BYTES :: nat where "MAX_PROJECTED_NODE_FAILURE_BYTES = 256"
definition MAX_PROJECTED_ERROR_BYTES :: nat where "MAX_PROJECTED_ERROR_BYTES = 128"
definition MAX_PROJECTED_ROOT_AUTHORIZATIONS :: nat where "MAX_PROJECTED_ROOT_AUTHORIZATIONS = 64"

section \<open>UTF-8 size\<close>

definition high_surrogate :: "code_unit \<Rightarrow> bool" where
  "high_surrogate c \<longleftrightarrow> 0xD800 \<le> c \<and> c \<le> 0xDBFF"

definition low_surrogate :: "code_unit \<Rightarrow> bool" where
  "low_surrogate c \<longleftrightarrow> 0xDC00 \<le> c \<and> c \<le> 0xDFFF"

definition unit_bytes :: "code_unit \<Rightarrow> nat" where
  "unit_bytes c = (if c < 0x80 then 1 else if c < 0x800 then 2 else 3)"

fun utf8_bytes :: "jstr \<Rightarrow> nat" where
  "utf8_bytes [] = 0"
| "utf8_bytes [c] = unit_bytes c"
| "utf8_bytes (c # d # s) =
     (if high_surrogate c \<and> low_surrogate d then 4 + utf8_bytes s
      else unit_bytes c + utf8_bytes (d # s))"

lemma unit_bytes_bounds: "1 \<le> unit_bytes c" "unit_bytes c \<le> 3"
  by (auto simp: unit_bytes_def)

lemma surrogate_unit_bytes:
  "high_surrogate c \<Longrightarrow> unit_bytes c = 3" "low_surrogate c \<Longrightarrow> unit_bytes c = 3"
proof -
  have r: "0xD800 \<le> c \<Longrightarrow> unit_bytes c = 3"
    unfolding unit_bytes_def by (auto simp: word_less_nat_alt word_le_nat_alt)
  show "high_surrogate c \<Longrightarrow> unit_bytes c = 3" by (simp add: high_surrogate_def r)
  have "0xDC00 \<le> c \<Longrightarrow> 0xD800 \<le> c" by (simp add: word_le_nat_alt)
  then show "low_surrogate c \<Longrightarrow> unit_bytes c = 3" by (simp add: low_surrogate_def r)
qed

lemma surrogates_disjoint: "high_surrogate c \<Longrightarrow> low_surrogate c \<Longrightarrow> False"
  by (auto simp: high_surrogate_def low_surrogate_def word_le_nat_alt)

lemma utf8_bytes_Cons_le: "utf8_bytes (c # s) \<le> unit_bytes c + utf8_bytes s"
proof (cases s)
  case (Cons d t)
  show ?thesis
  proof (cases "high_surrogate c \<and> low_surrogate d")
    case True
    have "utf8_bytes s = 3 + utf8_bytes t"
    proof (cases t)
      case Nil
      then show ?thesis using True Cons surrogate_unit_bytes(2) [of d] by simp
    next
      case (Cons e u)
      then show ?thesis using True \<open>s = d # t\<close> surrogates_disjoint [of d] surrogate_unit_bytes(2) [of d]
        by auto
    qed
    then show ?thesis using True Cons surrogate_unit_bytes(1) [of c] by simp
  next
    case False
    then have "utf8_bytes (c # s) = unit_bytes c + utf8_bytes s" using Cons by (simp only: utf8_bytes.simps if_False)
    then show ?thesis by simp
  qed
qed simp

text \<open>Lengthening a string by one code unit never lowers its size: the bisection is sound.\<close>

lemma utf8_bytes_snoc: "utf8_bytes s < utf8_bytes (s @ [c])"
proof (induction s rule: utf8_bytes.induct)
  case (2 d)
  then show ?case using unit_bytes_bounds [of c] surrogate_unit_bytes(1) [of d] by simp
next
  case (3 d e s)
  then show ?case by (cases "high_surrogate d \<and> low_surrogate e") auto
qed (use unit_bytes_bounds in \<open>auto simp: Suc_le_eq\<close>)

lemma utf8_bytes_take_mono: "i \<le> j \<Longrightarrow> utf8_bytes (take i s) \<le> utf8_bytes (take j s)"
proof (induction j rule: dec_induct)
  case (step n)
  show ?case
  proof (cases "n < length s")
    case True
    then have "take (Suc n) s = take n s @ [s ! n]" by (rule take_Suc_conv_app_nth)
    then show ?thesis using step.IH utf8_bytes_snoc [of "take n s" "s ! n"] by simp
  qed (use step.IH in simp)
qed simp

lemma utf8_bytes_prefix_mono: "utf8_bytes s \<le> utf8_bytes (s @ t)"
  using utf8_bytes_take_mono [of "length s" "length (s @ t)" "s @ t"] by simp

lemma utf8_bytes_append_le: "utf8_bytes (s @ t) \<le> utf8_bytes s + utf8_bytes t"
proof (induction s rule: utf8_bytes.induct)
  case (2 c)
  then show ?case using utf8_bytes_Cons_le [of c t] by simp
qed auto

lemma length_le_utf8_bytes: "length s \<le> utf8_bytes s"
proof (induction s rule: rev_induct)
  case (snoc c s)
  then show ?case using utf8_bytes_snoc [of s c] by simp
qed simp

lemma utf8_bytes_ascii: "list_all (\<lambda>c. c < 0x80) s \<Longrightarrow> utf8_bytes s = length s"
proof (induction s rule: utf8_bytes.induct)
  case (3 c d s)
  then have "\<not> high_surrogate c" using surrogate_unit_bytes(1) [of c] by (auto simp: unit_bytes_def)
  then show ?case using 3 by (auto simp: unit_bytes_def)
qed (auto simp: unit_bytes_def)

section \<open>Truncation\<close>

text \<open>
  The loop of \<open>truncateUtf8\<close>: \<open>middle = ceil((low + high) / 2)\<close>, keep the half whose prefix
  still fits.
\<close>

function truncate_search :: "jstr \<Rightarrow> nat \<Rightarrow> nat \<Rightarrow> nat \<Rightarrow> nat" where
  "truncate_search s maximum low high =
     (if low < high then
        let middle = (low + high + 1) div 2 in
        if utf8_bytes (take middle s) \<le> maximum
        then truncate_search s maximum middle high
        else truncate_search s maximum low (middle - 1)
      else low)"
  by pat_completeness auto
termination
  by (relation "measure (\<lambda>(s, maximum, low, high). high - low)") auto

declare truncate_search.simps [simp del]

definition truncate_utf8 :: "jstr \<Rightarrow> nat \<Rightarrow> jstr" where
  "truncate_utf8 s maximum =
     (if utf8_bytes s \<le> maximum then s
      else take (truncate_search s maximum 0 (length s)) s)"

lemma truncate_search_spec:
  assumes "low \<le> high" "utf8_bytes (take low s) \<le> maximum"
    and "high < length s \<longrightarrow> maximum < utf8_bytes (take (Suc high) s)"
  shows "let k = truncate_search s maximum low high in
    low \<le> k \<and> k \<le> high \<and> utf8_bytes (take k s) \<le> maximum \<and>
    (k < length s \<longrightarrow> maximum < utf8_bytes (take (Suc k) s))"
  using assms
proof (induction s maximum low high rule: truncate_search.induct)
  case (1 s maximum low high)
  show ?case
  proof (cases "low < high")
    case True
    let ?m = "(low + high + 1) div 2"
    have m: "low < ?m" "?m \<le> high" using True by auto
    show ?thesis
    proof (cases "utf8_bytes (take ?m s) \<le> maximum")
      case fits: True
      have "truncate_search s maximum low high = truncate_search s maximum ?m high"
        using True fits by (subst truncate_search.simps) (simp add: Let_def)
      then show ?thesis using "1.IH"(1) [OF True refl fits] fits m "1.prems" by (auto simp: Let_def)
    next
      case over: False
      have eq: "truncate_search s maximum low high = truncate_search s maximum low (?m - 1)"
        using True over by (subst truncate_search.simps) (simp add: Let_def)
      have "Suc (?m - 1) = ?m" using m by simp
      then have "let k = truncate_search s maximum low (?m - 1) in
          low \<le> k \<and> k \<le> ?m - 1 \<and> utf8_bytes (take k s) \<le> maximum \<and>
          (k < length s \<longrightarrow> maximum < utf8_bytes (take (Suc k) s))"
        using "1.IH"(2) [OF True refl over] over m "1.prems" by simp
      then show ?thesis unfolding eq Let_def using m by (meson diff_le_self order_trans)
    qed
  next
    case False
    then have "truncate_search s maximum low high = low" by (subst truncate_search.simps) simp
    then show ?thesis using "1.prems" False by (auto simp: Let_def)
  qed
qed

lemma truncate_utf8_take:
  obtains k where "truncate_utf8 s maximum = take k s" "k \<le> length s"
    "utf8_bytes (take k s) \<le> maximum"
    "k < length s \<longrightarrow> maximum < utf8_bytes (take (Suc k) s)"
proof (cases "utf8_bytes s \<le> maximum")
  case True
  then show thesis using that [of "length s"] by (simp add: truncate_utf8_def)
next
  case False
  have "\<exists>k. truncate_utf8 s maximum = take k s \<and> k \<le> length s \<and>
    utf8_bytes (take k s) \<le> maximum \<and>
    (k < length s \<longrightarrow> maximum < utf8_bytes (take (Suc k) s))"
    using False truncate_search_spec [of 0 "length s" s maximum]
    by (intro exI [of _ "truncate_search s maximum 0 (length s)"])
      (auto simp: truncate_utf8_def Let_def)
  then show thesis using that by blast
qed

lemma utf8_bytes_truncate_le: "utf8_bytes (truncate_utf8 s maximum) \<le> maximum"
  by (rule truncate_utf8_take [of s maximum]) simp

lemma truncate_utf8_id: "utf8_bytes s \<le> maximum \<Longrightarrow> truncate_utf8 s maximum = s"
  by (simp add: truncate_utf8_def)

text \<open>
  C11. Truncation returns a prefix of its argument that fits the limit, and no longer prefix
  fits: the bisection finds the maximum although the size of a prefix does not grow evenly
  (a surrogate pair cut in half counts three bytes, the whole pair four).
\<close>

theorem truncate_utf8_longest_fitting_prefix:
  "\<exists>k. truncate_utf8 s maximum = take k s \<and> utf8_bytes (take k s) \<le> maximum \<and>
     (\<forall>j. utf8_bytes (take j s) \<le> maximum \<longrightarrow> take j s = take (min j k) s)"
proof -
  obtain k where k: "truncate_utf8 s maximum = take k s" "k \<le> length s"
    "utf8_bytes (take k s) \<le> maximum"
    "k < length s \<longrightarrow> maximum < utf8_bytes (take (Suc k) s)"
    by (rule truncate_utf8_take)
  have "take j s = take (min j k) s" if fits: "utf8_bytes (take j s) \<le> maximum" for j
  proof (cases "j \<le> k \<or> k = length s")
    case False
    then have "maximum < utf8_bytes (take (Suc k) s)" using k by simp
    moreover have "utf8_bytes (take (Suc k) s) \<le> utf8_bytes (take j s)"
      using False by (intro utf8_bytes_take_mono) simp
    ultimately show ?thesis using fits by simp
  qed (auto simp: min_def)
  then show ?thesis using k by blast
qed

theorem truncate_utf8_longest_fitting_prefix_witness:
  "truncate_utf8 [0xD83D, 0xDE00] 3 = [0xD83D]"
proof -
  let ?s = "[0xD83D, 0xDE00] :: jstr"
  have one: "utf8_bytes (take 1 ?s) = 3" and two: "utf8_bytes ?s = 4" by code_simp+
  obtain k where k: "truncate_utf8 ?s 3 = take k ?s" "utf8_bytes (take k ?s) \<le> 3"
    and all: "\<forall>j. utf8_bytes (take j ?s) \<le> 3 \<longrightarrow> take j ?s = take (min j k) ?s"
    using truncate_utf8_longest_fitting_prefix [of ?s 3] by blast
  have "take 1 ?s = take (min 1 k) ?s" using all one by (metis order_refl)
  then have "0 < k" by (cases k) auto
  moreover have "k < 2"
  proof (rule ccontr)
    assume "\<not> k < 2"
    then have "take k ?s = ?s" by simp
    then show False using k(2) two by simp
  qed
  ultimately have "k = 1" by simp
  then show ?thesis using k(1) by simp
qed

end
