(* ===== verification/Json_Values.thy ===== *)
theory Json_Values
  imports Limits
begin

text \<open>
  JSON values and \<open>JSON.stringify\<close> as ECMAScript defines it (\<open>QuoteJSONString\<close> with its
  well-formed escapes), used by the byte limits of \<open>src/limits.ts\<close>. A number is kept as the
  lexeme that is printed.
\<close>

datatype json =
  J_null
| J_bool bool
| J_num jstr
| J_str jstr
| J_arr "json list"
| J_obj "(jstr \<times> json) list"

definition hex_digit :: "nat \<Rightarrow> code_unit" where
  "hex_digit n = (if n < 10 then 48 + of_nat n else 87 + of_nat n)"

definition unicode_escape :: "code_unit \<Rightarrow> jstr" where
  "unicode_escape c =
     (let n = unat c in
      [0x5C, 0x75, hex_digit (n div 4096 mod 16), hex_digit (n div 256 mod 16),
       hex_digit (n div 16 mod 16), hex_digit (n mod 16)])"

definition quote_unit :: "code_unit \<Rightarrow> jstr" where
  "quote_unit c =
     (if c = 0x08 then [0x5C, 0x62]
      else if c = 0x09 then [0x5C, 0x74]
      else if c = 0x0A then [0x5C, 0x6E]
      else if c = 0x0C then [0x5C, 0x66]
      else if c = 0x0D then [0x5C, 0x72]
      else if c = 0x22 then [0x5C, 0x22]
      else if c = 0x5C then [0x5C, 0x5C]
      else if c < 0x20 then unicode_escape c
      else [c])"

fun quote_units :: "jstr \<Rightarrow> jstr" where
  "quote_units [] = []"
| "quote_units [c] =
     (if high_surrogate c \<or> low_surrogate c then unicode_escape c else quote_unit c)"
| "quote_units (c # d # s) =
     (if high_surrogate c \<and> low_surrogate d then c # d # quote_units s
      else (if high_surrogate c \<or> low_surrogate c then unicode_escape c else quote_unit c)
           @ quote_units (d # s))"

definition quote_string :: "jstr \<Rightarrow> jstr" where
  "quote_string s = 0x22 # quote_units s @ [0x22]"

fun stringify :: "json \<Rightarrow> jstr"
  and stringify_items :: "json list \<Rightarrow> jstr list"
  and stringify_members :: "(jstr \<times> json) list \<Rightarrow> jstr list" where
  "stringify J_null = js ''null''"
| "stringify (J_bool b) = (if b then js ''true'' else js ''false'')"
| "stringify (J_num n) = n"
| "stringify (J_str s) = quote_string s"
| "stringify (J_arr xs) = js ''['' @ js_join (js '','') (stringify_items xs) @ js '']''"
| "stringify (J_obj ms) = js ''{'' @ js_join (js '','') (stringify_members ms) @ js ''}''"
| "stringify_items [] = []"
| "stringify_items (x # xs) = stringify x # stringify_items xs"
| "stringify_members [] = []"
| "stringify_members ((k, v) # ms) =
     (quote_string k @ js '':'' @ stringify v) # stringify_members ms"

definition serialized_bytes :: "json \<Rightarrow> nat" where
  "serialized_bytes v = utf8_bytes (stringify v)"

text \<open>Rendering helpers: optional members that are undefined are left out.\<close>

definition j_nat :: "nat \<Rightarrow> json" where "j_nat n = J_num (dec n)"

definition j_int :: "int \<Rightarrow> json" where
  "j_int i = J_num (if i < 0 then 0x2D # dec (nat (- i)) else dec (nat i))"

definition j_strs :: "jstr list \<Rightarrow> json" where "j_strs xs = J_arr (map J_str xs)"

definition j_opt :: "string \<Rightarrow> ('a \<Rightarrow> json) \<Rightarrow> 'a option \<Rightarrow> (jstr \<times> json) list" where
  "j_opt k f v = (case v of None \<Rightarrow> [] | Some x \<Rightarrow> [(js k, f x)])"

section \<open>A bound on the serialised size\<close>

text \<open>
  Escaping at most multiplies a code unit by six, and a code unit is at most three bytes, so
  the size of a serialised value is bounded by the lengths of its strings.
\<close>

lemma utf8_bytes_le_ascii: "list_all (\<lambda>c. c < 0x80) s \<Longrightarrow> utf8_bytes (s @ t) \<le> length s + utf8_bytes t"
  using utf8_bytes_append_le [of s t] by (simp add: utf8_bytes_ascii)

lemma hex_digit_ascii: "n < 16 \<Longrightarrow> hex_digit n < 0x80"
  by (auto simp: hex_digit_def word_less_nat_alt unat_word_ariths unat_of_nat take_bit_nat_eq_self)

lemma unicode_escape_bytes: "utf8_bytes (unicode_escape c) = 6"
proof -
  have "list_all (\<lambda>c. c < 0x80) (unicode_escape c)"
    by (simp add: unicode_escape_def Let_def hex_digit_ascii)
  then have "utf8_bytes (unicode_escape c) = length (unicode_escape c)" by (rule utf8_bytes_ascii)
  then show ?thesis by (simp add: unicode_escape_def Let_def)
qed

lemma quote_unit_bytes: "utf8_bytes (quote_unit c) \<le> 6"
  using unit_bytes_bounds(2) [of c]
  by (auto simp: quote_unit_def unicode_escape_bytes unit_bytes_def high_surrogate_def)

lemma quote_units_bytes: "utf8_bytes (quote_units s) \<le> 6 * length s"
proof (induction s rule: quote_units.induct)
  case (2 c)
  then show ?case using quote_unit_bytes [of c] by (simp add: unicode_escape_bytes)
next
  case (3 c d s)
  show ?case
  proof (cases "high_surrogate c \<and> low_surrogate d")
    case True
    have "utf8_bytes (c # d # quote_units s) \<le> 6 + utf8_bytes (quote_units s)"
      using True by simp
    then show ?thesis using 3 True by simp
  next
    case False
    let ?q = "if high_surrogate c \<or> low_surrogate c then unicode_escape c else quote_unit c"
    have "utf8_bytes ?q \<le> 6" using quote_unit_bytes [of c] by (simp add: unicode_escape_bytes)
    moreover have "utf8_bytes (?q @ quote_units (d # s)) \<le> utf8_bytes ?q + utf8_bytes (quote_units (d # s))"
      by (rule utf8_bytes_append_le)
    moreover have "quote_units (c # d # s) = ?q @ quote_units (d # s)"
      using False by (simp only: quote_units.simps if_False)
    ultimately show ?thesis using 3(2) [OF False] by simp
  qed
qed simp

lemma quote_string_bytes: "utf8_bytes (quote_string s) \<le> 6 * length s + 2"
proof -
  have "utf8_bytes (quote_string s) \<le> utf8_bytes [0x22] + utf8_bytes (quote_units s @ [0x22])"
    unfolding quote_string_def using utf8_bytes_append_le [of "[0x22]" "quote_units s @ [0x22]"] by simp
  moreover have "utf8_bytes (quote_units s @ [0x22]) \<le> utf8_bytes (quote_units s) + utf8_bytes [0x22]"
    by (rule utf8_bytes_append_le)
  moreover have "utf8_bytes [0x22] = 1" by (simp add: unit_bytes_def)
  ultimately show ?thesis using quote_units_bytes [of s] by linarith
qed

fun json_bound :: "json \<Rightarrow> nat"
  and items_bound :: "json list \<Rightarrow> nat"
  and members_bound :: "(jstr \<times> json) list \<Rightarrow> nat" where
  "json_bound J_null = 4"
| "json_bound (J_bool b) = 5"
| "json_bound (J_num n) = 3 * length n"
| "json_bound (J_str s) = 6 * length s + 2"
| "json_bound (J_arr xs) = 2 + items_bound xs"
| "json_bound (J_obj ms) = 2 + members_bound ms"
| "items_bound [] = 0"
| "items_bound (x # xs) = Suc (json_bound x + items_bound xs)"
| "members_bound [] = 0"
| "members_bound ((k, v) # ms) = 6 * length k + 4 + json_bound v + members_bound ms"

lemma utf8_bytes_le_3: "utf8_bytes s \<le> 3 * length s"
proof (induction s)
  case (Cons c s)
  then show ?case using utf8_bytes_Cons_le [of c s] unit_bytes_bounds(2) [of c] by simp
qed simp

lemma js_join_bytes:
  "utf8_bytes (js_join sep xs) \<le> sum_list (map (\<lambda>x. utf8_bytes sep + utf8_bytes x) xs)"
proof (induction sep xs rule: js_join.induct)
  case (3 sep x y zs)
  have "utf8_bytes (x @ sep @ js_join sep (y # zs)) \<le>
      utf8_bytes x + (utf8_bytes sep + utf8_bytes (js_join sep (y # zs)))"
    using utf8_bytes_append_le [of x "sep @ js_join sep (y # zs)"]
      utf8_bytes_append_le [of sep "js_join sep (y # zs)"] by linarith
  then show ?case using 3 by simp
qed simp_all

lemma json_literal_bytes:
  "utf8_bytes (js ''null'') = 4" "utf8_bytes (js ''true'') = 4" "utf8_bytes (js ''false'') = 5"
  "utf8_bytes (js '','') = 1" "utf8_bytes (js '':'') = 1" "utf8_bytes (js ''['') = 1"
  "utf8_bytes (js '']'') = 1" "utf8_bytes (js ''{'') = 1" "utf8_bytes (js ''}'') = 1"
  by code_simp+

lemma bracketed_bytes:
  "utf8_bytes (a @ js_join sep xs @ b) \<le>
     utf8_bytes a + sum_list (map (\<lambda>x. utf8_bytes sep + utf8_bytes x) xs) + utf8_bytes b"
  using utf8_bytes_append_le [of a "js_join sep xs @ b"] utf8_bytes_append_le [of "js_join sep xs" b]
    js_join_bytes [of sep xs] by linarith

lemma stringify_bound:
  "utf8_bytes (stringify v) \<le> json_bound v"
  "sum_list (map (\<lambda>x. utf8_bytes (js '','') + utf8_bytes x) (stringify_items xs)) \<le> items_bound xs"
  "sum_list (map (\<lambda>x. utf8_bytes (js '','') + utf8_bytes x) (stringify_members ms)) \<le> members_bound ms"
proof (induction v and xs and ms rule: stringify_stringify_items_stringify_members.induct)
  case (3 n)
  then show ?case using utf8_bytes_le_3 by simp
next
  case (4 s)
  then show ?case using quote_string_bytes by simp
next
  case (5 xs)
  then show ?case
    using bracketed_bytes [of "js ''[''" "js '',''" "stringify_items xs" "js '']''"]
    by (simp add: json_literal_bytes)
next
  case (6 ms)
  then show ?case
    using bracketed_bytes [of "js ''{''" "js '',''" "stringify_members ms" "js ''}''"]
    by (simp add: json_literal_bytes)
next
  case (10 k v ms)
  have "utf8_bytes (quote_string k @ js '':'' @ stringify v) \<le>
      utf8_bytes (quote_string k) + (1 + utf8_bytes (stringify v))"
    using utf8_bytes_append_le [of "quote_string k" "js '':'' @ stringify v"]
      utf8_bytes_append_le [of "js '':''" "stringify v"] by (simp add: json_literal_bytes)
  then show ?case using 10 quote_string_bytes [of k] by (simp add: json_literal_bytes)
qed (simp_all add: json_literal_bytes)

lemma serialized_bytes_bound: "serialized_bytes v \<le> json_bound v"
  by (simp add: serialized_bytes_def stringify_bound)

lemma items_bound_map_le:
  "(\<And>x. x \<in> set xs \<Longrightarrow> json_bound (f x) \<le> b) \<Longrightarrow> items_bound (map f xs) \<le> length xs * Suc b"
  by (induction xs) (auto simp: algebra_simps, force)

section \<open>Parsing\<close>

text \<open>
  \<open>JSON.parse\<close>, the ECMAScript grammar on code units. A duplicate key keeps its first position
  and takes the last value. The fuel bounds the nesting of the two recursive functions, each
  call of which is preceded by the consumption of a code unit within two calls; \<open>json_parse\<close>
  starts with two units of fuel per code unit and two to spare.
\<close>

definition json_space :: "code_unit \<Rightarrow> bool" where
  "json_space c \<longleftrightarrow> c = 0x20 \<or> c = 0x09 \<or> c = 0x0A \<or> c = 0x0D"

definition skip_space :: "jstr \<Rightarrow> jstr" where "skip_space = dropWhile json_space"

definition json_digit :: "code_unit \<Rightarrow> bool" where "json_digit c \<longleftrightarrow> 0x30 \<le> c \<and> c \<le> 0x39"

fun literal_rest :: "jstr \<Rightarrow> jstr \<Rightarrow> jstr option" where
  "literal_rest [] s = Some s"
| "literal_rest (c # l) [] = None"
| "literal_rest (c # l) (d # s) = (if c = d then literal_rest l s else None)"

text \<open>\<open>-? (0 | [1-9][0-9]*) (\.[0-9]+)? ([eE][+-]?[0-9]+)?\<close>, the lexeme and the rest.\<close>

definition parse_digits :: "jstr \<Rightarrow> (jstr \<times> jstr) option" where
  "parse_digits s =
     (let ds = takeWhile json_digit s in
      if ds = [] then None else Some (ds, dropWhile json_digit s))"

definition parse_integer_part :: "jstr \<Rightarrow> (jstr \<times> jstr) option" where
  "parse_integer_part s =
     (case s of
        [] \<Rightarrow> None
      | c # r \<Rightarrow> if c = 0x30 then Some ([c], r) else parse_digits s)"

definition parse_fraction :: "jstr \<Rightarrow> (jstr \<times> jstr) option" where
  "parse_fraction s =
     (case s of
        [] \<Rightarrow> Some ([], [])
      | c # r \<Rightarrow> if c = 0x2E then map_option (\<lambda>(ds, q). (c # ds, q)) (parse_digits r) else Some ([], s))"

definition parse_exponent :: "jstr \<Rightarrow> (jstr \<times> jstr) option" where
  "parse_exponent s =
     (case s of
        [] \<Rightarrow> Some ([], [])
      | c # r \<Rightarrow>
          if c = 0x65 \<or> c = 0x45 then
            (case r of
               [] \<Rightarrow> None
             | d # q \<Rightarrow>
                 if d = 0x2B \<or> d = 0x2D
                 then map_option (\<lambda>(ds, u). (c # d # ds, u)) (parse_digits q)
                 else map_option (\<lambda>(ds, u). (c # ds, u)) (parse_digits r))
          else Some ([], s))"

definition parse_number :: "jstr \<Rightarrow> (json \<times> jstr) option" where
  "parse_number s =
     (let (sign, r) = (if s \<noteq> [] \<and> hd s = 0x2D then ([0x2D], tl s) else ([], s)) in
      case parse_integer_part r of
        None \<Rightarrow> None
      | Some (i, r1) \<Rightarrow>
          (case parse_fraction r1 of
             None \<Rightarrow> None
           | Some (f, r2) \<Rightarrow>
               (case parse_exponent r2 of
                  None \<Rightarrow> None
                | Some (e, r3) \<Rightarrow> Some (J_num (sign @ i @ f @ e), r3))))"

definition hex_value :: "code_unit \<Rightarrow> nat option" where
  "hex_value c =
     (if json_digit c then Some (unat c - 48)
      else if 0x61 \<le> c \<and> c \<le> 0x66 then Some (unat c - 87)
      else if 0x41 \<le> c \<and> c \<le> 0x46 then Some (unat c - 55)
      else None)"

definition hex4 :: "code_unit \<Rightarrow> code_unit \<Rightarrow> code_unit \<Rightarrow> code_unit \<Rightarrow> code_unit option" where
  "hex4 a b c d =
     (case (hex_value a, hex_value b, hex_value c, hex_value d) of
        (Some w, Some x, Some y, Some z) \<Rightarrow> Some (of_nat (((w * 16 + x) * 16 + y) * 16 + z))
      | _ \<Rightarrow> None)"

definition simple_escape :: "code_unit \<Rightarrow> code_unit option" where
  "simple_escape e = map_of
     [(0x22, 0x22), (0x5C, 0x5C), (0x2F, 0x2F), (0x62, 0x08), (0x66, 0x0C),
      (0x6E, 0x0A), (0x72, 0x0D), (0x74, 0x09)] e"

text \<open>The characters of a string after its opening quote.\<close>

fun parse_chars :: "jstr \<Rightarrow> (jstr \<times> jstr) option" where
  "parse_chars [] = None"
| "parse_chars (c # s) =
     (if c = 0x22 then Some ([], s)
      else if c = 0x5C then
        (case s of
           e # r \<Rightarrow>
             if e = 0x75 then
               (case r of
                  x1 # x2 # x3 # x4 # q \<Rightarrow>
                    (case hex4 x1 x2 x3 x4 of
                       None \<Rightarrow> None
                     | Some u \<Rightarrow> map_option (\<lambda>(t, z). (u # t, z)) (parse_chars q))
                | _ \<Rightarrow> None)
             else
               (case simple_escape e of
                  None \<Rightarrow> None
                | Some u \<Rightarrow> map_option (\<lambda>(t, z). (u # t, z)) (parse_chars r))
         | [] \<Rightarrow> None)
      else if c < 0x20 then None
      else map_option (\<lambda>(t, z). (c # t, z)) (parse_chars s))"

fun parse_value :: "nat \<Rightarrow> jstr \<Rightarrow> (json \<times> jstr) option"
  and parse_elements :: "nat \<Rightarrow> json list \<Rightarrow> jstr \<Rightarrow> (json \<times> jstr) option"
  and parse_members :: "nat \<Rightarrow> (jstr \<times> json) list \<Rightarrow> jstr \<Rightarrow> (json \<times> jstr) option" where
  "parse_value 0 s = None"
| "parse_value (Suc n) s =
     (case skip_space s of
        [] \<Rightarrow> None
      | c # r \<Rightarrow>
          if c = 0x22 then map_option (\<lambda>(t, z). (J_str t, z)) (parse_chars r)
          else if c = 0x5B then
            (case skip_space r of
               [] \<Rightarrow> None
             | d # q \<Rightarrow> if d = 0x5D then Some (J_arr [], q) else parse_elements n [] r)
          else if c = 0x7B then
            (case skip_space r of
               [] \<Rightarrow> None
             | d # q \<Rightarrow> if d = 0x7D then Some (J_obj [], q) else parse_members n [] r)
          else if c = 0x6E then map_option (\<lambda>z. (J_null, z)) (literal_rest (js ''ull'') r)
          else if c = 0x74 then map_option (\<lambda>z. (J_bool True, z)) (literal_rest (js ''rue'') r)
          else if c = 0x66 then map_option (\<lambda>z. (J_bool False, z)) (literal_rest (js ''alse'') r)
          else parse_number (c # r))"
| "parse_elements 0 acc s = None"
| "parse_elements (Suc n) acc s =
     (case parse_value n s of
        None \<Rightarrow> None
      | Some (v, r) \<Rightarrow>
          (case skip_space r of
             [] \<Rightarrow> None
           | c # q \<Rightarrow>
               if c = 0x2C then parse_elements n (acc @ [v]) q
               else if c = 0x5D then Some (J_arr (acc @ [v]), q)
               else None))"
| "parse_members 0 acc s = None"
| "parse_members (Suc n) acc s =
     (case skip_space s of
        [] \<Rightarrow> None
      | q0 # r0 \<Rightarrow>
          if q0 = 0x22 then
            (case parse_chars r0 of
               None \<Rightarrow> None
             | Some (k, r1) \<Rightarrow>
                 (case skip_space r1 of
                    [] \<Rightarrow> None
                  | q1 # r2 \<Rightarrow>
                      if q1 = 0x3A then
                        (case parse_value n r2 of
                           None \<Rightarrow> None
                         | Some (v, r3) \<Rightarrow>
                             (case skip_space r3 of
                                [] \<Rightarrow> None
                              | q2 # r4 \<Rightarrow>
                                  if q2 = 0x2C then parse_members n (AList.update k v acc) r4
                                  else if q2 = 0x7D then Some (J_obj (AList.update k v acc), r4)
                                  else None))
                      else None))
          else None)"

definition json_parse :: "jstr \<Rightarrow> json option" where
  "json_parse s =
     (case parse_value (2 * length s + 2) s of
        None \<Rightarrow> None
      | Some (v, r) \<Rightarrow> if skip_space r = [] then Some v else None)"

lemma json_parse_examples:
  "json_parse (js '' [1, [true,null ], {} , -0.5e+3]'') =
     Some (J_arr [J_num (js ''1''), J_arr [J_bool True, J_null], J_obj [], J_num (js ''-0.5e+3'')])"
  "json_parse (js ''explore.map'') = None"
  "json_parse (js ''[01]'') = None"
  by code_simp+

end
