(* ===== verification/Paths.thy ===== *)
theory Paths
  imports Alg_Prelude
begin

text \<open>
  \<open>src/paths.ts\<close>, its lexical part: identifiers that are safe as object keys and as file names,
  project-relative metadata paths, run-derived paths, and lexical containment. Node's POSIX
  \<open>path.normalize\<close>, \<open>path.resolve\<close> and \<open>path.relative\<close> are written out on path segments.
\<close>

section \<open>Character classes\<close>

definition upper_alpha :: "code_unit \<Rightarrow> bool" where "upper_alpha c \<longleftrightarrow> 0x41 \<le> c \<and> c \<le> 0x5A"
definition lower_alpha :: "code_unit \<Rightarrow> bool" where "lower_alpha c \<longleftrightarrow> 0x61 \<le> c \<and> c \<le> 0x7A"
definition digit :: "code_unit \<Rightarrow> bool" where "digit c \<longleftrightarrow> 0x30 \<le> c \<and> c \<le> 0x39"

definition alpha_num :: "code_unit \<Rightarrow> bool" where
  "alpha_num c \<longleftrightarrow> upper_alpha c \<or> lower_alpha c \<or> digit c"

text \<open>\<open>[A-Za-z0-9._-]\<close>\<close>

definition id_unit :: "code_unit \<Rightarrow> bool" where
  "id_unit c \<longleftrightarrow> alpha_num c \<or> c = 0x2E \<or> c = 0x5F \<or> c = 0x2D"

definition control_unit :: "code_unit \<Rightarrow> bool" where
  "control_unit c \<longleftrightarrow> c \<le> 0x1F \<or> c = 0x7F"

text \<open>
  \<open>toLowerCase\<close> as far as equality with an ASCII name can see it: the ASCII capitals, and the
  Kelvin sign, the one other code unit whose lower case is an ASCII letter.
\<close>

definition lower_unit :: "code_unit \<Rightarrow> code_unit" where
  "lower_unit c = (if upper_alpha c then c + 0x20 else if c = 0x212A then 0x6B else c)"

definition js_lower :: "jstr \<Rightarrow> jstr" where "js_lower = map lower_unit"

text \<open>Case folding of a regular expression with the \<open>i\<close> flag and no \<open>u\<close> flag: ASCII letters only.\<close>

definition fold_ascii :: "jstr \<Rightarrow> jstr" where
  "fold_ascii = map (\<lambda>c. if upper_alpha c then c + 0x20 else c)"

definition line_terminator :: "code_unit \<Rightarrow> bool" where
  "line_terminator c \<longleftrightarrow> c = 0x0A \<or> c = 0x0D \<or> c = 0x2028 \<or> c = 0x2029"

section \<open>Identifiers\<close>

definition RESERVED_IDS :: "jstr list" where
  "RESERVED_IDS = map js
    [''__definegetter__'', ''__definesetter__'', ''__lookupgetter__'', ''__lookupsetter__'',
     ''__proto__'', ''constructor'', ''hasownproperty'', ''isprototypeof'',
     ''propertyisenumerable'', ''prototype'', ''tolocalestring'', ''tostring'', ''valueof'']"

definition WINDOWS_DEVICES :: "jstr list" where
  "WINDOWS_DEVICES = map js
    ([''con'', ''prn'', ''aux'', ''nul'', ''clock$'',
      ''com1'', ''com2'', ''com3'', ''com4'', ''com5'', ''com6'', ''com7'', ''com8'', ''com9'',
      ''lpt1'', ''lpt2'', ''lpt3'', ''lpt4'', ''lpt5'', ''lpt6'', ''lpt7'', ''lpt8'', ''lpt9''])"

text \<open>\<open>/^(?:con|...|lpt[1-9])(?:\..*)?$/i\<close>: no device name holds a dot, so the match is forced.\<close>

definition windows_device :: "jstr \<Rightarrow> bool" where
  "windows_device v \<longleftrightarrow>
     fold_ascii (takeWhile (\<lambda>c. c \<noteq> 0x2E) v) \<in> set WINDOWS_DEVICES \<and>
     list_all (\<lambda>c. \<not> line_terminator c) (dropWhile (\<lambda>c. c \<noteq> 0x2E) v)"

definition safe_id_pattern :: "jstr \<Rightarrow> bool" where
  "safe_id_pattern v \<longleftrightarrow>
     v \<noteq> [] \<and> length v \<le> 64 \<and> alpha_num (hd v) \<and> list_all id_unit (tl v)"

definition is_safe_id :: "jstr \<Rightarrow> bool" where
  "is_safe_id v \<longleftrightarrow>
     safe_id_pattern v \<and> v \<noteq> js ''.'' \<and> v \<noteq> js ''..'' \<and>
     js_lower v \<notin> set RESERVED_IDS \<and> \<not> windows_device v"

text \<open>\<open>/^[A-Za-z][A-Za-z0-9_-]{0,63}$/\<close> of the input keys in \<open>src/schemas.ts\<close>.\<close>

definition is_safe_input_key :: "jstr \<Rightarrow> bool" where
  "is_safe_input_key v \<longleftrightarrow>
     v \<noteq> [] \<and> length v \<le> 64 \<and> (upper_alpha (hd v) \<or> lower_alpha (hd v)) \<and>
     list_all (\<lambda>c. alpha_num c \<or> c = 0x5F \<or> c = 0x2D) (tl v) \<and> is_safe_id v"

lemma is_safe_id_length: "is_safe_id v \<Longrightarrow> v \<noteq> [] \<and> length v \<le> 64"
  by (simp add: is_safe_id_def safe_id_pattern_def)

lemma id_unit_not_space: "id_unit c \<Longrightarrow> \<not> js_space c"
  by (auto simp: id_unit_def alpha_num_def upper_alpha_def lower_alpha_def digit_def js_space_def
      word_le_nat_alt word_unat_eq_iff)

lemma is_safe_id_units: "is_safe_id v \<Longrightarrow> list_all id_unit v"
  by (cases v) (auto simp: is_safe_id_def safe_id_pattern_def id_unit_def)

lemma is_safe_id_trimmed: "is_safe_id v \<Longrightarrow> js_trimmed v"
proof -
  assume v: "is_safe_id v"
  then have "v \<noteq> []" "list_all id_unit v" using is_safe_id_units is_safe_id_length by auto
  then have "id_unit (hd v)" "id_unit (last v)" by (auto simp: list_all_iff)
  then show ?thesis using id_unit_not_space by (auto simp: js_trimmed_iff)
qed

text \<open>
  Identifiers written in lower-case letters are safe unless they are one of the reserved names:
  the way the concrete identifiers of the examples are decided.
\<close>

definition lower_letters :: "char list" where
  "lower_letters = ''abcdefghijklmnopqrstuvwxyz''"

definition lower_reserved :: "string list" where
  "lower_reserved =
     [''constructor'', ''hasownproperty'', ''isprototypeof'', ''propertyisenumerable'', ''prototype'',
      ''tolocalestring'', ''tostring'', ''valueof'', ''con'', ''prn'', ''aux'', ''nul'']"

lemma lower_letter_units:
  "c \<in> set lower_letters \<Longrightarrow> lower_alpha (of_char c) \<and> \<not> upper_alpha (of_char c) \<and>
     (of_char c :: code_unit) \<noteq> 0x2E \<and> (of_char c :: code_unit) \<noteq> 0x212A"
  by (auto simp: lower_letters_def lower_alpha_def upper_alpha_def)

lemma takeWhile_all: "list_all P xs \<Longrightarrow> takeWhile P xs = xs \<and> dropWhile P xs = []"
  by (induction xs) auto

lemma is_safe_id_lower:
  assumes "s \<noteq> []" "length s \<le> 64" "list_all (\<lambda>c. c \<in> set lower_letters) s"
    and "s \<notin> set lower_reserved"
  shows "is_safe_id (js s)"
proof -
  have units: "list_all (\<lambda>c. lower_alpha c \<and> \<not> upper_alpha c \<and> c \<noteq> 0x2E \<and> c \<noteq> 0x212A) (js s)"
    using assms(3) lower_letter_units by (auto simp: js_def list_all_iff)
  then have low: "js_lower (js s) = js s" "fold_ascii (js s) = js s"
    by (simp_all add: js_lower_def fold_ascii_def lower_unit_def list_all_iff map_idI)
  have nodot: "takeWhile (\<lambda>c. c \<noteq> 0x2E) (js s) = js s" "0x2E \<notin> set (js s)"
    using units takeWhile_all [of "\<lambda>c. c \<noteq> 0x2E" "js s"] by (auto simp: list_all_iff)
  have notin: "js s \<notin> js ` set ts"
    if "list_all (\<lambda>t. t \<in> set lower_reserved \<or> \<not> list_all (\<lambda>c. c \<in> set lower_letters) t) ts" for ts
    using assms(3,4) that by (auto simp: list_all_iff)
  have "js s \<notin> set RESERVED_IDS"
    unfolding RESERVED_IDS_def set_map by (rule notin) code_simp
  moreover have "js s \<notin> set WINDOWS_DEVICES"
    unfolding WINDOWS_DEVICES_def set_map by (rule notin) code_simp
  then have "\<not> windows_device (js s)" by (simp add: windows_device_def nodot low)
  moreover have "safe_id_pattern (js s)"
    using units assms(1,2) by (cases s) (auto simp: safe_id_pattern_def js_Cons alpha_num_def id_unit_def list_all_iff)
  moreover have "js s \<noteq> js ''.'' \<and> js s \<noteq> js ''..''"
    using notin [of "[''.'', ''..'']"] by (simp add: lower_letters_def)
  ultimately show ?thesis by (simp add: is_safe_id_def low)
qed

section \<open>Splitting and normalising\<close>

text \<open>\<open>value.split("/")\<close>\<close>

fun split_on :: "code_unit \<Rightarrow> jstr \<Rightarrow> jstr list" where
  "split_on sep [] = [[]]"
| "split_on sep (c # s) =
     (if c = sep then [] # split_on sep s
      else (case split_on sep s of [] \<Rightarrow> [[c]] | x # xs \<Rightarrow> (c # x) # xs))"

abbreviation split_slash :: "jstr \<Rightarrow> jstr list" where
  "split_slash \<equiv> split_on 0x2F"

lemma split_on_not_Nil [simp]: "split_on sep s \<noteq> []"
  by (induction s) (auto split: list.split)

lemma split_on_no_sep: "x \<in> set (split_on sep s) \<Longrightarrow> sep \<notin> set x"
  by (induction s arbitrary: x) (auto split: list.splits if_splits)

lemma split_on_append_sep: "split_on sep (s @ sep # t) = split_on sep s @ split_on sep t"
  by (induction s) (auto split: list.split)

lemma split_on_sublist: "x \<in> set (split_on sep s) \<Longrightarrow> \<exists>u w. s = u @ x @ w"
proof (induction s arbitrary: x)
  case (Cons c s)
  show ?case
  proof (cases "c = sep \<and> x = []")
    case False
    obtain y ys where ys: "split_on sep s = y # ys" by (cases "split_on sep s") auto
    show ?thesis
    proof (cases "c = sep")
      case True
      then have "x \<in> set (split_on sep s)" using Cons.prems False by auto
      then obtain u w where "s = u @ x @ w" using Cons.IH by blast
      then have "c # s = (c # u) @ x @ w" by simp
      then show ?thesis by blast
    next
      case nsep: False
      then consider "x = c # y" | "x \<in> set ys" using Cons.prems ys by auto
      then show ?thesis
      proof cases
        case 1
        have "\<exists>w. s = y @ w"
        proof -
          have "split_on sep s = y # ys \<Longrightarrow> \<exists>w. s = y @ w"
            by (induction s arbitrary: y ys) (auto split: list.splits if_splits)
          then show ?thesis using ys by simp
        qed
        then obtain w where "c # s = [] @ x @ w" using 1 by auto
        then show ?thesis by blast
      next
        case 2
        then have "x \<in> set (split_on sep s)" using ys by simp
        then obtain u w where "s = u @ x @ w" using Cons.IH by blast
        then have "c # s = (c # u) @ x @ w" by simp
        then show ?thesis by blast
      qed
    qed
  qed (rule exI [of _ "[]"], simp)
qed auto

text \<open>
  Node's \<open>normalizeString\<close>: empty and dot segments vanish, \<open>..\<close> removes the previous segment
  unless that is itself \<open>..\<close>, and stays only when the path may climb above its root. The stack
  is kept reversed.
\<close>

fun normalize_segments :: "bool \<Rightarrow> jstr list \<Rightarrow> jstr list \<Rightarrow> jstr list" where
  "normalize_segments climb acc [] = rev acc"
| "normalize_segments climb acc (x # xs) =
     (if x = [] \<or> x = js ''.'' then normalize_segments climb acc xs
      else if x = js ''..'' then
        (case acc of
           y # ys \<Rightarrow> if y = js ''..''
                     then normalize_segments climb (if climb then x # acc else acc) xs
                     else normalize_segments climb ys xs
         | [] \<Rightarrow> normalize_segments climb (if climb then [x] else []) xs)
      else normalize_segments climb (x # acc) xs)"

definition posix_absolute :: "jstr \<Rightarrow> bool" where
  "posix_absolute p \<longleftrightarrow> p \<noteq> [] \<and> hd p = 0x2F"

definition posix_normalize :: "jstr \<Rightarrow> jstr" where
  "posix_normalize p =
     (if p = [] then js ''.''
      else
        let is_abs = posix_absolute p;
            trailing = last p = 0x2F;
            body = js_join (js ''/'') (normalize_segments (\<not> is_abs) [] (split_slash p))
        in if body = [] then (if is_abs then js ''/'' else if trailing then js ''./'' else js ''.'')
           else (if is_abs then js ''/'' else []) @ body @ (if trailing then js ''/'' else []))"

text \<open>\<open>path.resolve(cwd, p)\<close> as absolute segments.\<close>

definition resolve_segments :: "jstr list \<Rightarrow> jstr \<Rightarrow> jstr list" where
  "resolve_segments cwd p =
     normalize_segments False (if posix_absolute p then [] else rev cwd) (split_slash p)"

definition plain_segment :: "jstr \<Rightarrow> bool" where
  "plain_segment x \<longleftrightarrow> x \<noteq> [] \<and> x \<noteq> js ''.'' \<and> x \<noteq> js ''..''"

lemma normalize_segments_no_dotdot:
  "js ''..'' \<notin> set xs \<Longrightarrow>
   normalize_segments climb acc xs = rev acc @ filter plain_segment xs"
  by (induction xs arbitrary: acc) (auto simp: plain_segment_def)

section \<open>Metadata paths\<close>

definition is_safe_metadata_segment :: "jstr \<Rightarrow> bool" where
  "is_safe_metadata_segment s \<longleftrightarrow>
     0 < length s \<and> length s \<le> 255 \<and> s \<noteq> js ''.'' \<and> s \<noteq> js ''..'' \<and>
     \<not> list_ex control_unit s \<and> 0x3A \<notin> set s \<and> last s \<noteq> 0x20 \<and> last s \<noteq> 0x2E \<and>
     js_lower s \<notin> set RESERVED_IDS \<and> \<not> windows_device s"

text \<open>\<open>/^[A-Za-z]:/\<close>\<close>

fun drive_prefix :: "jstr \<Rightarrow> bool" where
  "drive_prefix (c # d # s) \<longleftrightarrow> (upper_alpha c \<or> lower_alpha c) \<and> d = 0x3A"
| "drive_prefix s \<longleftrightarrow> False"

text \<open>\<open>/^[/\\]{2}/\<close>\<close>

fun share_prefix :: "jstr \<Rightarrow> bool" where
  "share_prefix (c # d # s) \<longleftrightarrow> (c = 0x2F \<or> c = 0x5C) \<and> (d = 0x2F \<or> d = 0x5C)"
| "share_prefix s \<longleftrightarrow> False"

fun has_double_slash :: "jstr \<Rightarrow> bool" where
  "has_double_slash (c # d # s) \<longleftrightarrow> (c = 0x2F \<and> d = 0x2F) \<or> has_double_slash (d # s)"
| "has_double_slash s \<longleftrightarrow> False"

definition is_safe_project_relative_path :: "jstr \<Rightarrow> bool" where
  "is_safe_project_relative_path v \<longleftrightarrow>
     \<not> (v = [] \<or> \<not> js_trimmed v \<or> list_ex control_unit v) \<and>
     \<not> (0x5C \<in> set v \<or> hd v = 0x2F \<or> drive_prefix v \<or> share_prefix v) \<and>
     \<not> (last v = 0x2F \<or> has_double_slash v \<or> posix_normalize v \<noteq> v) \<and>
     list_all is_safe_metadata_segment (split_slash v)"

definition is_safe_run_derived_path :: "jstr \<Rightarrow> jstr \<Rightarrow> bool" where
  "is_safe_run_derived_path v directory \<longleftrightarrow>
     is_safe_project_relative_path v \<and>
     (let parts = split_slash v in
      5 \<le> length parts \<and> parts ! 0 = js ''.opencode'' \<and> parts ! 1 = js ''runs'' \<and>
      is_safe_id (parts ! 2) \<and> parts ! 3 = directory)"

definition is_safe_run_artifact_path :: "jstr \<Rightarrow> bool" where
  "is_safe_run_artifact_path v \<longleftrightarrow> is_safe_run_derived_path v (js ''artifacts'')"

text \<open>
  A project-relative path that the program accepts as metadata stays below whatever
  directory it is resolved against: it adds exactly its own segments, in order, and can neither
  be absolute nor climb.
\<close>

theorem safe_project_relative_path_stays_below_root:
  assumes "is_safe_project_relative_path v"
  shows "resolve_segments root v = root @ split_slash v \<and> split_slash v \<noteq> []"
proof -
  have segs: "list_all is_safe_metadata_segment (split_slash v)" and "v \<noteq> []" "hd v \<noteq> 0x2F"
    using assms by (auto simp: is_safe_project_relative_path_def)
  then have rel: "\<not> posix_absolute v" by (simp add: posix_absolute_def)
  have plain: "\<forall>x \<in> set (split_slash v). plain_segment x"
    using segs by (auto simp: list_all_iff is_safe_metadata_segment_def plain_segment_def)
  then have "js ''..'' \<notin> set (split_slash v)" by (auto simp: plain_segment_def)
  then have "resolve_segments root v = root @ filter plain_segment (split_slash v)"
    using rel by (simp add: resolve_segments_def normalize_segments_no_dotdot)
  then show ?thesis using plain by simp
qed

theorem safe_project_relative_path_stays_below_root_witness:
  "resolve_segments [js ''srv'', js ''app''] (js ''src/main.ts'') =
     [js ''srv'', js ''app'', js ''src'', js ''main.ts'']"
proof -
  have "is_safe_project_relative_path (js ''src/main.ts'')" by code_simp
  from safe_project_relative_path_stays_below_root [OF this, of "[js ''srv'', js ''app'']"]
  have "resolve_segments [js ''srv'', js ''app''] (js ''src/main.ts'') =
    [js ''srv'', js ''app''] @ split_slash (js ''src/main.ts'')" by (rule conjunct1)
  also have "split_slash (js ''src/main.ts'') = [js ''src'', js ''main.ts'']" by code_simp
  finally show ?thesis by simp
qed

section \<open>Lexical containment\<close>

fun strip_common :: "jstr list \<Rightarrow> jstr list \<Rightarrow> jstr list \<times> jstr list" where
  "strip_common (x # xs) (y # ys) = (if x = y then strip_common xs ys else (x # xs, y # ys))"
| "strip_common xs ys = (xs, ys)"

text \<open>\<open>path.relative(root, candidate)\<close> on POSIX.\<close>

definition posix_relative :: "jstr list \<Rightarrow> jstr \<Rightarrow> jstr \<Rightarrow> jstr" where
  "posix_relative cwd from_path to_path =
     (case strip_common (resolve_segments cwd from_path) (resolve_segments cwd to_path) of
        (ups, downs) \<Rightarrow> js_join (js ''/'') (map (\<lambda>_. js ''..'') ups @ downs))"

definition starts_with :: "jstr \<Rightarrow> jstr \<Rightarrow> bool" where
  "starts_with s p \<longleftrightarrow> take (length p) s = p"

fun contains_dotdot :: "jstr \<Rightarrow> bool" where
  "contains_dotdot (c # d # s) \<longleftrightarrow> (c = 0x2E \<and> d = 0x2E) \<or> contains_dotdot (d # s)"
| "contains_dotdot s \<longleftrightarrow> False"

definition is_contained_general :: "jstr list \<Rightarrow> jstr \<Rightarrow> jstr \<Rightarrow> bool" where
  "is_contained_general cwd root candidate \<longleftrightarrow>
     (let rel = posix_relative cwd root candidate in
      rel = [] \<or> (\<not> starts_with rel (js ''..'') \<and> \<not> posix_absolute rel))"

definition is_contained :: "jstr list \<Rightarrow> jstr \<Rightarrow> jstr \<Rightarrow> bool" where
  "is_contained cwd root candidate \<longleftrightarrow>
     (if posix_absolute root \<and> \<not> contains_dotdot candidate \<and>
        (candidate = root \<or>
         starts_with candidate (if last root = 0x2F then root else root @ js ''/''))
      then True
      else is_contained_general cwd root candidate)"

lemma contains_dotdot_append: "contains_dotdot s \<Longrightarrow> contains_dotdot (u @ s @ w)"
proof -
  have r: "contains_dotdot s \<Longrightarrow> contains_dotdot (s @ w)"
    by (induction s rule: contains_dotdot.induct) auto
  have l: "contains_dotdot t \<Longrightarrow> contains_dotdot (c # t)" for c t
    by (cases t) auto
  have "contains_dotdot t \<Longrightarrow> contains_dotdot (u @ t)" for t
    by (induction u) (auto intro: l)
  then show "contains_dotdot s \<Longrightarrow> contains_dotdot (u @ s @ w)" using r by simp
qed

lemma no_dotdot_segment:
  assumes "\<not> contains_dotdot s" "x \<in> set (split_slash s)"
  shows "\<not> starts_with x (js ''..'')"
proof
  assume "starts_with x (js ''..'')"
  then have "take 2 x = [0x2E, 0x2E]" by (simp add: starts_with_def js_def numeral_2_eq_2)
  then obtain r where "x = 0x2E # 0x2E # r"
    by (cases x; cases "tl x") auto
  then have "contains_dotdot x" by simp
  moreover obtain u w where "s = u @ x @ w" using split_on_sublist [OF assms(2)] by blast
  ultimately show False using assms(1) contains_dotdot_append by blast
qed

lemma strip_common_append: "strip_common xs (xs @ ys) = ([], ys)"
proof (induction xs)
  case Nil
  show ?case by (cases ys) auto
qed simp

lemma resolve_segments_no_dotdot:
  assumes "posix_absolute s" "\<not> contains_dotdot s"
  shows "resolve_segments cwd s = filter plain_segment (split_slash s)"
proof -
  have "js ''..'' \<notin> set (split_slash s)"
    using no_dotdot_segment [OF assms(2), of "js ''..''"] by (auto simp: starts_with_def)
  then show ?thesis using assms(1) by (simp add: resolve_segments_def normalize_segments_no_dotdot)
qed

lemma hd_js_join: "x \<noteq> [] \<Longrightarrow> hd (js_join sep (x # xs)) = hd x"
  by (cases xs) auto

text \<open>A descendant written without climbing is contained by the general route.\<close>

lemma contained_of_suffix:
  assumes "posix_absolute root" "\<not> contains_dotdot (root @ rest)"
    and "split_slash (root @ rest) = split_slash root @ tail \<or>
         (\<exists>r. split_slash root = r @ [[]] \<and> split_slash (root @ rest) = r @ tail)"
  shows "is_contained_general cwd root (root @ rest)"
proof -
  let ?ps = "filter plain_segment"
  have nd: "\<not> contains_dotdot root"
    using assms(2) contains_dotdot_append [of root "[]" rest] by auto
  have abs': "posix_absolute (root @ rest)" using assms(1) by (auto simp: posix_absolute_def)
  have e: "\<not> plain_segment []" by (simp add: plain_segment_def)
  have "?ps (split_slash (root @ rest)) = ?ps (split_slash root) @ ?ps tail"
    using assms(3) e by auto
  then have rel: "posix_relative cwd root (root @ rest) = js_join (js ''/'') (?ps tail)"
    using resolve_segments_no_dotdot [OF assms(1) nd, of cwd]
      resolve_segments_no_dotdot [OF abs' assms(2), of cwd]
    by (simp add: posix_relative_def strip_common_append)
  show ?thesis
  proof (cases "?ps tail")
    case Nil
    then show ?thesis by (simp add: is_contained_general_def rel)
  next
    case (Cons x xs)
    then have xt: "x \<in> set tail" "plain_segment x" by (auto dest: filter_eq_ConsD)
    then have xin: "x \<in> set (split_slash (root @ rest))" using assms(3) by auto
    then have ns: "\<not> starts_with x (js ''..'')" by (rule no_dotdot_segment [OF assms(2)])
    have xne: "x \<noteq> []" using xt(2) by (simp add: plain_segment_def)
    have hx: "hd x \<noteq> 0x2F" using split_on_no_sep [OF xin] list.set_sel(1) [OF xne] by metis
    have hd1: "hd (js_join (js ''/'') (x # xs)) = hd x" using xne by (rule hd_js_join)
    have "\<not> starts_with (js_join (js ''/'') (x # xs)) (js ''..'')"
    proof
      assume sw: "starts_with (js_join (js ''/'') (x # xs)) (js ''..'')"
      then have h: "hd x = 0x2E" using hd1 xne
        by (cases "js_join (js ''/'') (x # xs)") (auto simp: starts_with_def js_def)
      show False
      proof (cases "tl x")
        case Nil
        then have "x = js ''.''" using xne h by (cases x) (auto simp: js_def)
        then show False using xt(2) by (simp add: plain_segment_def)
      next
        case (Cons d r)
        then have x2: "x = hd x # d # r" using xne by (cases x) auto
        have "take 2 (js_join (js ''/'') (x # xs)) = [hd x, d]"
          by (subst x2, subst (2) x2) (cases xs, auto)
        then have "starts_with x (js ''..'')" using sw x2
          by (simp add: starts_with_def js_def numeral_2_eq_2)
        then show False using ns by simp
      qed
    qed
    moreover have "\<not> posix_absolute (js_join (js ''/'') (x # xs))"
      using hd1 hx by (simp add: posix_absolute_def)
    ultimately show ?thesis by (simp add: is_contained_general_def rel Cons)
  qed
qed

text \<open>
  The prefix test that answers most containment questions of a save is an optimisation
  only: whatever it accepts, the general computation through \<open>path.relative\<close> accepts too, so
  the routine equals its reference.
\<close>

theorem is_contained_fast_path_sound:
  "is_contained cwd root candidate = is_contained_general cwd root candidate"
proof (cases "posix_absolute root \<and> \<not> contains_dotdot candidate \<and>
    (candidate = root \<or>
     starts_with candidate (if last root = 0x2F then root else root @ js ''/''))")
  case True
  then have abs': "posix_absolute root" and nd: "\<not> contains_dotdot candidate" by auto
  have slash: "js ''/'' = [0x2F]" by (simp add: js_def)
  consider (same) "candidate = root"
    | (below) "last root = 0x2F" "starts_with candidate root"
    | (sep) "last root \<noteq> 0x2F" "starts_with candidate (root @ js ''/'')"
    using True by (auto split: if_splits)
  then have "is_contained_general cwd root candidate"
  proof cases
    case same
    then show ?thesis using contained_of_suffix [of root "[]" "[]" cwd] abs' nd by simp
  next
    case below
    then obtain rest where c: "candidate = root @ rest"
      by (metis append_take_drop_id starts_with_def)
    obtain r where r: "root = r @ [0x2F]"
      using below(1) abs' by (metis append_butlast_last_id posix_absolute_def)
    have "split_slash root = split_slash r @ [[]]"
      and "split_slash (root @ rest) = split_slash r @ split_slash rest"
      using split_on_append_sep [of "0x2F" r "[]"] split_on_append_sep [of "0x2F" r rest] r by auto
    then show ?thesis using contained_of_suffix [of root rest "split_slash rest" cwd] abs' nd c
      by blast
  next
    case sep
    then obtain rest where c: "candidate = root @ 0x2F # rest"
      by (metis append.assoc append_Cons append_Nil append_take_drop_id slash starts_with_def)
    have "split_slash (root @ 0x2F # rest) = split_slash root @ split_slash rest"
      by (rule split_on_append_sep)
    then show ?thesis using contained_of_suffix [of root "0x2F # rest" "split_slash rest" cwd] abs' nd c
      by simp
  qed
  then show ?thesis using True by (simp add: is_contained_def)
qed (simp only: is_contained_def if_False)

end
