(* ===== verification/Diagnostics.thy ===== *)
theory Diagnostics
  imports Limits
begin

text \<open>
  \<open>src/diagnostics.ts\<close>, the bounding of persisted failure texts: \<open>safeDiagnosticText\<close> caps a
  text at 2,000 UTF-8 bytes and \<open>boundDiagnosticList\<close> caps a list at 100 entries, keeping the
  entries the caller wants retained and counting the omitted ones. The regular expressions of
  \<open>redactInline\<close> are the argument \<open>redact\<close>; nothing is assumed about it, so every bound holds
  whatever the redaction does.
\<close>

definition MAX_SDK_DIAGNOSTIC_BYTES :: nat where "MAX_SDK_DIAGNOSTIC_BYTES = 2000"
definition MAX_PERSISTED_FAILURES :: nat where "MAX_PERSISTED_FAILURES = 100"

definition truncated_suffix :: jstr where
  "truncated_suffix = 0x2026 # js ''[truncated]''"

definition cap_diagnostic_text :: "jstr \<Rightarrow> nat \<Rightarrow> jstr" where
  "cap_diagnostic_text val maximum =
     (if utf8_bytes val \<le> maximum then val
      else truncate_utf8 val (maximum - utf8_bytes truncated_suffix) @ truncated_suffix)"

definition safe_diagnostic_text_max :: "(jstr \<Rightarrow> jstr) \<Rightarrow> jstr \<Rightarrow> nat \<Rightarrow> jstr" where
  "safe_diagnostic_text_max redact val maximum_bytes =
     (let maximum = max 32 (min maximum_bytes MAX_SDK_DIAGNOSTIC_BYTES);
          redacted = redact val;
          result = js_trim (cap_diagnostic_text (js_trim redacted) maximum)
      in if result = [] then js ''[No diagnostic text]'' else result)"

abbreviation safe_diagnostic_text :: "(jstr \<Rightarrow> jstr) \<Rightarrow> jstr \<Rightarrow> jstr" where
  "safe_diagnostic_text redact val \<equiv>
     safe_diagnostic_text_max redact val MAX_SDK_DIAGNOSTIC_BYTES"

section \<open>Bounded lists\<close>

text \<open>
  The indices retained on request: for each wanted text the first index not selected yet that
  carries it, while fewer than \<open>available\<close> are selected. The set of the source is a list here;
  its insertion order is never observed.
\<close>

definition find_unselected :: "jstr list \<Rightarrow> nat list \<Rightarrow> jstr \<Rightarrow> nat option" where
  "find_unselected normalized selected v =
     find (\<lambda>i. i \<notin> set selected \<and> normalized ! i = v) [0..<length normalized]"

fun select_retained ::
  "(jstr \<Rightarrow> jstr) \<Rightarrow> jstr list \<Rightarrow> nat \<Rightarrow> nat list \<Rightarrow> jstr list \<Rightarrow> nat list" where
  "select_retained redact normalized available selected [] = selected"
| "select_retained redact normalized available selected (r # rs) =
     (if available \<le> length selected then selected
      else (case find_unselected normalized selected (safe_diagnostic_text redact r) of
              Some i \<Rightarrow> select_retained redact normalized available (i # selected) rs
            | None \<Rightarrow> select_retained redact normalized available selected rs))"

text \<open>\<open>for (index = 0; index < length && selected.size < available; index++) selected.add(index)\<close>\<close>

fun fill_selected :: "nat \<Rightarrow> nat list \<Rightarrow> nat list \<Rightarrow> nat list" where
  "fill_selected available selected [] = selected"
| "fill_selected available selected (i # ixs) =
     (if available \<le> length selected then selected
      else fill_selected available (if i \<in> set selected then selected else i # selected) ixs)"

definition omitted_marker :: "nat \<Rightarrow> jstr" where
  "omitted_marker n = js ''[truncated] '' @ dec n @ js '' additional failure entries omitted''"

definition bound_diagnostic_list_with ::
  "(jstr \<Rightarrow> jstr) \<Rightarrow> nat option \<Rightarrow> jstr list \<Rightarrow> (nat \<Rightarrow> jstr) \<Rightarrow> jstr list \<Rightarrow> jstr list" where
  "bound_diagnostic_list_with redact maximum_option retain omitted_label vals =
     (let maximum = max 1 (min (case maximum_option of None \<Rightarrow> MAX_PERSISTED_FAILURES | Some m \<Rightarrow> m)
                             MAX_PERSISTED_FAILURES);
          normalized = map (safe_diagnostic_text redact) vals
      in if length normalized \<le> maximum then normalized
         else
           let available = maximum - 1;
               retained = select_retained redact normalized available [] retain;
               selected = fill_selected available retained [0..<length normalized];
               kept = map (\<lambda>i. normalized ! i)
                        (filter (\<lambda>i. i \<in> set selected) [0..<length normalized]);
               omitted = length normalized - length kept
           in kept @ [safe_diagnostic_text redact (omitted_label omitted)])"

abbreviation bound_diagnostic_list :: "(jstr \<Rightarrow> jstr) \<Rightarrow> jstr list \<Rightarrow> jstr list \<Rightarrow> jstr list" where
  "bound_diagnostic_list redact retain vals \<equiv>
     bound_diagnostic_list_with redact None retain omitted_marker vals"

section \<open>What a persisted failure text is\<close>

text \<open>
  \<open>shortText\<close> of \<open>src/schemas.ts\<close>: 1 to 2,000 code units with no surrounding white space; and
  \<open>PersistedFailureListSchema\<close>: at most 100 of them.
\<close>

definition short_text :: "jstr \<Rightarrow> bool" where
  "short_text v \<longleftrightarrow> 1 \<le> length v \<and> length v \<le> 2000 \<and> js_trimmed v"

definition bounded_strings :: "jstr list \<Rightarrow> bool" where
  "bounded_strings vs \<longleftrightarrow> length vs \<le> 100 \<and> list_all short_text vs"

lemma utf8_bytes_truncated_suffix: "utf8_bytes truncated_suffix = 14"
  by code_simp

lemma utf8_bytes_take_le: "utf8_bytes (take k s) \<le> utf8_bytes s"
  using utf8_bytes_take_mono [of k "length s" s] by (cases "k \<le> length s") auto

lemma utf8_bytes_drop_le: "utf8_bytes (drop k s) \<le> utf8_bytes s"
proof (induction k arbitrary: s)
  case (Suc k)
  show ?case
  proof (cases s)
    case (Cons c t)
    have "utf8_bytes t \<le> utf8_bytes (c # t)"
    proof (cases t)
      case t: (Cons d u)
      show ?thesis
      proof (cases "high_surrogate c \<and> low_surrogate d")
        case True
        have "utf8_bytes (d # u) \<le> unit_bytes d + utf8_bytes u" by (rule utf8_bytes_Cons_le)
        then show ?thesis using True t surrogate_unit_bytes(2) [of d] by simp
      next
        case False
        then have "utf8_bytes (c # t) = unit_bytes c + utf8_bytes t"
          using t by (simp only: utf8_bytes.simps if_False)
        then show ?thesis by simp
      qed
    qed simp
    then show ?thesis using order_trans [OF Suc.IH [of t]] Cons by simp
  qed simp
qed simp

lemma utf8_bytes_dropWhile_le: "utf8_bytes (dropWhile P s) \<le> utf8_bytes s"
  by (subst dropWhile_eq_drop) (rule utf8_bytes_drop_le)

lemma utf8_bytes_rev_dropWhile_rev_le: "utf8_bytes (rev (dropWhile P (rev s))) \<le> utf8_bytes s"
proof -
  have "rev (dropWhile P (rev s)) = take (length s - length (takeWhile P (rev s))) s"
    by (subst dropWhile_eq_drop) (simp only: rev_drop rev_rev_ident length_rev)
  then show ?thesis by (simp only: utf8_bytes_take_le)
qed

lemma utf8_bytes_trim_le: "utf8_bytes (js_trim s) \<le> utf8_bytes s"
  unfolding js_trim_def
  by (rule order_trans [OF utf8_bytes_rev_dropWhile_rev_le utf8_bytes_dropWhile_le])

lemma utf8_bytes_cap_le: "14 \<le> maximum \<Longrightarrow> utf8_bytes (cap_diagnostic_text val maximum) \<le> maximum"
  using utf8_bytes_append_le [of "truncate_utf8 val (maximum - 14)" truncated_suffix]
    utf8_bytes_truncate_le [of val "maximum - 14"]
  by (auto simp: cap_diagnostic_text_def utf8_bytes_truncated_suffix)

lemma safe_diagnostic_text_max_bytes:
  "utf8_bytes (safe_diagnostic_text_max redact val mb) \<le> max 32 (min mb 2000)"
proof -
  let ?m = "max 32 (min mb 2000)"
  have "(14::nat) \<le> ?m" by simp
  then have "utf8_bytes (js_trim (cap_diagnostic_text (js_trim (redact val)) ?m)) \<le> ?m"
    by (rule order_trans [OF utf8_bytes_trim_le utf8_bytes_cap_le])
  moreover have "utf8_bytes (js ''[No diagnostic text]'') = 20" by code_simp
  ultimately show ?thesis
    by (auto simp: safe_diagnostic_text_max_def Let_def MAX_SDK_DIAGNOSTIC_BYTES_def)
qed

lemma safe_diagnostic_text_max_short [simp]:
  "short_text (safe_diagnostic_text_max redact val mb)"
proof -
  let ?t = "safe_diagnostic_text_max redact val mb"
  have "length ?t \<le> 2000"
    using safe_diagnostic_text_max_bytes [of redact val mb] length_le_utf8_bytes [of ?t] by simp
  moreover have "js_trimmed (js ''[No diagnostic text]'')" by code_simp
  then have "?t \<noteq> [] \<and> js_trimmed ?t" by (auto simp: safe_diagnostic_text_max_def Let_def)
  ultimately show ?thesis by (cases ?t) (auto simp: short_text_def)
qed

section \<open>Selection\<close>

lemma find_unselected_Some:
  assumes "find_unselected normalized selected v = Some i"
  shows "i \<notin> set selected" "i < length normalized" "normalized ! i = v"
  using assms by (auto simp: find_unselected_def find_Some_iff)

lemma find_unselected_None:
  "find_unselected normalized selected v = None \<Longrightarrow> i < length normalized \<Longrightarrow>
   i \<notin> set selected \<Longrightarrow> normalized ! i \<noteq> v"
  by (auto simp: find_unselected_def find_None_iff)

definition selection_ok :: "nat \<Rightarrow> nat \<Rightarrow> nat list \<Rightarrow> bool" where
  "selection_ok n available sel \<longleftrightarrow> distinct sel \<and> set sel \<subseteq> {..<n} \<and> length sel \<le> available"

lemma select_retained_ok:
  "selection_ok (length normalized) available sel \<Longrightarrow>
   selection_ok (length normalized) available (select_retained redact normalized available sel rs)"
proof (induction rs arbitrary: sel)
  case (Cons r rs)
  show ?case
  proof (cases "find_unselected normalized sel (safe_diagnostic_text redact r)")
    case (Some i)
    then show ?thesis
      using Cons.IH [of "i # sel"] Cons.prems find_unselected_Some [OF Some]
      by (auto simp: selection_ok_def)
  qed (use Cons in auto)
qed simp

lemma select_retained_superset: "set sel \<subseteq> set (select_retained redact normalized available sel rs)"
proof (induction rs arbitrary: sel)
  case (Cons r rs)
  show ?case
  proof (cases "find_unselected normalized sel (safe_diagnostic_text redact r)")
    case (Some i)
    then show ?thesis using Cons.IH [of "i # sel"] by auto
  qed (use Cons.IH in auto)
qed simp

text \<open>A wanted text that occurs is selected while there is room.\<close>

lemma select_retained_keeps:
  assumes "length sel + length rs \<le> available" "r \<in> set rs"
    and "safe_diagnostic_text redact r \<in> set normalized"
  shows "\<exists>i. i \<in> set (select_retained redact normalized available sel rs) \<and>
           i < length normalized \<and> normalized ! i = safe_diagnostic_text redact r"
  using assms
proof (induction rs arbitrary: sel)
  case (Cons q rs)
  let ?v = "safe_diagnostic_text redact q"
  have room: "\<not> available \<le> length sel" using Cons.prems(1) by simp
  show ?case
  proof (cases "find_unselected normalized sel ?v")
    case (Some i)
    note i = find_unselected_Some [OF Some]
    have step: "select_retained redact normalized available sel (q # rs) =
        select_retained redact normalized available (i # sel) rs"
      using Some room by simp
    show ?thesis
    proof (cases "r = q")
      case True
      have "i \<in> set (select_retained redact normalized available (i # sel) rs)"
        using select_retained_superset [of "i # sel"] by auto
      then show ?thesis unfolding step using i True by blast
    next
      case False
      then have "r \<in> set rs" using Cons.prems(2) by simp
      moreover have "length (i # sel) + length rs \<le> available" using Cons.prems(1) by simp
      ultimately show ?thesis unfolding step using Cons.IH [of "i # sel"] Cons.prems(3) by blast
    qed
  next
    case None
    have step: "select_retained redact normalized available sel (q # rs) =
        select_retained redact normalized available sel rs"
      using None room by simp
    show ?thesis
    proof (cases "r = q")
      case True
      then obtain i where i: "i < length normalized" "normalized ! i = ?v"
        using Cons.prems(3) by (auto simp: in_set_conv_nth)
      then have "i \<in> set sel" using find_unselected_None [OF None] by blast
      then have "i \<in> set (select_retained redact normalized available sel rs)"
        using select_retained_superset by blast
      then show ?thesis unfolding step using i True by blast
    next
      case False
      then have "r \<in> set rs" using Cons.prems(2) by simp
      moreover have "length sel + length rs \<le> available" using Cons.prems(1) by simp
      ultimately show ?thesis unfolding step using Cons.IH [of sel] Cons.prems(3) by blast
    qed
  qed
qed simp

lemma fill_selected_ok:
  "selection_ok n available sel \<Longrightarrow> set ixs \<subseteq> {..<n} \<Longrightarrow>
   selection_ok n available (fill_selected available sel ixs)"
  by (induction ixs arbitrary: sel) (auto simp: selection_ok_def)

lemma fill_selected_superset: "set sel \<subseteq> set (fill_selected available sel ixs)"
proof (induction ixs arbitrary: sel)
  case (Cons i ixs)
  have "set sel \<subseteq> set (if i \<in> set sel then sel else i # sel)" by auto
  then show ?case using order_trans [OF _ Cons.IH] by simp
qed simp

lemma fill_selected_full:
  assumes "selection_ok n available sel" "set ixs \<subseteq> {..<n}"
    and "available \<le> length sel + card (set ixs - set sel)"
  shows "length (fill_selected available sel ixs) = available"
  using assms
proof (induction ixs arbitrary: sel)
  case Nil
  then show ?case by (simp add: selection_ok_def)
next
  case (Cons i ixs)
  have ixs: "set ixs \<subseteq> {..<n}" using Cons.prems(2) by simp
  consider (full) "available \<le> length sel" | (old) "\<not> available \<le> length sel" "i \<in> set sel"
    | (new) "\<not> available \<le> length sel" "i \<notin> set sel"
    by blast
  then show ?case
  proof cases
    case full
    then show ?thesis using Cons.prems(1) by (simp add: selection_ok_def)
  next
    case old
    have eq: "set (i # ixs) - set sel = set ixs - set sel" using old(2) by auto
    have "available \<le> length sel + card (set ixs - set sel)" using Cons.prems(3) unfolding eq .
    from Cons.IH [OF Cons.prems(1) ixs this] show ?thesis using old by simp
  next
    case new
    have eq: "set (i # ixs) - set sel = insert i (set ixs - set (i # sel))" using new(2) by auto
    have card: "card (insert i (set ixs - set (i # sel))) = Suc (card (set ixs - set (i # sel)))"
      by (rule card_insert_disjoint) simp_all
    have "available \<le> length sel + Suc (card (set ixs - set (i # sel)))"
      using Cons.prems(3) unfolding eq card .
    then have more: "available \<le> length (i # sel) + card (set ixs - set (i # sel))"
      by (simp only: list.size add_Suc_right add_Suc One_nat_def add_0_right)
    have "selection_ok n available (i # sel)"
      using Cons.prems(1,2) new by (simp add: selection_ok_def)
    from Cons.IH [OF this ixs more] show ?thesis using new by simp
  qed
qed

lemma length_filter_selected:
  assumes "distinct sel" "set sel \<subseteq> {..<n}"
  shows "length (filter (\<lambda>i. i \<in> set sel) [0..<n]) = length sel"
proof -
  have "set (filter (\<lambda>i. i \<in> set sel) [0..<n]) = set sel" using assms(2) by auto
  moreover have "distinct (filter (\<lambda>i. i \<in> set sel) [0..<n])" by simp
  ultimately show ?thesis using assms(1) by (metis distinct_card)
qed

section \<open>The list bound\<close>

text \<open>The effective maximum of \<open>boundDiagnosticList\<close>: \<open>Math.max(1, Math.min(maximum ?? 100, 100))\<close>.\<close>

definition effective_maximum :: "nat option \<Rightarrow> nat" where
  "effective_maximum m = max 1 (min (case m of None \<Rightarrow> 100 | Some k \<Rightarrow> k) 100)"

lemma effective_maximum_bounds: "1 \<le> effective_maximum m" "effective_maximum m \<le> 100"
  by (auto simp: effective_maximum_def)

lemma bound_list_shape:
  obtains (whole) "length vals \<le> effective_maximum m"
      "bound_diagnostic_list_with redact m retain label vals = map (safe_diagnostic_text redact) vals"
  | (cut) sel where "effective_maximum m < length vals"
      "selection_ok (length vals) (effective_maximum m - 1) sel"
      "length sel = effective_maximum m - 1"
      "set (select_retained redact (map (safe_diagnostic_text redact) vals) (effective_maximum m - 1) [] retain) \<subseteq> set sel"
      "bound_diagnostic_list_with redact m retain label vals =
         map (\<lambda>i. safe_diagnostic_text redact (vals ! i)) (filter (\<lambda>i. i \<in> set sel) [0..<length vals]) @
         [safe_diagnostic_text redact (label (length vals - (effective_maximum m - 1)))]"
proof (cases "length vals \<le> effective_maximum m")
  case True
  then show thesis using whole
    by (simp add: bound_diagnostic_list_with_def effective_maximum_def MAX_PERSISTED_FAILURES_def Let_def
        cong: option.case_cong)
next
  case False
  let ?M = "effective_maximum m"
  let ?norm = "map (safe_diagnostic_text redact) vals"
  let ?ret = "select_retained redact ?norm (?M - 1) [] retain"
  let ?sel = "fill_selected (?M - 1) ?ret [0..<length vals]"
  have M: "max 1 (min (case m of None \<Rightarrow> MAX_PERSISTED_FAILURES | Some k \<Rightarrow> k) MAX_PERSISTED_FAILURES) = ?M"
    by (cases m) (simp_all add: effective_maximum_def MAX_PERSISTED_FAILURES_def)
  have ret: "selection_ok (length vals) (?M - 1) ?ret"
    using select_retained_ok [of ?norm "?M - 1" "[]" redact retain] by (simp add: selection_ok_def)
  have sel: "selection_ok (length vals) (?M - 1) ?sel"
    using fill_selected_ok [OF ret, of "[0..<length vals]"] by (simp add: lessThan_atLeast0)
  have "card (set [0..<length vals] - set ?ret) = length vals - length ?ret"
    using ret by (auto simp: selection_ok_def card_Diff_subset distinct_card lessThan_atLeast0)
  then have "?M - 1 \<le> length ?ret + card (set [0..<length vals] - set ?ret)" using False by simp
  then have len: "length ?sel = ?M - 1"
    using fill_selected_full [OF ret, of "[0..<length vals]"] by (simp add: lessThan_atLeast0)
  have kept: "length (filter (\<lambda>i. i \<in> set ?sel) [0..<length vals]) = ?M - 1"
    using length_filter_selected [of ?sel "length vals"] sel len by (simp add: selection_ok_def)
  have eq: "map (\<lambda>i. ?norm ! i) (filter (\<lambda>i. i \<in> set ?sel) [0..<length vals]) =
      map (\<lambda>i. safe_diagnostic_text redact (vals ! i)) (filter (\<lambda>i. i \<in> set ?sel) [0..<length vals])"
    by (rule map_cong) auto
  have "bound_diagnostic_list_with redact m retain label vals =
      map (\<lambda>i. ?norm ! i) (filter (\<lambda>i. i \<in> set ?sel) [0..<length vals]) @
      [safe_diagnostic_text redact (label (length vals - (?M - 1)))]"
    using False M kept by (simp add: bound_diagnostic_list_with_def Let_def)
  then show thesis using cut [of ?sel] False sel len eq fill_selected_superset [of ?ret] by simp
qed

lemma bounded_strings_bound_list [simp]:
  "bounded_strings (bound_diagnostic_list_with redact m retain label vals)"
proof (cases rule: bound_list_shape [of vals m redact retain label])
  case whole
  then show ?thesis using effective_maximum_bounds(2) [of m] by (auto simp: bounded_strings_def list_all_iff)
next
  case (cut sel)
  then show ?thesis
    using effective_maximum_bounds [of m] length_filter_selected [of sel "length vals"]
    by (auto simp: bounded_strings_def list_all_iff selection_ok_def)
qed

lemma bound_list_Nil_iff [simp]:
  "bound_diagnostic_list_with redact m retain label vals = [] \<longleftrightarrow> vals = []"
  by (cases rule: bound_list_shape [of vals m redact retain label]) auto

text \<open>
  Whatever the redaction does, a bounded failure list satisfies the persisted schema: at
  most 100 entries, each 1 to 2,000 code units without surrounding white space; when the input
  exceeds the maximum the result has exactly the maximum length and its last entry states how
  many entries were left out, so no entry vanishes unreported.
\<close>

theorem bound_diagnostic_list_persistable:
  "bounded_strings (bound_diagnostic_list redact retain vals) \<and>
   length (bound_diagnostic_list redact retain vals) = min (length vals) 100 \<and>
   (100 < length vals \<longrightarrow>
      last (bound_diagnostic_list redact retain vals) =
        safe_diagnostic_text redact (omitted_marker (length vals - 99)))"
proof (cases rule: bound_list_shape [of vals None redact retain omitted_marker])
  case whole
  then show ?thesis by (auto simp: effective_maximum_def bounded_strings_def list_all_iff)
next
  case (cut sel)
  have M: "effective_maximum None = 100" by (simp add: effective_maximum_def)
  have "length (filter (\<lambda>i. i \<in> set sel) [0..<length vals]) = 99"
    using length_filter_selected [of sel "length vals"] cut M by (simp add: selection_ok_def)
  then show ?thesis
    using cut M bounded_strings_bound_list [of redact None retain omitted_marker vals] by simp
qed

theorem bound_diagnostic_list_persistable_witness:
  "last (bound_diagnostic_list (\<lambda>s. s) [] (replicate 102 (js ''x''))) =
     safe_diagnostic_text (\<lambda>s. s) (omitted_marker 3)"
  using bound_diagnostic_list_persistable [of "\<lambda>s. s" "[]" "replicate 102 (js ''x'')"] by simp

text \<open>
  Entries the caller asks to retain survive the truncation of an overlong list: the
  executor passes the shell gate's diagnostic, so a flood of other failures cannot hide it.
\<close>

theorem retained_diagnostics_survive:
  assumes "r \<in> set retain" "r \<in> set vals" "length retain \<le> 99"
  shows "safe_diagnostic_text redact r \<in> set (bound_diagnostic_list redact retain vals)"
proof (cases rule: bound_list_shape [of vals None redact retain omitted_marker])
  case whole
  then show ?thesis using assms(2) by auto
next
  case (cut sel)
  let ?norm = "map (safe_diagnostic_text redact) vals"
  have M: "effective_maximum None = 100" by (simp add: effective_maximum_def)
  have "safe_diagnostic_text redact r \<in> set ?norm" using assms(2) by simp
  then obtain i where i: "i \<in> set (select_retained redact ?norm 99 [] retain)"
      "i < length ?norm" "?norm ! i = safe_diagnostic_text redact r"
    using select_retained_keeps [of "[]" retain 99 r redact ?norm] assms(1,3) by auto
  have isel: "i \<in> set sel" using i(1) cut(4) M by auto
  have "safe_diagnostic_text redact (vals ! i) \<in>
      set (map (\<lambda>i. safe_diagnostic_text redact (vals ! i)) (filter (\<lambda>i. i \<in> set sel) [0..<length vals]))"
    using isel i(2) by simp
  moreover have "safe_diagnostic_text redact (vals ! i) = safe_diagnostic_text redact r"
    using i(2,3) by simp
  ultimately show ?thesis using cut(5) by (metis Un_iff set_append)
qed

theorem retained_diagnostics_survive_witness:
  "safe_diagnostic_text (\<lambda>s. s) (js ''gate'') \<in>
     set (bound_diagnostic_list (\<lambda>s. s) [js ''gate''] (replicate 150 (js ''noise'') @ [js ''gate'']))"
  by (rule retained_diagnostics_survive) simp_all

end
