(* ===== verification/Outputs.thy ===== *)
theory Outputs
  imports Alg_Types Json_Values Paths Diagnostics
begin

text \<open>
  The typed node outputs of \<open>src/schemas.ts\<close> (\<open>ExploreOut\<close> to \<open>ShellOut\<close>), their refinements, the
  per-agent byte limit on the serialised value, and \<open>parseAndValidate\<close>, which turns a failed
  parse into bounded retry guidance. The generic object decoder of the schema library is not
  part of the program: \<open>parse_and_validate\<close> takes what the decoder made of the raw value
  (the typed candidate, or none) and the issues it reports.
\<close>

section \<open>Byte limits\<close>

fun AGENT_OUTPUT_BYTE_LIMITS :: "alg_agent \<Rightarrow> nat" where
  "AGENT_OUTPUT_BYTE_LIMITS Explorer = 256 * 1024"
| "AGENT_OUTPUT_BYTE_LIMITS Researcher = 256 * 1024"
| "AGENT_OUTPUT_BYTE_LIMITS Implementer = 256 * 1024"
| "AGENT_OUTPUT_BYTE_LIMITS Checker = 64 * 1024"
| "AGENT_OUTPUT_BYTE_LIMITS Shell = 32 * 1024"

section \<open>Serialised form\<close>

definition j_pair :: "string \<Rightarrow> string \<Rightarrow> jstr \<times> jstr \<Rightarrow> json" where
  "j_pair a b p = J_obj [(js a, J_str (fst p)), (js b, J_str (snd p))]"

fun explore_next_name :: "explore_next \<Rightarrow> jstr" where
  "explore_next_name Next_researcher = js ''researcher''"
| "explore_next_name Next_implementer = js ''implementer''"
| "explore_next_name Next_none = js ''none''"

definition j_research_option :: "research_option \<Rightarrow> json" where
  "j_research_option p = J_obj
     [(js ''name'', J_str (rop_name p)), (js ''pros'', j_strs (rop_pros p)), (js ''cons'', j_strs (rop_cons p))]"

fun output_json :: "agent_output \<Rightarrow> json" where
  "output_json (Explore_output v) = J_obj
     [(js ''query'', J_str (eo_query v)),
      (js ''map'', J_arr (map (j_pair ''path'' ''role'') (eo_map v))),
      (js ''key_hits'', J_arr (map (j_pair ''path'' ''note'') (eo_key_hits v))),
      (js ''next'', J_str (explore_next_name (eo_next v)))]"
| "output_json (Research_output v) = J_obj
     [(js ''answer'', J_str (reo_answer v)),
      (js ''evidence'', J_arr (map (j_pair ''path'' ''finding'') (reo_evidence v))),
      (js ''constraints'', j_strs (reo_constraints v)),
      (js ''options'', J_arr (map j_research_option (reo_options v))),
      (js ''acceptance_criteria'', j_strs (reo_acceptance_criteria v)),
      (js ''risks'', j_strs (reo_risks v))]"
| "output_json (Implement_output v) = J_obj
     ([(js ''summary'', j_strs (io_summary v)),
       (js ''files_touched'', j_strs (io_files_touched v)),
       (js ''commands_run'', J_arr (map (j_pair ''cmd'' ''outcome'') (io_commands_run v))),
       (js ''risks'', j_strs (io_risks v)),
       (js ''done'', J_bool (io_done v))] @
      j_opt ''blockers'' j_strs (io_blockers v) @
      j_opt ''artifact_path'' J_str (io_artifact_path v))"
| "output_json (Check_output v) = J_obj
     ([(js ''passed'', J_bool (co_passed v)),
       (js ''failures'', j_strs (co_failures v)),
       (js ''score'', j_nat (co_score v))] @
      j_opt ''notes'' J_str (co_notes v))"
| "output_json (Shell_output v) = J_obj
     ([(js ''cmd'', J_str (so_cmd v)),
       (js ''exit_code'', j_int (so_exit_code v)),
       (js ''ok'', J_bool (so_ok v)),
       (js ''stdout_tail'', J_str (so_stdout_tail v)),
       (js ''stderr_tail'', J_str (so_stderr_tail v))] @
      j_opt ''timed_out'' J_bool (so_timed_out v) @
      j_opt ''cancelled'' J_bool (so_cancelled v) @
      j_opt ''termination_failed'' J_bool (so_termination_failed v))"

section \<open>Declared bounds\<close>

text \<open>\<open>exactString(minimum, maximum)\<close>; \<open>text\<close> is \<open>exactString(1, 20_000)\<close>.\<close>

definition exact_string :: "nat \<Rightarrow> nat \<Rightarrow> jstr \<Rightarrow> bool" where
  "exact_string minimum maximum v \<longleftrightarrow> minimum \<le> length v \<and> length v \<le> maximum \<and> js_trimmed v"

definition long_text :: "jstr \<Rightarrow> bool" where "long_text = exact_string 1 20000"

definition sized :: "nat \<Rightarrow> nat \<Rightarrow> jstr \<Rightarrow> bool" where
  "sized minimum maximum v \<longleftrightarrow> minimum \<le> length v \<and> length v \<le> maximum"

definition short_pair :: "jstr \<times> jstr \<Rightarrow> bool" where
  "short_pair p \<longleftrightarrow> short_text (fst p) \<and> short_text (snd p)"

definition opt_all :: "('a \<Rightarrow> bool) \<Rightarrow> 'a option \<Rightarrow> bool" where
  "opt_all P v = (case v of None \<Rightarrow> True | Some x \<Rightarrow> P x)"

lemma opt_all_simps [simp]: "opt_all P None" "opt_all P (Some x) \<longleftrightarrow> P x"
  by (simp_all add: opt_all_def)

definition explore_shape :: "explore_out \<Rightarrow> bool" where
  "explore_shape v \<longleftrightarrow>
     long_text (eo_query v) \<and>
     1 \<le> length (eo_map v) \<and> length (eo_map v) \<le> 500 \<and> list_all short_pair (eo_map v) \<and>
     length (eo_key_hits v) \<le> 500 \<and> list_all short_pair (eo_key_hits v)"

definition research_option_shape :: "research_option \<Rightarrow> bool" where
  "research_option_shape p \<longleftrightarrow>
     short_text (rop_name p) \<and> bounded_strings (rop_pros p) \<and> bounded_strings (rop_cons p)"

definition research_shape :: "research_out \<Rightarrow> bool" where
  "research_shape v \<longleftrightarrow>
     long_text (reo_answer v) \<and>
     length (reo_evidence v) \<le> 500 \<and> list_all short_pair (reo_evidence v) \<and>
     bounded_strings (reo_constraints v) \<and>
     length (reo_options v) \<le> 100 \<and> list_all research_option_shape (reo_options v) \<and>
     bounded_strings (reo_acceptance_criteria v) \<and> 1 \<le> length (reo_acceptance_criteria v) \<and>
     bounded_strings (reo_risks v)"

definition implement_shape :: "implement_out \<Rightarrow> bool" where
  "implement_shape v \<longleftrightarrow>
     bounded_strings (io_summary v) \<and> 1 \<le> length (io_summary v) \<and>
     length (io_files_touched v) \<le> 1000 \<and>
     list_all (\<lambda>p. sized 1 1024 p \<and> is_safe_project_relative_path p) (io_files_touched v) \<and>
     length (io_commands_run v) \<le> 200 \<and>
     list_all (\<lambda>c. sized 1 8192 (fst c) \<and> short_text (snd c)) (io_commands_run v) \<and>
     bounded_strings (io_risks v) \<and> opt_all bounded_strings (io_blockers v) \<and>
     opt_all (\<lambda>p. sized 1 1024 p \<and> is_safe_run_artifact_path p) (io_artifact_path v)"

definition check_shape :: "check_out \<Rightarrow> bool" where
  "check_shape v \<longleftrightarrow>
     bounded_strings (co_failures v) \<and> co_score v \<le> 10 \<and> opt_all short_text (co_notes v)"

definition shell_shape :: "shell_out \<Rightarrow> bool" where
  "shell_shape v \<longleftrightarrow>
     sized 1 8192 (so_cmd v) \<and> -1 \<le> so_exit_code v \<and> so_exit_code v \<le> 255 \<and>
     length (so_stdout_tail v) \<le> 8192 \<and> length (so_stderr_tail v) \<le> 8192"

section \<open>Refinements\<close>

text \<open>\<open>value.blockers?.length ?? 0\<close>\<close>

definition blocker_count :: "implement_out \<Rightarrow> nat" where
  "blocker_count v = (case io_blockers v of None \<Rightarrow> 0 | Some bs \<Rightarrow> length bs)"

definition implement_issues :: "implement_out \<Rightarrow> issues" where
  "implement_issues v =
     check (\<not> (io_done v \<and> 0 < blocker_count v)) (js ''done=true cannot include blockers'') @
     check (io_done v \<or> blocker_count v \<noteq> 0) (js ''done=false requires explicit blockers'')"

definition check_issues :: "check_out \<Rightarrow> issues" where
  "check_issues v =
     check (\<not> (co_passed v \<and> co_failures v \<noteq> [])) (js ''passed=true requires no failures'') @
     check (\<not> (\<not> co_passed v \<and> co_failures v = [])) (js ''passed=false requires at least one failure'') @
     check (co_passed v = (7 \<le> co_score v)) (js ''passed must equal score >= 7'')"

definition shell_issues :: "shell_out \<Rightarrow> issues" where
  "shell_issues v =
     check (so_ok v = (so_exit_code v = 0 \<and> so_timed_out v \<noteq> Some True \<and>
              so_cancelled v \<noteq> Some True \<and> so_termination_failed v \<noteq> Some True))
       (js ''ok must reflect exit_code/timeout/cancellation'')"

text \<open>\<open>schemaForAgent(agent)\<close>: the schema a value is parsed with, and whether it accepts.\<close>

fun output_agent :: "agent_output \<Rightarrow> alg_agent" where
  "output_agent (Explore_output v) = Explorer"
| "output_agent (Research_output v) = Researcher"
| "output_agent (Implement_output v) = Implementer"
| "output_agent (Check_output v) = Checker"
| "output_agent (Shell_output v) = Shell"

fun output_shape :: "agent_output \<Rightarrow> bool" where
  "output_shape (Explore_output v) = explore_shape v"
| "output_shape (Research_output v) = research_shape v"
| "output_shape (Implement_output v) = implement_shape v"
| "output_shape (Check_output v) = check_shape v"
| "output_shape (Shell_output v) = shell_shape v"

fun output_refinements :: "agent_output \<Rightarrow> issues" where
  "output_refinements (Explore_output v) = []"
| "output_refinements (Research_output v) = []"
| "output_refinements (Implement_output v) = implement_issues v"
| "output_refinements (Check_output v) = check_issues v"
| "output_refinements (Shell_output v) = shell_issues v"

definition enforce_output_bytes :: "alg_agent \<Rightarrow> agent_output \<Rightarrow> issues" where
  "enforce_output_bytes agent v =
     check (serialized_bytes (output_json v) \<le> AGENT_OUTPUT_BYTE_LIMITS agent)
       (agent_name agent @ js '' output exceeds '' @ dec (AGENT_OUTPUT_BYTE_LIMITS agent) @
        js '' serialized bytes'')"

definition agent_output_valid :: "alg_agent \<Rightarrow> agent_output \<Rightarrow> bool" where
  "agent_output_valid agent v \<longleftrightarrow>
     output_agent v = agent \<and> output_shape v \<and> output_refinements v = [] \<and>
     enforce_output_bytes agent v = []"

section \<open>Retry guidance\<close>

datatype output_rule =
  Rule_text_trimmed | Rule_project_relative_path | Rule_run_artifact_path
| Rule_blockers_forbidden_when_done | Rule_blockers_required_when_incomplete
| Rule_failures_empty_when_passed | Rule_failures_required_when_rejected
| Rule_score_matches_verdict | Rule_shell_ok_matches_execution
| Rule_output_byte_limit | Rule_json_serializable

fun rule_name :: "output_rule \<Rightarrow> jstr" where
  "rule_name Rule_text_trimmed = js ''text_trimmed''"
| "rule_name Rule_project_relative_path = js ''project_relative_path''"
| "rule_name Rule_run_artifact_path = js ''run_artifact_path''"
| "rule_name Rule_blockers_forbidden_when_done = js ''blockers_forbidden_when_done''"
| "rule_name Rule_blockers_required_when_incomplete = js ''blockers_required_when_incomplete''"
| "rule_name Rule_failures_empty_when_passed = js ''failures_empty_when_passed''"
| "rule_name Rule_failures_required_when_rejected = js ''failures_required_when_rejected''"
| "rule_name Rule_score_matches_verdict = js ''score_matches_verdict''"
| "rule_name Rule_shell_ok_matches_execution = js ''shell_ok_matches_execution''"
| "rule_name Rule_output_byte_limit = js ''output_byte_limit''"
| "rule_name Rule_json_serializable = js ''json_serializable''"

fun OUTPUT_RULE_HINTS :: "output_rule \<Rightarrow> jstr" where
  "OUTPUT_RULE_HINTS Rule_text_trimmed = js ''Remove surrounding whitespace from this string.''"
| "OUTPUT_RULE_HINTS Rule_project_relative_path =
     js ''Use a normalized project-relative path with forward slashes and no traversal.''"
| "OUTPUT_RULE_HINTS Rule_run_artifact_path =
     js ''Use .opencode/runs/<current-run-id>/artifacts/<file>; omit artifact_path if no artifact was created.''"
| "OUTPUT_RULE_HINTS Rule_blockers_forbidden_when_done =
     js ''done=true requires no blockers. If work is unfinished, report done=false with explicit blockers.''"
| "OUTPUT_RULE_HINTS Rule_blockers_required_when_incomplete =
     js ''done=false requires a non-empty blockers array describing unfinished work.''"
| "OUTPUT_RULE_HINTS Rule_failures_empty_when_passed =
     js ''passed=true requires failures=[]. If criteria are unmet, report passed=false and specific failures.''"
| "OUTPUT_RULE_HINTS Rule_failures_required_when_rejected =
     js ''passed=false requires at least one specific failure.''"
| "OUTPUT_RULE_HINTS Rule_score_matches_verdict =
     js ''passed must equal (score >= 7); use score 0-6 for rejection and 7-10 for a pass, reflecting the actual assessment.''"
| "OUTPUT_RULE_HINTS Rule_shell_ok_matches_execution =
     js ''ok must equal (exit_code === 0 && !timed_out && !cancelled && !termination_failed).''"
| "OUTPUT_RULE_HINTS Rule_output_byte_limit =
     js ''Reduce the complete serialized UTF-8 JSON output to the stated byte limit without changing facts.''"
| "OUTPUT_RULE_HINTS Rule_json_serializable = js ''Return a JSON-serializable object.''"

text \<open>
  An issue as the schema library reports it: the path after \<open>outputIssuePath\<close>, its code, the
  expected type and the limits when they have the types the program prints, and the rule of
  a custom issue.
\<close>

record zod_issue =
  zi_path :: jstr
  zi_code :: jstr
  zi_expected :: "jstr option"
  zi_minimum :: "jstr option"
  zi_maximum :: "jstr option"
  zi_rule :: "output_rule option"

definition labelled :: "string \<Rightarrow> jstr option \<Rightarrow> jstr" where
  "labelled label v = (case v of None \<Rightarrow> [] | Some x \<Rightarrow> js label @ x)"

definition issue_guidance :: "alg_agent \<Rightarrow> zod_issue \<Rightarrow> jstr" where
  "issue_guidance agent issue =
     (case zi_rule issue of
        None \<Rightarrow> []
      | Some rule \<Rightarrow>
          js '' rule='' @ rule_name rule @
          (if rule = Rule_output_byte_limit
           then js '' max_bytes='' @ dec (AGENT_OUTPUT_BYTE_LIMITS agent) else []) @
          js ''; '' @ OUTPUT_RULE_HINTS rule)"

definition issue_text :: "(jstr \<Rightarrow> jstr) \<Rightarrow> alg_agent \<Rightarrow> zod_issue \<Rightarrow> jstr" where
  "issue_text redact agent issue = safe_diagnostic_text redact
     (zi_path issue @ js '': code='' @ zi_code issue @ labelled '' expected='' (zi_expected issue) @
      labelled '' min='' (zi_minimum issue) @ labelled '' max='' (zi_maximum issue) @
      issue_guidance agent issue)"

definition schema_omitted_label :: "nat \<Rightarrow> jstr" where
  "schema_omitted_label n = js ''[truncated] '' @ dec n @ js '' additional schema issues omitted''"

definition parse_and_validate ::
  "(jstr \<Rightarrow> jstr) \<Rightarrow> alg_agent \<Rightarrow> agent_output option \<Rightarrow> zod_issue list \<Rightarrow>
   jstr list + agent_output" where
  "parse_and_validate redact agent candidate zod_issues =
     (case candidate of
        Some v \<Rightarrow> if agent_output_valid agent v then Inr v
                  else Inl (bound_diagnostic_list_with redact None [] schema_omitted_label
                              (map (issue_text redact agent) zod_issues))
      | None \<Rightarrow> Inl (bound_diagnostic_list_with redact None [] schema_omitted_label
                              (map (issue_text redact agent) zod_issues)))"

lemma parse_and_validate_Inr:
  "parse_and_validate redact agent candidate zis = Inr v \<longleftrightarrow>
   candidate = Some v \<and> agent_output_valid agent v"
  by (auto simp: parse_and_validate_def split: option.split)

lemma parse_and_validate_Inl:
  assumes "parse_and_validate redact agent candidate zis = Inl fs"
  shows "bounded_strings fs" "fs = [] \<longleftrightarrow> zis = []"
  using assms by (auto simp: parse_and_validate_def split: option.splits if_splits)

section \<open>What a valid output is\<close>

text \<open>Every valid output serialises within its agent's limit and has the agent's own type.\<close>

lemma agent_output_validD:
  assumes "agent_output_valid agent v"
  shows "output_agent v = agent" "output_shape v" "output_refinements v = []"
    "serialized_bytes (output_json v) \<le> AGENT_OUTPUT_BYTE_LIMITS agent"
  using assms by (auto simp: agent_output_valid_def enforce_output_bytes_def)

lemma check_output_cases:
  assumes "agent_output_valid Checker v"
  obtains c where "v = Check_output c" "co_passed c \<longleftrightarrow> co_failures c = []"
    "co_passed c \<longleftrightarrow> 7 \<le> co_score c" "bounded_strings (co_failures c)" "co_score c \<le> 10"
  using agent_output_validD [OF assms] that
  by (cases v) (auto simp: check_issues_def check_shape_def)

lemma implement_output_cases:
  assumes "agent_output_valid Implementer v"
  obtains i where "v = Implement_output i"
    "io_done i \<Longrightarrow> io_blockers i = None \<or> io_blockers i = Some []"
    "\<not> io_done i \<Longrightarrow> \<exists>b bs. io_blockers i = Some (b # bs)" "implement_shape i"
proof -
  obtain i where i: "v = Implement_output i" using agent_output_validD(1) [OF assms] by (cases v) auto
  then have "implement_issues i = []" "implement_shape i" using agent_output_validD [OF assms] by auto
  then show thesis using that [OF i]
    by (auto simp: implement_issues_def blocker_count_def neq_Nil_conv split: option.splits)
qed

lemma research_output_cases:
  assumes "agent_output_valid Researcher v"
  obtains r where "v = Research_output r" "bounded_strings (reo_acceptance_criteria r)"
    "reo_acceptance_criteria r \<noteq> []"
  using agent_output_validD [OF assms] that
  by (cases v) (auto simp: research_shape_def Suc_le_eq)

end
