(* ===== verification/Graph_Schema.thy ===== *)
theory Graph_Schema
  imports Outputs
begin

text \<open>
  \<open>GraphDefSchema\<close> and \<open>parseInputExpression\<close> of \<open>src/schemas.ts\<close>: the bounds of a workflow
  graph, the default of its global attempt budget, and the semantic pass that rejects
  duplicate nodes, dependencies that are unknown, repeated or out of order, missing gates,
  misplaced feedback edges and inputs that do not come from an ancestor. The pass is
  proved equivalent to a declarative reading of those rules.
\<close>

section \<open>Input expressions\<close>

datatype input_expression =
  Special jstr
| Literal json
| Reference jstr "jstr list"

definition parse_input_expression :: "jstr \<Rightarrow> input_expression" where
  "parse_input_expression expr =
     (if expr \<noteq> [] \<and> hd expr = 0x24 then Special expr
      else (case json_parse expr of
              Some v \<Rightarrow> Literal v
            | None \<Rightarrow> (case split_on 0x2E expr of
                        [] \<Rightarrow> Reference expr []
                      | node # path \<Rightarrow> Reference node path)))"

text \<open>\<open>/^[A-Za-z0-9_-]{1,64}$/\<close> and not a prototype key.\<close>

definition safe_path_part :: "jstr \<Rightarrow> bool" where
  "safe_path_part part \<longleftrightarrow>
     part \<noteq> [] \<and> length part \<le> 64 \<and> list_all (\<lambda>c. alpha_num c \<or> c = 0x5F \<or> c = 0x2D) part \<and>
     part \<noteq> js ''__proto__'' \<and> part \<noteq> js ''constructor'' \<and> part \<noteq> js ''prototype''"

section \<open>Declared bounds and defaults\<close>

record raw_graph =
  rg_name :: jstr
  rg_description :: "jstr option"
  rg_nodes :: "node_def list"
  rg_max_global_attempts :: "nat option"
  rg_max_concurrency :: "nat option"

definition trimmed_sized :: "nat \<Rightarrow> nat \<Rightarrow> jstr \<Rightarrow> bool" where
  "trimmed_sized minimum maximum v \<longleftrightarrow> sized minimum maximum (js_trim v)"

definition shell_gate_shape :: "shell_gate_def \<Rightarrow> bool" where
  "shell_gate_shape g \<longleftrightarrow>
     trimmed_sized 1 8192 (sg_cmd g) \<and> opt_all (trimmed_sized 1 1024) (sg_cwd g) \<and>
     opt_all (\<lambda>t. 100 \<le> t \<and> t \<le> 600000) (sg_timeout_ms g)"

text \<open>\<open>z.string().trim()\<close> also rewrites the value.\<close>

definition trim_gate :: "shell_gate_def \<Rightarrow> shell_gate_def" where
  "trim_gate g = g\<lparr>sg_cmd := js_trim (sg_cmd g), sg_cwd := map_option js_trim (sg_cwd g)\<rparr>"

definition node_shape :: "node_def \<Rightarrow> bool" where
  "node_shape d \<longleftrightarrow>
     is_safe_id (nd_id d) \<and>
     length (nd_depends_on d) \<le> 64 \<and> list_all is_safe_id (nd_depends_on d) \<and>
     opt_all (\<lambda>inputs. distinct (map fst inputs) \<and>
       list_all (\<lambda>e. is_safe_input_key (fst e) \<and> sized 1 4096 (snd e)) inputs) (nd_inputs d) \<and>
     opt_all short_text (nd_description d) \<and>
     opt_all (\<lambda>l. 1 \<le> nl_max_attempts l \<and> nl_max_attempts l \<le> 100) (nd_loop d) \<and>
     opt_all shell_gate_shape (nd_shell_gate d) \<and>
     opt_all is_safe_id (nd_feedback_to d)"

definition raw_graph_shape :: "raw_graph \<Rightarrow> bool" where
  "raw_graph_shape g \<longleftrightarrow>
     is_safe_id (rg_name g) \<and> opt_all short_text (rg_description g) \<and>
     1 \<le> length (rg_nodes g) \<and> length (rg_nodes g) \<le> 64 \<and> list_all node_shape (rg_nodes g) \<and>
     opt_all (\<lambda>n. 1 \<le> n \<and> n \<le> 10000) (rg_max_global_attempts g) \<and>
     opt_all (\<lambda>n. 1 \<le> n \<and> n \<le> 8) (rg_max_concurrency g)"

definition sum_local_attempts :: "node_def list \<Rightarrow> nat" where
  "sum_local_attempts nodes = foldl (\<lambda>sum d. sum + max_attempts d) 0 nodes"

text \<open>The \<open>default\<close>s and the \<open>transform\<close> of the schema.\<close>

definition complete_graph :: "raw_graph \<Rightarrow> graph_def" where
  "complete_graph g = \<lparr>
     gd_name = rg_name g,
     gd_description = rg_description g,
     gd_nodes = map (\<lambda>d. d\<lparr>nd_shell_gate := map_option trim_gate (nd_shell_gate d)\<rparr>) (rg_nodes g),
     gd_max_global_attempts =
       (case rg_max_global_attempts g of Some n \<Rightarrow> n | None \<Rightarrow> sum_local_attempts (rg_nodes g)),
     gd_max_concurrency = (case rg_max_concurrency g of Some n \<Rightarrow> n | None \<Rightarrow> 4)\<rparr>"

section \<open>Serialised form\<close>

definition j_shell_gate :: "shell_gate_def \<Rightarrow> json" where
  "j_shell_gate g = J_obj
     ([(js ''cmd'', J_str (sg_cmd g))] @ j_opt ''cwd'' J_str (sg_cwd g) @
      j_opt ''timeout_ms'' j_nat (sg_timeout_ms g))"

definition j_loop :: "node_loop \<Rightarrow> json" where
  "j_loop l = J_obj
     [(js ''max_attempts'', j_nat (nl_max_attempts l)), (js ''gate'', J_str (gate_name (nl_gate l)))]"

definition j_node :: "node_def \<Rightarrow> json" where
  "j_node d = J_obj
     ([(js ''id'', J_str (nd_id d)), (js ''agent'', J_str (agent_name (nd_agent d))),
       (js ''depends_on'', j_strs (nd_depends_on d))] @
      j_opt ''inputs'' (\<lambda>m. J_obj (map (\<lambda>e. (fst e, J_str (snd e))) m)) (nd_inputs d) @
      j_opt ''description'' J_str (nd_description d) @
      j_opt ''loop'' j_loop (nd_loop d) @
      j_opt ''shell_gate'' j_shell_gate (nd_shell_gate d) @
      j_opt ''isolated_check'' J_bool (nd_isolated_check d) @
      j_opt ''feedback_to'' J_str (nd_feedback_to d))"

definition j_graph :: "graph_def \<Rightarrow> json" where
  "j_graph g = J_obj
     ([(js ''name'', J_str (gd_name g))] @
      j_opt ''description'' J_str (gd_description g) @
      [(js ''nodes'', J_arr (map j_node (gd_nodes g))),
       (js ''max_concurrency'', j_nat (gd_max_concurrency g)),
       (js ''max_global_attempts'', j_nat (gd_max_global_attempts g))])"

section \<open>The semantic pass\<close>

text \<open>
  \<open>index.set(node.id, i)\<close> for every node in order: a later duplicate wins. The first loop also
  reports the duplicates.
\<close>

fun index_nodes :: "nat \<Rightarrow> (jstr \<rightharpoonup> nat) \<Rightarrow> node_def list \<Rightarrow> issues \<times> (jstr \<rightharpoonup> nat)" where
  "index_nodes i index [] = ([], index)"
| "index_nodes i index (d # ds) =
     (let (rest, final) = index_nodes (Suc i) (index(nd_id d \<mapsto> i)) ds
      in (check (index (nd_id d) = None) (js ''duplicate node id: '' @ nd_id d) @ rest, final))"

text \<open>The loop over \<open>node.depends_on\<close>: its issues and the set \<open>direct\<close> of ancestors it gathers.\<close>

fun scan_deps ::
  "(jstr \<rightharpoonup> nat) \<Rightarrow> (jstr \<rightharpoonup> jstr list) \<Rightarrow> nat \<Rightarrow> jstr \<Rightarrow> jstr list \<Rightarrow> jstr list \<Rightarrow>
   issues \<times> jstr list" where
  "scan_deps index ancestors i self seen [] = ([], [])"
| "scan_deps index ancestors i self seen (dep # deps) =
     (if dep \<in> set seen then
        let (rest, direct) = scan_deps index ancestors i self seen deps
        in ((js ''duplicate dependency: '' @ dep) # rest, direct)
      else
        let (rest, direct) = scan_deps index ancestors i self (dep # seen) deps
        in (case index dep of
              None \<Rightarrow> ((js ''unknown dependency: '' @ dep) # rest, direct)
            | Some k \<Rightarrow>
                if i \<le> k
                then ((js ''dependency '' @ dep @ js '' must appear before '' @ self) # rest, direct)
                else (rest, dep # (case ancestors dep of None \<Rightarrow> [] | Some a \<Rightarrow> a) @ direct)))"

definition gate_issues :: "node_def \<Rightarrow> issues" where
  "gate_issues d =
     check (\<not> (shell_gated d \<and> nd_shell_gate d = None))
       (js ''gate '' @ gate_name (node_gate d) @ js '' requires shell_gate'') @
     check (\<not> (nd_agent d = Shell \<and> nd_shell_gate d = None)) (js ''shell agent requires shell_gate'') @
     check (\<not> (nd_isolated_check d = Some True \<and> nd_agent d \<noteq> Checker))
       (js ''isolated_check is only valid for checker nodes'') @
     (case nd_feedback_to d of
        None \<Rightarrow> []
      | Some target \<Rightarrow>
          if target = [] then []
          else if nd_agent d \<noteq> Checker then [js ''feedback_to is only valid for checker nodes'']
          else check (target \<in> set (nd_depends_on d)) (js ''feedback_to must name a direct dependency''))"

definition starts_dollar :: "jstr \<Rightarrow> bool" where
  "starts_dollar s \<longleftrightarrow> s \<noteq> [] \<and> hd s = 0x24"

definition reference_issues :: "(jstr \<rightharpoonup> nat) \<Rightarrow> jstr list \<Rightarrow> jstr \<Rightarrow> issues" where
  "reference_issues index direct ref =
     (if starts_dollar ref then [js ''unknown special input: '' @ ref]
      else if index ref = None then [js ''input reference does not exist: '' @ ref]
      else check (ref \<in> set direct) (js ''input reference '' @ ref @ js '' is not an earlier dependency''))"

definition input_issues :: "(jstr \<rightharpoonup> nat) \<Rightarrow> jstr list \<Rightarrow> jstr \<Rightarrow> issues" where
  "input_issues index direct expr =
     (case parse_input_expression expr of
        Literal v \<Rightarrow> []
      | Special name \<Rightarrow>
          if name = js ''$goal'' \<or> name = js ''$criteria'' then []
          else reference_issues index direct name
      | Reference node path \<Rightarrow>
          check (list_all safe_path_part path) (js ''unsafe input field path'') @
          reference_issues index direct node)"

definition node_inputs :: "node_def \<Rightarrow> (jstr \<times> jstr) list" where
  "node_inputs d = (case nd_inputs d of None \<Rightarrow> [] | Some inputs \<Rightarrow> inputs)"

definition node_issues_with :: "(jstr \<rightharpoonup> nat) \<Rightarrow> issues \<Rightarrow> jstr list \<Rightarrow> node_def \<Rightarrow> issues" where
  "node_issues_with index dep_issues direct d =
     dep_issues @ gate_issues d @ concat (map (\<lambda>e. input_issues index direct (snd e)) (node_inputs d))"

fun scan_nodes ::
  "(jstr \<rightharpoonup> nat) \<Rightarrow> (jstr \<rightharpoonup> jstr list) \<Rightarrow> nat \<Rightarrow> node_def list \<Rightarrow> issues" where
  "scan_nodes index ancestors i [] = []"
| "scan_nodes index ancestors i (d # ds) =
     (let (dep_issues, direct) = scan_deps index ancestors i (nd_id d) [] (nd_depends_on d)
      in node_issues_with index dep_issues direct d @
         scan_nodes index (ancestors(nd_id d \<mapsto> direct)) (Suc i) ds)"

definition graph_size_issues :: "graph_def \<Rightarrow> issues" where
  "graph_size_issues g =
     (let bytes = serialized_bytes (j_graph g) in
      check (bytes \<le> MAX_GRAPH_STATE_BYTES)
        (js ''graph exceeds '' @ dec MAX_GRAPH_STATE_BYTES @ js '' serialized bytes (received '' @
         dec bytes @ js '')''))"

definition graph_issues :: "graph_def \<Rightarrow> issues" where
  "graph_issues g =
     (let (duplicates, index) = index_nodes 0 Map.empty (gd_nodes g)
      in duplicates @ scan_nodes index Map.empty 0 (gd_nodes g) @ graph_size_issues g)"

text \<open>\<open>parseGraph\<close>: shape, defaults, then the semantic pass; a failed parse reports its issues.\<close>

definition parse_graph :: "raw_graph \<Rightarrow> issues + graph_def" where
  "parse_graph raw =
     (if \<not> raw_graph_shape raw then Inl [js ''graph shape'']
      else let g = complete_graph raw in
           if graph_issues g = [] then Inr g else Inl (graph_issues g))"

section \<open>What the pass decides\<close>

text \<open>Direct dependency between node ids, and the nodes declared before a position.\<close>

definition dep_rel :: "node_def list \<Rightarrow> (jstr \<times> jstr) set" where
  "dep_rel nodes = {(dep, nd_id d) | dep d. d \<in> set nodes \<and> dep \<in> set (nd_depends_on d)}"

definition topological :: "node_def list \<Rightarrow> bool" where
  "topological nodes \<longleftrightarrow>
     (\<forall>i < length nodes. distinct (nd_depends_on (nodes ! i)) \<and>
        set (nd_depends_on (nodes ! i)) \<subseteq> nd_id ` set (take i nodes))"

definition gates_ok :: "node_def \<Rightarrow> bool" where
  "gates_ok d \<longleftrightarrow>
     (requires_shell d \<longrightarrow> nd_shell_gate d \<noteq> None) \<and>
     (nd_isolated_check d = Some True \<longrightarrow> nd_agent d = Checker) \<and>
     (\<forall>target. nd_feedback_to d = Some target \<and> target \<noteq> [] \<longrightarrow>
        nd_agent d = Checker \<and> target \<in> set (nd_depends_on d))"

definition input_ok :: "node_def list \<Rightarrow> node_def \<Rightarrow> jstr \<Rightarrow> bool" where
  "input_ok nodes d expr =
     (case parse_input_expression expr of
        Literal v \<Rightarrow> True
      | Special name \<Rightarrow> name = js ''$goal'' \<or> name = js ''$criteria''
      | Reference node path \<Rightarrow> list_all safe_path_part path \<and> (node, nd_id d) \<in> (dep_rel nodes)\<^sup>+)"

definition graph_well_formed :: "graph_def \<Rightarrow> bool" where
  "graph_well_formed g \<longleftrightarrow>
     distinct (map nd_id (gd_nodes g)) \<and> topological (gd_nodes g) \<and>
     (\<forall>d \<in> set (gd_nodes g). gates_ok d \<and>
        (\<forall>e \<in> set (node_inputs d). input_ok (gd_nodes g) d (snd e))) \<and>
     serialized_bytes (j_graph g) \<le> MAX_GRAPH_STATE_BYTES"

lemma gate_issues_Nil [issue_simps]: "gate_issues d = [] \<longleftrightarrow> gates_ok d"
  by (auto simp: gate_issues_def gates_ok_def requires_shell_def split: option.splits if_splits)

lemma index_nodes_issues:
  "fst (index_nodes i index ds) = [] \<longleftrightarrow>
   distinct (map nd_id ds) \<and> (\<forall>d \<in> set ds. index (nd_id d) = None)"
proof (induction ds arbitrary: i index)
  case (Cons d ds)
  have "(\<forall>e \<in> set ds. (index(nd_id d \<mapsto> i)) (nd_id e) = None) \<longleftrightarrow>
      nd_id d \<notin> nd_id ` set ds \<and> (\<forall>e \<in> set ds. index (nd_id e) = None)"
    by (auto simp: image_iff split: if_splits)
  then show ?case using Cons.IH by (auto simp: split_beta)
qed simp

lemma index_nodes_absent:
  "x \<notin> nd_id ` set ds \<Longrightarrow> snd (index_nodes i index ds) x = index x"
  by (induction ds arbitrary: i index) (auto simp: split_beta)

lemma index_nodes_nth:
  "distinct (map nd_id ds) \<Longrightarrow> k < length ds \<Longrightarrow>
   snd (index_nodes i index ds) (nd_id (ds ! k)) = Some (i + k)"
proof (induction ds arbitrary: i index k)
  case (Cons d ds)
  show ?case
  proof (cases k)
    case 0
    then show ?thesis using Cons.prems by (auto simp: split_beta index_nodes_absent)
  next
    case (Suc j)
    then show ?thesis using Cons.IH [of j] Cons.prems by (simp add: split_beta)
  qed
qed simp

text \<open>The index of a graph without duplicates.\<close>

definition graph_index :: "node_def list \<Rightarrow> (jstr \<rightharpoonup> nat)" where
  "graph_index nodes = snd (index_nodes 0 Map.empty nodes)"

lemma graph_index_nth:
  "distinct (map nd_id nodes) \<Longrightarrow> k < length nodes \<Longrightarrow> graph_index nodes (nd_id (nodes ! k)) = Some k"
  using index_nodes_nth [of nodes k 0 Map.empty] by (simp add: graph_index_def)

lemma graph_index_None [simp]: "graph_index nodes x = None \<longleftrightarrow> x \<notin> nd_id ` set nodes"
  if "distinct (map nd_id nodes)"
  using that graph_index_nth [OF that] index_nodes_absent [of x nodes 0 Map.empty]
  by (auto simp: graph_index_def in_set_conv_nth)

lemma graph_index_Some:
  assumes "distinct (map nd_id nodes)" "graph_index nodes x = Some k"
  shows "k < length nodes" "nd_id (nodes ! k) = x"
proof -
  have "x \<in> nd_id ` set nodes" using assms graph_index_None by (metis option.distinct(1))
  then obtain j where "j < length nodes" "nd_id (nodes ! j) = x" by (auto simp: in_set_conv_nth)
  then show "k < length nodes" "nd_id (nodes ! k) = x"
    using graph_index_nth [OF assms(1), of j] assms(2) by auto
qed

lemma graph_index_less:
  assumes "distinct (map nd_id nodes)"
  shows "(\<exists>k<i. graph_index nodes x = Some k) \<longleftrightarrow> x \<in> nd_id ` set (take i nodes)"
proof
  assume "\<exists>k<i. graph_index nodes x = Some k"
  then obtain k where k: "k < i" "graph_index nodes x = Some k" by blast
  note s = graph_index_Some [OF assms k(2)]
  then have "nodes ! k \<in> set (take i nodes)" using k(1) by (auto simp: in_set_conv_nth)
  then show "x \<in> nd_id ` set (take i nodes)" using s(2) by auto
next
  assume "x \<in> nd_id ` set (take i nodes)"
  then obtain k where "k < length nodes" "k < i" "nd_id (nodes ! k) = x"
    by (auto simp: in_set_conv_nth)
  then show "\<exists>k<i. graph_index nodes x = Some k" using graph_index_nth [OF assms] by blast
qed

section \<open>The dependency loop\<close>

lemma scan_deps_issues:
  "fst (scan_deps index ancestors i self seen deps) = [] \<longleftrightarrow>
   distinct deps \<and> set deps \<inter> set seen = {} \<and> (\<forall>dep \<in> set deps. \<exists>k<i. index dep = Some k)"
proof (induction deps arbitrary: seen)
  case (Cons dep deps)
  show ?case
  proof (cases "dep \<in> set seen")
    case False
    then show ?thesis using Cons.IH [of "dep # seen"]
      by (cases "index dep") (auto simp: split_beta not_le)
  qed (auto simp: split_beta)
qed simp

lemma scan_deps_direct:
  "fst (scan_deps index ancestors i self seen deps) = [] \<Longrightarrow>
   set (snd (scan_deps index ancestors i self seen deps)) =
     set deps \<union> (\<Union>dep \<in> set deps. case ancestors dep of None \<Rightarrow> {} | Some a \<Rightarrow> set a)"
proof (induction deps arbitrary: seen)
  case (Cons dep deps)
  have nin: "dep \<notin> set seen" using Cons.prems by (auto simp: split_beta)
  then obtain k where "index dep = Some k" "\<not> i \<le> k"
    "fst (scan_deps index ancestors i self (dep # seen) deps) = []"
    using Cons.prems by (auto simp: split_beta split: option.splits if_splits)
  then show ?case using Cons.IH [of "dep # seen"] nin
    by (auto simp: split_beta split: option.splits)
qed simp

section \<open>Transitive dependencies\<close>

lemma dep_rel_iff:
  assumes "distinct (map nd_id nodes)" "d \<in> set nodes"
  shows "(dep, nd_id d) \<in> dep_rel nodes \<longleftrightarrow> dep \<in> set (nd_depends_on d)"
  using assms distinct_index_unique [OF assms(1)] by (auto simp: dep_rel_def)

lemma ancestors_step:
  assumes "distinct (map nd_id nodes)" "d \<in> set nodes"
  shows "{x. (x, nd_id d) \<in> (dep_rel nodes)\<^sup>+} =
     set (nd_depends_on d) \<union> (\<Union>dep \<in> set (nd_depends_on d). {x. (x, dep) \<in> (dep_rel nodes)\<^sup>+})"
proof -
  have "(x, nd_id d) \<in> (dep_rel nodes)\<^sup>+ \<longleftrightarrow>
      (\<exists>dep. (x, dep) \<in> (dep_rel nodes)\<^sup>* \<and> (dep, nd_id d) \<in> dep_rel nodes)" for x
    by (meson rtrancl_into_trancl1 tranclD2)
  then have "(x, nd_id d) \<in> (dep_rel nodes)\<^sup>+ \<longleftrightarrow>
      x \<in> set (nd_depends_on d) \<or> (\<exists>dep \<in> set (nd_depends_on d). (x, dep) \<in> (dep_rel nodes)\<^sup>+)" for x
    unfolding dep_rel_iff [OF assms] rtrancl_eq_or_trancl by blast
  then show ?thesis by auto
qed

lemma dep_rel_domain:
  assumes "topological nodes" "(x, y) \<in> (dep_rel nodes)\<^sup>+"
  shows "x \<in> nd_id ` set nodes"
proof -
  have "x \<in> nd_id ` set nodes" if "(x, z) \<in> dep_rel nodes" for x z
  proof -
    from that obtain d where d: "d \<in> set nodes" "x \<in> set (nd_depends_on d)" by (auto simp: dep_rel_def)
    then obtain i where "i < length nodes" "nodes ! i = d" by (auto simp: in_set_conv_nth)
    then have "x \<in> nd_id ` set (take i nodes)" using assms(1) d(2) by (auto simp: topological_def)
    then show ?thesis using set_take_subset [of i nodes] by blast
  qed
  then show ?thesis using tranclD [OF assms(2)] by auto
qed

text \<open>
  The loop over the nodes, after its first \<open>i\<close> of them and given that positions are in order:
  the table of ancestors holds the transitive dependencies of every node seen.
\<close>

definition ancestors_upto :: "node_def list \<Rightarrow> nat \<Rightarrow> (jstr \<rightharpoonup> jstr list) \<Rightarrow> bool" where
  "ancestors_upto nodes i ancestors \<longleftrightarrow>
     (\<forall>k < i. k < length nodes \<longrightarrow> (\<exists>a. ancestors (nd_id (nodes ! k)) = Some a \<and>
        set a = {x. (x, nd_id (nodes ! k)) \<in> (dep_rel nodes)\<^sup>+}))"

definition ordered_at :: "node_def list \<Rightarrow> nat \<Rightarrow> bool" where
  "ordered_at nodes i \<longleftrightarrow>
     distinct (nd_depends_on (nodes ! i)) \<and>
     set (nd_depends_on (nodes ! i)) \<subseteq> nd_id ` set (take i nodes)"

lemma scan_deps_at:
  assumes "distinct (map nd_id nodes)" "i < length nodes"
  shows "fst (scan_deps (graph_index nodes) ancestors i self [] (nd_depends_on (nodes ! i))) = [] \<longleftrightarrow>
    ordered_at nodes i"
  using scan_deps_issues [of "graph_index nodes" ancestors i self "[]"] graph_index_less [OF assms(1)]
  by (auto simp: ordered_at_def subset_iff)

lemma ancestors_at:
  assumes "distinct (map nd_id nodes)" "i < length nodes" "ordered_at nodes i"
    and "ancestors_upto nodes i ancestors"
  shows "set (snd (scan_deps (graph_index nodes) ancestors i self [] (nd_depends_on (nodes ! i)))) =
    {x. (x, nd_id (nodes ! i)) \<in> (dep_rel nodes)\<^sup>+}"
proof -
  let ?deps = "nd_depends_on (nodes ! i)"
  have known: "(case ancestors dep of None \<Rightarrow> {} | Some a \<Rightarrow> set a) = {x. (x, dep) \<in> (dep_rel nodes)\<^sup>+}"
    if dep: "dep \<in> set ?deps" for dep
  proof -
    have "dep \<in> nd_id ` set (take i nodes)" using dep assms(3) unfolding ordered_at_def by blast
    then obtain k where k: "k < i" "k < length nodes" "nd_id (nodes ! k) = dep"
      by (auto simp: in_set_conv_nth)
    then obtain a where "ancestors dep = Some a" "set a = {x. (x, dep) \<in> (dep_rel nodes)\<^sup>+}"
      using assms(4) unfolding ancestors_upto_def by metis
    then show ?thesis by simp
  qed
  have "fst (scan_deps (graph_index nodes) ancestors i self [] ?deps) = []"
    using scan_deps_at [OF assms(1,2)] assms(3) by blast
  from scan_deps_direct [OF this]
  have "set (snd (scan_deps (graph_index nodes) ancestors i self [] ?deps)) =
      set ?deps \<union> (\<Union>dep \<in> set ?deps. {x. (x, dep) \<in> (dep_rel nodes)\<^sup>+})"
    using SUP_cong [OF refl known, of "set ?deps"] by simp
  then show ?thesis using ancestors_step [OF assms(1) nth_mem [OF assms(2)]] by (simp only:)
qed

lemma ancestors_upto_Suc:
  assumes "distinct (map nd_id nodes)" "i < length nodes" "ordered_at nodes i"
    and "ancestors_upto nodes i ancestors"
  shows "ancestors_upto nodes (Suc i)
    (ancestors(nd_id (nodes ! i) \<mapsto>
       snd (scan_deps (graph_index nodes) ancestors i self [] (nd_depends_on (nodes ! i)))))"
  unfolding ancestors_upto_def
proof (intro allI impI)
  fix k assume k: "k < Suc i" "k < length nodes"
  show "\<exists>a. (ancestors(nd_id (nodes ! i) \<mapsto> snd (scan_deps (graph_index nodes) ancestors i self []
      (nd_depends_on (nodes ! i))))) (nd_id (nodes ! k)) = Some a \<and>
    set a = {x. (x, nd_id (nodes ! k)) \<in> (dep_rel nodes)\<^sup>+}"
  proof (cases "k = i")
    case True
    then show ?thesis using ancestors_at [OF assms] by simp
  next
    case False
    then have "nd_id (nodes ! k) \<noteq> nd_id (nodes ! i)"
      using assms(1,2) k nth_eq_iff_index_eq [of "map nd_id nodes" k i] by simp
    then show ?thesis using assms(4) k False by (auto simp: ancestors_upto_def)
  qed
qed

section \<open>Equivalence with the declarative reading\<close>

lemma safe_id_not_dollar: "is_safe_id v \<Longrightarrow> \<not> starts_dollar v"
  using is_safe_id_units [of v]
  by (cases v) (auto simp: starts_dollar_def id_unit_def alpha_num_def upper_alpha_def lower_alpha_def
      digit_def word_le_nat_alt)

lemma topological_iff_ordered: "topological nodes \<longleftrightarrow> (\<forall>i < length nodes. ordered_at nodes i)"
  by (auto simp: topological_def ordered_at_def)

lemma reference_issues_Nil:
  assumes "distinct (map nd_id nodes)" "topological nodes" "list_all (\<lambda>n. is_safe_id (nd_id n)) nodes"
    and direct: "set direct = {x. (x, nd_id d) \<in> (dep_rel nodes)\<^sup>+}"
  shows "reference_issues (graph_index nodes) direct ref = [] \<longleftrightarrow> (ref, nd_id d) \<in> (dep_rel nodes)\<^sup>+"
proof (cases "(ref, nd_id d) \<in> (dep_rel nodes)\<^sup>+")
  case True
  then have "ref \<in> nd_id ` set nodes" by (rule dep_rel_domain [OF assms(2)])
  moreover from this have "\<not> starts_dollar ref"
    using assms(3) safe_id_not_dollar by (auto simp: list_all_iff)
  ultimately show ?thesis using True direct assms(1) by (simp add: reference_issues_def)
qed (use direct in \<open>auto simp: reference_issues_def\<close>)

lemma reference_issues_dollar: "starts_dollar ref \<Longrightarrow> reference_issues index direct ref \<noteq> []"
  by (simp add: reference_issues_def)

lemma special_starts_dollar: "parse_input_expression expr = Special name \<Longrightarrow> starts_dollar name"
  by (auto simp: parse_input_expression_def starts_dollar_def split: if_splits option.splits list.splits)

lemma input_issues_Nil:
  assumes "distinct (map nd_id nodes)" "topological nodes" "list_all (\<lambda>n. is_safe_id (nd_id n)) nodes"
    and "set direct = {x. (x, nd_id d) \<in> (dep_rel nodes)\<^sup>+}"
  shows "input_issues (graph_index nodes) direct expr = [] \<longleftrightarrow> input_ok nodes d expr"
  using special_starts_dollar [of expr] reference_issues_dollar reference_issues_Nil [OF assms]
  by (cases "parse_input_expression expr") (auto simp: input_issues_def input_ok_def)

text \<open>The node pass over a suffix of the graph.\<close>

definition node_ok :: "node_def list \<Rightarrow> node_def \<Rightarrow> bool" where
  "node_ok nodes d \<longleftrightarrow> gates_ok d \<and> (\<forall>e \<in> set (node_inputs d). input_ok nodes d (snd e))"

lemma scan_nodes_Cons:
  "scan_nodes index ancestors i (d # ds) = [] \<longleftrightarrow>
   node_issues_with index (fst (scan_deps index ancestors i (nd_id d) [] (nd_depends_on d)))
     (snd (scan_deps index ancestors i (nd_id d) [] (nd_depends_on d))) d = [] \<and>
   scan_nodes index (ancestors(nd_id d \<mapsto> snd (scan_deps index ancestors i (nd_id d) [] (nd_depends_on d))))
     (Suc i) ds = []"
  by (simp add: split_beta)

lemma scan_nodes_ordered:
  assumes "distinct (map nd_id nodes)"
  shows "scan_nodes (graph_index nodes) ancestors i (drop i nodes) = [] \<Longrightarrow>
    i \<le> k \<Longrightarrow> k < length nodes \<Longrightarrow> ordered_at nodes k"
proof (induction "length nodes - i" arbitrary: i ancestors)
  case (Suc n)
  then have i: "i < length nodes" by simp
  then have d: "drop i nodes = nodes ! i # drop (Suc i) nodes" by (simp add: Cons_nth_drop_Suc)
  have head: "ordered_at nodes i" and
    tail: "\<exists>anc'. scan_nodes (graph_index nodes) anc' (Suc i) (drop (Suc i) nodes) = []"
    using Suc.prems(1) scan_deps_at [OF assms i] unfolding d scan_nodes_Cons node_issues_with_def by auto
  show ?case
  proof (cases "k = i")
    case False
    then show ?thesis using tail Suc.hyps(1) [of "Suc i"] Suc.hyps(2) Suc.prems(2,3) by auto
  qed (use head in simp)
qed simp

lemma scan_nodes_sound:
  assumes "distinct (map nd_id nodes)" "topological nodes" "list_all (\<lambda>n. is_safe_id (nd_id n)) nodes"
  shows "ancestors_upto nodes i ancestors \<Longrightarrow> i \<le> length nodes \<Longrightarrow>
    scan_nodes (graph_index nodes) ancestors i (drop i nodes) = [] \<longleftrightarrow>
    (\<forall>d \<in> set (drop i nodes). node_ok nodes d)"
proof (induction "length nodes - i" arbitrary: i ancestors)
  case (Suc n)
  then have i: "i < length nodes" by simp
  let ?scan = "scan_deps (graph_index nodes) ancestors i (nd_id (nodes ! i)) [] (nd_depends_on (nodes ! i))"
  have d: "drop i nodes = nodes ! i # drop (Suc i) nodes" using i by (simp add: Cons_nth_drop_Suc)
  have ord: "ordered_at nodes i" using assms(2) i by (simp add: topological_iff_ordered)
  have direct: "set (snd ?scan) = {x. (x, nd_id (nodes ! i)) \<in> (dep_rel nodes)\<^sup>+}"
    by (rule ancestors_at [OF assms(1) i ord Suc.prems(1)])
  have "fst ?scan = []" using scan_deps_at [OF assms(1) i] ord by simp
  then have "node_issues_with (graph_index nodes) (fst ?scan) (snd ?scan) (nodes ! i) = [] \<longleftrightarrow>
      node_ok nodes (nodes ! i)"
    using input_issues_Nil [OF assms direct]
    by (auto simp: node_issues_with_def node_ok_def gate_issues_Nil)
  moreover have "scan_nodes (graph_index nodes) (ancestors(nd_id (nodes ! i) \<mapsto> snd ?scan)) (Suc i)
      (drop (Suc i) nodes) = [] \<longleftrightarrow> (\<forall>d \<in> set (drop (Suc i) nodes). node_ok nodes d)"
    using Suc.hyps(1) [of "Suc i"] Suc.hyps(2) i ancestors_upto_Suc [OF assms(1) i ord Suc.prems(1)]
    by simp
  ultimately show ?case unfolding d scan_nodes_Cons by simp
qed simp

lemma graph_size_issues_Nil:
  "graph_size_issues g = [] \<longleftrightarrow> serialized_bytes (j_graph g) \<le> MAX_GRAPH_STATE_BYTES"
  by (simp add: graph_size_issues_def Let_def)

lemma ancestors_upto_0: "ancestors_upto nodes 0 ancestors"
  by (simp add: ancestors_upto_def)

lemma graph_issues_spec:
  assumes "list_all (\<lambda>n. is_safe_id (nd_id n)) (gd_nodes g)"
  shows "graph_issues g = [] \<longleftrightarrow> graph_well_formed g"
proof -
  let ?nodes = "gd_nodes g"
  have dup: "fst (index_nodes 0 Map.empty ?nodes) = [] \<longleftrightarrow> distinct (map nd_id ?nodes)"
    using index_nodes_issues [of 0 Map.empty ?nodes] by simp
  have split: "graph_issues g = [] \<longleftrightarrow> distinct (map nd_id ?nodes) \<and>
      scan_nodes (graph_index ?nodes) Map.empty 0 ?nodes = [] \<and>
      serialized_bytes (j_graph g) \<le> MAX_GRAPH_STATE_BYTES"
    using dup by (simp add: graph_issues_def split_beta graph_index_def graph_size_issues_Nil)
  have order: "topological ?nodes"
    if "distinct (map nd_id ?nodes)" "scan_nodes (graph_index ?nodes) Map.empty 0 ?nodes = []"
    using scan_nodes_ordered [OF that(1), of Map.empty 0] that(2) by (simp add: topological_iff_ordered)
  have pass: "scan_nodes (graph_index ?nodes) Map.empty 0 ?nodes = [] \<longleftrightarrow> (\<forall>d \<in> set ?nodes. node_ok ?nodes d)"
    if "distinct (map nd_id ?nodes)" "topological ?nodes"
    using scan_nodes_sound [OF that assms ancestors_upto_0] by simp
  show ?thesis unfolding split graph_well_formed_def using order pass by (auto simp: node_ok_def)
qed

text \<open>
  C2. The semantic pass of \<open>GraphDefSchema\<close> accepts a graph exactly when it is well formed:
  identifiers are distinct, every dependency is declared earlier and once, gates, isolation
  and feedback edges are where they are allowed, and every input refers to a transitive
  dependency by a safe field path. The incremental ancestor sets of the pass therefore
  compute the transitive closure of the dependency relation.
\<close>

theorem graph_issues_characterised:
  assumes "list_all (\<lambda>n. is_safe_id (nd_id n)) (gd_nodes g)"
  shows "graph_issues g = [] \<longleftrightarrow> graph_well_formed g"
  by (rule graph_issues_spec [OF assms])

definition example_node :: "string \<Rightarrow> alg_agent \<Rightarrow> string list \<Rightarrow> node_def" where
  "example_node i agent deps =
     \<lparr>nd_id = js i, nd_agent = agent, nd_depends_on = map js deps, nd_inputs = None,
      nd_description = None, nd_loop = Some \<lparr>nl_max_attempts = 3, nl_gate = Gate_schema\<rparr>,
      nd_shell_gate = None, nd_isolated_check = None, nd_feedback_to = None\<rparr>"

definition example_graph :: graph_def where
  "example_graph =
     \<lparr>gd_name = js ''demo'', gd_description = None,
      gd_nodes =
        [example_node ''explore'' Explorer [],
         (example_node ''implement'' Implementer [''explore''])
           \<lparr>nd_inputs := Some [(js ''map'', js ''explore.map''), (js ''goal'', js ''$goal'')]\<rparr>,
         (example_node ''check'' Checker [''implement''])
           \<lparr>nd_inputs := Some [(js ''hits'', js ''explore.key_hits'')],
            nd_feedback_to := Some (js ''implement'')\<rparr>],
      gd_max_global_attempts = 9, gd_max_concurrency = 2\<rparr>"

lemma length_dec_digit [simp]: "n < 10 \<Longrightarrow> length (dec n) = 1"
  by (subst dec.simps) simp

lemma example_graph_size: "graph_size_issues example_graph = []"
proof -
  have "json_bound (j_graph example_graph) \<le> MAX_GRAPH_STATE_BYTES"
    by (simp add: example_graph_def example_node_def j_graph_def j_node_def j_opt_def j_strs_def
        j_loop_def j_nat_def MAX_GRAPH_STATE_BYTES_def)
  then show ?thesis
    using serialized_bytes_bound [of "j_graph example_graph"] by (simp add: graph_size_issues_Nil)
qed

lemma example_expressions:
  "parse_input_expression (js ''explore.map'') = Reference (js ''explore'') [js ''map'']"
  "parse_input_expression (js ''explore.key_hits'') = Reference (js ''explore'') [js ''key_hits'']"
  "parse_input_expression (js ''$goal'') = Special (js ''$goal'')"
  "safe_path_part (js ''map'')" "safe_path_part (js ''key_hits'')"
  "\<not> starts_dollar (js ''explore'')"
  by code_simp+

lemma example_input_issues:
  "input_issues index [js ''explore''] (js ''explore.map'') = []"
  "input_issues index [js ''implement'', js ''explore''] (js ''explore.key_hits'') = []"
  "input_issues index direct (js ''$goal'') = []"
  if "index (js ''explore'') = Some 0"
  using that by (simp_all add: input_issues_def example_expressions reference_issues_def)

lemma example_graph_issues: "graph_issues example_graph = []"
proof -
  let ?nodes = "gd_nodes example_graph"
  let ?index = "snd (index_nodes 0 Map.empty ?nodes)"
  have index: "?index = [js ''explore'' \<mapsto> 0, js ''implement'' \<mapsto> 1, js ''check'' \<mapsto> Suc (Suc 0)]"
    by (simp add: example_graph_def example_node_def)
  have "fst (index_nodes 0 Map.empty ?nodes) = []"
    by (simp add: example_graph_def example_node_def check_def)
  moreover have "scan_nodes ?index Map.empty 0 ?nodes = []"
    unfolding index
    by (simp add: example_graph_def example_node_def node_issues_with_def gate_issues_Nil
        gates_ok_def requires_shell_def shell_gated_def node_gate_def node_inputs_def
        example_input_issues)
  ultimately show ?thesis using example_graph_size by (simp add: graph_issues_def split_beta)
qed

lemma example_ids: "is_safe_id (js ''explore'')" "is_safe_id (js ''implement'')" "is_safe_id (js ''check'')"
    "is_safe_id (js ''demo'')"
    "is_safe_input_key (js ''map'')" "is_safe_input_key (js ''goal'')" "is_safe_input_key (js ''hits'')"
proof -
  show i: "is_safe_id (js ''explore'')" "is_safe_id (js ''implement'')" "is_safe_id (js ''check'')"
    "is_safe_id (js ''demo'')"
    by (rule is_safe_id_lower; simp add: lower_letters_def lower_reserved_def)+
  have k: "is_safe_id (js ''map'')" "is_safe_id (js ''goal'')" "is_safe_id (js ''hits'')"
    by (rule is_safe_id_lower; simp add: lower_letters_def lower_reserved_def)+
  show "is_safe_input_key (js ''map'')" "is_safe_input_key (js ''goal'')" "is_safe_input_key (js ''hits'')"
    using k by (simp_all add: is_safe_input_key_def) (simp_all add: js_Cons js_Nil upper_alpha_def
      lower_alpha_def alpha_num_def)
qed

lemma example_nodes_shape: "list_all node_shape (gd_nodes example_graph)"
  by (simp add: example_graph_def example_node_def node_shape_def example_ids sized_def)

theorem graph_issues_characterised_witness:
  "(js ''explore'', js ''check'') \<in> (dep_rel (gd_nodes example_graph))\<^sup>+"
proof -
  let ?nodes = "gd_nodes example_graph"
  let ?d = "?nodes ! 2"
  have safe: "list_all (\<lambda>n. is_safe_id (nd_id n)) ?nodes"
    by (simp add: example_graph_def example_node_def example_ids)
  have "graph_well_formed example_graph"
    using graph_issues_characterised [OF safe] example_graph_issues by blast
  moreover have "?d \<in> set ?nodes" by (simp add: example_graph_def)
  moreover have "(js ''hits'', js ''explore.key_hits'') \<in> set (node_inputs ?d)"
    by (simp add: example_graph_def node_inputs_def)
  ultimately have "input_ok ?nodes ?d (js ''explore.key_hits'')"
    unfolding graph_well_formed_def by (metis snd_conv)
  moreover have "nd_id ?d = js ''check''" by (simp add: example_graph_def example_node_def)
  ultimately show ?thesis by (simp add: input_ok_def example_expressions)
qed

section \<open>Parsed graphs\<close>

definition graph_shape :: "graph_def \<Rightarrow> bool" where
  "graph_shape g \<longleftrightarrow>
     is_safe_id (gd_name g) \<and> opt_all short_text (gd_description g) \<and>
     1 \<le> length (gd_nodes g) \<and> length (gd_nodes g) \<le> 64 \<and> list_all node_shape (gd_nodes g) \<and>
     1 \<le> gd_max_global_attempts g \<and> gd_max_global_attempts g \<le> 10000 \<and>
     1 \<le> gd_max_concurrency g \<and> gd_max_concurrency g \<le> 8"

lemma foldl_add_start:
  "foldl (\<lambda>sum d. sum + (f d :: nat)) a ds = a + foldl (\<lambda>sum d. sum + f d) 0 ds"
proof (induction ds arbitrary: a)
  case (Cons d ds)
  show ?case using Cons.IH [of "a + f d"] Cons.IH [of "f d"] by simp
qed simp

lemma sum_local_attempts_Cons:
  "sum_local_attempts (d # ds) = max_attempts d + sum_local_attempts ds"
  using foldl_add_start [of max_attempts "max_attempts d" ds] by (simp add: sum_local_attempts_def)

lemma node_shape_attempts: "node_shape d \<Longrightarrow> 1 \<le> max_attempts d \<and> max_attempts d \<le> 100"
  by (auto simp: node_shape_def max_attempts_def split: option.splits)

lemma sum_local_attempts_bounds:
  "list_all node_shape ds \<Longrightarrow> length ds \<le> sum_local_attempts ds \<and> sum_local_attempts ds \<le> 100 * length ds"
proof (induction ds)
  case (Cons d ds)
  then show ?case using node_shape_attempts [of d] by (auto simp: sum_local_attempts_Cons)
qed (simp add: sum_local_attempts_def)

lemma trim_gate_shape: "shell_gate_shape g \<Longrightarrow> shell_gate_shape (trim_gate g)"
proof -
  have "js_trim (js_trim v) = js_trim v" for v using js_trim_idem by (simp add: js_trimmed_def)
  then show "shell_gate_shape g \<Longrightarrow> shell_gate_shape (trim_gate g)"
    by (auto simp: shell_gate_shape_def trim_gate_def trimmed_sized_def opt_all_def split: option.splits)
qed

lemma trimmed_node_shape:
  "node_shape d \<Longrightarrow> node_shape (d\<lparr>nd_shell_gate := map_option trim_gate (nd_shell_gate d)\<rparr>)"
  using trim_gate_shape by (cases "nd_shell_gate d") (simp_all add: node_shape_def)

lemma graph_shape_complete:
  assumes "raw_graph_shape raw"
  shows "graph_shape (complete_graph raw)"
proof -
  have nodes: "list_all node_shape (rg_nodes raw)" "1 \<le> length (rg_nodes raw)" "length (rg_nodes raw) \<le> 64"
    using assms by (simp_all add: raw_graph_shape_def)
  have "list_all node_shape (gd_nodes (complete_graph raw))"
    using nodes(1) trimmed_node_shape by (simp add: complete_graph_def list_all_iff)
  moreover have "1 \<le> gd_max_global_attempts (complete_graph raw) \<and> gd_max_global_attempts (complete_graph raw) \<le> 10000"
  proof (cases "rg_max_global_attempts raw")
    case None
    then show ?thesis using sum_local_attempts_bounds [OF nodes(1)] nodes(2,3) by (simp add: complete_graph_def)
  next
    case (Some n)
    then show ?thesis using assms by (simp add: raw_graph_shape_def complete_graph_def)
  qed
  moreover have "1 \<le> gd_max_concurrency (complete_graph raw) \<and> gd_max_concurrency (complete_graph raw) \<le> 8"
    using assms by (cases "rg_max_concurrency raw") (simp_all add: raw_graph_shape_def complete_graph_def)
  ultimately show ?thesis using assms nodes(2,3)
    by (simp add: graph_shape_def raw_graph_shape_def) (simp add: complete_graph_def)
qed

text \<open>What the rest of the program relies on about a parsed graph.\<close>

definition graph_ok :: "graph_def \<Rightarrow> bool" where
  "graph_ok g \<longleftrightarrow> graph_shape g \<and> graph_issues g = []"

lemma graph_shape_safe_ids: "graph_shape g \<Longrightarrow> list_all (\<lambda>n. is_safe_id (nd_id n)) (gd_nodes g)"
  by (auto simp: graph_shape_def node_shape_def list_all_iff)

text \<open>
  C8. Whatever a caller submits, a graph that parses is well formed, has 1 to 64 nodes of 1 to
  100 attempts each, and a finite effective budget: an omitted global attempt limit becomes
  the sum of the local ones, never more than 10,000.
\<close>

theorem parse_graph_bounds:
  assumes "parse_graph raw = Inr g"
  shows "graph_shape g \<and> graph_issues g = [] \<and>
    (rg_max_global_attempts raw = None \<longrightarrow>
       gd_max_global_attempts g = sum_list (map max_attempts (gd_nodes g)))"
proof -
  have shape: "raw_graph_shape raw" and g: "g = complete_graph raw" and ok: "graph_issues g = []"
    using assms by (auto simp: parse_graph_def Let_def split: if_splits)
  have "sum_local_attempts ds = sum_list (map max_attempts ds)" for ds
    by (induction ds) (auto simp: sum_local_attempts_Cons, simp add: sum_local_attempts_def)
  moreover have "map max_attempts (gd_nodes (complete_graph raw)) = map max_attempts (rg_nodes raw)"
    by (simp add: complete_graph_def max_attempts_def o_def)
  ultimately show ?thesis using graph_shape_complete [OF shape] ok
    by (simp add: g) (simp add: complete_graph_def)
qed

definition example_raw :: raw_graph where
  "example_raw = \<lparr>rg_name = js ''demo'', rg_description = None, rg_nodes = gd_nodes example_graph,
     rg_max_global_attempts = None, rg_max_concurrency = Some 2\<rparr>"

theorem parse_graph_bounds_witness:
  "graph_shape (complete_graph example_raw) \<and> gd_max_global_attempts (complete_graph example_raw) = 9"
proof -
  have same: "complete_graph example_raw = example_graph"
    by (simp add: complete_graph_def example_raw_def example_graph_def example_node_def
        sum_local_attempts_def max_attempts_def)
  have "length (gd_nodes example_graph) = 3" by (simp add: example_graph_def)
  then have "raw_graph_shape example_raw"
    using example_nodes_shape by (simp add: raw_graph_shape_def example_raw_def example_ids)
  then have "parse_graph example_raw = Inr (complete_graph example_raw)"
    using example_graph_issues by (simp add: parse_graph_def same)
  from parse_graph_bounds [OF this] show ?thesis
    by (simp add: same) (simp add: example_graph_def)
qed

end
