(* ===== verification/Graph.thy ===== *)
theory Graph
  imports Graph_Schema
begin

text \<open>
  \<open>src/graph.ts\<close>: the initial node table, the nodes that may run, the terminal tests, the
  propagation of failures to descendants, the descendants that feedback invalidates, and the
  wiring of node inputs. The propagation pass is shown to reach its fixed point in one
  traversal of a topologically ordered graph, and the descendants to be the transitive ones.
\<close>

section \<open>Definitions\<close>

definition initial_node_state :: "node_def \<Rightarrow> node_state" where
  "initial_node_state d = \<lparr>
     ns_id = nd_id d, ns_agent = nd_agent d, ns_status = Pending, ns_attempts = [],
     ns_attempt_history_ref = None, ns_current_attempt = 0, ns_output = None, ns_output_ref = None,
     ns_last_failures = [], ns_last_failures_commitment = None, ns_last_failures_ref = None,
     ns_last_failures_omitted = None, ns_last_failure_texts_truncated = None\<rparr>"

definition init_node_states :: "graph_def \<Rightarrow> (jstr \<times> node_state) list" where
  "init_node_states g =
     foldl (\<lambda>nodes d. AList.update (nd_id d) (initial_node_state d) nodes) [] (gd_nodes g)"

definition schedulable :: "node_status \<Rightarrow> bool" where
  "schedulable s \<longleftrightarrow> s = Pending \<or> s = Ready"

lemma schedulable_simps [simp]:
  "schedulable Pending" "schedulable Ready" "\<not> schedulable Running" "\<not> schedulable Done"
  "\<not> schedulable Failed" "\<not> schedulable Skipped"
  by (simp_all add: schedulable_def)

definition terminal :: "node_status \<Rightarrow> bool" where
  "terminal s \<longleftrightarrow> s = Done \<or> s = Failed \<or> s = Skipped"

lemma terminal_simps [simp]:
  "\<not> terminal Pending" "\<not> terminal Ready" "\<not> terminal Running" "terminal Done" "terminal Failed"
  "terminal Skipped"
  by (simp_all add: terminal_def)

lemma status_kinds: "schedulable s \<or> s = Running \<or> terminal s"
  by (cases s) auto

definition deps_done :: "run_state \<Rightarrow> node_def \<Rightarrow> bool" where
  "deps_done run d \<longleftrightarrow> list_all (\<lambda>dep. node_status_of run dep = Some Done) (nd_depends_on d)"

definition is_ready :: "run_state \<Rightarrow> node_def \<Rightarrow> bool" where
  "is_ready run d \<longleftrightarrow>
     (case node_of run (nd_id d) of
        None \<Rightarrow> False
      | Some st \<Rightarrow> schedulable (ns_status st) \<and> deps_done run d)"

definition ready_nodes :: "run_state \<Rightarrow> node_def list" where
  "ready_nodes run = filter (is_ready run) (gd_nodes (rs_graph run))"

definition all_terminal :: "run_state \<Rightarrow> bool" where
  "all_terminal run \<longleftrightarrow> list_all (\<lambda>st. terminal (ns_status st)) (node_values run)"

definition any_failed :: "run_state \<Rightarrow> bool" where
  "any_failed run \<longleftrightarrow> list_ex (\<lambda>st. ns_status st = Failed) (node_values run)"

text \<open>One iteration of \<open>skipFailedDescendants\<close>; \<open>None\<close> where the loop body continues.\<close>

definition failed_dependency :: "run_state \<Rightarrow> node_def \<Rightarrow> jstr option" where
  "failed_dependency run d =
     find (\<lambda>dep. node_status_of run dep = Some Failed \<or> node_status_of run dep = Some Skipped)
       (nd_depends_on d)"

definition dependency_failure :: "jstr \<Rightarrow> jstr list" where
  "dependency_failure dep = [js ''Dependency did not complete: '' @ dep]"

definition skip_one :: "run_state \<Rightarrow> node_def \<Rightarrow> run_state option" where
  "skip_one run d =
     (case node_of run (nd_id d) of
        None \<Rightarrow> None
      | Some st \<Rightarrow>
          if \<not> schedulable (ns_status st) then None
          else (case failed_dependency run d of
                  None \<Rightarrow> None
                | Some dep \<Rightarrow>
                    if dep = [] then None
                    else Some (set_node (nd_id d)
                           (st\<lparr>ns_status := Skipped, ns_last_failures := dependency_failure dep\<rparr>) run)))"

definition skip_step :: "bool \<times> run_state \<Rightarrow> node_def \<Rightarrow> bool \<times> run_state" where
  "skip_step acc d =
     (case skip_one (snd acc) d of None \<Rightarrow> acc | Some run' \<Rightarrow> (True, run'))"

definition skip_failed_descendants :: "run_state \<Rightarrow> bool \<times> run_state" where
  "skip_failed_descendants run = foldl skip_step (False, run) (gd_nodes (rs_graph run))"

definition descendant_step :: "jstr \<Rightarrow> jstr list \<Rightarrow> node_def \<Rightarrow> jstr list" where
  "descendant_step i ds d =
     (if list_ex (\<lambda>dep. dep = i \<or> dep \<in> set ds) (nd_depends_on d) then ds @ [nd_id d] else ds)"

definition descendants_of :: "graph_def \<Rightarrow> jstr \<Rightarrow> jstr list" where
  "descendants_of g i = foldl (descendant_step i) [] (gd_nodes g)"

text \<open>
  \<open>Object.hasOwn(current, part)\<close> and \<open>current[part]\<close>: an array owns its indices and \<open>length\<close>.
\<close>

definition array_member :: "json list \<Rightarrow> jstr \<Rightarrow> json option" where
  "array_member xs part =
     (if part = js ''length'' then Some (j_nat (length xs))
      else map_option (\<lambda>i. xs ! i) (find (\<lambda>i. dec i = part) [0..<length xs]))"

fun follow_path :: "json \<Rightarrow> jstr list \<Rightarrow> json option" where
  "follow_path v [] = Some v"
| "follow_path v (part # parts) =
     (if \<not> safe_path_part part then None
      else (case v of
              J_obj ms \<Rightarrow> (case map_of ms part of None \<Rightarrow> None | Some w \<Rightarrow> follow_path w parts)
            | J_arr xs \<Rightarrow> (case array_member xs part of None \<Rightarrow> None | Some w \<Rightarrow> follow_path w parts)
            | _ \<Rightarrow> None))"

definition get_safe_path :: "json option \<Rightarrow> jstr \<Rightarrow> json option" where
  "get_safe_path v path =
     (case v of None \<Rightarrow> None | Some w \<Rightarrow> follow_path w (split_on 0x2E path))"

text \<open>\<open>resolveInputValue\<close>; \<open>None\<close> is \<open>undefined\<close>.\<close>

definition node_output_json :: "run_state \<Rightarrow> jstr \<Rightarrow> json option" where
  "node_output_json run i = Option.bind (node_of run i) (\<lambda>st. map_option output_json (ns_output st))"

definition resolve_input_value :: "jstr \<Rightarrow> run_state \<Rightarrow> json option" where
  "resolve_input_value expr run =
     (if expr = js ''$goal'' then Some (J_str (rs_goal run))
      else if expr = js ''$criteria'' then Some (j_strs (rs_criteria run))
      else (case parse_input_expression expr of
              Literal v \<Rightarrow> Some v
            | Special name \<Rightarrow> None
            | Reference node path \<Rightarrow>
                if path \<noteq> [] then get_safe_path (node_output_json run node) (js_join (js ''.'') path)
                else node_output_json run node))"

definition wire_inputs :: "node_def \<Rightarrow> run_state \<Rightarrow> (jstr \<times> json option) list" where
  "wire_inputs d run =
     (let base = [(js ''goal'', Some (J_str (rs_goal run))),
                  (js ''criteria'', Some (j_strs (rs_criteria run)))]
      in (case nd_inputs d of
            Some inputs \<Rightarrow>
              foldl (\<lambda>acc e. AList.update (fst e) (resolve_input_value (snd e) run) acc) base inputs
          | None \<Rightarrow>
              foldl (\<lambda>acc dep. AList.update dep (node_output_json run dep) acc) base (nd_depends_on d)))"

section \<open>The initial table\<close>

lemma update_new_key: "k \<notin> fst ` set al \<Longrightarrow> AList.update k v al = al @ [(k, v)]"
  by (induction al) auto

lemma init_fold:
  "distinct (map fst acc @ map nd_id ds) \<Longrightarrow>
   foldl (\<lambda>nodes d. AList.update (nd_id d) (initial_node_state d) nodes) acc ds =
   acc @ map (\<lambda>d. (nd_id d, initial_node_state d)) ds"
proof (induction ds arbitrary: acc)
  case (Cons d ds)
  have "AList.update (nd_id d) (initial_node_state d) acc = acc @ [(nd_id d, initial_node_state d)]"
    using Cons.prems by (intro update_new_key) auto
  then show ?case using Cons by simp
qed simp

lemma init_node_states_map:
  "distinct (map nd_id (gd_nodes g)) \<Longrightarrow>
   init_node_states g = map (\<lambda>d. (nd_id d, initial_node_state d)) (gd_nodes g)"
  using init_fold [of "[]"] by (simp add: init_node_states_def)

section \<open>Node tables that match their graph\<close>

text \<open>
  What every operation relies on: the graph is ordered, and the table has exactly the graph's
  nodes as keys, once each.
\<close>

definition nodes_match :: "run_state \<Rightarrow> bool" where
  "nodes_match run \<longleftrightarrow>
     distinct (map fst (rs_nodes run)) \<and>
     fst ` set (rs_nodes run) = nd_id ` set (gd_nodes (rs_graph run))"

definition ordered_graph :: "graph_def \<Rightarrow> bool" where
  "ordered_graph g \<longleftrightarrow>
     distinct (map nd_id (gd_nodes g)) \<and> topological (gd_nodes g) \<and>
     list_all (\<lambda>n. nd_id n \<noteq> []) (gd_nodes g)"

lemma graph_ok_wf: "graph_ok g \<Longrightarrow> graph_well_formed g"
  using graph_issues_spec [of g] graph_shape_safe_ids by (auto simp: graph_ok_def)

lemma graph_ok_ordered: "graph_ok g \<Longrightarrow> ordered_graph g"
proof -
  assume g: "graph_ok g"
  then have "list_all (\<lambda>n. is_safe_id (nd_id n)) (gd_nodes g)"
    by (simp add: graph_ok_def graph_shape_safe_ids)
  then have "list_all (\<lambda>n. nd_id n \<noteq> []) (gd_nodes g)"
    using is_safe_id_length by (auto simp: list_all_iff)
  then show ?thesis using graph_ok_wf [OF g] by (simp add: ordered_graph_def graph_well_formed_def)
qed

lemma nodes_match_Some: "nodes_match run \<Longrightarrow> d \<in> set (gd_nodes (rs_graph run)) \<Longrightarrow>
  \<exists>st. node_of run (nd_id d) = Some st"
  by (metis image_eqI map_of_eq_None_iff node_of_def nodes_match_def option.exhaust)

lemma node_of_SomeD: "node_of run i = Some st \<Longrightarrow> (i, st) \<in> set (rs_nodes run)"
  by (simp add: node_of_def map_of_SomeD)

lemma nodes_match_def_of:
  "nodes_match run \<Longrightarrow> node_of run i = Some st \<Longrightarrow> \<exists>d \<in> set (gd_nodes (rs_graph run)). nd_id d = i"
  by (metis (no_types, lifting) fst_conv image_iff node_of_SomeD nodes_match_def)

lemma node_values_iff:
  "nodes_match run \<Longrightarrow> (\<forall>st \<in> set (node_values run). P st) \<longleftrightarrow> (\<forall>i st. node_of run i = Some st \<longrightarrow> P st)"
  using values_all_iff [of "rs_nodes run" P] by (simp add: nodes_match_def node_of_def node_values_def)

lemma node_values_ex:
  "nodes_match run \<Longrightarrow> (\<exists>st \<in> set (node_values run). P st) \<longleftrightarrow> (\<exists>i st. node_of run i = Some st \<and> P st)"
  using values_ex_iff [of "rs_nodes run" P] by (simp add: nodes_match_def node_of_def node_values_def)

lemma all_terminal_iff:
  "nodes_match run \<Longrightarrow> all_terminal run \<longleftrightarrow> (\<forall>i st. node_of run i = Some st \<longrightarrow> terminal (ns_status st))"
  using node_values_iff [of run "\<lambda>st. terminal (ns_status st)"] by (simp add: all_terminal_def list_all_iff)

lemma any_failed_iff:
  "nodes_match run \<Longrightarrow> any_failed run \<longleftrightarrow> (\<exists>i st. node_of run i = Some st \<and> ns_status st = Failed)"
  using node_values_ex [of run "\<lambda>st. ns_status st = Failed"] by (simp add: any_failed_def list_ex_iff)

lemma set_node_graph [simp]: "rs_graph (set_node i st run) = rs_graph run"
  by (simp add: set_node_def)

lemma nodes_match_set_node:
  "nodes_match run \<Longrightarrow> node_of run i \<noteq> None \<Longrightarrow> nodes_match (set_node i st run)"
  using keys_set_node [of run i st] unfolding nodes_match_def set_node_graph
  by (metis image_set)

section \<open>Runs that differ only in their node table\<close>

definition same_but_nodes :: "run_state \<Rightarrow> run_state \<Rightarrow> bool" where
  "same_but_nodes run run' \<longleftrightarrow> (\<exists>nodes. run' = run\<lparr>rs_nodes := nodes\<rparr>)"

lemma same_but_nodes_refl [simp]: "same_but_nodes run run"
  unfolding same_but_nodes_def by (rule exI [of _ "rs_nodes run"]) simp

lemma same_but_nodes_trans: "same_but_nodes r s \<Longrightarrow> same_but_nodes s t \<Longrightarrow> same_but_nodes r t"
  by (auto simp: same_but_nodes_def)

lemma same_but_nodes_set_node [simp]: "same_but_nodes run (set_node i st run)"
  by (auto simp: same_but_nodes_def set_node_def)

lemma same_but_nodes_modify_node [simp]: "same_but_nodes run (modify_node i f run)"
  by (simp add: modify_node_def split: option.split)

lemma same_but_nodes_graph: "same_but_nodes run run' \<Longrightarrow> rs_graph run' = rs_graph run"
  by (auto simp: same_but_nodes_def)

section \<open>Propagation of failures\<close>

definition blocked_by :: "run_state \<Rightarrow> jstr \<Rightarrow> bool" where
  "blocked_by run dep \<longleftrightarrow> node_status_of run dep = Some Failed \<or> node_status_of run dep = Some Skipped"

text \<open>What a single skip does to a run.\<close>

lemma skip_one_Some:
  assumes "skip_one run d = Some run'"
  obtains st dep where "node_of run (nd_id d) = Some st" "schedulable (ns_status st)"
    "dep \<in> set (nd_depends_on d)" "blocked_by run dep"
    "run' = set_node (nd_id d) (st\<lparr>ns_status := Skipped, ns_last_failures := dependency_failure dep\<rparr>) run"
proof -
  from assms obtain st where st: "node_of run (nd_id d) = Some st" "schedulable (ns_status st)"
    by (auto simp: skip_one_def split: option.splits if_splits)
  then obtain dep where dep: "failed_dependency run d = Some dep"
      "run' = set_node (nd_id d) (st\<lparr>ns_status := Skipped, ns_last_failures := dependency_failure dep\<rparr>) run"
    using assms by (auto simp: skip_one_def split: option.splits if_splits)
  then have "dep \<in> set (nd_depends_on d)" "blocked_by run dep"
    by (auto simp: failed_dependency_def find_Some_iff blocked_by_def)
  then show thesis using that st dep(2) by blast
qed

lemma skip_one_None:
  "skip_one run d = None \<Longrightarrow> node_of run (nd_id d) = Some st \<Longrightarrow> schedulable (ns_status st) \<Longrightarrow>
   dep \<in> set (nd_depends_on d) \<Longrightarrow> dep \<noteq> [] \<Longrightarrow> list_all (\<lambda>x. x \<noteq> []) (nd_depends_on d) \<Longrightarrow>
   \<not> blocked_by run dep"
  by (auto simp: skip_one_def failed_dependency_def blocked_by_def find_None_iff find_Some_iff
      list_all_length split: option.splits if_splits)

text \<open>
  A sequence of skips: each node is as before, or was schedulable and is skipped with the
  dependency that failed it as the reason.
\<close>

definition skips :: "run_state \<Rightarrow> run_state \<Rightarrow> bool" where
  "skips run run' \<longleftrightarrow> same_but_nodes run run' \<and>
     map fst (rs_nodes run') = map fst (rs_nodes run) \<and>
     (\<forall>i. node_of run' i = node_of run i \<or>
       (\<exists>st d dep. node_of run i = Some st \<and> schedulable (ns_status st) \<and>
          d \<in> set (gd_nodes (rs_graph run)) \<and> nd_id d = i \<and> dep \<in> set (nd_depends_on d) \<and>
          blocked_by run' dep \<and>
          node_of run' i = Some (st\<lparr>ns_status := Skipped, ns_last_failures := dependency_failure dep\<rparr>)))"

lemma skips_refl [simp]: "skips run run"
  by (simp add: skips_def)

lemma skips_cases:
  assumes "skips run run'"
  obtains (same) "node_of run' i = node_of run i"
  | (skipped) st d dep where "node_of run i = Some st" "schedulable (ns_status st)"
      "d \<in> set (gd_nodes (rs_graph run))" "nd_id d = i" "dep \<in> set (nd_depends_on d)" "blocked_by run' dep"
      "node_of run' i = Some (st\<lparr>ns_status := Skipped, ns_last_failures := dependency_failure dep\<rparr>)"
  using assms unfolding skips_def by blast

lemma blocked_by_iff:
  "blocked_by run dep \<longleftrightarrow> (\<exists>st. node_of run dep = Some st \<and> (ns_status st = Failed \<or> ns_status st = Skipped))"
  by (auto simp: blocked_by_def node_status_of_def)

lemma schedulable_not_blocked: "schedulable s \<Longrightarrow> s \<noteq> Failed \<and> s \<noteq> Skipped \<and> s \<noteq> Done \<and> s \<noteq> Running"
  by (auto simp: schedulable_def)

lemma skips_blocked_mono: "skips run run' \<Longrightarrow> blocked_by run dep \<Longrightarrow> blocked_by run' dep"
  by (erule skips_cases [of run run' dep]) (auto simp: blocked_by_iff)

lemma skips_step:
  assumes "skips run run1" "skip_one run1 d = Some run2" "d \<in> set (gd_nodes (rs_graph run))"
  shows "skips run run2"
proof -
  obtain st dep where s: "node_of run1 (nd_id d) = Some st" "schedulable (ns_status st)"
      "dep \<in> set (nd_depends_on d)" "blocked_by run1 dep"
      "run2 = set_node (nd_id d) (st\<lparr>ns_status := Skipped, ns_last_failures := dependency_failure dep\<rparr>) run1"
    using skip_one_Some [OF assms(2)] by blast
  have same: "same_but_nodes run run2"
    using assms(1) s(5) same_but_nodes_trans [of run run1 run2] by (simp add: skips_def)
  have keys: "map fst (rs_nodes run2) = map fst (rs_nodes run)"
    using assms(1) s(1,5) keys_set_node by (simp add: skips_def)
  have mono: "blocked_by run2 x" if "blocked_by run1 x" for x
    using that s by (auto simp: blocked_by_def node_status_of_def)
  have old: "node_of run (nd_id d) = Some st"
    using assms(1) s(1,2) schedulable_not_blocked
    by (cases rule: skips_cases [of run run1 "nd_id d"]) auto
  show ?thesis unfolding skips_def
  proof (intro conjI allI same keys)
    fix i
    show "node_of run2 i = node_of run i \<or>
       (\<exists>st d dep. node_of run i = Some st \<and> schedulable (ns_status st) \<and>
          d \<in> set (gd_nodes (rs_graph run)) \<and> nd_id d = i \<and> dep \<in> set (nd_depends_on d) \<and>
          blocked_by run2 dep \<and>
          node_of run2 i = Some (st\<lparr>ns_status := Skipped, ns_last_failures := dependency_failure dep\<rparr>))"
    proof (cases "i = nd_id d")
      case True
      then show ?thesis using old s mono assms(3) by auto
    next
      case False
      then have eq: "node_of run2 i = node_of run1 i" using s(5) by simp
      show ?thesis unfolding eq using assms(1)
        by (cases rule: skips_cases [of run run1 i]) (use mono in blast)+
    qed
  qed
qed

lemma skip_fold_skips:
  "skips run (snd acc) \<Longrightarrow> set ds \<subseteq> set (gd_nodes (rs_graph run)) \<Longrightarrow> skips run (snd (foldl skip_step acc ds))"
proof (induction ds arbitrary: acc)
  case (Cons d ds)
  have "skips run (snd (skip_step acc d))"
    using Cons.prems skips_step [of run "snd acc" d] by (auto simp: skip_step_def split: option.split)
  then show ?case using Cons by simp
qed simp

lemma skip_failed_descendants_skips: "skips run (snd (skip_failed_descendants run))"
  by (simp add: skip_failed_descendants_def skip_fold_skips)

text \<open>
  After the pass, a node that is still schedulable has no failed or skipped dependency: its
  dependencies were decided earlier in the pass and are not touched again.
\<close>

definition quiet :: "run_state \<Rightarrow> node_def \<Rightarrow> bool" where
  "quiet run d \<longleftrightarrow>
     (\<forall>st. node_of run (nd_id d) = Some st \<and> schedulable (ns_status st) \<longrightarrow>
        (\<forall>dep \<in> set (nd_depends_on d). \<not> blocked_by run dep))"

lemma skip_one_quiet: "skip_one run d = None \<Longrightarrow> list_all (\<lambda>x. x \<noteq> []) (nd_depends_on d) \<Longrightarrow> quiet run d"
  using skip_one_None [of run d] by (auto simp: quiet_def list_all_iff)

lemma quiet_skip_one: "quiet run d \<Longrightarrow> skip_one run d = None"
  by (rule ccontr) (auto simp: quiet_def elim!: skip_one_Some)

lemma skip_step_frame:
  "i \<noteq> nd_id d \<Longrightarrow> node_of (snd (skip_step acc d)) i = node_of (snd acc) i"
  by (auto simp: skip_step_def elim: skip_one_Some split: option.split)

lemma skip_step_quiet:
  assumes "list_all (\<lambda>x. x \<noteq> []) (nd_depends_on d)"
  shows "quiet (snd (skip_step acc d)) d"
proof (cases "skip_one (snd acc) d")
  case None
  then show ?thesis using skip_one_quiet assms by (simp add: skip_step_def)
next
  case (Some run')
  then have "node_status_of run' (nd_id d) = Some Skipped"
    by (auto simp: node_status_of_def elim: skip_one_Some)
  then show ?thesis using Some by (auto simp: quiet_def skip_step_def node_status_of_def)
qed

lemma skip_fold_frame:
  "i \<notin> nd_id ` set ds \<Longrightarrow> node_of (snd (foldl skip_step acc ds)) i = node_of (snd acc) i"
  by (induction ds arbitrary: acc) (auto simp: skip_step_frame)

lemma quiet_cong:
  "quiet run d \<Longrightarrow> node_of run' (nd_id d) = node_of run (nd_id d) \<Longrightarrow>
   (\<And>dep. dep \<in> set (nd_depends_on d) \<Longrightarrow> node_of run' dep = node_of run dep) \<Longrightarrow> quiet run' d"
  by (simp add: quiet_def blocked_by_iff)

lemma skip_fold_quiet:
  assumes "distinct (map nd_id nodes)" "topological nodes" "list_all (\<lambda>n. nd_id n \<noteq> []) nodes"
  shows "i \<le> length nodes \<Longrightarrow> k < i \<Longrightarrow> quiet (snd (foldl skip_step acc (take i nodes))) (nodes ! k)"
proof (induction i)
  case (Suc i)
  have i: "i < length nodes" using Suc.prems by simp
  have take: "take (Suc i) nodes = take i nodes @ [nodes ! i]" by (rule take_Suc_conv_app_nth [OF i])
  have ids: "nd_id ` set nodes \<subseteq> - {[]}" using assms(3) by (auto simp: list_all_iff)
  have deps: "set (nd_depends_on (nodes ! j)) \<subseteq> nd_id ` set (take j nodes)" if "j < length nodes" for j
    using assms(2) that by (simp add: topological_def)
  show ?case
  proof (cases "k = i")
    case True
    have "list_all (\<lambda>x. x \<noteq> []) (nd_depends_on (nodes ! i))"
      using deps [OF i] ids set_take_subset [of i nodes] by (fastforce simp: list_all_iff)
    then show ?thesis unfolding take True by (simp add: skip_step_quiet)
  next
    case False
    then have k: "k < i" "k < length nodes" using Suc.prems i by auto
    have "distinct (map nd_id (take (Suc i) nodes))"
      using assms(1) by (simp add: take_map [symmetric])
    then have late: "nd_id (nodes ! i) \<notin> nd_id ` set (take i nodes)" unfolding take by auto
    have "nd_id (nodes ! k) \<in> nd_id ` set (take i nodes)"
      using k by (metis image_eqI in_set_conv_nth length_take min_less_iff_conj nth_take)
    moreover have "set (nd_depends_on (nodes ! k)) \<subseteq> nd_id ` set (take i nodes)"
      using order_trans [OF deps [OF k(2)] image_mono [OF set_take_subset_set_take [OF less_imp_le [OF k(1)]]]] .
    ultimately have "nd_id (nodes ! k) \<noteq> nd_id (nodes ! i)"
      "\<And>dep. dep \<in> set (nd_depends_on (nodes ! k)) \<Longrightarrow> dep \<noteq> nd_id (nodes ! i)"
      using late by auto
    then show ?thesis unfolding take foldl_append
      using quiet_cong [OF Suc.IH [OF less_imp_le [OF i] k(1)],
          of "snd (skip_step (foldl skip_step acc (take i nodes)) (nodes ! i))"]
      by (simp add: skip_step_frame)
  qed
qed simp

lemma skip_failed_descendants_quiet:
  assumes "ordered_graph (rs_graph run)" "d \<in> set (gd_nodes (rs_graph run))"
  shows "quiet (snd (skip_failed_descendants run)) d"
proof -
  obtain k where "k < length (gd_nodes (rs_graph run))" "gd_nodes (rs_graph run) ! k = d"
    using assms(2) by (auto simp: in_set_conv_nth)
  then show ?thesis
    using skip_fold_quiet [of "gd_nodes (rs_graph run)" "length (gd_nodes (rs_graph run))" k "(False, run)"] assms(1)
    by (auto simp: ordered_graph_def skip_failed_descendants_def)
qed

lemma skip_fold_quiet_id:
  "(\<And>d. d \<in> set ds \<Longrightarrow> quiet (snd acc) d) \<Longrightarrow> foldl skip_step acc ds = acc"
  by (induction ds) (auto simp: skip_step_def quiet_skip_one)

lemma skip_failed_descendants_fixed:
  assumes "ordered_graph (rs_graph run)"
  shows "skip_failed_descendants (snd (skip_failed_descendants run)) =
    (False, snd (skip_failed_descendants run))"
proof -
  have "rs_graph (snd (skip_failed_descendants run)) = rs_graph run"
    using skip_failed_descendants_skips [of run] by (simp add: skips_def same_but_nodes_graph)
  then show ?thesis
    using skip_failed_descendants_quiet [OF assms]
    by (simp add: skip_failed_descendants_def [of "snd (skip_failed_descendants run)"] skip_fold_quiet_id)
qed

section \<open>The propagation loop\<close>

text \<open>
  \<open>while (skipFailedDescendants(run)) \{\}\<close>. Every pass that reports a change turns a schedulable
  node of the table into a skipped one, so the loop ends whatever the graph.
\<close>

definition schedulable_count :: "run_state \<Rightarrow> nat" where
  "schedulable_count run = length (filter (\<lambda>st. schedulable (ns_status st)) (node_values run))"

lemma schedulable_update:
  "map_of al i = Some st \<Longrightarrow> schedulable (ns_status st) \<Longrightarrow> \<not> schedulable (ns_status st') \<Longrightarrow>
   length (filter (\<lambda>e. schedulable (ns_status (snd e))) (AList.update i st' al)) <
   length (filter (\<lambda>e. schedulable (ns_status (snd e))) al)"
  by (induction al) (auto split: if_splits)

lemma schedulable_count_alist:
  "schedulable_count run = length (filter (\<lambda>e. schedulable (ns_status (snd e))) (rs_nodes run))"
  by (simp add: schedulable_count_def node_values_def filter_map o_def)

lemma skip_one_decreases: "skip_one run d = Some run' \<Longrightarrow> schedulable_count run' < schedulable_count run"
  by (erule skip_one_Some)
    (simp add: schedulable_count_alist set_node_def node_of_def schedulable_update)

lemma skip_fold_decreases:
  "schedulable_count (snd (foldl skip_step acc ds)) \<le> schedulable_count (snd acc) \<and>
   (fst (foldl skip_step acc ds) \<longrightarrow> fst acc \<or>
      schedulable_count (snd (foldl skip_step acc ds)) < schedulable_count (snd acc))"
proof (induction ds arbitrary: acc)
  case (Cons d ds)
  show ?case
  proof (cases "skip_one (snd acc) d")
    case None
    then show ?thesis using Cons.IH [of acc] by (simp add: skip_step_def)
  next
    case (Some run')
    then show ?thesis using Cons.IH [of "(True, run')"] skip_one_decreases [OF Some]
      by (auto simp: skip_step_def)
  qed
qed simp

function propagate_skips :: "run_state \<Rightarrow> run_state" where
  "propagate_skips run =
     (let (changed, run') = skip_failed_descendants run
      in if changed then propagate_skips run' else run')"
  by pat_completeness auto
termination
  by (relation "measure schedulable_count")
    (auto simp: skip_failed_descendants_def,
     metis fst_conv snd_conv skip_fold_decreases)

declare propagate_skips.simps [simp del]

lemma propagate_skips_eq:
  "ordered_graph (rs_graph run) \<Longrightarrow> propagate_skips run = snd (skip_failed_descendants run)"
  using skip_failed_descendants_fixed [of run]
  by (subst propagate_skips.simps)
    (auto simp: split_beta, subst propagate_skips.simps, simp)

text \<open>
  C6. On an ordered graph the loop \<open>while (skipFailedDescendants(run))\<close> settles in one pass: it
  leaves no schedulable node with a failed or skipped dependency, and it only ever turns
  schedulable nodes into skipped ones that name such a dependency.
\<close>

theorem propagate_skips_settles:
  assumes "ordered_graph (rs_graph run)"
  shows "propagate_skips run = snd (skip_failed_descendants run) \<and>
    skips run (propagate_skips run) \<and>
    (\<forall>d \<in> set (gd_nodes (rs_graph run)). quiet (propagate_skips run) d)"
  using skip_failed_descendants_quiet [OF assms]
  by (simp add: propagate_skips_eq [OF assms] skip_failed_descendants_skips)

text \<open>A run over a graph with a given node table, for the examples.\<close>

definition demo_run :: "graph_def \<Rightarrow> (jstr \<times> node_state) list \<Rightarrow> run_state" where
  "demo_run g nodes = \<lparr>
     rs_revision = 1, rs_run_id = js ''demo'', rs_owner_session_id = js ''owner'',
     rs_parent_session_id = js ''owner'', rs_owner_transfers = [], rs_execution_directory = None,
     rs_project_directory = js ''/srv'', rs_goal = js ''goal'', rs_criteria = [js ''works''],
     rs_criteria_locked = True, rs_graph = g, rs_status = Run_planning, rs_phase = js ''plan'',
     rs_nodes = nodes, rs_global_attempts = 0, rs_created_at = 5, rs_updated_at = 5, rs_mode = Live,
     rs_model_snapshot = [], rs_model_resolution = None, rs_filesystem_root_authorizations = None,
     rs_filesystem_root_authorizations_ref = None, rs_filesystem_root_authorizations_omitted = None,
     rs_summary = None, rs_state_projection = None\<rparr>"

lemma example_graph_ordered: "ordered_graph example_graph"
  using example_graph_issues example_nodes_shape
  by (intro graph_ok_ordered)
    (simp add: graph_ok_def graph_shape_def, simp add: example_graph_def example_ids)

definition example_failed_run :: run_state where
  "example_failed_run =
     modify_node (js ''explore'') (\<lambda>st. st\<lparr>ns_status := Failed, ns_last_failures := [js ''boom'']\<rparr>)
       (demo_run example_graph (init_node_states example_graph))"

lemma example_init_nodes:
  "init_node_states example_graph =
     [(js ''explore'', initial_node_state (gd_nodes example_graph ! 0)),
      (js ''implement'', initial_node_state (gd_nodes example_graph ! 1)),
      (js ''check'', initial_node_state (gd_nodes example_graph ! 2))]"
  by (simp add: init_node_states_def example_graph_def example_node_def)

theorem propagate_skips_settles_witness:
  "node_status_of (propagate_skips example_failed_run) (js ''check'') = Some Skipped"
proof -
  have g: "rs_graph example_failed_run = example_graph"
    by (simp add: example_failed_run_def demo_run_def)
  then have "ordered_graph (rs_graph example_failed_run)" by (simp add: example_graph_ordered)
  from propagate_skips_settles [OF this]
  have "propagate_skips example_failed_run = snd (skip_failed_descendants example_failed_run)" by blast
  also have "node_status_of \<dots> (js ''check'') = Some Skipped"
    unfolding skip_failed_descendants_def g
    by (simp add: example_graph_def example_node_def)
      (simp add: example_failed_run_def demo_run_def example_init_nodes skip_step_def skip_one_def
        failed_dependency_def node_status_of_def node_of_def modify_node_def set_node_def
        initial_node_state_def)
  finally show ?thesis .
qed

section \<open>Descendants\<close>

lemma descendants_fold:
  assumes "distinct (map nd_id nodes)" "topological nodes"
  shows "k \<le> length nodes \<Longrightarrow>
    set (foldl (descendant_step i) [] (take k nodes)) = {y \<in> nd_id ` set (take k nodes). (i, y) \<in> (dep_rel nodes)\<^sup>+}"
proof (induction k)
  case (Suc k)
  let ?d = "nodes ! k" and ?ds = "foldl (descendant_step i) [] (take k nodes)"
  have k: "k < length nodes" using Suc.prems by simp
  have take: "take (Suc k) nodes = take k nodes @ [?d]" by (rule take_Suc_conv_app_nth [OF k])
  have deps: "set (nd_depends_on ?d) \<subseteq> nd_id ` set (take k nodes)"
    using assms(2) k by (simp add: topological_def)
  have IH: "set ?ds = {y \<in> nd_id ` set (take k nodes). (i, y) \<in> (dep_rel nodes)\<^sup>+}"
    using Suc by simp
  have "(i, nd_id ?d) \<in> (dep_rel nodes)\<^sup>+ \<longleftrightarrow>
      i \<in> set (nd_depends_on ?d) \<or> (\<exists>dep \<in> set (nd_depends_on ?d). (i, dep) \<in> (dep_rel nodes)\<^sup>+)"
    using ancestors_step [OF assms(1) nth_mem [OF k]] by blast
  also have "\<dots> \<longleftrightarrow> list_ex (\<lambda>dep. dep = i \<or> dep \<in> set ?ds) (nd_depends_on ?d)"
    unfolding list_ex_iff IH using deps by blast
  finally have iff: "(i, nd_id ?d) \<in> (dep_rel nodes)\<^sup>+ \<longleftrightarrow>
      list_ex (\<lambda>dep. dep = i \<or> dep \<in> set ?ds) (nd_depends_on ?d)" .
  have "set (foldl (descendant_step i) [] (take (Suc k) nodes)) =
      (if (i, nd_id ?d) \<in> (dep_rel nodes)\<^sup>+ then insert (nd_id ?d) (set ?ds) else set ?ds)"
    unfolding take iff by (simp add: descendant_step_def)
  then show ?case unfolding take IH by auto
qed simp

lemma descendants_set:
  assumes "ordered_graph g"
  shows "set (descendants_of g i) = {y. (i, y) \<in> (dep_rel (gd_nodes g))\<^sup>+}"
proof -
  let ?nodes = "gd_nodes g"
  have "y \<in> nd_id ` set ?nodes" if "(i, y) \<in> (dep_rel ?nodes)\<^sup>+" for y
    using tranclD2 [OF that] by (auto simp: dep_rel_def)
  then show ?thesis
    using descendants_fold [of ?nodes "length ?nodes" i] assms
    by (auto simp: descendants_of_def ordered_graph_def)
qed

lemma descendants_distinct:
  assumes "ordered_graph g"
  shows "distinct (descendants_of g i)"
proof -
  have "distinct (map nd_id ds) \<Longrightarrow> set acc \<inter> nd_id ` set ds = {} \<Longrightarrow> distinct acc \<Longrightarrow>
    distinct (foldl (descendant_step i) acc ds)" for ds acc
    by (induction ds arbitrary: acc) (auto simp: descendant_step_def)
  then show ?thesis using assms by (simp add: descendants_of_def ordered_graph_def)
qed

text \<open>
  C7. The single pass of \<open>descendantsOf\<close> over an ordered graph computes exactly the nodes that
  transitively depend on the given one, each once: the set that checker feedback invalidates
  and whose size the budget test counts.
\<close>

theorem descendants_of_transitive:
  assumes "ordered_graph g"
  shows "set (descendants_of g i) = {y. (i, y) \<in> (dep_rel (gd_nodes g))\<^sup>+} \<and>
    distinct (descendants_of g i)"
  using descendants_set [OF assms] descendants_distinct [OF assms] by blast

theorem descendants_of_transitive_witness:
  "(js ''explore'', js ''check'') \<in> (dep_rel (gd_nodes example_graph))\<^sup>+ \<and>
   (js ''check'', js ''explore'') \<notin> (dep_rel (gd_nodes example_graph))\<^sup>+"
proof -
  have "descendants_of example_graph (js ''explore'') = [js ''implement'', js ''check'']"
    "descendants_of example_graph (js ''check'') = []"
    by (simp_all add: descendants_of_def descendant_step_def example_graph_def example_node_def)
  then show ?thesis
    using descendants_of_transitive [OF example_graph_ordered, of "js ''explore''"]
      descendants_of_transitive [OF example_graph_ordered, of "js ''check''"] by auto
qed

section \<open>Wiring\<close>

text \<open>Once a node is done its dependencies are done, and done nodes have an output.\<close>

definition done_closed :: "run_state \<Rightarrow> bool" where
  "done_closed run \<longleftrightarrow>
     (\<forall>d \<in> set (gd_nodes (rs_graph run)). node_status_of run (nd_id d) = Some Done \<longrightarrow> deps_done run d)"

definition done_outputs :: "run_state \<Rightarrow> bool" where
  "done_outputs run \<longleftrightarrow>
     (\<forall>i st. node_of run i = Some st \<and> ns_status st = Done \<longrightarrow> ns_output st \<noteq> None)"

lemma done_closed_ancestors:
  assumes "done_closed run" "nodes_match run" "deps_done run d" "d \<in> set (gd_nodes (rs_graph run))"
    and "distinct (map nd_id (gd_nodes (rs_graph run)))"
    and "(x, nd_id d) \<in> (dep_rel (gd_nodes (rs_graph run)))\<^sup>+"
  shows "node_status_of run x = Some Done"
  using assms(6)
proof (induction rule: converse_trancl_induct)
  case (base y)
  then have "y \<in> set (nd_depends_on d)" using dep_rel_iff [OF assms(5,4)] by simp
  then show ?case using assms(3) by (simp add: deps_done_def list_all_iff)
next
  case (step y z)
  from step.hyps(1) obtain e where e: "e \<in> set (gd_nodes (rs_graph run))" "nd_id e = z" "y \<in> set (nd_depends_on e)"
    by (auto simp: dep_rel_def)
  then have "deps_done run e" using assms(1) step.IH by (simp add: done_closed_def)
  then show ?case using e(3) by (simp add: deps_done_def list_all_iff)
qed

lemma split_join:
  assumes "list_all (\<lambda>x. sep \<notin> set x) xs" "xs \<noteq> []"
  shows "split_on sep (js_join [sep] xs) = xs"
proof -
  have single: "split_on sep x = [x]" if "sep \<notin> set x" for x
    using that by (induction x) auto
  show ?thesis using assms
  proof (induction "[sep]" xs rule: js_join.induct)
    case (3 x y zs)
    then show ?case using split_on_append_sep [of sep x "js_join [sep] (y # zs)"] single by simp
  qed (simp_all add: single)
qed

text \<open>
  C5. When a node is ready, every input that refers to another node resolves against an
  output that exists: the reference names a transitive dependency, all of which are done, and
  the value is read from that output along the declared path.
\<close>

theorem ready_inputs_resolve:
  assumes "graph_issues (rs_graph run) = []" "graph_shape (rs_graph run)"
    and "nodes_match run" "done_closed run" "done_outputs run"
    and "d \<in> set (ready_nodes run)" "(key, expr) \<in> set (node_inputs d)"
    and "parse_input_expression expr = Reference node path"
  shows "\<exists>st out. node_of run node = Some st \<and> ns_status st = Done \<and> ns_output st = Some out \<and>
    resolve_input_value expr run = follow_path (output_json out) path"
proof -
  let ?nodes = "gd_nodes (rs_graph run)"
  have wf: "graph_well_formed (rs_graph run)"
    using assms(1,2) by (simp add: graph_ok_wf graph_ok_def)
  have d: "d \<in> set ?nodes" "deps_done run d"
    using assms(6) by (auto simp: ready_nodes_def is_ready_def split: option.splits)
  have "input_ok ?nodes d expr"
    using wf d(1) assms(7) by (force simp: graph_well_formed_def)
  then have ref: "(node, nd_id d) \<in> (dep_rel ?nodes)\<^sup>+" and path: "list_all safe_path_part path"
    using assms(8) by (simp_all add: input_ok_def)
  have "node_status_of run node = Some Done"
    using done_closed_ancestors [OF assms(4,3) d(2,1) _ ref] wf by (simp add: graph_well_formed_def)
  then obtain st where st: "node_of run node = Some st" "ns_status st = Done"
    by (auto simp: node_status_of_def)
  then obtain out where out: "ns_output st = Some out" using assms(5) by (auto simp: done_outputs_def)
  have dot: "0x2E \<notin> set part" if "safe_path_part part" for part
    using that by (auto simp: safe_path_part_def list_all_iff alpha_num_def upper_alpha_def
        lower_alpha_def digit_def word_le_nat_alt)
  have "js ''.'' = [0x2E]" by (simp add: js_def)
  then have join: "path \<noteq> [] \<Longrightarrow> split_on 0x2E (js_join (js ''.'') path) = path"
    using split_join [of "0x2E" path] path dot by (simp add: list_all_iff)
  have "expr \<noteq> js ''$goal''" "expr \<noteq> js ''$criteria''"
    using assms(8) by (auto simp: parse_input_expression_def js_def)
  then have "resolve_input_value expr run = follow_path (output_json out) path"
    using join by (cases "path = []")
      (simp_all add: resolve_input_value_def assms(8) node_output_json_def st out get_safe_path_def)
  then show ?thesis using st out by blast
qed

definition example_explore_output :: agent_output where
  "example_explore_output = Explore_output
     \<lparr>eo_query = js ''q'', eo_map = [(js ''src'', js ''code'')], eo_key_hits = [], eo_next = Next_none\<rparr>"

definition example_explored_run :: run_state where
  "example_explored_run = demo_run example_graph
     [(js ''explore'', (initial_node_state (gd_nodes example_graph ! 0))
         \<lparr>ns_status := Done, ns_output := Some example_explore_output\<rparr>),
      (js ''implement'', initial_node_state (gd_nodes example_graph ! 1)),
      (js ''check'', initial_node_state (gd_nodes example_graph ! 2))]"

theorem ready_inputs_resolve_witness:
  "resolve_input_value (js ''explore.map'') example_explored_run =
     Some (J_arr [J_obj [(js ''path'', J_str (js ''src'')), (js ''role'', J_str (js ''code''))]])"
proof -
  let ?run = "example_explored_run" and ?d = "gd_nodes example_graph ! 1"
  have g: "rs_graph ?run = example_graph" by (simp add: example_explored_run_def demo_run_def)
  have 1: "graph_issues (rs_graph ?run) = []" "graph_shape (rs_graph ?run)"
    using example_graph_issues example_nodes_shape unfolding g
    by (simp, simp add: graph_shape_def) (simp add: example_graph_def example_ids)
  have 2: "nodes_match ?run" "done_closed ?run" "done_outputs ?run" "?d \<in> set (ready_nodes ?run)"
    by (simp_all add: nodes_match_def done_closed_def done_outputs_def ready_nodes_def is_ready_def
        deps_done_def example_explored_run_def demo_run_def example_graph_def example_node_def
        node_status_of_def node_of_def initial_node_state_def)
  have 3: "(js ''map'', js ''explore.map'') \<in> set (node_inputs ?d)"
    by (simp add: example_graph_def node_inputs_def)
  obtain st out where "node_of ?run (js ''explore'') = Some st" "ns_output st = Some out"
    and resolved: "resolve_input_value (js ''explore.map'') ?run = follow_path (output_json out) [js ''map'']"
    using ready_inputs_resolve [OF 1 2 3 example_expressions(1)] by blast
  moreover have "map_option ns_output (node_of ?run (js ''explore'')) = Some (Some example_explore_output)"
    by (simp add: example_explored_run_def demo_run_def node_of_def)
  ultimately have "out = example_explore_output" by simp
  then show ?thesis using resolved
    by (simp add: example_explore_output_def example_expressions j_pair_def)
qed

end
