(* ===== verification/Attempts.thy ===== *)
theory Attempts
  imports Outputs
begin

text \<open>
  The integrity-bound references, the persisted attempt (\<open>NodeAttemptSchema\<close>) and
  \<open>parsePersistedNodeAttempt\<close> of \<open>src/schemas.ts\<close>, with the failure commitment of
  \<open>src/persistence.ts\<close>. The SHA-256 of a text is the argument \<open>sha\<close>.
\<close>

section \<open>References\<close>

definition hex_lower :: "code_unit \<Rightarrow> bool" where
  "hex_lower c \<longleftrightarrow> digit c \<or> (0x61 \<le> c \<and> c \<le> 0x66)"

definition sha256_text :: "jstr \<Rightarrow> bool" where
  "sha256_text s \<longleftrightarrow> length s = 64 \<and> list_all hex_lower s"

definition data_ref_shape :: "'a data_ref_scheme \<Rightarrow> bool" where
  "data_ref_shape r \<longleftrightarrow>
     sized 1 1024 (dr_artifact_path r) \<and> is_safe_project_relative_path (dr_artifact_path r) \<and>
     sha256_text (dr_sha256 r) \<and> dr_byte_size r \<le> MAX_ATTEMPT_HISTORY_BYTES"

definition output_ref_shape :: "data_ref \<Rightarrow> bool" where
  "output_ref_shape r \<longleftrightarrow> data_ref_shape r \<and> is_safe_run_artifact_path (dr_artifact_path r)"

definition history_path :: "jstr \<Rightarrow> bool" where
  "history_path p \<longleftrightarrow> is_safe_run_derived_path p (js ''history'')"

definition history_ref_shape :: "data_ref \<Rightarrow> bool" where
  "history_ref_shape r \<longleftrightarrow> data_ref_shape r \<and> history_path (dr_artifact_path r)"

definition commitment_shape :: "failure_commitment \<Rightarrow> bool" where
  "commitment_shape c \<longleftrightarrow> sha256_text (fc_sha256 c) \<and> fc_entry_count c \<le> 100000000"

definition outcome_counts_sum :: "outcome_counts \<Rightarrow> nat" where
  "outcome_counts_sum c = oc_passed c + oc_schema_invalid c + oc_sdk_error c +
     oc_substantive_rejection c + oc_incomplete c + oc_gate_failure c + oc_legacy_unknown c"

definition outcome_counts_shape :: "outcome_counts \<Rightarrow> bool" where
  "outcome_counts_shape c \<longleftrightarrow>
     oc_passed c \<le> 100 \<and> oc_schema_invalid c \<le> 100 \<and> oc_sdk_error c \<le> 100 \<and>
     oc_substantive_rejection c \<le> 100 \<and> oc_incomplete c \<le> 100 \<and> oc_gate_failure c \<le> 100 \<and>
     oc_legacy_unknown c \<le> 100"

definition attempt_history_ref_shape :: "attempt_history_ref \<Rightarrow> bool" where
  "attempt_history_ref_shape r \<longleftrightarrow>
     data_ref_shape r \<and> 1 \<le> ah_attempt_count r \<and> ah_attempt_count r \<le> 100 \<and>
     ah_output_count r \<le> 100 \<and> opt_all (\<lambda>n. n \<le> 100) (ah_session_count r) \<and>
     ah_failure_entries_omitted r \<le> 10000 \<and> ah_failure_texts_truncated r \<le> 10000 \<and>
     ah_error_bytes_omitted r \<le> 20000000 \<and>
     opt_all (\<lambda>n. n \<le> 100) (ah_failure_commitment_count r) \<and>
     opt_all outcome_counts_shape (ah_outcome_counts r) \<and>
     opt_all (\<lambda>n. n \<le> 100) (ah_feedback_applied_count r) \<and>
     history_path (dr_artifact_path r) \<and>
     opt_all (\<lambda>c. outcome_counts_sum c = ah_attempt_count r) (ah_outcome_counts r) \<and>
     opt_all (\<lambda>n. n \<le> ah_attempt_count r) (ah_feedback_applied_count r)"

definition root_authorization_ref_shape :: "root_authorization_ref \<Rightarrow> bool" where
  "root_authorization_ref_shape r \<longleftrightarrow>
     data_ref_shape r \<and> 1 \<le> ra_authorization_count r \<and> ra_authorization_count r \<le> 10000 \<and>
     roc_plan (ra_operation_counts r) \<le> 10000 \<and> roc_run (ra_operation_counts r) \<le> 10000 \<and>
     roc_resume (ra_operation_counts r) \<le> 10000 \<and> history_path (dr_artifact_path r) \<and>
     roc_plan (ra_operation_counts r) + roc_run (ra_operation_counts r) +
       roc_resume (ra_operation_counts r) = ra_authorization_count r"

section \<open>Paths bound to a run, a node and an attempt\<close>

definition run_base :: "jstr \<Rightarrow> string \<Rightarrow> jstr" where
  "run_base run_id folder = js ''.opencode/runs/'' @ run_id @ js ''/'' @ js folder @ js ''/''"

definition dot_json :: jstr where "dot_json = js ''.json''"

definition is_attempt_history_reference_path :: "'a data_ref_scheme \<Rightarrow> jstr \<Rightarrow> jstr \<Rightarrow> bool" where
  "is_attempt_history_reference_path r run_id node_id \<longleftrightarrow>
     (let base = run_base run_id ''history'' @ node_id @ js ''-attempts'' in
      dr_artifact_path r = base @ dot_json \<or>
      dr_artifact_path r = base @ js ''-'' @ dr_sha256 r @ dot_json)"

definition is_attempt_output_reference_path :: "data_ref \<Rightarrow> jstr \<Rightarrow> jstr \<Rightarrow> nat \<Rightarrow> bool" where
  "is_attempt_output_reference_path r run_id node_id n \<longleftrightarrow>
     (let base = run_base run_id ''artifacts'' @ node_id @ js ''-attempt-'' @ dec n in
      dr_artifact_path r = base @ dot_json \<or>
      dr_artifact_path r = base @ js ''-output-'' @ dr_sha256 r @ dot_json)"

definition is_attempt_detail_reference_path :: "data_ref \<Rightarrow> jstr \<Rightarrow> jstr \<Rightarrow> nat \<Rightarrow> bool" where
  "is_attempt_detail_reference_path r run_id node_id n \<longleftrightarrow>
     (let base = run_base run_id ''history'' @ node_id @ js ''-attempt-'' @ dec n in
      dr_artifact_path r = base @ dot_json \<or>
      dr_artifact_path r = base @ js ''-detail-'' @ dr_sha256 r @ dot_json)"

definition is_node_output_reference_path :: "data_ref \<Rightarrow> jstr \<Rightarrow> jstr \<Rightarrow> bool" where
  "is_node_output_reference_path r run_id node_id \<longleftrightarrow>
     (let base = run_base run_id ''artifacts'' @ node_id @ js ''-output-'' in
      dr_artifact_path r = base @ take 16 (dr_sha256 r) @ dot_json \<or>
      dr_artifact_path r = base @ dr_sha256 r @ dot_json)"

definition is_node_failures_reference_path :: "data_ref \<Rightarrow> jstr \<Rightarrow> jstr \<Rightarrow> bool" where
  "is_node_failures_reference_path r run_id node_id \<longleftrightarrow>
     (let base = run_base run_id ''history'' @ node_id @ js ''-failures'' in
      dr_artifact_path r = base @ dot_json \<or>
      dr_artifact_path r = base @ js ''-'' @ dr_sha256 r @ dot_json)"

definition is_root_authorizations_reference_path :: "'a data_ref_scheme \<Rightarrow> jstr \<Rightarrow> bool" where
  "is_root_authorizations_reference_path r run_id \<longleftrightarrow>
     (let base = run_base run_id ''history'' @ js ''filesystem-root-authorizations'' in
      dr_artifact_path r = base @ dot_json \<or>
      dr_artifact_path r = base @ js ''-'' @ dr_sha256 r @ dot_json)"

section \<open>Failure commitments\<close>

definition failure_list_commitment :: "(jstr \<Rightarrow> jstr) \<Rightarrow> jstr list \<Rightarrow> failure_commitment" where
  "failure_list_commitment sha vals =
     \<lparr>fc_sha256 = sha (stringify (j_strs vals)), fc_entry_count = length vals\<rparr>"

definition or_zero :: "nat option \<Rightarrow> nat" where
  "or_zero n = (case n of None \<Rightarrow> 0 | Some k \<Rightarrow> k)"

lemma or_zero_simps [simp]: "or_zero None = 0" "or_zero (Some n) = n"
  by (simp_all add: or_zero_def)

definition commitment_issues ::
  "(jstr \<Rightarrow> jstr) \<Rightarrow> failure_commitment option \<Rightarrow> jstr list \<Rightarrow> nat option \<Rightarrow> nat option \<Rightarrow> issues" where
  "commitment_issues sha commitment failures omitted truncated =
     (case commitment of
        None \<Rightarrow> []
      | Some c \<Rightarrow>
          check (fc_entry_count c = length failures + or_zero omitted)
            (js ''failure commitment count does not match the inline/omitted projection'') @
          check (or_zero omitted \<noteq> 0 \<or> or_zero truncated \<noteq> 0 \<or> c = failure_list_commitment sha failures)
            (js ''failure commitment does not match the complete inline list''))"

section \<open>Declared bounds of an attempt\<close>

definition session_id_shape :: "jstr \<Rightarrow> bool" where
  "session_id_shape s \<longleftrightarrow> exact_string 1 256 s \<and> utf8_bytes s \<le> 256"

definition attempt_shape :: "node_attempt \<Rightarrow> bool" where
  "attempt_shape a \<longleftrightarrow>
     1 \<le> na_attempt a \<and> na_attempt a \<le> 10000 \<and> opt_all session_id_shape (na_session_id a) \<and>
     bounded_strings (na_failures a) \<and> opt_all (\<lambda>s. s \<le> 10) (na_score a) \<and>
     opt_all short_text (na_error a) \<and> opt_all output_ref_shape (na_output_ref a) \<and>
     opt_all history_ref_shape (na_detail_ref a) \<and>
     opt_all commitment_shape (na_failures_commitment a) \<and>
     opt_all (\<lambda>n. n \<le> 10000) (na_failures_omitted a) \<and>
     opt_all (\<lambda>n. n \<le> 10000) (na_failure_texts_truncated a) \<and>
     opt_all (\<lambda>n. n \<le> 20000000) (na_error_bytes_omitted a)"

section \<open>The persisted attempt\<close>

record attempt_context =
  pc_agent :: alg_agent
  pc_run_id :: jstr
  pc_node_id :: jstr
  pc_expected_attempt :: nat
  pc_mode :: "run_mode option"
  pc_requires_shell :: bool

text \<open>Reading a field of an output of unknown type; \<open>None\<close> is \<open>undefined\<close>.\<close>

fun output_passed :: "agent_output \<Rightarrow> bool option" where
  "output_passed (Check_output v) = Some (co_passed v)"
| "output_passed _ = None"

fun output_score :: "agent_output \<Rightarrow> nat option" where
  "output_score (Check_output v) = Some (co_score v)"
| "output_score _ = None"

fun output_done :: "agent_output \<Rightarrow> bool option" where
  "output_done (Implement_output v) = Some (io_done v)"
| "output_done _ = None"

fun output_artifact_path :: "agent_output \<Rightarrow> jstr option" where
  "output_artifact_path (Implement_output v) = io_artifact_path v"
| "output_artifact_path _ = None"

definition artifact_of_run :: "jstr \<Rightarrow> agent_output option \<Rightarrow> bool" where
  "artifact_of_run run_id out =
     (case Option.bind out output_artifact_path of
        None \<Rightarrow> True
      | Some p \<Rightarrow> starts_with p (run_base run_id ''artifacts''))"

definition has_output :: "node_attempt \<Rightarrow> bool" where
  "has_output a \<longleftrightarrow> na_output a \<noteq> None \<or> na_output_ref a \<noteq> None"

definition live_shell_gate :: "attempt_context \<Rightarrow> bool" where
  "live_shell_gate ctx \<longleftrightarrow> pc_requires_shell ctx \<and> pc_mode ctx \<noteq> Some Dry"

definition attempt_identity_issues :: "attempt_context \<Rightarrow> node_attempt \<Rightarrow> issues" where
  "attempt_identity_issues ctx a =
     check (is_safe_id (pc_run_id ctx) \<and> is_safe_id (pc_node_id ctx)) (js ''run/node identity is unsafe'') @
     check (na_attempt a = pc_expected_attempt ctx) (js ''attempt history is not contiguous'') @
     check (na_status a = Running \<or> na_status a = Done \<or> na_status a = Failed)
       (js ''attempt status must be running, done, or failed'') @
     (case na_output_ref a of
        None \<Rightarrow> []
      | Some r \<Rightarrow>
          check (is_attempt_output_reference_path r (pc_run_id ctx) (pc_node_id ctx) (pc_expected_attempt ctx))
            (js ''attempt output reference does not match its run/node/attempt'') @
          check (dr_byte_size r \<le> AGENT_OUTPUT_BYTE_LIMITS (pc_agent ctx))
            (js ''attempt output reference exceeds the agent output limit'')) @
     (case na_detail_ref a of
        None \<Rightarrow> []
      | Some r \<Rightarrow>
          check (is_attempt_detail_reference_path r (pc_run_id ctx) (pc_node_id ctx) (pc_expected_attempt ctx))
            (js ''attempt detail reference does not match its run/node/attempt'')) @
     check (\<not> ((na_failures_omitted a \<noteq> None \<or> na_failure_texts_truncated a \<noteq> None \<or>
              na_error_bytes_omitted a \<noteq> None) \<and> na_detail_ref a = None))
       (js ''projected attempt omissions require an attempt detail reference'') @
     check (na_failures_omitted a \<noteq> Some 0 \<and> na_failure_texts_truncated a \<noteq> Some 0 \<and>
            na_error_bytes_omitted a \<noteq> Some 0)
       (js ''projected attempt omission metadata must be positive when present'') @
     check (or_zero (na_failure_texts_truncated a) \<le> length (na_failures a) + or_zero (na_failures_omitted a))
       (js ''failure truncation count exceeds the complete projected failure count'') @
     check (\<not> (na_error_bytes_omitted a \<noteq> None \<and> na_error a = None))
       (js ''projected error omission requires an inline error prefix'')"

definition attempt_output_issues :: "attempt_context \<Rightarrow> node_attempt \<Rightarrow> issues" where
  "attempt_output_issues ctx a =
     check (opt_all (agent_output_valid (pc_agent ctx)) (na_output a))
       (js ''attempt output violates '' @ agent_name (pc_agent ctx) @ js '' schema'') @
     check (\<not> (pc_agent ctx = Implementer \<and> \<not> artifact_of_run (pc_run_id ctx) (na_output a)))
       (js ''artifact_path belongs to a different run'') @
     check (\<not> (has_output a \<and> na_schema_ok a \<noteq> Some True)) (js ''attempt output requires schema_ok=true'')"

definition attempt_status_issues :: "attempt_context \<Rightarrow> node_attempt \<Rightarrow> issues" where
  "attempt_status_issues ctx a =
     (if na_status a = Running then
        check (\<not> (na_finished_at a \<noteq> None \<or> na_failures a \<noteq> [] \<or> or_zero (na_failures_omitted a) \<noteq> 0 \<or>
               has_output a \<or> na_schema_ok a \<noteq> None))
          (js ''running attempt must be unfinished and cannot carry output/failures/schema verdict'')
      else
        (case na_finished_at a of
           None \<Rightarrow> [js ''terminal attempt requires finished_at'']
         | Some t \<Rightarrow> check (\<not> t < na_started_at a) (js ''attempt cannot finish before it starts'')) @
        check (na_schema_ok a \<noteq> None) (js ''terminal attempt requires a schema verdict'')) @
     (if na_status a = Done then
        check (\<not> (na_schema_ok a \<noteq> Some True \<or> \<not> has_output a \<or> na_failures a \<noteq> [] \<or>
               or_zero (na_failures_omitted a) \<noteq> 0 \<or> na_error a \<noteq> None))
          (js ''done attempt must be a successful schema-valid attempt'') @
        check (\<not> (pc_agent ctx = Implementer \<and> na_output a \<noteq> None \<and>
               Option.bind (na_output a) output_done \<noteq> Some True))
          (js ''incomplete implementer output cannot complete an attempt'') @
        check (\<not> (pc_agent ctx = Checker \<and> na_output a \<noteq> None \<and>
               Option.bind (na_output a) output_passed \<noteq> Some True))
          (js ''rejected checker output cannot complete an attempt'') @
        check (\<not> (pc_requires_shell ctx \<and> pc_mode ctx \<noteq> Some Dry \<and> na_shell_ok a \<noteq> Some True))
          (js ''done gated attempt requires shell_ok=true'')
      else []) @
     check (\<not> (na_status a = Failed \<and> na_failures a = [] \<and> or_zero (na_failures_omitted a) = 0))
       (js ''failed attempt requires failures'')"

definition attempt_outcome_issues :: "attempt_context \<Rightarrow> node_attempt \<Rightarrow> issues" where
  "attempt_outcome_issues ctx a =
     (let outcome = na_outcome a in
      check (\<not> (outcome = Some Passed \<and> na_status a \<noteq> Done)) (js ''passed outcome requires a done attempt'') @
      check (\<not> (na_status a = Done \<and> outcome \<noteq> None \<and> outcome \<noteq> Some Passed))
        (js ''done attempt requires a passed outcome when outcome is recorded'') @
      check (\<not> (outcome \<noteq> None \<and> outcome \<noteq> Some Passed \<and> na_status a \<noteq> Failed))
        (js ''non-passed outcome requires a failed attempt'') @
      check (\<not> (outcome = Some Schema_invalid \<and> na_schema_ok a \<noteq> Some False))
        (js ''schema_invalid outcome requires schema_ok=false'') @
      check (\<not> (outcome = Some Sdk_error \<and> na_error a = None)) (js ''sdk_error outcome requires an error'') @
      check (\<not> (na_error a \<noteq> None \<and> outcome \<noteq> None \<and> outcome \<noteq> Some Sdk_error))
        (js ''recorded error requires sdk_error outcome'') @
      check (\<not> ((outcome = Some Substantive_rejection \<or> outcome = Some Incomplete \<or> outcome = Some Gate_failure) \<and>
             na_schema_ok a \<noteq> Some True))
        (js ''outcome requires schema_ok=true'') @
      check (\<not> (outcome = Some Gate_failure \<and> (\<not> live_shell_gate ctx \<or> na_shell_ok a \<noteq> Some False)))
        (js ''gate_failure outcome requires an actual live shell/all graph gate and shell_ok=false'') @
      check (\<not> (outcome = Some Incomplete \<and> pc_agent ctx \<noteq> Implementer))
        (js ''incomplete outcome requires implementer output'') @
      check (\<not> (outcome = Some Substantive_rejection \<and>
             (pc_agent ctx \<noteq> Checker \<or> na_schema_ok a \<noteq> Some True \<or>
              (na_output a \<noteq> None \<and> Option.bind (na_output a) output_passed \<noteq> Some False))))
        (js ''substantive_rejection requires validated passed=false checker output''))"

definition attempt_checker_issues :: "attempt_context \<Rightarrow> node_attempt \<Rightarrow> issues" where
  "attempt_checker_issues ctx a =
     (let outcome = na_outcome a;
          checker_passed = (Option.bind (na_output a) output_passed = Some True);
          shell_failed = (live_shell_gate ctx \<and> na_shell_ok a = Some False)
      in if pc_agent ctx = Checker \<and> na_output a \<noteq> None then
           check (\<not> (outcome = Some Passed \<and> \<not> checker_passed))
             (js ''passed outcome requires passed=true checker output'') @
           check (\<not> (outcome = Some Gate_failure \<and> checker_passed \<and> \<not> shell_failed))
             (js ''passed=true checker gate_failure requires a proved shell gate failure'') @
           check (\<not> (\<not> checker_passed \<and> \<not> shell_failed \<and> na_error a = None \<and> na_status a = Failed \<and>
                  outcome \<noteq> None \<and> outcome \<noteq> Some Substantive_rejection))
             (js ''validated passed=false checker output requires substantive_rejection outcome'') @
           check (\<not> (checker_passed \<and> outcome = Some Substantive_rejection))
             (js ''substantive_rejection outcome requires passed=false checker output'')
         else [])"

definition attempt_implementer_issues :: "attempt_context \<Rightarrow> node_attempt \<Rightarrow> issues" where
  "attempt_implementer_issues ctx a =
     (let outcome = na_outcome a;
          incomplete = (Option.bind (na_output a) output_done = Some False);
          shell_failed = (pc_requires_shell ctx \<and> pc_mode ctx \<noteq> Some Dry \<and> na_shell_ok a \<noteq> Some True)
      in if pc_agent ctx = Implementer \<and> na_output a \<noteq> None then
           check (\<not> (incomplete \<and> \<not> shell_failed \<and> na_error a = None \<and> na_status a = Failed \<and>
                  outcome \<noteq> None \<and> outcome \<noteq> Some Incomplete))
             (js ''validated done=false implementer output requires incomplete outcome'') @
           check (\<not> (\<not> incomplete \<and> outcome = Some Incomplete))
             (js ''incomplete outcome requires done=false implementer output'')
         else [])"

definition attempt_score_issues :: "attempt_context \<Rightarrow> node_attempt \<Rightarrow> issues" where
  "attempt_score_issues ctx a =
     (if pc_agent ctx = Checker \<and> na_output a \<noteq> None
      then check (na_score a = Option.bind (na_output a) output_score)
             (js ''checker attempt score must match its output'')
      else check (\<not> (na_score a \<noteq> None \<and> \<not> (pc_agent ctx = Checker \<and> na_output_ref a \<noteq> None)))
             (js ''score requires validated checker output''))"

definition attempt_issues :: "attempt_context \<Rightarrow> node_attempt \<Rightarrow> issues" where
  "attempt_issues ctx a =
     attempt_identity_issues ctx a @ attempt_output_issues ctx a @ attempt_status_issues ctx a @
     attempt_outcome_issues ctx a @ attempt_checker_issues ctx a @ attempt_implementer_issues ctx a @
     attempt_score_issues ctx a"

definition parse_persisted_node_attempt ::
  "(jstr \<Rightarrow> jstr) \<Rightarrow> attempt_context \<Rightarrow> node_attempt \<Rightarrow> jstr + node_attempt" where
  "parse_persisted_node_attempt sha ctx a =
     (if \<not> attempt_shape a then Inl (js ''attempt shape'')
      else let committed = commitment_issues sha (na_failures_commitment a) (na_failures a)
                 (na_failures_omitted a) (na_failure_texts_truncated a) in
           if committed \<noteq> [] then Inl (js_join (js ''; '') committed)
           else if attempt_issues ctx a \<noteq> [] then Inl (js_join (js ''; '') (attempt_issues ctx a))
           else Inr a)"

text \<open>\<open>parsePersistedAttemptDetail\<close>: a full detail carries no projection field.\<close>

definition is_attempt_detail :: "node_attempt \<Rightarrow> bool" where
  "is_attempt_detail a \<longleftrightarrow>
     na_output_ref a = None \<and> na_detail_ref a = None \<and> na_failures_commitment a = None \<and>
     na_failures_omitted a = None \<and> na_failure_texts_truncated a = None \<and> na_error_bytes_omitted a = None"

definition parse_persisted_attempt_detail ::
  "(jstr \<Rightarrow> jstr) \<Rightarrow> attempt_context \<Rightarrow> node_attempt \<Rightarrow> jstr + node_attempt" where
  "parse_persisted_attempt_detail sha ctx a =
     (if is_attempt_detail a then parse_persisted_node_attempt sha ctx a
      else Inl (js ''attempt detail shape''))"

definition attempt_ok :: "(jstr \<Rightarrow> jstr) \<Rightarrow> attempt_context \<Rightarrow> node_attempt \<Rightarrow> bool" where
  "attempt_ok sha ctx a \<longleftrightarrow>
     attempt_shape a \<and> attempt_issues ctx a = [] \<and>
     commitment_issues sha (na_failures_commitment a) (na_failures a)
       (na_failures_omitted a) (na_failure_texts_truncated a) = []"

lemma parse_persisted_node_attempt_ok:
  "(\<exists>x. parse_persisted_node_attempt sha ctx a = Inr x) \<longleftrightarrow> attempt_ok sha ctx a"
  by (simp add: parse_persisted_node_attempt_def attempt_ok_def Let_def)

section \<open>What an accepted attempt means\<close>

lemma attempt_ok_status: "attempt_ok sha ctx a \<Longrightarrow> na_status a = Running \<or> na_status a = Done \<or> na_status a = Failed"
  by (auto simp: attempt_ok_def attempt_issues_def attempt_identity_issues_def)

lemma attempt_ok_number: "attempt_ok sha ctx a \<Longrightarrow> na_attempt a = pc_expected_attempt ctx"
  by (auto simp: attempt_ok_def attempt_issues_def attempt_identity_issues_def)

lemma attempt_ok_done:
  assumes "attempt_ok sha ctx a" "na_status a = Done"
  shows "na_schema_ok a = Some True" "has_output a" "na_failures a = []" "na_error a = None"
    "na_outcome a = None \<or> na_outcome a = Some Passed"
    "live_shell_gate ctx \<Longrightarrow> na_shell_ok a = Some True"
  using assms
  by (auto simp: attempt_ok_def attempt_issues_def attempt_status_issues_def attempt_outcome_issues_def
      live_shell_gate_def Let_def)


end
