(* ===== verification/Run_Invariant.thy ===== *)
theory Run_Invariant
  imports Graph Attempts
begin

text \<open>
  \<open>RunStateCoreSchema\<close> of \<open>src/schemas.ts\<close>: the declared bounds of a run and the semantic pass
  that every save and every load goes through. The pass is written check by check, then read
  back as an invariant with one part per node, one for the edges between nodes, and one for
  the run as a whole; that is the form the executor's steps are shown to preserve.
\<close>

section \<open>Declared bounds\<close>

definition MAX_SAFE_INTEGER :: nat where "MAX_SAFE_INTEGER = 9007199254740991"

definition project_path_shape :: "jstr \<Rightarrow> bool" where
  "project_path_shape p \<longleftrightarrow> exact_string 1 4096 p \<and> posix_absolute p"

definition model_ref_shape :: "model_ref \<Rightarrow> bool" where
  "model_ref_shape m \<longleftrightarrow>
     trimmed_sized 1 128 (mr_providerID m) \<and> trimmed_sized 1 256 (mr_modelID m) \<and>
     opt_all (trimmed_sized 1 128) (mr_variant m)"

definition model_resolution_shape :: "model_resolution \<Rightarrow> bool" where
  "model_resolution_shape m \<longleftrightarrow>
     opt_all (trimmed_sized 1 128) (mres_providerID m) \<and> opt_all (trimmed_sized 1 256) (mres_modelID m) \<and>
     opt_all (trimmed_sized 1 128) (mres_variant m) \<and>
     (mres_providerID m = None \<longleftrightarrow> mres_modelID m = None) \<and>
     \<not> (mres_variant m \<noteq> None \<and> mres_modelID m = None)"

definition node_state_shape :: "node_state \<Rightarrow> bool" where
  "node_state_shape st \<longleftrightarrow>
     is_safe_id (ns_id st) \<and> length (ns_attempts st) \<le> 10000 \<and> list_all attempt_shape (ns_attempts st) \<and>
     opt_all attempt_history_ref_shape (ns_attempt_history_ref st) \<and> ns_current_attempt st \<le> 10000 \<and>
     opt_all output_ref_shape (ns_output_ref st) \<and> bounded_strings (ns_last_failures st) \<and>
     opt_all commitment_shape (ns_last_failures_commitment st) \<and>
     opt_all history_ref_shape (ns_last_failures_ref st) \<and>
     opt_all (\<lambda>n. n \<le> 10000) (ns_last_failures_omitted st) \<and>
     opt_all (\<lambda>n. n \<le> 10000) (ns_last_failure_texts_truncated st)"

definition transfer_shape :: "owner_transfer \<Rightarrow> bool" where
  "transfer_shape t \<longleftrightarrow>
     session_id_shape (ot_from_session_id t) \<and> session_id_shape (ot_to_session_id t) \<and>
     session_id_shape (ot_by_session_id t)"

definition root_authorization_shape :: "root_authorization \<Rightarrow> bool" where
  "root_authorization_shape a \<longleftrightarrow>
     session_id_shape (rauth_by_session_id a) \<and> opt_all project_path_shape (rauth_path a)"

definition state_projection_shape :: "state_projection \<Rightarrow> bool" where
  "state_projection_shape p \<longleftrightarrow>
     sp_outputs_externalized p \<le> 20000 \<and> sp_attempts_archived p \<le> 10000 \<and>
     sp_failure_entries_omitted p \<le> 100000000 \<and> sp_failure_texts_truncated p \<le> 100000000 \<and>
     sp_error_bytes_omitted p \<le> 100000000 \<and> sp_root_authorizations_omitted p \<le> MAX_SAFE_INTEGER"

text \<open>Everything but the revision, which each save advances.\<close>

definition run_body_shape :: "run_state \<Rightarrow> bool" where
  "run_body_shape run \<longleftrightarrow>
     is_safe_id (rs_run_id run) \<and> session_id_shape (rs_owner_session_id run) \<and>
     session_id_shape (rs_parent_session_id run) \<and>
     length (rs_owner_transfers run) \<le> 1000 \<and> list_all transfer_shape (rs_owner_transfers run) \<and>
     opt_all project_path_shape (rs_execution_directory run) \<and> project_path_shape (rs_project_directory run) \<and>
     long_text (rs_goal run) \<and> bounded_strings (rs_criteria run) \<and>
     graph_shape (rs_graph run) \<and> graph_issues (rs_graph run) = [] \<and>
     sized 1 128 (rs_phase run) \<and>
     distinct (map fst (rs_nodes run)) \<and>
     list_all (\<lambda>e. is_safe_id (fst e) \<and> node_state_shape (snd e)) (rs_nodes run) \<and>
     rs_global_attempts run \<le> 10000 \<and>
     list_all (\<lambda>e. model_ref_shape (snd e)) (rs_model_snapshot run) \<and>
     opt_all (list_all (\<lambda>e. model_resolution_shape (snd e))) (rs_model_resolution run) \<and>
     opt_all (\<lambda>as. length as \<le> 10000 \<and> list_all root_authorization_shape as)
       (rs_filesystem_root_authorizations run) \<and>
     opt_all root_authorization_ref_shape (rs_filesystem_root_authorizations_ref run) \<and>
     opt_all (\<lambda>n. n \<le> MAX_SAFE_INTEGER) (rs_filesystem_root_authorizations_omitted run) \<and>
     opt_all (\<lambda>s. length s \<le> 50000) (rs_summary run) \<and>
     opt_all state_projection_shape (rs_state_projection run)"

definition revision_shape :: "run_state \<Rightarrow> bool" where
  "revision_shape run \<longleftrightarrow> 1 \<le> rs_revision run \<and> rs_revision run \<le> MAX_SAFE_INTEGER"

section \<open>The checks on one attempt of a node\<close>

definition attempt_context_of :: "run_state \<Rightarrow> node_def \<Rightarrow> jstr \<Rightarrow> nat \<Rightarrow> attempt_context" where
  "attempt_context_of run d i n =
     \<lparr>pc_agent = nd_agent d, pc_run_id = rs_run_id run, pc_node_id = i, pc_expected_attempt = n,
      pc_mode = Some (rs_mode run), pc_requires_shell = requires_shell d\<rparr>"

definition archived_attempts :: "node_state \<Rightarrow> nat" where
  "archived_attempts st = (case ns_attempt_history_ref st of None \<Rightarrow> 0 | Some r \<Rightarrow> ah_attempt_count r)"

definition run_attempt_reference_issues :: "run_state \<Rightarrow> node_def \<Rightarrow> jstr \<Rightarrow> node_attempt \<Rightarrow> issues" where
  "run_attempt_reference_issues run d i a =
     (case na_output_ref a of
        None \<Rightarrow> []
      | Some r \<Rightarrow>
          check (is_attempt_output_reference_path r (rs_run_id run) i (na_attempt a))
            (js ''attempt output reference does not match its run/node/attempt'') @
          check (dr_byte_size r \<le> AGENT_OUTPUT_BYTE_LIMITS (nd_agent d))
            (js ''attempt output reference exceeds the agent output limit'')) @
     (case na_detail_ref a of
        None \<Rightarrow> []
      | Some r \<Rightarrow>
          check (is_attempt_detail_reference_path r (rs_run_id run) i (na_attempt a))
            (js ''attempt detail reference does not match its run/node/attempt''))"

definition run_attempt_output_issues :: "run_state \<Rightarrow> node_def \<Rightarrow> node_attempt \<Rightarrow> issues" where
  "run_attempt_output_issues run d a =
     check (\<not> (nd_agent d = Implementer \<and> \<not> artifact_of_run (rs_run_id run) (na_output a)))
       (js ''artifact_path belongs to a different run'') @
     check (\<not> (has_output a \<and> na_schema_ok a \<noteq> Some True)) (js ''attempt output requires schema_ok=true'')"

definition run_attempt_finish_issues :: "bool \<Rightarrow> node_attempt \<Rightarrow> issues" where
  "run_attempt_finish_issues is_final a =
     (if na_status a = Running then
        check (\<not> (\<not> is_final \<or> na_finished_at a \<noteq> None \<or> na_failures a \<noteq> [] \<or>
               or_zero (na_failures_omitted a) \<noteq> 0 \<or> has_output a \<or> na_schema_ok a \<noteq> None))
          (js ''running attempt must be the unfinished final attempt'')
      else
        (case na_finished_at a of
           None \<Rightarrow> [js ''terminal attempt requires finished_at'']
         | Some t \<Rightarrow> check (\<not> t < na_started_at a) (js ''attempt cannot finish before it starts'')) @
        check (na_schema_ok a \<noteq> None) (js ''terminal attempt requires a schema verdict''))"

definition run_attempt_done_issues :: "run_state \<Rightarrow> node_def \<Rightarrow> node_attempt \<Rightarrow> issues" where
  "run_attempt_done_issues run d a =
     (if na_status a = Done then
        check (\<not> (na_schema_ok a \<noteq> Some True \<or> \<not> has_output a \<or> na_failures a \<noteq> [] \<or>
               or_zero (na_failures_omitted a) \<noteq> 0 \<or> na_error a \<noteq> None))
          (js ''done attempt must be a successful schema-valid attempt'') @
        check (\<not> (nd_agent d = Implementer \<and> na_output a \<noteq> None \<and>
               Option.bind (na_output a) output_done \<noteq> Some True))
          (js ''incomplete implementer output cannot complete an attempt'') @
        check (\<not> (nd_agent d = Checker \<and> na_output a \<noteq> None \<and>
               Option.bind (na_output a) output_passed \<noteq> Some True))
          (js ''rejected checker output cannot complete an attempt'') @
        check (\<not> (requires_shell d \<and> rs_mode run \<noteq> Dry \<and> na_shell_ok a \<noteq> Some True))
          (js ''done gated attempt requires shell_ok=true'')
      else [])"

definition run_attempt_outcome_issues :: "node_def \<Rightarrow> node_attempt \<Rightarrow> issues" where
  "run_attempt_outcome_issues d a =
     check (\<not> (na_outcome a = Some Passed \<and> na_status a \<noteq> Done)) (js ''passed outcome requires a done attempt'') @
     check (\<not> (na_outcome a = Some Schema_invalid \<and> na_schema_ok a \<noteq> Some False))
       (js ''schema_invalid outcome requires schema_ok=false'') @
     check (\<not> (na_outcome a = Some Substantive_rejection \<and>
            (nd_agent d \<noteq> Checker \<or> na_schema_ok a \<noteq> Some True \<or>
             (na_output a \<noteq> None \<and> Option.bind (na_output a) output_passed \<noteq> Some False))))
       (js ''substantive_rejection requires validated passed=false checker output'') @
     check (\<not> (na_status a = Failed \<and> na_failures a = [] \<and> or_zero (na_failures_omitted a) = 0))
       (js ''failed attempt requires failures'')"

definition run_attempt_score_issues :: "node_def \<Rightarrow> node_attempt \<Rightarrow> issues" where
  "run_attempt_score_issues d a =
     (if nd_agent d = Checker \<and> na_output a \<noteq> None
      then check (na_score a = Option.bind (na_output a) output_score)
             (js ''checker attempt score must match its output'')
      else check (\<not> (na_score a \<noteq> None \<and> \<not> (nd_agent d = Checker \<and> na_output_ref a \<noteq> None)))
             (js ''score requires validated checker output''))"

definition run_attempt_issues ::
  "(jstr \<Rightarrow> jstr) \<Rightarrow> run_state \<Rightarrow> node_def \<Rightarrow> jstr \<Rightarrow> node_state \<Rightarrow> nat \<Rightarrow> node_attempt \<Rightarrow> issues" where
  "run_attempt_issues sha run d i st k a =
     (let n = archived_attempts st + k + 1 in
      (case parse_persisted_node_attempt sha (attempt_context_of run d i n) a of
         Inl m \<Rightarrow> [js ''persisted attempt invariant failed: '' @ m]
       | Inr x \<Rightarrow> []) @
      check (na_attempt a = n) (js ''attempt history must be contiguous'') @
      check (na_status a = Running \<or> na_status a = Done \<or> na_status a = Failed)
        (js ''attempt status must be running, done, or failed'') @
      check (opt_all (agent_output_valid (nd_agent d)) (na_output a))
        (js ''attempt output violates '' @ agent_name (nd_agent d) @ js '' schema'') @
      run_attempt_reference_issues run d i a @
      run_attempt_output_issues run d a @
      run_attempt_finish_issues (k = length (ns_attempts st) - 1) a @
      run_attempt_done_issues run d a @
      run_attempt_outcome_issues d a @
      run_attempt_score_issues d a)"

lemma run_attempt_groups:
  assumes "attempt_ok sha (attempt_context_of run d i n) a"
  shows "na_attempt a = n" "na_status a = Running \<or> na_status a = Done \<or> na_status a = Failed"
    "opt_all (agent_output_valid (nd_agent d)) (na_output a)"
    "run_attempt_reference_issues run d i a = []" "run_attempt_output_issues run d a = []"
    "run_attempt_finish_issues is_final a = [] \<longleftrightarrow> (na_status a = Running \<longrightarrow> is_final)"
    "run_attempt_done_issues run d a = []" "run_attempt_outcome_issues d a = []"
    "run_attempt_score_issues d a = []"
proof -
  let ?ctx = "attempt_context_of run d i n"
  note c = attempt_context_of_def
  have g: "attempt_identity_issues ?ctx a = []" "attempt_output_issues ?ctx a = []"
    "attempt_status_issues ?ctx a = []" "attempt_outcome_issues ?ctx a = []" "attempt_score_issues ?ctx a = []"
    using assms by (auto simp: attempt_ok_def attempt_issues_def)
  show n: "na_attempt a = n" using g(1) by (simp add: attempt_identity_issues_def c)
  show "na_status a = Running \<or> na_status a = Done \<or> na_status a = Failed"
    using g(1) by (simp add: attempt_identity_issues_def c)
  show "opt_all (agent_output_valid (nd_agent d)) (na_output a)"
    using g(2) by (simp add: attempt_output_issues_def c)
  show "run_attempt_reference_issues run d i a = []"
    using g(1) n unfolding attempt_identity_issues_def run_attempt_reference_issues_def
    by (cases "na_output_ref a"; cases "na_detail_ref a") (simp_all add: c)
  show "run_attempt_output_issues run d a = []"
    using g(2) by (simp add: attempt_output_issues_def run_attempt_output_issues_def c)
  show "run_attempt_finish_issues is_final a = [] \<longleftrightarrow> (na_status a = Running \<longrightarrow> is_final)"
    using g(3) unfolding attempt_status_issues_def run_attempt_finish_issues_def
    by (cases "na_status a = Running") simp_all
  show "run_attempt_done_issues run d a = []"
    using g(3) unfolding attempt_status_issues_def run_attempt_done_issues_def
    by (cases "na_status a = Done") (simp_all add: c)
  show "run_attempt_outcome_issues d a = []"
    using g(3,4) by (simp add: attempt_status_issues_def attempt_outcome_issues_def run_attempt_outcome_issues_def c Let_def)
  show "run_attempt_score_issues d a = []"
    using g(5) unfolding attempt_score_issues_def run_attempt_score_issues_def
    by (auto simp: c split: if_splits)
qed

lemma run_attempt_issues_iff:
  "run_attempt_issues sha run d i st k a = [] \<longleftrightarrow>
   attempt_ok sha (attempt_context_of run d i (archived_attempts st + k + 1)) a \<and>
   (na_status a = Running \<longrightarrow> k = length (ns_attempts st) - 1)"
proof (cases "parse_persisted_node_attempt sha (attempt_context_of run d i (archived_attempts st + k + 1)) a")
  case (Inl m)
  then have "\<not> attempt_ok sha (attempt_context_of run d i (archived_attempts st + k + 1)) a"
    using parse_persisted_node_attempt_ok by (metis sum.distinct(1))
  then show ?thesis using Inl by (simp add: run_attempt_issues_def Let_def)
next
  case (Inr x)
  then have ok: "attempt_ok sha (attempt_context_of run d i (archived_attempts st + k + 1)) a"
    using parse_persisted_node_attempt_ok by blast
  from run_attempt_groups [OF this] ok show ?thesis
    unfolding run_attempt_issues_def Let_def Inr by simp
qed

text \<open>
  The checks that the run schema repeats on every attempt are redundant: they reject
  nothing that \<open>parsePersistedNodeAttempt\<close> accepts, except an attempt that is running without
  being the last one.
\<close>

theorem repeated_attempt_checks_redundant:
  "run_attempt_issues sha run d i st k a = [] \<longleftrightarrow>
   (\<exists>x. parse_persisted_node_attempt sha (attempt_context_of run d i (archived_attempts st + k + 1)) a = Inr x) \<and>
   (na_status a = Running \<longrightarrow> k = length (ns_attempts st) - 1)"
  by (simp only: run_attempt_issues_iff parse_persisted_node_attempt_ok)

section \<open>The checks on one node\<close>

definition latest_output_attempt :: "node_state \<Rightarrow> node_attempt option" where
  "latest_output_attempt st = find has_output (rev (ns_attempts st))"

definition node_commitment_issues :: "(jstr \<Rightarrow> jstr) \<Rightarrow> node_state \<Rightarrow> issues" where
  "node_commitment_issues sha st =
     commitment_issues sha (ns_last_failures_commitment st) (ns_last_failures st)
       (ns_last_failures_omitted st) (ns_last_failure_texts_truncated st)"

definition node_history_issues ::
  "(jstr \<Rightarrow> jstr) \<Rightarrow> run_state \<Rightarrow> node_def \<Rightarrow> jstr \<Rightarrow> node_state \<Rightarrow> issues" where
  "node_history_issues sha run d i st =
     node_commitment_issues sha st @
     check (ns_current_attempt st = archived_attempts st + length (ns_attempts st))
       (js ''current_attempt must equal preserved attempt history length'') @
     (case ns_attempt_history_ref st of
        None \<Rightarrow> []
      | Some r \<Rightarrow> check (is_attempt_history_reference_path r (rs_run_id run) i)
                    (js ''attempt history reference does not match its run/node'')) @
     check (ns_current_attempt st \<le> max_attempts d) (js ''node exceeded local attempt limit'') @
     concat (map (\<lambda>(k, a). run_attempt_issues sha run d i st k a)
       (zip [0..<length (ns_attempts st)] (ns_attempts st)))"

definition node_output_issues :: "run_state \<Rightarrow> node_def \<Rightarrow> jstr \<Rightarrow> node_state \<Rightarrow> issues" where
  "node_output_issues run d i st =
     check (opt_all (agent_output_valid (nd_agent d)) (ns_output st))
       (js ''node output violates '' @ agent_name (nd_agent d) @ js '' schema'') @
     (case ns_output_ref st of
        None \<Rightarrow> []
      | Some r \<Rightarrow>
          check (is_node_output_reference_path r (rs_run_id run) i)
            (js ''node output reference does not match its run/node'') @
          check (dr_byte_size r \<le> AGENT_OUTPUT_BYTE_LIMITS (nd_agent d))
            (js ''node output reference exceeds the agent output limit'')) @
     (case ns_last_failures_ref st of
        None \<Rightarrow> []
      | Some r \<Rightarrow> check (is_node_failures_reference_path r (rs_run_id run) i)
                    (js ''node failure reference does not match its run/node'')) @
     check (\<not> (nd_agent d = Implementer \<and> \<not> artifact_of_run (rs_run_id run) (ns_output st)))
       (js ''artifact_path belongs to a different run'') @
     check (ns_output st = None \<or> Option.bind (latest_output_attempt st) na_output = ns_output st)
       (js ''node output must come from the latest validated attempt output'') @
     check (\<not> (ns_output_ref st \<noteq> None \<and> Option.bind (latest_output_attempt st) na_output_ref = None \<and>
            ns_output st = None))
       (js ''node output reference must come from the latest visible validated attempt'')"

definition final_attempt :: "node_state \<Rightarrow> node_attempt option" where
  "final_attempt st = last_opt (ns_attempts st)"

definition final_status :: "node_state \<Rightarrow> node_status option" where
  "final_status st = map_option na_status (final_attempt st)"

definition done_mismatch :: "node_state \<Rightarrow> bool" where
  "done_mismatch st \<longleftrightarrow>
     (case final_attempt st of
        None \<Rightarrow> True
      | Some a \<Rightarrow>
          na_status a \<noteq> Done \<or> (ns_output st = None \<and> ns_output_ref st = None) \<or> \<not> has_output a \<or>
          (ns_output st \<noteq> None \<and> na_output a \<noteq> None \<and> ns_output st \<noteq> na_output a))"

definition node_status_issues :: "run_state \<Rightarrow> node_def \<Rightarrow> node_state \<Rightarrow> issues" where
  "node_status_issues run d st =
     check (\<not> (ns_status st = Running \<and> final_status st \<noteq> Some Running))
       (js ''running node requires a running final attempt'') @
     check (\<not> (ns_status st \<noteq> Running \<and> final_status st = Some Running))
       (js ''running final attempt requires running node status'') @
     (if ns_status st = Done then
        check (\<not> done_mismatch st) (js ''done node requires a matching successful final attempt and output'') @
        concat (map (\<lambda>dep. check (node_status_of run dep = Some Done)
          (js ''done node requires done dependency '' @ dep)) (nd_depends_on d))
      else []) @
     check (\<not> (ns_status st = Failed \<and> final_status st \<noteq> None \<and> final_status st \<noteq> Some Failed))
       (js ''failed node requires a failed final attempt'') @
     check (\<not> ((ns_status st = Failed \<or> ns_status st = Skipped) \<and> ns_last_failures st = [] \<and>
            or_zero (ns_last_failures_omitted st) = 0))
       (node_status_name (ns_status st) @ js '' node requires a recorded reason'') @
     check (\<not> (ns_status st = Done \<and> (ns_last_failures st \<noteq> [] \<or> or_zero (ns_last_failures_omitted st) \<noteq> 0)))
       (js ''done node cannot retain failures'') @
     check (\<not> (ns_status st = Skipped \<and> \<not> list_ex (blocked_by run) (nd_depends_on d)))
       (js ''skipped node requires a failed or skipped dependency'')"

definition node_entry_issues ::
  "(jstr \<Rightarrow> jstr) \<Rightarrow> run_state \<Rightarrow> (jstr \<rightharpoonup> node_def) \<Rightarrow> jstr \<times> node_state \<Rightarrow> issues" where
  "node_entry_issues sha run definitions e =
     (let i = fst e; st = snd e in
      case definitions i of
        None \<Rightarrow> [js ''node state identity does not match graph'']
      | Some d \<Rightarrow>
          if ns_id st \<noteq> i \<or> ns_agent st \<noteq> nd_agent d
          then [js ''node state identity does not match graph'']
          else node_history_issues sha run d i st @ node_output_issues run d i st @
               node_status_issues run d st)"

section \<open>The checks on the run\<close>

text \<open>\<open>new Map(nodes.map((node) => [node.id, node]))\<close>: the last definition of an id.\<close>

definition definitions_of :: "graph_def \<Rightarrow> (jstr \<rightharpoonup> node_def)" where
  "definitions_of g = map_of (rev (map (\<lambda>d. (nd_id d, d)) (gd_nodes g)))"

definition counted_attempts :: "run_state \<Rightarrow> nat" where
  "counted_attempts run = sum_list (map (\<lambda>e.
     case definitions_of (rs_graph run) (fst e) of
       None \<Rightarrow> 0
     | Some d \<Rightarrow> if ns_id (snd e) \<noteq> fst e \<or> ns_agent (snd e) \<noteq> nd_agent d then 0
                 else ns_current_attempt (snd e)) (rs_nodes run))"

definition run_table_issues :: "(jstr \<Rightarrow> jstr) \<Rightarrow> run_state \<Rightarrow> issues" where
  "run_table_issues sha run =
     check (length (rs_nodes run) = length (remdups (map nd_id (gd_nodes (rs_graph run)))))
       (js ''node state keys must exactly match graph nodes'') @
     concat (map (\<lambda>d. check (node_of run (nd_id d) \<noteq> None) (js ''graph node is missing state''))
       (gd_nodes (rs_graph run))) @
     concat (map (node_entry_issues sha run (definitions_of (rs_graph run))) (rs_nodes run)) @
     check (rs_global_attempts run = counted_attempts run \<and>
            counted_attempts run \<le> gd_max_global_attempts (rs_graph run))
       (js ''global_attempts must equal history and respect graph limit'')"

definition run_status_issues :: "run_state \<Rightarrow> issues" where
  "run_status_issues run =
     check (\<not> (rs_status run = Run_done \<and>
            list_ex (\<lambda>d. node_status_of run (nd_id d) \<noteq> Some Done) (gd_nodes (rs_graph run))))
       (js ''done run requires every node done'') @
     check (\<not> (rs_status run = Run_failed \<and> \<not> any_failed run)) (js ''failed run requires a failed node'') @
     check (\<not> (rs_status run = Run_failed \<and> \<not> all_terminal run)) (js ''failed run requires all nodes terminal'') @
     check (\<not> (rs_status run = Run_planning \<and>
            (rs_global_attempts run \<noteq> 0 \<or> list_ex (\<lambda>st. ns_status st \<noteq> Pending) (node_values run))))
       (js ''planning run must have an untouched pending graph'')"

fun transfer_issues :: "jstr \<Rightarrow> nat option \<Rightarrow> owner_transfer list \<Rightarrow> issues \<times> jstr" where
  "transfer_issues expected previous [] = ([], expected)"
| "transfer_issues expected previous (t # ts) =
     (let (rest, owner) = transfer_issues (ot_to_session_id t) (Some (ot_transferred_at t)) ts in
      (check (ot_by_session_id t = ot_from_session_id t) (js ''transfer actor must equal source owner'') @
       check (ot_from_session_id t \<noteq> ot_to_session_id t) (js ''self-transfer is not allowed'') @
       check (ot_from_session_id t = expected) (js ''transfer source breaks the ownership chain'') @
       check (opt_all (\<lambda>p. p \<le> ot_transferred_at t) previous) (js ''transfer timestamps must be monotonic'') @
       rest, owner))"

definition run_ownership_issues :: "run_state \<Rightarrow> issues" where
  "run_ownership_issues run =
     (let (chain, owner) = transfer_issues (rs_parent_session_id run) None (rs_owner_transfers run) in
      chain @ check (rs_owner_session_id run = owner)
        (js ''final owner does not match the audited transfer chain''))"

definition run_authorization_issues :: "run_state \<Rightarrow> issues" where
  "run_authorization_issues run =
     (case rs_filesystem_root_authorizations_ref run of
        None \<Rightarrow> []
      | Some r \<Rightarrow>
          (let retained = (case rs_filesystem_root_authorizations run of None \<Rightarrow> 0 | Some as \<Rightarrow> length as) in
           check (is_root_authorizations_reference_path r (rs_run_id run))
             (js ''filesystem root authorization reference does not match its run/kind'') @
           check (\<not> (ra_authorization_count r < retained \<or>
                  int (or_zero (rs_filesystem_root_authorizations_omitted run)) \<noteq>
                  int (ra_authorization_count r) - int retained))
             (js ''filesystem root authorization projection metadata does not match its reference'')))"

definition opt_count :: "'a option \<Rightarrow> nat" where
  "opt_count v = (if v = None then 0 else 1)"

definition history_sum :: "(attempt_history_ref \<Rightarrow> nat) \<Rightarrow> node_state \<Rightarrow> nat" where
  "history_sum f st = (case ns_attempt_history_ref st of None \<Rightarrow> 0 | Some r \<Rightarrow> f r)"

definition expected_projection :: "run_state \<Rightarrow> state_projection" where
  "expected_projection run =
     (let total = (\<lambda>f. sum_list (map f (node_values run)));
          per_attempt = (\<lambda>f st. sum_list (map f (ns_attempts st)))
      in \<lparr>sp_outputs_externalized = total (\<lambda>st. opt_count (ns_output_ref st) +
            history_sum ah_output_count st + per_attempt (\<lambda>a. opt_count (na_output_ref a)) st),
          sp_attempts_archived = total (history_sum ah_attempt_count),
          sp_failure_entries_omitted = total (\<lambda>st. history_sum ah_failure_entries_omitted st +
            or_zero (ns_last_failures_omitted st) + per_attempt (\<lambda>a. or_zero (na_failures_omitted a)) st),
          sp_failure_texts_truncated = total (\<lambda>st. history_sum ah_failure_texts_truncated st +
            or_zero (ns_last_failure_texts_truncated st) +
            per_attempt (\<lambda>a. or_zero (na_failure_texts_truncated a)) st),
          sp_error_bytes_omitted = total (\<lambda>st. history_sum ah_error_bytes_omitted st +
            per_attempt (\<lambda>a. or_zero (na_error_bytes_omitted a)) st),
          sp_root_authorizations_omitted = or_zero (rs_filesystem_root_authorizations_omitted run)\<rparr>)"

definition run_projection_issues :: "run_state \<Rightarrow> issues" where
  "run_projection_issues run =
     check (opt_all (\<lambda>p. p = expected_projection run) (rs_state_projection run))
       (js ''state projection metadata does not match persisted omissions/references'')"

definition run_issues :: "(jstr \<Rightarrow> jstr) \<Rightarrow> run_state \<Rightarrow> issues" where
  "run_issues sha run =
     run_table_issues sha run @ run_status_issues run @ run_ownership_issues run @
     run_authorization_issues run @ run_projection_issues run"

text \<open>\<open>parseRunStateForProjection\<close>: shape, then the semantic pass.\<close>

definition parse_run_state_for_projection :: "(jstr \<Rightarrow> jstr) \<Rightarrow> run_state \<Rightarrow> issues + run_state" where
  "parse_run_state_for_projection sha run =
     (if \<not> (run_body_shape run \<and> revision_shape run) then Inl [js ''run shape'']
      else if run_issues sha run \<noteq> [] then Inl (run_issues sha run) else Inr run)"

section \<open>Runs in execution form\<close>

text \<open>
  \<open>hydrateRunForExecution\<close> hands the executor a run whose histories and texts are complete and
  which carries no reference, commitment or omission count. On such a run the pass reduces to
  the invariant below.
\<close>

definition hydrated_node :: "node_state \<Rightarrow> bool" where
  "hydrated_node st \<longleftrightarrow>
     list_all is_attempt_detail (ns_attempts st) \<and> ns_attempt_history_ref st = None \<and>
     ns_output_ref st = None \<and> ns_last_failures_commitment st = None \<and> ns_last_failures_ref st = None \<and>
     ns_last_failures_omitted st = None \<and> ns_last_failure_texts_truncated st = None"

definition hydrated_run :: "run_state \<Rightarrow> bool" where
  "hydrated_run run \<longleftrightarrow>
     list_all hydrated_node (node_values run) \<and>
     rs_filesystem_root_authorizations_ref run = None \<and>
     rs_filesystem_root_authorizations_omitted run = None \<and> rs_state_projection run = None"

text \<open>The context of an attempt depends on the run only through its identity and its mode.\<close>

definition node_context :: "jstr \<Rightarrow> run_mode \<Rightarrow> node_def \<Rightarrow> nat \<Rightarrow> attempt_context" where
  "node_context run_id mode d n =
     \<lparr>pc_agent = nd_agent d, pc_run_id = run_id, pc_node_id = nd_id d, pc_expected_attempt = n,
      pc_mode = Some mode, pc_requires_shell = requires_shell d\<rparr>"

definition attempt_fine :: "jstr \<Rightarrow> run_mode \<Rightarrow> node_def \<Rightarrow> nat \<Rightarrow> node_attempt \<Rightarrow> bool" where
  "attempt_fine run_id mode d n a \<longleftrightarrow>
     is_attempt_detail a \<and> attempt_shape a \<and> attempt_issues (node_context run_id mode d n) a = []"

definition history_fine :: "jstr \<Rightarrow> run_mode \<Rightarrow> node_def \<Rightarrow> node_attempt list \<Rightarrow> bool" where
  "history_fine run_id mode d as \<longleftrightarrow>
     (\<forall>k < length as. attempt_fine run_id mode d (Suc k) (as ! k) \<and>
        (na_status (as ! k) = Running \<longrightarrow> Suc k = length as))"

definition latest_output :: "node_attempt list \<Rightarrow> agent_output option" where
  "latest_output as = Option.bind (find (\<lambda>a. na_output a \<noteq> None) (rev as)) na_output"

text \<open>One node on its own.\<close>

definition node_fine :: "jstr \<Rightarrow> run_mode \<Rightarrow> node_def \<Rightarrow> node_state \<Rightarrow> bool" where
  "node_fine run_id mode d st \<longleftrightarrow>
     hydrated_node st \<and> is_safe_id (nd_id d) \<and> ns_id st = nd_id d \<and> ns_agent st = nd_agent d \<and>
     ns_current_attempt st = length (ns_attempts st) \<and> ns_current_attempt st \<le> max_attempts d \<and>
     history_fine run_id mode d (ns_attempts st) \<and> bounded_strings (ns_last_failures st) \<and>
     (ns_output st \<noteq> None \<longrightarrow> ns_output st = latest_output (ns_attempts st)) \<and>
     (ns_status st = Running \<longleftrightarrow> final_status st = Some Running) \<and>
     (ns_status st = Done \<longrightarrow> final_status st = Some Done \<and> ns_output st \<noteq> None \<and> ns_last_failures st = []) \<and>
     (ns_status st = Failed \<longrightarrow> final_status st = None \<or> final_status st = Some Failed) \<and>
     (ns_status st = Failed \<or> ns_status st = Skipped \<longrightarrow> ns_last_failures st \<noteq> [])"

text \<open>The edges between nodes.\<close>

definition edge_fine :: "run_state \<Rightarrow> node_def \<Rightarrow> bool" where
  "edge_fine run d \<longleftrightarrow>
     (node_status_of run (nd_id d) = Some Done \<longrightarrow> deps_done run d) \<and>
     (node_status_of run (nd_id d) = Some Skipped \<longrightarrow> list_ex (blocked_by run) (nd_depends_on d))"

definition total_attempts :: "run_state \<Rightarrow> nat" where
  "total_attempts run = sum_list (map ns_current_attempt (node_values run))"

text \<open>The whole table.\<close>

definition table_fine :: "run_state \<Rightarrow> bool" where
  "table_fine run \<longleftrightarrow>
     nodes_match run \<and> graph_ok (rs_graph run) \<and>
     (\<forall>d \<in> set (gd_nodes (rs_graph run)). \<forall>st. node_of run (nd_id d) = Some st \<longrightarrow>
        node_fine (rs_run_id run) (rs_mode run) d st) \<and>
     (\<forall>d \<in> set (gd_nodes (rs_graph run)). edge_fine run d) \<and>
     rs_global_attempts run = total_attempts run \<and>
     rs_global_attempts run \<le> gd_max_global_attempts (rs_graph run)"

lemma hydrated_nodeD:
  assumes "hydrated_node st"
  shows "archived_attempts st = 0" "node_commitment_issues sha st = []"
    "latest_output_attempt st = find (\<lambda>a. na_output a \<noteq> None) (rev (ns_attempts st))"
proof -
  show "archived_attempts st = 0" "node_commitment_issues sha st = []"
    using assms by (simp_all add: hydrated_node_def archived_attempts_def node_commitment_issues_def
        commitment_issues_def)
  have "has_output a \<longleftrightarrow> na_output a \<noteq> None" if "a \<in> set (rev (ns_attempts st))" for a
    using assms that by (auto simp: hydrated_node_def list_all_iff is_attempt_detail_def has_output_def)
  then show "latest_output_attempt st = find (\<lambda>a. na_output a \<noteq> None) (rev (ns_attempts st))"
    unfolding latest_output_attempt_def by (rule find_cong [OF refl])
qed

lemma attempt_ok_detail:
  "is_attempt_detail a \<Longrightarrow> attempt_ok sha (attempt_context_of run d (nd_id d) n) a \<longleftrightarrow>
     attempt_fine (rs_run_id run) (rs_mode run) d n a"
  by (simp add: attempt_ok_def attempt_fine_def is_attempt_detail_def commitment_issues_def
      attempt_context_of_def node_context_def)

lemma map_zip_upt:
  "map (\<lambda>(k, a). f k a) (zip [0..<length xs] xs) = map (\<lambda>k. f k (xs ! k)) [0..<length xs]"
  by (rule nth_equalityI) auto

lemma node_history_issues_iff:
  assumes "hydrated_node st"
  shows "node_history_issues sha run d (nd_id d) st = [] \<longleftrightarrow>
    ns_current_attempt st = length (ns_attempts st) \<and> ns_current_attempt st \<le> max_attempts d \<and>
    history_fine (rs_run_id run) (rs_mode run) d (ns_attempts st)"
proof -
  have detail: "is_attempt_detail (ns_attempts st ! k)" if "k < length (ns_attempts st)" for k
    using assms that by (simp add: hydrated_node_def list_all_length)
  have each: "run_attempt_issues sha run d (nd_id d) st k (ns_attempts st ! k) = [] \<longleftrightarrow>
      attempt_fine (rs_run_id run) (rs_mode run) d (Suc k) (ns_attempts st ! k) \<and>
      (na_status (ns_attempts st ! k) = Running \<longrightarrow> Suc k = length (ns_attempts st))"
    if k: "k < length (ns_attempts st)" for k
    using run_attempt_issues_iff [of sha run d "nd_id d" st k "ns_attempts st ! k"]
      attempt_ok_detail [OF detail [OF k], of sha run d "Suc k"] hydrated_nodeD(1) [OF assms] k
    by (cases "length (ns_attempts st)") auto
  have "concat (map (\<lambda>(k, a). run_attempt_issues sha run d (nd_id d) st k a)
      (zip [0..<length (ns_attempts st)] (ns_attempts st))) = [] \<longleftrightarrow>
    (\<forall>k < length (ns_attempts st). run_attempt_issues sha run d (nd_id d) st k (ns_attempts st ! k) = [])"
    unfolding map_zip_upt by auto
  then show ?thesis
    using hydrated_nodeD(1,2) [OF assms] assms each
    by (simp add: node_history_issues_def history_fine_def hydrated_node_def)
qed

definition output_fine :: "jstr \<Rightarrow> node_def \<Rightarrow> node_state \<Rightarrow> bool" where
  "output_fine run_id d st \<longleftrightarrow>
     opt_all (agent_output_valid (nd_agent d)) (ns_output st) \<and>
     (nd_agent d = Implementer \<longrightarrow> artifact_of_run run_id (ns_output st)) \<and>
     (ns_output st \<noteq> None \<longrightarrow> ns_output st = latest_output (ns_attempts st))"

lemma node_output_issues_iff:
  assumes "hydrated_node st"
  shows "node_output_issues run d i st = [] \<longleftrightarrow> output_fine (rs_run_id run) d st"
proof -
  have "ns_output_ref st = None" "ns_last_failures_ref st = None" using assms by (simp_all add: hydrated_node_def)
  moreover have "Option.bind (latest_output_attempt st) na_output = latest_output (ns_attempts st)"
    using hydrated_nodeD(3) [OF assms] by (simp add: latest_output_def)
  ultimately show ?thesis by (auto simp: node_output_issues_def output_fine_def)
qed

lemma latest_output_Some:
  assumes "latest_output as = Some out"
  obtains k where "k < length as" "na_output (as ! k) = Some out"
proof -
  obtain a where a: "find (\<lambda>a. na_output a \<noteq> None) (rev as) = Some a" "na_output a = Some out"
    using assms by (auto simp: latest_output_def bind_eq_Some_conv)
  then have "a \<in> set (rev as)" by (metis find_Some_iff nth_mem)
  then have "a \<in> set as" by simp
  then show thesis using that a(2) by (auto simp: in_set_conv_nth)
qed

text \<open>The output of a node comes from one of its attempts, so its own checks follow from theirs.\<close>

lemma output_fine_iff:
  assumes "history_fine run_id mode d (ns_attempts st)"
  shows "output_fine run_id d st \<longleftrightarrow> (ns_output st \<noteq> None \<longrightarrow> ns_output st = latest_output (ns_attempts st))"
proof (cases "ns_output st")
  case (Some out)
  have "agent_output_valid (nd_agent d) out \<and> (nd_agent d = Implementer \<longrightarrow> artifact_of_run run_id (Some out))"
    if latest: "latest_output (ns_attempts st) = Some out"
  proof -
    obtain k where k: "k < length (ns_attempts st)" "na_output (ns_attempts st ! k) = Some out"
      using latest_output_Some [OF latest] by blast
    then have "attempt_output_issues (node_context run_id mode d (Suc k)) (ns_attempts st ! k) = []"
      using assms by (auto simp: history_fine_def attempt_fine_def attempt_issues_def)
    then show ?thesis using k(2) by (simp add: attempt_output_issues_def node_context_def)
  qed
  then show ?thesis using Some by (auto simp: output_fine_def)
qed (simp add: output_fine_def artifact_of_run_def)

lemma history_fine_status:
  "history_fine run_id mode d as \<Longrightarrow> a \<in> set as \<Longrightarrow> na_status a = Running \<or> na_status a = Done \<or> na_status a = Failed"
  by (auto simp: history_fine_def attempt_fine_def attempt_issues_def attempt_identity_issues_def in_set_conv_nth)

lemma final_status_simps:
  "final_status st = (if ns_attempts st = [] then None else Some (na_status (last (ns_attempts st))))"
  by (simp add: final_status_def final_attempt_def last_opt_def)

lemma node_status_issues_iff:
  assumes "hydrated_node st" "history_fine (rs_run_id run) (rs_mode run) d (ns_attempts st)"
    and "output_fine (rs_run_id run) d st" "node_of run (nd_id d) = Some st"
  shows "node_status_issues run d st = [] \<longleftrightarrow>
     (ns_status st = Running \<longleftrightarrow> final_status st = Some Running) \<and>
     (ns_status st = Done \<longrightarrow> final_status st = Some Done \<and> ns_output st \<noteq> None \<and> ns_last_failures st = []) \<and>
     (ns_status st = Failed \<longrightarrow> final_status st = None \<or> final_status st = Some Failed) \<and>
     (ns_status st = Failed \<or> ns_status st = Skipped \<longrightarrow> ns_last_failures st \<noteq> []) \<and>
     edge_fine run d"
proof -
  have h: "ns_output_ref st = None" "ns_last_failures_omitted st = None"
    using assms(1) by (simp_all add: hydrated_node_def)
  have out: "ns_output st \<noteq> None \<Longrightarrow> ns_output st = latest_output (ns_attempts st)"
    using assms(3) by (simp add: output_fine_def)
  have mismatch: "done_mismatch st \<longleftrightarrow> \<not> (final_status st = Some Done \<and> ns_output st \<noteq> None)"
  proof (cases "ns_attempts st" rule: rev_cases)
    case Nil
    then show ?thesis by (simp add: done_mismatch_def final_status_def final_attempt_def)
  next
    case (snoc as a)
    then have last: "attempt_fine (rs_run_id run) (rs_mode run) d (Suc (length as)) a"
      using assms(2) by (auto simp: history_fine_def dest: spec [of _ "length as"])
    have earned: "na_status a = Done \<Longrightarrow> has_output a \<and> na_output a \<noteq> None"
      using last by (auto simp: attempt_fine_def attempt_issues_def attempt_status_issues_def
          is_attempt_detail_def has_output_def)
    have latest: "na_output a \<noteq> None \<Longrightarrow> latest_output (ns_attempts st) = na_output a"
      by (simp add: snoc latest_output_def)
    show ?thesis using earned latest out h(1) snoc
      by (auto simp: done_mismatch_def final_status_def final_attempt_def)
  qed
  have edges: "edge_fine run d \<longleftrightarrow> (ns_status st = Done \<longrightarrow> deps_done run d) \<and>
      (ns_status st = Skipped \<longrightarrow> list_ex (blocked_by run) (nd_depends_on d))"
    using assms(4) by (simp add: edge_fine_def node_status_of_def)
  have deps: "concat (map (\<lambda>dep. check (node_status_of run dep = Some Done) (m dep)) (nd_depends_on d)) = [] \<longleftrightarrow>
      deps_done run d" for m
    by (simp add: deps_done_def list_all_iff)
  show ?thesis
    unfolding node_status_issues_def edges using mismatch h(2) deps
    by (cases "ns_status st") auto
qed

section \<open>The table\<close>

lemma definitions_of_Some:
  assumes "distinct (map nd_id (gd_nodes g))" "d \<in> set (gd_nodes g)"
  shows "definitions_of g (nd_id d) = Some d"
  unfolding definitions_of_def using assms by (intro map_of_is_SomeI) (auto simp: rev_map [symmetric] o_def)

lemma definitions_of_SomeD: "definitions_of g i = Some d \<Longrightarrow> d \<in> set (gd_nodes g) \<and> nd_id d = i"
  by (auto simp: definitions_of_def dest!: map_of_SomeD)

definition node_core :: "run_state \<Rightarrow> node_def \<Rightarrow> node_state \<Rightarrow> bool" where
  "node_core run d st \<longleftrightarrow>
     ns_id st = nd_id d \<and> ns_agent st = nd_agent d \<and>
     ns_current_attempt st = length (ns_attempts st) \<and> ns_current_attempt st \<le> max_attempts d \<and>
     history_fine (rs_run_id run) (rs_mode run) d (ns_attempts st) \<and>
     (ns_output st \<noteq> None \<longrightarrow> ns_output st = latest_output (ns_attempts st)) \<and>
     (ns_status st = Running \<longleftrightarrow> final_status st = Some Running) \<and>
     (ns_status st = Done \<longrightarrow> final_status st = Some Done \<and> ns_output st \<noteq> None \<and> ns_last_failures st = []) \<and>
     (ns_status st = Failed \<longrightarrow> final_status st = None \<or> final_status st = Some Failed) \<and>
     (ns_status st = Failed \<or> ns_status st = Skipped \<longrightarrow> ns_last_failures st \<noteq> [])"

lemma node_fine_core:
  "node_fine (rs_run_id run) (rs_mode run) d st \<longleftrightarrow>
   hydrated_node st \<and> is_safe_id (nd_id d) \<and> bounded_strings (ns_last_failures st) \<and> node_core run d st"
  by (auto simp: node_fine_def node_core_def)

lemma node_entry_issues_iff:
  assumes "definitions (nd_id d) = Some d" "hydrated_node st" "node_of run (nd_id d) = Some st"
  shows "node_entry_issues sha run definitions (nd_id d, st) = [] \<longleftrightarrow> node_core run d st \<and> edge_fine run d"
proof (cases "ns_id st = nd_id d \<and> ns_agent st = nd_agent d")
  case True
  have split: "node_entry_issues sha run definitions (nd_id d, st) = [] \<longleftrightarrow>
      node_history_issues sha run d (nd_id d) st = [] \<and> node_output_issues run d (nd_id d) st = [] \<and>
      node_status_issues run d st = []"
    using True assms(1) by (simp add: node_entry_issues_def Let_def)
  show ?thesis
  proof (cases "history_fine (rs_run_id run) (rs_mode run) d (ns_attempts st)")
    case hist: True
    show ?thesis
    proof (cases "output_fine (rs_run_id run) d st")
      case out: True
      then show ?thesis unfolding split
        using True node_history_issues_iff [OF assms(2), of sha run d] node_output_issues_iff [OF assms(2), of run d]
          node_status_issues_iff [OF assms(2) hist out assms(3)] output_fine_iff [OF hist] hist
        by (auto simp: node_core_def)
    next
      case False
      then show ?thesis unfolding split
        using node_output_issues_iff [OF assms(2), of run d] output_fine_iff [OF hist] by (auto simp: node_core_def)
    qed
  next
    case False
    then show ?thesis unfolding split
      using node_history_issues_iff [OF assms(2), of sha run d] by (auto simp: node_core_def)
  qed
qed (use assms in \<open>auto simp: node_entry_issues_def node_core_def Let_def\<close>)

lemma hydrated_run_node: "hydrated_run run \<Longrightarrow> node_of run i = Some st \<Longrightarrow> hydrated_node st"
  using node_of_SomeD [of run i st] by (force simp: hydrated_run_def node_values_def list_all_iff)

lemma nodes_match_counts:
  assumes "distinct (map fst (rs_nodes run))" "distinct (map nd_id (gd_nodes (rs_graph run)))"
  shows "nodes_match run \<longleftrightarrow>
    length (rs_nodes run) = length (remdups (map nd_id (gd_nodes (rs_graph run)))) \<and>
    (\<forall>d \<in> set (gd_nodes (rs_graph run)). node_of run (nd_id d) \<noteq> None)"
proof -
  let ?K = "fst ` set (rs_nodes run)" and ?I = "nd_id ` set (gd_nodes (rs_graph run))"
  have card: "card ?K = length (rs_nodes run)" "card ?I = length (gd_nodes (rs_graph run))"
    using distinct_card [OF assms(1)] distinct_card [OF assms(2)] by simp_all
  have len: "length (remdups (map nd_id (gd_nodes (rs_graph run)))) = length (gd_nodes (rs_graph run))"
    using assms(2) by (simp add: distinct_remdups_id)
  have sub: "(\<forall>d \<in> set (gd_nodes (rs_graph run)). node_of run (nd_id d) \<noteq> None) \<longleftrightarrow> ?I \<subseteq> ?K"
    by (auto simp: node_of_def map_of_eq_None_iff image_iff)
  show ?thesis
  proof
    assume "nodes_match run"
    then have "?K = ?I" by (simp add: nodes_match_def)
    then show "length (rs_nodes run) = length (remdups (map nd_id (gd_nodes (rs_graph run)))) \<and>
        (\<forall>d \<in> set (gd_nodes (rs_graph run)). node_of run (nd_id d) \<noteq> None)"
      using card len sub by simp
  next
    assume r: "length (rs_nodes run) = length (remdups (map nd_id (gd_nodes (rs_graph run)))) \<and>
        (\<forall>d \<in> set (gd_nodes (rs_graph run)). node_of run (nd_id d) \<noteq> None)"
    then have "?I = ?K" using card len sub by (intro card_subset_eq) auto
    then show "nodes_match run" using assms(1) by (simp add: nodes_match_def)
  qed
qed

text \<open>The entries of a matching table are exactly the graph's nodes.\<close>

lemma table_entries:
  assumes "nodes_match run" "distinct (map nd_id (gd_nodes (rs_graph run)))"
  shows "(\<forall>e \<in> set (rs_nodes run). P (fst e) (snd e)) \<longleftrightarrow>
    (\<forall>d \<in> set (gd_nodes (rs_graph run)). \<forall>st. node_of run (nd_id d) = Some st \<longrightarrow> P (nd_id d) st)"
proof -
  have "(\<forall>e \<in> set (rs_nodes run). P (fst e) (snd e)) \<longleftrightarrow> (\<forall>i st. node_of run i = Some st \<longrightarrow> P i st)"
    using assms(1) set_alist_map_of [of "rs_nodes run"] by (auto simp: nodes_match_def node_of_def)
  then show ?thesis using nodes_match_def_of [OF assms(1)] by metis
qed

lemma counted_attempts_total:
  assumes "nodes_match run" "distinct (map nd_id (gd_nodes (rs_graph run)))"
    and "\<forall>d \<in> set (gd_nodes (rs_graph run)). \<forall>st. node_of run (nd_id d) = Some st \<longrightarrow> node_core run d st"
  shows "counted_attempts run = total_attempts run"
proof -
  have "(case definitions_of (rs_graph run) (fst e) of None \<Rightarrow> 0
      | Some d \<Rightarrow> if ns_id (snd e) \<noteq> fst e \<or> ns_agent (snd e) \<noteq> nd_agent d then 0 else ns_current_attempt (snd e)) =
      ns_current_attempt (snd e)" if e: "e \<in> set (rs_nodes run)" for e
  proof -
    have lookup: "node_of run (fst e) = Some (snd e)"
      using e assms(1) set_alist_map_of [of "rs_nodes run" "fst e" "snd e"] by (simp add: nodes_match_def node_of_def)
    then obtain d where d: "d \<in> set (gd_nodes (rs_graph run))" "nd_id d = fst e"
      using nodes_match_def_of [OF assms(1)] by metis
    then have "definitions_of (rs_graph run) (fst e) = Some d"
      using definitions_of_Some [OF assms(2) d(1)] by simp
    then show ?thesis using assms(3) d lookup by (auto simp: node_core_def)
  qed
  then show ?thesis
    by (simp add: counted_attempts_def total_attempts_def node_values_def o_def cong: map_cong)
qed

lemma run_table_issues_iff:
  assumes "distinct (map fst (rs_nodes run))" "graph_ok (rs_graph run)" "hydrated_run run"
  shows "run_table_issues sha run = [] \<longleftrightarrow>
    nodes_match run \<and>
    (\<forall>d \<in> set (gd_nodes (rs_graph run)). \<forall>st. node_of run (nd_id d) = Some st \<longrightarrow> node_core run d st) \<and>
    (\<forall>d \<in> set (gd_nodes (rs_graph run)). edge_fine run d) \<and>
    rs_global_attempts run = total_attempts run \<and>
    rs_global_attempts run \<le> gd_max_global_attempts (rs_graph run)"
proof -
  have ids: "distinct (map nd_id (gd_nodes (rs_graph run)))"
    using graph_ok_ordered [OF assms(2)] by (simp add: ordered_graph_def)
  let ?E = "\<forall>e \<in> set (rs_nodes run). node_entry_issues sha run (definitions_of (rs_graph run)) e = []"
  have split: "run_table_issues sha run = [] \<longleftrightarrow> nodes_match run \<and> ?E \<and>
      rs_global_attempts run = counted_attempts run \<and>
      counted_attempts run \<le> gd_max_global_attempts (rs_graph run)"
    unfolding run_table_issues_def nodes_match_counts [OF assms(1) ids] by auto
  show ?thesis
  proof (cases "nodes_match run")
    case True
    have "?E \<longleftrightarrow> (\<forall>d \<in> set (gd_nodes (rs_graph run)). \<forall>st. node_of run (nd_id d) = Some st \<longrightarrow>
        node_entry_issues sha run (definitions_of (rs_graph run)) (nd_id d, st) = [])"
      using table_entries [OF True ids, of "\<lambda>i st. node_entry_issues sha run (definitions_of (rs_graph run)) (i, st) = []"]
      by simp
    also have "\<dots> \<longleftrightarrow> (\<forall>d \<in> set (gd_nodes (rs_graph run)). \<forall>st. node_of run (nd_id d) = Some st \<longrightarrow>
        node_core run d st \<and> edge_fine run d)"
      using node_entry_issues_iff definitions_of_Some [OF ids] hydrated_run_node [OF assms(3)] by blast
    also have "\<dots> \<longleftrightarrow> (\<forall>d \<in> set (gd_nodes (rs_graph run)). \<forall>st. node_of run (nd_id d) = Some st \<longrightarrow> node_core run d st) \<and>
        (\<forall>d \<in> set (gd_nodes (rs_graph run)). edge_fine run d)"
      using nodes_match_Some [OF True] by metis
    finally have E: "?E \<longleftrightarrow> \<dots>" .
    show ?thesis unfolding split E using True counted_attempts_total [OF True ids] by auto
  qed (simp add: split)
qed

section \<open>The invariant of a run in execution form\<close>

text \<open>The fields no node operation touches.\<close>

definition header_shape :: "run_state \<Rightarrow> bool" where
  "header_shape run \<longleftrightarrow>
     is_safe_id (rs_run_id run) \<and> session_id_shape (rs_owner_session_id run) \<and>
     session_id_shape (rs_parent_session_id run) \<and>
     length (rs_owner_transfers run) \<le> 1000 \<and> list_all transfer_shape (rs_owner_transfers run) \<and>
     opt_all project_path_shape (rs_execution_directory run) \<and> project_path_shape (rs_project_directory run) \<and>
     long_text (rs_goal run) \<and> bounded_strings (rs_criteria run) \<and> sized 1 128 (rs_phase run) \<and>
     list_all (\<lambda>e. model_ref_shape (snd e)) (rs_model_snapshot run) \<and>
     opt_all (list_all (\<lambda>e. model_resolution_shape (snd e))) (rs_model_resolution run) \<and>
     opt_all (\<lambda>as. length as \<le> 10000 \<and> list_all root_authorization_shape as)
       (rs_filesystem_root_authorizations run) \<and>
     opt_all (\<lambda>s. length s \<le> 50000) (rs_summary run)"

definition run_fine :: "run_state \<Rightarrow> bool" where
  "run_fine run \<longleftrightarrow>
     header_shape run \<and> hydrated_run run \<and> table_fine run \<and>
     run_status_issues run = [] \<and> run_ownership_issues run = []"

lemma table_fineD:
  assumes "table_fine run"
  shows "nodes_match run" "graph_ok (rs_graph run)" "ordered_graph (rs_graph run)"
    "distinct (map nd_id (gd_nodes (rs_graph run)))"
    "\<And>d st. d \<in> set (gd_nodes (rs_graph run)) \<Longrightarrow> node_of run (nd_id d) = Some st \<Longrightarrow>
       node_fine (rs_run_id run) (rs_mode run) d st"
    "\<And>d. d \<in> set (gd_nodes (rs_graph run)) \<Longrightarrow> edge_fine run d"
    "rs_global_attempts run = total_attempts run"
    "rs_global_attempts run \<le> gd_max_global_attempts (rs_graph run)"
proof -
  show ok: "graph_ok (rs_graph run)" using assms by (simp add: table_fine_def)
  show "ordered_graph (rs_graph run)" by (rule graph_ok_ordered [OF ok])
  then show "distinct (map nd_id (gd_nodes (rs_graph run)))" by (simp add: ordered_graph_def)
qed (use assms in \<open>auto simp: table_fine_def\<close>)

lemma history_shape:
  assumes "history_fine run_id mode d as"
  shows "list_all attempt_shape as"
  using assms by (auto simp: history_fine_def attempt_fine_def list_all_length)

lemma node_fine_shape:
  assumes "node_fine run_id mode d st" "node_shape d"
  shows "node_state_shape st"
proof -
  have "ns_current_attempt st \<le> 100" "length (ns_attempts st) \<le> 100"
    using assms node_shape_attempts [OF assms(2)] by (auto simp: node_fine_def)
  then show ?thesis using assms(1) history_shape [of run_id mode d "ns_attempts st"]
    by (simp add: node_state_shape_def node_fine_def hydrated_node_def)
qed

lemma graph_ok_node_shape: "graph_ok g \<Longrightarrow> d \<in> set (gd_nodes g) \<Longrightarrow> node_shape d"
  by (auto simp: graph_ok_def graph_shape_def list_all_iff)

lemma table_fine_nodes_shape:
  assumes "table_fine run"
  shows "list_all (\<lambda>e. is_safe_id (fst e) \<and> node_state_shape (snd e)) (rs_nodes run)"
proof -
  note T = table_fineD [OF assms]
  have "is_safe_id (fst e) \<and> node_state_shape (snd e)" if e: "e \<in> set (rs_nodes run)" for e
  proof -
    have lookup: "node_of run (fst e) = Some (snd e)"
      using e T(1) set_alist_map_of [of "rs_nodes run" "fst e" "snd e"] by (simp add: nodes_match_def node_of_def)
    then obtain d where d: "d \<in> set (gd_nodes (rs_graph run))" "nd_id d = fst e"
      using nodes_match_def_of [OF T(1)] by metis
    have fine: "node_fine (rs_run_id run) (rs_mode run) d (snd e)" using T(5) [OF d(1)] d(2) lookup by simp
    have "is_safe_id (nd_id d)" using fine unfolding node_fine_def by blast
    then show ?thesis using node_fine_shape [OF fine graph_ok_node_shape [OF T(2) d(1)]] d(2) by simp
  qed
  then show ?thesis unfolding list_all_iff by blast
qed

lemma run_fine_body_shape:
  assumes "run_fine run"
  shows "run_body_shape run"
proof -
  have table: "table_fine run" and hyd: "hydrated_run run" and head: "header_shape run"
    using assms unfolding run_fine_def by blast+
  note T = table_fineD [OF table]
  have g: "graph_shape (rs_graph run)" "graph_issues (rs_graph run) = []" "distinct (map fst (rs_nodes run))"
    using T(1,2) unfolding graph_ok_def nodes_match_def by blast+
  have "rs_global_attempts run \<le> 10000"
    using T(8) g(1) unfolding graph_shape_def by linarith
  moreover have "opt_all root_authorization_ref_shape (rs_filesystem_root_authorizations_ref run)"
    "opt_all (\<lambda>n. n \<le> MAX_SAFE_INTEGER) (rs_filesystem_root_authorizations_omitted run)"
    "opt_all state_projection_shape (rs_state_projection run)"
    using hyd by (simp_all add: hydrated_run_def)
  ultimately show ?thesis
    using head g table_fine_nodes_shape [OF table] unfolding run_body_shape_def header_shape_def by blast
qed

lemma run_fine_issues:
  assumes "run_fine run"
  shows "run_issues sha run = []"
proof -
  have table: "table_fine run" and hyd: "hydrated_run run" using assms by (simp_all add: run_fine_def)
  note T = table_fineD [OF table]
  have "run_table_issues sha run = []"
    using run_table_issues_iff [of run sha] T hyd by (auto simp: nodes_match_def node_fine_core)
  then show ?thesis using assms
    by (simp add: run_issues_def run_fine_def hydrated_run_def run_authorization_issues_def run_projection_issues_def)
qed

lemma accepted_run_fine:
  assumes "run_body_shape run" "run_issues sha run = []" "hydrated_run run"
  shows "run_fine run"
proof -
  have g: "graph_ok (rs_graph run)" "distinct (map fst (rs_nodes run))"
    using assms(1) by (simp_all add: run_body_shape_def graph_ok_def)
  have table: "run_table_issues sha run = []" and rest: "run_status_issues run = []" "run_ownership_issues run = []"
    using assms(2) by (simp_all add: run_issues_def)
  note T = table [unfolded run_table_issues_iff [OF g(2,1) assms(3)]]
  have "node_fine (rs_run_id run) (rs_mode run) d st"
    if d: "d \<in> set (gd_nodes (rs_graph run))" and st: "node_of run (nd_id d) = Some st" for d st
  proof -
    have "node_state_shape st"
      using node_of_SomeD [OF st] assms(1) by (auto simp: run_body_shape_def list_all_iff)
    then show ?thesis
      using T d st hydrated_run_node [OF assms(3) st] graph_ok_node_shape [OF g(1) d]
      by (simp add: node_fine_core node_state_shape_def node_shape_def)
  qed
  then have "table_fine run" using T g(1) by (simp add: table_fine_def)
  then show ?thesis using assms(1,3) rest
    by (simp add: run_fine_def header_shape_def run_body_shape_def)
qed

lemma run_fine_iff:
  "hydrated_run run \<Longrightarrow> run_fine run \<longleftrightarrow> run_body_shape run \<and> run_issues sha run = []"
  using accepted_run_fine run_fine_body_shape run_fine_issues by blast


lemma run_fine_done_closed: "run_fine run \<Longrightarrow> done_closed run"
  by (auto simp: run_fine_def done_closed_def edge_fine_def dest: table_fineD(6))

lemma run_fine_done_outputs:
  assumes "run_fine run"
  shows "done_outputs run"
  unfolding done_outputs_def
proof (intro allI impI, elim conjE)
  fix i st assume st: "node_of run i = Some st" "ns_status st = Done"
  have table: "table_fine run" using assms by (simp add: run_fine_def)
  obtain d where d: "d \<in> set (gd_nodes (rs_graph run))" "nd_id d = i"
    using nodes_match_def_of [OF table_fineD(1) [OF table] st(1)] by blast
  have "node_fine (rs_run_id run) (rs_mode run) d st" using table_fineD(5) [OF table d(1)] d(2) st(1) by simp
  then show "ns_output st \<noteq> None" using st(2) by (simp add: node_fine_def)
qed


section \<open>Concrete runs\<close>

definition example_done_attempt :: node_attempt where
  "example_done_attempt = \<lparr>
     na_attempt = 1, na_status = Done, na_session_id = Some (js ''child''), na_started_at = 5,
     na_finished_at = Some 6, na_output = Some example_explore_output, na_output_ref = None,
     na_detail_ref = None, na_failures = [], na_failures_commitment = None, na_failures_omitted = None,
     na_failure_texts_truncated = None, na_score = None, na_shell_ok = None, na_schema_ok = Some True,
     na_error = None, na_error_bytes_omitted = None, na_feedback_applied = None, na_outcome = Some Passed\<rparr>"

definition example_done_state :: node_state where
  "example_done_state = (initial_node_state (gd_nodes example_graph ! 0))
     \<lparr>ns_status := Done, ns_attempts := [example_done_attempt], ns_current_attempt := 1,
      ns_output := Some example_explore_output\<rparr>"

definition example_done_run :: run_state where
  "example_done_run = (demo_run example_graph
     [(js ''explore'', example_done_state),
      (js ''implement'', initial_node_state (gd_nodes example_graph ! 1)),
      (js ''check'', initial_node_state (gd_nodes example_graph ! 2))])
     \<lparr>rs_status := Run_running, rs_phase := js ''execute'', rs_global_attempts := 1\<rparr>"

lemma example_output_valid: "agent_output_valid Explorer example_explore_output"
proof -
  have "json_bound (output_json example_explore_output) \<le> AGENT_OUTPUT_BYTE_LIMITS Explorer"
    by (simp add: example_explore_output_def j_pair_def)
  then have "enforce_output_bytes Explorer example_explore_output = []"
    using serialized_bytes_bound [of "output_json example_explore_output"]
    by (simp add: enforce_output_bytes_def)
  moreover have "js_trimmed (js ''q'')" "js_trimmed (js ''src'')" "js_trimmed (js ''code'')" by code_simp+
  ultimately show ?thesis
    by (simp add: agent_output_valid_def example_explore_output_def explore_shape_def long_text_def
        exact_string_def short_pair_def short_text_def)
qed

lemma example_attempt_fine:
  "attempt_fine (js ''demo'') Live (gd_nodes example_graph ! 0) (Suc 0) example_done_attempt"
proof -
  have sid: "session_id_shape (js ''child'')" by code_simp
  have "is_attempt_detail example_done_attempt" by (simp add: is_attempt_detail_def example_done_attempt_def)
  moreover have "attempt_shape example_done_attempt"
    using sid by (simp add: attempt_shape_def example_done_attempt_def bounded_strings_def)
  moreover have "attempt_issues (node_context (js ''demo'') Live (gd_nodes example_graph ! 0) (Suc 0))
      example_done_attempt = []"
    using example_output_valid
    by (simp add: attempt_issues_def attempt_identity_issues_def attempt_output_issues_def
        attempt_status_issues_def attempt_outcome_issues_def attempt_checker_issues_def
        attempt_implementer_issues_def attempt_score_issues_def node_context_def example_done_attempt_def
        example_graph_def example_node_def requires_shell_def shell_gated_def node_gate_def has_output_def
        example_ids)
  ultimately show ?thesis by (simp add: attempt_fine_def)
qed

lemma example_graph_ok: "graph_ok example_graph"
  using example_graph_issues example_nodes_shape
  by (simp add: graph_ok_def graph_shape_def) (simp add: example_graph_def example_ids)

lemma initial_node_fine:
  "node_shape d \<Longrightarrow> node_fine run_id mode d (initial_node_state d)"
  by (simp add: node_fine_def initial_node_state_def hydrated_node_def history_fine_def
      bounded_strings_def final_status_simps node_shape_def)

lemma example_done_node_fine:
  "node_fine (js ''demo'') Live (gd_nodes example_graph ! 0) example_done_state"
proof -
  have "is_attempt_detail example_done_attempt" "na_status example_done_attempt = Done"
    "na_output example_done_attempt = Some example_explore_output"
    by (simp_all add: is_attempt_detail_def example_done_attempt_def)
  moreover have "max_attempts (gd_nodes example_graph ! 0) = 3" "is_safe_id (nd_id (gd_nodes example_graph ! 0))"
    by (simp_all add: example_graph_def example_node_def max_attempts_def example_ids)
  ultimately show ?thesis
    using example_attempt_fine
    by (simp add: node_fine_def example_done_state_def initial_node_state_def hydrated_node_def
        history_fine_def bounded_strings_def final_status_simps latest_output_def)
qed

lemma example_texts:
  "session_id_shape (js ''owner'')" "project_path_shape (js ''/srv'')" "js_trimmed (js ''goal'')"
  "js_trimmed (js ''works'')"
  by code_simp+

lemma example_done_lookup:
  "node_of example_done_run (js ''explore'') = Some example_done_state"
  "node_of example_done_run (js ''implement'') = Some (initial_node_state (gd_nodes example_graph ! 1))"
  "node_of example_done_run (js ''check'') = Some (initial_node_state (gd_nodes example_graph ! 2))"
  "rs_graph example_done_run = example_graph"
  by (simp_all add: example_done_run_def demo_run_def node_of_def)

lemma example_node_set:
  "set (gd_nodes example_graph) = {gd_nodes example_graph ! 0, gd_nodes example_graph ! 1, gd_nodes example_graph ! 2}"
  by (simp add: example_graph_def)

lemma example_nodes:
  "nd_id (gd_nodes example_graph ! 0) = js ''explore''" "nd_id (gd_nodes example_graph ! 1) = js ''implement''"
  "nd_id (gd_nodes example_graph ! Suc 0) = js ''implement''" "nd_id (gd_nodes example_graph ! 2) = js ''check''"
  "nd_depends_on (gd_nodes example_graph ! 0) = []"
  by (simp_all add: example_graph_def example_node_def)

lemma example_done_run_fine: "run_fine example_done_run"
proof -
  let ?run = "example_done_run" and ?nodes = "gd_nodes example_graph"
  have ids: "rs_run_id ?run = js ''demo''" "rs_mode ?run = Live"
    by (simp_all add: example_done_run_def demo_run_def)
  have states: "ns_status example_done_state = Done" "ns_current_attempt example_done_state = 1"
    "\<And>d. ns_status (initial_node_state d) = Pending" "\<And>d. ns_current_attempt (initial_node_state d) = 0"
    by (simp_all add: example_done_state_def initial_node_state_def)
  have d: "d = ?nodes ! 0 \<or> d = ?nodes ! 1 \<or> d = ?nodes ! 2" if "d \<in> set ?nodes" for d
    using that unfolding example_node_set by simp
  have keys: "nodes_match ?run"
    unfolding nodes_match_def example_done_lookup(4) example_node_set
    by (simp add: example_nodes) (simp add: example_done_run_def demo_run_def)
  have fine: "node_fine (js ''demo'') Live d st" if "d \<in> set ?nodes" "node_of ?run (nd_id d) = Some st" for d st
    using d [OF that(1)] that(2) example_done_node_fine
      initial_node_fine [OF graph_ok_node_shape [OF example_graph_ok that(1)], of "js ''demo''" Live]
    by (elim disjE) (auto simp: example_nodes example_done_lookup)
  have edge: "edge_fine ?run d" if "d \<in> set ?nodes" for d
    using d [OF that] by (elim disjE)
      (simp_all add: edge_fine_def node_status_of_def example_nodes example_done_lookup states deps_done_def)
  have vals: "node_values ?run = [example_done_state, initial_node_state (?nodes ! 1), initial_node_state (?nodes ! 2)]"
    by (simp add: node_values_def example_done_run_def demo_run_def)
  have counters: "rs_global_attempts ?run = total_attempts ?run" "total_attempts ?run \<le> gd_max_global_attempts example_graph"
    unfolding total_attempts_def vals by (simp_all add: states) (simp_all add: example_done_run_def demo_run_def example_graph_def)
  have table: "table_fine ?run"
    unfolding table_fine_def example_done_lookup(4)
    using keys example_graph_ok fine edge counters ids by simp
  have hyd: "hydrated_run ?run"
    using example_done_node_fine
    by (simp add: hydrated_run_def vals node_fine_def)
      (simp add: example_done_run_def demo_run_def initial_node_state_def hydrated_node_def)
  have "header_shape ?run"
    using example_texts by (simp add: header_shape_def example_done_run_def demo_run_def long_text_def
        exact_string_def bounded_strings_def short_text_def sized_def example_ids)
  moreover have "run_status_issues ?run = []" "run_ownership_issues ?run = []"
    by (simp_all add: run_status_issues_def run_ownership_issues_def example_done_run_def demo_run_def)
  ultimately show ?thesis using table hyd by (simp add: run_fine_def)
qed




theorem repeated_attempt_checks_redundant_witness:
  "run_attempt_issues (\<lambda>s. s) example_done_run (gd_nodes example_graph ! 0) (js ''explore'')
     example_done_state 0 example_done_attempt = []"
proof -
  let ?d = "gd_nodes example_graph ! 0"
  have ids: "rs_run_id example_done_run = js ''demo''" "rs_mode example_done_run = Live"
    by (simp_all add: example_done_run_def demo_run_def)
  have st: "ns_attempts example_done_state = [example_done_attempt]" "archived_attempts example_done_state = 0"
    by (simp_all add: example_done_state_def initial_node_state_def archived_attempts_def)
  have "attempt_ok (\<lambda>s. s) (attempt_context_of example_done_run ?d (nd_id ?d) (Suc 0)) example_done_attempt"
    using attempt_ok_detail [of example_done_attempt "\<lambda>s. s" example_done_run ?d "Suc 0"] example_attempt_fine
    by (simp add: ids attempt_fine_def)
  then obtain x where "parse_persisted_node_attempt (\<lambda>s. s)
      (attempt_context_of example_done_run ?d (js ''explore'') (Suc 0)) example_done_attempt = Inr x"
    using parse_persisted_node_attempt_ok by (metis example_nodes(1))
  then show ?thesis
    using repeated_attempt_checks_redundant [of "\<lambda>s. s" example_done_run ?d "js ''explore''" example_done_state 0
        example_done_attempt]
    by (simp add: st)
qed

end
