(* ===== verification/Live_Progress.thy ===== *)
theory Live_Progress
  imports Run_Invariant
begin

text \<open>
  \<open>src/run-progress.ts\<close>: the bounded snapshot of a run that is published while it executes, and the
  reader that checks it again. Timestamps are numbers; \<open>canonical\<close> says whether the recorded text of one
  is what \<open>toISOString\<close> prints. The snapshot is typed, so the reader's checks of unknown keys and of the
  types of members have no counterpart.
\<close>

definition MAX_LIVE_NODES :: nat where "MAX_LIVE_NODES = 32"

record node_progress =
  rw_id :: jstr
  rw_agent :: alg_agent
  rw_status :: node_status
  rw_attempt :: nat
  rw_retries :: nat
  rw_session :: "jstr option"
  rw_started_at :: "nat option"
  rw_finished_at :: "nat option"

record run_progress_view =
  rp_run_id :: jstr
  rp_owner_session_id :: jstr
  rp_revision :: nat
  rp_status :: run_status
  rp_mode :: run_mode
  rp_created_at :: nat
  rp_updated_at :: nat
  rp_nodes_total :: nat
  rp_nodes_omitted :: nat
  rp_counts :: "node_status \<Rightarrow> nat"
  rp_nodes :: "node_progress list"

definition NODE_STATUSES :: "node_status list" where
  "NODE_STATUSES = [Pending, Ready, Running, Done, Failed, Skipped]"

section \<open>Safe members\<close>

definition unsafe_unit :: "code_unit \<Rightarrow> bool" where
  "unsafe_unit c \<longleftrightarrow> c \<le> 0x1F \<or> (0x7F \<le> c \<and> c \<le> 0x9F)"

definition safe_text :: "nat \<Rightarrow> jstr \<Rightarrow> bool" where
  "safe_text maximum v \<longleftrightarrow> v \<noteq> [] \<and> utf8_bytes v \<le> maximum \<and> list_all (\<lambda>c. \<not> unsafe_unit c) v"

definition safe_name :: "jstr \<Rightarrow> bool" where
  "safe_name v \<longleftrightarrow> safe_text 64 v \<and> safe_id_pattern v"

definition safe_integer :: "nat \<Rightarrow> bool" where "safe_integer n \<longleftrightarrow> n \<le> MAX_SAFE_INTEGER"

fun priority :: "node_status \<Rightarrow> nat" where
  "priority Running = 0"
| "priority Ready = 1"
| "priority Pending = 2"
| "priority _ = 3"

section \<open>The snapshot\<close>

definition shown_status :: "run_state \<Rightarrow> node_def \<Rightarrow> node_status" where
  "shown_status run d =
     (let stored = (case node_status_of run (nd_id d) of None \<Rightarrow> Pending | Some s \<Rightarrow> s)
      in if stored = Pending \<and> list_all (\<lambda>dep. node_status_of run dep = Some Done) (nd_depends_on d) then Ready else stored)"

definition keep_if :: "('a \<Rightarrow> bool) \<Rightarrow> 'a option \<Rightarrow> 'a option" where
  "keep_if P v = (case v of Some x \<Rightarrow> if P x then Some x else None | None \<Rightarrow> None)"

definition progress_row :: "(nat \<Rightarrow> bool) \<Rightarrow> run_state \<Rightarrow> nat \<Rightarrow> node_def \<Rightarrow> node_progress" where
  "progress_row canonical run index d =
     (let source = node_of run (nd_id d);
          attempt = Option.bind source (\<lambda>st. last_opt (ns_attempts st));
          current = (case source of None \<Rightarrow> 0 | Some st \<Rightarrow> if safe_integer (ns_current_attempt st) then ns_current_attempt st else 0)
      in \<lparr>rw_id = (if safe_id_pattern (nd_id d) then nd_id d else js ''node-'' @ dec (index + 1)),
          rw_agent = nd_agent d, rw_status = shown_status run d, rw_attempt = current, rw_retries = current - 1,
          rw_session = keep_if (safe_text 256) (Option.bind attempt na_session_id),
          rw_started_at = keep_if canonical (map_option na_started_at attempt),
          rw_finished_at = keep_if canonical (Option.bind attempt na_finished_at)\<rparr>)"

definition progress_rows :: "(nat \<Rightarrow> bool) \<Rightarrow> run_state \<Rightarrow> node_progress list" where
  "progress_rows canonical run =
     map (\<lambda>(i, d). progress_row canonical run i d) (enumerate 0 (gd_nodes (rs_graph run)))"

text \<open>The reader: \<open>None\<close> is \<open>null\<close>.\<close>

definition progress_row_ok :: "(nat \<Rightarrow> bool) \<Rightarrow> node_progress \<Rightarrow> bool" where
  "progress_row_ok canonical row \<longleftrightarrow>
     safe_name (rw_id row) \<and> safe_integer (rw_attempt row) \<and> safe_integer (rw_retries row) \<and>
     rw_retries row = rw_attempt row - 1 \<and>
     (case rw_session row of None \<Rightarrow> True | Some s \<Rightarrow> safe_text 256 s) \<and>
     (case rw_started_at row of None \<Rightarrow> True | Some t \<Rightarrow> canonical t) \<and>
     (case rw_finished_at row of None \<Rightarrow> True | Some t \<Rightarrow> canonical t)"

definition parse_run_progress :: "(nat \<Rightarrow> bool) \<Rightarrow> run_progress_view \<Rightarrow> jstr \<Rightarrow> run_progress_view option" where
  "parse_run_progress canonical v owner =
     (if rp_owner_session_id v \<noteq> owner then None
      else if \<not> (safe_name (rp_run_id v) \<and> safe_text 256 (rp_owner_session_id v) \<and> safe_integer (rp_revision v) \<and>
          canonical (rp_created_at v) \<and> canonical (rp_updated_at v) \<and> safe_integer (rp_nodes_total v) \<and>
          safe_integer (rp_nodes_omitted v) \<and> length (rp_nodes v) \<le> MAX_LIVE_NODES \<and>
          length (rp_nodes v) + rp_nodes_omitted v = rp_nodes_total v) then None
      else if \<not> list_all (\<lambda>s. safe_integer (rp_counts v s)) NODE_STATUSES \<or>
          sum_list (map (rp_counts v) NODE_STATUSES) \<noteq> rp_nodes_total v then None
      else if \<not> (list_all (progress_row_ok canonical) (rp_nodes v) \<and> distinct (map rw_id (rp_nodes v))) then None
      else Some v)"

definition row_priority :: "node_progress \<Rightarrow> nat" where "row_priority row = priority (rw_status row)"

text \<open>\<open>epoch\<close> is the timestamp of \<open>new Date(0)\<close>.\<close>

definition progress_candidate :: "(nat \<Rightarrow> bool) \<Rightarrow> nat \<Rightarrow> run_state \<Rightarrow> run_progress_view" where
  "progress_candidate canonical epoch run =
     (let rows = progress_rows canonical run;
          chosen = take MAX_LIVE_NODES (sort_key row_priority rows)
      in \<lparr>rp_run_id = (if safe_name (rs_run_id run) then rs_run_id run else js ''unknown''),
          rp_owner_session_id = (if safe_text 256 (rs_owner_session_id run) then rs_owner_session_id run else js ''unknown''),
          rp_revision = (if safe_integer (rs_revision run) then rs_revision run else 0),
          rp_status = rs_status run, rp_mode = rs_mode run,
          rp_created_at = (if canonical (rs_created_at run) then rs_created_at run else epoch),
          rp_updated_at = (if canonical (rs_updated_at run) then rs_updated_at run else epoch),
          rp_nodes_total = length rows, rp_nodes_omitted = length rows - length chosen,
          rp_counts = (\<lambda>s. length (filter (\<lambda>row. rw_status row = s) rows)),
          rp_nodes = chosen\<rparr>)"

definition build_run_progress :: "(nat \<Rightarrow> bool) \<Rightarrow> nat \<Rightarrow> run_state \<Rightarrow> run_progress_view" where
  "build_run_progress canonical epoch run =
     (let candidate = progress_candidate canonical epoch run
      in case parse_run_progress canonical candidate (rp_owner_session_id candidate) of
           Some v \<Rightarrow> v
         | None \<Rightarrow> candidate\<lparr>rp_nodes := [], rp_nodes_omitted := rp_nodes_total candidate\<rparr>)"

section \<open>The snapshot can be read\<close>

lemma counts_total: "sum_list (map (\<lambda>s. length (filter (\<lambda>row. rw_status row = s) rows)) NODE_STATUSES) = length rows"
proof (induction rows)
  case (Cons row rows)
  then show ?case by (cases "rw_status row") (auto simp: NODE_STATUSES_def)
qed (simp add: NODE_STATUSES_def)

lemma safe_pattern_text: "safe_id_pattern v \<Longrightarrow> safe_name v"
proof -
  assume v: "safe_id_pattern v"
  then have units: "list_all id_unit v"
    by (cases v) (auto simp: safe_id_pattern_def id_unit_def)
  have "c < 0x80 \<and> \<not> unsafe_unit c" if "id_unit c" for c
    using that by (auto simp: id_unit_def alpha_num_def upper_alpha_def lower_alpha_def digit_def unsafe_unit_def word_le_nat_alt word_less_nat_alt)
  then have "list_all (\<lambda>c. c < 0x80) v" "list_all (\<lambda>c. \<not> unsafe_unit c) v"
    using units by (auto simp: list_all_iff)
  then show ?thesis using v utf8_bytes_ascii [of v] by (simp add: safe_name_def safe_text_def safe_id_pattern_def)
qed

lemma unknown_is_safe: "safe_name (js ''unknown'')" "safe_text 256 (js ''unknown'')"
  by code_simp+

lemma progress_row_id: "safe_id_pattern (nd_id d) \<Longrightarrow> rw_id (progress_row canonical run i d) = nd_id d"
  by (simp add: progress_row_def Let_def)

lemma progress_row_accepted:
  "safe_id_pattern (nd_id d) \<Longrightarrow> progress_row_ok canonical (progress_row canonical run i d)"
  using safe_pattern_text [of "nd_id d"]
  by (auto simp: progress_row_ok_def progress_row_def Let_def safe_integer_def keep_if_def split: option.splits)

lemma progress_rows_fields:
  assumes "graph_shape (rs_graph run)"
  shows "map rw_id (progress_rows canonical run) = map nd_id (gd_nodes (rs_graph run))"
    "list_all (progress_row_ok canonical) (progress_rows canonical run)"
    "map rw_status (progress_rows canonical run) = map (shown_status run) (gd_nodes (rs_graph run))"
proof -
  have ids: "safe_id_pattern (nd_id d)" if "d \<in> set (gd_nodes (rs_graph run))" for d
    using graph_shape_safe_ids [OF assms] that by (auto simp: list_all_iff is_safe_id_def)
  show "map rw_id (progress_rows canonical run) = map nd_id (gd_nodes (rs_graph run))"
    by (rule nth_equalityI) (simp_all add: progress_rows_def nth_enumerate_eq progress_row_id ids)
  show "map rw_status (progress_rows canonical run) = map (shown_status run) (gd_nodes (rs_graph run))"
    by (rule nth_equalityI) (simp_all add: progress_rows_def nth_enumerate_eq progress_row_def Let_def)
  show "list_all (progress_row_ok canonical) (progress_rows canonical run)"
    by (auto simp: list_all_iff progress_rows_def in_set_enumerate_eq intro!: progress_row_accepted ids)
qed

lemma candidate_readable:
  assumes shape: "graph_shape (rs_graph run)" "distinct (map nd_id (gd_nodes (rs_graph run)))" and epoch: "canonical epoch"
  defines "p \<equiv> progress_candidate canonical epoch run"
  shows "parse_run_progress canonical p (rp_owner_session_id p) = Some p"
proof -
  let ?rows = "progress_rows canonical run"
  let ?shown = "take MAX_LIVE_NODES (sort_key row_priority ?rows)"
  note rows = progress_rows_fields [OF shape(1), of canonical]
  have len: "length ?rows = length (gd_nodes (rs_graph run))" by (simp add: progress_rows_def)
  have n: "n \<le> 64 \<Longrightarrow> safe_integer n" for n by (simp add: safe_integer_def MAX_SAFE_INTEGER_def)
  have small: "length ?rows \<le> 64" using shape(1) len by (simp add: graph_shape_def)
  have "distinct (map rw_id ?rows)" using shape(2) rows(1) by simp
  then have "distinct (map rw_id (sort_key row_priority ?rows))"
    by (simp add: distinct_map)
  then have ids: "distinct (map rw_id ?shown)" by (simp flip: take_map)
  have ok: "list_all (progress_row_ok canonical) ?shown"
    using rows(2) by (auto simp: list_all_iff dest: in_set_takeD)
  have count: "safe_integer (length (filter (\<lambda>row. rw_status row = s) ?rows))" for s
    using small length_filter_le [of "\<lambda>row. rw_status row = s" ?rows] by (intro n) linarith
  show ?thesis
    using ids ok small unknown_is_safe epoch
    by (auto simp: parse_run_progress_def p_def progress_candidate_def Let_def counts_total count n
        safe_integer_def [of 0] list_all_iff)
qed

lemma built_is_candidate:
  assumes "graph_shape (rs_graph run)" "distinct (map nd_id (gd_nodes (rs_graph run)))" "canonical epoch"
  shows "build_run_progress canonical epoch run = progress_candidate canonical epoch run"
  using candidate_readable [of run canonical epoch] assms by (simp add: build_run_progress_def Let_def)

lemma take_sorted_keeps:
  assumes "x \<in> set xs" "x \<notin> set (take n (sort_key f xs))" "y \<in> set (take n (sort_key f xs))"
  shows "f y \<le> f x"
proof -
  let ?s = "sort_key f xs"
  have "x \<in> set (take n ?s) \<union> set (drop n ?s)"
    using assms(1) by (metis append_take_drop_id set_append set_sort)
  then have x: "x \<in> set (drop n ?s)" using assms(2) by blast
  have "sorted (map f (take n ?s @ drop n ?s))" by simp
  then show ?thesis using x assms(3) by (auto simp only: map_append sorted_append) auto
qed



end
