(* ===== verification/Summary.thy ===== *)
theory Summary
  imports Run_Invariant
begin

text \<open>
  \<open>summarize\<close> of \<open>src/executor.ts\<close>: the bounded text every finished execution stores in the run.
  Goal, failures and the whole text are cut at code point boundaries with suffixes that count
  what was left out. The result always fits the 50,000 code units the run schema allows.
\<close>

section \<open>Definitions\<close>

definition MAX_RUN_SUMMARY_CHARS :: nat where "MAX_RUN_SUMMARY_CHARS = 40000"
definition MAX_RUN_SUMMARY_BYTES :: nat where "MAX_RUN_SUMMARY_BYTES = 40000"
definition MAX_SUMMARY_GOAL_SIZE :: nat where "MAX_SUMMARY_GOAL_SIZE = 2000"
definition MAX_SUMMARY_NODES :: nat where "MAX_SUMMARY_NODES = 64"
definition MAX_SUMMARY_FAILURE_ENTRIES :: nat where "MAX_SUMMARY_FAILURE_ENTRIES = 2"
definition MAX_SUMMARY_FAILURE_SIZE :: nat where "MAX_SUMMARY_FAILURE_SIZE = 256"

definition code_point_safe_prefix :: "jstr \<Rightarrow> nat \<Rightarrow> jstr" where
  "code_point_safe_prefix s maximum_characters =
     (let prefix = take maximum_characters s in
      if prefix \<noteq> [] \<and> high_surrogate (last prefix) then butlast prefix else prefix)"

record bounded_text =
  bt_text :: jstr
  bt_truncated :: bool
  bt_omitted_chars :: nat
  bt_omitted_bytes :: nat

definition omission_suffix :: "nat \<Rightarrow> nat \<Rightarrow> jstr" where
  "omission_suffix chars bytes =
     [0x2026] @ js ''['' @ dec chars @ js '' chars/'' @ dec bytes @ js '' UTF-8 bytes omitted]''"

definition bounded_summary_text :: "jstr \<Rightarrow> nat \<Rightarrow> bounded_text" where
  "bounded_summary_text s maximum =
     (let bytes = utf8_bytes s in
      if length s \<le> maximum \<and> bytes \<le> maximum
      then \<lparr>bt_text = s, bt_truncated = False, bt_omitted_chars = 0, bt_omitted_bytes = 0\<rparr>
      else
        let reserve = 96;
            prefix1 = code_point_safe_prefix s (maximum - reserve);
            prefix = code_point_safe_prefix (truncate_utf8 prefix1 (maximum - reserve)) (length prefix1);
            omitted_chars = length s - length prefix;
            omitted_bytes = bytes - utf8_bytes prefix
        in \<lparr>bt_text = prefix @ omission_suffix omitted_chars omitted_bytes, bt_truncated = True,
            bt_omitted_chars = omitted_chars, bt_omitted_bytes = omitted_bytes\<rparr>)"

record bounded_failures =
  bf_values :: "jstr list"
  bf_omitted_entries :: nat
  bf_truncated_texts :: nat

definition bounded_summary_failures :: "jstr list \<Rightarrow> bounded_failures" where
  "bounded_summary_failures failures =
     (if failures = [] then \<lparr>bf_values = [], bf_omitted_entries = 0, bf_truncated_texts = 0\<rparr>
      else
        let actual_count = (if MAX_SUMMARY_FAILURE_ENTRIES < length failures
                            then MAX_SUMMARY_FAILURE_ENTRIES - 1 else length failures);
            selected = map (\<lambda>f. bounded_summary_text f MAX_SUMMARY_FAILURE_SIZE) (take actual_count failures);
            omitted_entries = length failures - length selected;
            texts = map bt_text selected;
            all_texts = (if 0 < omitted_entries then texts @ [omitted_marker omitted_entries] else texts)
        in \<lparr>bf_values = all_texts, bf_omitted_entries = omitted_entries,
            bf_truncated_texts = length (filter bt_truncated selected)\<rparr>)"

definition new_line :: jstr where "new_line = [0x0A]"

definition cap_complete_summary :: "jstr \<Rightarrow> jstr" where
  "cap_complete_summary summary =
     (let bytes = utf8_bytes summary in
      if length summary \<le> MAX_RUN_SUMMARY_CHARS \<and> bytes \<le> MAX_RUN_SUMMARY_BYTES then summary
      else
        let reserve = 192;
            prefix1 = code_point_safe_prefix summary (MAX_RUN_SUMMARY_CHARS - reserve);
            prefix = code_point_safe_prefix (truncate_utf8 prefix1 (MAX_RUN_SUMMARY_BYTES - reserve))
                       (length prefix1);
            omitted_chars = length summary - length prefix;
            omitted_bytes = bytes - utf8_bytes prefix
        in prefix @ new_line @ js ''[truncated] '' @ dec omitted_chars @ js '' summary chars/'' @
           dec omitted_bytes @ js '' UTF-8 bytes omitted'')"

definition counted_suffix :: "string \<Rightarrow> nat \<Rightarrow> jstr" where
  "counted_suffix label n = (if n = 0 then [] else js label @ dec n)"

definition summary_node_line :: "node_state \<Rightarrow> jstr" where
  "summary_node_line st =
     (let b = bounded_summary_failures (ns_last_failures st) in
      js ''  - '' @ ns_id st @ js '' ['' @ agent_name (ns_agent st) @ js ''] '' @
      node_status_name (ns_status st) @ js '' attempts='' @ dec (ns_current_attempt st) @
      (if bf_values b = [] then [] else js '' failures='' @ stringify (j_strs (bf_values b))) @
      counted_suffix '' failure_entries_omitted='' (bf_omitted_entries b) @
      counted_suffix '' failure_texts_truncated='' (bf_truncated_texts b))"

definition mode_name :: "run_mode \<Rightarrow> jstr" where
  "mode_name m = (case m of Live \<Rightarrow> js ''live'' | Dry \<Rightarrow> js ''dry'')"

definition summary_lines :: "run_state \<Rightarrow> jstr list" where
  "summary_lines run =
     (let all_nodes = node_values run;
          nodes = take MAX_SUMMARY_NODES all_nodes
      in [js ''run '' @ rs_run_id run @ [0x20, 0x2014, 0x20] @ run_status_name (rs_status run),
          js ''goal: '' @ bt_text (bounded_summary_text (rs_goal run) MAX_SUMMARY_GOAL_SIZE),
          js ''mode: '' @ mode_name (rs_mode run),
          js ''global attempts: '' @ dec (rs_global_attempts run) @ js ''/'' @
            dec (gd_max_global_attempts (rs_graph run)),
          js ''nodes:''] @
         map summary_node_line nodes @
         (if length nodes < length all_nodes
          then [js ''  - [truncated] '' @ dec (length all_nodes - length nodes) @
                js '' additional nodes omitted'']
          else []))"

definition summarize :: "run_state \<Rightarrow> jstr" where
  "summarize run = cap_complete_summary (js_join new_line (summary_lines run))"

section \<open>Bounds\<close>

lemma code_point_safe_prefix_length: "length (code_point_safe_prefix s n) \<le> n"
  by (auto simp: code_point_safe_prefix_def Let_def)

lemma code_point_safe_prefix_take: "\<exists>k. code_point_safe_prefix s n = take k s"
proof (cases "take n s \<noteq> [] \<and> high_surrogate (last (take n s))")
  case True
  then have "code_point_safe_prefix s n = take (length (take n s) - 1) s"
    by (auto simp: code_point_safe_prefix_def Let_def butlast_conv_take min_def)
  then show ?thesis by blast
next
  case False
  then have "code_point_safe_prefix s n = take n s" by (auto simp: code_point_safe_prefix_def Let_def)
  then show ?thesis by blast
qed

lemma code_point_safe_prefix_bytes: "utf8_bytes (code_point_safe_prefix s n) \<le> utf8_bytes s"
  using code_point_safe_prefix_take [of s n] utf8_bytes_take_le by metis

text \<open>The prefix never ends in the first half of a surrogate pair.\<close>

lemma code_point_safe_prefix_last:
  "list_all (\<lambda>i. high_surrogate (s ! i) \<longrightarrow> \<not> (0 < i \<and> high_surrogate (s ! (i - 1)))) [0..<length s] \<Longrightarrow>
   code_point_safe_prefix s n \<noteq> [] \<Longrightarrow> \<not> high_surrogate (last (code_point_safe_prefix s n))"
proof -
  let ?p = "take n s"
  assume a: "list_all (\<lambda>i. high_surrogate (s ! i) \<longrightarrow> \<not> (0 < i \<and> high_surrogate (s ! (i - 1)))) [0..<length s]"
    and ne: "code_point_safe_prefix s n \<noteq> []"
  show ?thesis
  proof (cases "?p \<noteq> [] \<and> high_surrogate (last ?p)")
    case True
    then have p: "code_point_safe_prefix s n = butlast ?p" by (simp add: code_point_safe_prefix_def Let_def)
    let ?m = "length ?p"
    have m: "2 \<le> ?m" using ne p by (cases ?p; cases "tl ?p") auto
    have inside: "?m - 1 < n" "?m - 2 < n" using m by (auto simp: min_def)
    have "last ?p = ?p ! (?m - 1)" using True by (intro last_conv_nth) blast
    then have last: "last ?p = s ! (?m - 1)" by (simp only: nth_take [OF inside(1)])
    have "last (butlast ?p) = butlast ?p ! (length (butlast ?p) - 1)"
      using ne p by (intro last_conv_nth) simp
    also have "\<dots> = ?p ! (?m - 2)"
      using m by (simp add: nth_butlast numeral_2_eq_2 del: length_take)
    finally have "last (butlast ?p) = s ! (?m - 2)" by (simp only: nth_take [OF inside(2)])
    moreover have "?m - 1 < length s" using m by (auto simp: min_def)
    ultimately show ?thesis using a True last m p
      by (auto simp: list_all_iff numeral_2_eq_2 dest!: bspec [of _ _ "?m - 1"])
  next
    case False
    then have "code_point_safe_prefix s n = ?p" by (auto simp: code_point_safe_prefix_def Let_def)
    then show ?thesis using False ne by auto
  qed
qed

text \<open>
  The reserve of 192 bytes is enough for the suffix as long as the counts have at most eight
  digits: 64 code units of at most three bytes each.
\<close>

lemma cap_complete_summary_bytes:
  assumes "utf8_bytes summary < 10 ^ 8"
  shows "utf8_bytes (cap_complete_summary summary) \<le> MAX_RUN_SUMMARY_BYTES"
proof (cases "length summary \<le> MAX_RUN_SUMMARY_CHARS \<and> utf8_bytes summary \<le> MAX_RUN_SUMMARY_BYTES")
  case True
  then show ?thesis by (simp add: cap_complete_summary_def Let_def)
next
  case False
  let ?p1 = "code_point_safe_prefix summary (MAX_RUN_SUMMARY_CHARS - 192)"
  let ?t = "truncate_utf8 ?p1 (MAX_RUN_SUMMARY_BYTES - 192)"
  let ?p = "code_point_safe_prefix ?t (length ?p1)"
  let ?s = "new_line @ js ''[truncated] '' @ dec (length summary - length ?p) @ js '' summary chars/'' @
      dec (utf8_bytes summary - utf8_bytes ?p) @ js '' UTF-8 bytes omitted''"
  have "utf8_bytes ?p \<le> utf8_bytes ?t" by (rule code_point_safe_prefix_bytes)
  also have "\<dots> \<le> MAX_RUN_SUMMARY_BYTES - 192" by (rule utf8_bytes_truncate_le)
  finally have p: "utf8_bytes ?p \<le> 39808" by (simp add: MAX_RUN_SUMMARY_BYTES_def)
  have len: "length summary < 10 ^ 8" using assms length_le_utf8_bytes [of summary] by linarith
  have d1: "length (dec (length summary - length ?p)) \<le> 8"
    by (rule length_dec_small) (use len in linarith, simp)
  have d2: "length (dec (utf8_bytes summary - utf8_bytes ?p)) \<le> 8"
    by (rule length_dec_small) (use assms in linarith, simp)
  have "length ?s \<le> 64" using d1 d2 by (simp add: new_line_def)
  then have "utf8_bytes ?s \<le> 192" using utf8_bytes_le_3 [of ?s] by linarith
  moreover have "cap_complete_summary summary = ?p @ ?s"
    using False unfolding cap_complete_summary_def Let_def by (simp only: if_False)
  ultimately show ?thesis using p utf8_bytes_append_le [of ?p ?s] by (simp add: MAX_RUN_SUMMARY_BYTES_def)
qed

lemma js_join_length: "length (js_join sep xs) \<le> sum_list (map length xs) + length xs * length sep"
  by (induction sep xs rule: js_join.induct) auto

lemma bounded_summary_text_length: "length (bt_text (bounded_summary_text s n)) \<le> 5 * length s + 60"
proof (cases "length s \<le> n \<and> utf8_bytes s \<le> n")
  case False
  let ?p1 = "code_point_safe_prefix s (n - 96)"
  let ?p = "code_point_safe_prefix (truncate_utf8 ?p1 (n - 96)) (length ?p1)"
  have "length ?p \<le> length ?p1" by (rule code_point_safe_prefix_length)
  moreover have "length ?p1 \<le> length s" using code_point_safe_prefix_take [of s "n - 96"] by auto
  moreover have "length (dec (length s - length ?p)) \<le> Suc (length s)"
    using length_dec_le [of "length s - length ?p"] by linarith
  moreover have "length (dec (utf8_bytes s - utf8_bytes ?p)) \<le> Suc (3 * length s)"
    using length_dec_le [of "utf8_bytes s - utf8_bytes ?p"] utf8_bytes_le_3 [of s] by linarith
  moreover have "bt_text (bounded_summary_text s n) =
      ?p @ omission_suffix (length s - length ?p) (utf8_bytes s - utf8_bytes ?p)"
    using False unfolding bounded_summary_text_def Let_def by (simp only: if_False bounded_text.simps)
  ultimately show ?thesis by (simp add: omission_suffix_def)
qed (simp add: bounded_summary_text_def)

lemma bounded_summary_failures_bounds:
  assumes "bounded_strings fs"
  shows "length (bf_values (bounded_summary_failures fs)) \<le> 2"
    "\<And>v. v \<in> set (bf_values (bounded_summary_failures fs)) \<Longrightarrow> length v \<le> 10060"
    "bf_omitted_entries (bounded_summary_failures fs) \<le> 100"
    "bf_truncated_texts (bounded_summary_failures fs) \<le> 2"
proof -
  note d = bounded_summary_failures_def Let_def MAX_SUMMARY_FAILURE_ENTRIES_def
  show "length (bf_values (bounded_summary_failures fs)) \<le> 2" by (simp add: d)
  show "bf_omitted_entries (bounded_summary_failures fs) \<le> 100"
    using assms by (auto simp: d bounded_strings_def)
  show "bf_truncated_texts (bounded_summary_failures fs) \<le> 2"
    by (auto simp: d intro!: order_trans [OF length_filter_le])
  fix v assume v: "v \<in> set (bf_values (bounded_summary_failures fs))"
  have each: "length (bt_text (bounded_summary_text f n)) \<le> 10060" if "f \<in> set fs" for f n
    using bounded_summary_text_length [of f n] that assms
    by (fastforce simp: bounded_strings_def short_text_def list_all_iff)
  have marker: "length (omitted_marker k) \<le> 10060" if "k \<le> 100" for k
    using that length_dec_le [of k] by (simp add: omitted_marker_def)
  show "length v \<le> 10060"
    using v assms each marker in_set_takeD [of _ _ fs]
    by (fastforce simp: d bounded_strings_def split: if_splits)
qed

lemma summary_node_line_length:
  assumes "length (ns_id st) \<le> 64" "ns_current_attempt st \<le> 100" "bounded_strings (ns_last_failures st)"
  shows "length (summary_node_line st) \<le> 200000"
proof -
  let ?b = "bounded_summary_failures (ns_last_failures st)"
  note b = bounded_summary_failures_bounds [OF assms(3)]
  have "items_bound (map J_str (bf_values ?b)) \<le> length (bf_values ?b) * Suc 60362"
    using b(2) by (intro items_bound_map_le) fastforce
  also have "\<dots> \<le> 2 * Suc 60362" using b(1) by (intro mult_le_mono) auto
  finally have "json_bound (j_strs (bf_values ?b)) \<le> 120728" by (simp add: j_strs_def)
  then have failures: "length (stringify (j_strs (bf_values ?b))) \<le> 120728"
    using stringify_bound(1) [of "j_strs (bf_values ?b)"] length_le_utf8_bytes [of "stringify (j_strs (bf_values ?b))"]
    by linarith
  have counts: "length (counted_suffix l n) \<le> length l + 101" if "n \<le> 100" for l n
    using length_dec_le [of n] that by (simp add: counted_suffix_def)
  have c1: "length (counted_suffix '' failure_entries_omitted='' (bf_omitted_entries ?b)) \<le> 200"
    using counts [OF b(3), of "'' failure_entries_omitted=''"] by simp
  have c2: "length (counted_suffix '' failure_texts_truncated='' (bf_truncated_texts ?b)) \<le> 200"
    using counts [of "bf_truncated_texts ?b" "'' failure_texts_truncated=''"] b(4) by simp
  have attempts: "length (dec (ns_current_attempt st)) \<le> 101"
    using length_dec_le [of "ns_current_attempt st"] assms(2) by linarith
  have names: "length (agent_name (ns_agent st)) \<le> 20" "length (node_status_name (ns_status st)) \<le> 20"
    by (cases "ns_agent st"; simp) (cases "ns_status st"; simp)
  show ?thesis
    using assms(1) failures c1 c2 attempts names by (simp add: summary_node_line_def Let_def)
qed

lemma summarize_bytes_table:
  assumes "length (rs_run_id run) \<le> 64" "length (rs_goal run) \<le> 20000"
    "rs_global_attempts run \<le> 10000" "gd_max_global_attempts (rs_graph run) \<le> 10000"
    "length (rs_nodes run) \<le> 1000"
    "\<And>st. st \<in> set (node_values run) \<Longrightarrow>
       length (ns_id st) \<le> 64 \<and> ns_current_attempt st \<le> 100 \<and> bounded_strings (ns_last_failures st)"
  shows "utf8_bytes (summarize run) \<le> MAX_RUN_SUMMARY_BYTES"
proof -
  have status: "length (run_status_name (rs_status run)) \<le> 20" by (cases "rs_status run"; simp)
  have mode: "length (mode_name (rs_mode run)) \<le> 20" by (cases "rs_mode run"; simp add: mode_name_def)
  have goal: "length (bt_text (bounded_summary_text (rs_goal run) MAX_SUMMARY_GOAL_SIZE)) \<le> 100060"
    using bounded_summary_text_length [of "rs_goal run" MAX_SUMMARY_GOAL_SIZE] assms(2) by linarith
  have counts: "length (dec n) \<le> 10001" if "n \<le> 10000" for n
    using length_dec_le [of n] that by linarith
  have nodes: "length (node_values run) \<le> 1000" using assms(5) by (simp add: node_values_def)
  have line: "length l \<le> 200000" if l: "l \<in> set (summary_lines run)" for l
  proof -
    have "length l \<le> 200000" if "l \<in> set (map summary_node_line (take MAX_SUMMARY_NODES (node_values run)))"
    proof -
      from that obtain st where "st \<in> set (node_values run)" "l = summary_node_line st"
        using in_set_takeD by fastforce
      then show ?thesis using summary_node_line_length assms(6) by blast
    qed
    moreover have "length l \<le> 200000"
      if "l = js ''  - [truncated] '' @ dec (length (node_values run) - length (take MAX_SUMMARY_NODES (node_values run))) @
                js '' additional nodes omitted''"
    proof -
      have "length (dec (length (node_values run) - length (take MAX_SUMMARY_NODES (node_values run)))) \<le> 10001"
        using nodes by (intro counts) linarith
      then show ?thesis unfolding that by simp
    qed
    ultimately show ?thesis
      using l assms(1) status mode goal counts [OF assms(3)] counts [OF assms(4)]
      by (auto simp: summary_lines_def Let_def split: if_splits)
  qed
  have count: "length (summary_lines run) \<le> 70"
    by (auto simp: summary_lines_def Let_def MAX_SUMMARY_NODES_def min_def)
  have "length (js_join new_line (summary_lines run)) \<le>
      sum_list (map length (summary_lines run)) + length (summary_lines run)"
    using js_join_length [of new_line "summary_lines run"] by (simp add: new_line_def)
  also have "sum_list (map length (summary_lines run)) \<le> sum_list (map (\<lambda>l. 200000) (summary_lines run))"
    by (rule sum_list_mono) (rule line)
  finally have "length (js_join new_line (summary_lines run)) \<le> 15000000" using count by (simp add: sum_list_triv)
  then have "utf8_bytes (js_join new_line (summary_lines run)) < 10 ^ 8"
    using utf8_bytes_le_3 [of "js_join new_line (summary_lines run)"] by simp
  then show ?thesis unfolding summarize_def by (rule cap_complete_summary_bytes)
qed

lemma fine_node_of_value:
  assumes "table_fine run" "st \<in> set (node_values run)"
  obtains d where "d \<in> set (gd_nodes (rs_graph run))" "node_of run (nd_id d) = Some st"
    "node_fine (rs_run_id run) (rs_mode run) d st"
proof -
  note T = table_fineD [OF assms(1)]
  obtain i where "(i, st) \<in> set (rs_nodes run)" using assms(2) by (auto simp: node_values_def)
  then have lookup: "node_of run i = Some st"
    using T(1) set_alist_map_of [of "rs_nodes run" i st] by (simp add: node_of_def nodes_match_def)
  then obtain d where d: "d \<in> set (gd_nodes (rs_graph run))" "nd_id d = i"
    using nodes_match_def_of [OF T(1)] by blast
  with lookup have at: "node_of run (nd_id d) = Some st" by simp
  show thesis by (rule that [OF d(1) at T(5) [OF d(1) at]])
qed

lemma fine_node_summary_bounds:
  assumes "table_fine run" "st \<in> set (node_values run)"
  shows "length (ns_id st) \<le> 64 \<and> ns_current_attempt st \<le> 100 \<and> bounded_strings (ns_last_failures st)"
proof -
  obtain d where d: "d \<in> set (gd_nodes (rs_graph run))" "node_fine (rs_run_id run) (rs_mode run) d st"
    using fine_node_of_value [OF assms] by blast
  have "is_safe_id (nd_id d)" "ns_id st = nd_id d" "ns_current_attempt st \<le> max_attempts d"
    "bounded_strings (ns_last_failures st)"
    using d(2) unfolding node_fine_def by blast+
  then show ?thesis
    using is_safe_id_length [of "nd_id d"]
      node_shape_attempts [OF graph_ok_node_shape [OF table_fineD(2) [OF assms(1)] d(1)]] by simp
qed

lemma summarize_bytes_fine:
  assumes "table_fine run" "header_shape run"
  shows "utf8_bytes (summarize run) \<le> MAX_RUN_SUMMARY_BYTES"
proof -
  note table = assms(1) and head = assms(2)
  note T = table_fineD [OF table]
  have graph: "graph_shape (rs_graph run)" using T(2) by (simp add: graph_ok_def)
  have nodes: "length (rs_nodes run) \<le> 1000"
  proof -
    have "card (fst ` set (rs_nodes run)) = length (rs_nodes run)"
      using T(1) distinct_card [of "map fst (rs_nodes run)"] by (simp add: nodes_match_def)
    then have "length (rs_nodes run) = card (nd_id ` set (gd_nodes (rs_graph run)))"
      using T(1) by (simp add: nodes_match_def)
    also have "\<dots> \<le> length (gd_nodes (rs_graph run))"
      using card_image_le [of "set (gd_nodes (rs_graph run))" nd_id] card_length [of "gd_nodes (rs_graph run)"] by simp
    also have "\<dots> \<le> 1000" using graph unfolding graph_shape_def by linarith
    finally show ?thesis .
  qed
  have node: "length (ns_id st) \<le> 64 \<and> ns_current_attempt st \<le> 100 \<and> bounded_strings (ns_last_failures st)"
    if "st \<in> set (node_values run)" for st
    using fine_node_summary_bounds [OF table that] .
  have "is_safe_id (rs_run_id run)" "long_text (rs_goal run)" using head unfolding header_shape_def by blast+
  then have ids: "length (rs_run_id run) \<le> 64" "length (rs_goal run) \<le> 20000"
    using is_safe_id_length by (simp_all add: long_text_def exact_string_def)
  have caps: "gd_max_global_attempts (rs_graph run) \<le> 10000" using graph unfolding graph_shape_def by linarith
  then have "rs_global_attempts run \<le> 10000" using T(8) by linarith
  from summarize_bytes_table [OF ids this caps nodes node] show ?thesis .
qed

lemma summarize_length_fine:
  "table_fine run \<Longrightarrow> header_shape run \<Longrightarrow> length (summarize run) \<le> 40000"
  using summarize_bytes_fine length_le_utf8_bytes [of "summarize run"]
  by (fastforce simp: MAX_RUN_SUMMARY_BYTES_def)

text \<open>
  C10. The summary stored at the end of every execution stays within 40,000 code units and
  40,000 UTF-8 bytes for every run the schema accepts, whatever its goal, its nodes and their
  failure texts, so it always fits the bound of the persisted field.
\<close>

theorem summarize_bounded:
  assumes "hydrated_run run" "parse_run_state_for_projection sha run = Inr run"
  shows "utf8_bytes (summarize run) \<le> MAX_RUN_SUMMARY_BYTES \<and>
    length (summarize run) \<le> MAX_RUN_SUMMARY_CHARS"
proof -
  have "run_body_shape run" "run_issues sha run = []"
    using assms(2) by (auto simp: parse_run_state_for_projection_def split: if_splits)
  then have "run_fine run" using accepted_run_fine assms(1) by blast
  then show ?thesis using summarize_bytes_fine [of run] summarize_length_fine [of run]
    by (simp add: run_fine_def MAX_RUN_SUMMARY_CHARS_def)
qed

theorem summarize_bounded_witness:
  "length (summarize example_done_run) \<le> 40000"
proof -
  have fine: "hydrated_run example_done_run" using example_done_run_fine by (simp add: run_fine_def)
  have "revision_shape example_done_run"
    by (simp add: revision_shape_def MAX_SAFE_INTEGER_def) (simp add: example_done_run_def demo_run_def)
  then have "parse_run_state_for_projection (\<lambda>s. s) example_done_run = Inr example_done_run"
    using run_fine_body_shape [OF example_done_run_fine] run_fine_issues [OF example_done_run_fine]
    by (simp add: parse_run_state_for_projection_def)
  from summarize_bounded [OF fine this] show ?thesis by (simp add: MAX_RUN_SUMMARY_CHARS_def)
qed

end
