(* ===== verification/Compaction.thy ===== *)
theory Compaction
  imports Summary "HOL-Library.Sublist"
begin

text \<open>
  \<open>src/compaction.ts\<close> and \<open>src/owned-context.ts\<close>: the bounded texts that describe a run to the model
  when a conversation is compacted, and the protocol by which the plugin replaces only its own entries
  of the host's context array.
\<close>

section \<open>The summary of a run\<close>

definition MAX_COMPACTION_CONTEXT_BYTES :: nat where "MAX_COMPACTION_CONTEXT_BYTES = 16 * 1024"
definition MAX_COMPACTION_OUTPUT_BYTES :: nat where "MAX_COMPACTION_OUTPUT_BYTES = 32 * 1024"
definition COMPACTION_GOAL_CHARS :: nat where "COMPACTION_GOAL_CHARS = 1000"
definition COMPACTION_CRITERIA_COUNT :: nat where "COMPACTION_CRITERIA_COUNT = 20"
definition COMPACTION_CRITERION_CHARS :: nat where "COMPACTION_CRITERION_CHARS = 300"
definition COMPACTION_NODE_COUNT :: nat where "COMPACTION_NODE_COUNT = 32"
definition COMPACTION_FAILURE_COUNT :: nat where "COMPACTION_FAILURE_COUNT = 3"
definition COMPACTION_FAILURE_CHARS :: nat where "COMPACTION_FAILURE_CHARS = 200"

definition cap_text :: "jstr \<Rightarrow> nat \<Rightarrow> jstr" where
  "cap_text v maximum = (if length v \<le> maximum then v else take (maximum - 1) v @ [0x2026])"

text \<open>
  The run offered to a session: \<open>order\<close> is \<open>localeCompare\<close> on run ids; recorded timestamps compare as
  the numbers they stand for. The language's sort is stable.
\<close>

fun insert_by :: "('a \<Rightarrow> 'a \<Rightarrow> int) \<Rightarrow> 'a \<Rightarrow> 'a list \<Rightarrow> 'a list" where
  "insert_by cmp x [] = [x]"
| "insert_by cmp x (y # ys) = (if cmp x y \<le> 0 then x # y # ys else y # insert_by cmp x ys)"

definition sort_by :: "('a \<Rightarrow> 'a \<Rightarrow> int) \<Rightarrow> 'a list \<Rightarrow> 'a list" where
  "sort_by cmp xs = foldr (insert_by cmp) xs []"

fun incomplete_status :: "run_status \<Rightarrow> bool" where
  "incomplete_status Run_planning = True"
| "incomplete_status Run_running = True"
| "incomplete_status Run_blocked = True"
| "incomplete_status _ = False"

definition compaction_order :: "(jstr \<Rightarrow> jstr \<Rightarrow> int) \<Rightarrow> run_state \<Rightarrow> run_state \<Rightarrow> int" where
  "compaction_order order l r =
     (if rs_updated_at r < rs_updated_at l then - 1 else if rs_updated_at l < rs_updated_at r then 1
      else order (rs_run_id l) (rs_run_id r))"

definition select_compaction_run :: "(jstr \<Rightarrow> jstr \<Rightarrow> int) \<Rightarrow> run_state list \<Rightarrow> jstr \<Rightarrow> run_state option" where
  "select_compaction_run order runs session =
     (case sort_by (compaction_order order)
        (filter (\<lambda>run. rs_owner_session_id run = session \<and> incomplete_status (rs_status run)) runs) of
        [] \<Rightarrow> None
      | run # _ \<Rightarrow> Some run)"

record summary_detail =
  sd_goal_chars :: nat
  sd_criteria :: nat
  sd_criterion_chars :: nat
  sd_nodes :: nat
  sd_failures :: nat
  sd_failure_chars :: nat

definition RUN_SUMMARY_DETAIL :: "summary_detail list" where
  "RUN_SUMMARY_DETAIL =
     [\<lparr>sd_goal_chars = 4000, sd_criteria = 64, sd_criterion_chars = 1000, sd_nodes = 128, sd_failures = 5, sd_failure_chars = 600\<rparr>,
      \<lparr>sd_goal_chars = COMPACTION_GOAL_CHARS, sd_criteria = COMPACTION_CRITERIA_COUNT,
       sd_criterion_chars = COMPACTION_CRITERION_CHARS, sd_nodes = COMPACTION_NODE_COUNT,
       sd_failures = COMPACTION_FAILURE_COUNT, sd_failure_chars = COMPACTION_FAILURE_CHARS\<rparr>,
      \<lparr>sd_goal_chars = 400, sd_criteria = 8, sd_criterion_chars = 160, sd_nodes = 32, sd_failures = 1, sd_failure_chars = 120\<rparr>,
      \<lparr>sd_goal_chars = 160, sd_criteria = 0, sd_criterion_chars = 0, sd_nodes = 12, sd_failures = 0, sd_failure_chars = 0\<rparr>]"

definition bool_text :: "bool \<Rightarrow> jstr" where "bool_text b = (if b then js ''true'' else js ''false'')"

text \<open>One line for a node, with the first failures if there are any.\<close>

definition compaction_node_line :: "nat \<Rightarrow> nat \<Rightarrow> node_state \<Rightarrow> jstr" where
  "compaction_node_line failures failure_chars st =
     (let fs = map (\<lambda>f. cap_text f failure_chars) (take failures (ns_last_failures st))
      in js ''- '' @ ns_id st @ js '' ['' @ agent_name (ns_agent st) @ js ''] '' @ node_status_name (ns_status st) @
         js '' attempts='' @ dec (ns_current_attempt st) @
         (if fs = [] then [] else js '' failures='' @ js_join (js '' | '') fs))"

definition run_id_line :: "run_state \<Rightarrow> jstr" where "run_id_line run = js ''- run_id: '' @ rs_run_id run"

definition status_line :: "run_state \<Rightarrow> jstr" where
  "status_line run = js ''- status: '' @ run_status_name (rs_status run) @ js '' / phase: '' @ cap_text (rs_phase run) 80"

definition path_line :: "run_state \<Rightarrow> jstr" where "path_line run = js ''- path: .opencode/runs/'' @ rs_run_id run @ js ''/''"

definition transcript_note :: jstr where
  "transcript_note = js ''ALG creates fresh child sessions and does not explicitly forward worker transcripts to checkers.''"

definition present_nodes :: "run_state \<Rightarrow> node_def list \<Rightarrow> node_state list" where
  "present_nodes run ds = List.map_filter (\<lambda>d. node_of run (nd_id d)) ds"

text \<open>What every detail begins with: which run, its state, and how to continue it.\<close>

definition summary_head :: "run_state \<Rightarrow> jstr list" where
  "summary_head run =
     [js ''## ALG active run state (bounded durable summary)'', [], run_id_line run, status_line run,
      js ''- continue with alg_resume; alg_status and alg_artifact hold the authoritative details.'']"

definition summary_rest :: "run_state \<Rightarrow> summary_detail \<Rightarrow> jstr list" where
  "summary_rest run detail =
     (let nodes = present_nodes run (gd_nodes (rs_graph run)); criteria = rs_criteria run
      in [path_line run, [], js ''### Nodes''] @
         map (compaction_node_line (sd_failures detail) (sd_failure_chars detail)) (take (sd_nodes detail) nodes) @
         (if sd_nodes detail < length nodes
          then [js ''- ('' @ dec (length nodes - sd_nodes detail) @ js '' more nodes not shown)''] else []) @
         [[], js ''- goal: '' @ cap_text (rs_goal run) (sd_goal_chars detail),
          js ''- criteria_locked: '' @ bool_text (rs_criteria_locked run)] @
         (if criteria = [] then [js ''- criteria: (none)'']
          else if sd_criteria detail = 0 then [js ''- criteria: '' @ dec (length criteria) @ js '' not shown'']
          else js ''- criteria:'' # map (\<lambda>c. js ''  - '' @ cap_text c (sd_criterion_chars detail)) (take (sd_criteria detail) criteria) @
            (if sd_criteria detail < length criteria
             then [js ''  - ('' @ dec (length criteria - sd_criteria detail) @ js '' more not shown)''] else [])) @
         [[], transcript_note])"

definition render_run_summary :: "run_state \<Rightarrow> summary_detail \<Rightarrow> jstr" where
  "render_run_summary run detail = js_join [0x0A] (summary_head run @ summary_rest run detail)"

definition summary_suffix :: jstr where
  "summary_suffix = 0x0A # js ''[ALG compaction summary truncated]''"

text \<open>Without an allowance the fixed summary; with one the most detailed that fits.\<close>

definition fixed_run_summary :: "run_state \<Rightarrow> jstr" where
  "fixed_run_summary run =
     js_join [0x0A]
       ([js ''## ALG active run state (bounded durable summary)'', [], transcript_note,
         js ''OpenCode SDK project/system context and filesystem/tool access still apply.'', [],
         run_id_line run, status_line run, js ''- goal: '' @ cap_text (rs_goal run) COMPACTION_GOAL_CHARS,
         js ''- criteria_locked: '' @ bool_text (rs_criteria_locked run), js ''- criteria:''] @
        (if rs_criteria run = [] then [js ''  (none)'']
         else map (\<lambda>c. js ''  - '' @ cap_text c COMPACTION_CRITERION_CHARS) (take COMPACTION_CRITERIA_COUNT (rs_criteria run))) @
        [path_line run, [], js ''### Nodes''] @
        map (compaction_node_line COMPACTION_FAILURE_COUNT COMPACTION_FAILURE_CHARS)
          (present_nodes run (take COMPACTION_NODE_COUNT (gd_nodes (rs_graph run)))) @
        [[], js ''Use alg_status / alg_resume / alg_artifact for authoritative details.''])"

definition cut_summary :: "jstr \<Rightarrow> nat \<Rightarrow> jstr" where
  "cut_summary s limit = truncate_utf8 s (limit - utf8_bytes summary_suffix) @ summary_suffix"

definition format_compaction_context :: "run_state \<Rightarrow> nat option \<Rightarrow> jstr" where
  "format_compaction_context run maximum_bytes =
     (case maximum_bytes of
        Some limit \<Rightarrow>
          if limit < 256 then []
          else (case find (\<lambda>d. utf8_bytes (render_run_summary run d) \<le> limit) RUN_SUMMARY_DETAIL of
              Some d \<Rightarrow> render_run_summary run d
            | None \<Rightarrow> cut_summary (render_run_summary run (last RUN_SUMMARY_DETAIL)) limit)
      | None \<Rightarrow>
          (let context = fixed_run_summary run
           in if utf8_bytes context \<le> MAX_COMPACTION_CONTEXT_BYTES then context
              else cut_summary context MAX_COMPACTION_CONTEXT_BYTES))"

definition format_run_pointer :: "run_state \<Rightarrow> jstr" where
  "format_run_pointer run =
     js ''ALG unfinished run '' @ rs_run_id run @
     js ''. Use alg_status, then alg_resume to continue; revalidate permissions and required procedures.''"

definition STALE_RUN_AGE_MS :: nat where "STALE_RUN_AGE_MS = 7 * 24 * 60 * 60 * 1000"

definition is_stale_run :: "run_state \<Rightarrow> nat \<Rightarrow> bool" where
  "is_stale_run run now \<longleftrightarrow> STALE_RUN_AGE_MS < now - rs_updated_at run"

text \<open>\<open>day\<close> is the day of a recorded timestamp, \<open>updated_at.slice(0, 10)\<close>.\<close>

definition format_stale_run_notice :: "(nat \<Rightarrow> jstr) \<Rightarrow> run_state \<Rightarrow> jstr" where
  "format_stale_run_notice day run =
     js_join [0x0A]
       [js ''## ALG unfinished run (not updated recently)'', [], run_id_line run,
        js ''- status: '' @ run_status_name (rs_status run) @ js ''; last updated '' @ day (rs_updated_at run),
        js ''- Continue it with alg_resume, or end it with alg_resume close=true if it will not be continued.'']"

section \<open>The summary of the skill evolution\<close>

record skill_compaction =
  kc_pending_keys :: "jstr list"
  kc_running_keys :: "jstr list"
  kc_candidate_count :: nat
  kc_restart_required :: bool
  kc_captured_count :: "nat option"
  kc_missing_count :: "nat option"
  kc_missing_keys :: "jstr list option"
  kc_checkpoint :: "jstr option"

definition format_key_list :: "jstr list \<Rightarrow> jstr" where
  "format_key_list keys =
     (if keys = [] then js ''(none)''
      else let visible = take 16 keys; omitted = length keys - length visible
        in if 0 < omitted then js_join (js '', '') visible @ js '' (+'' @ dec omitted @ js '')'' else js_join (js '', '') visible)"

definition count_or_unknown :: "nat option \<Rightarrow> jstr" where
  "count_or_unknown n = (case n of Some k \<Rightarrow> dec k | None \<Rightarrow> js ''unknown'')"

definition skill_summary_suffix :: jstr where
  "skill_summary_suffix = 0x0A # js ''[ALG skill-evolution compaction summary truncated]''"

definition skill_summary :: "skill_compaction \<Rightarrow> jstr" where
  "skill_summary i =
     js_join [0x0A]
       ([js ''## ALG skill-evolution state (bounded)'', [],
         js ''Live intake ignores summary:true recaps. Post-compact summaries are historical-only.'',
         js ''Capture is best-effort, not a host compaction barrier or a full conversation backup.'',
         js ''- evidence coverage: captured='' @ count_or_unknown (kc_captured_count i) @ js '' missing='' @ count_or_unknown (kc_missing_count i),
         js ''- missing evidence keys (including terminal rows): '' @
           format_key_list (case kc_missing_keys i of Some ks \<Rightarrow> ks | None \<Rightarrow> [])] @
        (case kc_missing_count i of
           Some n \<Rightarrow> if n \<noteq> 0 then [js ''- DEGRADED: evidence missing; never substitute the compaction summary for the original turn.''] else []
         | None \<Rightarrow> []) @
        (case kc_checkpoint i of Some c \<Rightarrow> if c \<noteq> [] then [js ''- checkpoint: '' @ c] else [] | None \<Rightarrow> []) @
        [[], js ''- path: .opencode/skill-evolution/'', js ''- restart_required: '' @ bool_text (kc_restart_required i),
         js ''- candidates: '' @ dec (kc_candidate_count i), js ''- session pending keys: '' @ format_key_list (kc_pending_keys i),
         js ''- session running keys: '' @ format_key_list (kc_running_keys i), [],
         js ''Use alg_skill_evolution_status / alg_skill_evolution_audit for authoritative details.''])"

definition format_skill_evolution_compaction_context :: "skill_compaction \<Rightarrow> jstr" where
  "format_skill_evolution_compaction_context i =
     (let context = skill_summary i
      in if utf8_bytes context \<le> MAX_COMPACTION_CONTEXT_BYTES then context
         else truncate_utf8 context (MAX_COMPACTION_CONTEXT_BYTES - utf8_bytes skill_summary_suffix) @ skill_summary_suffix)"

section \<open>The plugin's share of the output\<close>

definition context_suffix :: jstr where "context_suffix = 0x0A # js ''[ALG compaction context truncated]''"

definition cap_compaction_output_context :: "jstr list \<Rightarrow> nat \<Rightarrow> jstr list" where
  "cap_compaction_output_context context limit =
     (let joined = js_join [0x0A] context
      in if utf8_bytes joined \<le> limit then context
         else if limit < utf8_bytes context_suffix then []
         else [truncate_utf8 joined (limit - utf8_bytes context_suffix) @ context_suffix])"

definition append_alg_compaction_context :: "jstr list \<Rightarrow> jstr list \<Rightarrow> nat \<Rightarrow> jstr list" where
  "append_alg_compaction_context shared owned limit = shared @ cap_compaction_output_context owned limit"

section \<open>The plugin's entries of the host's array\<close>

record owned_slots =
  os_snapshot :: "jstr list"
  os_start :: nat
  os_count :: nat

datatype context_conflict = Slots_changed | Foreign_changed

definition has_prefix :: "'a list \<Rightarrow> 'a list \<Rightarrow> bool" where
  "has_prefix v start \<longleftrightarrow> take (length start) v = start"

text \<open>\<open>base.splice(start, count)\<close>\<close>

definition without_owned :: "owned_slots option \<Rightarrow> jstr list \<Rightarrow> jstr list" where
  "without_owned prior target =
     (case prior of None \<Rightarrow> target | Some p \<Rightarrow> take (os_start p) target @ drop (os_start p + os_count p) target)"

text \<open>
  One delivery: \<open>target\<close> is the array when it starts, \<open>render\<close> what the plugin makes of its copy, and
  \<open>later\<close> the array when the rendering has finished.
\<close>

definition replace_owned ::
  "owned_slots option \<Rightarrow> jstr list \<Rightarrow> (jstr list \<Rightarrow> jstr list) \<Rightarrow> jstr list \<Rightarrow>
   context_conflict + jstr list \<times> owned_slots option" where
  "replace_owned prior target render later =
     (if (case prior of None \<Rightarrow> False | Some p \<Rightarrow> \<not> has_prefix target (os_snapshot p)) then Inl Slots_changed
      else let base = without_owned prior target; working = render base
        in if \<not> has_prefix working base \<or> \<not> has_prefix later target then Inl Foreign_changed
           else let appended = drop (length target) later; owned = drop (length base) working;
                    final = base @ appended @ owned
             in Inr (final, if owned = [] then None
                  else Some \<lparr>os_snapshot = final, os_start = length base + length appended, os_count = length owned\<rparr>))"

section \<open>Bounds\<close>

lemma cut_summary_bytes: "utf8_bytes summary_suffix \<le> limit \<Longrightarrow> utf8_bytes (cut_summary s limit) \<le> limit"
  using utf8_bytes_append_le [of "truncate_utf8 s (limit - utf8_bytes summary_suffix)" summary_suffix]
    utf8_bytes_truncate_le [of s "limit - utf8_bytes summary_suffix"]
  by (simp add: cut_summary_def)

lemma suffix_bytes: "utf8_bytes summary_suffix = 35" "utf8_bytes context_suffix = 35"
  by code_simp+

lemma compaction_context_bounded:
  "utf8_bytes (format_compaction_context run maximum) \<le> (case maximum of Some n \<Rightarrow> n | None \<Rightarrow> MAX_COMPACTION_CONTEXT_BYTES)"
proof (cases maximum)
  case None
  then show ?thesis
    using cut_summary_bytes [of MAX_COMPACTION_CONTEXT_BYTES] suffix_bytes
    by (simp add: format_compaction_context_def Let_def MAX_COMPACTION_CONTEXT_BYTES_def)
next
  case (Some n)
  then show ?thesis
    using cut_summary_bytes [of n] suffix_bytes
    by (auto simp: format_compaction_context_def find_Some_iff split: option.splits)
qed

lemma output_context_bounded: "utf8_bytes (js_join [0x0A] (cap_compaction_output_context owned limit)) \<le> limit"
  using utf8_bytes_append_le [of "truncate_utf8 (js_join [0x0A] owned) (limit - utf8_bytes context_suffix)" context_suffix]
    utf8_bytes_truncate_le [of "js_join [0x0A] owned" "limit - utf8_bytes context_suffix"]
  by (auto simp: cap_compaction_output_context_def Let_def)

section \<open>Foreign entries survive\<close>

text \<open>Whatever the plugin renders and whatever others append meanwhile, the entries of others stay, in order.\<close>

lemma replace_owned_foreign:
  assumes "replace_owned prior target render later = Inr (final, slots)"
  shows "without_owned slots final = without_owned prior target @ drop (length target) later"
    "final = without_owned slots final @ drop (length (without_owned prior target)) (render (without_owned prior target))"
proof -
  define base where "base = without_owned prior target"
  define appended where "appended = drop (length target) later"
  define owned where "owned = drop (length base) (render base)"
  have final: "final = base @ appended @ owned"
    "slots = (if owned = [] then None
       else Some \<lparr>os_snapshot = final, os_start = length base + length appended, os_count = length owned\<rparr>)"
    using assms by (auto simp: replace_owned_def Let_def base_def appended_def owned_def split: if_splits)
  then have "without_owned slots final = base @ appended" by (simp add: without_owned_def)
  then show "without_owned slots final = without_owned prior target @ drop (length target) later"
    "final = without_owned slots final @ drop (length (without_owned prior target)) (render (without_owned prior target))"
    using final(1) by (simp_all add: base_def appended_def owned_def)
qed

text \<open>A second delivery with nothing in between replaces exactly what the first one delivered.\<close>

lemma replace_owned_again:
  assumes "replace_owned prior target render later = Inr (final, slots)"
    and "replace_owned slots final render' final = Inr (final', slots')"
  shows "without_owned slots' final' = without_owned slots final"
  using replace_owned_foreign(1) [OF assms(2)] by simp

section \<open>The run that is offered\<close>

lemma set_insert_by: "set (insert_by cmp x ys) = insert x (set ys)"
  by (induction ys) auto

lemma set_sort_by: "set (sort_by cmp xs) = set xs"
  by (induction xs) (auto simp: sort_by_def set_insert_by)

text \<open>A key that the comparison never contradicts is sorted, whatever the comparison does with ties.\<close>

lemma sorted_insert_by:
  assumes "\<And>x y. cmp x y \<le> 0 \<Longrightarrow> key x \<le> key y" "\<And>x y. 0 < cmp x y \<Longrightarrow> key y \<le> (key x :: 'b :: linorder)"
    and "sorted (map key ys)"
  shows "sorted (map key (insert_by cmp x ys))"
  using assms(3)
proof (induction ys)
  case (Cons y ys)
  then show ?case using assms(1) [of x y] assms(2) [of x y] by (force simp: set_insert_by)
qed simp

lemma sorted_sort_by:
  assumes "\<And>x y. cmp x y \<le> 0 \<Longrightarrow> key x \<le> key y" "\<And>x y. 0 < cmp x y \<Longrightarrow> key y \<le> (key x :: 'b :: linorder)"
  shows "sorted (map key (sort_by cmp xs))"
proof (induction xs)
  case (Cons x xs)
  then show ?case using sorted_insert_by [of cmp key "sort_by cmp xs" x] assms by (simp add: sort_by_def)
qed (simp add: sort_by_def)

lemma select_compaction_run_latest:
  "case select_compaction_run order runs session of
     None \<Rightarrow> \<not> (\<exists>run \<in> set runs. rs_owner_session_id run = session \<and> incomplete_status (rs_status run))
   | Some run \<Rightarrow> run \<in> set runs \<and> rs_owner_session_id run = session \<and> incomplete_status (rs_status run) \<and>
       (\<forall>other \<in> set runs. rs_owner_session_id other = session \<and> incomplete_status (rs_status other) \<longrightarrow>
          rs_updated_at other \<le> rs_updated_at run)"
proof -
  let ?offered = "filter (\<lambda>run. rs_owner_session_id run = session \<and> incomplete_status (rs_status run)) runs"
  define sorted_runs where "sorted_runs = sort_by (compaction_order order) ?offered"
  have members: "set sorted_runs = set ?offered" by (simp add: sorted_runs_def set_sort_by)
  have "sorted (map (\<lambda>run. - int (rs_updated_at run)) sorted_runs)"
    unfolding sorted_runs_def by (rule sorted_sort_by) (auto simp: compaction_order_def split: if_splits)
  then have first: "rs_updated_at other \<le> rs_updated_at run"
    if "sorted_runs = run # rest" "other \<in> set sorted_runs" for run rest other
    using that by auto
  show ?thesis
  proof (cases sorted_runs)
    case Nil
    then have "\<not> (\<exists>run \<in> set runs. rs_owner_session_id run = session \<and> incomplete_status (rs_status run))"
      using members by (auto simp: filter_empty_conv)
    moreover have "select_compaction_run order runs session = None"
      using Nil by (simp add: select_compaction_run_def flip: sorted_runs_def)
    ultimately show ?thesis by simp
  next
    case (Cons run rest)
    then have chosen: "select_compaction_run order runs session = Some run"
      by (simp add: select_compaction_run_def flip: sorted_runs_def)
    have "run \<in> set ?offered" using members Cons by (metis list.set_intros(1))
    moreover have "rs_updated_at other \<le> rs_updated_at run" if "other \<in> set ?offered" for other
      using first [OF Cons] members that by blast
    ultimately show ?thesis using chosen by auto
  qed
qed

section \<open>The run is always named\<close>

lemma truncate_keeps_prefix:
  assumes "utf8_bytes s \<le> limit" shows "\<exists>t. truncate_utf8 (s @ r) limit = s @ t"
proof -
  obtain k where k: "truncate_utf8 (s @ r) limit = take k (s @ r)" "k \<le> length (s @ r)"
    "k < length (s @ r) \<longrightarrow> limit < utf8_bytes (take (Suc k) (s @ r))"
    by (rule truncate_utf8_take)
  have "length s \<le> k"
  proof (rule ccontr)
    assume "\<not> length s \<le> k"
    then have "limit < utf8_bytes (take (Suc k) (s @ r))" "take (Suc k) (s @ r) = take (Suc k) s" using k(2,3) by auto
    then show False using assms utf8_bytes_take_mono [of "Suc k" "length s" s] \<open>\<not> length s \<le> k\<close> by simp
  qed
  then show ?thesis using k(1) by simp
qed

lemma js_join_append: "xs \<noteq> [] \<Longrightarrow> ys \<noteq> [] \<Longrightarrow> js_join sep (xs @ ys) = js_join sep xs @ sep @ js_join sep ys"
proof (induction sep xs rule: js_join.induct)
  case (2 sep x)
  then show ?case by (cases ys) simp_all
qed simp_all

lemma render_opening: "\<exists>t. render_run_summary run d = js_join [0x0A] (summary_head run) @ t"
  by (simp add: render_run_summary_def js_join_append summary_head_def summary_rest_def Let_def)

lemma utf8_bytes_append_bound: "utf8_bytes s \<le> a \<Longrightarrow> utf8_bytes t \<le> b \<Longrightarrow> utf8_bytes (s @ t) \<le> a + b"
  using utf8_bytes_append_le [of s t] by linarith

lemma cap_text_length: "0 < n \<Longrightarrow> length (cap_text v n) \<le> n"
  by (auto simp: cap_text_def)

lemma safe_id_bytes: "safe_id_pattern v \<Longrightarrow> utf8_bytes v \<le> 64"
proof -
  assume v: "safe_id_pattern v"
  then have units: "list_all id_unit v" by (cases v) (auto simp: safe_id_pattern_def id_unit_def)
  have "c < 0x80" if "id_unit c" for c
    using that by (auto simp: id_unit_def alpha_num_def upper_alpha_def lower_alpha_def digit_def word_le_nat_alt word_less_nat_alt)
  then have "list_all (\<lambda>c. c < 0x80) v" using units by (auto simp: list_all_iff)
  then show ?thesis using v utf8_bytes_ascii [of v] by (simp add: safe_id_pattern_def)
qed

lemma run_status_bytes: "utf8_bytes (run_status_name s) \<le> 8"
proof -
  have "utf8_bytes (run_status_name Run_planning) \<le> 8" "utf8_bytes (run_status_name Run_running) \<le> 8"
    "utf8_bytes (run_status_name Run_done) \<le> 8" "utf8_bytes (run_status_name Run_failed) \<le> 8"
    "utf8_bytes (run_status_name Run_blocked) \<le> 8" by code_simp+
  then show ?thesis by (cases s) (simp_all only:)
qed

lemma summary_opening_bytes:
  assumes "safe_id_pattern (rs_run_id run)"
  shows "utf8_bytes (js_join [0x0A] (summary_head run)) \<le> 488"
proof -
  have sizes: "utf8_bytes (js ''## ALG active run state (bounded durable summary)'' @ [0x0A, 0x0A]) = 51" "utf8_bytes (js ''- run_id: '') = 10"
    "utf8_bytes (js ''- status: '') = 10" "utf8_bytes (js '' / phase: '') = 10"
    "utf8_bytes (0x0A # js ''- continue with alg_resume; alg_status and alg_artifact hold the authoritative details.'') = 88"
    by code_simp+
  have "utf8_bytes (run_id_line run) \<le> 74"
    using utf8_bytes_append_le [of "js ''- run_id: ''" "rs_run_id run"] safe_id_bytes [OF assms] sizes by (simp add: run_id_line_def)
  moreover have "utf8_bytes (cap_text (rs_phase run) 80) \<le> 240"
    using utf8_bytes_le_3 [of "cap_text (rs_phase run) 80"] cap_text_length [of 80 "rs_phase run"] by simp
  then have "utf8_bytes (status_line run) \<le> 10 + (8 + (10 + 240))"
    unfolding status_line_def by (intro utf8_bytes_append_bound) (use sizes run_status_bytes in simp_all)
  moreover have "utf8_bytes [0x0A] = 1" by code_simp
  ultimately have "utf8_bytes ((js ''## ALG active run state (bounded durable summary)'' @ [0x0A, 0x0A]) @ run_id_line run @ [0x0A] @ status_line run @
      0x0A # js ''- continue with alg_resume; alg_status and alg_artifact hold the authoritative details.'') \<le> 51 + (74 + (1 + (268 + 88)))"
    using sizes by (intro utf8_bytes_append_bound) simp_all
  then show ?thesis by (simp add: summary_head_def)
qed

text \<open>
  C27. The summary of a run that a compacted conversation keeps never exceeds its allowance, and with an
  allowance of 523 bytes it always opens with the run's id, its state and how to continue it, whichever
  detail was chosen and wherever it was cut; below 256 bytes it is empty.
\<close>

theorem compaction_summary_identifies_run:
  assumes "run_body_shape run"
  shows "utf8_bytes (format_compaction_context run (Some n)) \<le> n \<and>
    (n < 256 \<longrightarrow> format_compaction_context run (Some n) = []) \<and>
    (523 \<le> n \<longrightarrow> prefix (js_join [0x0A] (summary_head run)) (format_compaction_context run (Some n)))"
proof -
  have start_bytes: "utf8_bytes (js_join [0x0A] (summary_head run)) \<le> 488"
    using assms by (intro summary_opening_bytes) (simp add: run_body_shape_def is_safe_id_def)
  have "prefix (js_join [0x0A] (summary_head run)) (format_compaction_context run (Some n))" if n: "523 \<le> n"
  proof (cases "find (\<lambda>d. utf8_bytes (render_run_summary run d) \<le> n) RUN_SUMMARY_DETAIL")
    case (Some d)
    then show ?thesis using n render_opening [of run d] by (auto simp: format_compaction_context_def prefix_def)
  next
    case None
    obtain t where "render_run_summary run (last RUN_SUMMARY_DETAIL) = js_join [0x0A] (summary_head run) @ t"
      using render_opening by blast
    moreover have "\<exists>u. truncate_utf8 (js_join [0x0A] (summary_head run) @ t) (n - 35) = js_join [0x0A] (summary_head run) @ u"
      using n start_bytes by (intro truncate_keeps_prefix) simp
    ultimately show ?thesis
      using None n suffix_bytes by (auto simp: format_compaction_context_def cut_summary_def prefix_def)
  qed
  then show ?thesis
    using compaction_context_bounded [of run "Some n"] by (simp add: format_compaction_context_def)
qed

lemma compaction_summary_identifies_run_witness:
  "utf8_bytes (format_compaction_context example_done_run (Some 600)) \<le> 600 \<and>
   prefix (js_join [0x0A] (summary_head example_done_run)) (format_compaction_context example_done_run (Some 600))"
  using compaction_summary_identifies_run [OF run_fine_body_shape [OF example_done_run_fine], of 600] by simp

end
