(* ===== verification/Results.thy ===== *)
theory Results
  imports Main
begin

text \<open>
  Computations that may throw: \<open>Inl\<close> is the error, \<open>Inr\<close> the value. Sequencing, guards and the
  iteration of a throwing function over a list, with the lemmas that turn a run that succeeded
  into the facts about its steps.
\<close>

definition sbind :: "'e + 'a \<Rightarrow> ('a \<Rightarrow> 'e + 'b) \<Rightarrow> 'e + 'b" where
  "sbind r f = (case r of Inl e \<Rightarrow> Inl e | Inr x \<Rightarrow> f x)"

definition guard :: "bool \<Rightarrow> 'e \<Rightarrow> 'e + 'a \<Rightarrow> 'e + 'a" where
  "guard b e r = (if b then r else Inl e)"

fun smap :: "('a \<Rightarrow> 'e + 'b) \<Rightarrow> 'a list \<Rightarrow> 'e + 'b list" where
  "smap f [] = Inr []"
| "smap f (x # xs) = sbind (f x) (\<lambda>y. sbind (smap f xs) (\<lambda>ys. Inr (y # ys)))"

fun sfold :: "('a \<Rightarrow> 's \<Rightarrow> 'e + 's) \<Rightarrow> 'a list \<Rightarrow> 's \<Rightarrow> 'e + 's" where
  "sfold f [] s = Inr s"
| "sfold f (x # xs) s = sbind (f x s) (sfold f xs)"

lemma sbind_simps [simp]: "sbind (Inl e) f = Inl e" "sbind (Inr x) f = f x"
  by (simp_all add: sbind_def)

lemma sbind_Inr [simp]: "sbind r f = Inr y \<longleftrightarrow> (\<exists>x. r = Inr x \<and> f x = Inr y)"
  by (cases r) simp_all

lemma guard_simps [simp]: "guard True e r = r" "guard False e r = Inl e"
  by (simp_all add: guard_def)

lemma guard_Inr [simp]: "guard b e r = Inr y \<longleftrightarrow> b \<and> r = Inr y"
  by (simp add: guard_def)

lemma smap_Inr: "smap f xs = Inr ys \<longleftrightarrow> list_all2 (\<lambda>x y. f x = Inr y) xs ys"
proof (induction xs arbitrary: ys)
  case (Cons x xs)
  then show ?case by (cases ys) (auto simp: list_all2_Cons1)
qed auto

lemma smap_append: "smap f (xs @ ys) = sbind (smap f xs) (\<lambda>us. sbind (smap f ys) (\<lambda>vs. Inr (us @ vs)))"
proof (induction xs)
  case Nil
  then show ?case by (cases "smap f ys") simp_all
next
  case (Cons x xs)
  then show ?case by (cases "f x"; cases "smap f xs"; cases "smap f ys") simp_all
qed

lemma smap_eq:
  assumes "\<And>x. x \<in> set xs \<Longrightarrow> f x = Inr (g x)"
  shows "smap f xs = Inr (map g xs)"
  using assms by (induction xs) auto

lemma sfold_invariant:
  assumes "sfold f xs s = Inr s'" "P s" "\<And>x s s'. x \<in> set xs \<Longrightarrow> P s \<Longrightarrow> f x s = Inr s' \<Longrightarrow> P s'"
  shows "P s'"
  using assms by (induction xs arbitrary: s) auto

end
