(* ===== verification/Skill_Files.thy ===== *)
theory Skill_Files
  imports Limits Paths Results
begin

text \<open>
  The files below \<open>src/skill-evolution-store.ts\<close>: names that link to numbered file nodes (a node may have
  several names), the reads that capture a file with its digest and identity, and the candidates and
  journals that the store keeps about skills. A path is written relative to the project; the digest is an
  argument. \<open>Inl\<close> is a thrown error. A read is one step, so the comparisons by which \<open>directFileHash\<close>
  notices a change during the read succeed; directories exist and are not links.
\<close>

section \<open>Texts as bytes\<close>

type_synonym file_bytes = "8 word list"

text \<open>\<open>Buffer.from(text, "utf8")\<close>: an unpaired surrogate becomes U+FFFD.\<close>

definition utf8_unit :: "code_unit \<Rightarrow> file_bytes" where
  "utf8_unit c =
     (if c < 0x80 then [word_of_nat (unat c)]
      else if c < 0x800 then [word_of_nat (0xC0 + unat c div 64), word_of_nat (0x80 + unat c mod 64)]
      else if high_surrogate c \<or> low_surrogate c then [0xEF, 0xBF, 0xBD]
      else [word_of_nat (0xE0 + unat c div 4096), word_of_nat (0x80 + unat c div 64 mod 64), word_of_nat (0x80 + unat c mod 64)])"

definition utf8_pair :: "code_unit \<Rightarrow> code_unit \<Rightarrow> file_bytes" where
  "utf8_pair c d =
     (let point = 0x10000 + (unat c - 0xD800) * 0x400 + (unat d - 0xDC00)
      in [word_of_nat (0xF0 + point div 262144), word_of_nat (0x80 + point div 4096 mod 64),
          word_of_nat (0x80 + point div 64 mod 64), word_of_nat (0x80 + point mod 64)])"

fun utf8_encode :: "jstr \<Rightarrow> file_bytes" where
  "utf8_encode [] = []"
| "utf8_encode [c] = utf8_unit c"
| "utf8_encode (c # d # s) =
     (if high_surrogate c \<and> low_surrogate d then utf8_pair c d @ utf8_encode s
      else utf8_unit c @ utf8_encode (d # s))"

lemma length_utf8_unit: "length (utf8_unit c) = unit_bytes c"
  by (simp add: utf8_unit_def unit_bytes_def)

lemma length_utf8_encode: "length (utf8_encode s) = utf8_bytes s"
  by (induction s rule: utf8_encode.induct) (simp_all add: length_utf8_unit utf8_pair_def Let_def)

section \<open>Files\<close>

record file_system =
  fs_names :: "jstr \<Rightarrow> nat option"
  fs_data :: "nat \<Rightarrow> file_bytes"
  fs_next :: nat
  fs_directory :: "jstr \<Rightarrow> nat"

type_synonym file_identity = "nat \<times> nat"

record capture =
  cp_sha :: jstr
  cp_identity :: file_identity
  cp_bytes :: file_bytes

definition SKILL_EVOLUTION_MAX_REVISIONS :: nat where "SKILL_EVOLUTION_MAX_REVISIONS = 32"

definition SKILL_EVOLUTION_MAX_CONTENT_BYTES :: nat where "SKILL_EVOLUTION_MAX_CONTENT_BYTES = 64 * 1024"

text \<open>\<open>fileHashOrNull\<close> and \<open>directFileHash\<close>.\<close>

definition file_hash_or_null :: "(file_bytes \<Rightarrow> jstr) \<Rightarrow> file_system \<Rightarrow> jstr \<Rightarrow> jstr + capture option" where
  "file_hash_or_null sha fs path =
     (case fs_names fs path of
        None \<Rightarrow> Inr None
      | Some node \<Rightarrow>
          (let bytes = fs_data fs node
           in guard (length bytes \<le> SKILL_EVOLUTION_MAX_CONTENT_BYTES) (js ''skill file exceeds 64 KiB or is not regular'')
                (Inr (Some \<lparr>cp_sha = sha bytes, cp_identity = (node, length bytes), cp_bytes = bytes\<rparr>))))"

definition direct_file_hash :: "(file_bytes \<Rightarrow> jstr) \<Rightarrow> file_system \<Rightarrow> jstr \<Rightarrow> jstr + capture" where
  "direct_file_hash sha fs path =
     sbind (file_hash_or_null sha fs path) (\<lambda>c. case c of None \<Rightarrow> Inl (js ''ENOENT'') | Some x \<Rightarrow> Inr x)"

text \<open>\<open>openSync(path, "wx")\<close>, the write through the descriptor, \<open>linkSync\<close> and \<open>unlinkSync\<close>.\<close>

definition create_file :: "jstr \<Rightarrow> file_system \<Rightarrow> jstr + file_system" where
  "create_file path fs =
     guard (fs_names fs path = None) (js ''EEXIST'')
       (Inr (fs\<lparr>fs_names := (fs_names fs)(path \<mapsto> fs_next fs), fs_data := (fs_data fs)(fs_next fs := []),
          fs_next := Suc (fs_next fs)\<rparr>))"

definition write_file :: "jstr \<Rightarrow> file_bytes \<Rightarrow> file_system \<Rightarrow> jstr + file_system" where
  "write_file path bytes fs =
     (case fs_names fs path of
        None \<Rightarrow> Inl (js ''ENOENT'')
      | Some node \<Rightarrow> Inr (fs\<lparr>fs_data := (fs_data fs)(node := bytes)\<rparr>))"

definition link_file :: "jstr \<Rightarrow> jstr \<Rightarrow> file_system \<Rightarrow> jstr + file_system" where
  "link_file existing path fs =
     (case fs_names fs existing of
        None \<Rightarrow> Inl (js ''ENOENT'')
      | Some node \<Rightarrow>
          guard (fs_names fs path = None) (js ''EEXIST'') (Inr (fs\<lparr>fs_names := (fs_names fs)(path \<mapsto> node)\<rparr>)))"

definition unlink_file :: "jstr \<Rightarrow> file_system \<Rightarrow> jstr + file_system" where
  "unlink_file path fs =
     guard (fs_names fs path \<noteq> None) (js ''ENOENT'') (Inr (fs\<lparr>fs_names := (fs_names fs)(path := None)\<rparr>))"

definition remove_verified_file ::
  "(file_bytes \<Rightarrow> jstr) \<Rightarrow> jstr \<Rightarrow> jstr \<Rightarrow> file_identity option \<Rightarrow> file_system \<Rightarrow> jstr + file_system" where
  "remove_verified_file sha path expected_hash expected_identity fs =
     (if fs_names fs path = None then Inr fs
      else sbind (direct_file_hash sha fs path) (\<lambda>current.
        guard (cp_sha current = expected_hash \<and>
            (case expected_identity of None \<Rightarrow> True | Some identity \<Rightarrow> cp_identity current = identity))
          (js ''transaction-owned file changed; preserving it'') (unlink_file path fs)))"

definition assert_exact_file :: "(file_bytes \<Rightarrow> jstr) \<Rightarrow> file_system \<Rightarrow> jstr \<Rightarrow> capture \<Rightarrow> jstr + unit" where
  "assert_exact_file sha fs path expected =
     sbind (direct_file_hash sha fs path) (\<lambda>current.
       guard (current = expected) (js ''skill target hash, identity, or bytes changed concurrently'') (Inr ()))"

definition assert_parent_identity :: "file_system \<Rightarrow> jstr \<Rightarrow> nat \<Rightarrow> jstr + unit" where
  "assert_parent_identity fs directory expected =
     guard (fs_directory fs directory = expected) (js ''skill target parent identity changed during publication'') (Inr ())"

section \<open>Candidates\<close>

datatype candidate_state = Proposed | Validated | Rejected | Promoted | Rolled_back | Superseded

datatype candidate_event =
  Was_proposed | Checker_passed | Checker_failed | Review_rejected | Review_restored | Was_promoted | Was_rolled_back | Was_superseded

datatype proposal_operation = Create | Replace

record skill_proposal =
  kp_target :: jstr
  kp_operation :: proposal_operation
  kp_basis :: "jstr option"
  kp_content :: jstr

record promotion_note =
  pn_target :: jstr
  pn_before :: "jstr option"
  pn_after :: jstr

record candidate_revision =
  kr_state :: candidate_state
  kr_event :: candidate_event
  kr_actor :: jstr
  kr_reason :: jstr
  kr_created_at :: nat
  kr_proposal :: "skill_proposal option"
  kr_checker :: "(bool \<times> jstr list) option"
  kr_promotion :: "promotion_note option"

record backup_reference =
  br_path :: jstr
  br_sha :: jstr
  br_size :: nat

text \<open>The revision documents are immutable and verified against their digests; a record holds them.\<close>

record skill_candidate =
  sk_id :: jstr
  sk_is_skill :: bool
  sk_state :: candidate_state
  sk_current_revision :: nat
  sk_revisions :: "candidate_revision list"
  sk_target :: "jstr option"
  sk_checker_child :: "jstr option"
  sk_checker_findings :: "jstr list"
  sk_updated_at :: nat
  sk_promoted_hash :: "jstr option"
  sk_promoted_at :: "nat option"
  sk_promoted_root :: "jstr option"
  sk_backup :: "backup_reference option"

datatype skill_operation = Promote | Rollback

record skill_journal =
  tj_id :: jstr
  tj_operation :: skill_operation
  tj_candidate :: jstr
  tj_candidate_revision :: nat
  tj_actor :: jstr
  tj_created_at :: nat
  tj_target :: jstr
  tj_root :: jstr
  tj_before_sha :: "jstr option"
  tj_after_sha :: jstr
  tj_before_identity :: "file_identity option"
  tj_parent_identity :: nat
  tj_backup_path :: "jstr option"
  tj_backup_sha :: "jstr option"
  tj_backup_size :: "nat option"
  tj_swap :: jstr
  tj_prepared :: jstr

text \<open>\<open>SkillTransactionJournalSchema\<close>, the bounds on the length of absolute paths left out.\<close>

definition skill_journal_shape :: "skill_journal \<Rightarrow> bool" where
  "skill_journal_shape j \<longleftrightarrow>
     is_safe_id (tj_id j) \<and> is_safe_id (tj_candidate j) \<and> 1 \<le> tj_candidate_revision j \<and> tj_candidate_revision j \<le> SKILL_EVOLUTION_MAX_REVISIONS \<and>
     (tj_before_sha j = None \<longleftrightarrow> tj_before_identity j = None) \<and>
     (tj_backup_path j = None \<longleftrightarrow> tj_backup_sha j = None) \<and> (tj_backup_path j = None \<longleftrightarrow> tj_backup_size j = None) \<and>
     (case tj_backup_size j of None \<Rightarrow> True | Some n \<Rightarrow> 1 \<le> n \<and> n \<le> SKILL_EVOLUTION_MAX_CONTENT_BYTES)"

text \<open>A transaction entry without a readable journal is \<open>None\<close>.\<close>

record skill_store =
  ks_files :: file_system
  ks_transactions :: "(jstr \<times> skill_journal option) list"
  ks_candidates :: "skill_candidate list"

text \<open>The digest, the content rules of \<open>validateProposedSkill\<close> and the configured roots.\<close>

record skill_env =
  sv_sha :: "file_bytes \<Rightarrow> jstr"
  sv_skill_ok :: "jstr \<Rightarrow> jstr \<Rightarrow> bool"
  sv_roots :: "jstr list"

definition find_skill_candidate :: "skill_store \<Rightarrow> jstr \<Rightarrow> skill_candidate option" where
  "find_skill_candidate w i = find (\<lambda>c. sk_id c = i) (ks_candidates w)"

definition load_candidate_revision :: "skill_candidate \<Rightarrow> nat \<Rightarrow> jstr + candidate_revision" where
  "load_candidate_revision c n =
     guard (1 \<le> n \<and> n \<le> length (sk_revisions c)) (js ''candidate revision reference not found'') (Inr (sk_revisions c ! (n - 1)))"

definition candidate_proposal :: "skill_candidate \<Rightarrow> jstr + skill_proposal" where
  "candidate_proposal c =
     sbind (load_candidate_revision c 1) (\<lambda>initial.
       case kr_proposal initial of None \<Rightarrow> Inl (js ''candidate has no immutable skill proposal'') | Some p \<Rightarrow> Inr p)"

definition assert_current_revision :: "skill_candidate \<Rightarrow> jstr + candidate_revision" where
  "assert_current_revision c =
     sbind (load_candidate_revision c (sk_current_revision c)) (\<lambda>current.
       guard (kr_state current = sk_state c) (js ''candidate index state does not match its immutable current revision'') (Inr current))"

definition assert_checker_approved :: "skill_candidate \<Rightarrow> jstr + unit" where
  "assert_checker_approved c =
     guard (sk_is_skill c \<and> sk_checker_child c \<noteq> None) (js ''skill candidate has no checker provenance'')
       (sbind (load_candidate_revision c 1) (\<lambda>initial.
          guard (kr_checker initial = Some (True, []) \<and> kr_event initial = Checker_passed \<and> kr_state initial = Validated \<and>
              Some (kr_actor initial) = sk_checker_child c \<and> sk_checker_findings c = [])
            (js ''candidate does not have an immutable passing checker verdict'') (Inr ())))"

definition replace_candidate :: "jstr \<Rightarrow> skill_candidate \<Rightarrow> skill_candidate list \<Rightarrow> skill_candidate list" where
  "replace_candidate i c cs = map (\<lambda>x. if sk_id x = i then c else x) cs"

text \<open>
  \<open>appendSkillCandidateRevisionLocked\<close>: the revision document is published first and the index, which
  names it, replaced atomically; a document without an index entry has no effect.
\<close>

definition append_candidate_revision ::
  "jstr \<Rightarrow> nat \<Rightarrow> candidate_revision \<Rightarrow> (skill_candidate \<Rightarrow> skill_candidate) \<Rightarrow> skill_store \<Rightarrow> jstr + skill_store" where
  "append_candidate_revision i expected revision change w =
     (case find_skill_candidate w i of
        None \<Rightarrow> Inl (js ''skill-evolution candidate not found'')
      | Some c \<Rightarrow>
          guard (sk_current_revision c = expected) (js ''skill-evolution candidate changed concurrently'')
            (sbind (load_candidate_revision c (sk_current_revision c)) (\<lambda>current.
              guard (kr_state current = sk_state c) (js ''skill-evolution candidate current revision/state identity mismatch'')
                (guard (sk_current_revision c < SKILL_EVOLUTION_MAX_REVISIONS) (js ''skill-evolution candidate revision capacity reached'')
                  (Inr (w\<lparr>ks_candidates := replace_candidate i (change
                     (c\<lparr>sk_state := kr_state revision, sk_current_revision := Suc (sk_current_revision c),
                        sk_revisions := sk_revisions c @ [revision], sk_updated_at := kr_created_at revision\<rparr>)) (ks_candidates w)\<rparr>))))))"

section \<open>Paths of a skill\<close>

definition skill_unit :: "code_unit \<Rightarrow> bool" where
  "skill_unit c \<longleftrightarrow> lower_alpha c \<or> digit c"

text \<open>\<open>/^[a-z0-9]+(?:-[a-z0-9]+)*\<close> up to the slash, and no reserved folder.\<close>

definition skill_folder_ok :: "jstr \<Rightarrow> bool" where
  "skill_folder_ok folder \<longleftrightarrow>
     list_all (\<lambda>part. part \<noteq> [] \<and> list_all skill_unit part) (split_on 0x2D folder) \<and> is_safe_id folder"

definition skill_target_ok :: "jstr \<Rightarrow> bool" where
  "skill_target_ok target \<longleftrightarrow>
     (case split_on 0x2F target of [folder, file] \<Rightarrow> skill_folder_ok folder \<and> file = js ''SKILL.md'' | _ \<Rightarrow> False)"

record skill_target =
  sl_root :: jstr
  sl_directory :: jstr
  sl_path :: jstr

definition configured_skill_target :: "jstr \<Rightarrow> jstr \<Rightarrow> jstr + skill_target" where
  "configured_skill_target root target =
     guard (is_safe_project_relative_path root) (js ''configured skill root is unsafe'')
       (guard (skill_target_ok target) (js ''candidate skill target is unsafe'')
         (Inr \<lparr>sl_root = root, sl_directory = root @ js ''/'' @ hd (split_on 0x2F target), sl_path = root @ js ''/'' @ target\<rparr>))"

definition swap_path :: "skill_target \<Rightarrow> jstr \<Rightarrow> jstr" where
  "swap_path s transaction = sl_directory s @ js ''/.alg-skill-'' @ transaction @ js ''.swap''"

definition prepared_path :: "skill_target \<Rightarrow> jstr \<Rightarrow> jstr" where
  "prepared_path s transaction = sl_directory s @ js ''/.alg-skill-'' @ transaction @ js ''.prepared''"

definition skill_backup_path :: "jstr \<Rightarrow> jstr \<Rightarrow> jstr \<Rightarrow> jstr" where
  "skill_backup_path candidate hash transaction =
     js ''.opencode/skill-evolution/backups/'' @ candidate @ js ''-'' @ hash @ js ''-'' @ transaction @ js ''.bin''"

end
