(* ===== verification/Skill_Publication.thy ===== *)
theory Skill_Publication
  imports Skill_Files
begin

text \<open>
  Publication of a reviewed skill (\<open>promoteSkillCandidate\<close>, \<open>rollbackSkillCandidate\<close> and
  \<open>recoverSkillTransactions\<close> of \<open>src/skill-evolution-store.ts\<close>). A publication is a list of phases, each
  of which makes at most one change to what is on disk; a process that dies leaves what the phases before
  did. All of it happens under the project's mutation lock. The journal directory holds no other file
  under the random name of a new transaction; its entries are scanned in the order of the list.
\<close>

section \<open>Phases\<close>

text \<open>Steps in order; a step that throws leaves the state it found and ends the run.\<close>

fun run_steps :: "('a \<Rightarrow> 's \<Rightarrow> 'e + 's) \<Rightarrow> 'a list \<Rightarrow> 's \<Rightarrow> 's \<times> 'e option" where
  "run_steps f [] s = (s, None)"
| "run_steps f (a # as) s = (case f a s of Inl e \<Rightarrow> (s, Some e) | Inr s' \<Rightarrow> run_steps f as s')"

lemma run_steps_append:
  "run_steps f (as @ bs) s =
     (case run_steps f as s of (s', Some e) \<Rightarrow> (s', Some e) | (s', None) \<Rightarrow> run_steps f bs s')"
  by (induction as arbitrary: s) (auto split: sum.splits)

text \<open>What a publication knows: its journal, the new bytes, the captured file, and what it captures on the way.\<close>

record publication =
  pb_journal :: skill_journal
  pb_directory :: jstr
  pb_content :: file_bytes
  pb_before :: "capture option"
  pb_backup :: "backup_reference option"
  pb_prepared :: "file_identity option"
  pb_swap :: "file_identity option"

datatype phase =
  Journal_open | Journal_write | Backup_open | Backup_write | Backup_verify | Prepared_open | Prepared_write | Prepared_verify |
  Claim | Claim_verify | Unlink | Publish | Publish_verify | Drop_prepared | Drop_swap | Commit | Finish

definition with_files :: "skill_store \<Rightarrow> jstr + file_system \<Rightarrow> jstr + skill_store" where
  "with_files w r = sbind r (\<lambda>fs. Inr (w\<lparr>ks_files := fs\<rparr>))"

definition open_transaction :: "jstr \<Rightarrow> skill_store \<Rightarrow> jstr + skill_store" where
  "open_transaction i w =
     guard (i \<notin> fst ` set (ks_transactions w)) (js ''immutable skill-evolution object path is occupied by different bytes'')
       (Inr (w\<lparr>ks_transactions := ks_transactions w @ [(i, None)]\<rparr>))"

definition write_transaction :: "skill_journal \<Rightarrow> skill_store \<Rightarrow> skill_store" where
  "write_transaction j w =
     w\<lparr>ks_transactions := map (\<lambda>(i, x). if i = tj_id j then (i, Some j) else (i, x)) (ks_transactions w)\<rparr>"

definition remove_transaction :: "jstr \<Rightarrow> skill_store \<Rightarrow> skill_store" where
  "remove_transaction i w = w\<lparr>ks_transactions := filter (\<lambda>e. fst e \<noteq> i) (ks_transactions w)\<rparr>"

definition exact_before :: "skill_env \<Rightarrow> publication \<Rightarrow> skill_store \<Rightarrow> jstr + unit" where
  "exact_before env pb w =
     (case pb_before pb of None \<Rightarrow> Inr () | Some b \<Rightarrow> assert_exact_file (sv_sha env) (ks_files w) (tj_target (pb_journal pb)) b)"

definition parent_unchanged :: "publication \<Rightarrow> skill_store \<Rightarrow> jstr + unit" where
  "parent_unchanged pb w = assert_parent_identity (ks_files w) (pb_directory pb) (tj_parent_identity (pb_journal pb))"

text \<open>Only the promotion of a replacement makes a backup; a rollback uses the one of the promotion.\<close>

definition own_backup :: "skill_journal \<Rightarrow> jstr option" where
  "own_backup j = (if tj_operation j = Promote then tj_backup_path j else None)"

definition commit_revision :: "jstr \<Rightarrow> nat \<Rightarrow> skill_journal \<Rightarrow> candidate_revision" where
  "commit_revision reason now j =
     \<lparr>kr_state = (if tj_operation j = Promote then Promoted else Rolled_back),
      kr_event = (if tj_operation j = Promote then Was_promoted else Was_rolled_back),
      kr_actor = tj_actor j, kr_reason = reason, kr_created_at = now, kr_proposal = None, kr_checker = None,
      kr_promotion = Some \<lparr>pn_target = tj_target j, pn_before = tj_before_sha j, pn_after = tj_after_sha j\<rparr>\<rparr>"

definition commit_change :: "skill_journal \<Rightarrow> nat \<Rightarrow> backup_reference option \<Rightarrow> skill_candidate \<Rightarrow> skill_candidate" where
  "commit_change j at backup c =
     (if tj_operation j = Promote
      then c\<lparr>sk_promoted_hash := Some (tj_after_sha j), sk_promoted_at := Some at, sk_promoted_root := Some (tj_root j), sk_backup := backup\<rparr>
      else c)"

definition commit_reason :: "skill_operation \<Rightarrow> jstr" where
  "commit_reason operation =
     (if operation = Promote then js ''explicit validated-candidate promotion''
      else js ''explicit rollback restored the immutable pre-promotion backup'')"

definition claim_message :: "skill_operation \<Rightarrow> jstr" where
  "claim_message operation =
     (if operation = Promote then js ''skill target identity changed at publication claim boundary''
      else js ''promoted skill identity changed at rollback claim boundary'')"

definition verification_message :: "skill_operation \<Rightarrow> jstr" where
  "verification_message operation =
     (if operation = Promote then js ''published skill verification failed'' else js ''rollback target verification failed'')"

definition publication_step :: "skill_env \<Rightarrow> nat \<Rightarrow> phase \<Rightarrow> publication \<times> skill_store \<Rightarrow> jstr + publication \<times> skill_store" where
  "publication_step env now phase s =
     (let pb = fst s; w = snd s; j = pb_journal pb; fs = ks_files w; sha = sv_sha env;
          keep = (\<lambda>r. sbind r (\<lambda>w'. Inr (pb, w')))
      in case phase of
        Journal_open \<Rightarrow> keep (open_transaction (tj_id j) w)
      | Journal_write \<Rightarrow> Inr (pb, write_transaction j w)
      | Backup_open \<Rightarrow>
          if pb_before pb = None then Inr s
          else if tj_operation j = Promote
          then sbind (parent_unchanged pb w) (\<lambda>_. sbind (exact_before env pb w) (\<lambda>_.
            keep (with_files w (create_file (the (own_backup j)) fs))))
          else sbind (parent_unchanged pb w) (\<lambda>_. sbind (exact_before env pb w) (\<lambda>_. Inr s))
      | Backup_write \<Rightarrow>
          (case (own_backup j, pb_before pb) of
             (Some path, Some b) \<Rightarrow> keep (with_files w (write_file path (cp_bytes b) fs))
           | _ \<Rightarrow> Inr s)
      | Backup_verify \<Rightarrow>
          (case (own_backup j, pb_before pb) of
             (Some path, Some b) \<Rightarrow>
               sbind (direct_file_hash sha fs path) (\<lambda>captured.
                 guard (cp_sha captured = sha (cp_bytes b) \<and> cp_bytes captured = cp_bytes b) (js ''skill backup publication verification failed'')
                   (guard (cp_identity captured \<noteq> cp_identity b) (js ''skill backup must be independent from the public source'')
                     (sbind (exact_before env pb w) (\<lambda>_.
                       Inr (pb\<lparr>pb_backup := Some \<lparr>br_path = path, br_sha = sha (cp_bytes b), br_size = length (cp_bytes b)\<rparr>\<rparr>, w)))))
           | _ \<Rightarrow> Inr s)
      | Prepared_open \<Rightarrow> keep (with_files w (create_file (tj_prepared j) fs))
      | Prepared_write \<Rightarrow> keep (with_files w (write_file (tj_prepared j) (pb_content pb) fs))
      | Prepared_verify \<Rightarrow>
          sbind (direct_file_hash sha fs (tj_prepared j)) (\<lambda>verified.
            guard (cp_bytes verified = pb_content pb) (js ''prepared skill bytes changed'')
              (sbind (parent_unchanged pb w) (\<lambda>_. Inr (pb\<lparr>pb_prepared := Some (cp_identity verified)\<rparr>, w))))
      | Claim \<Rightarrow> if pb_before pb = None then Inr s else keep (with_files w (link_file (tj_target j) (tj_swap j) fs))
      | Claim_verify \<Rightarrow>
          (case pb_before pb of
             None \<Rightarrow> Inr s
           | Some b \<Rightarrow>
               sbind (direct_file_hash sha fs (tj_swap j)) (\<lambda>claimed.
                 guard (claimed = b) (claim_message (tj_operation j))
                   (sbind (exact_before env pb w) (\<lambda>_. Inr (pb\<lparr>pb_swap := Some (cp_identity claimed)\<rparr>, w)))))
      | Unlink \<Rightarrow>
          sbind (parent_unchanged pb w) (\<lambda>_.
            if pb_before pb = None then guard (fs_names fs (tj_target j) = None) (js ''create destination became occupied'') (Inr s)
            else sbind (exact_before env pb w) (\<lambda>_. keep (with_files w (unlink_file (tj_target j) fs))))
      | Publish \<Rightarrow> sbind (parent_unchanged pb w) (\<lambda>_. keep (with_files w (link_file (tj_prepared j) (tj_target j) fs)))
      | Publish_verify \<Rightarrow>
          sbind (direct_file_hash sha fs (tj_target j)) (\<lambda>published.
            guard (cp_sha published = tj_after_sha j \<and> Some (cp_identity published) = pb_prepared pb \<and> cp_bytes published = pb_content pb)
              (verification_message (tj_operation j)) (sbind (parent_unchanged pb w) (\<lambda>_. Inr s)))
      | Drop_prepared \<Rightarrow> keep (with_files w (remove_verified_file sha (tj_prepared j) (tj_after_sha j) (pb_prepared pb) fs))
      | Drop_swap \<Rightarrow>
          (case pb_before pb of
             None \<Rightarrow> Inr s
           | Some b \<Rightarrow> keep (with_files w (remove_verified_file sha (tj_swap j) (cp_sha b) (pb_swap pb) fs)))
      | Commit \<Rightarrow>
          keep (append_candidate_revision (tj_candidate j) (tj_candidate_revision j)
            (commit_revision (commit_reason (tj_operation j)) now j) (commit_change j now (pb_backup pb)) w)
      | Finish \<Rightarrow> Inr (pb, remove_transaction (tj_id j) w))"

definition journal_phases :: "phase list" where "journal_phases = [Journal_open, Journal_write]"

definition file_phases :: "phase list" where
  "file_phases =
     [Backup_open, Backup_write, Backup_verify, Prepared_open, Prepared_write, Prepared_verify, Claim, Claim_verify, Unlink,
      Publish, Publish_verify, Drop_prepared, Drop_swap, Commit, Finish]"

text \<open>The handler of a failure removes the prepared file if it is still its own and keeps the journal.\<close>

definition abandon_publication :: "skill_env \<Rightarrow> publication \<times> skill_store \<Rightarrow> skill_store" where
  "abandon_publication env s =
     (case remove_verified_file (sv_sha env) (tj_prepared (pb_journal (fst s))) (tj_after_sha (pb_journal (fst s)))
        (pb_prepared (fst s)) (ks_files (snd s)) of
        Inl _ \<Rightarrow> snd s
      | Inr fs \<Rightarrow> (snd s)\<lparr>ks_files := fs\<rparr>)"

definition publish :: "skill_env \<Rightarrow> nat \<Rightarrow> publication \<Rightarrow> skill_store \<Rightarrow> skill_store \<times> jstr option" where
  "publish env now pb w =
     (case run_steps (publication_step env now) journal_phases (pb, w) of
        (s, Some e) \<Rightarrow> (snd s, Some e)
      | (s, None) \<Rightarrow>
          (case run_steps (publication_step env now) file_phases s of
             (s', Some e) \<Rightarrow> (abandon_publication env s', Some e)
           | (s', None) \<Rightarrow> (snd s', None)))"

section \<open>What is published\<close>

definition root_state :: "skill_env \<Rightarrow> skill_store \<Rightarrow> jstr \<Rightarrow> jstr \<Rightarrow> jstr + capture option" where
  "root_state env w target root =
     sbind (configured_skill_target root target) (\<lambda>s. file_hash_or_null (sv_sha env) (ks_files w) (sl_path s))"

definition has_basis :: "skill_proposal \<Rightarrow> capture option \<Rightarrow> bool" where
  "has_basis p c \<longleftrightarrow> (case c of None \<Rightarrow> False | Some x \<Rightarrow> kp_basis p = Some (cp_sha x))"

definition promotion_root :: "skill_env \<Rightarrow> skill_store \<Rightarrow> skill_candidate \<Rightarrow> skill_proposal \<Rightarrow> jstr + jstr" where
  "promotion_root env w c p =
     guard (sk_target c = Some (kp_target p)) (js ''candidate target metadata mismatch'')
       (if kp_operation p = Create
        then sbind (smap (\<lambda>root. sbind (root_state env w (kp_target p) root) (\<lambda>x.
            guard (x = None) (js ''create target is no longer absent from every configured skill root'') (Inr ()))) (sv_roots env)) (\<lambda>_.
          case sv_roots env of [] \<Rightarrow> Inl (js ''no skill root'') | root # _ \<Rightarrow> Inr root)
        else sbind (smap (root_state env w (kp_target p)) (sv_roots env)) (\<lambda>states.
          case filter (\<lambda>(root, x). has_basis p x) (zip (sv_roots env) states) of
            [(root, _)] \<Rightarrow> Inr root
          | _ \<Rightarrow> Inl (js ''replace basis no longer identifies exactly one configured skill root'')))"

definition promotion_of ::
  "skill_env \<Rightarrow> skill_candidate \<Rightarrow> skill_proposal \<Rightarrow> skill_target \<Rightarrow> capture option \<Rightarrow> nat \<Rightarrow> jstr \<Rightarrow> jstr \<Rightarrow> nat \<Rightarrow> publication" where
  "promotion_of env c p s before parent actor transaction now =
     \<lparr>pb_journal =
        \<lparr>tj_id = transaction, tj_operation = Promote, tj_candidate = sk_id c, tj_candidate_revision = sk_current_revision c,
         tj_actor = actor, tj_created_at = now, tj_target = sl_path s, tj_root = sl_root s,
         tj_before_sha = map_option cp_sha before, tj_after_sha = sv_sha env (utf8_encode (kp_content p)),
         tj_before_identity = map_option cp_identity before, tj_parent_identity = parent,
         tj_backup_path = map_option (\<lambda>b. skill_backup_path (sk_id c) (cp_sha b) transaction) before,
         tj_backup_sha = map_option cp_sha before, tj_backup_size = map_option (\<lambda>b. length (cp_bytes b)) before,
         tj_swap = swap_path s transaction, tj_prepared = prepared_path s transaction\<rparr>,
      pb_directory = sl_directory s, pb_content = utf8_encode (kp_content p), pb_before = before, pb_backup = None,
      pb_prepared = None, pb_swap = None\<rparr>"

definition checked_publication :: "publication \<Rightarrow> jstr + publication" where
  "checked_publication pb = guard (skill_journal_shape (pb_journal pb)) (js ''invalid skill transaction journal'') (Inr pb)"

definition prepare_promotion :: "skill_env \<Rightarrow> skill_store \<Rightarrow> jstr \<Rightarrow> jstr \<Rightarrow> jstr \<Rightarrow> nat \<Rightarrow> jstr + publication" where
  "prepare_promotion env w candidate actor transaction now =
     (case find_skill_candidate w candidate of
        None \<Rightarrow> Inl (js ''skill-evolution candidate not found'')
      | Some c \<Rightarrow>
          guard (sk_is_skill c \<and> sk_state c = Validated) (js ''only a validated skill candidate can be promoted'')
            (sbind (assert_current_revision c) (\<lambda>_. sbind (assert_checker_approved c) (\<lambda>_. sbind (candidate_proposal c) (\<lambda>p.
              guard (sv_skill_ok env (kp_content p) (kp_target p)) (js ''proposed SKILL.md is not acceptable'')
                (sbind (promotion_root env w c p) (\<lambda>root. sbind (configured_skill_target root (kp_target p)) (\<lambda>s.
                  sbind (file_hash_or_null (sv_sha env) (ks_files w) (sl_path s)) (\<lambda>before.
                    guard (\<not> (kp_operation p = Create \<and> before \<noteq> None)) (js ''create target is no longer absent'')
                      (guard (kp_operation p = Replace \<longrightarrow> has_basis p before) (js ''replace basis hash changed; preserving custom drift'')
                        (checked_publication (promotion_of env c p s before (fs_directory (ks_files w) (sl_directory s)) actor transaction now)))))))))))) "

definition rollback_of ::
  "skill_candidate \<Rightarrow> skill_target \<Rightarrow> capture \<Rightarrow> backup_reference \<Rightarrow> capture \<Rightarrow> nat \<Rightarrow> jstr \<Rightarrow> jstr \<Rightarrow> nat \<Rightarrow> publication" where
  "rollback_of c s current reference backup parent actor transaction now =
     \<lparr>pb_journal =
        \<lparr>tj_id = transaction, tj_operation = Rollback, tj_candidate = sk_id c, tj_candidate_revision = sk_current_revision c,
         tj_actor = actor, tj_created_at = now, tj_target = sl_path s, tj_root = sl_root s,
         tj_before_sha = Some (cp_sha current), tj_after_sha = cp_sha backup,
         tj_before_identity = Some (cp_identity current), tj_parent_identity = parent,
         tj_backup_path = Some (br_path reference), tj_backup_sha = Some (cp_sha backup),
         tj_backup_size = Some (length (cp_bytes backup)),
         tj_swap = swap_path s transaction, tj_prepared = prepared_path s transaction\<rparr>,
      pb_directory = sl_directory s, pb_content = cp_bytes backup, pb_before = Some current, pb_backup = None,
      pb_prepared = None, pb_swap = None\<rparr>"

definition prepare_rollback :: "skill_env \<Rightarrow> skill_store \<Rightarrow> jstr \<Rightarrow> jstr \<Rightarrow> jstr \<Rightarrow> nat \<Rightarrow> jstr + publication" where
  "prepare_rollback env w candidate actor transaction now =
     (case find_skill_candidate w candidate of
        None \<Rightarrow> Inl (js ''only a promoted skill candidate can be rolled back'')
      | Some c \<Rightarrow>
          (case (sk_promoted_root c, sk_promoted_hash c) of
             (Some root, Some hash) \<Rightarrow>
               guard (sk_state c = Promoted \<and> sk_is_skill c) (js ''only a promoted skill candidate can be rolled back'')
                 (sbind (assert_current_revision c) (\<lambda>r.
                   guard (kr_event r = Was_promoted \<and> map_option pn_after (kr_promotion r) = Some hash)
                     (js ''promoted candidate metadata does not match its immutable current revision'')
                     (case sk_backup c of
                        None \<Rightarrow> Inl (js ''created skills are not deleted; rollback is available only for replaced skills'')
                      | Some reference \<Rightarrow>
                          sbind (candidate_proposal c) (\<lambda>p. sbind (configured_skill_target root (kp_target p)) (\<lambda>s.
                            sbind (direct_file_hash (sv_sha env) (ks_files w) (sl_path s)) (\<lambda>current.
                              guard (cp_sha current = hash) (js ''current skill has custom drift; rollback preserves it'')
                                (sbind (direct_file_hash (sv_sha env) (ks_files w) (br_path reference)) (\<lambda>backup.
                                  guard (cp_sha backup = br_sha reference \<and> length (cp_bytes backup) = br_size reference)
                                    (js ''skill backup integrity mismatch'')
                                    (checked_publication (rollback_of c s current reference backup (fs_directory (ks_files w) (sl_directory s))
                                       actor transaction now))))))))))
           | _ \<Rightarrow> Inl (js ''only a promoted skill candidate can be rolled back'')))"

section \<open>Recovery\<close>

definition journal_root :: "skill_env \<Rightarrow> skill_journal \<Rightarrow> skill_proposal \<Rightarrow> skill_candidate \<Rightarrow> jstr option" where
  "journal_root env j p c =
     (if tj_operation j = Rollback then sk_promoted_root c
      else if kp_operation p = Create then (case sv_roots env of [] \<Rightarrow> None | root # _ \<Rightarrow> Some root)
      else find (\<lambda>root. root = tj_root j) (sv_roots env))"

definition promote_journal_ok :: "skill_env \<Rightarrow> skill_journal \<Rightarrow> skill_candidate \<Rightarrow> skill_proposal \<Rightarrow> jstr + unit" where
  "promote_journal_ok env j c p =
     sbind (if tj_candidate_revision j = sk_current_revision c
         then guard (sk_state c = Validated) (js ''uncommitted promote journal candidate is not validated'') (assert_checker_approved c)
         else if Suc (tj_candidate_revision j) = sk_current_revision c
         then sbind (load_candidate_revision c (sk_current_revision c)) (\<lambda>r.
           guard (sk_state c = Promoted \<and> kr_event r = Was_promoted \<and> map_option pn_after (kr_promotion r) = Some (tj_after_sha j))
             (js ''committed promote journal does not match candidate state'') (Inr ()))
         else Inl (js ''promote journal candidate revision is stale or from the future'')) (\<lambda>_.
     guard (sv_sha env (utf8_encode (kp_content p)) = tj_after_sha j) (js ''promote journal after hash does not match immutable proposal bytes'')
       (if kp_operation p = Create
        then guard (tj_before_sha j = None \<and> tj_before_identity j = None \<and> tj_backup_path j = None \<and> tj_backup_sha j = None \<and> tj_backup_size j = None)
          (js ''create journal must have null before and backup fields'') (Inr ())
        else guard (tj_before_sha j = kp_basis p \<and> tj_before_identity j \<noteq> None) (js ''replace journal does not match immutable basis hash and identity'')
          (guard (tj_backup_path j = map_option (\<lambda>h. skill_backup_path (sk_id c) h (tj_id j)) (kp_basis p) \<and> tj_backup_path j \<noteq> None \<and>
              tj_backup_sha j = kp_basis p \<and> tj_backup_size j = map_option snd (tj_before_identity j))
            (js ''replace journal backup path, hash, or size is not transaction-exact'') (Inr ()))))"

definition rollback_journal_ok :: "skill_journal \<Rightarrow> skill_candidate \<Rightarrow> jstr + unit" where
  "rollback_journal_ok j c =
     guard (sk_promoted_root c \<noteq> None \<and> sk_promoted_hash c \<noteq> None \<and> sk_backup c \<noteq> None)
       (js ''rollback journal candidate has no complete promotion metadata'')
       (sbind (if tj_candidate_revision j = sk_current_revision c
           then guard (sk_state c = Promoted) (js ''uncommitted rollback journal candidate is not promoted'') (Inr ())
           else if Suc (tj_candidate_revision j) = sk_current_revision c
           then sbind (load_candidate_revision c (sk_current_revision c)) (\<lambda>r.
             guard (sk_state c = Rolled_back \<and> kr_event r = Was_rolled_back \<and> map_option pn_after (kr_promotion r) = Some (tj_after_sha j))
               (js ''committed rollback journal does not match candidate state'') (Inr ()))
           else Inl (js ''rollback journal candidate revision is stale or from the future'')) (\<lambda>_.
        guard (tj_before_sha j = sk_promoted_hash c \<and> tj_before_identity j \<noteq> None \<and>
            Some (tj_after_sha j) = map_option br_sha (sk_backup c) \<and> tj_backup_path j = map_option br_path (sk_backup c) \<and>
            tj_backup_sha j = map_option br_sha (sk_backup c) \<and> tj_backup_size j = map_option br_size (sk_backup c))
          (js ''rollback journal hashes, identity, or backup reference do not match the promoted candidate'') (Inr ())))"

definition validate_journal_paths :: "skill_env \<Rightarrow> skill_store \<Rightarrow> skill_journal \<Rightarrow> skill_candidate \<Rightarrow> jstr + jstr \<times> skill_proposal" where
  "validate_journal_paths env w j c =
     sbind (candidate_proposal c) (\<lambda>p.
       guard (sv_skill_ok env (kp_content p) (kp_target p)) (js ''proposed SKILL.md is not acceptable'')
         (guard (sk_target c = Some (kp_target p)) (js ''journal candidate target metadata is inconsistent'')
           (sbind (assert_current_revision c) (\<lambda>_.
             sbind (if tj_operation j = Promote then promote_journal_ok env j c p else rollback_journal_ok j c) (\<lambda>_.
               case journal_root env j p c of
                 None \<Rightarrow> Inl (js ''journal skill root is not configured'')
               | Some root \<Rightarrow>
                   guard (root \<in> set (sv_roots env)) (js ''journal skill root is not configured'')
                     (sbind (configured_skill_target root (kp_target p)) (\<lambda>s.
                       guard (sl_path s = tj_target j \<and> sl_root s = tj_root j \<and> swap_path s (tj_id j) = tj_swap j \<and>
                           prepared_path s (tj_id j) = tj_prepared j)
                         (js ''journal paths do not match the exact configured candidate target'')
                         (guard (fs_directory (ks_files w) (sl_directory s) = tj_parent_identity j) (js ''journal target parent identity changed'')
                           (Inr (root, p)))))))))) "

definition verified_journal_backup :: "skill_env \<Rightarrow> skill_store \<Rightarrow> skill_journal \<Rightarrow> bool \<Rightarrow> jstr + capture option" where
  "verified_journal_backup env w j required =
     (case (tj_backup_path j, tj_backup_sha j, tj_backup_size j) of
        (Some path, Some hash, Some bytes) \<Rightarrow>
          sbind (file_hash_or_null (sv_sha env) (ks_files w) path) (\<lambda>b.
            case b of
              None \<Rightarrow> guard (\<not> required) (js ''transaction backup is absent'') (Inr None)
            | Some x \<Rightarrow>
                guard (cp_sha x = hash \<and> length (cp_bytes x) = bytes \<and> tj_before_identity j \<noteq> Some (cp_identity x))
                  (js ''transaction backup hash, size, or independence is invalid'') (Inr (Some x)))
      | _ \<Rightarrow> guard (\<not> required) (js ''transaction requires an exact backup'') (Inr None))"

datatype recovery_action =
  Restore_target | Verify_target | Remove_swap file_identity | Remove_prepared file_identity | Remove_backup |
  Commit_candidate "backup_reference option" | Remove_journal

datatype recovery_outcome = Restored_before_state | No_file_change | Committed

definition opt_action :: "(file_identity \<Rightarrow> recovery_action) \<Rightarrow> capture option \<Rightarrow> recovery_action list" where
  "opt_action f c = (case c of None \<Rightarrow> [] | Some x \<Rightarrow> [f (cp_identity x)])"

text \<open>The decision, from one look at the target, the swap and the prepared file.\<close>

definition recovery_plan ::
  "skill_env \<Rightarrow> skill_store \<Rightarrow> skill_journal \<Rightarrow> skill_candidate \<Rightarrow> skill_proposal \<Rightarrow>
   capture option \<Rightarrow> capture option \<Rightarrow> capture option \<Rightarrow> jstr + recovery_action list \<times> recovery_outcome" where
  "recovery_plan env w j c p target swap prepared =
     (let uncommitted = sk_current_revision c = tj_candidate_revision j;
          clean_backup = (if tj_operation j = Promote \<and> uncommitted \<and> tj_backup_path j \<noteq> None then [Remove_backup] else []);
          exact_before = (case tj_before_sha j of None \<Rightarrow> target = None
            | Some h \<Rightarrow> (case target of None \<Rightarrow> False | Some t \<Rightarrow> cp_sha t = h \<and> tj_before_identity j = Some (cp_identity t)));
          same_hash = (case target of None \<Rightarrow> False | Some t \<Rightarrow> tj_before_sha j = Some (cp_sha t))
      in if (case swap of None \<Rightarrow> False | Some x \<Rightarrow> tj_before_sha j \<noteq> Some (cp_sha x) \<or> tj_before_identity j \<noteq> Some (cp_identity x))
         then Inl (js ''transaction swap hash or identity is a third state'')
         else if (case prepared of None \<Rightarrow> False | Some x \<Rightarrow> cp_sha x \<noteq> tj_after_sha j)
         then Inl (js ''transaction prepared file is a third state'')
         else if same_hash \<and> \<not> exact_before then Inl (js ''public before-state hash matches but identity changed'')
         else if target = None \<and> swap \<noteq> None
         then Inr (Restore_target # Verify_target # opt_action Remove_swap swap @ opt_action Remove_prepared prepared @ clean_backup @ [Remove_journal], Restored_before_state)
         else if exact_before
         then Inr (opt_action Remove_swap swap @ opt_action Remove_prepared prepared @ clean_backup @ [Remove_journal], No_file_change)
         else (case target of
             None \<Rightarrow> Inl (js ''target is a third state; custom drift is preserved'')
           | Some t \<Rightarrow>
               guard (cp_sha t = tj_after_sha j) (js ''target is a third state; custom drift is preserved'')
                 (if uncommitted
                  then sbind (verified_journal_backup env w j (tj_operation j = Rollback \<or> kp_operation p = Replace)) (\<lambda>backup.
                    guard (if tj_operation j = Promote then cp_bytes t = utf8_encode (kp_content p) \<and> \<not> (kp_operation p = Create \<and> backup \<noteq> None)
                        else map_option cp_bytes backup = Some (cp_bytes t))
                      (js ''applied bytes differ from the immutable proposal or backup'')
                      (Inr (Commit_candidate (if tj_operation j = Promote
                          then map_option (\<lambda>b. \<lparr>br_path = the (tj_backup_path j), br_sha = cp_sha b, br_size = length (cp_bytes b)\<rparr>) backup
                          else None) #
                        opt_action Remove_swap swap @ opt_action Remove_prepared prepared @ [Remove_journal], Committed)))
                  else guard (tj_operation j = Promote \<and> sk_state c = Promoted \<and> sk_promoted_hash c = Some (tj_after_sha j) \<or>
                      tj_operation j = Rollback \<and> sk_state c = Rolled_back)
                    (js ''candidate revision is a third state'')
                    (Inr (opt_action Remove_swap swap @ opt_action Remove_prepared prepared @ [Remove_journal], Committed)))))"

definition recovery_reason :: "skill_operation \<Rightarrow> jstr" where
  "recovery_reason operation =
     js ''recovered exact file-applied '' @ (if operation = Promote then js ''promote'' else js ''rollback'') @ js '' transaction''"

definition recovery_action_step :: "skill_env \<Rightarrow> nat \<Rightarrow> skill_journal \<Rightarrow> recovery_action \<Rightarrow> skill_store \<Rightarrow> jstr + skill_store" where
  "recovery_action_step env now j a w =
     (let fs = ks_files w; sha = sv_sha env
      in case a of
        Restore_target \<Rightarrow>
          with_files w (link_file (tj_swap j) (tj_target j) fs)
      | Verify_target \<Rightarrow>
          sbind (direct_file_hash sha fs (tj_target j)) (\<lambda>restored.
            guard (tj_before_sha j = Some (cp_sha restored) \<and> tj_before_identity j = Some (cp_identity restored))
              (js ''restored target verification failed'') (Inr w))
      | Remove_swap identity \<Rightarrow> with_files w (remove_verified_file sha (tj_swap j) (the (tj_before_sha j)) (Some identity) fs)
      | Remove_prepared identity \<Rightarrow> with_files w (remove_verified_file sha (tj_prepared j) (tj_after_sha j) (Some identity) fs)
      | Remove_backup \<Rightarrow>
          sbind (verified_journal_backup env w j False) (\<lambda>backup.
            case backup of
              None \<Rightarrow> Inr w
            | Some b \<Rightarrow> with_files w (remove_verified_file sha (the (tj_backup_path j)) (cp_sha b) (Some (cp_identity b)) fs))
      | Commit_candidate reference \<Rightarrow>
          append_candidate_revision (tj_candidate j) (tj_candidate_revision j)
            (commit_revision (recovery_reason (tj_operation j)) now j) (commit_change j (tj_created_at j) reference) w
      | Remove_journal \<Rightarrow> Inr (remove_transaction (tj_id j) w))"

definition plan_transaction :: "skill_env \<Rightarrow> skill_store \<Rightarrow> skill_journal \<Rightarrow> jstr + recovery_action list \<times> recovery_outcome" where
  "plan_transaction env w j =
     (case find_skill_candidate w (tj_candidate j) of
        None \<Rightarrow> Inl (js ''journal candidate is missing'')
      | Some c \<Rightarrow>
          sbind (validate_journal_paths env w j c) (\<lambda>(_, p).
            sbind (file_hash_or_null (sv_sha env) (ks_files w) (tj_target j)) (\<lambda>target.
              sbind (file_hash_or_null (sv_sha env) (ks_files w) (tj_swap j)) (\<lambda>swap.
                sbind (file_hash_or_null (sv_sha env) (ks_files w) (tj_prepared j)) (\<lambda>prepared.
                  recovery_plan env w j c p target swap prepared)))))"

record recovery_report =
  rr_recovered :: "(jstr \<times> recovery_outcome) list"
  rr_unresolved :: "(jstr \<times> jstr) list"

definition recover_transaction ::
  "skill_env \<Rightarrow> nat \<Rightarrow> jstr \<times> skill_journal option \<Rightarrow> skill_store \<times> recovery_report \<Rightarrow> skill_store \<times> recovery_report" where
  "recover_transaction env now entry s =
     (let (w, report) = s;
          unresolved = (\<lambda>w e. (w, report\<lparr>rr_unresolved := rr_unresolved report @ [(fst entry, e)]\<rparr>))
      in case snd entry of
           None \<Rightarrow> unresolved w (js ''unexpected transaction entry'')
         | Some j \<Rightarrow>
             (case guard (tj_id j = fst entry) (js ''transaction filename does not match journal identity'') (plan_transaction env w j) of
                Inl e \<Rightarrow> unresolved w e
              | Inr (actions, outcome) \<Rightarrow>
                  (case run_steps (recovery_action_step env now j) actions w of
                     (w', Some e) \<Rightarrow> unresolved w' e
                   | (w', None) \<Rightarrow> (w', report\<lparr>rr_recovered := rr_recovered report @ [(fst entry, outcome)]\<rparr>))))"

definition SKILL_TRANSACTION_SCAN_MAX :: nat where "SKILL_TRANSACTION_SCAN_MAX = 128"

definition recover_skill_transactions :: "skill_env \<Rightarrow> nat \<Rightarrow> skill_store \<Rightarrow> jstr + skill_store \<times> recovery_report" where
  "recover_skill_transactions env now w =
     guard (length (ks_transactions w) \<le> SKILL_TRANSACTION_SCAN_MAX) (js ''skill-evolution transaction scan exceeded its bound'')
       (Inr (fold (recover_transaction env now) (ks_transactions w) (w, \<lparr>rr_recovered = [], rr_unresolved = []\<rparr>)))"

text \<open>A publication starts only when every earlier transaction has been resolved.\<close>

definition publish_prepared :: "skill_env \<Rightarrow> nat \<Rightarrow> skill_store \<Rightarrow> (skill_store \<Rightarrow> jstr + publication) \<Rightarrow> skill_store \<times> jstr option" where
  "publish_prepared env now w prepare =
     (case recover_skill_transactions env now w of
        Inl e \<Rightarrow> (w, Some e)
      | Inr (w', report) \<Rightarrow>
          if rr_unresolved report \<noteq> [] then (w', Some (js ''skill transaction recovery is unresolved''))
          else (case prepare w' of Inl e \<Rightarrow> (w', Some e) | Inr pb \<Rightarrow> publish env now pb w'))"

definition promote_skill_candidate :: "skill_env \<Rightarrow> nat \<Rightarrow> skill_store \<Rightarrow> jstr \<Rightarrow> jstr \<Rightarrow> jstr \<Rightarrow> skill_store \<times> jstr option" where
  "promote_skill_candidate env now w candidate actor transaction =
     publish_prepared env now w (\<lambda>w'. prepare_promotion env w' candidate actor transaction now)"

definition rollback_skill_candidate :: "skill_env \<Rightarrow> nat \<Rightarrow> skill_store \<Rightarrow> jstr \<Rightarrow> jstr \<Rightarrow> jstr \<Rightarrow> skill_store \<times> jstr option" where
  "rollback_skill_candidate env now w candidate actor transaction =
     publish_prepared env now w (\<lambda>w'. prepare_rollback env w' candidate actor transaction now)"

end
