(* ===== verification/Skill_Recovery.thy ===== *)
theory Skill_Recovery
  imports Skill_Publication
begin

text \<open>
  A publication that dies at any phase, and recoveries that die in between, never lose the file they
  replace: the states they leave are \<open>in_flight\<close>, and a complete recovery ends them with the file as it was
  or with the new one published and committed.
\<close>

section \<open>Steps that succeed\<close>

text \<open>Every step succeeds, every state before a step satisfies \<open>C\<close>, the last one \<open>R\<close>.\<close>

fun safely :: "('a \<Rightarrow> 's \<Rightarrow> 'e + 's) \<Rightarrow> ('a \<Rightarrow> 's \<Rightarrow> bool) \<Rightarrow> 'a list \<Rightarrow> ('s \<Rightarrow> bool) \<Rightarrow> 's \<Rightarrow> bool" where
  "safely f C [] R s \<longleftrightarrow> R s"
| "safely f C (a # as) R s \<longleftrightarrow> C a s \<and> (case f a s of Inl e \<Rightarrow> False | Inr s' \<Rightarrow> safely f C as R s')"

lemma safely_mono: "safely f C as R s \<Longrightarrow> (\<And>s. R s \<Longrightarrow> R' s) \<Longrightarrow> safely f C as R' s"
  by (induction as arbitrary: s) (auto split: sum.splits)

lemma safely_prefix:
  "safely f C as R s \<Longrightarrow> k < length as \<Longrightarrow> \<exists>s'. run_steps f (take k as) s = (s', None) \<and> C (as ! k) s'"
proof (induction as arbitrary: s k)
  case (Cons a as)
  then show ?case by (cases k) (auto split: sum.splits)
qed simp

lemma safely_complete: "safely f C as R s \<Longrightarrow> \<exists>s'. run_steps f as s = (s', None) \<and> R s'"
  by (induction as arbitrary: s) (auto split: sum.splits)

section \<open>What a publication starts from\<close>

definition node_numbers_ok :: "file_system \<Rightarrow> bool" where
  "node_numbers_ok fs \<longleftrightarrow> (\<forall>path node. fs_names fs path = Some node \<longrightarrow> node < fs_next fs)"

definition own_paths :: "skill_journal \<Rightarrow> jstr list" where
  "own_paths j = [tj_target j, tj_swap j, tj_prepared j] @ (case own_backup j of None \<Rightarrow> [] | Some b \<Rightarrow> [b])"

definition committed_candidates :: "nat \<Rightarrow> jstr \<Rightarrow> skill_journal \<Rightarrow> nat \<Rightarrow> backup_reference option \<Rightarrow> skill_candidate \<Rightarrow> skill_candidate list \<Rightarrow> skill_candidate list" where
  "committed_candidates now reason j at backup c cs =
     replace_candidate (tj_candidate j)
       (commit_change j at backup
         (c\<lparr>sk_state := kr_state (commit_revision reason now j), sk_current_revision := Suc (sk_current_revision c),
            sk_revisions := sk_revisions c @ [commit_revision reason now j], sk_updated_at := now\<rparr>)) cs"

definition backup_made :: "skill_env \<Rightarrow> publication \<Rightarrow> backup_reference option" where
  "backup_made env pb =
     (case (own_backup (pb_journal pb), pb_before pb) of
        (Some path, Some b) \<Rightarrow> Some \<lparr>br_path = path, br_sha = sv_sha env (cp_bytes b), br_size = length (cp_bytes b)\<rparr>
      | _ \<Rightarrow> None)"

definition ready :: "skill_env \<Rightarrow> publication \<Rightarrow> skill_candidate \<Rightarrow> skill_proposal \<Rightarrow> skill_store \<Rightarrow> bool" where
  "ready env pb c p w \<longleftrightarrow>
     (let j = pb_journal pb; fs = ks_files w; sha = sv_sha env
      in find_skill_candidate w (tj_candidate j) = Some c \<and> sk_id c = tj_candidate j \<and>
        sk_current_revision c = tj_candidate_revision j \<and> sk_current_revision c < SKILL_EVOLUTION_MAX_REVISIONS \<and>
        1 \<le> length (sk_revisions c) \<and> length (sk_revisions c) = sk_current_revision c \<and>
        validate_journal_paths env w j c = Inr (tj_root j, p) \<and>
        fs_directory fs (pb_directory pb) = tj_parent_identity j \<and>
        file_hash_or_null sha fs (tj_target j) = Inr (pb_before pb) \<and>
        tj_before_sha j = map_option cp_sha (pb_before pb) \<and> tj_before_identity j = map_option cp_identity (pb_before pb) \<and>
        distinct (own_paths j) \<and> (\<forall>path \<in> set (tl (own_paths j)). fs_names fs path = None) \<and>
        length (pb_content pb) \<le> SKILL_EVOLUTION_MAX_CONTENT_BYTES \<and> sha (pb_content pb) = tj_after_sha j \<and>
        tj_before_sha j \<noteq> Some (tj_after_sha j) \<and>
        tj_id j \<notin> fst ` set (ks_transactions w) \<and> node_numbers_ok fs \<and>
        pb_backup pb = None \<and> (own_backup j \<noteq> None \<longleftrightarrow> tj_operation j = Promote \<and> pb_before pb \<noteq> None) \<and>
        (tj_operation j = Promote \<longrightarrow>
           (kp_operation p = Create \<longleftrightarrow> pb_before pb = None) \<and> pb_content pb = utf8_encode (kp_content p) \<and>
           tj_backup_sha j = map_option cp_sha (pb_before pb) \<and> tj_backup_size j = map_option (\<lambda>b. length (cp_bytes b)) (pb_before pb) \<and>
           (tj_backup_path j = None \<longleftrightarrow> pb_before pb = None)) \<and>
        (tj_operation j = Rollback \<longrightarrow> pb_before pb \<noteq> None \<and>
           (\<exists>path backup. tj_backup_path j = Some path \<and> path \<notin> set (own_paths j) \<and>
              verified_journal_backup env w j True = Inr (Some backup) \<and> cp_bytes backup = pb_content pb)))"

section \<open>States on the way\<close>

definition laid_out :: "skill_journal \<Rightarrow> (jstr \<Rightarrow> nat option) \<Rightarrow> nat option \<Rightarrow> nat option \<Rightarrow> nat option \<Rightarrow> nat option \<Rightarrow> jstr \<Rightarrow> nat option" where
  "laid_out j names t s p b =
     (let m = names(tj_target j := t, tj_swap j := s, tj_prepared j := p)
      in case own_backup j of None \<Rightarrow> m | Some path \<Rightarrow> m(path := b))"

definition holds_new :: "file_system \<Rightarrow> file_system \<Rightarrow> file_bytes \<Rightarrow> nat option \<Rightarrow> bool" where
  "holds_new fs fs' bytes x \<longleftrightarrow> (\<forall>n. x = Some n \<longrightarrow> fs_next fs \<le> n \<and> n < fs_next fs' \<and> fs_data fs' n = bytes)"

definition old_node :: "publication \<Rightarrow> nat option" where
  "old_node pb = map_option (\<lambda>b. fst (cp_identity b)) (pb_before pb)"

definition files_at ::
  "publication \<Rightarrow> skill_store \<Rightarrow> nat option \<Rightarrow> nat option \<Rightarrow> nat option \<Rightarrow> file_bytes \<Rightarrow> nat option \<Rightarrow> file_bytes \<Rightarrow> file_system \<Rightarrow> bool" where
  "files_at pb w t s p pbytes b bbytes fs \<longleftrightarrow>
     fs_names fs = laid_out (pb_journal pb) (fs_names (ks_files w)) t s p b \<and>
     fs_next (ks_files w) \<le> fs_next fs \<and> (\<forall>n < fs_next (ks_files w). fs_data fs n = fs_data (ks_files w) n) \<and>
     fs_directory fs = fs_directory (ks_files w) \<and>
     holds_new (ks_files w) fs pbytes p \<and> holds_new (ks_files w) fs bbytes b \<and> (p = None \<or> p \<noteq> b) \<and>
     (t = None \<or> t = old_node pb \<or> holds_new (ks_files w) fs (pb_content pb) t \<and> t \<noteq> b)"

definition old_bytes :: "publication \<Rightarrow> file_bytes" where
  "old_bytes pb = (case pb_before pb of None \<Rightarrow> [] | Some b \<Rightarrow> cp_bytes b)"

definition same_task :: "publication \<Rightarrow> publication \<Rightarrow> bool" where
  "same_task pb pb' \<longleftrightarrow>
     pb_journal pb' = pb_journal pb \<and> pb_directory pb' = pb_directory pb \<and> pb_content pb' = pb_content pb \<and> pb_before pb' = pb_before pb"

lemma holds_new_None [simp]: "holds_new fs fs' bytes None"
  by (simp add: holds_new_def)

lemma laid_out_at:
  assumes "distinct (own_paths j)"
  shows "laid_out j names t s p b (tj_target j) = t" "laid_out j names t s p b (tj_swap j) = s"
    "laid_out j names t s p b (tj_prepared j) = p" "own_backup j = Some path \<Longrightarrow> laid_out j names t s p b path = b"
    "path \<notin> set (own_paths j) \<Longrightarrow> laid_out j names t s p b path = names path"
  using assms by (auto simp: laid_out_def own_paths_def Let_def split: option.splits)

lemma laid_out_update:
  assumes "distinct (own_paths j)"
  shows "(laid_out j names t s p b)(tj_target j := x) = laid_out j names x s p b"
    "(laid_out j names t s p b)(tj_swap j := x) = laid_out j names t x p b"
    "(laid_out j names t s p b)(tj_prepared j := x) = laid_out j names t s x b"
    "own_backup j = Some path \<Longrightarrow> (laid_out j names t s p b)(path := x) = laid_out j names t s p x"
  using assms by (auto simp: laid_out_def own_paths_def Let_def fun_eq_iff split: option.splits)

definition flight ::
  "publication \<Rightarrow> skill_store \<Rightarrow> skill_candidate list \<Rightarrow> nat option \<Rightarrow> nat option \<Rightarrow> nat option \<Rightarrow> file_bytes \<Rightarrow> nat option \<Rightarrow> file_bytes \<Rightarrow>
   skill_store \<Rightarrow> bool" where
  "flight pb w cands t s p pbytes b bbytes w' \<longleftrightarrow>
     ks_candidates w' = cands \<and> ks_transactions w' = ks_transactions w @ [(tj_id (pb_journal pb), Some (pb_journal pb))] \<and>
     files_at pb w t s p pbytes b bbytes (ks_files w')"

definition stage ::
  "publication \<Rightarrow> skill_store \<Rightarrow> nat option \<Rightarrow> nat option \<Rightarrow> nat option \<Rightarrow> file_bytes \<Rightarrow> nat option \<Rightarrow> file_bytes \<Rightarrow>
   backup_reference option \<Rightarrow> file_identity option \<Rightarrow> file_identity option \<Rightarrow> publication \<times> skill_store \<Rightarrow> bool" where
  "stage pb w t s p pbytes b bbytes kback kprep kswap st \<longleftrightarrow>
     same_task pb (fst st) \<and> flight pb w (ks_candidates w) t s p pbytes b bbytes (snd st) \<and>
     pb_backup (fst st) = kback \<and> pb_prepared (fst st) = kprep \<and> pb_swap (fst st) = kswap"

lemma ready_facts:
  assumes "ready env pb c p w"
  shows "distinct (own_paths (pb_journal pb))" "fs_directory (ks_files w) (pb_directory pb) = tj_parent_identity (pb_journal pb)"
    "length (pb_content pb) \<le> SKILL_EVOLUTION_MAX_CONTENT_BYTES" "sv_sha env (pb_content pb) = tj_after_sha (pb_journal pb)"
    "own_backup (pb_journal pb) \<noteq> None \<longleftrightarrow> tj_operation (pb_journal pb) = Promote \<and> pb_before pb \<noteq> None"
    "tj_before_sha (pb_journal pb) = map_option cp_sha (pb_before pb)"
    "tj_before_identity (pb_journal pb) = map_option cp_identity (pb_before pb)"
    "tj_before_sha (pb_journal pb) \<noteq> Some (tj_after_sha (pb_journal pb))"
    "file_hash_or_null (sv_sha env) (ks_files w) (tj_target (pb_journal pb)) = Inr (pb_before pb)"
    "node_numbers_ok (ks_files w)" "\<forall>path \<in> set (tl (own_paths (pb_journal pb))). fs_names (ks_files w) path = None"
    "tj_id (pb_journal pb) \<notin> fst ` set (ks_transactions w)" "pb_backup pb = None"
  using assms by (auto simp: ready_def Let_def)

lemma captured_None: "file_hash_or_null sha fs path = Inr None \<longleftrightarrow> fs_names fs path = None"
  by (auto simp: file_hash_or_null_def Let_def split: option.splits)

lemma captured_Some:
  "file_hash_or_null sha fs path = Inr (Some b) \<longleftrightarrow>
     (\<exists>n. fs_names fs path = Some n \<and> length (fs_data fs n) \<le> SKILL_EVOLUTION_MAX_CONTENT_BYTES \<and>
        b = \<lparr>cp_sha = sha (fs_data fs n), cp_identity = (n, length (fs_data fs n)), cp_bytes = fs_data fs n\<rparr>)"
  by (auto simp: file_hash_or_null_def Let_def split: option.splits)

lemma ready_names:
  assumes "ready env pb c p w"
  shows "fs_names (ks_files w) (tj_swap (pb_journal pb)) = None" "fs_names (ks_files w) (tj_prepared (pb_journal pb)) = None"
    "own_backup (pb_journal pb) = Some path \<Longrightarrow> fs_names (ks_files w) path = None"
    "fs_names (ks_files w) (tj_target (pb_journal pb)) = old_node pb"
proof -
  show "fs_names (ks_files w) (tj_swap (pb_journal pb)) = None" "fs_names (ks_files w) (tj_prepared (pb_journal pb)) = None"
    "own_backup (pb_journal pb) = Some path \<Longrightarrow> fs_names (ks_files w) path = None"
    using ready_facts(11) [OF assms] by (auto simp: own_paths_def)
  show "fs_names (ks_files w) (tj_target (pb_journal pb)) = old_node pb"
    using ready_facts(9) [OF assms] by (cases "pb_before pb") (auto simp: captured_Some captured_None old_node_def)
qed

lemma laid_out_start:
  assumes "ready env pb c p w"
  shows "laid_out (pb_journal pb) (fs_names (ks_files w)) (old_node pb) None None None = fs_names (ks_files w)"
  using ready_names [OF assms] by (auto simp: laid_out_def Let_def fun_eq_iff split: option.splits)

lemma ready_before:
  assumes "ready env pb c p w" "pb_before pb = Some b"
  shows "old_node pb = Some (fst (cp_identity b))" "fst (cp_identity b) < fs_next (ks_files w)"
    "cp_bytes b = fs_data (ks_files w) (fst (cp_identity b))" "cp_sha b = sv_sha env (cp_bytes b)"
    "cp_identity b = (fst (cp_identity b), length (cp_bytes b))" "length (cp_bytes b) \<le> SKILL_EVOLUTION_MAX_CONTENT_BYTES"
  using assms(2) ready_facts(9,10) [OF assms(1)] by (auto simp: old_node_def captured_Some node_numbers_ok_def)

text \<open>A name of the old file is captured as before; a name of a new one as what was written.\<close>

lemma capture_new:
  assumes "fs_names fs path = Some n" "fs_data fs n = bytes" "length bytes \<le> SKILL_EVOLUTION_MAX_CONTENT_BYTES"
  shows "file_hash_or_null sha fs path = Inr (Some \<lparr>cp_sha = sha bytes, cp_identity = (n, length bytes), cp_bytes = bytes\<rparr>)"
    "direct_file_hash sha fs path = Inr \<lparr>cp_sha = sha bytes, cp_identity = (n, length bytes), cp_bytes = bytes\<rparr>"
  using assms by (auto simp: file_hash_or_null_def direct_file_hash_def Let_def)

lemma capture_old:
  assumes "ready env pb c p w" "pb_before pb = Some b" "files_at pb w t s q pbytes k bbytes fs"
    and "fs_names fs path = old_node pb"
  shows "file_hash_or_null (sv_sha env) fs path = Inr (Some b)" "direct_file_hash (sv_sha env) fs path = Inr b"
proof -
  note old = ready_before [OF assms(1,2)]
  have "fs_data fs (fst (cp_identity b)) = cp_bytes b" using assms(3) old(2,3) by (simp add: files_at_def)
  moreover have "\<lparr>cp_sha = sv_sha env (cp_bytes b), cp_identity = (fst (cp_identity b), length (cp_bytes b)), cp_bytes = cp_bytes b\<rparr> = b"
    using old(4,5) by (cases b) (simp add: prod_eq_iff)
  ultimately show "file_hash_or_null (sv_sha env) fs path = Inr (Some b)" "direct_file_hash (sv_sha env) fs path = Inr b"
    using capture_new [of fs path "fst (cp_identity b)" "cp_bytes b" "sv_sha env"] old(1,6) assms(4) by simp_all
qed

lemma files_at_names:
  assumes "ready env pb c p w" "files_at pb w t s q pbytes b bbytes fs"
  shows "fs_names fs (tj_target (pb_journal pb)) = t" "fs_names fs (tj_swap (pb_journal pb)) = s"
    "fs_names fs (tj_prepared (pb_journal pb)) = q" "own_backup (pb_journal pb) = Some path \<Longrightarrow> fs_names fs path = b"
    "fs_directory fs (pb_directory pb) = tj_parent_identity (pb_journal pb)"
  using assms(2) laid_out_at [OF ready_facts(1) [OF assms(1)]] ready_facts(2) [OF assms(1)] by (auto simp: files_at_def)

section \<open>The file operations on the way\<close>

lemma files_at_open_prepared:
  assumes "ready env pb c p w" "files_at pb w (old_node pb) s None pbytes b bbytes fs"
  shows "\<exists>fs' n. create_file (tj_prepared (pb_journal pb)) fs = Inr fs' \<and> files_at pb w (old_node pb) s (Some n) [] b bbytes fs'"
  using assms(2) files_at_names(3) [OF assms] laid_out_update(3) [OF ready_facts(1) [OF assms(1)]] ready_before [OF assms(1)]
  by (auto simp: create_file_def files_at_def holds_new_def)

lemma files_at_write_prepared:
  assumes "ready env pb c p w" "files_at pb w (old_node pb) s (Some n) pbytes b bbytes fs"
  shows "\<exists>fs'. write_file (tj_prepared (pb_journal pb)) bytes fs = Inr fs' \<and> files_at pb w (old_node pb) s (Some n) bytes b bbytes fs'"
  using assms(2) files_at_names(3) [OF assms] ready_before [OF assms(1)]
  by (auto simp: write_file_def files_at_def holds_new_def)

lemma files_at_open_backup:
  assumes "ready env pb c p w" "files_at pb w (old_node pb) s None pbytes None bbytes fs" "own_backup (pb_journal pb) = Some path"
  shows "\<exists>fs' n. create_file path fs = Inr fs' \<and> files_at pb w (old_node pb) s None pbytes (Some n) [] fs'"
  using assms(2) files_at_names(4) [OF assms(1,2) assms(3)] laid_out_update(4) [OF ready_facts(1) [OF assms(1)] assms(3)]
    ready_before [OF assms(1)]
  by (auto simp: create_file_def files_at_def holds_new_def)

lemma files_at_write_backup:
  assumes "ready env pb c p w" "files_at pb w (old_node pb) s None pbytes (Some n) bbytes fs" "own_backup (pb_journal pb) = Some path"
  shows "\<exists>fs'. write_file path bytes fs = Inr fs' \<and> files_at pb w (old_node pb) s None pbytes (Some n) bytes fs'"
  using assms(2) files_at_names(4) [OF assms(1,2) assms(3)] ready_before [OF assms(1)]
  by (auto simp: write_file_def files_at_def holds_new_def)

lemma files_at_drop:
  assumes "ready env pb c p w" "files_at pb w t s q pbytes b bbytes fs"
  shows "q \<noteq> None \<Longrightarrow> \<exists>fs'. unlink_file (tj_prepared (pb_journal pb)) fs = Inr fs' \<and> files_at pb w t s None pbytes b bbytes fs'"
    "s \<noteq> None \<Longrightarrow> \<exists>fs'. unlink_file (tj_swap (pb_journal pb)) fs = Inr fs' \<and> files_at pb w t None q pbytes b bbytes fs'"
    "t \<noteq> None \<Longrightarrow> \<exists>fs'. unlink_file (tj_target (pb_journal pb)) fs = Inr fs' \<and> files_at pb w None s q pbytes b bbytes fs'"
    "b \<noteq> None \<Longrightarrow> own_backup (pb_journal pb) = Some path \<Longrightarrow>
       \<exists>fs'. unlink_file path fs = Inr fs' \<and> files_at pb w t s q pbytes None bbytes fs'"
  using assms(2) files_at_names [OF assms] laid_out_update [OF ready_facts(1) [OF assms(1)]]
  by (auto simp: unlink_file_def files_at_def holds_new_def)

lemma files_at_claim:
  assumes "ready env pb c p w" "files_at pb w t None q pbytes b bbytes fs" "t \<noteq> None"
  shows "\<exists>fs'. link_file (tj_target (pb_journal pb)) (tj_swap (pb_journal pb)) fs = Inr fs' \<and> files_at pb w t t q pbytes b bbytes fs'"
proof -
  obtain y where y: "t = Some y" using assms(3) by auto
  have "link_file (tj_target (pb_journal pb)) (tj_swap (pb_journal pb)) fs =
      Inr (fs\<lparr>fs_names := (fs_names fs)(tj_swap (pb_journal pb) \<mapsto> y)\<rparr>)"
    using files_at_names [OF assms(1,2)] y by (simp add: link_file_def)
  moreover have "files_at pb w t t q pbytes b bbytes (fs\<lparr>fs_names := (fs_names fs)(tj_swap (pb_journal pb) \<mapsto> y)\<rparr>)"
    using assms(2) laid_out_update(2) [OF ready_facts(1) [OF assms(1)]] y by (simp add: files_at_def holds_new_def)
  ultimately show ?thesis by blast
qed

lemma files_at_publish:
  assumes "ready env pb c p w" "files_at pb w None s q (pb_content pb) b bbytes fs" "q \<noteq> None"
  shows "\<exists>fs'. link_file (tj_prepared (pb_journal pb)) (tj_target (pb_journal pb)) fs = Inr fs' \<and> files_at pb w q s q (pb_content pb) b bbytes fs'"
  using assms(2,3) files_at_names [OF assms(1,2)] laid_out_update(1) [OF ready_facts(1) [OF assms(1)]]
  by (auto simp: link_file_def files_at_def holds_new_def)

lemma files_at_restore:
  assumes "ready env pb c p w" "files_at pb w None s q pbytes b bbytes fs" "s \<noteq> None" "s = old_node pb"
  shows "\<exists>fs'. link_file (tj_swap (pb_journal pb)) (tj_target (pb_journal pb)) fs = Inr fs' \<and> files_at pb w s s q pbytes b bbytes fs'"
  using assms(2,3,4) files_at_names [OF assms(1,2)] laid_out_update(1) [OF ready_facts(1) [OF assms(1)]]
  by (auto simp: link_file_def files_at_def holds_new_def)

section \<open>The phases\<close>

lemma stage_start:
  assumes "ready env pb c p w"
  shows "\<exists>st. publication_step env now Journal_open (pb, w) = Inr st \<and> same_task pb (fst st) \<and>
      ks_candidates (snd st) = ks_candidates w \<and> ks_files (snd st) = ks_files w \<and>
      ks_transactions (snd st) = ks_transactions w @ [(tj_id (pb_journal pb), None)] \<and> fst st = pb"
  using ready_facts(12) [OF assms] by (simp add: publication_step_def open_transaction_def same_task_def Let_def)

lemma stage_journal:
  assumes "ready env pb c p w" "fst st = pb" "ks_candidates (snd st) = ks_candidates w" "ks_files (snd st) = ks_files w"
    "ks_transactions (snd st) = ks_transactions w @ [(tj_id (pb_journal pb), None)]"
    "pb_prepared pb = None" "pb_swap pb = None"
  shows "\<exists>st'. publication_step env now Journal_write st = Inr st' \<and>
    stage pb w (old_node pb) None None (pb_content pb) None (old_bytes pb) None None None st'"
proof -
  have same: "map (\<lambda>(i, x). if i = tj_id (pb_journal pb) then (i, Some (pb_journal pb)) else (i, x)) (ks_transactions w) = ks_transactions w"
    using ready_facts(12) [OF assms(1)] by (force intro: map_idI)
  show ?thesis
    using assms same laid_out_start [OF assms(1)] ready_facts(13) [OF assms(1)]
    by (auto simp: publication_step_def write_transaction_def stage_def same_task_def flight_def files_at_def Let_def)
qed

lemma exact_before_ok:
  assumes "ready env pb c p w" "same_task pb pb'" "files_at pb w t s q pbytes b bbytes (ks_files w')" "t = old_node pb"
  shows "exact_before env pb' w' = Inr ()"
  using assms capture_old(2) [OF assms(1) _ assms(3)] files_at_names(1) [OF assms(1,3)]
  by (auto simp: exact_before_def same_task_def assert_exact_file_def split: option.splits)

lemma parent_ok:
  assumes "ready env pb c p w" "same_task pb pb'" "files_at pb w t s q pbytes b bbytes (ks_files w')"
  shows "parent_unchanged pb' w' = Inr ()"
  using assms files_at_names(5) [OF assms(1,3)] by (simp add: parent_unchanged_def same_task_def assert_parent_identity_def)

lemmas step_defs = publication_step_def Let_def with_files_def

definition new_backup :: "publication \<Rightarrow> nat option \<Rightarrow> bool" where
  "new_backup pb b \<longleftrightarrow> (b \<noteq> None \<longleftrightarrow> own_backup (pb_journal pb) \<noteq> None)"

lemma stage_backup_open:
  assumes "ready env pb c p w" "stage pb w (old_node pb) None None (pb_content pb) None (old_bytes pb) None None None st"
  shows "\<exists>st' b. publication_step env now Backup_open st = Inr st' \<and> new_backup pb b \<and>
    stage pb w (old_node pb) None None (pb_content pb) b [] None None None st'"
proof -
  have files: "files_at pb w (old_node pb) None None (pb_content pb) None (old_bytes pb) (ks_files (snd st))" and same: "same_task pb (fst st)"
    using assms(2) by (auto simp: stage_def flight_def)
  note ok = exact_before_ok [OF assms(1) same files refl] parent_ok [OF assms(1) same files]
  show ?thesis
  proof (cases "own_backup (pb_journal pb)")
    case None
    then show ?thesis
      using assms(2) ok same ready_facts(5) [OF assms(1)]
      by (intro exI [of _ st] exI [of _ None])
        (auto simp: step_defs stage_def flight_def files_at_def new_backup_def same_task_def)
  next
    case (Some path)
    obtain fs' n where "create_file path (ks_files (snd st)) = Inr fs'" "files_at pb w (old_node pb) None None (pb_content pb) (Some n) [] fs'"
      using files_at_open_backup [OF assms(1) files Some] by blast
    then show ?thesis
      using assms(2) ok same Some ready_facts(5) [OF assms(1)]
      by (intro exI [of _ "(fst st, (snd st)\<lparr>ks_files := fs'\<rparr>)"] exI [of _ "Some n"])
        (auto simp: step_defs stage_def flight_def new_backup_def same_task_def)
  qed
qed

lemma stage_backup_write:
  assumes "ready env pb c p w" "new_backup pb b" "stage pb w (old_node pb) None None (pb_content pb) b [] None None None st"
  shows "\<exists>st'. publication_step env now Backup_write st = Inr st' \<and>
    stage pb w (old_node pb) None None (pb_content pb) b (old_bytes pb) None None None st'"
proof (cases b)
  case None
  then show ?thesis
    using assms ready_facts(5) [OF assms(1)]
    by (intro exI [of _ st]) (auto simp: step_defs stage_def flight_def files_at_def new_backup_def same_task_def)
next
  case (Some n)
  then obtain path x where own: "own_backup (pb_journal pb) = Some path" "pb_before pb = Some x"
    using assms(2) ready_facts(5) [OF assms(1)] by (auto simp: new_backup_def)
  obtain fs' where "write_file path (cp_bytes x) (ks_files (snd st)) = Inr fs'"
      "files_at pb w (old_node pb) None None (pb_content pb) (Some n) (cp_bytes x) fs'"
    using files_at_write_backup [OF assms(1) _ own(1), of None "pb_content pb" n "[]" "ks_files (snd st)" "cp_bytes x"] assms(3) Some
    by (auto simp: stage_def flight_def)
  then show ?thesis
    using assms(3) own Some
    by (intro exI [of _ "(fst st, (snd st)\<lparr>ks_files := fs'\<rparr>)"])
      (auto simp: step_defs stage_def flight_def same_task_def old_bytes_def)
qed

lemma stage_files: "stage pb w t s q pbytes b bbytes kb kp ks st \<Longrightarrow> files_at pb w t s q pbytes b bbytes (ks_files (snd st)) \<and> same_task pb (fst st)"
  by (simp add: stage_def flight_def)

lemma backup_capture:
  assumes "ready env pb c p w" "files_at pb w t s q pbytes (Some n) (old_bytes pb) fs" "own_backup (pb_journal pb) = Some path"
  shows "\<exists>x. pb_before pb = Some x \<and> cp_identity x \<noteq> (n, length (cp_bytes x)) \<and>
    direct_file_hash (sv_sha env) fs path = Inr \<lparr>cp_sha = cp_sha x, cp_identity = (n, length (cp_bytes x)), cp_bytes = cp_bytes x\<rparr> \<and>
    file_hash_or_null (sv_sha env) fs path = Inr (Some \<lparr>cp_sha = cp_sha x, cp_identity = (n, length (cp_bytes x)), cp_bytes = cp_bytes x\<rparr>)"
proof -
  obtain x where x: "pb_before pb = Some x" using ready_facts(5) [OF assms(1)] assms(3) by auto
  note old = ready_before [OF assms(1) x]
  have "fs_names fs path = Some n" "fs_data fs n = cp_bytes x" "fst (cp_identity x) \<noteq> n"
    using assms(2) files_at_names(4) [OF assms(1,2,3)] x old(2) by (auto simp: files_at_def holds_new_def old_bytes_def)
  then show ?thesis using x old(4,6) capture_new [of fs path n "cp_bytes x" "sv_sha env"] by auto
qed

lemma stage_backup_verify:
  assumes "ready env pb c p w" "new_backup pb b" "stage pb w (old_node pb) None None (pb_content pb) b (old_bytes pb) None None None st"
  shows "\<exists>st'. publication_step env now Backup_verify st = Inr st' \<and>
    stage pb w (old_node pb) None None (pb_content pb) b (old_bytes pb) (backup_made env pb) None None st'"
proof (cases b)
  case None
  then show ?thesis
    using assms ready_facts(5) [OF assms(1)]
    by (intro exI [of _ st]) (auto simp: step_defs stage_def new_backup_def same_task_def backup_made_def)
next
  case (Some n)
  then obtain path where own: "own_backup (pb_journal pb) = Some path" using assms(2) by (auto simp: new_backup_def)
  note files = stage_files [OF assms(3)]
  obtain x where x: "pb_before pb = Some x" "cp_identity x \<noteq> (n, length (cp_bytes x))"
      "direct_file_hash (sv_sha env) (ks_files (snd st)) path = Inr \<lparr>cp_sha = cp_sha x, cp_identity = (n, length (cp_bytes x)), cp_bytes = cp_bytes x\<rparr>"
    using backup_capture [OF assms(1) _ own] files Some by blast
  have "exact_before env (fst st) (snd st) = Inr ()"
    using files by (intro exact_before_ok [OF assms(1)]) auto
  then show ?thesis
    using assms(3) own x ready_before(4) [OF assms(1) x(1)]
    by (intro exI [of _ "((fst st)\<lparr>pb_backup := Some \<lparr>br_path = path, br_sha = sv_sha env (cp_bytes x), br_size = length (cp_bytes x)\<rparr>\<rparr>, snd st)"])
      (auto simp: step_defs stage_def same_task_def backup_made_def)
qed

lemma stage_prepared_open:
  assumes "ready env pb c p w" "stage pb w (old_node pb) None None (pb_content pb) b (old_bytes pb) kb None None st"
  shows "\<exists>st' n. publication_step env now Prepared_open st = Inr st' \<and>
    stage pb w (old_node pb) None (Some n) [] b (old_bytes pb) kb None None st'"
proof -
  obtain fs' n where "create_file (tj_prepared (pb_journal pb)) (ks_files (snd st)) = Inr fs'"
      "files_at pb w (old_node pb) None (Some n) [] b (old_bytes pb) fs'"
    using files_at_open_prepared [OF assms(1)] stage_files [OF assms(2)] by blast
  then show ?thesis
    using assms(2) by (intro exI [of _ "(fst st, (snd st)\<lparr>ks_files := fs'\<rparr>)"] exI [of _ n])
      (auto simp: step_defs stage_def flight_def same_task_def)
qed

lemma stage_prepared_write:
  assumes "ready env pb c p w" "stage pb w (old_node pb) None (Some n) [] b (old_bytes pb) kb None None st"
  shows "\<exists>st'. publication_step env now Prepared_write st = Inr st' \<and>
    stage pb w (old_node pb) None (Some n) (pb_content pb) b (old_bytes pb) kb None None st'"
proof -
  obtain fs' where "write_file (tj_prepared (pb_journal pb)) (pb_content pb) (ks_files (snd st)) = Inr fs'"
      "files_at pb w (old_node pb) None (Some n) (pb_content pb) b (old_bytes pb) fs'"
    using files_at_write_prepared [OF assms(1)] stage_files [OF assms(2)] by blast
  then show ?thesis
    using assms(2) by (intro exI [of _ "(fst st, (snd st)\<lparr>ks_files := fs'\<rparr>)"])
      (auto simp: step_defs stage_def flight_def same_task_def)
qed

lemma new_capture:
  assumes "ready env pb c p w" "files_at pb w t s (Some n) (pb_content pb) b bbytes fs" "fs_names fs path = Some n"
  shows "direct_file_hash (sv_sha env) fs path =
      Inr \<lparr>cp_sha = tj_after_sha (pb_journal pb), cp_identity = (n, length (pb_content pb)), cp_bytes = pb_content pb\<rparr>"
  using assms(2,3) ready_facts(3,4) [OF assms(1)] capture_new(2) [of fs path n "pb_content pb" "sv_sha env"]
  by (auto simp: files_at_def holds_new_def)

lemma stage_prepared_verify:
  assumes "ready env pb c p w" "stage pb w (old_node pb) None (Some n) (pb_content pb) b (old_bytes pb) kb None None st"
  shows "\<exists>st'. publication_step env now Prepared_verify st = Inr st' \<and>
    stage pb w (old_node pb) None (Some n) (pb_content pb) b (old_bytes pb) kb (Some (n, length (pb_content pb))) None st'"
proof -
  note files = stage_files [OF assms(2), THEN conjunct1] stage_files [OF assms(2), THEN conjunct2]
  show ?thesis
    using assms(2) parent_ok [OF assms(1) files(2,1)] new_capture [OF assms(1) files(1) files_at_names(3) [OF assms(1) files(1)]]
    by (intro exI [of _ "((fst st)\<lparr>pb_prepared := Some (n, length (pb_content pb))\<rparr>, snd st)"])
      (auto simp: step_defs stage_def same_task_def)
qed

lemma stage_claim:
  assumes "ready env pb c p w" "stage pb w (old_node pb) None (Some n) (pb_content pb) b (old_bytes pb) kb kp None st"
  shows "\<exists>st'. publication_step env now Claim st = Inr st' \<and>
    stage pb w (old_node pb) (old_node pb) (Some n) (pb_content pb) b (old_bytes pb) kb kp None st'"
proof (cases "pb_before pb")
  case None
  then show ?thesis using assms(2) by (intro exI [of _ st]) (auto simp: step_defs stage_def same_task_def old_node_def)
next
  case (Some x)
  obtain fs' where "link_file (tj_target (pb_journal pb)) (tj_swap (pb_journal pb)) (ks_files (snd st)) = Inr fs'"
      "files_at pb w (old_node pb) (old_node pb) (Some n) (pb_content pb) b (old_bytes pb) fs'"
    using files_at_claim [OF assms(1)] stage_files [OF assms(2)] Some by (force simp: old_node_def)
  then show ?thesis
    using assms(2) Some by (intro exI [of _ "(fst st, (snd st)\<lparr>ks_files := fs'\<rparr>)"])
      (auto simp: step_defs stage_def flight_def same_task_def)
qed

lemma stage_claim_verify:
  assumes "ready env pb c p w" "stage pb w (old_node pb) (old_node pb) (Some n) (pb_content pb) b (old_bytes pb) kb kp None st"
  shows "\<exists>st'. publication_step env now Claim_verify st = Inr st' \<and>
    stage pb w (old_node pb) (old_node pb) (Some n) (pb_content pb) b (old_bytes pb) kb kp (map_option cp_identity (pb_before pb)) st'"
proof (cases "pb_before pb")
  case None
  then show ?thesis using assms(2) by (intro exI [of _ st]) (auto simp: step_defs stage_def same_task_def)
next
  case (Some x)
  note files = stage_files [OF assms(2), THEN conjunct1] stage_files [OF assms(2), THEN conjunct2]
  show ?thesis
    using assms(2) Some exact_before_ok [OF assms(1) files(2,1) refl]
      capture_old(2) [OF assms(1) Some files(1) files_at_names(2) [OF assms(1) files(1)]]
    by (intro exI [of _ "((fst st)\<lparr>pb_swap := Some (cp_identity x)\<rparr>, snd st)"]) (auto simp: step_defs stage_def same_task_def)
qed

lemma stage_unlink:
  assumes "ready env pb c p w" "stage pb w (old_node pb) (old_node pb) (Some n) (pb_content pb) b (old_bytes pb) kb kp ks st"
  shows "\<exists>st'. publication_step env now Unlink st = Inr st' \<and>
    stage pb w None (old_node pb) (Some n) (pb_content pb) b (old_bytes pb) kb kp ks st'"
proof -
  note files = stage_files [OF assms(2), THEN conjunct1] stage_files [OF assms(2), THEN conjunct2]
  note ok = parent_ok [OF assms(1) files(2,1)] exact_before_ok [OF assms(1) files(2,1) refl] files_at_names(1) [OF assms(1) files(1)]
  show ?thesis
  proof (cases "pb_before pb")
    case None
    then show ?thesis
      using assms(2) ok by (intro exI [of _ st]) (auto simp: step_defs stage_def same_task_def old_node_def)
  next
    case (Some x)
    obtain fs' where "unlink_file (tj_target (pb_journal pb)) (ks_files (snd st)) = Inr fs'"
        "files_at pb w None (old_node pb) (Some n) (pb_content pb) b (old_bytes pb) fs'"
      using files_at_drop(3) [OF assms(1) files(1)] Some by (auto simp: old_node_def)
    then show ?thesis
      using assms(2) ok Some by (intro exI [of _ "(fst st, (snd st)\<lparr>ks_files := fs'\<rparr>)"])
        (auto simp: step_defs stage_def flight_def same_task_def)
  qed
qed

lemma stage_publish:
  assumes "ready env pb c p w" "stage pb w None (old_node pb) (Some n) (pb_content pb) b (old_bytes pb) kb kp ks st"
  shows "\<exists>st'. publication_step env now Publish st = Inr st' \<and>
    stage pb w (Some n) (old_node pb) (Some n) (pb_content pb) b (old_bytes pb) kb kp ks st'"
proof -
  note files = stage_files [OF assms(2), THEN conjunct1] stage_files [OF assms(2), THEN conjunct2]
  obtain fs' where "link_file (tj_prepared (pb_journal pb)) (tj_target (pb_journal pb)) (ks_files (snd st)) = Inr fs'"
      "files_at pb w (Some n) (old_node pb) (Some n) (pb_content pb) b (old_bytes pb) fs'"
    using files_at_publish [OF assms(1) files(1)] by auto
  then show ?thesis
    using assms(2) parent_ok [OF assms(1) files(2,1)]
    by (intro exI [of _ "(fst st, (snd st)\<lparr>ks_files := fs'\<rparr>)"]) (auto simp: step_defs stage_def flight_def same_task_def)
qed

lemma stage_publish_verify:
  assumes "ready env pb c p w"
    "stage pb w (Some n) (old_node pb) (Some n) (pb_content pb) b (old_bytes pb) kb (Some (n, length (pb_content pb))) ks st"
  shows "publication_step env now Publish_verify st = Inr st"
proof -
  note files = stage_files [OF assms(2), THEN conjunct1] stage_files [OF assms(2), THEN conjunct2]
  show ?thesis
    using assms(2) parent_ok [OF assms(1) files(2,1)] new_capture [OF assms(1) files(1) files_at_names(1) [OF assms(1) files(1)]]
    by (auto simp: step_defs stage_def same_task_def)
qed

lemma remove_captured:
  assumes "direct_file_hash sha fs path = Inr x" "h = cp_sha x" "i = None \<or> i = Some (cp_identity x)"
  shows "remove_verified_file sha path h i fs = unlink_file path fs"
  using assms by (auto simp: remove_verified_file_def direct_file_hash_def file_hash_or_null_def)

lemma stage_drop_prepared:
  assumes "ready env pb c p w"
    "stage pb w (Some n) (old_node pb) (Some n) (pb_content pb) b (old_bytes pb) kb (Some (n, length (pb_content pb))) ks st"
  shows "\<exists>st'. publication_step env now Drop_prepared st = Inr st' \<and>
    stage pb w (Some n) (old_node pb) None (pb_content pb) b (old_bytes pb) kb (Some (n, length (pb_content pb))) ks st'"
proof -
  note files = stage_files [OF assms(2), THEN conjunct1] stage_files [OF assms(2), THEN conjunct2]
  obtain fs' where "unlink_file (tj_prepared (pb_journal pb)) (ks_files (snd st)) = Inr fs'"
      "files_at pb w (Some n) (old_node pb) None (pb_content pb) b (old_bytes pb) fs'"
    using files_at_drop(1) [OF assms(1) files(1)] by auto
  then show ?thesis
    using assms(2) remove_captured [OF new_capture [OF assms(1) files(1) files_at_names(3) [OF assms(1) files(1)]],
        of "tj_after_sha (pb_journal pb)" "Some (n, length (pb_content pb))"]
    by (intro exI [of _ "(fst st, (snd st)\<lparr>ks_files := fs'\<rparr>)"]) (auto simp: step_defs stage_def flight_def same_task_def)
qed

lemma stage_drop_swap:
  assumes "ready env pb c p w"
    "stage pb w (Some n) (old_node pb) None (pb_content pb) b (old_bytes pb) kb kp (map_option cp_identity (pb_before pb)) st"
  shows "\<exists>st'. publication_step env now Drop_swap st = Inr st' \<and>
    stage pb w (Some n) None None (pb_content pb) b (old_bytes pb) kb kp (map_option cp_identity (pb_before pb)) st'"
proof (cases "pb_before pb")
  case None
  then show ?thesis using assms(2) by (intro exI [of _ st]) (auto simp: step_defs stage_def same_task_def old_node_def)
next
  case (Some x)
  note files = stage_files [OF assms(2), THEN conjunct1] stage_files [OF assms(2), THEN conjunct2]
  obtain fs' where "unlink_file (tj_swap (pb_journal pb)) (ks_files (snd st)) = Inr fs'"
      "files_at pb w (Some n) None None (pb_content pb) b (old_bytes pb) fs'"
    using files_at_drop(2) [OF assms(1) files(1)] Some by (auto simp: old_node_def)
  then show ?thesis
    using assms(2) Some remove_captured [OF capture_old(2) [OF assms(1) Some files(1) files_at_names(2) [OF assms(1) files(1)]],
        of "cp_sha x" "Some (cp_identity x)"]
    by (intro exI [of _ "(fst st, (snd st)\<lparr>ks_files := fs'\<rparr>)"]) (auto simp: step_defs stage_def flight_def same_task_def)
qed

lemma append_ready:
  assumes "ready env pb c p w" "ks_candidates w' = ks_candidates w"
  shows "append_candidate_revision (tj_candidate (pb_journal pb)) (tj_candidate_revision (pb_journal pb)) (commit_revision reason now (pb_journal pb))
      (commit_change (pb_journal pb) at backup) w' =
    Inr (w'\<lparr>ks_candidates := committed_candidates now reason (pb_journal pb) at backup c (ks_candidates w)\<rparr>)"
proof -
  have "find_skill_candidate w' (tj_candidate (pb_journal pb)) = Some c"
    using assms by (simp add: ready_def Let_def find_skill_candidate_def)
  moreover have "sk_current_revision c = tj_candidate_revision (pb_journal pb)" "sk_current_revision c < SKILL_EVOLUTION_MAX_REVISIONS"
    using assms by (simp_all add: ready_def Let_def)
  moreover obtain r where "assert_current_revision c = Inr r"
    using assms(1) by (auto simp: ready_def Let_def validate_journal_paths_def)
  then have "load_candidate_revision c (sk_current_revision c) = Inr r" "kr_state r = sk_state c"
    by (auto simp: assert_current_revision_def)
  ultimately show ?thesis
    using assms(2) by (simp add: append_candidate_revision_def committed_candidates_def commit_revision_def)
qed

section \<open>What an interruption leaves\<close>

definition backup_kept :: "publication \<Rightarrow> nat option \<Rightarrow> bool" where
  "backup_kept pb b \<longleftrightarrow> (own_backup (pb_journal pb) \<noteq> None \<longrightarrow> b \<noteq> None)"

definition committed :: "skill_env \<Rightarrow> publication \<Rightarrow> skill_candidate \<Rightarrow> skill_store \<Rightarrow> skill_candidate list \<Rightarrow> bool" where
  "committed env pb c w cands \<longleftrightarrow>
     (\<exists>now reason at. cands = committed_candidates now reason (pb_journal pb) at (backup_made env pb) c (ks_candidates w))"

definition whole :: "skill_env \<Rightarrow> publication \<Rightarrow> skill_candidate \<Rightarrow> skill_store \<Rightarrow> skill_store \<Rightarrow> bool" where
  "whole env pb c w w' \<longleftrightarrow>
     (\<exists>cands t s q b. flight pb w cands t s q (pb_content pb) b (old_bytes pb) w' \<and> (s = None \<or> s = old_node pb) \<and>
        (t = old_node pb \<and> cands = ks_candidates w \<or>
         t = None \<and> s = old_node pb \<and> s \<noteq> None \<and> cands = ks_candidates w \<or>
         t \<noteq> None \<and> t \<noteq> old_node pb \<and> backup_kept pb b \<and> (cands = ks_candidates w \<or> committed env pb c w cands)))"

definition torn :: "publication \<Rightarrow> skill_store \<Rightarrow> phase \<Rightarrow> skill_store \<Rightarrow> bool" where
  "torn pb w phase w' \<longleftrightarrow>
     phase = Journal_write \<and> ks_candidates w' = ks_candidates w \<and> ks_files w' = ks_files w \<and>
       ks_transactions w' = ks_transactions w @ [(tj_id (pb_journal pb), None)] \<or>
     phase = Backup_write \<and> (\<exists>b. new_backup pb b \<and> flight pb w (ks_candidates w) (old_node pb) None None (pb_content pb) b [] w') \<or>
     phase = Prepared_write \<and> (\<exists>n b. flight pb w (ks_candidates w) (old_node pb) None (Some n) [] b (old_bytes pb) w')"

definition published :: "skill_env \<Rightarrow> publication \<Rightarrow> skill_candidate \<Rightarrow> skill_store \<Rightarrow> skill_store \<Rightarrow> bool" where
  "published env pb c w w' \<longleftrightarrow>
     ks_transactions w' = ks_transactions w \<and> committed env pb c w (ks_candidates w') \<and>
     (\<exists>n b. fs_next (ks_files w) \<le> n \<and> backup_kept pb b \<and>
        files_at pb w (Some n) None None (pb_content pb) b (old_bytes pb) (ks_files w'))"

definition untouched :: "skill_store \<Rightarrow> skill_store \<Rightarrow> bool" where
  "untouched w w' \<longleftrightarrow>
     ks_transactions w' = ks_transactions w \<and> ks_candidates w' = ks_candidates w \<and>
     fs_names (ks_files w') = fs_names (ks_files w) \<and> fs_directory (ks_files w') = fs_directory (ks_files w) \<and>
     (\<forall>n < fs_next (ks_files w). fs_data (ks_files w') n = fs_data (ks_files w) n)"

lemma stage_whole:
  assumes "ready env pb c p w" "stage pb w t s q (pb_content pb) b (old_bytes pb) kb kp ks st"
    and "t = old_node pb \<or> t = None \<and> s \<noteq> None \<or> (\<exists>n. t = Some n \<and> fs_next (ks_files w) \<le> n \<and> backup_kept pb b)" "s = None \<or> s = old_node pb"
  shows "whole env pb c w (snd st)"
proof -
  have "Some n \<noteq> old_node pb" if "fs_next (ks_files w) \<le> n" for n
    using that ready_before(1,2) [OF assms(1)] by (cases "pb_before pb") (force simp: old_node_def)+
  then show ?thesis
    using assms(2-4) unfolding whole_def stage_def by (metis option.distinct(1))
qed

lemma stage_torn:
  "new_backup pb b \<Longrightarrow> stage pb w (old_node pb) None None (pb_content pb) b [] kb kp ks st \<Longrightarrow> torn pb w Backup_write (snd st)"
  "stage pb w (old_node pb) None (Some n) [] b (old_bytes pb) kb kp ks st \<Longrightarrow> torn pb w Prepared_write (snd st)"
  unfolding torn_def stage_def by blast+

lemma stage_commit:
  assumes "ready env pb c p w" "fs_next (ks_files w) \<le> n" "new_backup pb b"
    "stage pb w (Some n) None None (pb_content pb) b (old_bytes pb) (backup_made env pb) kp ks st"
  shows "\<exists>st'. publication_step env now Commit st = Inr st' \<and> whole env pb c w (snd st') \<and>
    (\<exists>st''. publication_step env now Finish st' = Inr st'' \<and> published env pb c w (snd st''))"
proof -
  let ?j = "pb_journal pb"
  let ?cands = "committed_candidates now (commit_reason (tj_operation ?j)) ?j now (backup_made env pb) c (ks_candidates w)"
  let ?w' = "(snd st)\<lparr>ks_candidates := ?cands\<rparr>"
  have fl: "flight pb w (ks_candidates w) (Some n) None None (pb_content pb) b (old_bytes pb) (snd st)"
    and same: "pb_journal (fst st) = ?j" "pb_backup (fst st) = backup_made env pb"
    using assms(4) by (auto simp: stage_def same_task_def)
  have step: "publication_step env now Commit st = Inr (fst st, ?w')"
    using fl same append_ready [OF assms(1), of "snd st"] by (simp add: step_defs flight_def)
  have kept: "backup_kept pb b" using assms(3) by (simp add: new_backup_def backup_kept_def)
  have new: "Some n \<noteq> old_node pb"
    using assms(2) ready_before(1,2) [OF assms(1)] by (cases "pb_before pb") (force simp: old_node_def)+
  have com: "committed env pb c w ?cands" unfolding committed_def by blast
  have fl': "flight pb w ?cands (Some n) None None (pb_content pb) b (old_bytes pb) ?w'"
    using fl by (simp add: flight_def)
  then have "whole env pb c w ?w'"
    unfolding whole_def using kept new com by blast
  moreover have "publication_step env now Finish (fst st, ?w') = Inr (fst st, remove_transaction (tj_id ?j) ?w')"
    using same by (simp add: step_defs)
  moreover have "filter (\<lambda>e. fst e \<noteq> tj_id ?j) (ks_transactions w) = ks_transactions w"
    using ready_facts(12) [OF assms(1)] by (force intro: filter_True)
  then have "published env pb c w (remove_transaction (tj_id ?j) ?w')"
    using fl' com kept assms(2) unfolding published_def by (auto simp: remove_transaction_def flight_def)
  ultimately show ?thesis using step by auto
qed

text \<open>A crash before \<open>phase\<close>: between the creation of a file and the write of its bytes the file is torn.\<close>

definition interrupted :: "skill_env \<Rightarrow> publication \<Rightarrow> skill_candidate \<Rightarrow> skill_store \<Rightarrow> phase \<Rightarrow> skill_store \<Rightarrow> bool" where
  "interrupted env pb c w phase w' \<longleftrightarrow>
     (if phase = Journal_open then w' = w
      else if phase \<in> {Journal_write, Backup_write, Prepared_write} then torn pb w phase w'
      else whole env pb c w w')"

lemma phases_from_publish:
  assumes "ready env pb c p w" "new_backup pb b" "fs_next (ks_files w) \<le> n"
    "stage pb w None (old_node pb) (Some n) (pb_content pb) b (old_bytes pb) (backup_made env pb) (Some (n, length (pb_content pb)))
       (map_option cp_identity (pb_before pb)) st"
    "whole env pb c w (snd st)"
  shows "safely (publication_step env now) (\<lambda>phase st. interrupted env pb c w phase (snd st))
    [Publish, Publish_verify, Drop_prepared, Drop_swap, Commit, Finish] (\<lambda>st. published env pb c w (snd st)) st"
proof -
  have kept: "\<exists>m. Some n = Some m \<and> fs_next (ks_files w) \<le> m \<and> backup_kept pb b"
    using assms(2,3) by (simp add: new_backup_def backup_kept_def)
  note ok = stage_whole [OF assms(1)]
  obtain s1 where s1: "publication_step env now Publish st = Inr s1"
      "stage pb w (Some n) (old_node pb) (Some n) (pb_content pb) b (old_bytes pb) (backup_made env pb) (Some (n, length (pb_content pb)))
       (map_option cp_identity (pb_before pb)) s1"
    using stage_publish [OF assms(1,4)] by blast
  obtain s2 where s2: "publication_step env now Drop_prepared s1 = Inr s2"
      "stage pb w (Some n) (old_node pb) None (pb_content pb) b (old_bytes pb) (backup_made env pb) (Some (n, length (pb_content pb)))
       (map_option cp_identity (pb_before pb)) s2"
    using stage_drop_prepared [OF assms(1) s1(2)] by blast
  obtain s3 where s3: "publication_step env now Drop_swap s2 = Inr s3"
      "stage pb w (Some n) None None (pb_content pb) b (old_bytes pb) (backup_made env pb) (Some (n, length (pb_content pb)))
       (map_option cp_identity (pb_before pb)) s3"
    using stage_drop_swap [OF assms(1) s2(2)] by blast
  obtain s4 s5 where s4: "publication_step env now Commit s3 = Inr s4" "whole env pb c w (snd s4)"
      "publication_step env now Finish s4 = Inr s5" "published env pb c w (snd s5)"
    using stage_commit [OF assms(1,3,2) s3(2)] by blast
  have "whole env pb c w (snd s1)" "whole env pb c w (snd s2)" "whole env pb c w (snd s3)"
    using ok [OF s1(2)] ok [OF s2(2)] ok [OF s3(2)] kept by simp_all
  then show ?thesis
    using s1(1) s2(1) s3(1) s4 assms(5) stage_publish_verify [OF assms(1) s1(2)] by (simp add: interrupted_def)
qed

lemma phases_from_prepared:
  assumes "ready env pb c p w" "new_backup pb b"
    "stage pb w (old_node pb) None None (pb_content pb) b (old_bytes pb) (backup_made env pb) None None st"
  shows "safely (publication_step env now) (\<lambda>phase st. interrupted env pb c w phase (snd st))
    [Prepared_open, Prepared_write, Prepared_verify, Claim, Claim_verify, Unlink, Publish, Publish_verify, Drop_prepared, Drop_swap, Commit, Finish]
    (\<lambda>st. published env pb c w (snd st)) st"
proof -
  note ok = stage_whole [OF assms(1)]
  obtain s1 n where s1: "publication_step env now Prepared_open st = Inr s1"
      "stage pb w (old_node pb) None (Some n) [] b (old_bytes pb) (backup_made env pb) None None s1"
    using stage_prepared_open [OF assms(1,3)] by blast
  have n: "fs_next (ks_files w) \<le> n" using s1(2) by (simp add: stage_def flight_def files_at_def holds_new_def)
  obtain s2 where s2: "publication_step env now Prepared_write s1 = Inr s2"
      "stage pb w (old_node pb) None (Some n) (pb_content pb) b (old_bytes pb) (backup_made env pb) None None s2"
    using stage_prepared_write [OF assms(1) s1(2)] by blast
  obtain s3 where s3: "publication_step env now Prepared_verify s2 = Inr s3"
      "stage pb w (old_node pb) None (Some n) (pb_content pb) b (old_bytes pb) (backup_made env pb) (Some (n, length (pb_content pb))) None s3"
    using stage_prepared_verify [OF assms(1) s2(2)] by blast
  obtain s4 where s4: "publication_step env now Claim s3 = Inr s4"
      "stage pb w (old_node pb) (old_node pb) (Some n) (pb_content pb) b (old_bytes pb) (backup_made env pb) (Some (n, length (pb_content pb))) None s4"
    using stage_claim [OF assms(1) s3(2)] by blast
  obtain s5 where s5: "publication_step env now Claim_verify s4 = Inr s5"
      "stage pb w (old_node pb) (old_node pb) (Some n) (pb_content pb) b (old_bytes pb) (backup_made env pb) (Some (n, length (pb_content pb)))
         (map_option cp_identity (pb_before pb)) s5"
    using stage_claim_verify [OF assms(1) s4(2)] by blast
  obtain s6 where s6: "publication_step env now Unlink s5 = Inr s6"
      "stage pb w None (old_node pb) (Some n) (pb_content pb) b (old_bytes pb) (backup_made env pb) (Some (n, length (pb_content pb)))
         (map_option cp_identity (pb_before pb)) s6"
    using stage_unlink [OF assms(1) s5(2)] by blast
  have "whole env pb c w (snd st)" "whole env pb c w (snd s2)" "whole env pb c w (snd s3)" "whole env pb c w (snd s4)" "whole env pb c w (snd s5)"
    using ok [OF assms(3)] ok [OF s2(2)] ok [OF s3(2)] ok [OF s4(2)] ok [OF s5(2)] by simp_all
  moreover have "whole env pb c w (snd s6)"
    using ok [OF s6(2)] by (cases "old_node pb") simp_all
  moreover note stage_torn(2) [OF s1(2)]
  ultimately show ?thesis
    using s1(1) s2(1) s3(1) s4(1) s5(1) s6(1) phases_from_publish [OF assms(1,2) n s6(2), of now] by (simp add: interrupted_def)
qed

lemma phases_safe:
  assumes "ready env pb c p w" "pb_prepared pb = None" "pb_swap pb = None"
  shows "safely (publication_step env now) (\<lambda>phase st. interrupted env pb c w phase (snd st)) (journal_phases @ file_phases)
    (\<lambda>st. published env pb c w (snd st)) (pb, w)"
proof -
  note ok = stage_whole [OF assms(1)]
  obtain s0 where s0: "publication_step env now Journal_open (pb, w) = Inr s0" "ks_candidates (snd s0) = ks_candidates w"
      "ks_files (snd s0) = ks_files w" "ks_transactions (snd s0) = ks_transactions w @ [(tj_id (pb_journal pb), None)]" "fst s0 = pb"
    using stage_start [OF assms(1)] by blast
  obtain s1 where s1: "publication_step env now Journal_write s0 = Inr s1"
      "stage pb w (old_node pb) None None (pb_content pb) None (old_bytes pb) None None None s1"
    using stage_journal [OF assms(1) s0(5,2,3,4) assms(2,3)] by blast
  obtain s2 b where s2: "publication_step env now Backup_open s1 = Inr s2" "new_backup pb b"
      "stage pb w (old_node pb) None None (pb_content pb) b [] None None None s2"
    using stage_backup_open [OF assms(1) s1(2)] by blast
  obtain s3 where s3: "publication_step env now Backup_write s2 = Inr s3"
      "stage pb w (old_node pb) None None (pb_content pb) b (old_bytes pb) None None None s3"
    using stage_backup_write [OF assms(1) s2(2,3)] by blast
  obtain s4 where s4: "publication_step env now Backup_verify s3 = Inr s4"
      "stage pb w (old_node pb) None None (pb_content pb) b (old_bytes pb) (backup_made env pb) None None s4"
    using stage_backup_verify [OF assms(1) s2(2) s3(2)] by blast
  have "torn pb w Journal_write (snd s0)" using s0 unfolding torn_def by blast
  moreover note stage_torn(1) [OF s2(2,3)]
  moreover have "whole env pb c w (snd s1)" "whole env pb c w (snd s3)"
    using ok [OF s1(2)] ok [OF s3(2)] by simp_all
  ultimately show ?thesis
    using s0(1) s1(1) s2(1) s3(1) s4(1) phases_from_prepared [OF assms(1) s2(2) s4(2), of now]
    by (simp add: journal_phases_def file_phases_def interrupted_def)
qed

section \<open>Recovery\<close>

definition seen :: "publication \<Rightarrow> nat option \<Rightarrow> capture option" where
  "seen pb x =
     (case x of
        None \<Rightarrow> None
      | Some n \<Rightarrow> if x = old_node pb then pb_before pb
          else Some \<lparr>cp_sha = tj_after_sha (pb_journal pb), cp_identity = (n, length (pb_content pb)), cp_bytes = pb_content pb\<rparr>)"

lemma old_not_new: "ready env pb c p w \<Longrightarrow> holds_new (ks_files w) fs bytes x \<Longrightarrow> x \<noteq> None \<Longrightarrow> x \<noteq> old_node pb"
  using ready_before(1,2) [of env pb c p w] by (cases "pb_before pb") (force simp: holds_new_def old_node_def)+

lemma seen_file:
  assumes "ready env pb c p w" "files_at pb w t s q pbytes b bbytes fs" "fs_names fs path = x"
    and "x = None \<or> x = old_node pb \<or> holds_new (ks_files w) fs (pb_content pb) x"
  shows "file_hash_or_null (sv_sha env) fs path = Inr (seen pb x)"
proof (cases x)
  case None
  then show ?thesis using assms(3) by (simp add: seen_def captured_None)
next
  case (Some n)
  show ?thesis
  proof (cases "x = old_node pb")
    case True
    then obtain a where a: "pb_before pb = Some a" using Some by (cases "pb_before pb") (auto simp: old_node_def)
    have "old_node pb = Some n" using True Some by simp
    then show ?thesis using capture_old(1) [OF assms(1) a assms(2)] True assms(3) a by (simp add: seen_def)
  next
    case False
    then have "fs_data fs n = pb_content pb" using assms(4) Some by (simp add: holds_new_def)
    then show ?thesis
      using capture_new(1) [of fs path n "pb_content pb" "sv_sha env"] ready_facts(3,4) [OF assms(1)] False Some assms(3)
      by (simp add: seen_def)
  qed
qed

lemma find_replaced:
  "find (\<lambda>x. sk_id x = i) cs = Some c \<Longrightarrow> sk_id c' = i \<Longrightarrow> find (\<lambda>x. sk_id x = i) (replace_candidate i c' cs) = Some c'"
  by (induction cs) (auto simp: replace_candidate_def split: if_splits)

definition committed_candidate :: "nat \<Rightarrow> jstr \<Rightarrow> skill_journal \<Rightarrow> nat \<Rightarrow> backup_reference option \<Rightarrow> skill_candidate \<Rightarrow> skill_candidate" where
  "committed_candidate now reason j at backup c =
     commit_change j at backup
       (c\<lparr>sk_state := kr_state (commit_revision reason now j), sk_current_revision := Suc (sk_current_revision c),
          sk_revisions := sk_revisions c @ [commit_revision reason now j], sk_updated_at := now\<rparr>)"

lemma committed_candidate_fields:
  "sk_id (committed_candidate now reason j at backup c) = sk_id c"
  "sk_is_skill (committed_candidate now reason j at backup c) = sk_is_skill c"
  "sk_state (committed_candidate now reason j at backup c) = (if tj_operation j = Promote then Promoted else Rolled_back)"
  "sk_current_revision (committed_candidate now reason j at backup c) = Suc (sk_current_revision c)"
  "sk_revisions (committed_candidate now reason j at backup c) = sk_revisions c @ [commit_revision reason now j]"
  "sk_target (committed_candidate now reason j at backup c) = sk_target c"
  "tj_operation j = Promote \<Longrightarrow> sk_promoted_hash (committed_candidate now reason j at backup c) = Some (tj_after_sha j)"
  "tj_operation j = Rollback \<Longrightarrow> sk_promoted_hash (committed_candidate now reason j at backup c) = sk_promoted_hash c"
  "tj_operation j = Rollback \<Longrightarrow> sk_promoted_root (committed_candidate now reason j at backup c) = sk_promoted_root c"
  "tj_operation j = Rollback \<Longrightarrow> sk_backup (committed_candidate now reason j at backup c) = sk_backup c"
  by (simp_all add: committed_candidate_def commit_change_def commit_revision_def)

lemma find_in_flight:
  assumes "ready env pb c p w"
  shows "ks_candidates w' = ks_candidates w \<Longrightarrow> find_skill_candidate w' (tj_candidate (pb_journal pb)) = Some c"
    "ks_candidates w' = committed_candidates now reason (pb_journal pb) at backup c (ks_candidates w) \<Longrightarrow>
      find_skill_candidate w' (tj_candidate (pb_journal pb)) = Some (committed_candidate now reason (pb_journal pb) at backup c)"
proof -
  have found: "find (\<lambda>x. sk_id x = tj_candidate (pb_journal pb)) (ks_candidates w) = Some c" "sk_id c = tj_candidate (pb_journal pb)"
    using assms by (simp_all add: ready_def Let_def find_skill_candidate_def)
  then show "ks_candidates w' = ks_candidates w \<Longrightarrow> find_skill_candidate w' (tj_candidate (pb_journal pb)) = Some c"
    by (simp add: find_skill_candidate_def)
  show "ks_candidates w' = committed_candidates now reason (pb_journal pb) at backup c (ks_candidates w) \<Longrightarrow>
      find_skill_candidate w' (tj_candidate (pb_journal pb)) = Some (committed_candidate now reason (pb_journal pb) at backup c)"
    using find_replaced [OF found(1), of "committed_candidate now reason (pb_journal pb) at backup c"] found(2)
    by (simp add: find_skill_candidate_def committed_candidates_def committed_candidate_fields flip: committed_candidate_def)
qed

lemma skill_operation_cases: "tj_operation j \<noteq> Promote \<longleftrightarrow> tj_operation j = Rollback"
  by (cases "tj_operation j") simp_all

lemma validatedE:
  assumes "validate_journal_paths env w j c = Inr (root, p)"
  obtains r t where "candidate_proposal c = Inr p" "sv_skill_ok env (kp_content p) (kp_target p)" "sk_target c = Some (kp_target p)"
    "assert_current_revision c = Inr r" "(if tj_operation j = Promote then promote_journal_ok env j c p else rollback_journal_ok j c) = Inr ()"
    "journal_root env j p c = Some root" "root \<in> set (sv_roots env)" "configured_skill_target root (kp_target p) = Inr t"
    "sl_path t = tj_target j \<and> sl_root t = tj_root j \<and> swap_path t (tj_id j) = tj_swap j \<and> prepared_path t (tj_id j) = tj_prepared j"
    "fs_directory (ks_files w) (sl_directory t) = tj_parent_identity j"
proof -
  obtain q r u where q: "candidate_proposal c = Inr q" "sv_skill_ok env (kp_content q) (kp_target q)" "sk_target c = Some (kp_target q)"
      "assert_current_revision c = Inr r" "(if tj_operation j = Promote then promote_journal_ok env j c q else rollback_journal_ok j c) = Inr u"
    and rest: "(case journal_root env j q c of
        None \<Rightarrow> Inl (js ''journal skill root is not configured'')
      | Some root \<Rightarrow>
          guard (root \<in> set (sv_roots env)) (js ''journal skill root is not configured'')
            (sbind (configured_skill_target root (kp_target q)) (\<lambda>s.
              guard (sl_path s = tj_target j \<and> sl_root s = tj_root j \<and> swap_path s (tj_id j) = tj_swap j \<and>
                  prepared_path s (tj_id j) = tj_prepared j)
                (js ''journal paths do not match the exact configured candidate target'')
                (guard (fs_directory (ks_files w) (sl_directory s) = tj_parent_identity j) (js ''journal target parent identity changed'')
                  (Inr (root, q)))))) = Inr (root, p)"
    using assms unfolding validate_journal_paths_def sbind_Inr guard_Inr by (elim exE conjE) (rule that)
  obtain x where x: "journal_root env j q c = Some x" using rest by (cases "journal_root env j q c") simp_all
  obtain t where "x = root" "q = p" "x \<in> set (sv_roots env)" "configured_skill_target x (kp_target q) = Inr t"
      "sl_path t = tj_target j \<and> sl_root t = tj_root j \<and> swap_path t (tj_id j) = tj_swap j \<and> prepared_path t (tj_id j) = tj_prepared j"
      "fs_directory (ks_files w) (sl_directory t) = tj_parent_identity j"
    using rest unfolding x option.case sbind_Inr guard_Inr by blast
  then show thesis using that q x by (cases u) metis
qed

lemma validate_in_flight:
  assumes "ready env pb c p w" "fs_directory (ks_files w') = fs_directory (ks_files w)"
  shows "validate_journal_paths env w' (pb_journal pb) c = Inr (tj_root (pb_journal pb), p)"
    "validate_journal_paths env w' (pb_journal pb) (committed_candidate now reason (pb_journal pb) at backup c) = Inr (tj_root (pb_journal pb), p)"
proof -
  let ?j = "pb_journal pb"
  have v: "validate_journal_paths env w ?j c = Inr (tj_root ?j, p)"
    and rev: "1 \<le> length (sk_revisions c)" "length (sk_revisions c) = sk_current_revision c" "sk_current_revision c = tj_candidate_revision ?j"
    using assms(1) by (simp_all add: ready_def Let_def)
  obtain r t where parts: "candidate_proposal c = Inr p" "sv_skill_ok env (kp_content p) (kp_target p)" "sk_target c = Some (kp_target p)"
      "assert_current_revision c = Inr r" "(if tj_operation ?j = Promote then promote_journal_ok env ?j c p else rollback_journal_ok ?j c) = Inr ()"
      "journal_root env ?j p c = Some (tj_root ?j)" "tj_root ?j \<in> set (sv_roots env)"
      "configured_skill_target (tj_root ?j) (kp_target p) = Inr t"
      "sl_path t = tj_target ?j \<and> sl_root t = tj_root ?j \<and> swap_path t (tj_id ?j) = tj_swap ?j \<and> prepared_path t (tj_id ?j) = tj_prepared ?j"
      "fs_directory (ks_files w) (sl_directory t) = tj_parent_identity ?j"
    using v by (rule validatedE)
  show "validate_journal_paths env w' ?j c = Inr (tj_root ?j, p)"
    unfolding validate_journal_paths_def using parts assms(2) by simp
  let ?c = "committed_candidate now reason ?j at backup c"
  have "load_candidate_revision ?c 1 = load_candidate_revision c 1"
    using rev by (auto simp: load_candidate_revision_def committed_candidate_fields nth_append)
  then have proposal: "candidate_proposal ?c = candidate_proposal c" by (simp add: candidate_proposal_def)
  have last: "load_candidate_revision ?c (sk_current_revision ?c) = Inr (commit_revision reason now ?j)"
    using rev by (simp add: load_candidate_revision_def committed_candidate_fields nth_append)
  then have current: "assert_current_revision ?c = Inr (commit_revision reason now ?j)"
    by (simp add: assert_current_revision_def committed_candidate_fields commit_revision_def)
  have ok: "promote_journal_ok env ?j ?c q = Inr ()" if "promote_journal_ok env ?j c q = Inr ()" "tj_operation ?j = Promote" for q
    using that rev last
    by (cases "kp_basis q") (auto simp: promote_journal_ok_def committed_candidate_fields commit_revision_def split: if_splits)
  have ok': "rollback_journal_ok ?j ?c = Inr ()" if "rollback_journal_ok ?j c = Inr ()" "tj_operation ?j = Rollback"
    using that rev last
    by (auto simp: rollback_journal_ok_def committed_candidate_fields commit_revision_def split: if_splits)
  have "journal_root env ?j p ?c = Some (tj_root ?j)" using parts(6) by (auto simp: journal_root_def committed_candidate_fields)
  moreover have "(if tj_operation ?j = Promote then promote_journal_ok env ?j ?c p else rollback_journal_ok ?j ?c) = Inr ()"
    using parts(5) ok ok' by (simp add: skill_operation_cases split: if_splits)
  ultimately show "validate_journal_paths env w' ?j ?c = Inr (tj_root ?j, p)"
    unfolding validate_journal_paths_def
    using parts(1,2,3,7-10) assms(2) proposal current by (simp add: committed_candidate_fields)
qed

section \<open>The actions of a recovery\<close>

lemma flight_files: "flight pb w cands t s q pbytes b bbytes w' \<Longrightarrow> files_at pb w t s q pbytes b bbytes (ks_files w')"
  by (simp add: flight_def)

lemma act_remove_swap:
  assumes "ready env pb c p w" "flight pb w cands t s q pbytes b bbytes w'" "s = old_node pb" "pb_before pb = Some x"
  shows "\<exists>w''. recovery_action_step env now (pb_journal pb) (Remove_swap (cp_identity x)) w' = Inr w'' \<and>
    flight pb w cands t None q pbytes b bbytes w''"
proof -
  note files = flight_files [OF assms(2)]
  obtain fs' where "unlink_file (tj_swap (pb_journal pb)) (ks_files w') = Inr fs'" "files_at pb w t None q pbytes b bbytes fs'"
    using files_at_drop(2) [OF assms(1) files] assms(3,4) by (auto simp: old_node_def)
  then show ?thesis
    using assms(2) ready_facts(6) [OF assms(1)] assms(4)
      remove_captured [OF capture_old(2) [OF assms(1,4) files], of "tj_swap (pb_journal pb)" "cp_sha x" "Some (cp_identity x)"]
      files_at_names(2) [OF assms(1) files] assms(3)
    by (auto simp: recovery_action_step_def with_files_def Let_def flight_def)
qed

lemma act_remove_prepared:
  assumes "ready env pb c p w" "flight pb w cands t s (Some n) (pb_content pb) b bbytes w'"
  shows "\<exists>w''. recovery_action_step env now (pb_journal pb) (Remove_prepared (n, length (pb_content pb))) w' = Inr w'' \<and>
    flight pb w cands t s None (pb_content pb) b bbytes w''"
proof -
  note files = flight_files [OF assms(2)]
  obtain fs' where "unlink_file (tj_prepared (pb_journal pb)) (ks_files w') = Inr fs'" "files_at pb w t s None (pb_content pb) b bbytes fs'"
    using files_at_drop(1) [OF assms(1) files] by auto
  then show ?thesis
    using assms(2) remove_captured [OF new_capture [OF assms(1) files files_at_names(3) [OF assms(1) files]],
        of "tj_after_sha (pb_journal pb)" "Some (n, length (pb_content pb))"]
    by (auto simp: recovery_action_step_def with_files_def Let_def flight_def)
qed

lemma act_restore:
  assumes "ready env pb c p w" "flight pb w cands None s q pbytes b bbytes w'" "s = old_node pb" "pb_before pb = Some x"
  shows "\<exists>w''. recovery_action_step env now (pb_journal pb) Restore_target w' = Inr w'' \<and>
    flight pb w cands s s q pbytes b bbytes w'' \<and> recovery_action_step env now (pb_journal pb) Verify_target w'' = Inr w''"
proof -
  note files = flight_files [OF assms(2)]
  obtain fs' where fs': "link_file (tj_swap (pb_journal pb)) (tj_target (pb_journal pb)) (ks_files w') = Inr fs'"
      "files_at pb w s s q pbytes b bbytes fs'"
    using files_at_restore [OF assms(1) files] assms(3,4) by (auto simp: old_node_def)
  have "direct_file_hash (sv_sha env) fs' (tj_target (pb_journal pb)) = Inr x"
    using capture_old(2) [OF assms(1,4) fs'(2)] files_at_names(1) [OF assms(1) fs'(2)] assms(3) by simp
  then show ?thesis
    using assms(2,4) fs' ready_facts(6,7) [OF assms(1)]
    by (auto simp: recovery_action_step_def with_files_def Let_def flight_def)
qed

lemma verified_own_backup:
  assumes "ready env pb c p w" "flight pb w cands t s q pbytes b (old_bytes pb) w'" "own_backup (pb_journal pb) = Some path"
  shows "\<exists>x. pb_before pb = Some x \<and> tj_backup_path (pb_journal pb) = Some path \<and>
    (b = None \<longrightarrow> verified_journal_backup env w' (pb_journal pb) False = Inr None) \<and>
    (\<forall>n. b = Some n \<longrightarrow> verified_journal_backup env w' (pb_journal pb) required =
       Inr (Some \<lparr>cp_sha = cp_sha x, cp_identity = (n, length (cp_bytes x)), cp_bytes = cp_bytes x\<rparr>))"
proof -
  obtain x where x: "pb_before pb = Some x" and op: "tj_operation (pb_journal pb) = Promote"
    using ready_facts(5) [OF assms(1)] assms(3) by auto
  have j: "tj_backup_path (pb_journal pb) = Some path" "tj_backup_sha (pb_journal pb) = Some (cp_sha x)"
      "tj_backup_size (pb_journal pb) = Some (length (cp_bytes x))"
    using assms(1,3) x op by (auto simp: ready_def Let_def own_backup_def)
  note files = flight_files [OF assms(2)]
  have "verified_journal_backup env w' (pb_journal pb) False = Inr None" if "b = None"
    using files_at_names(4) [OF assms(1) files assms(3)] that j by (simp add: verified_journal_backup_def captured_None [THEN iffD2])
  moreover have "verified_journal_backup env w' (pb_journal pb) required =
      Inr (Some \<lparr>cp_sha = cp_sha x, cp_identity = (n, length (cp_bytes x)), cp_bytes = cp_bytes x\<rparr>)" if b: "b = Some n" for n
  proof -
    have "file_hash_or_null (sv_sha env) (ks_files w') path =
        Inr (Some \<lparr>cp_sha = cp_sha x, cp_identity = (n, length (cp_bytes x)), cp_bytes = cp_bytes x\<rparr>)" "cp_identity x \<noteq> (n, length (cp_bytes x))"
      using backup_capture [OF assms(1) _ assms(3)] files b x by auto
    then show ?thesis using j x ready_facts(7) [OF assms(1)] by (simp add: verified_journal_backup_def)
  qed
  ultimately show ?thesis using x j(1) by blast
qed

lemma act_remove_backup:
  assumes "ready env pb c p w" "flight pb w cands t s q pbytes b (old_bytes pb) w'" "own_backup (pb_journal pb) = Some path"
  shows "\<exists>w''. recovery_action_step env now (pb_journal pb) Remove_backup w' = Inr w'' \<and>
    flight pb w cands t s q pbytes None (old_bytes pb) w''"
proof (cases b)
  case None
  then show ?thesis
    using verified_own_backup [OF assms, of False] assms(2) by (auto simp: recovery_action_step_def Let_def)
next
  case (Some n)
  note files = flight_files [OF assms(2)]
  obtain fs' where fs': "unlink_file path (ks_files w') = Inr fs'" "files_at pb w t s q pbytes None (old_bytes pb) fs'"
    using files_at_drop(4) [OF assms(1) files _ assms(3)] Some by auto
  obtain x where x: "pb_before pb = Some x" "tj_backup_path (pb_journal pb) = Some path"
      "verified_journal_backup env w' (pb_journal pb) False =
        Inr (Some \<lparr>cp_sha = cp_sha x, cp_identity = (n, length (cp_bytes x)), cp_bytes = cp_bytes x\<rparr>)"
    using verified_own_backup [OF assms, of False] Some by blast
  have "direct_file_hash (sv_sha env) (ks_files w') path = Inr \<lparr>cp_sha = cp_sha x, cp_identity = (n, length (cp_bytes x)), cp_bytes = cp_bytes x\<rparr>"
    using backup_capture [OF assms(1) _ assms(3)] files Some x(1) by auto
  from remove_captured [OF this, of "cp_sha x" "Some (n, length (cp_bytes x))"] show ?thesis
    using assms(2) x fs' by (auto simp: recovery_action_step_def with_files_def Let_def flight_def)
qed

section \<open>A recovery settles the transaction\<close>

lemma whole_before:
  "flight pb w (ks_candidates w) (old_node pb) s q (pb_content pb) b (old_bytes pb) w' \<Longrightarrow> s = None \<or> s = old_node pb \<Longrightarrow> whole env pb c w w'"
  unfolding whole_def by blast

lemma whole_after:
  "flight pb w cands (Some n) s q (pb_content pb) b (old_bytes pb) w' \<Longrightarrow> s = None \<or> s = old_node pb \<Longrightarrow> Some n \<noteq> old_node pb \<Longrightarrow>
   backup_kept pb b \<Longrightarrow> cands = ks_candidates w \<or> committed env pb c w cands \<Longrightarrow> whole env pb c w w'"
  unfolding whole_def by blast

lemma settle_swap:
  assumes "ready env pb c p w" "flight pb w cands t s q (pb_content pb) b (old_bytes pb) w'" "s = None \<or> s = old_node pb" "C w'"
    and "\<And>w''. flight pb w cands t None q (pb_content pb) b (old_bytes pb) w'' \<Longrightarrow>
      safely (recovery_action_step env now (pb_journal pb)) (\<lambda>_. C) as R w''"
  shows "safely (recovery_action_step env now (pb_journal pb)) (\<lambda>_. C) (opt_action Remove_swap (seen pb s) @ as) R w'"
proof (cases s)
  case None
  then show ?thesis using assms by (simp add: seen_def opt_action_def)
next
  case (Some n)
  then obtain x where x: "pb_before pb = Some x" using assms(3) by (cases "pb_before pb") (auto simp: old_node_def)
  obtain w'' where "recovery_action_step env now (pb_journal pb) (Remove_swap (cp_identity x)) w' = Inr w''"
      "flight pb w cands t None q (pb_content pb) b (old_bytes pb) w''"
    using act_remove_swap [OF assms(1,2) _ x] assms(3) Some by blast
  moreover have "old_node pb = Some n" using Some assms(3) by simp
  then have "seen pb s = Some x" using Some x by (simp add: seen_def)
  ultimately show ?thesis using assms(4,5) by (simp add: opt_action_def)
qed

lemma flight_prepared_new:
  assumes "ready env pb c p w" "flight pb w cands t s (Some n) bytes b bbytes w'"
  shows "Some n \<noteq> old_node pb" "fs_next (ks_files w) \<le> n"
  using old_not_new [OF assms(1), of "ks_files w'" bytes "Some n"] assms(2) by (auto simp: flight_def files_at_def holds_new_def)

lemma settle_prepared:
  assumes "ready env pb c p w" "flight pb w cands t s q (pb_content pb) b (old_bytes pb) w'" "C w'"
    and "\<And>w''. flight pb w cands t s None (pb_content pb) b (old_bytes pb) w'' \<Longrightarrow>
      safely (recovery_action_step env now (pb_journal pb)) (\<lambda>_. C) as R w''"
  shows "safely (recovery_action_step env now (pb_journal pb)) (\<lambda>_. C) (opt_action Remove_prepared (seen pb q) @ as) R w'"
proof (cases q)
  case None
  then show ?thesis using assms by (simp add: seen_def opt_action_def)
next
  case (Some n)
  have "Some n \<noteq> old_node pb" using flight_prepared_new [OF assms(1)] assms(2) Some by blast
  then have "seen pb q = Some \<lparr>cp_sha = tj_after_sha (pb_journal pb), cp_identity = (n, length (pb_content pb)), cp_bytes = pb_content pb\<rparr>"
    using Some by (simp add: seen_def)
  then show ?thesis
    using act_remove_prepared [OF assms(1) assms(2) [unfolded Some], of now] assms(3,4) by (auto simp: opt_action_def)
qed

lemma untouched_end:
  assumes "ready env pb c p w" "flight pb w (ks_candidates w) (old_node pb) None None (pb_content pb) b (old_bytes pb) w'"
    "b = None \<or> own_backup (pb_journal pb) = None"
  shows "untouched w (remove_transaction (tj_id (pb_journal pb)) w')"
proof -
  have "filter (\<lambda>e. fst e \<noteq> tj_id (pb_journal pb)) (ks_transactions w) = ks_transactions w"
    using ready_facts(12) [OF assms(1)] by (force intro: filter_True)
  moreover have "laid_out (pb_journal pb) (fs_names (ks_files w)) (old_node pb) None None b = fs_names (ks_files w)"
    using laid_out_start [OF assms(1)] assms(3) by (auto simp: laid_out_def)
  ultimately show ?thesis using assms(2) by (simp add: untouched_def remove_transaction_def flight_def files_at_def)
qed

lemma settle_before:
  assumes "ready env pb c p w" "flight pb w (ks_candidates w) (old_node pb) s q (pb_content pb) b (old_bytes pb) w'" "s = None \<or> s = old_node pb"
    and "clean = (if own_backup (pb_journal pb) = None then [] else [Remove_backup])"
  shows "safely (recovery_action_step env now (pb_journal pb)) (\<lambda>_. whole env pb c w)
    (opt_action Remove_swap (seen pb s) @ opt_action Remove_prepared (seen pb q) @ clean @ [Remove_journal]) (untouched w) w'"
proof (rule settle_swap [where C = "whole env pb c w", OF assms(1-3) whole_before [OF assms(2,3)]])
  fix w1 assume w1: "flight pb w (ks_candidates w) (old_node pb) None q (pb_content pb) b (old_bytes pb) w1"
  show "safely (recovery_action_step env now (pb_journal pb)) (\<lambda>_. whole env pb c w)
    (opt_action Remove_prepared (seen pb q) @ clean @ [Remove_journal]) (untouched w) w1"
  proof (rule settle_prepared [where C = "whole env pb c w", OF assms(1) w1])
    show "whole env pb c w w1" using whole_before [OF w1] by simp
    fix w2 assume w2: "flight pb w (ks_candidates w) (old_node pb) None None (pb_content pb) b (old_bytes pb) w2"
    show "safely (recovery_action_step env now (pb_journal pb)) (\<lambda>_. whole env pb c w) (clean @ [Remove_journal]) (untouched w) w2"
    proof (cases "own_backup (pb_journal pb)")
      case None
      then show ?thesis
        using assms(4) whole_before [OF w2] untouched_end [OF assms(1) w2] by (simp add: recovery_action_step_def)
    next
      case (Some path)
      obtain w3 where w3: "recovery_action_step env now (pb_journal pb) Remove_backup w2 = Inr w3"
          "flight pb w (ks_candidates w) (old_node pb) None None (pb_content pb) None (old_bytes pb) w3"
        using act_remove_backup [OF assms(1) w2 Some] by blast
      moreover have "recovery_action_step env now (pb_journal pb) Remove_journal w3 = Inr (remove_transaction (tj_id (pb_journal pb)) w3)"
        by (simp add: recovery_action_step_def)
      ultimately show ?thesis
        using assms(4) Some whole_before [OF w2] whole_before [OF w3(2)] untouched_end [OF assms(1) w3(2)] by simp
    qed
  qed
qed

lemma settle_after:
  assumes "ready env pb c p w" "flight pb w cands (Some n) s q (pb_content pb) b (old_bytes pb) w'" "s = None \<or> s = old_node pb"
    "Some n \<noteq> old_node pb" "fs_next (ks_files w) \<le> n" "backup_kept pb b" "committed env pb c w cands"
  shows "safely (recovery_action_step env now (pb_journal pb)) (\<lambda>_. whole env pb c w)
    (opt_action Remove_swap (seen pb s) @ opt_action Remove_prepared (seen pb q) @ [Remove_journal]) (published env pb c w) w'"
proof -
  note ok = whole_after [OF _ _ assms(4,6), of w cands]
  show ?thesis
  proof (rule settle_swap [where C = "whole env pb c w", OF assms(1-3)])
    show "whole env pb c w w'" using ok [OF assms(2,3)] assms(7) by simp
    fix w1 assume w1: "flight pb w cands (Some n) None q (pb_content pb) b (old_bytes pb) w1"
    show "safely (recovery_action_step env now (pb_journal pb)) (\<lambda>_. whole env pb c w)
      (opt_action Remove_prepared (seen pb q) @ [Remove_journal]) (published env pb c w) w1"
    proof (rule settle_prepared [where C = "whole env pb c w", OF assms(1) w1])
      show "whole env pb c w w1" using ok [OF w1] assms(7) by simp
      fix w2 assume w2: "flight pb w cands (Some n) None None (pb_content pb) b (old_bytes pb) w2"
      have "filter (\<lambda>e. fst e \<noteq> tj_id (pb_journal pb)) (ks_transactions w) = ks_transactions w"
        using ready_facts(12) [OF assms(1)] by (force intro: filter_True)
      then have "published env pb c w (remove_transaction (tj_id (pb_journal pb)) w2)"
        using w2 assms(5-7) unfolding published_def by (auto simp: remove_transaction_def flight_def)
      then show "safely (recovery_action_step env now (pb_journal pb)) (\<lambda>_. whole env pb c w) [Remove_journal] (published env pb c w) w2"
        using ok [OF w2] assms(7) by (simp add: recovery_action_step_def)
    qed
  qed
qed

lemma plan_in_flight:
  assumes "ready env pb c p w" "flight pb w cands t s q (pb_content pb) b bbytes w'" "s = None \<or> s = old_node pb"
    and "find_skill_candidate w' (tj_candidate (pb_journal pb)) = Some c'"
    and "validate_journal_paths env w' (pb_journal pb) c' = Inr (tj_root (pb_journal pb), p)"
  shows "plan_transaction env w' (pb_journal pb) = recovery_plan env w' (pb_journal pb) c' p (seen pb t) (seen pb s) (seen pb q)"
proof -
  note files = flight_files [OF assms(2)]
  note seen = seen_file [OF assms(1) files] and names = files_at_names [OF assms(1) files]
  have "file_hash_or_null (sv_sha env) (ks_files w') (tj_target (pb_journal pb)) = Inr (seen pb t)"
    "file_hash_or_null (sv_sha env) (ks_files w') (tj_swap (pb_journal pb)) = Inr (seen pb s)"
    "file_hash_or_null (sv_sha env) (ks_files w') (tj_prepared (pb_journal pb)) = Inr (seen pb q)"
    using files assms(3) by (auto intro!: seen names simp: files_at_def)
  then show ?thesis using assms(4,5) by (simp add: plan_transaction_def)
qed

lemma seen_parts:
  assumes "ready env pb c p w" "s = None \<or> s = old_node pb" "q = None \<or> q \<noteq> old_node pb"
  shows "seen pb None = None" "seen pb (old_node pb) = pb_before pb"
    "\<not> (case seen pb s of None \<Rightarrow> False | Some x \<Rightarrow> tj_before_sha (pb_journal pb) \<noteq> Some (cp_sha x) \<or> tj_before_identity (pb_journal pb) \<noteq> Some (cp_identity x))"
    "\<not> (case seen pb q of None \<Rightarrow> False | Some x \<Rightarrow> cp_sha x \<noteq> tj_after_sha (pb_journal pb))"
proof -
  show "seen pb None = None" by (simp add: seen_def)
  show old: "seen pb (old_node pb) = pb_before pb" by (cases "pb_before pb") (auto simp: seen_def old_node_def)
  then show "\<not> (case seen pb s of None \<Rightarrow> False | Some x \<Rightarrow> tj_before_sha (pb_journal pb) \<noteq> Some (cp_sha x) \<or> tj_before_identity (pb_journal pb) \<noteq> Some (cp_identity x))"
    using assms(2) ready_facts(6,7) [OF assms(1)] \<open>seen pb None = None\<close> by (cases "pb_before pb") auto
  show "\<not> (case seen pb q of None \<Rightarrow> False | Some x \<Rightarrow> cp_sha x \<noteq> tj_after_sha (pb_journal pb))"
    using assms(3) by (auto simp: seen_def split: option.splits)
qed

lemma prepared_not_old:
  assumes "ready env pb c p w" "flight pb w cands t s q (pb_content pb) b bbytes w'"
  shows "q = None \<or> q \<noteq> old_node pb"
  using flight_prepared_new(1) [OF assms(1)] assms(2) by (cases q) metis+

lemma uncommitted_revision: "ready env pb c p w \<Longrightarrow> sk_current_revision c = tj_candidate_revision (pb_journal pb)"
  by (simp add: ready_def Let_def)

definition clean_actions :: "publication \<Rightarrow> recovery_action list" where
  "clean_actions pb = (if own_backup (pb_journal pb) = None then [] else [Remove_backup])"

lemma clean_backup_actions:
  "ready env pb c p w \<Longrightarrow>
   (if tj_operation (pb_journal pb) = Promote \<and> sk_current_revision c = tj_candidate_revision (pb_journal pb) \<and> tj_backup_path (pb_journal pb) \<noteq> None
    then [Remove_backup] else []) = clean_actions pb"
  using uncommitted_revision [of env pb c p w] by (simp add: clean_actions_def own_backup_def)

lemma plan_before:
  assumes "ready env pb c p w" "s = None \<or> s = old_node pb" "q = None \<or> q \<noteq> old_node pb"
  shows "recovery_plan env w' (pb_journal pb) c p (seen pb (old_node pb)) (seen pb s) (seen pb q) =
    Inr (opt_action Remove_swap (seen pb s) @ opt_action Remove_prepared (seen pb q) @ clean_actions pb @ [Remove_journal], No_file_change)"
proof (cases "pb_before pb")
  case None
  then have "old_node pb = None" by (simp add: old_node_def)
  then show ?thesis
    using seen_parts [OF assms] None assms(2) ready_facts(6) [OF assms(1)] clean_backup_actions [OF assms(1)]
    by (simp add: recovery_plan_def Let_def)
next
  case (Some x)
  then show ?thesis
    using seen_parts [OF assms] ready_facts(6,7) [OF assms(1)] clean_backup_actions [OF assms(1)]
    by (simp add: recovery_plan_def Let_def)
qed

lemma plan_gap:
  assumes "ready env pb c p w" "s = old_node pb" "s \<noteq> None" "q = None \<or> q \<noteq> old_node pb"
  shows "recovery_plan env w' (pb_journal pb) c p (seen pb None) (seen pb s) (seen pb q) =
    Inr (Restore_target # Verify_target # opt_action Remove_swap (seen pb s) @ opt_action Remove_prepared (seen pb q) @ clean_actions pb @
      [Remove_journal], Restored_before_state)"
proof -
  obtain x where "pb_before pb = Some x" using assms(2,3) by (cases "pb_before pb") (auto simp: old_node_def)
  then show ?thesis
    using seen_parts [OF assms(1) _ assms(4), of s] assms(2) clean_backup_actions [OF assms(1)] ready_facts(6) [OF assms(1)]
    by (simp add: recovery_plan_def Let_def)
qed

lemma committed_revision_facts:
  assumes "ready env pb c p w"
  shows "sk_current_revision (committed_candidate now reason (pb_journal pb) at backup c) \<noteq> tj_candidate_revision (pb_journal pb)"
  using uncommitted_revision [OF assms] by (simp add: committed_candidate_fields)

lemma plan_committed:
  assumes "ready env pb c p w" "s = None \<or> s = old_node pb" "q = None \<or> q \<noteq> old_node pb" "Some n \<noteq> old_node pb"
  shows "recovery_plan env w' (pb_journal pb) (committed_candidate now reason (pb_journal pb) at backup c) p (seen pb (Some n)) (seen pb s) (seen pb q) =
    Inr (opt_action Remove_swap (seen pb s) @ opt_action Remove_prepared (seen pb q) @ [Remove_journal], Committed)"
proof -
  have "seen pb (Some n) = Some \<lparr>cp_sha = tj_after_sha (pb_journal pb), cp_identity = (n, length (pb_content pb)), cp_bytes = pb_content pb\<rparr>"
    using assms(4) by (simp add: seen_def)
  then show ?thesis
    using seen_parts [OF assms(1-3)] ready_facts(8) [OF assms(1)] committed_revision_facts [OF assms(1), of now reason at backup]
    by (cases "tj_operation (pb_journal pb)")
      (auto simp: recovery_plan_def Let_def committed_candidate_fields split: option.splits)
qed

text \<open>The backup that the commit of a recovery refers to is the one the publication would have named.\<close>

lemma recovered_backup:
  assumes "ready env pb c p w" "flight pb w cands (Some n) s q (pb_content pb) b (old_bytes pb) w'" "backup_kept pb b"
  shows "\<exists>backup. verified_journal_backup env w' (pb_journal pb)
        (tj_operation (pb_journal pb) = Rollback \<or> kp_operation p = Replace) = Inr backup \<and>
      (if tj_operation (pb_journal pb) = Promote
       then pb_content pb = utf8_encode (kp_content p) \<and> \<not> (kp_operation p = Create \<and> backup \<noteq> None) \<and>
         map_option (\<lambda>b. \<lparr>br_path = the (tj_backup_path (pb_journal pb)), br_sha = cp_sha b, br_size = length (cp_bytes b)\<rparr>) backup = backup_made env pb
       else map_option cp_bytes backup = Some (pb_content pb) \<and> backup_made env pb = None)"
proof (cases "tj_operation (pb_journal pb)")
  case Promote
  then have op: "kp_operation p = Create \<longleftrightarrow> pb_before pb = None" "pb_content pb = utf8_encode (kp_content p)"
      "tj_backup_path (pb_journal pb) = None \<longleftrightarrow> pb_before pb = None"
    using assms(1) by (simp_all add: ready_def Let_def)
  show ?thesis
  proof (cases "own_backup (pb_journal pb)")
    case None
    then have none: "pb_before pb = None" "tj_backup_path (pb_journal pb) = None"
      using ready_facts(5) [OF assms(1)] op(3) Promote by auto
    then show ?thesis
      using op Promote None by (intro exI [of _ None]) (simp add: verified_journal_backup_def backup_made_def)
  next
    case (Some path)
    then obtain k where k: "b = Some k" using assms(3) by (auto simp: backup_kept_def)
    obtain x where x: "pb_before pb = Some x" "tj_backup_path (pb_journal pb) = Some path"
        "\<And>required. verified_journal_backup env w' (pb_journal pb) required =
          Inr (Some \<lparr>cp_sha = cp_sha x, cp_identity = (k, length (cp_bytes x)), cp_bytes = cp_bytes x\<rparr>)"
      using verified_own_backup [OF assms(1,2) Some] k by (metis option.inject)
    then show ?thesis
      using op Promote Some ready_before(4) [OF assms(1) x(1)] by (simp add: backup_made_def)
  qed
next
  case Rollback
  then obtain path backup where stored: "tj_backup_path (pb_journal pb) = Some path" "path \<notin> set (own_paths (pb_journal pb))"
      "verified_journal_backup env w (pb_journal pb) True = Inr (Some backup)" "cp_bytes backup = pb_content pb"
    using assms(1) by (auto simp: ready_def Let_def)
  have own: "own_backup (pb_journal pb) = None" using Rollback by (simp add: own_backup_def)
  obtain hash bytes where j: "tj_backup_sha (pb_journal pb) = Some hash" "tj_backup_size (pb_journal pb) = Some bytes"
    and old: "file_hash_or_null (sv_sha env) (ks_files w) path = Inr (Some backup)"
    using stored(1,3) by (auto simp: verified_journal_backup_def split: option.splits)
  note files = flight_files [OF assms(2)]
  have "fs_names (ks_files w') path = fs_names (ks_files w) path"
    using files laid_out_at(5) [OF ready_facts(1) [OF assms(1)] stored(2)] by (simp add: files_at_def)
  then have "file_hash_or_null (sv_sha env) (ks_files w') path = Inr (Some backup)"
    using old files ready_facts(10) [OF assms(1)] by (auto simp: captured_Some files_at_def node_numbers_ok_def)
  then have "verified_journal_backup env w' (pb_journal pb) True = Inr (Some backup)"
    using stored(1,3) old j by (simp add: verified_journal_backup_def)
  then show ?thesis using Rollback stored(4) own by (simp add: backup_made_def)
qed

lemma plan_applied:
  assumes "ready env pb c p w" "flight pb w cands (Some n) s q (pb_content pb) b (old_bytes pb) w'" "backup_kept pb b"
    "s = None \<or> s = old_node pb" "Some n \<noteq> old_node pb"
  shows "recovery_plan env w' (pb_journal pb) c p (seen pb (Some n)) (seen pb s) (seen pb q) =
    Inr (Commit_candidate (backup_made env pb) # opt_action Remove_swap (seen pb s) @ opt_action Remove_prepared (seen pb q) @ [Remove_journal], Committed)"
proof -
  have t: "seen pb (Some n) = Some \<lparr>cp_sha = tj_after_sha (pb_journal pb), cp_identity = (n, length (pb_content pb)), cp_bytes = pb_content pb\<rparr>"
    using assms(5) by (simp add: seen_def)
  have differs: "tj_before_sha (pb_journal pb) \<noteq> Some (tj_after_sha (pb_journal pb))" by (rule ready_facts(8) [OF assms(1)])
  have notexact: "(case tj_before_sha (pb_journal pb) of None \<Rightarrow> seen pb (Some n) = None
      | Some h \<Rightarrow> (case seen pb (Some n) of None \<Rightarrow> False | Some t \<Rightarrow> cp_sha t = h \<and> tj_before_identity (pb_journal pb) = Some (cp_identity t))) = False"
    using t differs by (cases "tj_before_sha (pb_journal pb)") auto
  note parts = seen_parts [OF assms(1,4) prepared_not_old [OF assms(1,2)]]
  note backup = recovered_backup [OF assms(1-3)]
  show ?thesis
    unfolding recovery_plan_def Let_def notexact
    using parts(3,4) t differs backup uncommitted_revision [OF assms(1)] by (auto split: if_splits)
qed

lemma flight_target_new:
  assumes "flight pb w cands (Some n) s q bytes b bbytes w'" "Some n \<noteq> old_node pb"
  shows "fs_next (ks_files w) \<le> n"
  using assms by (auto simp: flight_def files_at_def holds_new_def)

theorem recovery_settles:
  assumes "ready env pb c p w" "whole env pb c w w'"
  shows "\<exists>actions outcome. plan_transaction env w' (pb_journal pb) = Inr (actions, outcome) \<and>
    safely (recovery_action_step env now (pb_journal pb)) (\<lambda>_. whole env pb c w) actions
      (if outcome = Committed then published env pb c w else untouched w) w'"
proof -
  obtain cands t s q b where fl: "flight pb w cands t s q (pb_content pb) b (old_bytes pb) w'" and s: "s = None \<or> s = old_node pb"
    and states: "t = old_node pb \<and> cands = ks_candidates w \<or>
      t = None \<and> s = old_node pb \<and> s \<noteq> None \<and> cands = ks_candidates w \<or>
      t \<noteq> None \<and> t \<noteq> old_node pb \<and> backup_kept pb b \<and> (cands = ks_candidates w \<or> committed env pb c w cands)"
    using assms(2) unfolding whole_def by blast
  note q = prepared_not_old [OF assms(1) fl]
  have dir: "fs_directory (ks_files w') = fs_directory (ks_files w)" using fl by (simp add: flight_def files_at_def)
  have plan: "plan_transaction env w' (pb_journal pb) = recovery_plan env w' (pb_journal pb) c p (seen pb t) (seen pb s) (seen pb q)"
    if "cands = ks_candidates w"
    using plan_in_flight [OF assms(1) fl s find_in_flight(1) [OF assms(1)] validate_in_flight(1) [OF assms(1) dir]] fl that
    by (simp add: flight_def)
  have clean: "clean_actions pb = (if own_backup (pb_journal pb) = None then [] else [Remove_backup])" by (rule clean_actions_def)
  consider (before) "t = old_node pb" "cands = ks_candidates w"
    | (gap) "t = None" "s = old_node pb" "s \<noteq> None" "cands = ks_candidates w"
    | (applied) n where "t = Some n" "t \<noteq> old_node pb" "backup_kept pb b" "cands = ks_candidates w"
    | (finished) n where "t = Some n" "t \<noteq> old_node pb" "backup_kept pb b" "committed env pb c w cands"
    using states by blast
  then show ?thesis
  proof cases
    case before
    have "flight pb w (ks_candidates w) (old_node pb) s q (pb_content pb) b (old_bytes pb) w'" using fl before by simp
    then show ?thesis
      using plan [OF before(2)] plan_before [OF assms(1) s q] before(1) settle_before [OF assms(1) _ s clean] by auto
  next
    case gap
    obtain x where x: "pb_before pb = Some x" using gap(2,3) by (cases "pb_before pb") (auto simp: old_node_def)
    obtain w2 where w2: "recovery_action_step env now (pb_journal pb) Restore_target w' = Inr w2"
        "flight pb w cands s s q (pb_content pb) b (old_bytes pb) w2" "recovery_action_step env now (pb_journal pb) Verify_target w2 = Inr w2"
      using act_restore [OF assms(1) fl [unfolded gap(1)] gap(2) x] by blast
    have fl2: "flight pb w (ks_candidates w) (old_node pb) s q (pb_content pb) b (old_bytes pb) w2" using w2(2) gap by simp
    show ?thesis
      using plan [OF gap(4)] plan_gap [OF assms(1) gap(2,3) q] gap(1) w2(1,3) assms(2) whole_before [OF fl2 s]
        settle_before [OF assms(1) fl2 s clean] by auto
  next
    case applied
    have fln: "flight pb w (ks_candidates w) (Some n) s q (pb_content pb) b (old_bytes pb) w'" and new: "Some n \<noteq> old_node pb"
      using fl applied by simp_all
    let ?cands = "committed_candidates now (recovery_reason (tj_operation (pb_journal pb))) (pb_journal pb) (tj_created_at (pb_journal pb))
      (backup_made env pb) c (ks_candidates w)"
    have "committed env pb c w ?cands" unfolding committed_def by blast
    moreover have "flight pb w ?cands (Some n) s q (pb_content pb) b (old_bytes pb) (w'\<lparr>ks_candidates := ?cands\<rparr>)"
      using fln by (simp add: flight_def)
    ultimately have rest: "safely (recovery_action_step env now (pb_journal pb)) (\<lambda>_. whole env pb c w)
        (opt_action Remove_swap (seen pb s) @ opt_action Remove_prepared (seen pb q) @ [Remove_journal]) (published env pb c w)
        (w'\<lparr>ks_candidates := ?cands\<rparr>)"
      using settle_after [OF assms(1) _ s new flight_target_new [OF fln new] applied(3)] by blast
    have "recovery_action_step env now (pb_journal pb) (Commit_candidate (backup_made env pb)) w' = Inr (w'\<lparr>ks_candidates := ?cands\<rparr>)"
      using append_ready [OF assms(1), of w'] fln by (simp add: recovery_action_step_def Let_def flight_def)
    then show ?thesis
      using plan [OF applied(4)] plan_applied [OF assms(1) fln applied(3) s new] applied(1) assms(2) rest by auto
  next
    case finished
    have fln: "flight pb w cands (Some n) s q (pb_content pb) b (old_bytes pb) w'" and new: "Some n \<noteq> old_node pb"
      using fl finished by simp_all
    obtain at' reason now' where cands: "cands = committed_candidates now' reason (pb_journal pb) at' (backup_made env pb) c (ks_candidates w)"
      using finished(4) unfolding committed_def by blast
    have "ks_candidates w' = committed_candidates now' reason (pb_journal pb) at' (backup_made env pb) c (ks_candidates w)"
      using fl cands by (simp add: flight_def)
    then have "plan_transaction env w' (pb_journal pb) =
        Inr (opt_action Remove_swap (seen pb s) @ opt_action Remove_prepared (seen pb q) @ [Remove_journal], Committed)"
      using plan_in_flight [OF assms(1) fl s find_in_flight(2) [OF assms(1)] validate_in_flight(2) [OF assms(1) dir]]
        plan_committed [OF assms(1) s q new] finished(1) by simp
    then show ?thesis
      using settle_after [OF assms(1) fln s new flight_target_new [OF fln new] finished(3,4)] by auto
  qed
qed

end
