(* ===== verification/Skill_Crashes.thy ===== *)
theory Skill_Crashes
  imports Skill_Recovery
begin

text \<open>
  What the publication of a skill promises, stated over the whole operations: promotions and rollbacks
  that run to their end, that die at any phase, and the recoveries that follow, some of which die too.
\<close>

section \<open>Prepared publications are ready\<close>

text \<open>What a publication needs besides its own checks: unused names and numbers, room for one more
  revision, a result that differs from what it replaces, and, for a rollback, settings that still admit
  the skill.\<close>

definition publishable :: "skill_env \<Rightarrow> publication \<Rightarrow> skill_store \<Rightarrow> bool" where
  "publishable env pb w \<longleftrightarrow>
     (let j = pb_journal pb; fs = ks_files w
      in node_numbers_ok fs \<and> ks_transactions w = [] \<and>
        list_all (\<lambda>path. fs_names fs path = None) (tl (own_paths j)) \<and>
        length (pb_content pb) \<le> SKILL_EVOLUTION_MAX_CONTENT_BYTES \<and> tj_before_sha j \<noteq> Some (tj_after_sha j) \<and>
        (case find_skill_candidate w (tj_candidate j) of
           None \<Rightarrow> False
         | Some c \<Rightarrow>
             length (sk_revisions c) = sk_current_revision c \<and> sk_current_revision c < SKILL_EVOLUTION_MAX_REVISIONS \<and>
             (case candidate_proposal c of
                Inl e \<Rightarrow> False
              | Inr p \<Rightarrow> sv_skill_ok env (kp_content p) (kp_target p) \<and> sk_target c = Some (kp_target p)) \<and>
             tj_root j \<in> set (sv_roots env)))"

definition prepares :: "skill_env \<Rightarrow> skill_store \<Rightarrow> jstr \<Rightarrow> jstr \<Rightarrow> jstr \<Rightarrow> nat \<Rightarrow> publication \<Rightarrow> bool" where
  "prepares env w candidate actor transaction now pb \<longleftrightarrow>
     prepare_promotion env w candidate actor transaction now = Inr pb \<or>
     prepare_rollback env w candidate actor transaction now = Inr pb"

definition last_two :: "jstr \<Rightarrow> jstr" where "last_two path = drop (length path - 2) path"

lemma last_two_append: "last_two (xs @ js [a, b, c, d]) = js [c, d]"
  by (simp add: last_two_def js_def)

lemma last_two_paths:
  "last_two (swap_path s tx) = js ''ap''" "last_two (prepared_path s tx) = js ''ed''" "last_two (skill_backup_path i h tx) = js ''in''"
proof -
  have "js ''.swap'' = js ''.'' @ js ''swap''" "js ''.prepared'' = js ''.prep'' @ js ''ared''" by (simp_all add: js_def)
  then show "last_two (swap_path s tx) = js ''ap''" "last_two (prepared_path s tx) = js ''ed''" "last_two (skill_backup_path i h tx) = js ''in''"
    unfolding swap_path_def prepared_path_def skill_backup_path_def by (simp_all only: append_assoc [symmetric] last_two_append)
qed

lemma split_two: "split_on sep s = [a, b] \<Longrightarrow> s = a @ sep # b"
proof (induction s arbitrary: a)
  case (Cons x s)
  show ?case
  proof (cases "x = sep")
    case True
    then have "split_on sep s = [b]" "a = []" using Cons.prems by simp_all
    moreover have "split_on sep s = [b] \<Longrightarrow> s = b" for s b
      by (induction s arbitrary: b) (auto split: if_splits list.splits)
    ultimately show ?thesis using True by simp
  next
    case False
    then show ?thesis using Cons by (auto split: list.splits)
  qed
qed simp

lemma last_two_target:
  assumes "configured_skill_target root target = Inr s"
  shows "last_two (sl_path s) = js ''md''"
proof -
  obtain folder where "split_on 0x2F target = [folder, js ''SKILL.md'']" "sl_path s = root @ js ''/'' @ target"
    using assms by (auto simp: configured_skill_target_def skill_target_ok_def split: list.splits)
  then have "sl_path s = (root @ js ''/'' @ folder @ [0x2F] @ js ''SKIL'') @ js ''L.md''"
    using split_two [of "0x2F" target folder] by (simp add: js_def)
  then show ?thesis by (simp only: last_two_append)
qed

lemma configured_parts:
  assumes "configured_skill_target root target = Inr s"
  shows "sl_root s = root" "configured_skill_target (sl_root s) target = Inr s" "distinct [sl_path s, swap_path s tx, prepared_path s tx, skill_backup_path i h tx]"
proof -
  show "sl_root s = root" using assms by (auto simp: configured_skill_target_def)
  then show "configured_skill_target (sl_root s) target = Inr s" using assms by simp
  show "distinct [sl_path s, swap_path s tx, prepared_path s tx, skill_backup_path i h tx]"
    using last_two_target [OF assms] last_two_paths(1,2) [of s tx] last_two_paths(3) [of i h tx] by (auto dest: arg_cong [of _ _ last_two])
qed

lemma single_choice:
  "(case xs of [(a, _)] \<Rightarrow> Inr a | _ \<Rightarrow> Inl e) = Inr b \<Longrightarrow> \<exists>y. xs = [(b, y)]"
  by (cases xs; cases "tl xs") (auto split: prod.splits)

lemma promotion_root_configured:
  assumes "promotion_root env w c p = Inr root"
  shows "root \<in> set (sv_roots env)" "kp_operation p = Create \<Longrightarrow> \<exists>roots. sv_roots env = root # roots" "sk_target c = Some (kp_target p)"
proof -
  show "sk_target c = Some (kp_target p)" using assms by (simp add: promotion_root_def split: if_splits)
  show create: "kp_operation p = Create \<Longrightarrow> \<exists>roots. sv_roots env = root # roots"
    using assms by (auto simp: promotion_root_def split: list.splits)
  show "root \<in> set (sv_roots env)"
  proof (cases "kp_operation p")
    case Create
    then show ?thesis using create by auto
  next
    case Replace
    then obtain states x where "filter (\<lambda>(root, x). has_basis p x) (zip (sv_roots env) states) = [(root, x)]"
      using assms by (auto simp: promotion_root_def dest!: single_choice)
    then have "(root, x) \<in> set (filter (\<lambda>(root, x). has_basis p x) (zip (sv_roots env) states))" by simp
    then show ?thesis by (auto dest: set_zip_leftD)
  qed
qed

lemma find_candidate_id: "find_skill_candidate w i = Some c \<Longrightarrow> sk_id c = i"
  by (auto simp: find_skill_candidate_def find_Some_iff)

lemma prepared_promotion:
  assumes "prepare_promotion env w candidate actor tx now = Inr pb"
  obtains c p r s root before where "find_skill_candidate w candidate = Some c" "sk_id c = candidate" "sk_state c = Validated"
    "assert_current_revision c = Inr r" "assert_checker_approved c = Inr ()" "candidate_proposal c = Inr p"
    "sv_skill_ok env (kp_content p) (kp_target p)" "promotion_root env w c p = Inr root" "configured_skill_target root (kp_target p) = Inr s"
    "file_hash_or_null (sv_sha env) (ks_files w) (sl_path s) = Inr before" "kp_operation p = Create \<longrightarrow> before = None"
    "kp_operation p = Replace \<longrightarrow> has_basis p before"
    "pb = promotion_of env c p s before (fs_directory (ks_files w) (sl_directory s)) actor tx now" "sk_is_skill c"
  using assms by (auto simp: prepare_promotion_def checked_publication_def find_candidate_id split: option.splits)

lemma prepared_shape: "prepare_promotion env w candidate actor tx now = Inr pb \<Longrightarrow> skill_journal_shape (pb_journal pb)"
  by (auto simp: prepare_promotion_def checked_publication_def split: option.splits)

lemma promote_journal_fresh:
  assumes "sk_state c = Validated" "assert_checker_approved c = Inr ()"
    "kp_operation p = Create \<longrightarrow> before = None" "kp_operation p = Replace \<longrightarrow> has_basis p before"
    "file_hash_or_null sha fs path = Inr before"
  shows "promote_journal_ok env (pb_journal (promotion_of env c p s before parent actor tx now)) c p = Inr ()"
proof (cases "kp_operation p")
  case Create
  then show ?thesis using assms by (simp add: promote_journal_ok_def promotion_of_def)
next
  case Replace
  then obtain x where x: "before = Some x" "kp_basis p = Some (cp_sha x)" using assms(4) by (cases before) (auto simp: has_basis_def)
  then have "snd (cp_identity x) = length (cp_bytes x)" using assms(5) by (auto simp: captured_Some)
  then show ?thesis using assms(1,2) Replace x by (simp add: promote_journal_ok_def promotion_of_def)
qed

lemma proposal_revisions: "candidate_proposal c = Inr p \<Longrightarrow> Suc 0 \<le> length (sk_revisions c)"
  by (simp add: candidate_proposal_def load_candidate_revision_def)

lemma find_equal: "x \<in> set xs \<Longrightarrow> find (\<lambda>y. y = x) xs = Some x"
  by (induction xs) auto

lemma promotion_ready:
  assumes "prepare_promotion env w candidate actor tx now = Inr pb" "publishable env pb w"
  shows "\<exists>c p. ready env pb c p w"
  using assms(1)
proof (cases rule: prepared_promotion)
  case (1 c p r s root before)
  note t = configured_parts [OF 1(9)] and root = promotion_root_configured [OF 1(8)]
  let ?j = "pb_journal pb"
  have j: "tj_candidate ?j = candidate" "tj_candidate_revision ?j = sk_current_revision c" "tj_root ?j = root" "tj_operation ?j = Promote"
      "tj_target ?j = sl_path s" "own_backup ?j = map_option (\<lambda>b. skill_backup_path candidate (cp_sha b) tx) before" "pb_before pb = before"
    using 1(2,13) t(1) by (simp_all add: promotion_of_def own_backup_def)
  have "journal_root env ?j p c = Some root"
    using root(1,2) j t(1) by (cases "kp_operation p") (auto simp: journal_root_def find_equal)
  moreover have "promote_journal_ok env ?j c p = Inr ()" using promote_journal_fresh [OF 1(3,5,11,12,10)] 1(13) by simp
  ultimately have valid: "validate_journal_paths env w ?j c = Inr (tj_root ?j, p)"
    using 1 t(1,2) root(1,3) j by (simp add: validate_journal_paths_def promotion_of_def)
  have "distinct (own_paths ?j)"
    using t(3) 1(13) j by (cases before) (auto simp: own_paths_def promotion_of_def)
  moreover have "kp_operation p = Create \<longleftrightarrow> before = None"
    using 1(11,12) by (cases "kp_operation p"; cases before) (auto simp: has_basis_def)
  ultimately show ?thesis
    using assms(2) 1 j valid proposal_revisions [OF 1(6)]
    by (intro exI [of _ c] exI [of _ p]) (auto simp: ready_def publishable_def promotion_of_def list_all_iff has_basis_def Let_def split: option.splits)
qed

lemma prepared_rollback:
  assumes "prepare_rollback env w candidate actor tx now = Inr pb"
  obtains c p r s root hash current reference backup where "find_skill_candidate w candidate = Some c" "sk_id c = candidate" "sk_state c = Promoted"
    "assert_current_revision c = Inr r" "candidate_proposal c = Inr p" "sk_promoted_root c = Some root" "sk_promoted_hash c = Some hash"
    "sk_backup c = Some reference" "configured_skill_target root (kp_target p) = Inr s"
    "direct_file_hash (sv_sha env) (ks_files w) (sl_path s) = Inr current" "cp_sha current = hash"
    "direct_file_hash (sv_sha env) (ks_files w) (br_path reference) = Inr backup"
    "cp_sha backup = br_sha reference" "length (cp_bytes backup) = br_size reference"
    "pb = rollback_of c s current reference backup (fs_directory (ks_files w) (sl_directory s)) actor tx now"
  using assms by (auto simp: prepare_rollback_def checked_publication_def find_candidate_id split: option.splits)

lemma direct_captured: "direct_file_hash sha fs path = Inr x \<longleftrightarrow> file_hash_or_null sha fs path = Inr (Some x)"
  by (auto simp: direct_file_hash_def split: option.splits)

lemma rollback_ready:
  assumes "prepare_rollback env w candidate actor tx now = Inr pb" "publishable env pb w"
  shows "\<exists>c p. ready env pb c p w"
  using assms(1)
proof (cases rule: prepared_rollback)
  case (1 c p r s root hash current reference backup)
  note t = configured_parts [OF 1(9)]
  let ?j = "pb_journal pb"
  have j: "tj_candidate ?j = candidate" "tj_candidate_revision ?j = sk_current_revision c" "tj_root ?j = root" "tj_operation ?j = Rollback"
      "tj_target ?j = sl_path s" "own_backup ?j = None" "pb_before pb = Some current" "tj_swap ?j = swap_path s tx" "tj_prepared ?j = prepared_path s tx"
      "tj_before_sha ?j = Some (cp_sha current)" "tj_before_identity ?j = Some (cp_identity current)"
    using 1(2,15) t(1) by (simp_all add: rollback_of_def own_backup_def)
  have differ: "cp_sha current \<noteq> cp_sha backup"
    using assms(2) 1(15) by (auto simp: publishable_def rollback_of_def Let_def)
  have own: "own_paths ?j = [sl_path s, swap_path s tx, prepared_path s tx]" using j by (simp add: own_paths_def)
  have free: "fs_names (ks_files w) (swap_path s tx) = None" "fs_names (ks_files w) (prepared_path s tx) = None"
    using assms(2) own by (auto simp: publishable_def Let_def)
  have files: "file_hash_or_null (sv_sha env) (ks_files w) (sl_path s) = Inr (Some current)"
      "file_hash_or_null (sv_sha env) (ks_files w) (br_path reference) = Inr (Some backup)"
    using 1(10,12) by (simp_all add: direct_captured)
  have apart: "br_path reference \<notin> set (own_paths ?j)" "cp_identity backup \<noteq> cp_identity current"
    using files free differ own by (auto simp: captured_Some)
  have admitted: "sv_skill_ok env (kp_content p) (kp_target p)" "sk_target c = Some (kp_target p)" "root \<in> set (sv_roots env)"
      "length (sk_revisions c) = sk_current_revision c" "sk_current_revision c < SKILL_EVOLUTION_MAX_REVISIONS"
    using assms(2) 1(1,5) j by (auto simp: publishable_def Let_def)
  have valid: "validate_journal_paths env w ?j c = Inr (tj_root ?j, p)"
    using 1 t(1,2) admitted j by (simp add: validate_journal_paths_def rollback_of_def journal_root_def rollback_journal_ok_def)
  have stored: "verified_journal_backup env w ?j True = Inr (Some backup)"
    using 1 files(2) apart(2) by (auto simp: verified_journal_backup_def rollback_of_def)
  show ?thesis
    using assms(2) 1 j valid stored files apart admitted differ own t(3) proposal_revisions [OF 1(5)]
    by (intro exI [of _ c] exI [of _ p]) (auto simp: ready_def publishable_def rollback_of_def list_all_iff Let_def captured_Some)
qed

lemma prepared_ready:
  assumes "prepares env w candidate actor tx now pb" "publishable env pb w"
  shows "\<exists>c p. ready env pb c p w" "pb_prepared pb = None" "pb_swap pb = None" "tj_id (pb_journal pb) = tx"
proof -
  show "\<exists>c p. ready env pb c p w"
    using assms promotion_ready rollback_ready unfolding prepares_def by blast
  have "pb_prepared pb = None \<and> pb_swap pb = None \<and> tj_id (pb_journal pb) = tx"
    using assms(1) unfolding prepares_def
    by (elim disjE prepared_promotion prepared_rollback) (simp_all add: promotion_of_def rollback_of_def)
  then show "pb_prepared pb = None" "pb_swap pb = None" "tj_id (pb_journal pb) = tx" by simp_all
qed

section \<open>What a publication promises\<close>

definition publication_phases :: "phase list" where "publication_phases = journal_phases @ file_phases"

definition bytes_at :: "file_system \<Rightarrow> jstr \<Rightarrow> file_bytes option" where
  "bytes_at fs path = map_option (fs_data fs) (fs_names fs path)"

definition no_effect :: "skill_store \<Rightarrow> skill_store \<Rightarrow> bool" where
  "no_effect w w' \<longleftrightarrow>
     ks_transactions w' = ks_transactions w \<and> ks_candidates w' = ks_candidates w \<and> bytes_at (ks_files w') = bytes_at (ks_files w)"

text \<open>The target holds the new bytes, the backup of a replacement the old ones, nothing else changed on
  disk, and the candidate has advanced by one revision.\<close>

definition took_effect :: "publication \<Rightarrow> skill_store \<Rightarrow> skill_store \<Rightarrow> bool" where
  "took_effect pb w w' \<longleftrightarrow>
     (let j = pb_journal pb; before = (bytes_at (ks_files w))(tj_target j \<mapsto> pb_content pb)
      in ks_transactions w' = ks_transactions w \<and>
        bytes_at (ks_files w') = (case own_backup j of None \<Rightarrow> before | Some path \<Rightarrow> before(path := map_option cp_bytes (pb_before pb))) \<and>
        (case find_skill_candidate w' (tj_candidate j) of
           None \<Rightarrow> False
         | Some c \<Rightarrow>
             sk_state c = (if tj_operation j = Promote then Promoted else Rolled_back) \<and>
             sk_current_revision c = Suc (tj_candidate_revision j) \<and>
             (tj_operation j = Promote \<longrightarrow> sk_promoted_hash c = Some (tj_after_sha j))))"

lemma untouched_no_effect:
  assumes "node_numbers_ok (ks_files w)" "untouched w w'"
  shows "no_effect w w'"
  using assms by (auto simp: untouched_def no_effect_def bytes_at_def node_numbers_ok_def fun_eq_iff intro!: option.map_cong0)

lemma published_took_effect:
  assumes "ready env pb c p w" "published env pb c w w'"
  shows "took_effect pb w w'"
proof -
  let ?j = "pb_journal pb"
  obtain n b where n: "fs_next (ks_files w) \<le> n" "backup_kept pb b"
      "files_at pb w (Some n) None None (pb_content pb) b (old_bytes pb) (ks_files w')"
    using assms(2) by (auto simp: published_def)
  obtain now reason at' where cands: "ks_candidates w' = committed_candidates now reason ?j at' (backup_made env pb) c (ks_candidates w)"
    using assms(2) by (auto simp: published_def committed_def)
  have new: "Some n \<noteq> old_node pb"
    using n(1) ready_before(1,2) [OF assms(1)] by (cases "pb_before pb") (force simp: old_node_def)+
  note free = ready_names [OF assms(1)] and own = ready_facts(1,5) [OF assms(1)]
  have content: "fs_data (ks_files w') n = pb_content pb" using n(3) new by (simp add: files_at_def holds_new_def)
  have old: "map_option (fs_data (ks_files w')) (fs_names (ks_files w) path) = bytes_at (ks_files w) path" for path
    using n(3) ready_facts(10) [OF assms(1)]
    by (cases "fs_names (ks_files w) path") (auto simp: files_at_def node_numbers_ok_def bytes_at_def)
  have "bytes_at (ks_files w') path = (case own_backup ?j of
      None \<Rightarrow> (bytes_at (ks_files w))(tj_target ?j \<mapsto> pb_content pb)
    | Some k \<Rightarrow> ((bytes_at (ks_files w))(tj_target ?j \<mapsto> pb_content pb))(k := map_option cp_bytes (pb_before pb))) path" for path
  proof (cases "path = tj_target ?j \<or> own_backup ?j = Some path")
    case True
    then show ?thesis
    proof
      assume "path = tj_target ?j"
      moreover have "own_backup ?j \<noteq> Some (tj_target ?j)" using own(1) by (auto simp: own_paths_def)
      ultimately show ?thesis
        using content files_at_names(1) [OF assms(1) n(3)] by (auto simp: bytes_at_def split: option.splits)
    next
      assume k: "own_backup ?j = Some path"
      then obtain x m where "pb_before pb = Some x" "b = Some m" using own(2) n(2) by (auto simp: backup_kept_def)
      then show ?thesis
        using k n(3) files_at_names(4) [OF assms(1) n(3) k] by (simp add: bytes_at_def files_at_def holds_new_def old_bytes_def)
    qed
  next
    case False
    have "fs_names (ks_files w') path = fs_names (ks_files w) path"
      using n(3) False free by (auto simp: files_at_def laid_out_def Let_def split: option.splits)
    then show ?thesis using False old [of path] by (auto simp: bytes_at_def split: option.splits)
  qed
  moreover have "find_skill_candidate w' (tj_candidate ?j) = Some (committed_candidate now reason ?j at' (backup_made env pb) c)"
    by (rule find_in_flight(2) [OF assms(1) cands])
  ultimately show ?thesis
    using assms(2) uncommitted_revision [OF assms(1)]
    by (auto simp: took_effect_def published_def committed_candidate_fields Let_def fun_eq_iff split: option.splits)
qed

section \<open>Recoveries that die\<close>

text \<open>A recovery that dies after \<open>k\<close> of the actions for one entry, the entries before it processed.\<close>

definition interrupted_recovery :: "skill_env \<Rightarrow> nat \<Rightarrow> skill_store \<Rightarrow> skill_store \<Rightarrow> bool" where
  "interrupted_recovery env now w w' \<longleftrightarrow>
     (\<exists>entries i j rest w1 report actions outcome k.
        ks_transactions w = entries @ (i, Some j) # rest \<and> tj_id j = i \<and>
        fold (recover_transaction env now) entries (w, \<lparr>rr_recovered = [], rr_unresolved = []\<rparr>) = (w1, report) \<and>
        plan_transaction env w1 j = Inr (actions, outcome) \<and> k < length actions \<and>
        run_steps (recovery_action_step env now j) (take k actions) w1 = (w', None))"

inductive after_recoveries :: "skill_env \<Rightarrow> skill_store \<Rightarrow> skill_store \<Rightarrow> bool" for env w where
  no_recovery: "after_recoveries env w w"
| one_more: "after_recoveries env w v \<Longrightarrow> interrupted_recovery env now v u \<Longrightarrow> after_recoveries env w u"

lemma whole_transactions:
  "ks_transactions w = [] \<Longrightarrow> whole env pb c w v \<Longrightarrow> ks_transactions v = [(tj_id (pb_journal pb), Some (pb_journal pb))]"
  by (auto simp: whole_def flight_def)

lemma interrupted_recovery_whole:
  assumes "ready env pb c p w" "ks_transactions w = []" "whole env pb c w v" "interrupted_recovery env now v u"
  shows "whole env pb c w u"
proof -
  obtain actions outcome k where run: "plan_transaction env v (pb_journal pb) = Inr (actions, outcome)" "k < length actions"
      "run_steps (recovery_action_step env now (pb_journal pb)) (take k actions) v = (u, None)"
    using assms(4) whole_transactions [OF assms(2,3)] by (auto simp: interrupted_recovery_def Cons_eq_append_conv)
  have "\<exists>s'. run_steps (recovery_action_step env now (pb_journal pb)) (take k actions) v = (s', None) \<and> whole env pb c w s'"
    using safely_prefix [OF _ run(2)] recovery_settles [OF assms(1,3)] run(1) by fastforce
  then show ?thesis using run(3) by simp
qed

lemma after_recoveries_whole:
  assumes "ready env pb c p w" "ks_transactions w = []" "whole env pb c w v"
  shows "after_recoveries env v u \<Longrightarrow> whole env pb c w u"
  by (induction rule: after_recoveries.induct) (auto intro: assms interrupted_recovery_whole [OF assms(1,2)])

lemma complete_recovery:
  assumes "ready env pb c p w" "ks_transactions w = []" "whole env pb c w v"
  shows "\<exists>w' outcome. recover_skill_transactions env now v =
      Inr (w', \<lparr>rr_recovered = [(tj_id (pb_journal pb), outcome)], rr_unresolved = []\<rparr>) \<and>
    (if outcome = Committed then took_effect pb w w' else no_effect w w')"
proof -
  obtain actions outcome where plan: "plan_transaction env v (pb_journal pb) = Inr (actions, outcome)"
    and safe: "safely (recovery_action_step env now (pb_journal pb)) (\<lambda>_. whole env pb c w) actions
      (if outcome = Committed then published env pb c w else untouched w) v"
    using recovery_settles [OF assms(1,3)] by blast
  obtain w' where "run_steps (recovery_action_step env now (pb_journal pb)) actions v = (w', None)"
      "(if outcome = Committed then published env pb c w else untouched w) w'"
    using safely_complete [OF safe] by blast
  then show ?thesis
    using plan whole_transactions [OF assms(2,3)] published_took_effect [OF assms(1)] untouched_no_effect [OF ready_facts(10) [OF assms(1)]]
    by (intro exI [of _ w'] exI [of _ outcome])
      (auto simp: recover_skill_transactions_def recover_transaction_def SKILL_TRANSACTION_SCAN_MAX_def split: if_splits)
qed

section \<open>Publications, whole and interrupted\<close>

lemma publish_complete:
  assumes "ready env pb c p w" "pb_prepared pb = None" "pb_swap pb = None"
  shows "\<exists>w'. publish env now pb w = (w', None) \<and> published env pb c w w'"
proof -
  obtain s where "run_steps (publication_step env now) (journal_phases @ file_phases) (pb, w) = (s, None)" "published env pb c w (snd s)"
    using safely_complete [OF phases_safe [OF assms]] by blast
  then show ?thesis by (auto simp: publish_def run_steps_append split: prod.splits option.splits)
qed

lemma interrupted_at:
  assumes "ready env pb c p w" "pb_prepared pb = None" "pb_swap pb = None" "k < length publication_phases"
    "run_steps (publication_step env now) (take k publication_phases) (pb, w) = (s, e)"
  shows "interrupted env pb c w (publication_phases ! k) (snd s)"
  using safely_prefix [OF phases_safe [OF assms(1-3), of now], of k] assms(4,5) by (auto simp: publication_phases_def)

lemma publication_phases_start: "0 < k \<Longrightarrow> k < length publication_phases \<Longrightarrow> publication_phases ! k \<noteq> Journal_open"
  by (auto simp: publication_phases_def journal_phases_def file_phases_def nth_Cons' numeral_eq_Suc)

lemma interrupted_whole:
  assumes "prepares env w candidate actor tx now pb" "publishable env pb w" "0 < k" "k < length publication_phases"
    and "publication_phases ! k \<notin> {Journal_write, Backup_write, Prepared_write}"
    and "run_steps (publication_step env now) (take k publication_phases) (pb, w) = (s, e)"
  obtains c p where "ready env pb c p w" "ks_transactions w = []" "whole env pb c w (snd s)"
proof -
  obtain c p where ready: "ready env pb c p w" using prepared_ready(1) [OF assms(1,2)] by blast
  have "whole env pb c w (snd s)"
    using interrupted_at [OF ready prepared_ready(2,3) [OF assms(1,2)] assms(4,6)] publication_phases_start [OF assms(3,4)] assms(5)
    by (simp add: interrupted_def)
  moreover have "ks_transactions w = []" using assms(2) by (simp add: publishable_def Let_def)
  ultimately show ?thesis using ready that by blast
qed


lemma nothing_to_recover:
  "ks_transactions w = [] \<Longrightarrow> recover_skill_transactions env now w = Inr (w, \<lparr>rr_recovered = [], rr_unresolved = []\<rparr>)"
  by (simp add: recover_skill_transactions_def)

lemma promotion_publishes:
  assumes "prepare_promotion env w candidate actor tx now = Inr pb" "publishable env pb w"
  obtains w' c p where "promote_skill_candidate env now w candidate actor tx = (w', None)" "ready env pb c p w" "published env pb c w w'"
proof -
  have prepared: "prepares env w candidate actor tx now pb" using assms(1) by (simp add: prepares_def)
  obtain c p where ready: "ready env pb c p w" using prepared_ready(1) [OF prepared assms(2)] by blast
  obtain w' where "publish env now pb w = (w', None)" "published env pb c w w'"
    using publish_complete [OF ready prepared_ready(2,3) [OF prepared assms(2)]] by blast
  then show ?thesis
    using that assms ready by (auto simp: promote_skill_candidate_def publish_prepared_def nothing_to_recover publishable_def Let_def)
qed


section \<open>Files whose bytes were never written\<close>

text \<open>The phase that was about to write a file that the phase before had created, empty.\<close>

definition half_written :: "skill_env \<Rightarrow> publication \<Rightarrow> phase \<Rightarrow> bool" where
  "half_written env pb phase \<longleftrightarrow>
     phase = Journal_write \<or>
     phase = Backup_write \<and> own_backup (pb_journal pb) \<noteq> None \<and> map_option cp_bytes (pb_before pb) \<noteq> Some [] \<or>
     phase = Prepared_write \<and> sv_sha env [] \<noteq> tj_after_sha (pb_journal pb)"

lemma torn_backup_unresolved:
  assumes "ready env pb c p w" "ks_transactions w = []" "torn pb w Backup_write v" "half_written env pb Backup_write"
  shows "\<exists>e. recover_skill_transactions env now v = Inr (v, \<lparr>rr_recovered = [], rr_unresolved = [(tj_id (pb_journal pb), e)]\<rparr>)"
proof -
  obtain b where b: "new_backup pb b" "flight pb w (ks_candidates w) (old_node pb) None None (pb_content pb) b [] v"
    using assms(3) by (auto simp: torn_def)
  obtain path where own: "own_backup (pb_journal pb) = Some path" using assms(4) by (auto simp: half_written_def)
  obtain n where n: "b = Some n" using b(1) own by (auto simp: new_backup_def)
  obtain x where x: "pb_before pb = Some x" and op: "tj_operation (pb_journal pb) = Promote"
    using ready_facts(5) [OF assms(1)] own by auto
  have j: "tj_backup_path (pb_journal pb) = Some path" "tj_backup_sha (pb_journal pb) = Some (cp_sha x)"
      "tj_backup_size (pb_journal pb) = Some (length (cp_bytes x))"
    using assms(1) own x op by (auto simp: ready_def Let_def own_backup_def)
  note files = flight_files [OF b(2)]
  have same: "fs_directory (ks_files v) = fs_directory (ks_files w)" "ks_candidates v = ks_candidates w"
    using files b(2) by (simp_all add: files_at_def flight_def)
  have plan: "plan_transaction env v (pb_journal pb) = Inr ([Remove_backup, Remove_journal], No_file_change)"
    using plan_in_flight [OF assms(1) b(2) _ find_in_flight(1) [OF assms(1) same(2)] validate_in_flight(1) [OF assms(1) same(1)]]
      plan_before [OF assms(1), of None None v] own
    by (simp add: seen_def opt_action_def clean_actions_def)
  have "fs_names (ks_files v) path = Some n" "fs_data (ks_files v) n = []"
    using files_at_names(4) [OF assms(1) files own] files n by (auto simp: files_at_def holds_new_def)
  then have "file_hash_or_null (sv_sha env) (ks_files v) path = Inr (Some \<lparr>cp_sha = sv_sha env [], cp_identity = (n, 0), cp_bytes = []\<rparr>)"
    by (simp add: file_hash_or_null_def SKILL_EVOLUTION_MAX_CONTENT_BYTES_def)
  moreover have "cp_bytes x \<noteq> []" using assms(4) x by (simp add: half_written_def)
  ultimately obtain e where "verified_journal_backup env v (pb_journal pb) False = Inl e"
    using j by (auto simp: verified_journal_backup_def guard_def)
  then show ?thesis
    using plan assms(2) b(2)
    by (auto simp: recover_skill_transactions_def recover_transaction_def SKILL_TRANSACTION_SCAN_MAX_def flight_def recovery_action_step_def Let_def)
qed

lemma torn_prepared_unresolved:
  assumes "ready env pb c p w" "ks_transactions w = []" "torn pb w Prepared_write v" "half_written env pb Prepared_write"
  shows "\<exists>e. recover_skill_transactions env now v = Inr (v, \<lparr>rr_recovered = [], rr_unresolved = [(tj_id (pb_journal pb), e)]\<rparr>)"
proof -
  obtain n b where b: "flight pb w (ks_candidates w) (old_node pb) None (Some n) [] b (old_bytes pb) v"
    using assms(3) by (auto simp: torn_def)
  note files = flight_files [OF b] and names = files_at_names [OF assms(1) flight_files [OF b]]
  have same: "fs_directory (ks_files v) = fs_directory (ks_files w)" "ks_candidates v = ks_candidates w"
    using files b by (simp_all add: files_at_def flight_def)
  have "file_hash_or_null (sv_sha env) (ks_files v) (tj_target (pb_journal pb)) = Inr (seen pb (old_node pb))"
    using seen_file [OF assms(1) files names(1)] by simp
  moreover have "file_hash_or_null (sv_sha env) (ks_files v) (tj_swap (pb_journal pb)) = Inr None"
    using names(2) by (simp add: captured_None)
  moreover have "fs_data (ks_files v) n = []" using files by (simp add: files_at_def holds_new_def)
  then have "file_hash_or_null (sv_sha env) (ks_files v) (tj_prepared (pb_journal pb)) =
      Inr (Some \<lparr>cp_sha = sv_sha env [], cp_identity = (n, 0), cp_bytes = []\<rparr>)"
    using names(3) by (simp add: file_hash_or_null_def SKILL_EVOLUTION_MAX_CONTENT_BYTES_def)
  moreover have "sv_sha env [] \<noteq> tj_after_sha (pb_journal pb)" using assms(4) by (simp add: half_written_def)
  ultimately obtain e where "plan_transaction env v (pb_journal pb) = Inl e"
    using find_in_flight(1) [OF assms(1) same(2)] validate_in_flight(1) [OF assms(1) same(1)]
    by (auto simp: plan_transaction_def recovery_plan_def Let_def)
  then show ?thesis
    using assms(2) b by (auto simp: recover_skill_transactions_def recover_transaction_def SKILL_TRANSACTION_SCAN_MAX_def flight_def)
qed

lemma torn_journal_unresolved:
  "ks_transactions w = [] \<Longrightarrow> torn pb w Journal_write v \<Longrightarrow>
   \<exists>e. recover_skill_transactions env now v = Inr (v, \<lparr>rr_recovered = [], rr_unresolved = [(tj_id (pb_journal pb), e)]\<rparr>)"
  by (simp add: torn_def recover_skill_transactions_def recover_transaction_def SKILL_TRANSACTION_SCAN_MAX_def)

text \<open>
  C22. A process that dies between the creation of its journal, of a backup or of the prepared file and the
  write of its bytes leaves a store in which no recovery changes anything or succeeds, and in which every
  later promotion and rollback, of any candidate, is refused.
\<close>

theorem half_written_file_blocks_publication:
  assumes "prepares env w candidate actor tx now pb" "publishable env pb w" "k < length publication_phases"
    and "half_written env pb (publication_phases ! k)"
    and "run_steps (publication_step env now) (take k publication_phases) (pb, w) = (s, e)"
  shows "\<exists>reason. recover_skill_transactions env later (snd s) = Inr (snd s, \<lparr>rr_recovered = [], rr_unresolved = [(tx, reason)]\<rparr>) \<and>
    promote_skill_candidate env later (snd s) other actor' tx' = (snd s, Some (js ''skill transaction recovery is unresolved'')) \<and>
    rollback_skill_candidate env later (snd s) other actor' tx' = (snd s, Some (js ''skill transaction recovery is unresolved''))"
proof -
  note start = prepared_ready(2-4) [OF assms(1,2)]
  obtain c p where ready: "ready env pb c p w" using prepared_ready(1) [OF assms(1,2)] by blast
  have none: "ks_transactions w = []" using assms(2) by (simp add: publishable_def Let_def)
  let ?phase = "publication_phases ! k"
  have "?phase = Journal_write \<or> ?phase = Backup_write \<or> ?phase = Prepared_write" using assms(4) by (auto simp: half_written_def)
  then have "torn pb w ?phase (snd s)"
    using interrupted_at [OF ready start(1,2) assms(3,5)] by (auto simp: interrupted_def)
  then have "\<exists>reason. recover_skill_transactions env later (snd s) = Inr (snd s, \<lparr>rr_recovered = [], rr_unresolved = [(tx, reason)]\<rparr>)"
    using torn_journal_unresolved [OF none, of pb "snd s" env later] torn_backup_unresolved [OF ready none, of "snd s" later]
      torn_prepared_unresolved [OF ready none, of "snd s" later] assms(4) start(3) \<open>?phase = Journal_write \<or> ?phase = Backup_write \<or> ?phase = Prepared_write\<close>
    by auto
  then show ?thesis by (auto simp: promote_skill_candidate_def rollback_skill_candidate_def publish_prepared_def)
qed

section \<open>Public files survive a recovery\<close>

lemma run_steps_keeps:
  assumes "\<And>a s s'. a \<in> set as \<Longrightarrow> P s \<Longrightarrow> f a s = Inr s' \<Longrightarrow> P s'" "P s" "run_steps f as s = (s', e)"
  shows "P s'"
  using assms by (induction as arbitrary: s) (auto split: sum.splits)

lemma unlink_keeps: "unlink_file path fs = Inr fs' \<Longrightarrow> path' \<noteq> path \<Longrightarrow> bytes_at fs' path' = bytes_at fs path'"
  by (auto simp: unlink_file_def bytes_at_def)

lemma link_keeps: "link_file existing path fs = Inr fs' \<Longrightarrow> bytes_at fs path' = Some bytes \<Longrightarrow> bytes_at fs' path' = Some bytes"
  by (auto simp: link_file_def bytes_at_def split: option.splits)

lemma remove_keeps:
  "remove_verified_file sha path h i fs = Inr fs' \<Longrightarrow> path' \<noteq> path \<Longrightarrow> bytes_at fs' path' = bytes_at fs path'"
  by (auto simp: remove_verified_file_def unlink_keeps split: if_splits)

text \<open>A plan removes only auxiliary names: the swap, the prepared file and the backup of an aborted promotion.\<close>

lemma planned_names:
  assumes "plan_transaction env w j = Inr (actions, outcome)"
  shows "last_two (tj_swap j) = js ''ap''" "last_two (tj_prepared j) = js ''ed''"
    "Remove_backup \<in> set actions \<Longrightarrow> last_two (the (tj_backup_path j)) = js ''in''"
proof -
  obtain c root p target swap prepared where c: "validate_journal_paths env w j c = Inr (root, p)"
      "recovery_plan env w j c p target swap prepared = Inr (actions, outcome)"
    using assms by (auto simp: plan_transaction_def split: option.splits)
  obtain s where "swap_path s (tj_id j) = tj_swap j" "prepared_path s (tj_id j) = tj_prepared j"
    using c(1) by (auto simp: validate_journal_paths_def split: option.splits if_splits)
  then show "last_two (tj_swap j) = js ''ap''" "last_two (tj_prepared j) = js ''ed''" using last_two_paths by metis+
  assume "Remove_backup \<in> set actions"
  then have "tj_operation j = Promote" "tj_backup_path j \<noteq> None"
    using c(2) by (auto simp: recovery_plan_def opt_action_def Let_def split: if_splits option.splits)
  moreover from this have "promote_journal_ok env j c p = Inr ()"
    using c(1) by (auto simp: validate_journal_paths_def split: option.splits)
  ultimately show "last_two (the (tj_backup_path j)) = js ''in''"
    by (cases "kp_basis p") (auto simp: promote_journal_ok_def last_two_paths split: if_splits)
qed

lemma action_keeps:
  assumes "plan_transaction env w0 j = Inr (actions, outcome)" "a \<in> set actions" "last_two path = js ''md''"
    "bytes_at (ks_files w) path = Some bytes" "recovery_action_step env now j a w = Inr w'"
  shows "bytes_at (ks_files w') path = Some bytes"
proof -
  have names: "path \<noteq> tj_swap j" "path \<noteq> tj_prepared j" "a = Remove_backup \<Longrightarrow> path \<noteq> the (tj_backup_path j)"
    using planned_names [OF assms(1)] assms(2,3) by auto
  show ?thesis
    using assms(4,5) names
    by (cases a)
      (auto simp: recovery_action_step_def with_files_def append_candidate_revision_def remove_transaction_def Let_def
        remove_keeps link_keeps split: option.splits)
qed

lemma recover_transaction_keeps:
  assumes "last_two path = js ''md''" "bytes_at (ks_files (fst s)) path = Some bytes"
  shows "bytes_at (ks_files (fst (recover_transaction env now entry s))) path = Some bytes"
proof (cases "snd entry")
  case (Some j)
  show ?thesis
  proof (cases "plan_transaction env (fst s) j")
    case (Inr r)
    obtain actions outcome where plan: "plan_transaction env (fst s) j = Inr (actions, outcome)" using Inr by (cases r) simp
    obtain w' e where run: "run_steps (recovery_action_step env now j) actions (fst s) = (w', e)" by fastforce
    have "bytes_at (ks_files w') path = Some bytes"
      by (rule run_steps_keeps [OF _ _ run, where P = "\<lambda>w. bytes_at (ks_files w) path = Some bytes"])
        (auto intro: action_keeps [OF plan _ assms(1)] assms(2))
    then show ?thesis
      using plan run Some assms(2) by (cases s; cases e) (auto simp: recover_transaction_def guard_def)
  qed (use Some assms(2) in \<open>cases s; auto simp: recover_transaction_def guard_def\<close>)
qed (use assms(2) in \<open>cases s; auto simp: recover_transaction_def\<close>)

text \<open>
  C19. A recovery never removes or changes a public skill file, whatever journals it finds: a configured
  skill that exists before it exists after it, with the same bytes.
\<close>

theorem recovery_preserves_public_skills:
  assumes "configured_skill_target root target = Inr s" "recover_skill_transactions env now w = Inr (w', report)"
    and "bytes_at (ks_files w) (sl_path s) = Some bytes"
  shows "bytes_at (ks_files w') (sl_path s) = Some bytes"
proof -
  have keeps: "bytes_at (ks_files (fst (fold (recover_transaction env now) entries x))) (sl_path s) = Some bytes"
    if "bytes_at (ks_files (fst x)) (sl_path s) = Some bytes" for entries x
    using that
  proof (induction entries arbitrary: x)
    case (Cons entry entries)
    then show ?case using Cons.IH [OF recover_transaction_keeps [OF last_two_target [OF assms(1)] Cons.prems]] by simp
  qed simp
  have "fold (recover_transaction env now) (ks_transactions w) (w, \<lparr>rr_recovered = [], rr_unresolved = []\<rparr>) = (w', report)"
    using assms(2) by (simp add: recover_skill_transactions_def)
  then show ?thesis using keeps [of "(w, \<lparr>rr_recovered = [], rr_unresolved = []\<rparr>)" "ks_transactions w"] assms(3) by simp
qed

section \<open>A rollback undoes a promotion\<close>

definition transaction_unused :: "jstr \<Rightarrow> jstr \<Rightarrow> file_system \<Rightarrow> bool" where
  "transaction_unused directory tx fs \<longleftrightarrow>
     (\<forall>suffix \<in> {js ''.swap'', js ''.prepared''}. fs_names fs (directory @ js ''/.alg-skill-'' @ tx @ suffix) = None)"

lemma node_numbers_published:
  assumes "ready env pb c p w" "published env pb c w w'"
  shows "node_numbers_ok (ks_files w')"
proof -
  obtain n b where files: "fs_next (ks_files w) \<le> n" "files_at pb w (Some n) None None (pb_content pb) b (old_bytes pb) (ks_files w')"
    using assms(2) by (auto simp: published_def)
  then have "n < fs_next (ks_files w')"
    using ready_before(1,2) [OF assms(1)] by (cases "pb_before pb") (force simp: files_at_def holds_new_def old_node_def)+
  then show ?thesis
    using files ready_facts(10) [OF assms(1)]
    by (fastforce simp: node_numbers_ok_def files_at_def laid_out_def holds_new_def Let_def split: option.splits if_splits)
qed

lemma promoted_candidate:
  assumes "ready env pb c p w" "tj_operation (pb_journal pb) = Promote" "candidate_proposal c = Inr p" "sk_is_skill c"
    and c'_def: "c' = committed_candidate now reason (pb_journal pb) at' backup c"
  shows "sk_state c' = Promoted" "sk_promoted_root c' = Some (tj_root (pb_journal pb))" "sk_promoted_hash c' = Some (tj_after_sha (pb_journal pb))"
    "sk_backup c' = backup" "candidate_proposal c' = Inr p" "sk_is_skill c'" "sk_id c' = sk_id c" "sk_target c' = sk_target c"
    "length (sk_revisions c') = sk_current_revision c'" "sk_current_revision c' = Suc (tj_candidate_revision (pb_journal pb))"
    "assert_current_revision c' = Inr (commit_revision reason now (pb_journal pb))"
    "kr_event (commit_revision reason now (pb_journal pb)) = Was_promoted"
    "map_option pn_after (kr_promotion (commit_revision reason now (pb_journal pb))) = Some (tj_after_sha (pb_journal pb))"
proof -
  have rev: "length (sk_revisions c) = sk_current_revision c" "sk_current_revision c = tj_candidate_revision (pb_journal pb)"
      "Suc 0 \<le> length (sk_revisions c)"
    using assms(1) by (simp_all add: ready_def Let_def)
  show "sk_state c' = Promoted" "sk_promoted_root c' = Some (tj_root (pb_journal pb))" "sk_promoted_hash c' = Some (tj_after_sha (pb_journal pb))"
    "sk_backup c' = backup" "sk_is_skill c'" "sk_id c' = sk_id c" "sk_target c' = sk_target c"
    "length (sk_revisions c') = sk_current_revision c'" "sk_current_revision c' = Suc (tj_candidate_revision (pb_journal pb))"
    "kr_event (commit_revision reason now (pb_journal pb)) = Was_promoted"
    "map_option pn_after (kr_promotion (commit_revision reason now (pb_journal pb))) = Some (tj_after_sha (pb_journal pb))"
    using assms(2,4) rev by (simp_all add: c'_def committed_candidate_def commit_change_def commit_revision_def)
  show "candidate_proposal c' = Inr p"
    using assms(3) rev(3)
    by (cases "sk_revisions c") (simp_all add: c'_def candidate_proposal_def load_candidate_revision_def committed_candidate_fields)
  show "assert_current_revision c' = Inr (commit_revision reason now (pb_journal pb))"
    using assms(2) rev
    by (simp add: c'_def assert_current_revision_def load_candidate_revision_def committed_candidate_fields nth_append commit_revision_def)
qed


section \<open>A recovery without complaints leaves no journal\<close>

lemma recovery_plan_end:
  "recovery_plan env w j c p target swap prepared = Inr (actions, outcome) \<Longrightarrow> actions \<noteq> [] \<and> last actions = Remove_journal"
  unfolding recovery_plan_def Let_def by (cases target) (auto split: if_splits)

lemma planned_end:
  assumes "plan_transaction env w j = Inr (actions, outcome)"
  shows "\<exists>as. actions = as @ [Remove_journal]"
proof -
  obtain c p target swap prepared where "recovery_plan env w j c p target swap prepared = Inr (actions, outcome)"
    using assms by (auto simp: plan_transaction_def split: option.splits)
  from recovery_plan_end [OF this] show ?thesis using append_butlast_last_id [of actions] by metis
qed

definition within :: "skill_store \<Rightarrow> skill_store \<Rightarrow> bool" where
  "within w w' \<longleftrightarrow> set (ks_transactions w') \<subseteq> set (ks_transactions w)"

lemma action_within: "recovery_action_step env now j a w = Inr w' \<Longrightarrow> within w w'"
  by (cases a)
    (auto simp: recovery_action_step_def with_files_def append_candidate_revision_def remove_transaction_def within_def Let_def
      split: option.splits)

lemma actions_within:
  assumes "run_steps (recovery_action_step env now j) as w = (w', e)"
  shows "within w w'"
proof (rule run_steps_keeps [OF _ _ assms, where P = "within w"])
  fix a s s' assume "within w s" "recovery_action_step env now j a s = Inr s'"
  then show "within w s'" using action_within by (fastforce simp: within_def)
qed (simp add: within_def)

lemma recover_transaction_within:
  "recover_transaction env now entry (w, report) = (w', report') \<Longrightarrow>
   within w w' \<and> (rr_unresolved report' = [] \<longrightarrow> rr_unresolved report = [] \<and> fst entry \<notin> fst ` set (ks_transactions w'))"
proof (cases "snd entry")
  case (Some j)
  assume step: "recover_transaction env now entry (w, report) = (w', report')"
  show ?thesis
  proof (cases "guard (tj_id j = fst entry) (js ''transaction filename does not match journal identity'') (plan_transaction env w j)")
    case (Inl e)
    then show ?thesis using step Some by (auto simp: recover_transaction_def within_def)
  next
    case (Inr r)
    obtain actions outcome where plan: "plan_transaction env w j = Inr (actions, outcome)" and i: "tj_id j = fst entry"
      using Inr by (cases r) (auto simp: guard_def split: if_splits)
    obtain as where as: "actions = as @ [Remove_journal]" using planned_end [OF plan] by blast
    obtain w1 e where run: "run_steps (recovery_action_step env now j) actions w = (w1, e)" by fastforce
    have gone: "fst entry \<notin> fst ` set (ks_transactions w1)" if "e = None"
      using run as i that
      by (auto simp: run_steps_append recovery_action_step_def remove_transaction_def split: prod.splits option.splits)
    show ?thesis
      using step Some plan i run gone actions_within [OF run] by (cases e) (auto simp: recover_transaction_def guard_def)
  qed
qed (auto simp: recover_transaction_def within_def)

lemma recover_all_within:
  "fold (recover_transaction env now) entries s = (w', report') \<Longrightarrow> rr_unresolved report' = [] \<Longrightarrow>
   within (fst s) w' \<and> fst ` set entries \<inter> fst ` set (ks_transactions w') = {} \<and> rr_unresolved (snd s) = []"
proof (induction entries arbitrary: s)
  case (Cons entry entries)
  obtain w report where s: "s = (w, report)" by (cases s)
  obtain w1 report1 where one: "recover_transaction env now entry (w, report) = (w1, report1)" by fastforce
  have "within w1 w' \<and> fst ` set entries \<inter> fst ` set (ks_transactions w') = {} \<and> rr_unresolved report1 = []"
    using Cons.IH [of "(w1, report1)"] Cons.prems one s by simp
  then show ?case using recover_transaction_within [OF one] s by (auto simp: within_def)
qed (auto simp: within_def)

text \<open>
  A recovery that reports nothing unresolved leaves no journal behind, so that the publication it
  precedes starts with none.
\<close>

theorem resolved_recovery_leaves_no_journal:
  assumes "recover_skill_transactions env now w = Inr (w', report)" "rr_unresolved report = []"
  shows "ks_transactions w' = []"
proof -
  have "within w w' \<and> fst ` set (ks_transactions w) \<inter> fst ` set (ks_transactions w') = {}"
    using recover_all_within [of env now "ks_transactions w" "(w, \<lparr>rr_recovered = [], rr_unresolved = []\<rparr>)" w' report] assms
    by (simp add: recover_skill_transactions_def)
  then show ?thesis by (cases "ks_transactions w'") (auto simp: within_def)
qed

section \<open>A replacement in a small store\<close>

definition sample_env :: skill_env where
  "sample_env = \<lparr>sv_sha = map ucast, sv_skill_ok = (\<lambda>_ _. True), sv_roots = [js ''skills'']\<rparr>"

definition sample_proposal :: skill_proposal where
  "sample_proposal = \<lparr>kp_target = js ''a/SKILL.md'', kp_operation = Replace, kp_basis = Some (js ''o''), kp_content = js ''n''\<rparr>"

definition sample_candidate :: skill_candidate where
  "sample_candidate =
     \<lparr>sk_id = js ''c'', sk_is_skill = True, sk_state = Validated, sk_current_revision = 1,
      sk_revisions = [\<lparr>kr_state = Validated, kr_event = Checker_passed, kr_actor = js ''k'', kr_reason = [], kr_created_at = 0,
        kr_proposal = Some sample_proposal, kr_checker = Some (True, []), kr_promotion = None\<rparr>],
      sk_target = Some (js ''a/SKILL.md''), sk_checker_child = Some (js ''k''), sk_checker_findings = [], sk_updated_at = 0,
      sk_promoted_hash = None, sk_promoted_at = None, sk_promoted_root = None, sk_backup = None\<rparr>"

definition sample_store :: skill_store where
  "sample_store =
     \<lparr>ks_files = \<lparr>fs_names = [js ''skills/a/SKILL.md'' \<mapsto> 0], fs_data = (\<lambda>_. [0x6F]), fs_next = 1, fs_directory = (\<lambda>_. 7)\<rparr>,
      ks_transactions = [], ks_candidates = [sample_candidate]\<rparr>"

definition sample_target :: skill_target where
  "sample_target = \<lparr>sl_root = js ''skills'', sl_directory = js ''skills/a'', sl_path = js ''skills/a/SKILL.md''\<rparr>"

definition sample_publication :: publication where
  "sample_publication =
     promotion_of sample_env sample_candidate sample_proposal sample_target
       (Some \<lparr>cp_sha = js ''o'', cp_identity = (0, 1), cp_bytes = [0x6F]\<rparr>) 7 (js ''u'') (js ''t1'') 5"

lemma sample_configured: "configured_skill_target (js ''skills'') (js ''a/SKILL.md'') = Inr sample_target"
  by code_simp

lemma sample_capture:
  "file_hash_or_null (sv_sha sample_env) (ks_files sample_store) (js ''skills/a/SKILL.md'') =
     Inr (Some \<lparr>cp_sha = js ''o'', cp_identity = (0, 1), cp_bytes = [0x6F]\<rparr>)"
  by (simp add: file_hash_or_null_def sample_env_def sample_store_def SKILL_EVOLUTION_MAX_CONTENT_BYTES_def js_def)

lemma sample_shape: "skill_journal_shape (pb_journal sample_publication)"
proof -
  have "is_safe_id (js ''t1'')" "is_safe_id (js ''c'')" by code_simp+
  then show ?thesis
    by (simp add: skill_journal_shape_def sample_publication_def promotion_of_def sample_candidate_def
      SKILL_EVOLUTION_MAX_REVISIONS_def SKILL_EVOLUTION_MAX_CONTENT_BYTES_def)
qed

lemma sample_prepared: "prepare_promotion sample_env sample_store (js ''c'') (js ''u'') (js ''t1'') 5 = Inr sample_publication"
proof -
  have found: "find_skill_candidate sample_store (js ''c'') = Some sample_candidate"
    by (simp add: find_skill_candidate_def sample_store_def sample_candidate_def)
  have proposal: "candidate_proposal sample_candidate = Inr sample_proposal" by code_simp
  have state: "assert_checker_approved sample_candidate = Inr ()" "\<exists>r. assert_current_revision sample_candidate = Inr r"
      "sk_is_skill sample_candidate" "sk_state sample_candidate = Validated" "sk_target sample_candidate = Some (kp_target sample_proposal)"
    by (simp_all add: assert_checker_approved_def assert_current_revision_def load_candidate_revision_def sample_candidate_def sample_proposal_def)
  have env: "sv_roots sample_env = [js ''skills'']" "sv_skill_ok sample_env x y" for x y by (simp_all add: sample_env_def)
  have p: "kp_operation sample_proposal = Replace" "kp_basis sample_proposal = Some (js ''o'')" "kp_target sample_proposal = js ''a/SKILL.md''"
    by (simp_all add: sample_proposal_def)
  have s: "sl_path sample_target = js ''skills/a/SKILL.md''" "sl_directory sample_target = js ''skills/a''" by (simp_all add: sample_target_def)
  have "root_state sample_env sample_store (js ''a/SKILL.md'') (js ''skills'') =
      Inr (Some \<lparr>cp_sha = js ''o'', cp_identity = (0, 1), cp_bytes = [0x6F]\<rparr>)"
    using s(1) by (simp add: root_state_def sample_configured sample_capture)
  then have "promotion_root sample_env sample_store sample_candidate sample_proposal = Inr (js ''skills'')"
    using p env(1) state(5) by (simp add: promotion_root_def has_basis_def)
  moreover have "fs_directory (ks_files sample_store) d = 7" for d by (simp add: sample_store_def)
  ultimately show ?thesis
    using found proposal state env p s sample_configured sample_capture
    sample_shape
    by (auto simp: prepare_promotion_def has_basis_def sample_publication_def checked_publication_def)
qed

lemma sample_paths:
  "tl (own_paths (pb_journal sample_publication)) =
     [js ''skills/a/.alg-skill-t1.swap'', js ''skills/a/.alg-skill-t1.prepared'', js ''.opencode/skill-evolution/backups/c-o-t1.bin'']"
  by code_simp

lemma sample_content: "pb_content sample_publication = [0x6E]" "tj_before_sha (pb_journal sample_publication) = Some (js ''o'')"
    "tj_after_sha (pb_journal sample_publication) = js ''n''" "tj_id (pb_journal sample_publication) = js ''t1''"
    "tj_candidate (pb_journal sample_publication) = js ''c''" "tj_root (pb_journal sample_publication) = js ''skills''"
    "own_backup (pb_journal sample_publication) \<noteq> None" "tj_candidate_revision (pb_journal sample_publication) = 1"
    "pb_before sample_publication = Some \<lparr>cp_sha = js ''o'', cp_identity = (0, 1), cp_bytes = [0x6F]\<rparr>"
    "pb_directory sample_publication = js ''skills/a''"
  by code_simp+

lemma sample_publishable: "publishable sample_env sample_publication sample_store"
proof -
  have "node_numbers_ok (ks_files sample_store)" by (simp add: node_numbers_ok_def sample_store_def)
  moreover have "list_all (\<lambda>path. fs_names (ks_files sample_store) path = None) (tl (own_paths (pb_journal sample_publication)))"
    unfolding sample_paths by (simp add: sample_store_def)
  moreover have "find_skill_candidate sample_store (js ''c'') = Some sample_candidate"
    by (simp add: find_skill_candidate_def sample_store_def sample_candidate_def)
  moreover have "candidate_proposal sample_candidate = Inr sample_proposal" by code_simp
  moreover have "sk_target sample_candidate = Some (kp_target sample_proposal)" "length (sk_revisions sample_candidate) = 1"
      "sk_current_revision sample_candidate = 1" "ks_transactions sample_store = []"
    by (simp_all add: sample_candidate_def sample_proposal_def sample_store_def)
  ultimately show ?thesis
    by (simp add: publishable_def Let_def sample_content SKILL_EVOLUTION_MAX_CONTENT_BYTES_def SKILL_EVOLUTION_MAX_REVISIONS_def)
      (simp add: sample_env_def)
qed

lemma sample_prepares: "prepares sample_env sample_store (js ''c'') (js ''u'') (js ''t1'') 5 sample_publication"
  by (simp add: prepares_def sample_prepared)

lemma sample_phases: "length publication_phases = 17" "publication_phases ! 11 = Publish" "publication_phases ! 6 = Prepared_write"
  by (simp_all add: publication_phases_def journal_phases_def file_phases_def)

definition sample_stop :: "nat \<Rightarrow> skill_store" where
  "sample_stop k = snd (fst (run_steps (publication_step sample_env 5) (take k publication_phases) (sample_publication, sample_store)))"

lemma sample_run:
  "run_steps (publication_step sample_env 5) (take k publication_phases) (sample_publication, sample_store) =
     ((fst (fst (run_steps (publication_step sample_env 5) (take k publication_phases) (sample_publication, sample_store))), sample_stop k),
      snd (run_steps (publication_step sample_env 5) (take k publication_phases) (sample_publication, sample_store)))"
  by (simp add: sample_stop_def)


theorem half_written_file_blocks_publication_witness:
  "\<exists>reason. recover_skill_transactions sample_env 9 (sample_stop 6) =
     Inr (sample_stop 6, \<lparr>rr_recovered = [], rr_unresolved = [(js ''t1'', reason)]\<rparr>) \<and>
     promote_skill_candidate sample_env 9 (sample_stop 6) (js ''d'') (js ''u'') (js ''t2'') =
       (sample_stop 6, Some (js ''skill transaction recovery is unresolved'')) \<and>
     rollback_skill_candidate sample_env 9 (sample_stop 6) (js ''d'') (js ''u'') (js ''t2'') =
       (sample_stop 6, Some (js ''skill transaction recovery is unresolved''))"
  using half_written_file_blocks_publication [OF sample_prepares sample_publishable _ _ sample_run, of 6 9 "js ''d''" "js ''u''" "js ''t2''"]
  by (simp add: sample_phases half_written_def sample_content) (simp add: sample_env_def)


lemma sample_pending: "ks_files (sample_stop 2) = ks_files sample_store"
  by (simp add: sample_stop_def publication_phases_def journal_phases_def publication_step_def open_transaction_def
      write_transaction_def sample_store_def Let_def)

lemma sample_recovery: "\<exists>w report. recover_skill_transactions sample_env 9 (sample_stop 2) = Inr (w, report) \<and> rr_unresolved report = []"
proof -
  have two: "publication_phases ! 2 = Backup_open" by (simp add: publication_phases_def journal_phases_def file_phases_def)
  obtain c p where "ready sample_env sample_publication c p sample_store" "ks_transactions sample_store = []"
      "whole sample_env sample_publication c sample_store (sample_stop 2)"
    using interrupted_whole [OF sample_prepares sample_publishable _ _ _ sample_run, of 2 thesis] two by (auto simp: sample_phases)
  from complete_recovery [OF this, of 9] show ?thesis by auto
qed

theorem recovery_preserves_public_skills_witness:
  "\<exists>w report. recover_skill_transactions sample_env 9 (sample_stop 2) = Inr (w, report) \<and>
     bytes_at (ks_files w) (js ''skills/a/SKILL.md'') = Some [0x6F]"
proof -
  obtain w report where done': "recover_skill_transactions sample_env 9 (sample_stop 2) = Inr (w, report)" using sample_recovery by blast
  have "bytes_at (ks_files (sample_stop 2)) (sl_path sample_target) = Some [0x6F]"
    unfolding sample_pending by (simp add: sample_store_def sample_target_def bytes_at_def)
  from recovery_preserves_public_skills [OF sample_configured done' this] show ?thesis
    using done' by (simp add: sample_target_def)
qed


end
