(* ===== verification/Run_Steps.thy ===== *)
theory Run_Steps
  imports Summary
begin

text \<open>
  How the run invariant survives a change of the node table: the pointwise rule that every
  operation of the executor is checked with, its instance for a single node, and the rule for
  the propagation of failures. \<open>base_fine\<close> is the invariant without the checks on the run
  status, which hold trivially while a run is running or blocked.
\<close>

section \<open>The invariant without the run status\<close>

definition header_hydrated :: "run_state \<Rightarrow> bool" where
  "header_hydrated run \<longleftrightarrow>
     rs_filesystem_root_authorizations_ref run = None \<and>
     rs_filesystem_root_authorizations_omitted run = None \<and> rs_state_projection run = None"

definition base_fine :: "run_state \<Rightarrow> bool" where
  "base_fine run \<longleftrightarrow>
     header_shape run \<and> header_hydrated run \<and> table_fine run \<and> run_ownership_issues run = []"

lemma table_fine_hydrated:
  assumes "table_fine run" "header_hydrated run"
  shows "hydrated_run run"
proof -
  have "hydrated_node st" if st: "st \<in> set (node_values run)" for st
    using fine_node_of_value [OF assms(1) st] by (auto simp: node_fine_def)
  then show ?thesis using assms(2) by (simp add: hydrated_run_def header_hydrated_def list_all_iff)
qed

lemma run_fine_base: "run_fine run \<longleftrightarrow> base_fine run \<and> run_status_issues run = []"
proof
  assume "run_fine run"
  then show "base_fine run \<and> run_status_issues run = []"
    unfolding run_fine_def base_fine_def hydrated_run_def header_hydrated_def by blast
next
  assume a: "base_fine run \<and> run_status_issues run = []"
  then have "hydrated_run run" using table_fine_hydrated unfolding base_fine_def by blast
  then show "run_fine run" using a unfolding run_fine_def base_fine_def by blast
qed

lemma open_status_issues:
  "rs_status run = Run_running \<or> rs_status run = Run_blocked \<Longrightarrow> run_status_issues run = []"
  by (auto simp: run_status_issues_def)

lemma base_fine_run_fine:
  "base_fine run \<Longrightarrow> rs_status run = Run_running \<or> rs_status run = Run_blocked \<Longrightarrow> run_fine run"
  by (simp add: run_fine_base open_status_issues)

lemmas base_fine_table = base_fine_def [THEN iffD1, THEN conjunct2, THEN conjunct2, THEN conjunct1]

section \<open>The pointwise rule\<close>

lemma total_attempts_alist:
  assumes "map fst al = map fst al'" "distinct (map fst al)"
    and "\<And>i. map_option f (map_of al' i) = map_option f (map_of al i)"
  shows "sum_list (map (f \<circ> snd) al') = sum_list (map (f \<circ> snd) (al :: ('k \<times> 'v) list) :: nat list)"
proof -
  have len: "length al = length al'" using assms(1) by (metis length_map)
  have "(f \<circ> snd) (al' ! k) = (f \<circ> snd) (al ! k)" if k: "k < length al" for k
  proof -
    have key: "fst (al' ! k) = fst (al ! k)" using assms(1) k len by (metis nth_map)
    have d': "distinct (map fst al')" using assms(1,2) by simp
    have "map_of al (fst (al ! k)) = Some (snd (al ! k))"
      using set_alist_map_of [OF assms(2)] nth_mem [OF k] by (metis prod.collapse)
    moreover have "map_of al' (fst (al' ! k)) = Some (snd (al' ! k))"
      using set_alist_map_of [OF d'] nth_mem [of k al'] k len by (metis prod.collapse)
    ultimately show ?thesis using assms(3) [of "fst (al ! k)"] key by simp
  qed
  then have "map (f \<circ> snd) al' = map (f \<circ> snd) al" using len by (intro nth_equalityI) auto
  then show ?thesis by simp
qed

lemma total_attempts_cong:
  assumes "nodes_match run" "map fst (rs_nodes run') = map fst (rs_nodes run)"
    and "\<And>i. map_option ns_current_attempt (node_of run' i) = map_option ns_current_attempt (node_of run i)"
  shows "total_attempts run' = total_attempts run"
  using total_attempts_alist [of "rs_nodes run" "rs_nodes run'" ns_current_attempt] assms
  by (simp add: total_attempts_def node_values_def node_of_def nodes_match_def)

definition same_frame :: "run_state \<Rightarrow> run_state \<Rightarrow> bool" where
  "same_frame run run' \<longleftrightarrow>
     rs_graph run' = rs_graph run \<and> rs_run_id run' = rs_run_id run \<and> rs_mode run' = rs_mode run \<and>
     map fst (rs_nodes run') = map fst (rs_nodes run)"

lemma same_frame_nodes_match: "same_frame run run' \<Longrightarrow> nodes_match run \<Longrightarrow> nodes_match run'"
  unfolding same_frame_def nodes_match_def by (metis list.set_map)

lemma table_fine_pointwise:
  assumes "table_fine run" "same_frame run run'" "rs_global_attempts run' = rs_global_attempts run"
    and "\<And>i. map_option ns_current_attempt (node_of run' i) = map_option ns_current_attempt (node_of run i)"
    and "\<And>d st. d \<in> set (gd_nodes (rs_graph run)) \<Longrightarrow> node_of run' (nd_id d) = Some st \<Longrightarrow>
           node_fine (rs_run_id run) (rs_mode run) d st"
    and "\<And>d. d \<in> set (gd_nodes (rs_graph run)) \<Longrightarrow> edge_fine run' d"
  shows "table_fine run'"
proof -
  note T = table_fineD [OF assms(1)]
  have "total_attempts run' = total_attempts run"
    using assms(2,4) T(1) by (intro total_attempts_cong) (simp_all add: same_frame_def)
  then show ?thesis
    using assms(2,3,5,6) T(2,7,8) same_frame_nodes_match [OF assms(2) T(1)]
    unfolding table_fine_def same_frame_def by metis
qed

lemma same_but_nodes_fields:
  assumes "same_but_nodes run run'"
  shows "rs_graph run' = rs_graph run" "rs_run_id run' = rs_run_id run" "rs_mode run' = rs_mode run"
    "rs_global_attempts run' = rs_global_attempts run" "rs_status run' = rs_status run"
    "header_shape run' = header_shape run" "header_hydrated run' = header_hydrated run"
    "run_ownership_issues run' = run_ownership_issues run"
    "rs_goal run' = rs_goal run" "rs_criteria run' = rs_criteria run"
  using assms by (auto simp: same_but_nodes_def header_shape_def header_hydrated_def run_ownership_issues_def)

lemma base_fine_pointwise:
  assumes "base_fine run" "same_but_nodes run run'" "map fst (rs_nodes run') = map fst (rs_nodes run)"
    and "\<And>i. map_option ns_current_attempt (node_of run' i) = map_option ns_current_attempt (node_of run i)"
    and "\<And>d st. d \<in> set (gd_nodes (rs_graph run)) \<Longrightarrow> node_of run' (nd_id d) = Some st \<Longrightarrow>
           node_fine (rs_run_id run) (rs_mode run) d st"
    and "\<And>d. d \<in> set (gd_nodes (rs_graph run)) \<Longrightarrow> edge_fine run' d"
  shows "base_fine run'"
proof -
  note F = same_but_nodes_fields [OF assms(2)]
  have "table_fine run'"
    using assms F by (intro table_fine_pointwise [of run run']) (simp_all add: base_fine_def same_frame_def)
  then show ?thesis using assms(1) F unfolding base_fine_def by simp
qed

section \<open>One node\<close>

definition blocking :: "node_status \<Rightarrow> bool" where
  "blocking s \<longleftrightarrow> s = Failed \<or> s = Skipped"

lemma blocking_simps [simp]:
  "\<not> blocking Pending" "\<not> blocking Ready" "\<not> blocking Running" "\<not> blocking Done" "blocking Failed" "blocking Skipped"
  by (simp_all add: blocking_def)

text \<open>What the dependents of a node allow its status to become.\<close>

definition step_allowed :: "run_state \<Rightarrow> node_def \<Rightarrow> node_status \<Rightarrow> node_status \<Rightarrow> bool" where
  "step_allowed run d s s' \<longleftrightarrow>
     (s' = Done \<longrightarrow> deps_done run d) \<and>
     (s' = Skipped \<longrightarrow> list_ex (blocked_by run) (nd_depends_on d)) \<and>
     (s = Done \<and> s' \<noteq> Done \<longrightarrow>
        (\<forall>e \<in> set (gd_nodes (rs_graph run)). nd_id d \<in> set (nd_depends_on e) \<longrightarrow>
           node_status_of run (nd_id e) \<noteq> Some Done)) \<and>
     (blocking s \<and> \<not> blocking s' \<longrightarrow>
        (\<forall>e \<in> set (gd_nodes (rs_graph run)). nd_id d \<in> set (nd_depends_on e) \<longrightarrow>
           node_status_of run (nd_id e) \<noteq> Some Skipped))"

lemma node_status_of_set_node [simp]:
  "node_status_of (set_node i st run) j = (if j = i then Some (ns_status st) else node_status_of run j)"
  by (simp add: node_status_of_def)

lemma blocked_by_set_node:
  "blocked_by (set_node i st run) j \<longleftrightarrow> (if j = i then blocking (ns_status st) else blocked_by run j)"
  by (auto simp: blocked_by_def blocking_def)

lemma no_self_dependency:
  assumes "ordered_graph g" "d \<in> set (gd_nodes g)"
  shows "nd_id d \<notin> set (nd_depends_on d)"
proof -
  obtain k where k: "k < length (gd_nodes g)" "gd_nodes g ! k = d" using assms(2) by (auto simp: in_set_conv_nth)
  have "set (nd_depends_on d) \<subseteq> nd_id ` set (take k (gd_nodes g))"
    using assms(1) k by (auto simp: ordered_graph_def topological_def)
  moreover have "nd_id d \<notin> nd_id ` set (take k (gd_nodes g))"
  proof
    assume "nd_id d \<in> nd_id ` set (take k (gd_nodes g))"
    then obtain j where j: "j < k" "nd_id (gd_nodes g ! j) = nd_id d"
      by (auto simp: in_set_conv_nth)
    have ids: "distinct (map nd_id (gd_nodes g))" using assms(1) by (simp add: ordered_graph_def)
    have "map nd_id (gd_nodes g) ! j = map nd_id (gd_nodes g) ! k" using j k by simp
    then have "j = k" using nth_eq_iff_index_eq [OF ids, of j k] j(1) k(1) by simp
    then show False using j(1) by simp
  qed
  ultimately show ?thesis by blast
qed

lemma edge_fine_set_node:
  assumes "table_fine run" "d \<in> set (gd_nodes (rs_graph run))" "node_of run (nd_id d) = Some st"
    and "step_allowed run d (ns_status st) (ns_status st')" "e \<in> set (gd_nodes (rs_graph run))"
  shows "edge_fine (set_node (nd_id d) st' run) e"
proof -
  note T = table_fineD [OF assms(1)]
  let ?run = "set_node (nd_id d) st' run"
  have self: "nd_id d \<notin> set (nd_depends_on d)" by (rule no_self_dependency [OF T(3) assms(2)])
  have old: "node_status_of run (nd_id d) = Some (ns_status st)" using assms(3) by (simp add: node_status_of_def)
  show ?thesis
  proof (cases "nd_id e = nd_id d")
    case True
    then have e: "e = d" using distinct_index_unique [OF T(4) assms(5,2)] by simp
    have "deps_done run d \<Longrightarrow> deps_done ?run d" using self by (auto simp: deps_done_def list_all_iff)
    moreover have "list_ex (blocked_by run) (nd_depends_on d) \<Longrightarrow> list_ex (blocked_by ?run) (nd_depends_on d)"
      using self unfolding list_ex_iff blocked_by_set_node by metis
    ultimately show ?thesis using assms(4) by (simp add: e edge_fine_def step_allowed_def)
  next
    case False
    have edge: "edge_fine run e" by (rule T(6) [OF assms(5)])
    have "deps_done ?run e" if s: "node_status_of run (nd_id e) = Some Done"
    proof -
      have "deps_done run e" using edge s by (simp add: edge_fine_def)
      moreover have "ns_status st' = Done" if "nd_id d \<in> set (nd_depends_on e)"
        using assms(4,5) s that old \<open>deps_done run e\<close>
        by (auto simp: step_allowed_def deps_done_def list_all_iff)
      ultimately show ?thesis by (auto simp: deps_done_def list_all_iff)
    qed
    moreover have "list_ex (blocked_by ?run) (nd_depends_on e)" if s: "node_status_of run (nd_id e) = Some Skipped"
    proof -
      obtain x where x: "x \<in> set (nd_depends_on e)" "blocked_by run x"
        using edge s by (auto simp: edge_fine_def list_ex_iff)
      have "blocking (ns_status st')" if "x = nd_id d"
        using assms(4,5) s x old that by (auto simp: step_allowed_def blocked_by_def blocking_def)
      then show ?thesis using x by (auto simp: list_ex_iff blocked_by_set_node)
    qed
    ultimately show ?thesis using False by (simp add: edge_fine_def)
  qed
qed

lemma base_fine_set_node:
  assumes "base_fine run" "d \<in> set (gd_nodes (rs_graph run))" "node_of run (nd_id d) = Some st"
    and "node_fine (rs_run_id run) (rs_mode run) d st'" "ns_current_attempt st' = ns_current_attempt st"
    and "step_allowed run d (ns_status st) (ns_status st')"
  shows "base_fine (set_node (nd_id d) st' run)"
proof (rule base_fine_pointwise [OF assms(1)])
  note table = base_fine_table [OF assms(1)]
  note T = table_fineD [OF table]
  show "same_but_nodes run (set_node (nd_id d) st' run)" by simp
  show "map fst (rs_nodes (set_node (nd_id d) st' run)) = map fst (rs_nodes run)"
    using assms(3) by (simp add: keys_set_node)
  show "map_option ns_current_attempt (node_of (set_node (nd_id d) st' run) i) =
      map_option ns_current_attempt (node_of run i)" for i
    using assms(3,5) by simp
  show "node_fine (rs_run_id run) (rs_mode run) e t"
    if e: "e \<in> set (gd_nodes (rs_graph run))" "node_of (set_node (nd_id d) st' run) (nd_id e) = Some t" for e t
  proof (cases "nd_id e = nd_id d")
    case True
    then show ?thesis using distinct_index_unique [OF T(4) e(1) assms(2)] e(2) assms(4) by simp
  next
    case False
    then show ?thesis using T(5) [OF e(1)] e(2) by simp
  qed
  show "edge_fine (set_node (nd_id d) st' run) e" if "e \<in> set (gd_nodes (rs_graph run))" for e
    by (rule edge_fine_set_node [OF table assms(2,3,6) that])
qed

section \<open>Histories\<close>

lemma history_fine_snoc:
  "history_fine run_id mode d (as @ [a]) \<longleftrightarrow>
     history_fine run_id mode d as \<and> (\<forall>b \<in> set as. na_status b \<noteq> Running) \<and>
     attempt_fine run_id mode d (Suc (length as)) a"
proof
  assume h: "history_fine run_id mode d (as @ [a])"
  have "attempt_fine run_id mode d (Suc k) (as ! k) \<and> na_status (as ! k) \<noteq> Running" if "k < length as" for k
    using h [unfolded history_fine_def, rule_format, of k] that by (auto simp: nth_append)
  moreover have "attempt_fine run_id mode d (Suc (length as)) a"
    using h [unfolded history_fine_def, rule_format, of "length as"] by simp
  ultimately show "history_fine run_id mode d as \<and> (\<forall>b \<in> set as. na_status b \<noteq> Running) \<and>
      attempt_fine run_id mode d (Suc (length as)) a"
    by (auto simp: history_fine_def in_set_conv_nth)
next
  assume "history_fine run_id mode d as \<and> (\<forall>b \<in> set as. na_status b \<noteq> Running) \<and>
      attempt_fine run_id mode d (Suc (length as)) a"
  then show "history_fine run_id mode d (as @ [a])"
    by (auto simp: history_fine_def nth_append less_Suc_eq dest: nth_mem)
qed

text \<open>The attempt of a running node is the last one.\<close>

lemma running_node_attempt:
  assumes "node_fine run_id mode d st" "ns_status st = Running"
  obtains as a where "ns_attempts st = as @ [a]" "na_status a = Running"
    "attempt_fine run_id mode d (Suc (length as)) a" "history_fine run_id mode d as"
    "\<forall>b \<in> set as. na_status b \<noteq> Running" "ns_current_attempt st = Suc (length as)"
proof -
  have f: "final_status st = Some Running" "history_fine run_id mode d (ns_attempts st)"
    "ns_current_attempt st = length (ns_attempts st)"
    using assms unfolding node_fine_def by blast+
  then have ne: "ns_attempts st \<noteq> []" by (auto simp: final_status_simps)
  let ?as = "butlast (ns_attempts st)" and ?a = "last (ns_attempts st)"
  have split: "ns_attempts st = ?as @ [?a]" using ne by simp
  have "na_status ?a = Running" using f(1) ne by (simp add: final_status_simps)
  moreover have "history_fine run_id mode d (?as @ [?a])" using f(2) by (simp only: split [symmetric])
  moreover have "ns_current_attempt st = Suc (length ?as)" using f(3) ne by simp
  ultimately show thesis using that [OF split] unfolding history_fine_snoc by blast
qed

lemma latest_output_snoc:
  "latest_output (as @ [a]) = (if na_output a \<noteq> None then na_output a else latest_output as)"
  by (simp add: latest_output_def)

lemma final_status_snoc: "ns_attempts st = as @ [a] \<Longrightarrow> final_status st = Some (na_status a)"
  by (simp add: final_status_simps)

lemma history_fine_final:
  assumes "node_fine run_id mode d st"
  shows "final_status st = None \<or> final_status st = Some Running \<or> final_status st = Some Done \<or>
    final_status st = Some Failed"
  using assms history_fine_status [of run_id mode d "ns_attempts st" "last (ns_attempts st)"]
  by (auto simp: node_fine_def final_status_simps)

section \<open>Changes outside the table\<close>

lemma table_fine_fields:
  assumes "rs_nodes run' = rs_nodes run" "rs_graph run' = rs_graph run" "rs_run_id run' = rs_run_id run"
    "rs_mode run' = rs_mode run" "rs_global_attempts run' = rs_global_attempts run"
  shows "table_fine run' = table_fine run"
proof -
  have "node_of run' = node_of run" using assms(1) by (simp add: node_of_def fun_eq_iff)
  moreover from this have "node_status_of run' = node_status_of run" by (simp add: node_status_of_def fun_eq_iff)
  moreover from this have "blocked_by run' = blocked_by run" by (simp add: blocked_by_def fun_eq_iff)
  ultimately show ?thesis
    using assms by (simp add: table_fine_def nodes_match_def edge_fine_def deps_done_def total_attempts_def node_values_def)
qed

lemma base_fine_status: "base_fine (run\<lparr>rs_status := s, rs_phase := p\<rparr>) \<longleftrightarrow> base_fine run"
  if "sized 1 128 p" "sized 1 128 (rs_phase run)"
  using that table_fine_fields [of "run\<lparr>rs_status := s, rs_phase := p\<rparr>" run]
  by (simp add: base_fine_def header_shape_def header_hydrated_def run_ownership_issues_def)

lemma base_fine_phase: "base_fine run \<Longrightarrow> sized 1 128 (rs_phase run)"
  by (simp add: base_fine_def header_shape_def)

lemma base_fine_set_status: "base_fine run \<Longrightarrow> sized 1 128 p \<Longrightarrow> base_fine (run\<lparr>rs_status := s, rs_phase := p\<rparr>)"
  using base_fine_status base_fine_phase by blast

lemma base_fine_summary:
  assumes "base_fine run"
  shows "base_fine (run\<lparr>rs_summary := Some (summarize run)\<rparr>)"
proof -
  have "length (summarize run) \<le> 40000"
    using assms summarize_length_fine by (simp add: base_fine_def)
  then show ?thesis
    using assms table_fine_fields [of "run\<lparr>rs_summary := Some (summarize run)\<rparr>" run]
    by (simp add: base_fine_def header_shape_def header_hydrated_def run_ownership_issues_def)
qed

lemma base_fine_criteria:
  assumes "base_fine run" "bounded_strings c"
  shows "base_fine (run\<lparr>rs_criteria := c, rs_criteria_locked := b\<rparr>)"
  using assms table_fine_fields [of "run\<lparr>rs_criteria := c, rs_criteria_locked := b\<rparr>" run]
  by (simp add: base_fine_def header_shape_def header_hydrated_def run_ownership_issues_def)

lemma modify_node_Some: "node_of run i = Some st \<Longrightarrow> modify_node i f run = set_node i (f st) run"
  by (simp add: modify_node_def)

section \<open>Changing the status of a node that is not running\<close>

lemma restatus_node_fine:
  assumes "node_fine run_id mode d st" "ns_status st \<noteq> Running"
    and "s = Pending \<or> s = Failed \<or> s = Skipped" "s = Failed \<Longrightarrow> final_status st \<noteq> Some Done"
    and "bounded_strings fs" "s \<noteq> Pending \<Longrightarrow> fs \<noteq> []"
  shows "node_fine run_id mode d (st\<lparr>ns_status := s, ns_last_failures := fs\<rparr>)"
proof -
  let ?st = "st\<lparr>ns_status := s, ns_last_failures := fs\<rparr>"
  have final: "final_status ?st = final_status st" by (simp add: final_status_simps)
  have "final_status st \<noteq> Some Running" using assms(1,2) unfolding node_fine_def by blast
  then have "s = Failed \<Longrightarrow> final_status st = None \<or> final_status st = Some Failed"
    using history_fine_final [OF assms(1)] assms(4) by blast
  moreover have "hydrated_node ?st = hydrated_node st" by (simp add: hydrated_node_def)
  ultimately show ?thesis
    using assms \<open>final_status st \<noteq> Some Running\<close> unfolding node_fine_def final by auto
qed

lemma pending_node_fine:
  assumes "node_fine run_id mode d st" "ns_status st \<noteq> Running"
  shows "node_fine run_id mode d (st\<lparr>ns_status := Pending\<rparr>)"
proof -
  have "bounded_strings (ns_last_failures st)" using assms(1) unfolding node_fine_def by blast
  then have "node_fine run_id mode d (st\<lparr>ns_status := Pending, ns_last_failures := ns_last_failures st\<rparr>)"
    by (intro restatus_node_fine [OF assms]) simp_all
  then show ?thesis by simp
qed

lemma short_text_framed:
  "xs \<noteq> [] \<Longrightarrow> length xs \<le> 2000 \<Longrightarrow> \<not> js_space (hd xs) \<Longrightarrow> \<not> js_space (last xs) \<Longrightarrow> short_text xs"
  by (cases xs) (auto simp: short_text_def js_trimmed_iff)

lemma bounded_strings_single: "short_text x \<Longrightarrow> bounded_strings [x]"
  by (simp add: bounded_strings_def)

lemma safe_id_last_not_space: "is_safe_id i \<Longrightarrow> \<not> js_space (last i)"
  using is_safe_id_units [of i] is_safe_id_length [of i] id_unit_not_space
  by (auto simp: list_all_iff)

lemma dependency_failure_bounded:
  assumes "is_safe_id dep"
  shows "bounded_strings (dependency_failure dep)" "dependency_failure dep \<noteq> []"
proof -
  have "dep \<noteq> []" "length dep \<le> 64" using is_safe_id_length [OF assms] by auto
  moreover have "\<not> js_space (hd (js ''Dependency did not complete: ''))" by code_simp
  ultimately have "short_text (js ''Dependency did not complete: '' @ dep)"
    using safe_id_last_not_space [OF assms] by (intro short_text_framed) auto
  then show "bounded_strings (dependency_failure dep)"
    unfolding dependency_failure_def by (rule bounded_strings_single)
qed (simp add: dependency_failure_def)

section \<open>Propagation of failures\<close>

lemma skips_fine:
  assumes "base_fine run" "skips run run'"
  shows "base_fine run'"
proof (rule base_fine_pointwise [OF assms(1)])
  note T = table_fineD [OF base_fine_table [OF assms(1)]]
  show "same_but_nodes run run'" "map fst (rs_nodes run') = map fst (rs_nodes run)"
    using assms(2) by (simp_all add: skips_def)
  show "map_option ns_current_attempt (node_of run' i) = map_option ns_current_attempt (node_of run i)" for i
    using assms(2) by (cases rule: skips_cases [of run run' i]) auto
  show "node_fine (rs_run_id run) (rs_mode run) d st"
    if d: "d \<in> set (gd_nodes (rs_graph run))" and st: "node_of run' (nd_id d) = Some st" for d st
    using assms(2)
  proof (cases rule: skips_cases [of run run' "nd_id d"])
    case same
    then show ?thesis using T(5) [OF d] st by simp
  next
    case (skipped st0 e dep)
    have e: "e = d" using distinct_index_unique [OF T(4) skipped(3) d skipped(4)] .
    have "is_safe_id dep"
      using graph_ok_node_shape [OF T(2) d] skipped(5) e by (auto simp: node_shape_def list_all_iff)
    note b = dependency_failure_bounded [OF this]
    have "node_fine (rs_run_id run) (rs_mode run) d
        (st0\<lparr>ns_status := Skipped, ns_last_failures := dependency_failure dep\<rparr>)"
      by (rule restatus_node_fine [OF T(5) [OF d skipped(1)]]) (use skipped(2) b in auto)
    then show ?thesis using skipped(7) st by simp
  qed
  show "edge_fine run' d" if d: "d \<in> set (gd_nodes (rs_graph run))" for d
  proof -
    have kept: "node_status_of run' i = Some Done" if i: "node_status_of run i = Some Done" for i
      using assms(2)
    proof (cases rule: skips_cases [of run run' i])
      case same
      then show ?thesis using i by (simp add: node_status_of_def)
    next
      case (skipped st0 e dep)
      then show ?thesis using i schedulable_not_blocked [OF skipped(2)] by (auto simp: node_status_of_def)
    qed
    show ?thesis using assms(2)
    proof (cases rule: skips_cases [of run run' "nd_id d"])
      case same
      then have "node_status_of run' (nd_id d) = node_status_of run (nd_id d)" by (simp add: node_status_of_def)
      then show ?thesis using T(6) [OF d] kept skips_blocked_mono [OF assms(2)]
        unfolding edge_fine_def deps_done_def list_all_iff list_ex_iff by metis
    next
      case (skipped st0 e dep)
      have "e = d" using distinct_index_unique [OF T(4) skipped(3) d skipped(4)] .
      then show ?thesis using skipped(5-7) by (auto simp: edge_fine_def node_status_of_def list_ex_iff)
    qed
  qed
qed

lemma propagate_skips_skips:
  assumes "base_fine run"
  shows "skips run (propagate_skips run)"
  using propagate_skips_eq [OF table_fineD(3) [OF base_fine_table [OF assms]]]
    skip_failed_descendants_skips [of run] by simp

lemma propagate_skips_fine: "base_fine run \<Longrightarrow> base_fine (propagate_skips run)"
  using skips_fine propagate_skips_skips by blast

section \<open>Reopened nodes\<close>

text \<open>
  A node that is waiting or skipped although its last attempt passed was reopened by feedback,
  which only happens while it has attempts left. The executor relies on it: it fails a node
  that is out of attempts, and the schema does not let a passed attempt end in failure.
\<close>

definition reopen_fine :: "node_def \<Rightarrow> node_state \<Rightarrow> bool" where
  "reopen_fine d st \<longleftrightarrow>
     (schedulable (ns_status st) \<or> ns_status st = Skipped) \<and> final_status st = Some Done \<longrightarrow>
     ns_current_attempt st < max_attempts d"

definition reopen_ok :: "run_state \<Rightarrow> bool" where
  "reopen_ok run \<longleftrightarrow>
     (\<forall>d \<in> set (gd_nodes (rs_graph run)). \<forall>st. node_of run (nd_id d) = Some st \<longrightarrow> reopen_fine d st)"

lemma reopen_okD: "reopen_ok run \<Longrightarrow> d \<in> set (gd_nodes (rs_graph run)) \<Longrightarrow> node_of run (nd_id d) = Some st \<Longrightarrow> reopen_fine d st"
  by (simp add: reopen_ok_def)

lemma reopen_ok_set_node:
  assumes "reopen_ok run" "distinct (map nd_id (gd_nodes (rs_graph run)))" "d \<in> set (gd_nodes (rs_graph run))"
    and "reopen_fine d st"
  shows "reopen_ok (set_node (nd_id d) st run)"
  using assms distinct_index_unique [OF assms(2) _ assms(3)] unfolding reopen_ok_def by auto

lemma reopen_ok_skips:
  assumes "reopen_ok run" "skips run run'" "distinct (map nd_id (gd_nodes (rs_graph run)))"
  shows "reopen_ok run'"
proof -
  have g: "rs_graph run' = rs_graph run" using assms(2) by (simp add: skips_def same_but_nodes_graph)
  have "reopen_fine d st" if d: "d \<in> set (gd_nodes (rs_graph run))" and st: "node_of run' (nd_id d) = Some st" for d st
    using assms(2)
  proof (cases rule: skips_cases [of run run' "nd_id d"])
    case same
    then show ?thesis using reopen_okD [OF assms(1) d] st by simp
  next
    case (skipped st0 e dep)
    have "reopen_fine d st0" by (rule reopen_okD [OF assms(1) d skipped(1)])
    then show ?thesis using skipped(2,7) st by (auto simp: reopen_fine_def final_status_simps)
  qed
  then show ?thesis by (simp add: reopen_ok_def g)
qed

section \<open>Counting attempts\<close>

lemma sum_update:
  "distinct (map fst al) \<Longrightarrow> map_of al i = Some v \<Longrightarrow>
   sum_list (map (f \<circ> snd) (AList.update i v' al)) + f v = sum_list (map (f \<circ> snd) al) + (f v' :: nat)"
  by (induction al) (auto split: if_splits)

lemma total_attempts_set_node:
  "nodes_match run \<Longrightarrow> node_of run i = Some st \<Longrightarrow>
   total_attempts (set_node i st' run) + ns_current_attempt st = total_attempts run + ns_current_attempt st'"
  using sum_update [of "rs_nodes run" i st ns_current_attempt st']
  by (simp add: total_attempts_def node_values_def set_node_def node_of_def nodes_match_def)

section \<open>The initial table\<close>

lemma initial_lookup:
  assumes "rs_nodes run = init_node_states (rs_graph run)" "distinct (map nd_id (gd_nodes (rs_graph run)))"
    and "d \<in> set (gd_nodes (rs_graph run))"
  shows "node_of run (nd_id d) = Some (initial_node_state d)"
proof -
  have "rs_nodes run = map (\<lambda>d. (nd_id d, initial_node_state d)) (gd_nodes (rs_graph run))"
    using assms(1) init_node_states_map [OF assms(2)] by simp
  then show ?thesis unfolding node_of_def using assms(2,3)
    by (intro map_of_is_SomeI) (auto simp: o_def)
qed

lemma initial_table_fine:
  assumes "rs_nodes run = init_node_states (rs_graph run)" "graph_ok (rs_graph run)" "rs_global_attempts run = 0"
  shows "table_fine run"
proof -
  let ?g = "rs_graph run"
  have ids: "distinct (map nd_id (gd_nodes ?g))" using graph_ok_ordered [OF assms(2)] by (simp add: ordered_graph_def)
  have nodes: "rs_nodes run = map (\<lambda>d. (nd_id d, initial_node_state d)) (gd_nodes ?g)"
    using assms(1) init_node_states_map [OF ids] by simp
  have match: "nodes_match run"
    unfolding nodes_match_def nodes using ids by (simp add: o_def image_image)
  have lookup: "node_of run (nd_id d) = Some (initial_node_state d)" if "d \<in> set (gd_nodes ?g)" for d
    by (rule initial_lookup [OF assms(1) ids that])
  have status: "ns_status (initial_node_state d) = Pending" for d by (simp add: initial_node_state_def)
  have "edge_fine run d" if "d \<in> set (gd_nodes ?g)" for d
    using lookup [OF that] by (simp add: edge_fine_def node_status_of_def status)
  moreover have "node_fine (rs_run_id run) (rs_mode run) d st"
    if "d \<in> set (gd_nodes ?g)" "node_of run (nd_id d) = Some st" for d st
    using lookup [OF that(1)] that(2) initial_node_fine [OF graph_ok_node_shape [OF assms(2) that(1)]] by simp
  moreover have "total_attempts run = 0"
    by (simp add: total_attempts_def node_values_def nodes o_def initial_node_state_def)
  ultimately show ?thesis using match assms(2,3) by (simp add: table_fine_def)
qed

lemma initial_reopen_ok:
  assumes "rs_nodes run = init_node_states (rs_graph run)" "graph_ok (rs_graph run)"
  shows "reopen_ok run"
proof -
  have ids: "distinct (map nd_id (gd_nodes (rs_graph run)))"
    using graph_ok_ordered [OF assms(2)] by (simp add: ordered_graph_def)
  show ?thesis
    using initial_lookup [OF assms(1) ids]
    by (auto simp: reopen_ok_def reopen_fine_def initial_node_state_def final_status_simps)
qed

definition example_open_run :: run_state where
  "example_open_run = (demo_run example_graph (init_node_states example_graph))
     \<lparr>rs_status := Run_running, rs_phase := js ''execute''\<rparr>"

lemma example_open_run_fields [simp]:
  "rs_graph example_open_run = example_graph" "rs_mode example_open_run = Live"
  "rs_nodes example_open_run = init_node_states example_graph" "rs_global_attempts example_open_run = 0"
  "rs_run_id example_open_run = js ''demo''" "rs_status example_open_run = Run_running"
  "rs_goal example_open_run = js ''goal''" "rs_criteria example_open_run = [js ''works'']"
  by (simp_all add: example_open_run_def demo_run_def)

lemma example_open_run_fine: "base_fine example_open_run" "reopen_ok example_open_run"
proof -
  have "header_shape example_open_run"
    using example_texts by (simp add: header_shape_def example_open_run_def demo_run_def long_text_def
        exact_string_def bounded_strings_def short_text_def sized_def example_ids)
  moreover have "header_hydrated example_open_run" "run_ownership_issues example_open_run = []"
    by (simp_all add: header_hydrated_def run_ownership_issues_def example_open_run_def demo_run_def)
  moreover have "table_fine example_open_run"
    by (rule initial_table_fine) (simp_all add: example_graph_ok)
  ultimately show "base_fine example_open_run" by (simp add: base_fine_def)
  show "reopen_ok example_open_run" by (rule initial_reopen_ok) (simp_all add: example_graph_ok)
qed

end
