(* ===== verification/Settlement.thy ===== *)
theory Settlement
  imports Run_Steps
begin

text \<open>
  One attempt of one node, from \<open>src/executor.ts\<close>: its reservation (\<open>reserveAttempt\<close>), the output
  of a dry run (\<open>dryOutput\<close>), the shell gate in force (\<open>effectiveShellGate\<close>), the diagnostic of a
  failed gate (\<open>shellFailure\<close>) and the verdict of \<open>runOneNode\<close> on a worker's reply. What the
  worker session and the shell answered is the argument \<open>reply\<close>; the redaction of diagnostics, the
  containment tests on the file system and the platform are fields of \<open>worker_env\<close>. The lemmas
  show that a settled attempt always satisfies the persisted-attempt schema.
\<close>

section \<open>Arguments\<close>

record execute_options =
  xo_parent_session_id :: jstr
  xo_max_waves :: "nat option"
  xo_max_concurrency :: "nat option"
  xo_dry :: bool
  xo_shell_gate_cmd :: "jstr option"
  xo_shell_gate_timeout_ms :: "nat option"
  xo_shell_gate_cwd :: "jstr option"
  xo_allow_filesystem_root :: bool
  xo_operation :: root_operation

text \<open>\<open>ShellExecutionResult\<close>; an absent optional flag is false.\<close>

record shell_result =
  sr_ok :: bool
  sr_exit_code :: int
  sr_stdout_tail :: jstr
  sr_stderr_tail :: jstr
  sr_timed_out :: bool
  sr_cancelled :: bool
  sr_termination_failed :: bool
  sr_cwd :: jstr

text \<open>
  \<open>NodePromptResult\<close>. \<open>wr_parsed\<close> is \<open>None\<close> for \<open>null\<close>, \<open>Some None\<close> for a value that no output
  type describes, and \<open>Some (Some v)\<close> for one that has the fields of \<open>v\<close>.
\<close>

record worker_result =
  wr_session_id :: jstr
  wr_text :: jstr
  wr_parsed :: "agent_output option option"
  wr_error :: "jstr option"
  wr_response_diagnostic :: "jstr option"

text \<open>
  All that one attempt receives: the session's result, the shell's result if a command is run,
  and the issues the schema library lists should the output be rejected.
\<close>

record node_reply =
  nr_worker :: worker_result
  nr_shell :: shell_result
  nr_zod_issues :: "zod_issue list"

record worker_env =
  we_redact :: "jstr \<Rightarrow> jstr"
  we_file_resolves :: "jstr \<Rightarrow> bool"
  we_artifact_resolves :: "jstr \<Rightarrow> bool"
  we_windows :: bool

section \<open>Dry runs\<close>

definition dry_acceptance_criteria :: "run_state \<Rightarrow> jstr list" where
  "dry_acceptance_criteria run =
     (if rs_criteria run \<noteq> [] then rs_criteria run else [js ''Dry criterion: artifact schema valid''])"

definition dry_output :: "node_def \<Rightarrow> run_state \<Rightarrow> agent_output" where
  "dry_output d run =
     (case nd_agent d of
        Explorer \<Rightarrow> Explore_output
          \<lparr>eo_query = rs_goal run, eo_map = [(js ''(dry-run)'', js ''stub'')], eo_key_hits = [],
           eo_next = Next_researcher\<rparr>
      | Researcher \<Rightarrow> Research_output
          \<lparr>reo_answer = js ''Dry research for: '' @ rs_goal run, reo_evidence = [],
           reo_constraints = [js ''dry-run constraint''], reo_options = [],
           reo_acceptance_criteria = dry_acceptance_criteria run, reo_risks = []\<rparr>
      | Implementer \<Rightarrow> Implement_output
          \<lparr>io_summary = [js ''Dry implement: '' @ rs_goal run], io_files_touched = [],
           io_commands_run = [], io_risks = [], io_done = True, io_blockers = None,
           io_artifact_path = None\<rparr>
      | Checker \<Rightarrow> Check_output
          \<lparr>co_passed = True, co_failures = [], co_score = 10, co_notes = Some (js ''dry-run auto-pass'')\<rparr>
      | Shell \<Rightarrow> Shell_output
          \<lparr>so_cmd = (case nd_shell_gate d of None \<Rightarrow> js ''dry'' | Some g \<Rightarrow> sg_cmd g),
           so_exit_code = 0, so_ok = True, so_stdout_tail = js ''dry'', so_stderr_tail = [],
           so_timed_out = None, so_cancelled = None, so_termination_failed = None\<rparr>)"

section \<open>Shell gates\<close>

definition int_text :: "int \<Rightarrow> jstr" where
  "int_text i = (if i < 0 then js ''-'' @ dec (nat (- i)) else dec (nat i))"

definition failure_category :: "shell_result \<Rightarrow> jstr" where
  "failure_category r =
     (if sr_termination_failed r then js ''termination_unverified''
      else if sr_cancelled r then js ''cancelled''
      else if sr_timed_out r then js ''timeout'' else js ''nonzero_exit'')"

definition shell_failure :: "worker_env \<Rightarrow> shell_result \<Rightarrow> jstr" where
  "shell_failure env r =
     (let (channel, detail) =
            (if js_trim (sr_stderr_tail r) \<noteq> [] then (js ''stderr'', sr_stderr_tail r)
             else if js_trim (sr_stdout_tail r) \<noteq> [] then (js ''stdout'', sr_stdout_tail r)
             else (js ''none'', js ''No output captured; inspect the gate command, shell and cwd.''));
          safe_detail = safe_diagnostic_text_max (we_redact env) detail 500
      in safe_diagnostic_text (we_redact env)
           (js ''shell gate failed (exit '' @ int_text (sr_exit_code r) @ js ''): [category='' @
            failure_category r @ js ''; shell='' @
            (if we_windows env then js ''cmd.exe'' else js ''posix-shell'') @ js ''; cwd='' @
            safe_diagnostic_text_max (we_redact env) (sr_cwd r) 256 @ js ''; output='' @ channel @
            js ''] '' @ safe_detail))"

definition first_implementer :: "graph_def \<Rightarrow> node_def option" where
  "first_implementer g = find (\<lambda>n. nd_agent n = Implementer) (gd_nodes g)"

definition override_gate :: "shell_gate_def option \<Rightarrow> jstr \<Rightarrow> execute_options \<Rightarrow> shell_gate_def" where
  "override_gate gate cmd opts =
     \<lparr>sg_cmd = cmd,
      sg_cwd = (case xo_shell_gate_cwd opts of Some c \<Rightarrow> Some c | None \<Rightarrow> Option.bind gate sg_cwd),
      sg_timeout_ms = (case xo_shell_gate_timeout_ms opts of Some t \<Rightarrow> Some t
                       | None \<Rightarrow> Option.bind gate sg_timeout_ms)\<rparr>"

definition effective_shell_gate :: "run_state \<Rightarrow> node_def \<Rightarrow> execute_options \<Rightarrow> shell_gate_def option" where
  "effective_shell_gate run d opts =
     (case xo_shell_gate_cmd opts of
        None \<Rightarrow> nd_shell_gate d
      | Some cmd \<Rightarrow>
          if nd_agent d = Implementer \<and> cmd \<noteq> [] \<and>
             map_option nd_id (first_implementer (rs_graph run)) = Some (nd_id d)
          then Some (override_gate (nd_shell_gate d) cmd opts)
          else nd_shell_gate d)"

definition shell_output_of :: "shell_gate_def \<Rightarrow> shell_result \<Rightarrow> shell_out" where
  "shell_output_of g r =
     \<lparr>so_cmd = sg_cmd g, so_exit_code = sr_exit_code r, so_ok = sr_ok r,
      so_stdout_tail = sr_stdout_tail r, so_stderr_tail = sr_stderr_tail r,
      so_timed_out = (if sr_timed_out r then Some True else None),
      so_cancelled = (if sr_cancelled r then Some True else None),
      so_termination_failed = (if sr_termination_failed r then Some True else None)\<rparr>"

section \<open>Reserving an attempt\<close>

definition new_attempt :: "nat \<Rightarrow> nat \<Rightarrow> node_attempt" where
  "new_attempt n now = \<lparr>
     na_attempt = n, na_status = Running, na_session_id = None, na_started_at = now,
     na_finished_at = None, na_output = None, na_output_ref = None, na_detail_ref = None,
     na_failures = [], na_failures_commitment = None, na_failures_omitted = None,
     na_failure_texts_truncated = None, na_score = None, na_shell_ok = None, na_schema_ok = None,
     na_error = None, na_error_bytes_omitted = None, na_feedback_applied = None, na_outcome = None\<rparr>"

definition local_limit_failure :: "node_def \<Rightarrow> jstr list" where
  "local_limit_failure d = [js ''Local attempt limit reached ('' @ dec (max_attempts d) @ js '')'']"

definition global_limit_failure :: "run_state \<Rightarrow> jstr list" where
  "global_limit_failure run =
     [js ''Global attempt limit reached ('' @ dec (gd_max_global_attempts (rs_graph run)) @ js '')'']"

text \<open>A node whose last attempt passed keeps that attempt: exhaustion leaves it pending.\<close>

definition exhausted_status :: "node_state \<Rightarrow> node_status" where
  "exhausted_status st = (if final_status st = Some Done then Pending else Failed)"

definition reserve_attempt :: "nat \<Rightarrow> run_state \<Rightarrow> node_def \<Rightarrow> run_state \<times> bool" where
  "reserve_attempt now run d =
     (case node_of run (nd_id d) of
        None \<Rightarrow> (run, False)
      | Some st \<Rightarrow>
          if max_attempts d \<le> ns_current_attempt st
          then (set_node (nd_id d) (st\<lparr>ns_status := Failed, ns_last_failures := local_limit_failure d\<rparr>) run,
                False)
          else if gd_max_global_attempts (rs_graph run) \<le> rs_global_attempts run
          then (set_node (nd_id d)
                  (st\<lparr>ns_status := exhausted_status st, ns_last_failures := global_limit_failure run\<rparr>) run,
                False)
          else ((set_node (nd_id d)
                  (st\<lparr>ns_current_attempt := ns_current_attempt st + 1,
                     ns_attempts := ns_attempts st @ [new_attempt (ns_current_attempt st + 1) now],
                     ns_status := Running\<rparr>) run)
                 \<lparr>rs_global_attempts := rs_global_attempts run + 1\<rparr>, True))"

section \<open>The verdict on a reply\<close>

definition is_dry :: "execute_options \<Rightarrow> run_state \<Rightarrow> bool" where
  "is_dry opts run \<longleftrightarrow> xo_dry opts \<or> rs_mode run = Dry"

text \<open>A JavaScript string that counts as true.\<close>

definition truthy :: "jstr option \<Rightarrow> jstr option" where
  "truthy s = (case s of None \<Rightarrow> None | Some t \<Rightarrow> if t = [] then None else Some t)"

definition replace_unit :: "code_unit \<Rightarrow> code_unit \<Rightarrow> jstr \<Rightarrow> jstr" where
  "replace_unit a b = map (\<lambda>c. if c = a then b else c)"

fun normalize_fresh_response_paths :: "agent_output \<Rightarrow> agent_output" where
  "normalize_fresh_response_paths (Implement_output v) = Implement_output
     (v\<lparr>io_files_touched := map (replace_unit 0x5C 0x2F) (io_files_touched v),
        io_artifact_path := map_option (replace_unit 0x5C 0x2F) (io_artifact_path v)\<rparr>)"
| "normalize_fresh_response_paths v = v"

text \<open>The local variables of \<open>runOneNode\<close> after the worker or the shell has answered.\<close>

definition raw_output :: "execute_options \<Rightarrow> run_state \<Rightarrow> node_def \<Rightarrow> node_reply \<Rightarrow> agent_output option option" where
  "raw_output opts run d reply =
     (if is_dry opts run then Some (Some (dry_output d run))
      else if nd_agent d = Shell
      then map_option (\<lambda>g. Some (Shell_output (shell_output_of g (nr_shell reply)))) (nd_shell_gate d)
      else if nd_agent d = Implementer
      then map_option (map_option normalize_fresh_response_paths) (wr_parsed (nr_worker reply))
      else wr_parsed (nr_worker reply))"

definition reply_error :: "worker_env \<Rightarrow> execute_options \<Rightarrow> run_state \<Rightarrow> node_def \<Rightarrow> node_reply \<Rightarrow> jstr option" where
  "reply_error env opts run d reply =
     (if is_dry opts run \<or> nd_agent d = Shell then None
      else map_option (safe_diagnostic_text (we_redact env)) (truthy (wr_error (nr_worker reply))))"

definition shell_failures :: "worker_env \<Rightarrow> node_reply \<Rightarrow> jstr list" where
  "shell_failures env reply = (if sr_ok (nr_shell reply) then [] else [shell_failure env (nr_shell reply)])"

definition reply_failures :: "worker_env \<Rightarrow> execute_options \<Rightarrow> run_state \<Rightarrow> node_def \<Rightarrow> node_reply \<Rightarrow> jstr list" where
  "reply_failures env opts run d reply =
     (if is_dry opts run then []
      else if nd_agent d = Shell then shell_failures env reply
      else
        (case truthy (wr_response_diagnostic (nr_worker reply)) of
           None \<Rightarrow> [] | Some t \<Rightarrow> [safe_diagnostic_text (we_redact env) t]) @
        (if wr_parsed (nr_worker reply) = None \<and> wr_text (nr_worker reply) \<noteq> []
         then [js ''Could not parse JSON from agent response''] else []))"

text \<open>
  \<open>assertProjectFilePathContained\<close> and \<open>assertRunArtifactPathContained\<close>: the lexical rule, then the
  canonical resolution on the file system, which the environment answers.
\<close>

definition project_file_contained :: "worker_env \<Rightarrow> jstr \<Rightarrow> bool" where
  "project_file_contained env p \<longleftrightarrow> is_safe_project_relative_path p \<and> we_file_resolves env p"

definition run_artifact_contained :: "worker_env \<Rightarrow> jstr \<Rightarrow> jstr \<Rightarrow> bool" where
  "run_artifact_contained env run_id p \<longleftrightarrow>
     is_safe_run_artifact_path p \<and> split_slash p ! 2 = run_id \<and> we_artifact_resolves env p"

definition containment_failures :: "worker_env \<Rightarrow> jstr \<Rightarrow> alg_agent \<Rightarrow> agent_output \<Rightarrow> jstr list" where
  "containment_failures env run_id agent out =
     (case out of
        Implement_output v \<Rightarrow>
          if agent = Implementer then
            map (\<lambda>p. js ''schema: files_touched: code=path_not_contained expected=project-relative contained path'')
              (filter (\<lambda>p. \<not> project_file_contained env p) (io_files_touched v)) @
            (case io_artifact_path v of
               None \<Rightarrow> []
             | Some p \<Rightarrow>
                 if run_artifact_contained env run_id p then []
                 else [js ''schema: artifact_path: code=path_not_contained expected=current-run artifact path''])
          else []
      | _ \<Rightarrow> [])"

text \<open>The output that passed its schema, and the failures of validation.\<close>

definition validate_reply ::
  "worker_env \<Rightarrow> execute_options \<Rightarrow> run_state \<Rightarrow> node_def \<Rightarrow> node_reply \<Rightarrow> agent_output option \<times> jstr list" where
  "validate_reply env opts run d reply =
     (case raw_output opts run d reply of
        None \<Rightarrow>
          (None, if reply_error env opts run d reply = None then [js ''No output produced''] else [])
      | Some candidate \<Rightarrow>
          (case parse_and_validate (we_redact env) (nd_agent d) candidate (nr_zod_issues reply) of
             Inl fs \<Rightarrow> (None, map (\<lambda>f. safe_diagnostic_text (we_redact env) (js ''schema: '' @ f)) fs)
           | Inr out \<Rightarrow>
               let fs = containment_failures env (rs_run_id run) (nd_agent d) out
               in (if fs = [] then Some out else None, fs)))"

definition verdict_failures :: "worker_env \<Rightarrow> node_def \<Rightarrow> agent_output option \<Rightarrow> jstr list" where
  "verdict_failures env d out =
     (case out of
        Some (Check_output c) \<Rightarrow>
          if nd_agent d = Checker \<and> \<not> co_passed c
          then map (safe_diagnostic_text (we_redact env)) (co_failures c) else []
      | Some (Implement_output i) \<Rightarrow>
          if nd_agent d = Implementer \<and> \<not> io_done i
          then map (\<lambda>b. safe_diagnostic_text (we_redact env) (js ''implementer incomplete: '' @ b))
                 (case io_blockers i of None \<Rightarrow> [] | Some bs \<Rightarrow> bs) else []
      | _ \<Rightarrow> [])"

definition runs_gate :: "execute_options \<Rightarrow> run_state \<Rightarrow> node_def \<Rightarrow> agent_output option \<Rightarrow> bool" where
  "runs_gate opts run d out \<longleftrightarrow>
     \<not> is_dry opts run \<and> nd_agent d \<noteq> Shell \<and> effective_shell_gate run d opts \<noteq> None \<and>
     shell_gated d \<and> out \<noteq> None"

record verdict =
  vd_output :: "agent_output option"
  vd_failures :: "jstr list"
  vd_retained :: "jstr list"
  vd_shell_ok :: "bool option"
  vd_error :: "jstr option"

definition verdict_of ::
  "worker_env \<Rightarrow> execute_options \<Rightarrow> run_state \<Rightarrow> node_def \<Rightarrow> node_reply \<Rightarrow> verdict" where
  "verdict_of env opts run d reply =
     (let shell_agent = (\<not> is_dry opts run \<and> nd_agent d = Shell);
          error = reply_error env opts run d reply;
          (out, schema_failures) = validate_reply env opts run d reply;
          gate = runs_gate opts run d out
      in \<lparr>vd_output = out,
          vd_failures = reply_failures env opts run d reply @ schema_failures @
            (case error of None \<Rightarrow> [] | Some e \<Rightarrow> [e]) @
            (if gate then shell_failures env reply else []) @ verdict_failures env d out,
          vd_retained = (if shell_agent \<or> gate then shell_failures env reply else []),
          vd_shell_ok = (if shell_agent \<or> gate then Some (sr_ok (nr_shell reply)) else None),
          vd_error = error\<rparr>)"

definition verdict_passed :: "execute_options \<Rightarrow> run_state \<Rightarrow> node_def \<Rightarrow> verdict \<Rightarrow> bool" where
  "verdict_passed opts run d v \<longleftrightarrow>
     vd_failures v = [] \<and> vd_output v \<noteq> None \<and>
     (\<not> requires_shell d \<or> is_dry opts run \<or> vd_shell_ok v = Some True)"

definition verdict_outcome :: "execute_options \<Rightarrow> run_state \<Rightarrow> node_def \<Rightarrow> verdict \<Rightarrow> attempt_outcome" where
  "verdict_outcome opts run d v =
     (if verdict_passed opts run d v then Passed
      else if vd_error v \<noteq> None then Sdk_error
      else if vd_output v = None then Schema_invalid
      else if requires_shell d \<and> \<not> is_dry opts run \<and> vd_shell_ok v \<noteq> Some True then Gate_failure
      else if nd_agent d = Checker \<and> Option.bind (vd_output v) output_passed = Some False
      then Substantive_rejection
      else if nd_agent d = Implementer \<and> Option.bind (vd_output v) output_done = Some False then Incomplete
      else Gate_failure)"

definition settled_attempt ::
  "worker_env \<Rightarrow> execute_options \<Rightarrow> run_state \<Rightarrow> node_def \<Rightarrow> verdict \<Rightarrow> nat \<Rightarrow> node_attempt \<Rightarrow> node_attempt" where
  "settled_attempt env opts run d v now a = a\<lparr>
     na_status := (if verdict_passed opts run d v then Done else Failed),
     na_finished_at := Some now,
     na_output := vd_output v,
     na_failures := bound_diagnostic_list (we_redact env) (vd_retained v) (vd_failures v),
     na_score := (if nd_agent d = Checker then Option.bind (vd_output v) output_score else None),
     na_shell_ok := vd_shell_ok v,
     na_schema_ok := Some (vd_output v \<noteq> None),
     na_error := vd_error v,
     na_outcome := Some (verdict_outcome opts run d v)\<rparr>"

text \<open>
  A schema-valid rejection by a checker with a feedback edge waits for routing; every other
  failure is retried while the node has attempts left.
\<close>

definition awaits_feedback_routing :: "node_def \<Rightarrow> attempt_outcome \<Rightarrow> bool" where
  "awaits_feedback_routing d outcome \<longleftrightarrow>
     nd_agent d = Checker \<and> truthy (nd_feedback_to d) \<noteq> None \<and> outcome = Substantive_rejection"

definition settled_node ::
  "worker_env \<Rightarrow> execute_options \<Rightarrow> run_state \<Rightarrow> node_def \<Rightarrow> verdict \<Rightarrow> nat \<Rightarrow> node_state \<Rightarrow> node_state" where
  "settled_node env opts run d v now st = st\<lparr>
     ns_attempts := update_last (settled_attempt env opts run d v now) (ns_attempts st),
     ns_output := vd_output v,
     ns_status :=
       (if verdict_passed opts run d v then Done
        else if \<not> awaits_feedback_routing d (verdict_outcome opts run d v) \<and>
                ns_current_attempt st < max_attempts d
        then Pending else Failed),
     ns_last_failures :=
       (if verdict_passed opts run d v then []
        else bound_diagnostic_list (we_redact env) (vd_retained v) (vd_failures v))\<rparr>"

text \<open>A passing researcher fixes the acceptance criteria of a run that has none.\<close>

definition adopt_criteria :: "node_def \<Rightarrow> agent_output option \<Rightarrow> run_state \<Rightarrow> run_state" where
  "adopt_criteria d out run =
     (case out of
        Some (Research_output r) \<Rightarrow>
          if nd_agent d = Researcher \<and> rs_criteria run = []
          then run\<lparr>rs_criteria := reo_acceptance_criteria r, rs_criteria_locked := True\<rparr> else run
      | _ \<Rightarrow> run)"

definition settle_node ::
  "worker_env \<Rightarrow> execute_options \<Rightarrow> run_state \<Rightarrow> node_def \<Rightarrow> node_reply \<Rightarrow> nat \<Rightarrow> run_state" where
  "settle_node env opts run d reply now =
     (let v = verdict_of env opts run d reply;
          run' = modify_node (nd_id d) (settled_node env opts run d v now) run
      in if verdict_passed opts run d v then adopt_criteria d (vd_output v) run' else run')"

text \<open>
  The handler of an unexpected rejection: the attempt still recorded as running is failed with
  the diagnostic, and the node is retried while it has attempts left.
\<close>

definition executor_diagnostic :: "worker_env \<Rightarrow> jstr \<Rightarrow> jstr" where
  "executor_diagnostic env reason =
     safe_diagnostic_text (we_redact env) (js ''Executor error: '' @ reason)"

definition rejected_attempt :: "worker_env \<Rightarrow> jstr \<Rightarrow> nat \<Rightarrow> node_attempt \<Rightarrow> node_attempt" where
  "rejected_attempt env diagnostic now a = a\<lparr>
     na_status := Failed, na_finished_at := Some now,
     na_failures := bound_diagnostic_list (we_redact env) [diagnostic] (na_failures a @ [diagnostic]),
     na_schema_ok := Some False, na_error := Some diagnostic, na_outcome := Some Sdk_error\<rparr>"

definition rejected_node :: "worker_env \<Rightarrow> node_def \<Rightarrow> jstr \<Rightarrow> nat \<Rightarrow> node_state \<Rightarrow> node_state" where
  "rejected_node env d reason now st =
     (let diagnostic = executor_diagnostic env reason in
      st\<lparr>ns_status := (if ns_current_attempt st < max_attempts d then Pending else Failed),
         ns_last_failures := bound_diagnostic_list (we_redact env) [diagnostic] [diagnostic],
         ns_attempts := update_last (rejected_attempt env diagnostic now) (ns_attempts st)\<rparr>)"

definition reject_node ::
  "worker_env \<Rightarrow> run_state \<Rightarrow> node_def \<Rightarrow> jstr \<Rightarrow> nat \<Rightarrow> run_state option" where
  "reject_node env run d reason now =
     (case node_of run (nd_id d) of
        None \<Rightarrow> None
      | Some st \<Rightarrow>
          if final_status st = Some Running
          then Some (set_node (nd_id d) (rejected_node env d reason now st) run) else None)"

section \<open>What the verdict says\<close>

text \<open>
  What is relied on: the schema library lists at least one issue when it rejects a value, and a
  session result that carries a parsed value carries no response diagnostic
  (\<open>runNodeSession\<close> sets the diagnostic only when nothing was extracted).
\<close>

definition decodes :: "node_def \<Rightarrow> agent_output option \<Rightarrow> bool" where
  "decodes d candidate \<longleftrightarrow> opt_all (agent_output_valid (nd_agent d)) candidate \<and> candidate \<noteq> None"

definition reply_ok :: "execute_options \<Rightarrow> run_state \<Rightarrow> node_def \<Rightarrow> node_reply \<Rightarrow> bool" where
  "reply_ok opts run d reply \<longleftrightarrow>
     (case raw_output opts run d reply of
        None \<Rightarrow> True | Some candidate \<Rightarrow> \<not> decodes d candidate \<longrightarrow> nr_zod_issues reply \<noteq> []) \<and>
     (wr_parsed (nr_worker reply) \<noteq> None \<longrightarrow> truthy (wr_response_diagnostic (nr_worker reply)) = None)"

lemma js_join_split: "js_join [sep] (split_on sep s) = s"
proof (induction s)
  case (Cons c s)
  obtain x xs where x: "split_on sep s = x # xs" by (cases "split_on sep s") auto
  then show ?case using Cons.IH by (cases xs) auto
qed simp

lemma run_artifact_prefix:
  assumes "run_artifact_contained env run_id p"
  shows "starts_with p (run_base run_id ''artifacts'')"
proof -
  let ?parts = "split_slash p"
  have parts: "5 \<le> length ?parts" "?parts ! 0 = js ''.opencode''" "?parts ! 1 = js ''runs''"
    "?parts ! 2 = run_id" "?parts ! 3 = js ''artifacts''"
    using assms unfolding run_artifact_contained_def is_safe_run_artifact_path_def
      is_safe_run_derived_path_def Let_def by blast+
  obtain a b c d e rest where ps: "?parts = a # b # c # d # e # rest"
    using parts(1) by (auto simp: numeral_eq_Suc Suc_le_length_iff)
  then have abcd: "a = js ''.opencode''" "b = js ''runs''" "c = run_id" "d = js ''artifacts''"
    using parts by (simp_all add: numeral_eq_Suc)
  have "p = js_join [0x2F] (a # b # c # d # e # rest)" using js_join_split [of "0x2F" p] ps by simp
  also have "\<dots> = run_base run_id ''artifacts'' @ js_join [0x2F] (e # rest)"
    by (simp add: abcd run_base_def js_def)
  finally show ?thesis by (simp add: starts_with_def)
qed

lemma containment_failures_Nil:
  "containment_failures env run_id Implementer out = [] \<Longrightarrow> artifact_of_run run_id (Some out)"
  using run_artifact_prefix
  by (cases out) (auto simp: containment_failures_def artifact_of_run_def split: option.splits if_splits)

lemma validate_reply_Some:
  assumes "validate_reply env opts run d reply = (Some out, fs)"
  shows "agent_output_valid (nd_agent d) out" "fs = []"
    "nd_agent d = Implementer \<Longrightarrow> artifact_of_run (rs_run_id run) (Some out)"
    "\<exists>candidate. raw_output opts run d reply = Some candidate"
  using assms containment_failures_Nil [of env "rs_run_id run" out]
  by (auto simp: validate_reply_def parse_and_validate_Inr Let_def split: option.splits sum.splits if_splits)

lemma validate_reply_None:
  assumes "validate_reply env opts run d reply = (None, fs)" "reply_ok opts run d reply"
  shows "fs \<noteq> [] \<or> reply_error env opts run d reply \<noteq> None"
proof (cases "raw_output opts run d reply")
  case None
  then show ?thesis using assms(1) by (auto simp: validate_reply_def split: if_splits)
next
  case (Some candidate)
  show ?thesis
  proof (cases "parse_and_validate (we_redact env) (nd_agent d) candidate (nr_zod_issues reply)")
    case (Inl fs')
    then have "\<not> decodes d candidate"
      using parse_and_validate_Inr [of "we_redact env" "nd_agent d" candidate "nr_zod_issues reply"]
      by (cases candidate) (auto simp: decodes_def parse_and_validate_def split: if_splits)
    then have "nr_zod_issues reply \<noteq> []" using assms(2) Some by (simp add: reply_ok_def)
    then have "fs' \<noteq> []" using parse_and_validate_Inl(2) [OF Inl] by simp
    then show ?thesis using assms(1) Some Inl by (auto simp: validate_reply_def)
  next
    case (Inr out)
    then show ?thesis using assms(1) Some by (auto simp: validate_reply_def Let_def split: if_splits)
  qed
qed

lemma reply_error_short: "reply_error env opts run d reply = Some e \<Longrightarrow> short_text e"
  by (auto simp: reply_error_def split: if_splits)

lemma effective_gate_present:
  "gates_ok d \<Longrightarrow> shell_gated d \<Longrightarrow> effective_shell_gate run d opts \<noteq> None"
  by (auto simp: effective_shell_gate_def gates_ok_def requires_shell_def split: option.splits if_splits)

text \<open>The facts about a verdict that the persisted-attempt schema asks for.\<close>

definition live_gate_ran :: "execute_options \<Rightarrow> run_state \<Rightarrow> node_def \<Rightarrow> bool" where
  "live_gate_ran opts run d \<longleftrightarrow> requires_shell d \<and> \<not> is_dry opts run"

definition verdict_rejects :: "node_def \<Rightarrow> verdict \<Rightarrow> bool" where
  "verdict_rejects d v \<longleftrightarrow>
     (nd_agent d = Checker \<and> Option.bind (vd_output v) output_passed = Some False) \<or>
     (nd_agent d = Implementer \<and> Option.bind (vd_output v) output_done = Some False)"

definition verdict_sound :: "execute_options \<Rightarrow> run_state \<Rightarrow> node_def \<Rightarrow> verdict \<Rightarrow> bool" where
  "verdict_sound opts run d v \<longleftrightarrow>
     opt_all (agent_output_valid (nd_agent d)) (vd_output v) \<and>
     (nd_agent d = Implementer \<longrightarrow> artifact_of_run (rs_run_id run) (vd_output v)) \<and>
     (vd_output v = None \<longrightarrow> vd_failures v \<noteq> []) \<and>
     (\<forall>e. vd_error v = Some e \<longrightarrow> short_text e \<and> vd_failures v \<noteq> []) \<and>
     (live_gate_ran opts run d \<and> vd_output v \<noteq> None \<longrightarrow>
        vd_shell_ok v = Some True \<or> vd_shell_ok v = Some False \<and> vd_failures v \<noteq> []) \<and>
     (vd_output v \<noteq> None \<and> verdict_rejects d v \<longrightarrow> vd_failures v \<noteq> []) \<and>
     (vd_output v \<noteq> None \<and> vd_error v = None \<and> vd_failures v \<noteq> [] \<and>
        \<not> (live_gate_ran opts run d \<and> vd_shell_ok v \<noteq> Some True) \<longrightarrow> verdict_rejects d v)"

lemma verdict_failures_iff:
  assumes "agent_output_valid (nd_agent d) out"
  shows "verdict_failures env d (Some out) \<noteq> [] \<longleftrightarrow>
    (nd_agent d = Checker \<and> output_passed out = Some False) \<or>
    (nd_agent d = Implementer \<and> output_done out = Some False)"
proof (cases "nd_agent d")
  case Checker
  then obtain c where "out = Check_output c" "co_passed c \<longleftrightarrow> co_failures c = []"
    using check_output_cases [of out] assms by metis
  then show ?thesis using Checker by (simp add: verdict_failures_def)
next
  case Implementer
  then obtain i where i: "out = Implement_output i" "\<not> io_done i \<Longrightarrow> \<exists>b bs. io_blockers i = Some (b # bs)"
    using implement_output_cases [of out] assms by metis
  then show ?thesis using Implementer by (auto simp: verdict_failures_def)
qed (use agent_output_validD(1) [OF assms] in \<open>cases out; simp add: verdict_failures_def\<close>)+

lemma verdict_of_sound:
  assumes "gates_ok d" "reply_ok opts run d reply"
  shows "verdict_sound opts run d (verdict_of env opts run d reply)"
proof -
  obtain out fs where v: "validate_reply env opts run d reply = (out, fs)" by fastforce
  let ?gate = "runs_gate opts run d out"
  let ?error = "reply_error env opts run d reply"
  let ?shell = "\<not> is_dry opts run \<and> nd_agent d = Shell"
  let ?v = "verdict_of env opts run d reply"
  have fields: "vd_output ?v = out" "vd_error ?v = ?error"
    "vd_failures ?v = reply_failures env opts run d reply @ fs @ (case ?error of None \<Rightarrow> [] | Some e \<Rightarrow> [e]) @
       (if ?gate then shell_failures env reply else []) @ verdict_failures env d out"
    "vd_shell_ok ?v = (if ?shell \<or> ?gate then Some (sr_ok (nr_shell reply)) else None)"
    by (simp_all add: verdict_of_def v Let_def)
  have shell: "shell_failures env reply = [] \<longleftrightarrow> sr_ok (nr_shell reply)" by (simp add: shell_failures_def)
  have error: "\<forall>e. ?error = Some e \<longrightarrow> short_text e" using reply_error_short by blast
  show ?thesis
  proof (cases out)
    case None
    then have "vd_failures ?v \<noteq> []"
      using validate_reply_None [OF _ assms(2), of env fs] v fields(3) by (auto split: option.splits)
    then show ?thesis using None error fields(1,2) by (simp add: verdict_sound_def artifact_of_run_def)
  next
    case (Some w)
    note ok = validate_reply_Some [OF v [unfolded Some]]
    have rejects: "verdict_rejects d ?v \<longleftrightarrow> verdict_failures env d out \<noteq> []"
      using verdict_failures_iff [OF ok(1), of env] by (simp add: verdict_rejects_def fields(1) Some)
    have gate: "live_gate_ran opts run d \<Longrightarrow> nd_agent d \<noteq> Shell \<Longrightarrow> ?gate"
      using effective_gate_present [OF assms(1)] Some
      by (auto simp: live_gate_ran_def runs_gate_def requires_shell_def)
    have not_live: "\<not> live_gate_ran opts run d \<Longrightarrow> \<not> ?gate \<and> \<not> ?shell"
      by (auto simp: live_gate_ran_def runs_gate_def requires_shell_def)
    have agent: "reply_failures env opts run d reply = (if ?shell then shell_failures env reply else [])"
    proof (cases "is_dry opts run \<or> nd_agent d = Shell")
      case False
      then have "wr_parsed (nr_worker reply) \<noteq> None" using ok(4) by (auto simp: raw_output_def split: if_splits)
      then show ?thesis using False assms(2) by (simp add: reply_failures_def reply_ok_def)
    qed (auto simp: reply_failures_def)
    show ?thesis
      unfolding verdict_sound_def rejects
      using ok fields agent error shell gate not_live Some
      by (cases "live_gate_ran opts run d"; cases "nd_agent d = Shell"; cases ?error)
        (auto simp: live_gate_ran_def)
  qed
qed

section \<open>A settled attempt is always persistable\<close>

lemma running_attempt_clean:
  assumes "attempt_fine run_id mode d n a" "na_status a = Running"
  shows "is_attempt_detail a" "attempt_shape a" "na_attempt a = n" "is_safe_id run_id" "is_safe_id (nd_id d)"
    "na_failures a = []" "na_output a = None" "na_schema_ok a = None" "na_finished_at a = None" "na_score a = None"
  using assms by (auto simp: attempt_fine_def attempt_issues_def attempt_identity_issues_def
      attempt_status_issues_def attempt_score_issues_def is_attempt_detail_def has_output_def node_context_def)

lemma identity_issues_Nil:
  assumes "is_attempt_detail a" "is_safe_id run_id" "is_safe_id (nd_id d)" "na_attempt a = n"
    "na_status a = Running \<or> na_status a = Done \<or> na_status a = Failed"
  shows "attempt_identity_issues (node_context run_id mode d n) a = []"
  using assms by (auto simp: attempt_identity_issues_def is_attempt_detail_def node_context_def)

lemma settled_attempt_fields:
  "na_attempt (settled_attempt env opts run d v now a) = na_attempt a"
  "na_session_id (settled_attempt env opts run d v now a) = na_session_id a"
  "na_started_at (settled_attempt env opts run d v now a) = na_started_at a"
  "na_feedback_applied (settled_attempt env opts run d v now a) = na_feedback_applied a"
  "is_attempt_detail (settled_attempt env opts run d v now a) = is_attempt_detail a"
  by (simp_all add: settled_attempt_def is_attempt_detail_def)

lemma valid_output_score: "agent_output_valid Checker out \<Longrightarrow> opt_all (\<lambda>s. s \<le> 10) (output_score out)"
  using check_output_cases [of out] by (metis opt_all_simps(2) output_score.simps(1))

lemma settled_attempt_shape:
  assumes "attempt_shape a" "is_attempt_detail a" "verdict_sound opts run d v"
  shows "attempt_shape (settled_attempt env opts run d v now a)"
proof -
  have "opt_all (\<lambda>s. s \<le> 10) (if nd_agent d = Checker then Option.bind (vd_output v) output_score else None)"
    using assms(3) valid_output_score by (cases "vd_output v") (auto simp: verdict_sound_def)
  moreover have "opt_all short_text (vd_error v)"
    using assms(3) by (cases "vd_error v") (auto simp: verdict_sound_def)
  ultimately show ?thesis using assms(1) by (simp add: attempt_shape_def settled_attempt_def)
qed

lemma valid_checker_passed: "agent_output_valid Checker out \<Longrightarrow> output_passed out \<noteq> None"
  using check_output_cases [of out] by (metis option.distinct(1) output_passed.simps(1))

lemma valid_implementer_done: "agent_output_valid Implementer out \<Longrightarrow> output_done out \<noteq> None"
  using implement_output_cases [of out] by (metis option.distinct(1) output_done.simps(1))

lemma verdict_cases:
  assumes "verdict_sound opts run d v"
  obtains (passed) out where "verdict_passed opts run d v" "verdict_outcome opts run d v = Passed"
      "vd_failures v = []" "vd_output v = Some out" "vd_error v = None"
      "live_gate_ran opts run d \<Longrightarrow> vd_shell_ok v = Some True" "\<not> verdict_rejects d v"
  | (sdk_error) e where "\<not> verdict_passed opts run d v" "verdict_outcome opts run d v = Sdk_error"
      "vd_failures v \<noteq> []" "vd_error v = Some e"
  | (invalid) "\<not> verdict_passed opts run d v" "verdict_outcome opts run d v = Schema_invalid"
      "vd_failures v \<noteq> []" "vd_error v = None" "vd_output v = None"
  | (gate) out where "\<not> verdict_passed opts run d v" "verdict_outcome opts run d v = Gate_failure"
      "vd_failures v \<noteq> []" "vd_error v = None" "vd_output v = Some out"
      "live_gate_ran opts run d" "vd_shell_ok v = Some False"
  | (rejected) out where "\<not> verdict_passed opts run d v" "verdict_outcome opts run d v = Substantive_rejection"
      "vd_failures v \<noteq> []" "vd_error v = None" "vd_output v = Some out"
      "nd_agent d = Checker" "output_passed out = Some False"
  | (incomplete) out where "\<not> verdict_passed opts run d v" "verdict_outcome opts run d v = Incomplete"
      "vd_failures v \<noteq> []" "vd_error v = None" "vd_output v = Some out"
      "nd_agent d = Implementer" "output_done out = Some False"
proof (cases "verdict_passed opts run d v")
  case True
  note sound = assms [unfolded verdict_sound_def]
  obtain out where out: "vd_output v = Some out" "vd_failures v = []"
    using True by (auto simp: verdict_passed_def)
  have "vd_error v = None" "\<not> verdict_rejects d v" using sound out by auto
  moreover have "live_gate_ran opts run d \<Longrightarrow> vd_shell_ok v = Some True"
    using True by (auto simp: verdict_passed_def live_gate_ran_def)
  ultimately show thesis using that(1) True out by (simp add: verdict_outcome_def)
next
  case False
  note sound = assms [unfolded verdict_sound_def]
  have p: "verdict_passed opts run d v \<longleftrightarrow>
      vd_failures v = [] \<and> vd_output v \<noteq> None \<and> (live_gate_ran opts run d \<longrightarrow> vd_shell_ok v = Some True)"
    by (auto simp: verdict_passed_def live_gate_ran_def)
  have fs: "vd_failures v \<noteq> []" using False sound p by blast
  show thesis
  proof (cases "vd_error v")
    case (Some e)
    then show thesis using that(2) False fs by (simp add: verdict_outcome_def)
  next
    case none: None
    show thesis
    proof (cases "vd_output v")
      case None
      then show thesis using that(3) False fs none by (simp add: verdict_outcome_def)
    next
      case (Some out)
      show thesis
      proof (cases "live_gate_ran opts run d \<and> vd_shell_ok v \<noteq> Some True")
        case True
        then have "vd_shell_ok v = Some False" using sound Some by blast
        then show thesis using that(4) False fs none Some True
          by (simp add: verdict_outcome_def live_gate_ran_def)
      next
        case gate: False
        then have "verdict_rejects d v" using sound Some none fs by blast
        then show thesis using that(5,6) False fs none Some gate
          by (auto simp: verdict_outcome_def verdict_rejects_def live_gate_ran_def)
      qed
    qed
  qed
qed

lemma settled_attempt_fine:
  assumes "attempt_fine (rs_run_id run) (rs_mode run) d n a" "na_status a = Running"
    and "verdict_sound opts run d v" "xo_dry opts \<longrightarrow> rs_mode run = Dry" "na_started_at a \<le> now"
  shows "attempt_fine (rs_run_id run) (rs_mode run) d n (settled_attempt env opts run d v now a)"
proof -
  let ?a = "settled_attempt env opts run d v now a" and ?ctx = "node_context (rs_run_id run) (rs_mode run) d n"
  note a = running_attempt_clean [OF assms(1,2)]
  have dry: "is_dry opts run \<longleftrightarrow> rs_mode run = Dry" using assms(4) by (auto simp: is_dry_def)
  have detail: "is_attempt_detail ?a" using a(1) by (simp add: settled_attempt_fields)
  have refs: "na_output_ref ?a = None" "na_failures_omitted ?a = None"
    using detail by (simp_all add: is_attempt_detail_def)
  have ctx: "pc_agent ?ctx = nd_agent d" "pc_requires_shell ?ctx = requires_shell d" "pc_run_id ?ctx = rs_run_id run"
    "pc_mode ?ctx = Some (rs_mode run)" by (simp_all add: node_context_def)
  have f: "na_status ?a = (if verdict_passed opts run d v then Done else Failed)" "na_finished_at ?a = Some now"
    "na_started_at ?a = na_started_at a" "na_output ?a = vd_output v" "na_schema_ok ?a = Some (vd_output v \<noteq> None)"
    "na_failures ?a = [] \<longleftrightarrow> vd_failures v = []" "na_error ?a = vd_error v" "na_shell_ok ?a = vd_shell_ok v"
    "na_outcome ?a = Some (verdict_outcome opts run d v)"
    "na_score ?a = (if nd_agent d = Checker then Option.bind (vd_output v) output_score else None)"
    by (simp_all add: settled_attempt_def)
  have has: "has_output ?a \<longleftrightarrow> vd_output v \<noteq> None" by (simp add: has_output_def f refs)
  have live: "live_shell_gate ?ctx \<longleftrightarrow> live_gate_ran opts run d"
    by (simp add: live_shell_gate_def live_gate_ran_def ctx dry)
  note sound = assms(3) [unfolded verdict_sound_def]
  have passed: "Option.bind (vd_output v) output_passed = None \<Longrightarrow> nd_agent d = Checker \<Longrightarrow> vd_output v = None"
    "Option.bind (vd_output v) output_done = None \<Longrightarrow> nd_agent d = Implementer \<Longrightarrow> vd_output v = None"
    using sound valid_checker_passed valid_implementer_done by (cases "vd_output v"; auto)+
  have live': "requires_shell d \<and> rs_mode run \<noteq> Dry \<longleftrightarrow> live_gate_ran opts run d"
    by (simp add: live_gate_ran_def dry)
  have p: "verdict_passed opts run d v \<longleftrightarrow>
      vd_failures v = [] \<and> vd_output v \<noteq> None \<and> (live_gate_ran opts run d \<longrightarrow> vd_shell_ok v = Some True)"
    by (auto simp: verdict_passed_def live_gate_ran_def)
  have identity: "attempt_identity_issues ?ctx ?a = []"
    using a(3-5) detail by (intro identity_issues_Nil) (simp_all add: settled_attempt_fields f(1))
  have produced: "attempt_output_issues ?ctx ?a = []"
    using sound by (cases "vd_output v") (simp_all add: attempt_output_issues_def ctx f has)
  have accepting: "Option.bind (vd_output v) output_passed = Some True" if "nd_agent d = Checker" "\<not> verdict_rejects d v" "vd_output v \<noteq> None"
    using that passed(1) by (cases "Option.bind (vd_output v) output_passed") (auto simp: verdict_rejects_def)
  have finishing: "Option.bind (vd_output v) output_done = Some True" if "nd_agent d = Implementer" "\<not> verdict_rejects d v" "vd_output v \<noteq> None"
    using that passed(2) by (cases "Option.bind (vd_output v) output_done") (auto simp: verdict_rejects_def)
  note groups = attempt_status_issues_def attempt_outcome_issues_def attempt_checker_issues_def
    attempt_implementer_issues_def Let_def ctx f has refs live
  have "attempt_status_issues ?ctx ?a = [] \<and> attempt_outcome_issues ?ctx ?a = [] \<and>
      attempt_checker_issues ?ctx ?a = [] \<and> attempt_implementer_issues ?ctx ?a = []"
    using assms(3)
  proof (cases rule: verdict_cases)
    case (passed out)
    then show ?thesis using accepting finishing assms(5) live' by (auto simp: groups)
  next
    case (sdk_error e)
    then show ?thesis using assms(5) by (simp add: groups)
  next
    case invalid
    then show ?thesis using assms(5) by (simp add: groups)
  next
    case (gate out)
    then show ?thesis using assms(5) live' by (simp add: groups)
  next
    case (rejected out)
    then show ?thesis using assms(5) by (simp add: groups)
  next
    case (incomplete out)
    then show ?thesis using assms(5) by (simp add: groups)
  qed
  then have status: "attempt_status_issues ?ctx ?a = []" and outcome: "attempt_outcome_issues ?ctx ?a = []"
    and checker: "attempt_checker_issues ?ctx ?a = []" and implementer: "attempt_implementer_issues ?ctx ?a = []"
    by blast+
  have score: "attempt_score_issues ?ctx ?a = []"
    by (simp add: attempt_score_issues_def ctx f refs)
  show ?thesis
    using identity produced status outcome checker implementer score detail settled_attempt_shape [OF a(2,1) assms(3)]
    by (simp add: attempt_fine_def attempt_issues_def)
qed

section \<open>Steps of one node\<close>

lemma settled_node_fine:
  assumes "node_fine (rs_run_id run) (rs_mode run) d st" "ns_status st = Running"
    and "verdict_sound opts run d v" "xo_dry opts \<longrightarrow> rs_mode run = Dry"
    and "\<And>a. final_attempt st = Some a \<Longrightarrow> na_started_at a \<le> now"
  shows "node_fine (rs_run_id run) (rs_mode run) d (settled_node env opts run d v now st)"
proof -
  let ?st = "settled_node env opts run d v now st"
  obtain as a where a: "ns_attempts st = as @ [a]" "na_status a = Running"
    "attempt_fine (rs_run_id run) (rs_mode run) d (Suc (length as)) a"
    "history_fine (rs_run_id run) (rs_mode run) d as" "\<forall>b \<in> set as. na_status b \<noteq> Running"
    "ns_current_attempt st = Suc (length as)"
    using running_node_attempt [OF assms(1,2)] by metis
  let ?a = "settled_attempt env opts run d v now a"
  have started: "na_started_at a \<le> now" using assms(5) a(1) by (simp add: final_attempt_def)
  have fine: "attempt_fine (rs_run_id run) (rs_mode run) d (Suc (length as)) ?a"
    by (rule settled_attempt_fine [OF a(3,2) assms(3,4) started])
  have attempts: "ns_attempts ?st = as @ [?a]" by (simp add: settled_node_def a(1))
  have detail: "is_attempt_detail ?a" using fine by (simp add: attempt_fine_def)
  have p: "verdict_passed opts run d v \<Longrightarrow> vd_output v \<noteq> None \<and> vd_failures v = []"
    by (simp add: verdict_passed_def)
  have np: "vd_failures v \<noteq> []" if "\<not> verdict_passed opts run d v"
    using assms(3) by (cases rule: verdict_cases) (use that in simp_all)
  have old: "hydrated_node st" "is_safe_id (nd_id d)" "ns_id st = nd_id d" "ns_agent st = nd_agent d"
    "ns_current_attempt st \<le> max_attempts d"
    using assms(1) unfolding node_fine_def by blast+
  have hydrated: "hydrated_node ?st"
    using old(1) detail a(1) by (simp add: hydrated_node_def settled_node_def)
  have status: "na_status ?a = (if verdict_passed opts run d v then Done else Failed)" "na_output ?a = vd_output v"
    by (simp_all add: settled_attempt_def)
  have final: "final_status ?st = Some (na_status ?a)" by (rule final_status_snoc [OF attempts])
  have history: "history_fine (rs_run_id run) (rs_mode run) d (ns_attempts ?st)"
    unfolding attempts history_fine_snoc using a(4,5) fine by blast
  have latest: "ns_output ?st \<noteq> None \<longrightarrow> ns_output ?st = latest_output (ns_attempts ?st)"
    unfolding attempts latest_output_snoc status by (simp add: settled_node_def)
  have rest: "ns_id ?st = nd_id d" "ns_agent ?st = nd_agent d" "ns_current_attempt ?st = Suc (length as)"
    "ns_output ?st = vd_output v" "Suc (length as) \<le> max_attempts d"
    using old a(6) by (simp_all add: settled_node_def)
  have stat: "ns_status ?st = (if verdict_passed opts run d v then Done
      else if \<not> awaits_feedback_routing d (verdict_outcome opts run d v) \<and> Suc (length as) < max_attempts d
      then Pending else Failed)"
    "ns_last_failures ?st = (if verdict_passed opts run d v then []
      else bound_diagnostic_list (we_redact env) (vd_retained v) (vd_failures v))"
    using a(6) by (simp_all add: settled_node_def)
  have bounded: "bounded_strings (ns_last_failures ?st)" using stat(2) by (simp add: bounded_strings_def [of "[]"])
  have len: "ns_current_attempt ?st = length (ns_attempts ?st)" using rest(3) attempts by simp
  show ?thesis
    unfolding node_fine_def using hydrated old(2) rest(1,2) len history latest bounded final
  proof (intro conjI)
    show "ns_current_attempt ?st \<le> max_attempts d" using rest by simp
    show "(ns_status ?st = Running) = (final_status ?st = Some Running)"
      "ns_status ?st = Done \<longrightarrow> final_status ?st = Some Done \<and> ns_output ?st \<noteq> None \<and> ns_last_failures ?st = []"
      "ns_status ?st = Failed \<longrightarrow> final_status ?st = None \<or> final_status ?st = Some Failed"
      "ns_status ?st = Failed \<or> ns_status ?st = Skipped \<longrightarrow> ns_last_failures ?st \<noteq> []"
      using p np rest(4) unfolding final status stat by (auto split: if_splits)
  qed assumption+
qed

lemma rejected_attempt_fine:
  assumes "attempt_fine run_id mode d n a" "na_status a = Running" "na_started_at a \<le> now" "short_text diagnostic"
  shows "attempt_fine run_id mode d n (rejected_attempt env diagnostic now a)"
proof -
  let ?a = "rejected_attempt env diagnostic now a" and ?ctx = "node_context run_id mode d n"
  note a = running_attempt_clean [OF assms(1,2)]
  have detail: "is_attempt_detail ?a" using a(1) by (simp add: rejected_attempt_def is_attempt_detail_def)
  have f: "na_status ?a = Failed" "na_finished_at ?a = Some now" "na_started_at ?a = na_started_at a"
    "na_failures ?a \<noteq> []" "na_schema_ok ?a = Some False" "na_error ?a = Some diagnostic"
    "na_outcome ?a = Some Sdk_error" "na_output ?a = None" "na_score ?a = None" "na_attempt ?a = n"
    using a by (simp_all add: rejected_attempt_def)
  have refs: "na_output_ref ?a = None" "\<not> has_output ?a"
    using detail f(8) by (simp_all add: is_attempt_detail_def has_output_def)
  have "attempt_shape ?a" using a(2) assms(4) by (simp add: attempt_shape_def rejected_attempt_def)
  moreover have "attempt_identity_issues ?ctx ?a = []"
    using a(3-5) detail f by (intro identity_issues_Nil) simp_all
  moreover have "attempt_output_issues ?ctx ?a = []" "attempt_status_issues ?ctx ?a = []"
    "attempt_outcome_issues ?ctx ?a = []" "attempt_checker_issues ?ctx ?a = []"
    "attempt_implementer_issues ?ctx ?a = []" "attempt_score_issues ?ctx ?a = []"
    using assms(3) by (simp_all add: attempt_output_issues_def attempt_status_issues_def attempt_outcome_issues_def
        attempt_checker_issues_def attempt_implementer_issues_def attempt_score_issues_def artifact_of_run_def
        Let_def f refs)
  ultimately show ?thesis using detail by (simp add: attempt_fine_def attempt_issues_def)
qed

text \<open>
  Ending the attempt of a running node as failed: the shape shared by the rejection handler and
  by the interruption of a run that is resumed.
\<close>

lemma failed_running_node_fine:
  assumes "node_fine run_id mode d st" "ns_status st = Running"
    and "\<And>as a. ns_attempts st = as @ [a] \<Longrightarrow> na_status a = Running \<Longrightarrow>
           attempt_fine run_id mode d (Suc (length as)) a \<Longrightarrow>
           attempt_fine run_id mode d (Suc (length as)) (f a) \<and> na_status (f a) = Failed \<and> na_output (f a) = None"
    and "s = Pending \<or> s = Failed" "bounded_strings fs" "fs \<noteq> []"
  shows "node_fine run_id mode d
    (st\<lparr>ns_status := s, ns_last_failures := fs, ns_attempts := update_last f (ns_attempts st)\<rparr>)"
proof -
  obtain as a where a: "ns_attempts st = as @ [a]" "na_status a = Running"
    "attempt_fine run_id mode d (Suc (length as)) a" "history_fine run_id mode d as"
    "\<forall>b \<in> set as. na_status b \<noteq> Running" "ns_current_attempt st = Suc (length as)"
    using running_node_attempt [OF assms(1,2)] by metis
  note fa = assms(3) [OF a(1-3)]
  have none: "na_output a = None"
    using running_attempt_clean(7) [OF a(3,2)] .
  have old: "hydrated_node st" "is_safe_id (nd_id d)" "ns_id st = nd_id d" "ns_agent st = nd_agent d"
    "ns_current_attempt st \<le> max_attempts d" "ns_output st \<noteq> None \<longrightarrow> ns_output st = latest_output (ns_attempts st)"
    using assms(1) unfolding node_fine_def by blast+
  have "is_attempt_detail (f a)" using fa by (simp add: attempt_fine_def)
  then have hyd: "hydrated_node (st\<lparr>ns_status := s, ns_last_failures := fs, ns_attempts := as @ [f a]\<rparr>)"
    using old(1) a(1) by (simp add: hydrated_node_def)
  have "history_fine run_id mode d (as @ [f a])" using a fa by (simp add: history_fine_snoc)
  moreover have "latest_output (as @ [f a]) = latest_output (as @ [a])"
    using fa none by (simp add: latest_output_snoc)
  ultimately show ?thesis
    using old assms(4-6) hyd fa a unfolding node_fine_def by (auto simp: final_status_simps)
qed

lemma rejected_node_fine:
  assumes "node_fine run_id mode d st" "ns_status st = Running"
    and "\<And>a. final_attempt st = Some a \<Longrightarrow> na_started_at a \<le> now"
  shows "node_fine run_id mode d (rejected_node env d reason now st)"
proof -
  let ?g = "executor_diagnostic env reason"
  have g: "short_text ?g" by (simp add: executor_diagnostic_def)
  have "node_fine run_id mode d (st\<lparr>ns_status := (if ns_current_attempt st < max_attempts d then Pending else Failed),
      ns_last_failures := bound_diagnostic_list (we_redact env) [?g] [?g],
      ns_attempts := update_last (rejected_attempt env ?g now) (ns_attempts st)\<rparr>)"
  proof (rule failed_running_node_fine [OF assms(1,2)])
    fix as a assume a: "ns_attempts st = as @ [a]" "na_status a = Running"
      "attempt_fine run_id mode d (Suc (length as)) a"
    have "na_started_at a \<le> now" using assms(3) a(1) by (simp add: final_attempt_def)
    then show "attempt_fine run_id mode d (Suc (length as)) (rejected_attempt env ?g now a) \<and>
        na_status (rejected_attempt env ?g now a) = Failed \<and> na_output (rejected_attempt env ?g now a) = None"
      using rejected_attempt_fine [OF a(3,2) _ g, of now env] running_attempt_clean(7) [OF a(3,2)]
      by (simp add: rejected_attempt_def)
  qed auto
  then show ?thesis by (simp add: rejected_node_def Let_def)
qed

section \<open>The steps keep the run acceptable\<close>

lemma adopt_criteria_nodes [simp]:
  "rs_nodes (adopt_criteria d out run) = rs_nodes run" "rs_graph (adopt_criteria d out run) = rs_graph run"
  "rs_run_id (adopt_criteria d out run) = rs_run_id run" "rs_mode (adopt_criteria d out run) = rs_mode run"
  "rs_status (adopt_criteria d out run) = rs_status run"
  "rs_global_attempts (adopt_criteria d out run) = rs_global_attempts run"
  "node_of (adopt_criteria d out run) i = node_of run i"
  by (auto simp: adopt_criteria_def node_of_def split: option.splits agent_output.splits)

lemma adopt_criteria_fine:
  assumes "base_fine run" "opt_all (agent_output_valid (nd_agent d)) out"
  shows "base_fine (adopt_criteria d out run)"
proof (cases "\<exists>r. out = Some (Research_output r) \<and> nd_agent d = Researcher \<and> rs_criteria run = []")
  case True
  then obtain r where r: "out = Some (Research_output r)" "nd_agent d = Researcher" "rs_criteria run = []" by blast
  then have "bounded_strings (reo_acceptance_criteria r)"
    using research_output_cases [of "Research_output r"] assms(2) by auto
  then show ?thesis using base_fine_criteria [OF assms(1)] r by (simp add: adopt_criteria_def)
next
  case False
  then have "adopt_criteria d out run = run"
    by (auto simp: adopt_criteria_def split: option.splits agent_output.splits)
  then show ?thesis using assms(1) by simp
qed

lemma settle_node_fine:
  assumes "base_fine run" "d \<in> set (gd_nodes (rs_graph run))" "node_of run (nd_id d) = Some st"
    and "ns_status st = Running" "deps_done run d" "reply_ok opts run d reply"
    and "xo_dry opts \<longrightarrow> rs_mode run = Dry" "\<And>a. final_attempt st = Some a \<Longrightarrow> na_started_at a \<le> now"
  shows "base_fine (settle_node env opts run d reply now)"
proof -
  note T = table_fineD [OF base_fine_table [OF assms(1)]]
  have "gates_ok d" using graph_ok_wf [OF T(2)] assms(2) by (simp add: graph_well_formed_def)
  then have sound: "verdict_sound opts run d (verdict_of env opts run d reply)"
    using verdict_of_sound assms(6) by blast
  let ?v = "verdict_of env opts run d reply"
  let ?st = "settled_node env opts run d ?v now st"
  have fine: "node_fine (rs_run_id run) (rs_mode run) d ?st"
    by (rule settled_node_fine [OF T(5) [OF assms(2,3)] assms(4) sound assms(7,8)])
  have allowed: "step_allowed run d (ns_status st) (ns_status ?st)"
    using assms(4,5) by (auto simp: step_allowed_def settled_node_def)
  have base: "base_fine (set_node (nd_id d) ?st run)"
    by (rule base_fine_set_node [OF assms(1-3) fine _ allowed]) (simp add: settled_node_def)
  have "opt_all (agent_output_valid (nd_agent d)) (vd_output ?v)" using sound by (simp add: verdict_sound_def)
  then show ?thesis
    using adopt_criteria_fine [OF base, of d "vd_output ?v"] base
    by (simp add: settle_node_def Let_def modify_node_Some [OF assms(3)])
qed

lemma reject_node_fine:
  assumes "base_fine run" "d \<in> set (gd_nodes (rs_graph run))" "node_of run (nd_id d) = Some st"
    and "ns_status st = Running" "\<And>a. final_attempt st = Some a \<Longrightarrow> na_started_at a \<le> now"
  shows "\<exists>run'. reject_node env run d reason now = Some run' \<and> base_fine run' \<and>
    run' = set_node (nd_id d) (rejected_node env d reason now st) run"
proof -
  note T = table_fineD [OF base_fine_table [OF assms(1)]]
  note fine = T(5) [OF assms(2,3)]
  have final: "final_status st = Some Running" using fine assms(4) unfolding node_fine_def by blast
  have "base_fine (set_node (nd_id d) (rejected_node env d reason now st) run)"
    by (rule base_fine_set_node [OF assms(1-3) rejected_node_fine [OF fine assms(4,5)]])
      (use assms(4) in \<open>auto simp: rejected_node_def step_allowed_def Let_def\<close>)
  then show ?thesis using final assms(3) by (simp add: reject_node_def)
qed

lemma new_attempt_fine:
  assumes "is_safe_id run_id" "is_safe_id (nd_id d)" "1 \<le> n" "n \<le> 10000"
  shows "attempt_fine run_id mode d n (new_attempt n now)"
proof -
  let ?a = "new_attempt n now"
  have f: "is_attempt_detail ?a" "attempt_shape ?a" "na_attempt ?a = n" "na_status ?a = Running"
    "\<not> has_output ?a" "na_output ?a = None" "na_output_ref ?a = None"
    using assms by (simp_all add: new_attempt_def is_attempt_detail_def attempt_shape_def bounded_strings_def has_output_def)
  have "attempt_identity_issues (node_context run_id mode d n) ?a = []"
    using assms f by (intro identity_issues_Nil) simp_all
  then show ?thesis using f
    by (simp add: attempt_fine_def attempt_issues_def attempt_output_issues_def attempt_status_issues_def
        attempt_outcome_issues_def attempt_checker_issues_def attempt_implementer_issues_def
        attempt_score_issues_def artifact_of_run_def Let_def)
      (simp add: new_attempt_def)
qed

definition reserved_node :: "nat \<Rightarrow> node_state \<Rightarrow> node_state" where
  "reserved_node now st =
     st\<lparr>ns_current_attempt := ns_current_attempt st + 1,
        ns_attempts := ns_attempts st @ [new_attempt (ns_current_attempt st + 1) now],
        ns_status := Running\<rparr>"

lemma reserved_node_fine:
  assumes "node_fine run_id mode d st" "is_safe_id run_id" "schedulable (ns_status st)"
    and "ns_current_attempt st < max_attempts d" "max_attempts d \<le> 100"
  shows "node_fine run_id mode d (reserved_node now st)"
proof -
  have old: "hydrated_node st" "is_safe_id (nd_id d)" "ns_id st = nd_id d" "ns_agent st = nd_agent d"
    "ns_current_attempt st = length (ns_attempts st)" "history_fine run_id mode d (ns_attempts st)"
    "bounded_strings (ns_last_failures st)"
    "ns_output st \<noteq> None \<longrightarrow> ns_output st = latest_output (ns_attempts st)"
    "ns_status st = Running \<longleftrightarrow> final_status st = Some Running"
    using assms(1) unfolding node_fine_def by blast+
  have quiet: "na_status b \<noteq> Running" if b: "b \<in> set (ns_attempts st)" for b
  proof
    assume r: "na_status b = Running"
    then obtain k where k: "k < length (ns_attempts st)" "ns_attempts st ! k = b" using b by (auto simp: in_set_conv_nth)
    then have "Suc k = length (ns_attempts st)" using old(6) r by (auto simp: history_fine_def)
    then have "length (ns_attempts st) - Suc 0 = k" by linarith
    then have "final_status st = Some Running" using k r by (auto simp: final_status_simps last_conv_nth)
    then show False using old(9) assms(3) by auto
  qed
  have new: "attempt_fine run_id mode d (Suc (length (ns_attempts st))) (new_attempt (Suc (length (ns_attempts st))) now)"
    using assms(2,4,5) old(2,5) by (intro new_attempt_fine) auto
  have f: "na_status (new_attempt n now) = Running" "na_output (new_attempt n now) = None"
    "is_attempt_detail (new_attempt n now)" for n
    by (simp_all add: new_attempt_def is_attempt_detail_def)
  show ?thesis unfolding node_fine_def reserved_node_def
    using old quiet new assms(4)
    by (auto simp: history_fine_snoc latest_output_snoc final_status_simps f hydrated_node_def)
qed

lemma base_fine_run_id: "base_fine run \<Longrightarrow> is_safe_id (rs_run_id run)"
  unfolding base_fine_def header_shape_def by blast

lemma limit_failures_bounded:
  "max_attempts d \<le> 100 \<Longrightarrow> bounded_strings (local_limit_failure d)"
  "gd_max_global_attempts (rs_graph run) \<le> 10000 \<Longrightarrow> bounded_strings (global_limit_failure run)"
proof -
  have ends: "\<not> js_space (hd (js ''Local attempt limit reached (''))" "\<not> js_space (hd (js ''Global attempt limit reached (''))"
    "\<not> js_space (last (js '')''))" by code_simp+
  have framed: "short_text (js a @ dec n @ js '')'')"
    if "n \<le> 10000" "length (js a) \<le> 1000" "js a \<noteq> []" "\<not> js_space (hd (js a))" for a n
  proof -
    have "length (dec n) \<le> 5" by (rule length_dec_small) (use that(1) in auto)
    then show ?thesis using that ends(3) by (intro short_text_framed) auto
  qed
  show "max_attempts d \<le> 100 \<Longrightarrow> bounded_strings (local_limit_failure d)"
    unfolding local_limit_failure_def by (intro bounded_strings_single framed) (use ends in auto)
  show "gd_max_global_attempts (rs_graph run) \<le> 10000 \<Longrightarrow> bounded_strings (global_limit_failure run)"
    unfolding global_limit_failure_def by (intro bounded_strings_single framed) (use ends in auto)
qed

lemma base_fine_limits:
  assumes "base_fine run" "d \<in> set (gd_nodes (rs_graph run))"
  shows "bounded_strings (local_limit_failure d)" "bounded_strings (global_limit_failure run)"
    "1 \<le> max_attempts d" "max_attempts d \<le> 100"
proof -
  note T = table_fineD [OF base_fine_table [OF assms(1)]]
  show "1 \<le> max_attempts d" "max_attempts d \<le> 100"
    using node_shape_attempts [OF graph_ok_node_shape [OF T(2) assms(2)]] by auto
  then show "bounded_strings (local_limit_failure d)" by (intro limit_failures_bounded)
  have "gd_max_global_attempts (rs_graph run) \<le> 10000" using T(2) by (simp add: graph_ok_def graph_shape_def)
  then show "bounded_strings (global_limit_failure run)" by (rule limit_failures_bounded)
qed

lemma schedulable_allowed:
  "schedulable s \<Longrightarrow> s' \<noteq> Done \<Longrightarrow> s' \<noteq> Skipped \<Longrightarrow> step_allowed run d s s'"
  by (auto simp: step_allowed_def schedulable_def blocking_def)

lemma edges_set_node:
  assumes "table_fine run" "d \<in> set (gd_nodes (rs_graph run))" "node_of run (nd_id d) = Some st"
    and "step_allowed run d (ns_status st) (ns_status st')"
  shows "\<forall>e \<in> set (gd_nodes (rs_graph run)). edge_fine (set_node (nd_id d) st' run) e"
  using edge_fine_set_node [OF assms] by blast

lemma reserved_run_fine:
  assumes "base_fine run" "d \<in> set (gd_nodes (rs_graph run))" "node_of run (nd_id d) = Some st"
    and "schedulable (ns_status st)" "ns_current_attempt st < max_attempts d"
    and "rs_global_attempts run < gd_max_global_attempts (rs_graph run)"
  shows "base_fine ((set_node (nd_id d) (reserved_node now st) run)\<lparr>rs_global_attempts := rs_global_attempts run + 1\<rparr>)"
    (is "base_fine ?run")
proof -
  let ?st = "reserved_node now st"
  let ?mid = "set_node (nd_id d) ?st run"
  note table = base_fine_table [OF assms(1)]
  note T = table_fineD [OF table]
  have fine: "node_fine (rs_run_id run) (rs_mode run) d ?st"
    by (rule reserved_node_fine [OF T(5) [OF assms(2,3)] base_fine_run_id [OF assms(1)] assms(4,5)
          base_fine_limits(4) [OF assms(1,2)]])
  have edges: "\<forall>e \<in> set (gd_nodes (rs_graph run)). edge_fine ?mid e"
    by (rule edges_set_node [OF table assms(2,3)])
      (use assms(4) schedulable_allowed in \<open>auto simp: reserved_node_def\<close>)
  have "nodes_match ?mid" using nodes_match_set_node [OF T(1)] assms(3) by simp
  moreover have "total_attempts ?mid = Suc (total_attempts run)"
    using total_attempts_set_node [OF T(1) assms(3), of ?st] by (simp add: reserved_node_def)
  moreover have "node_fine (rs_run_id run) (rs_mode run) e t"
    if "e \<in> set (gd_nodes (rs_graph run))" "node_of ?mid (nd_id e) = Some t" for e t
  proof (cases "nd_id e = nd_id d")
    case True
    then show ?thesis using distinct_index_unique [OF T(4) that(1) assms(2)] that(2) fine by simp
  next
    case False
    then show ?thesis using T(5) [OF that(1)] that(2) by simp
  qed
  moreover have frame: "rs_graph ?mid = rs_graph run" "rs_run_id ?mid = rs_run_id run" "rs_mode ?mid = rs_mode run"
    by (simp_all add: set_node_def)
  moreover have lookups: "node_of ?run = node_of ?mid" "node_values ?run = node_values ?mid"
    by (simp_all add: node_of_def node_values_def fun_eq_iff)
  moreover from lookups have "node_status_of ?run = node_status_of ?mid" by (simp add: node_status_of_def fun_eq_iff)
  moreover from this have "blocked_by ?run = blocked_by ?mid" by (simp add: blocked_by_def fun_eq_iff)
  ultimately have "table_fine ?run"
    using edges T(2,7) assms(6)
    by (simp add: table_fine_def nodes_match_def edge_fine_def deps_done_def total_attempts_def)
  then show ?thesis using assms(1)
    by (simp add: base_fine_def header_shape_def header_hydrated_def run_ownership_issues_def set_node_def)
qed

lemma reserve_attempt_fine:
  assumes "base_fine run" "reopen_ok run" "d \<in> set (gd_nodes (rs_graph run))"
    and "node_of run (nd_id d) = Some st" "schedulable (ns_status st)"
  shows "base_fine (fst (reserve_attempt now run d))"
proof -
  note T = table_fineD [OF base_fine_table [OF assms(1)]]
  note fine = T(5) [OF assms(3,4)] and L = base_fine_limits [OF assms(1,3)]
  have nr: "ns_status st \<noteq> Running" using assms(5) by auto
  have sel: "base_fine (set_node (nd_id d) (st\<lparr>ns_status := s, ns_last_failures := fs\<rparr>) run)"
    if "s = Pending \<or> s = Failed" "s = Failed \<Longrightarrow> final_status st \<noteq> Some Done" "bounded_strings fs" "fs \<noteq> []" for s fs
  proof (rule base_fine_set_node [OF assms(1,3,4)])
    show "node_fine (rs_run_id run) (rs_mode run) d (st\<lparr>ns_status := s, ns_last_failures := fs\<rparr>)"
      by (rule restatus_node_fine [OF fine nr]) (use that in auto)
    show "step_allowed run d (ns_status st) (ns_status (st\<lparr>ns_status := s, ns_last_failures := fs\<rparr>))"
      using that(1) by (intro schedulable_allowed [OF assms(5)]) auto
  qed simp
  have "final_status st \<noteq> Some Done" if "max_attempts d \<le> ns_current_attempt st"
    using reopen_okD [OF assms(2-4)] assms(5) that by (auto simp: reopen_fine_def)
  then have local_limit: "base_fine (set_node (nd_id d)
      (st\<lparr>ns_status := Failed, ns_last_failures := local_limit_failure d\<rparr>) run)"
    if "max_attempts d \<le> ns_current_attempt st"
    using that L(1) by (intro sel) (simp_all add: local_limit_failure_def)
  have global_limit: "base_fine (set_node (nd_id d)
      (st\<lparr>ns_status := exhausted_status st, ns_last_failures := global_limit_failure run\<rparr>) run)"
    using L(2) by (intro sel) (auto simp: exhausted_status_def global_limit_failure_def split: if_splits)
  have reserve: "base_fine ((set_node (nd_id d) (reserved_node now st) run)\<lparr>rs_global_attempts := rs_global_attempts run + 1\<rparr>)"
    if "ns_current_attempt st < max_attempts d" "rs_global_attempts run < gd_max_global_attempts (rs_graph run)"
    by (rule reserved_run_fine [OF assms(1,3-5) that])
  show ?thesis using local_limit global_limit reserve assms(4)
    by (simp add: reserve_attempt_def reserved_node_def)
qed

section \<open>Properties\<close>

text \<open>
  C15. Whatever a worker and its shell gate answer, settling the attempt of a running node leaves
  a run the schema accepts: no reply can produce an outcome, a failure list, an output or a
  retry that the next save would refuse.
\<close>

theorem settlement_accepted:
  assumes "run_body_shape run" "run_issues sha run = []" "hydrated_run run" "rs_status run = Run_running"
    and "d \<in> set (gd_nodes (rs_graph run))" "node_of run (nd_id d) = Some st"
    and "ns_status st = Running" "deps_done run d" "reply_ok opts run d reply"
    and "xo_dry opts \<longrightarrow> rs_mode run = Dry" "\<And>a. final_attempt st = Some a \<Longrightarrow> na_started_at a \<le> now"
  shows "run_body_shape (settle_node env opts run d reply now) \<and>
    run_issues sha (settle_node env opts run d reply now) = []"
proof -
  have "base_fine run" using accepted_run_fine [OF assms(1-3)] run_fine_base by blast
  then have "base_fine (settle_node env opts run d reply now)"
    by (rule settle_node_fine [OF _ assms(5-11)])
  moreover have "rs_status (settle_node env opts run d reply now) = Run_running"
    using assms(4) by (simp add: settle_node_def Let_def)
  ultimately have "run_fine (settle_node env opts run d reply now)" using base_fine_run_fine by blast
  then show ?thesis using run_fine_body_shape run_fine_issues by blast
qed

text \<open>
  The recorded outcome says what happened: \<open>passed\<close> means a validated output, no failure, a
  succeeded live gate and no negative verdict; \<open>gate_failure\<close> means that a live gate was required
  and reported failure, so the fallback branch that also records it is never taken; the other
  outcomes name an error, an invalid output, a rejecting checker or an unfinished implementer.
\<close>

theorem outcome_classified:
  assumes "gates_ok d" "reply_ok opts run d reply" "v = verdict_of env opts run d reply"
  shows "(case verdict_outcome opts run d v of
      Passed \<Rightarrow> (\<exists>out. vd_output v = Some out \<and> agent_output_valid (nd_agent d) out) \<and> vd_failures v = [] \<and>
        (live_gate_ran opts run d \<longrightarrow> vd_shell_ok v = Some True) \<and> \<not> verdict_rejects d v
    | Sdk_error \<Rightarrow> vd_error v \<noteq> None
    | Schema_invalid \<Rightarrow> vd_output v = None \<and> vd_failures v \<noteq> []
    | Gate_failure \<Rightarrow> live_gate_ran opts run d \<and> vd_shell_ok v = Some False
    | Substantive_rejection \<Rightarrow> nd_agent d = Checker \<and> Option.bind (vd_output v) output_passed = Some False
    | Incomplete \<Rightarrow> nd_agent d = Implementer \<and> Option.bind (vd_output v) output_done = Some False)"
proof -
  have sound: "verdict_sound opts run d v" unfolding assms(3) by (rule verdict_of_sound [OF assms(1,2)])
  then have valid: "opt_all (agent_output_valid (nd_agent d)) (vd_output v)" by (simp add: verdict_sound_def)
  show ?thesis using sound by (cases rule: verdict_cases) (use valid in simp_all)
qed

lemma trimmed_suffix: "js_trimmed g \<Longrightarrow> g \<noteq> [] \<Longrightarrow> p \<noteq> [] \<Longrightarrow> \<not> js_space (hd p) \<Longrightarrow> js_trimmed (p @ g)"
  by (simp add: js_trimmed_iff)

lemma dry_prefixes: "\<not> js_space (hd (js ''Dry implement: ''))" "\<not> js_space (hd (js ''Dry research for: ''))"
  "short_text (js ''(dry-run)'')" "short_text (js ''stub'')" "short_text (js ''dry-run constraint'')"
  "short_text (js ''Dry criterion: artifact schema valid'')" "short_text (js ''dry-run auto-pass'')"
  by code_simp+

lemma enforce_bytes_bound:
  "json_bound (output_json v) \<le> AGENT_OUTPUT_BYTE_LIMITS agent \<Longrightarrow> enforce_output_bytes agent v = []"
  using serialized_bytes_bound [of "output_json v"] by (simp add: enforce_output_bytes_def)

lemma dry_output_valid_lemma:
  assumes "long_text (rs_goal run)" "bounded_strings (rs_criteria run)"
    and "\<And>g. nd_agent d = Shell \<Longrightarrow> nd_shell_gate d = Some g \<Longrightarrow> sized 1 5000 (sg_cmd g)"
    and "nd_agent d = Implementer \<Longrightarrow> length (rs_goal run) \<le> 1985"
    and "nd_agent d = Researcher \<Longrightarrow> length (rs_goal run) \<le> 19982 \<and> items_bound (map J_str (rs_criteria run)) \<le> 100000"
  shows "agent_output_valid (nd_agent d) (dry_output d run)"
proof -
  note gt = assms(1) [unfolded long_text_def exact_string_def]
  then have goal: "rs_goal run \<noteq> []" "js_trimmed (rs_goal run)" "length (rs_goal run) \<le> 20000" by auto
  show ?thesis
  proof (cases "nd_agent d")
    case Explorer
    have "enforce_output_bytes Explorer (dry_output d run) = []"
      using goal Explorer by (intro enforce_bytes_bound) (simp add: dry_output_def j_pair_def)
    then show ?thesis using Explorer assms(1)
      by (simp add: agent_output_valid_def dry_output_def explore_shape_def short_pair_def dry_prefixes)
  next
    case Researcher
    have crit: "bounded_strings (dry_acceptance_criteria run)" "1 \<le> length (dry_acceptance_criteria run)"
      "items_bound (map J_str (dry_acceptance_criteria run)) \<le> 100000"
      using assms(2,5) Researcher dry_prefixes by (auto simp: dry_acceptance_criteria_def bounded_strings_def Suc_le_eq)
    have "enforce_output_bytes Researcher (dry_output d run) = []"
      using crit(3) assms(5) Researcher by (intro enforce_bytes_bound) (simp add: dry_output_def j_strs_def)
    moreover have "long_text (js ''Dry research for: '' @ rs_goal run)"
      using trimmed_suffix [OF goal(2,1)] assms(5) Researcher dry_prefixes by (simp add: long_text_def exact_string_def)
    ultimately show ?thesis using Researcher crit dry_prefixes
      by (simp add: agent_output_valid_def dry_output_def research_shape_def bounded_strings_def)
  next
    case Implementer
    have "enforce_output_bytes Implementer (dry_output d run) = []"
      using assms(4) Implementer by (intro enforce_bytes_bound) (simp add: dry_output_def j_strs_def j_opt_def)
    moreover have "short_text (js ''Dry implement: '' @ rs_goal run)"
      using trimmed_suffix [OF goal(2,1)] assms(4) Implementer dry_prefixes by (simp add: short_text_def)
    ultimately show ?thesis using Implementer
      by (simp add: agent_output_valid_def dry_output_def implement_shape_def bounded_strings_def
          implement_issues_def blocker_count_def)
  next
    case Checker
    have "enforce_output_bytes Checker (dry_output d run) = []"
      using Checker length_dec_le [of 10]
      by (intro enforce_bytes_bound) (simp add: dry_output_def j_strs_def j_opt_def j_nat_def)
    then show ?thesis using Checker dry_prefixes
      by (simp add: agent_output_valid_def dry_output_def check_shape_def check_issues_def bounded_strings_def)
  next
    case Shell
    let ?cmd = "case nd_shell_gate d of None \<Rightarrow> js ''dry'' | Some g \<Rightarrow> sg_cmd g"
    have cmd: "1 \<le> length ?cmd" "length ?cmd \<le> 5000"
      using assms(3) Shell by (auto simp: sized_def split: option.splits)
    have "length (dec 0) = 1" by (subst dec.simps) simp
    then have "enforce_output_bytes Shell (dry_output d run) = []"
      using cmd Shell by (intro enforce_bytes_bound) (simp add: dry_output_def j_int_def j_opt_def)
    then show ?thesis using Shell cmd
      by (simp add: agent_output_valid_def dry_output_def shell_shape_def shell_issues_def sized_def)
  qed
qed

text \<open>
  A dry run passes on its own output for every agent while the texts it copies fit: a goal of
  at most 1,985 code units for an implementer, 19,982 for a researcher whose criteria serialise
  within 100,000 bytes, a command of at most 5,000 for a shell node.
\<close>

theorem dry_output_valid:
  assumes "long_text (rs_goal run)" "bounded_strings (rs_criteria run)"
    and "\<And>g. nd_agent d = Shell \<Longrightarrow> nd_shell_gate d = Some g \<Longrightarrow> sized 1 5000 (sg_cmd g)"
    and "nd_agent d = Implementer \<Longrightarrow> length (rs_goal run) \<le> 1985"
    and "nd_agent d = Researcher \<Longrightarrow> length (rs_goal run) \<le> 19982 \<and> items_bound (map J_str (rs_criteria run)) \<le> 100000"
    and "is_dry opts run"
  shows "agent_output_valid (nd_agent d) (dry_output d run) \<and>
    verdict_outcome opts run d (verdict_of env opts run d reply) = Passed"
proof -
  have valid: "agent_output_valid (nd_agent d) (dry_output d run)"
    by (rule dry_output_valid_lemma [OF assms(1-5)])
  have out: "containment_failures env (rs_run_id run) (nd_agent d) (dry_output d run) = []"
    "verdict_failures env d (Some (dry_output d run)) = []"
    by (cases "nd_agent d"; simp add: containment_failures_def dry_output_def verdict_failures_def)+
  then have "validate_reply env opts run d reply = (Some (dry_output d run), [])"
    using valid assms(6) by (simp add: validate_reply_def raw_output_def parse_and_validate_def)
  then show ?thesis using valid assms(6) out
    by (simp add: verdict_of_def verdict_outcome_def verdict_passed_def reply_error_def reply_failures_def runs_gate_def Let_def)
qed

text \<open>
  C28. With a longer goal the dry run of an implementer can never pass: the line it writes into
  its summary exceeds the 2,000 code units the output schema allows, so every attempt is
  recorded as \<open>schema_invalid\<close> until the node has none left.
\<close>

theorem dry_implementer_rejected:
  assumes "nd_agent d = Implementer" "1985 < length (rs_goal run)" "is_dry opts run"
  shows "\<not> agent_output_valid Implementer (dry_output d run) \<and>
    verdict_outcome opts run d (verdict_of env opts run d reply) = Schema_invalid"
proof -
  have invalid: "\<not> agent_output_valid Implementer (dry_output d run)"
    using assms(1,2)
    by (simp add: agent_output_valid_def dry_output_def implement_shape_def bounded_strings_def short_text_def)
  then have "fst (validate_reply env opts run d reply) = None"
    using assms(1,3) by (simp add: validate_reply_def raw_output_def parse_and_validate_def)
  then obtain fs where "validate_reply env opts run d reply = (None, fs)" by (metis prod.collapse)
  then show ?thesis using invalid assms(3)
    by (simp add: verdict_of_def verdict_outcome_def verdict_passed_def reply_error_def Let_def)
qed

section \<open>Concrete attempts\<close>

definition example_options :: execute_options where
  "example_options = \<lparr>xo_parent_session_id = js ''owner'', xo_max_waves = None, xo_max_concurrency = None,
     xo_dry = False, xo_shell_gate_cmd = None, xo_shell_gate_timeout_ms = None, xo_shell_gate_cwd = None,
     xo_allow_filesystem_root = False, xo_operation = Op_run\<rparr>"

definition example_env :: worker_env where
  "example_env = \<lparr>we_redact = (\<lambda>s. s), we_file_resolves = (\<lambda>p. True),
     we_artifact_resolves = (\<lambda>p. True), we_windows = False\<rparr>"

definition example_shell_result :: shell_result where
  "example_shell_result = \<lparr>sr_ok = True, sr_exit_code = 0, sr_stdout_tail = [], sr_stderr_tail = [],
     sr_timed_out = False, sr_cancelled = False, sr_termination_failed = False, sr_cwd = js ''/srv''\<rparr>"

definition example_reply :: node_reply where
  "example_reply = \<lparr>nr_worker = \<lparr>wr_session_id = js ''child'', wr_text = [],
       wr_parsed = Some (Some example_explore_output), wr_error = None, wr_response_diagnostic = None\<rparr>,
     nr_shell = example_shell_result, nr_zod_issues = []\<rparr>"

definition example_explorer :: node_def where "example_explorer = gd_nodes example_graph ! 0"

lemma example_explorer_fields:
  "nd_agent example_explorer = Explorer" "nd_id example_explorer = js ''explore''"
  "nd_depends_on example_explorer = []" "nd_loop example_explorer = Some \<lparr>nl_max_attempts = 3, nl_gate = Gate_schema\<rparr>"
  "example_explorer \<in> set (gd_nodes example_graph)" "max_attempts example_explorer = 3"
  "\<not> requires_shell example_explorer"
  by (simp_all add: example_explorer_def example_graph_def example_node_def max_attempts_def
      requires_shell_def shell_gated_def node_gate_def)

definition example_running_state :: node_state where
  "example_running_state = reserved_node 5 (initial_node_state example_explorer)"

definition example_running_run :: run_state where
  "example_running_run = fst (reserve_attempt 5 example_open_run example_explorer)"

lemma example_running_eq:
  "example_running_run =
     (set_node (js ''explore'') example_running_state example_open_run)\<lparr>rs_global_attempts := 1\<rparr>"
proof -
  have lookup: "node_of example_open_run (js ''explore'') = Some (initial_node_state example_explorer)"
    using initial_lookup [of example_open_run example_explorer] graph_ok_ordered [OF example_graph_ok]
    by (simp add: ordered_graph_def example_explorer_fields)
  have cur: "ns_current_attempt (initial_node_state example_explorer) = 0" by (simp add: initial_node_state_def)
  show ?thesis
    by (simp add: example_running_run_def reserve_attempt_def lookup example_explorer_fields cur
        example_running_state_def reserved_node_def)
      (simp add: example_graph_def)
qed

lemma example_running_lookup:
  "node_of example_running_run (js ''explore'') = Some example_running_state"
  "ns_status example_running_state = Running" "rs_graph example_running_run = example_graph"
  "rs_status example_running_run = Run_running" "rs_mode example_running_run = Live"
  "final_attempt example_running_state = Some (new_attempt 1 5)"
  by (simp_all add: example_running_eq node_of_def set_node_def)
    (simp_all add: example_running_state_def reserved_node_def final_attempt_def initial_node_state_def last_opt_def)

lemma example_running_only:
  assumes "node_of example_running_run i = Some st" "ns_status st = Running"
  shows "st = example_running_state"
proof (cases "i = js ''explore''")
  case False
  then have "node_of example_open_run i = Some st" using assms(1) by (simp add: example_running_eq node_of_def set_node_def)
  then have "(i, st) \<in> set (init_node_states example_graph)" using node_of_SomeD by fastforce
  then have "\<exists>d. st = initial_node_state d"
    using init_node_states_map [of example_graph] graph_ok_ordered [OF example_graph_ok]
    by (auto simp: ordered_graph_def)
  then show ?thesis using assms(2) by (auto simp: initial_node_state_def)
qed (use assms(1) example_running_lookup(1) in simp)

lemma example_running_fine: "base_fine example_running_run"
  unfolding example_running_run_def
  by (rule reserve_attempt_fine [OF example_open_run_fine, of _ "initial_node_state example_explorer"])
    (use initial_lookup [of example_open_run example_explorer] graph_ok_ordered [OF example_graph_ok]
     in \<open>simp_all add: ordered_graph_def example_explorer_fields initial_node_state_def\<close>)

lemma example_reply_ok: "reply_ok example_options example_running_run example_explorer example_reply"
  using example_output_valid example_running_lookup(5)
  by (simp add: reply_ok_def raw_output_def is_dry_def example_options_def example_explorer_fields example_reply_def
      decodes_def truthy_def)

theorem settlement_accepted_witness:
  "run_issues (\<lambda>s. s) (settle_node example_env example_options example_running_run example_explorer example_reply 6) = []"
proof -
  have fine: "run_fine example_running_run"
    using base_fine_run_fine [OF example_running_fine] example_running_lookup(4) by simp
  have 1: "run_body_shape example_running_run" "run_issues (\<lambda>s. s) example_running_run = []"
    "hydrated_run example_running_run"
    using run_fine_body_shape [OF fine] run_fine_issues [OF fine] fine by (simp_all add: run_fine_def)
  have 2: "example_explorer \<in> set (gd_nodes (rs_graph example_running_run))"
    "node_of example_running_run (nd_id example_explorer) = Some example_running_state"
    "deps_done example_running_run example_explorer"
    by (simp_all add: example_running_lookup example_explorer_fields deps_done_def)
  have "a = new_attempt 1 5" if "final_attempt example_running_state = Some a" for a
    using that example_running_lookup(6) by simp
  then have 3: "na_started_at a \<le> 6" if "final_attempt example_running_state = Some a" for a
    using that by (simp add: new_attempt_def)
  have "xo_dry example_options \<longrightarrow> rs_mode example_running_run = Dry" by (simp add: example_options_def)
  from settlement_accepted [OF 1 example_running_lookup(4) 2(1,2) example_running_lookup(2) 2(3) example_reply_ok this 3]
  show ?thesis by blast
qed

theorem outcome_classified_witness:
  "vd_output (verdict_of example_env example_options example_running_run example_explorer example_reply) \<noteq> None"
proof -
  have gates: "gates_ok example_explorer"
    using graph_ok_wf [OF example_graph_ok] example_explorer_fields(5) by (simp add: graph_well_formed_def)
  let ?v = "verdict_of example_env example_options example_running_run example_explorer example_reply"
  have "verdict_outcome example_options example_running_run example_explorer ?v = Passed"
    using example_output_valid example_running_lookup(5)
    by (simp add: verdict_outcome_def verdict_passed_def verdict_of_def validate_reply_def raw_output_def is_dry_def
        example_options_def example_explorer_fields example_reply_def parse_and_validate_def containment_failures_def
        verdict_failures_def reply_error_def reply_failures_def truthy_def runs_gate_def example_explore_output_def
        shell_gated_def node_gate_def Let_def)
  then show ?thesis using outcome_classified [OF gates example_reply_ok, of ?v example_env] by force
qed

definition example_dry_options :: execute_options where
  "example_dry_options = example_options\<lparr>xo_dry := True\<rparr>"

theorem dry_output_valid_witness:
  "agent_output_valid Explorer (dry_output example_explorer example_open_run)"
proof -
  have 1: "long_text (rs_goal example_open_run)" "bounded_strings (rs_criteria example_open_run)"
    using example_texts by (simp_all add: long_text_def exact_string_def bounded_strings_def short_text_def)
  have 2: "is_dry example_dry_options example_open_run" by (simp add: is_dry_def example_dry_options_def)
  from dry_output_valid [OF 1 _ _ _ 2, of example_explorer] show ?thesis by (simp add: example_explorer_fields)
qed

theorem dry_implementer_rejected_witness:
  "verdict_outcome example_dry_options (example_open_run\<lparr>rs_goal := replicate 1986 0x61\<rparr>) (gd_nodes example_graph ! 1)
     (verdict_of example_env example_dry_options (example_open_run\<lparr>rs_goal := replicate 1986 0x61\<rparr>)
        (gd_nodes example_graph ! 1) example_reply) = Schema_invalid"
proof -
  have 1: "nd_agent (gd_nodes example_graph ! 1) = Implementer" by (simp add: example_graph_def example_node_def)
  have 2: "1985 < length (rs_goal (example_open_run\<lparr>rs_goal := replicate 1986 0x61\<rparr>))" by simp
  have 3: "is_dry example_dry_options (example_open_run\<lparr>rs_goal := replicate 1986 0x61\<rparr>)"
    by (simp add: is_dry_def example_dry_options_def)
  from dry_implementer_rejected [OF 1 2 3] show ?thesis by blast
qed

end
