(* ===== verification/Resume.thy ===== *)
theory Resume
  imports Scheduling
begin

text \<open>
  Resuming and closing a run: \<open>prepareRunForResume\<close> and \<open>closeRun\<close> of \<open>src/executor.ts\<close>. Both walk the
  nodes in graph order and change each one on its own, so one lookup rule for such a walk serves
  both. Resuming always leaves a run the schema accepts; closing does so exactly when no node that
  feedback reopened is left without a failed or skipped dependency.
\<close>

section \<open>Walking the nodes\<close>

definition walks :: "(run_state \<times> bool \<Rightarrow> node_def \<Rightarrow> run_state \<times> bool) \<Rightarrow>
    (node_def \<Rightarrow> node_state \<Rightarrow> node_state) \<Rightarrow> (node_def \<Rightarrow> node_state \<Rightarrow> bool) \<Rightarrow> bool" where
  "walks step f p \<longleftrightarrow>
     (\<forall>run b d. step (run, b) d =
        (case node_of run (nd_id d) of
           None \<Rightarrow> (run, b)
         | Some st \<Rightarrow> (set_node (nd_id d) (f d st) run, b \<or> p d st)))"

lemma walk_frame:
  assumes "walks step f p"
  shows "same_but_nodes run (fst (foldl step (run, b) ds)) \<and>
    map fst (rs_nodes (fst (foldl step (run, b) ds))) = map fst (rs_nodes run)"
proof (induction ds arbitrary: run b)
  case (Cons d ds)
  show ?case
  proof (cases "node_of run (nd_id d)")
    case None
    then show ?thesis using Cons.IH [of run b] assms by (simp add: walks_def)
  next
    case (Some st)
    let ?run = "set_node (nd_id d) (f d st) run"
    have "same_but_nodes run ?run" "map fst (rs_nodes ?run) = map fst (rs_nodes run)"
      using Some by (simp_all add: keys_set_node)
    then show ?thesis
      using Cons.IH [of ?run "b \<or> p d st"] same_but_nodes_trans [of run ?run] assms Some by (simp add: walks_def)
  qed
qed simp

lemma walk_other:
  assumes "walks step f p" "i \<notin> nd_id ` set ds"
  shows "node_of (fst (foldl step (run, b) ds)) i = node_of run i"
  using assms(2)
proof (induction ds arbitrary: run b)
  case (Cons d ds)
  then show ?case using assms(1) by (cases "node_of run (nd_id d)") (simp_all add: walks_def)
qed simp

lemma walk_lookup:
  assumes "walks step f p" "distinct (map nd_id ds)" "d \<in> set ds"
  shows "node_of (fst (foldl step (run, b) ds)) (nd_id d) = map_option (f d) (node_of run (nd_id d))"
  using assms(2,3)
proof (induction ds arbitrary: run b)
  case (Cons e ds)
  obtain run' b' where step: "step (run, b) e = (run', b')" by fastforce
  have run': "node_of run' i = (if i = nd_id e then map_option (f e) (node_of run i) else node_of run i)" for i
    using step assms(1) by (cases "node_of run (nd_id e)") (auto simp: walks_def)
  show ?case
  proof (cases "d = e")
    case True
    then have "nd_id d \<notin> nd_id ` set ds" using Cons.prems(1) by simp
    then show ?thesis using walk_other [OF assms(1), of "nd_id d" ds run' b'] run' True step by simp
  next
    case False
    then have "d \<in> set ds" "nd_id d \<noteq> nd_id e" using Cons.prems by (auto simp: image_iff)
    then show ?thesis using Cons.IH [of run' b'] Cons.prems(1) run' step by simp
  qed
qed simp

lemma walk_flag:
  assumes "walks step f p" "distinct (map nd_id ds)"
  shows "snd (foldl step (run, b) ds) \<longleftrightarrow>
    b \<or> (\<exists>d \<in> set ds. \<exists>st. node_of run (nd_id d) = Some st \<and> p d st)"
  using assms(2)
proof (induction ds arbitrary: run b)
  case (Cons e ds)
  obtain run' b' where step: "step (run, b) e = (run', b')" by fastforce
  have b': "b' \<longleftrightarrow> b \<or> (\<exists>st. node_of run (nd_id e) = Some st \<and> p e st)"
    using step assms(1) by (cases "node_of run (nd_id e)") (auto simp: walks_def)
  have "node_of run' (nd_id d) = node_of run (nd_id d)" if "d \<in> set ds" for d
  proof -
    have "nd_id d \<noteq> nd_id e" using that Cons.prems by (auto simp: image_iff)
    then show ?thesis using step assms(1) by (cases "node_of run (nd_id e)") (auto simp: walks_def)
  qed
  then have "(\<exists>d \<in> set ds. \<exists>st. node_of run' (nd_id d) = Some st \<and> p d st) \<longleftrightarrow>
      (\<exists>d \<in> set ds. \<exists>st. node_of run (nd_id d) = Some st \<and> p d st)" by auto
  then show ?case using Cons.IH [of run' b'] Cons.prems step b' by auto
qed simp

lemma resume_walks: "walks (resume_step redact now) (\<lambda>d st. fst (resume_node redact now d st))
    (\<lambda>d st. snd (resume_node redact now d st))"
  by (auto simp: walks_def resume_step_def case_prod_unfold Let_def split: option.split)

lemma close_walks: "walks (close_step note_texts) (\<lambda>d. close_node note_texts) (\<lambda>d. close_fails)"
  by (auto simp: walks_def close_step_def split: option.split)

section \<open>Resuming\<close>

lemma interruption_short: "short_text interruption"
proof -
  have "\<not> js_space (hd interruption)" "\<not> js_space (last interruption)" "length interruption \<le> 2000" "interruption \<noteq> []"
    unfolding interruption_def by code_simp+
  then show ?thesis by (intro short_text_framed)
qed

lemma running_attempt_outcome:
  assumes "attempt_fine run_id mode d n a" "na_status a = Running"
  shows "na_outcome a = None"
  using assms by (auto simp: attempt_fine_def attempt_issues_def attempt_outcome_issues_def Let_def)

lemma interrupt_attempt_fine:
  assumes "attempt_fine run_id mode d n a" "na_status a = Running" "na_started_at a \<le> now"
  shows "attempt_fine run_id mode d n (interrupt_attempt redact now a) \<and>
    na_status (interrupt_attempt redact now a) = Failed \<and> na_output (interrupt_attempt redact now a) = None"
proof -
  let ?a = "interrupt_attempt redact now a" and ?ctx = "node_context run_id mode d n"
  note a = running_attempt_clean [OF assms(1,2)]
  have detail: "is_attempt_detail ?a" using a(1) by (simp add: interrupt_attempt_def is_attempt_detail_def)
  have f: "na_status ?a = Failed" "na_finished_at ?a = Some now" "na_started_at ?a = na_started_at a"
    "na_failures ?a \<noteq> []" "na_schema_ok ?a = Some False" "na_outcome ?a = None"
    "na_output ?a = None" "na_score ?a = None" "na_attempt ?a = n"
    using a assms(2) running_attempt_outcome [OF assms(1,2)] by (simp_all add: interrupt_attempt_def)
  have refs: "na_output_ref ?a = None" "\<not> has_output ?a"
    using detail f(7) by (simp_all add: is_attempt_detail_def has_output_def)
  have "attempt_shape ?a" using a(2) assms(2) by (simp add: attempt_shape_def interrupt_attempt_def)
  moreover have "attempt_identity_issues ?ctx ?a = []"
    using a(3-5) detail f by (intro identity_issues_Nil) simp_all
  moreover have "attempt_output_issues ?ctx ?a = []" "attempt_status_issues ?ctx ?a = []"
    "attempt_outcome_issues ?ctx ?a = []" "attempt_checker_issues ?ctx ?a = []"
    "attempt_implementer_issues ?ctx ?a = []" "attempt_score_issues ?ctx ?a = []"
    using assms(3) by (simp_all add: attempt_output_issues_def attempt_status_issues_def attempt_outcome_issues_def
        attempt_checker_issues_def attempt_implementer_issues_def attempt_score_issues_def artifact_of_run_def
        Let_def f refs)
  ultimately show ?thesis using detail f by (simp add: attempt_fine_def attempt_issues_def)
qed

lemma resume_node_fields:
  "ns_current_attempt (fst (resume_node redact now d st)) = ns_current_attempt st"
  "ns_status (fst (resume_node redact now d st)) =
     (case ns_status st of
        Running \<Rightarrow> if has_attempts_left d st then Pending else Failed
      | Failed \<Rightarrow> if has_attempts_left d st then Pending else Failed
      | Skipped \<Rightarrow> Pending | s \<Rightarrow> s)"
  "ns_status st \<noteq> Running \<Longrightarrow> ns_attempts (fst (resume_node redact now d st)) = ns_attempts st"
  "snd (resume_node redact now d st) \<longleftrightarrow> ns_status st = Skipped \<or>
     (ns_status st = Running \<or> ns_status st = Failed) \<and> has_attempts_left d st"
  by (auto simp: resume_node_def split: node_status.split)

lemma resume_node_unchanged:
  "ns_status st \<noteq> Running \<Longrightarrow> \<not> snd (resume_node redact now d st) \<Longrightarrow> fst (resume_node redact now d st) = st"
  by (auto simp: resume_node_def split: node_status.splits if_splits)

lemma reorder_update:
  "st\<lparr>ns_attempts := a, ns_last_failures := fs, ns_status := s\<rparr> =
   st\<lparr>ns_status := s, ns_last_failures := fs, ns_attempts := a\<rparr>"
  by (cases st) simp

lemma resume_node_fine:
  assumes "node_fine run_id mode d st"
    and "\<And>a. ns_status st = Running \<Longrightarrow> final_attempt st = Some a \<Longrightarrow> na_started_at a \<le> now"
  shows "node_fine run_id mode d (fst (resume_node redact now d st))"
proof (cases "ns_status st = Running")
  case True
  have "node_fine run_id mode d (st\<lparr>ns_status := (if has_attempts_left d st then Pending else Failed),
      ns_last_failures := [interruption], ns_attempts := update_last (interrupt_attempt redact now) (ns_attempts st)\<rparr>)"
  proof (rule failed_running_node_fine [OF assms(1) True])
    fix as a assume a: "ns_attempts st = as @ [a]" "na_status a = Running"
      "attempt_fine run_id mode d (Suc (length as)) a"
    have "na_started_at a \<le> now" using assms(2) True a(1) by (simp add: final_attempt_def)
    then show "attempt_fine run_id mode d (Suc (length as)) (interrupt_attempt redact now a) \<and>
        na_status (interrupt_attempt redact now a) = Failed \<and> na_output (interrupt_attempt redact now a) = None"
      by (rule interrupt_attempt_fine [OF a(3,2)])
  qed (use bounded_strings_single [OF interruption_short] in auto)
  then show ?thesis using True by (simp add: resume_node_def reorder_update)
next
  case False
  then show ?thesis using assms(1) pending_node_fine [OF assms(1) False]
    by (auto simp: resume_node_def split: node_status.split)
qed

lemma resume_node_final:
  assumes "node_fine run_id mode d st"
  shows "final_status (fst (resume_node redact now d st)) = Some Done \<longleftrightarrow> final_status st = Some Done"
proof (cases "ns_status st = Running")
  case True
  obtain as a where a: "ns_attempts st = as @ [a]" "na_status a = Running"
    using running_node_attempt [OF assms True] by metis
  then show ?thesis using True by (simp add: resume_node_def final_status_simps interrupt_attempt_def)
next
  case False
  then show ?thesis using resume_node_fields(3) [OF False] by (simp add: final_status_simps)
qed

section \<open>Resuming keeps the run acceptable\<close>

definition resumed :: "(jstr \<Rightarrow> jstr) \<Rightarrow> nat \<Rightarrow> run_state \<Rightarrow> run_state" where
  "resumed redact now run = fst (foldl (resume_step redact now) (run, False) (gd_nodes (rs_graph run)))"

definition reopens :: "run_state \<Rightarrow> bool" where
  "reopens run \<longleftrightarrow> (\<exists>d \<in> set (gd_nodes (rs_graph run)). \<exists>st. node_of run (nd_id d) = Some st \<and>
     (ns_status st = Skipped \<or> (ns_status st = Running \<or> ns_status st = Failed) \<and> has_attempts_left d st))"

lemma prepare_resumed:
  assumes "distinct (map nd_id (gd_nodes (rs_graph run)))"
  shows "prepare_run_for_resume redact now run =
    (if reopens run then (resumed redact now run)\<lparr>rs_status := Run_blocked, rs_phase := js ''blocked''\<rparr>
     else resumed redact now run)"
  using walk_flag [OF resume_walks assms, of redact now run False] resume_node_fields(4) [of redact now]
  by (auto simp: prepare_run_for_resume_def resumed_def reopens_def case_prod_unfold Let_def)

lemma resumed_lookup:
  assumes "distinct (map nd_id (gd_nodes (rs_graph run)))" "d \<in> set (gd_nodes (rs_graph run))"
  shows "node_of (resumed redact now run) (nd_id d) =
    map_option (\<lambda>st. fst (resume_node redact now d st)) (node_of run (nd_id d))"
  unfolding resumed_def by (rule walk_lookup [OF resume_walks assms])

lemma resumed_frame:
  "same_but_nodes run (resumed redact now run)" "map fst (rs_nodes (resumed redact now run)) = map fst (rs_nodes run)"
  using walk_frame [OF resume_walks, of run redact now False "gd_nodes (rs_graph run)"]
  unfolding resumed_def by blast+

lemma frame_missing:
  assumes "map fst (rs_nodes run') = map fst (rs_nodes run)" "node_of run i = None"
  shows "node_of run' i = None"
  using assms unfolding node_of_def map_of_eq_None_iff by (metis list.set_map)

lemma resumed_node:
  assumes "table_fine run" "node_of (resumed redact now run) i = Some st'"
  obtains d st where "d \<in> set (gd_nodes (rs_graph run))" "nd_id d = i" "node_of run i = Some st"
    "st' = fst (resume_node redact now d st)"
proof -
  note T = table_fineD [OF assms(1)]
  obtain st where st: "node_of run i = Some st"
    using frame_missing [OF resumed_frame(2)] assms(2) by (metis not_None_eq)
  then obtain d where d: "d \<in> set (gd_nodes (rs_graph run))" "nd_id d = i"
    using nodes_match_def_of [OF T(1)] by blast
  show thesis using that [OF d st] resumed_lookup [OF T(4) d(1), of redact now] d(2) st assms(2) by simp
qed

lemma resumed_done:
  assumes "table_fine run"
  shows "node_status_of (resumed redact now run) i = Some Done \<longleftrightarrow> node_status_of run i = Some Done"
proof (cases "node_of (resumed redact now run) i")
  case None
  have "node_of run i = None" by (rule frame_missing [OF resumed_frame(2) [symmetric] None])
  then show ?thesis using None by (simp add: node_status_of_def)
next
  case (Some st')
  then show ?thesis
    by (rule resumed_node [OF assms])
      (auto simp: Some node_status_of_def resume_node_fields split: node_status.split)
qed

lemma resumed_fine:
  assumes "base_fine run" "clock_ok now run"
  shows "base_fine (resumed redact now run)"
proof (rule base_fine_pointwise [OF assms(1) resumed_frame])
  note T = table_fineD [OF base_fine_table [OF assms(1)]]
  note look = resumed_lookup [OF T(4), of _ redact now]
  show "map_option ns_current_attempt (node_of (resumed redact now run) i) =
      map_option ns_current_attempt (node_of run i)" for i
  proof (cases "node_of (resumed redact now run) i")
    case None
    then show ?thesis using frame_missing [OF resumed_frame(2) [symmetric] None] by simp
  next
    case (Some st')
    then show ?thesis
      by (rule resumed_node [OF base_fine_table [OF assms(1)]]) (simp add: Some resume_node_fields)
  qed
  show "node_fine (rs_run_id run) (rs_mode run) d st'"
    if d: "d \<in> set (gd_nodes (rs_graph run))" and st': "node_of (resumed redact now run) (nd_id d) = Some st'" for d st'
  proof -
    obtain st where st: "node_of run (nd_id d) = Some st" "st' = fst (resume_node redact now d st)"
      using resumed_node [OF base_fine_table [OF assms(1)] st'] distinct_index_unique [OF T(4) _ d] by metis
    show ?thesis unfolding st(2)
      by (rule resume_node_fine [OF T(5) [OF d st(1)]]) (use assms(2) st(1) in \<open>auto simp: clock_ok_def\<close>)
  qed
  show "edge_fine (resumed redact now run) d" if d: "d \<in> set (gd_nodes (rs_graph run))" for d
  proof -
    have "node_status_of (resumed redact now run) (nd_id d) \<noteq> Some Skipped"
      using look [OF d] by (auto simp: node_status_of_def resume_node_fields split: node_status.splits if_splits)
    then show ?thesis using T(6) [OF d] resumed_done [OF base_fine_table [OF assms(1)]]
      by (simp add: edge_fine_def deps_done_def)
  qed
qed

lemma resumed_idle:
  assumes "base_fine run"
  shows "no_running (resumed redact now run)"
    "node_status_of (resumed redact now run) i \<noteq> Some Skipped"
    "node_status_of (resumed redact now run) i \<noteq> Some Running"
proof -
  have s: "ns_status st \<noteq> Skipped \<and> ns_status st \<noteq> Running"
    if "node_of (resumed redact now run) i = Some st" for i st
    using that by (rule resumed_node [OF base_fine_table [OF assms]])
      (auto simp: resume_node_fields split: node_status.split)
  then show "no_running (resumed redact now run)" by (auto simp: no_running_def)
  show "node_status_of (resumed redact now run) i \<noteq> Some Skipped"
    "node_status_of (resumed redact now run) i \<noteq> Some Running"
    using s by (auto simp: node_status_of_def)
qed

lemma resumed_open:
  assumes "base_fine run" "reopen_ok run"
  shows "reopen_ok (resumed redact now run)"
proof -
  note T = table_fineD [OF base_fine_table [OF assms(1)]]
  have g: "rs_graph (resumed redact now run) = rs_graph run"
    using resumed_frame(1) same_but_nodes_graph by blast
  have "reopen_fine d st'"
    if d: "d \<in> set (gd_nodes (rs_graph run))" and st': "node_of (resumed redact now run) (nd_id d) = Some st'" for d st'
  proof -
    obtain st where st: "node_of run (nd_id d) = Some st" "st' = fst (resume_node redact now d st)"
      using resumed_node [OF base_fine_table [OF assms(1)] st'] distinct_index_unique [OF T(4) _ d] by metis
    have "ns_status st = Failed \<Longrightarrow> final_status st \<noteq> Some Done"
      "ns_status st = Running \<Longrightarrow> final_status st \<noteq> Some Done"
      using T(5) [OF d st(1)] unfolding node_fine_def by auto
    then show ?thesis
      using reopen_okD [OF assms(2) d st(1)] resume_node_final [OF T(5) [OF d st(1)]]
      by (auto simp: reopen_fine_def st(2) resume_node_fields split: node_status.splits)
  qed
  then show ?thesis by (simp add: reopen_ok_def g)
qed

text \<open>A run whose status is closed is left as it is, unless a node is reopened.\<close>

lemma not_reopened_node:
  assumes "\<not> reopens run" "\<And>i st. node_of run i = Some st \<Longrightarrow> ns_status st \<noteq> Running" "table_fine run"
  shows "node_of (resumed redact now run) i = node_of run i"
proof (cases "node_of (resumed redact now run) i")
  case None
  then show ?thesis using frame_missing [OF resumed_frame(2) [symmetric] None] by simp
next
  case (Some st')
  then show ?thesis
  proof (rule resumed_node [OF assms(3)])
    fix d st assume d: "d \<in> set (gd_nodes (rs_graph run))" "nd_id d = i" "node_of run i = Some st"
      "st' = fst (resume_node redact now d st)"
    have "\<not> snd (resume_node redact now d st)"
      using assms(1) d(1-3) unfolding reopens_def resume_node_fields(4) by blast
    then show ?thesis using resume_node_unchanged [OF assms(2) [OF d(3)]] d(3,4) Some by metis
  qed
qed

lemma closed_not_running:
  assumes "run_fine run" "rs_status run \<noteq> Run_running" "rs_status run \<noteq> Run_blocked" "node_of run i = Some st"
  shows "ns_status st \<noteq> Running"
proof -
  have table: "table_fine run" and issues: "run_status_issues run = []" using assms(1) by (simp_all add: run_fine_def)
  have val: "st \<in> set (node_values run)" using node_of_SomeD [OF assms(4)] by (force simp: node_values_def)
  obtain d where d: "d \<in> set (gd_nodes (rs_graph run))" "nd_id d = i"
    using nodes_match_def_of [OF table_fineD(1) [OF table] assms(4)] by blast
  consider "rs_status run = Run_done" | "rs_status run = Run_failed" | "rs_status run = Run_planning"
    using assms(2,3) by (cases "rs_status run") auto
  then show ?thesis
  proof cases
    case 1
    then show ?thesis using issues d assms(4) by (auto simp: run_status_issues_def list_ex_iff node_status_of_def)
  next
    case 2
    then have "terminal (ns_status st)" using issues val by (auto simp: run_status_issues_def all_terminal_def list_all_iff)
    then show ?thesis by auto
  next
    case 3
    then have "ns_status st = Pending" using issues val by (auto simp: run_status_issues_def list_ex_iff)
    then show ?thesis by simp
  qed
qed

lemma map_of_nth_eq:
  "distinct (map fst al) \<Longrightarrow> k < length al \<Longrightarrow> map_of al (fst (al ! k)) = Some (snd (al ! k))"
  by (metis map_of_eq_Some_iff nth_mem prod.collapse)

lemma alist_determined:
  assumes "map fst al' = map fst al" "distinct (map fst al)" "map_of al' = map_of al"
  shows "al' = al"
proof -
  have "al = map (\<lambda>k. (k, the (map_of al k))) (map fst al)" if "distinct (map fst al)" for al :: "('a \<times> 'b) list"
    using that by (intro nth_equalityI) (simp_all add: map_of_nth_eq)
  then show ?thesis using assms by metis
qed

lemma run_status_issues_cong:
  assumes "same_but_nodes run run'" "map fst (rs_nodes run') = map fst (rs_nodes run)" "table_fine run"
    and "\<And>i. node_of run' i = node_of run i"
  shows "run_status_issues run' = run_status_issues run"
proof -
  have keys: "distinct (map fst (rs_nodes run))" using table_fineD(1) [OF assms(3)] by (simp add: nodes_match_def)
  have "map_of (rs_nodes run') = map_of (rs_nodes run)" using assms(4) by (auto simp: node_of_def fun_eq_iff)
  then have "rs_nodes run' = rs_nodes run" using assms(2) keys by (intro alist_determined)
  then have "node_values run' = node_values run" "node_status_of run' = node_status_of run"
    by (simp_all add: node_values_def node_status_of_def node_of_def fun_eq_iff)
  moreover have "rs_graph run' = rs_graph run" "rs_status run' = rs_status run"
    "rs_global_attempts run' = rs_global_attempts run"
    using same_but_nodes_fields [OF assms(1)] by simp_all
  ultimately show ?thesis by (simp add: run_status_issues_def any_failed_def all_terminal_def)
qed

lemma prepare_fine:
  assumes "run_fine run" "clock_ok now run"
  shows "run_fine (prepare_run_for_resume redact now run)"
proof -
  have base: "base_fine run" using assms(1) by (simp add: run_fine_base)
  note T = table_fineD [OF base_fine_table [OF base]]
  note fine = resumed_fine [OF base assms(2), of redact]
  show ?thesis
  proof (cases "reopens run")
    case True
    have "base_fine ((resumed redact now run)\<lparr>rs_status := Run_blocked, rs_phase := js ''blocked''\<rparr>)"
      by (rule base_fine_set_status [OF fine]) (simp add: sized_def)
    then have "run_fine ((resumed redact now run)\<lparr>rs_status := Run_blocked, rs_phase := js ''blocked''\<rparr>)"
      by (rule base_fine_run_fine) simp
    then show ?thesis using True by (simp add: prepare_resumed [OF T(4)])
  next
    case False
    have st: "rs_status (resumed redact now run) = rs_status run"
      using same_but_nodes_fields [OF resumed_frame(1)] by simp
    have "run_status_issues (resumed redact now run) = []"
    proof (cases "rs_status run = Run_running \<or> rs_status run = Run_blocked")
      case True
      then show ?thesis using st by (intro open_status_issues) simp
    next
      case closed: False
      have "node_of (resumed redact now run) i = node_of run i" for i
        by (rule not_reopened_node [OF False closed_not_running [OF assms(1)] base_fine_table [OF base]])
          (use closed in auto)
      then have "run_status_issues (resumed redact now run) = run_status_issues run"
        by (rule run_status_issues_cong [OF resumed_frame base_fine_table [OF base]])
      then show ?thesis using assms(1) by (simp add: run_fine_base)
    qed
    then show ?thesis using False fine by (simp add: prepare_resumed [OF T(4)] run_fine_base)
  qed
qed

lemma prepare_frame:
  assumes "distinct (map nd_id (gd_nodes (rs_graph run)))"
  shows "node_of (prepare_run_for_resume redact now run) = node_of (resumed redact now run)"
    "rs_graph (prepare_run_for_resume redact now run) = rs_graph run"
    "node_values (prepare_run_for_resume redact now run) = node_values (resumed redact now run)"
    "map fst (rs_nodes (prepare_run_for_resume redact now run)) = map fst (rs_nodes run)"
proof -
  have g: "rs_graph (resumed redact now run) = rs_graph run"
    using resumed_frame(1) same_but_nodes_graph by blast
  show "node_of (prepare_run_for_resume redact now run) = node_of (resumed redact now run)"
    "rs_graph (prepare_run_for_resume redact now run) = rs_graph run"
    "node_values (prepare_run_for_resume redact now run) = node_values (resumed redact now run)"
    "map fst (rs_nodes (prepare_run_for_resume redact now run)) = map fst (rs_nodes run)"
    using resumed_frame(2) [of redact now run] g
    by (auto simp: prepare_resumed [OF assms] node_of_def node_values_def fun_eq_iff)
qed

lemma run_fine_hydrated: "run_fine run \<Longrightarrow> hydrated_run run"
  by (simp add: run_fine_def)

lemmas run_fine_checks = run_fine_body_shape run_fine_issues run_fine_hydrated



section \<open>Closing\<close>

definition close_notes :: "(jstr \<Rightarrow> jstr) \<Rightarrow> jstr \<Rightarrow> jstr list" where
  "close_notes redact reason =
     bound_diagnostic_list redact [] [safe_diagnostic_text redact (js ''Run closed by its owner: '' @ reason)]"

definition closed_nodes :: "(jstr \<Rightarrow> jstr) \<Rightarrow> nat \<Rightarrow> jstr \<Rightarrow> run_state \<Rightarrow> run_state" where
  "closed_nodes redact now reason run =
     (let prepared = prepare_run_for_resume redact now run
      in fst (foldl (close_step (close_notes redact reason)) (prepared, any_failed prepared) (gd_nodes (rs_graph prepared))))"

lemma close_run_Inr:
  assumes "close_run redact now reason run = Inr r"
  shows "r = (let ended = (closed_nodes redact now reason run)\<lparr>rs_status := Run_failed, rs_phase := js ''failed''\<rparr>
              in ended\<lparr>rs_summary := Some (summarize ended)\<rparr>)"
    "rs_status run \<noteq> Run_done" "rs_status run \<noteq> Run_failed"
    "let prepared = prepare_run_for_resume redact now run
     in snd (foldl (close_step (close_notes redact reason)) (prepared, any_failed prepared) (gd_nodes (rs_graph prepared)))"
  using assms unfolding close_run_def closed_nodes_def close_notes_def [symmetric]
  by (auto simp: Let_def case_prod_unfold split: if_splits)

lemma close_node_fields:
  "ns_current_attempt (close_node ns st) = ns_current_attempt st"
  "ns_attempts (close_node ns st) = ns_attempts st"
  "ns_status (close_node ns st) =
     (if terminal (ns_status st) then ns_status st else if final_status st = Some Done then Skipped else Failed)"
  by (simp_all add: close_node_def)

lemma close_node_fine:
  assumes "node_fine run_id mode d st" "ns_status st \<noteq> Running"
  shows "node_fine run_id mode d (close_node (close_notes redact reason) st)"
proof (cases "terminal (ns_status st)")
  case False
  have "node_fine run_id mode d (st\<lparr>ns_status := (if final_status st = Some Done then Skipped else Failed),
      ns_last_failures := close_notes redact reason\<rparr>)"
    by (rule restatus_node_fine [OF assms]) (auto simp: close_notes_def)
  then show ?thesis using False by (simp add: close_node_def)
qed (use assms in \<open>simp add: close_node_def\<close>)

text \<open>What closing leaves, node by node, and when the result is acceptable.\<close>

definition skips_explained :: "run_state \<Rightarrow> bool" where
  "skips_explained run \<longleftrightarrow>
     list_all (\<lambda>d. node_status_of run (nd_id d) = Some Skipped \<longrightarrow> list_ex (blocked_by run) (nd_depends_on d))
       (gd_nodes (rs_graph run))"

lemma closed_lookup:
  assumes "run_fine run" "clock_ok now run" "d \<in> set (gd_nodes (rs_graph run))" "node_of run (nd_id d) = Some st"
  shows "node_of (closed_nodes redact now reason run) (nd_id d) =
    Some (close_node (close_notes redact reason) (fst (resume_node redact now d st)))"
proof -
  have T: "distinct (map nd_id (gd_nodes (rs_graph run)))" using assms(1) by (simp add: run_fine_def table_fineD)
  note P = prepare_frame [OF T, of redact now]
  have d: "distinct (map nd_id (gd_nodes (rs_graph (prepare_run_for_resume redact now run))))"
    "d \<in> set (gd_nodes (rs_graph (prepare_run_for_resume redact now run)))"
    using T assms(3) by (simp_all add: P)
  show ?thesis
    unfolding closed_nodes_def Let_def
    by (subst walk_lookup [OF close_walks d]) (simp add: P resumed_lookup [OF T assms(3)] assms(4))
qed

lemma closed_frame:
  assumes "distinct (map nd_id (gd_nodes (rs_graph run)))"
  shows "same_but_nodes (prepare_run_for_resume redact now run) (closed_nodes redact now reason run)"
    "map fst (rs_nodes (closed_nodes redact now reason run)) = map fst (rs_nodes run)"
    "rs_graph (closed_nodes redact now reason run) = rs_graph run"
proof -
  show s: "same_but_nodes (prepare_run_for_resume redact now run) (closed_nodes redact now reason run)"
    and "map fst (rs_nodes (closed_nodes redact now reason run)) = map fst (rs_nodes run)"
    using walk_frame [OF close_walks, of "prepare_run_for_resume redact now run"] prepare_frame(4) [OF assms]
    unfolding closed_nodes_def Let_def by metis+
  then show "rs_graph (closed_nodes redact now reason run) = rs_graph run"
    using prepare_frame(2) [OF assms] same_but_nodes_graph by metis
qed

lemma closed_node:
  assumes "run_fine run" "clock_ok now run" "node_of (closed_nodes redact now reason run) i = Some st'"
  obtains d st where "d \<in> set (gd_nodes (rs_graph run))" "nd_id d = i" "node_of run i = Some st"
    "st' = close_node (close_notes redact reason) (fst (resume_node redact now d st))"
proof -
  have table: "table_fine run" using assms(1) by (simp add: run_fine_def)
  note T = table_fineD [OF table]
  obtain st where st: "node_of run i = Some st"
    using frame_missing [OF closed_frame(2) [OF T(4)]] assms(3) by (metis not_None_eq)
  then obtain d where d: "d \<in> set (gd_nodes (rs_graph run))" "nd_id d = i" using nodes_match_def_of [OF T(1)] by blast
  show thesis using that [OF d st] closed_lookup [OF assms(1,2) d(1), of st redact reason] d(2) st assms(3) by simp
qed

lemma closed_status:
  assumes "run_fine run" "clock_ok now run"
  shows "node_status_of (closed_nodes redact now reason run) i = Some Done \<longleftrightarrow> node_status_of run i = Some Done"
    "node_of (closed_nodes redact now reason run) i = Some st' \<Longrightarrow> terminal (ns_status st')"
proof -
  show "terminal (ns_status st')" if "node_of (closed_nodes redact now reason run) i = Some st'"
    by (rule closed_node [OF assms that]) (simp add: close_node_fields)
  have table: "table_fine run" using assms(1) by (simp add: run_fine_def)
  show "node_status_of (closed_nodes redact now reason run) i = Some Done \<longleftrightarrow> node_status_of run i = Some Done"
  proof (cases "node_of (closed_nodes redact now reason run) i")
    case None
    have "node_of run i = None"
      by (rule frame_missing [OF closed_frame(2) [OF table_fineD(4) [OF table], symmetric] None])
    then show ?thesis using None by (simp add: node_status_of_def)
  next
    case (Some st')
    show ?thesis
      by (rule closed_node [OF assms Some])
        (auto simp: Some node_status_of_def close_node_fields resume_node_fields split: node_status.split)
  qed
qed

lemma closed_fine:
  assumes "run_fine run" "clock_ok now run"
  shows "base_fine (closed_nodes redact now reason run) \<longleftrightarrow> skips_explained (closed_nodes redact now reason run)"
proof
  let ?p = "prepare_run_for_resume redact now run" and ?c = "closed_nodes redact now reason run"
  have table: "table_fine run" using assms(1) by (simp add: run_fine_def)
  note T = table_fineD [OF table]
  note F = closed_frame [OF T(4), of redact now reason] and P = prepare_frame [OF T(4), of redact now]
  have p: "base_fine ?p" using prepare_fine [OF assms] by (simp add: run_fine_base)
  note TP = table_fineD [OF base_fine_table [OF p]]
  show "skips_explained ?c" if "base_fine ?c"
    using table_fineD(6) [OF base_fine_table [OF that]] by (auto simp: skips_explained_def edge_fine_def list_all_iff)
  show "base_fine ?c" if ex: "skips_explained ?c"
  proof (rule base_fine_pointwise [OF p F(1)])
    show "map fst (rs_nodes ?c) = map fst (rs_nodes ?p)" using F(2) P(4) by simp
    show "map_option ns_current_attempt (node_of ?c i) = map_option ns_current_attempt (node_of ?p i)" for i
    proof (cases "node_of ?c i")
      case None
      have "map fst (rs_nodes ?p) = map fst (rs_nodes ?c)" using F(2) P(4) by simp
      then show ?thesis using frame_missing [OF _ None, of ?p] None by simp
    next
      case (Some st')
      show ?thesis
        by (rule closed_node [OF assms Some])
          (auto simp: Some close_node_fields P resumed_lookup [OF T(4)])
    qed
    show "node_fine (rs_run_id ?p) (rs_mode ?p) d st'"
      if d: "d \<in> set (gd_nodes (rs_graph ?p))" and st': "node_of ?c (nd_id d) = Some st'" for d st'
    proof (rule closed_node [OF assms st'])
      fix e st assume e: "e \<in> set (gd_nodes (rs_graph run))" "nd_id e = nd_id d" "node_of run (nd_id d) = Some st"
        "st' = close_node (close_notes redact reason) (fst (resume_node redact now e st))"
      have ed: "e = d" using distinct_index_unique [OF T(4) e(1) _ e(2)] d by (simp add: P)
      have look: "node_of ?p (nd_id d) = Some (fst (resume_node redact now d st))"
        using resumed_lookup [OF T(4) e(1), of redact now] e(3) ed by (simp add: P)
      have "ns_status (fst (resume_node redact now d st)) \<noteq> Running"
        by (auto simp: resume_node_fields split: node_status.split)
      then show ?thesis unfolding e(4) ed using close_node_fine [OF TP(5) [OF d look]] by blast
    qed
    show "edge_fine ?c d" if d: "d \<in> set (gd_nodes (rs_graph ?p))" for d
    proof -
      have "deps_done ?c d" if "node_status_of run (nd_id d) = Some Done"
        using T(6) [of d] d that closed_status(1) [OF assms, of redact reason]
        by (simp add: P edge_fine_def deps_done_def)
      then show ?thesis using ex d closed_status(1) [OF assms, of redact reason]
        by (simp add: edge_fine_def skips_explained_def list_all_iff P F(3))
    qed
  qed
qed

lemma close_result:
  assumes "run_fine run" "clock_ok now run" "close_run redact now reason run = Inr r"
  shows "node_of r = node_of (closed_nodes redact now reason run)" "rs_graph r = rs_graph run"
    "rs_status r = Run_failed" "all_terminal r" "any_failed r"
    "run_fine r \<longleftrightarrow> skips_explained r"
proof -
  let ?p = "prepare_run_for_resume redact now run" and ?c = "closed_nodes redact now reason run"
  have table: "table_fine run" using assms(1) by (simp add: run_fine_def)
  note T = table_fineD [OF table]
  note F = closed_frame [OF T(4), of redact now reason] and P = prepare_frame [OF T(4), of redact now]
  have pt: "table_fine ?p" using prepare_fine [OF assms(1,2)] by (simp add: run_fine_def)
  let ?ended = "?c\<lparr>rs_status := Run_failed, rs_phase := js ''failed''\<rparr>"
  have r: "r = ?ended\<lparr>rs_summary := Some (summarize ?ended)\<rparr>" using close_run_Inr(1) [OF assms(3)] by (simp add: Let_def)
  show nodes: "node_of r = node_of ?c" and g: "rs_graph r = rs_graph run" and st: "rs_status r = Run_failed"
    using F(3) by (simp_all add: r node_of_def fun_eq_iff)
  have vals: "node_values r = node_values ?c" by (simp add: r node_values_def)
  have keys: "distinct (map fst (rs_nodes ?c))" using F(2) T(1) by (simp add: nodes_match_def)
  have look: "st \<in> set (node_values ?c) \<Longrightarrow> \<exists>i. node_of ?c i = Some st" for st
    using set_alist_map_of [OF keys] by (force simp: node_values_def node_of_def)
  show ended: "all_terminal r"
    unfolding all_terminal_def vals list_all_iff using look closed_status(2) [OF assms(1,2)] by blast
  have pids: "distinct (map nd_id (gd_nodes (rs_graph ?p)))" using T(4) by (simp add: P)
  have "any_failed ?p \<or> (\<exists>d \<in> set (gd_nodes (rs_graph ?p)). \<exists>st. node_of ?p (nd_id d) = Some st \<and> close_fails st)"
    using close_run_Inr(4) [OF assms(3)] walk_flag [OF close_walks pids] by (simp add: Let_def)
  then have "\<exists>d \<in> set (gd_nodes (rs_graph run)). \<exists>st. node_of ?p (nd_id d) = Some st \<and> (ns_status st = Failed \<or> close_fails st)"
  proof
    assume "any_failed ?p"
    then obtain st where st: "st \<in> set (node_values ?p)" "ns_status st = Failed" by (auto simp: any_failed_def list_ex_iff)
    then obtain d where "d \<in> set (gd_nodes (rs_graph ?p))" "node_of ?p (nd_id d) = Some st"
      using fine_node_of_value [OF pt st(1)] by blast
    then show ?thesis using st(2) P(2) by auto
  qed (auto simp: P)
  then obtain d st where d: "d \<in> set (gd_nodes (rs_graph run))" "node_of ?p (nd_id d) = Some st"
    "ns_status st = Failed \<or> close_fails st" by blast
  obtain st0 where st0: "node_of run (nd_id d) = Some st0" "st = fst (resume_node redact now d st0)"
    using resumed_node [OF table, of redact now "nd_id d" st] d(2) P(1) distinct_index_unique [OF T(4) _ d(1)] by metis
  have "node_of ?c (nd_id d) = Some (close_node (close_notes redact reason) st)"
    using closed_lookup [OF assms(1,2) d(1) st0(1), of redact reason] st0(2) by simp
  moreover have "ns_status (close_node (close_notes redact reason) st) = Failed"
    using d(3) by (auto simp: close_node_fields close_fails_def)
  ultimately show any: "any_failed r"
    unfolding any_failed_def vals list_ex_iff using node_of_SomeD by (force simp: node_values_def)
  have sk: "skips_explained r \<longleftrightarrow> skips_explained ?c"
    using nodes g F(3) by (simp add: skips_explained_def node_status_of_def blocked_by_def [abs_def] fun_eq_iff)
  have ph: "base_fine ?ended \<longleftrightarrow> base_fine ?c" if "base_fine ?c \<or> base_fine ?ended"
    using that
  proof
    assume "base_fine ?c"
    then show ?thesis using base_fine_set_status [of ?c "js ''failed''" Run_failed] by (simp add: sized_def)
  next
    assume e: "base_fine ?ended"
    have "base_fine ?p" using prepare_fine [OF assms(1,2)] by (simp add: run_fine_base)
    then have "sized 1 128 (rs_phase ?p)" by (rule base_fine_phase)
    then have "sized 1 128 (rs_phase ?c)" using F(1) by (auto simp: same_but_nodes_def)
    then show ?thesis using base_fine_status [of "js ''failed''" ?c Run_failed] by (simp add: sized_def)
  qed
  have status: "run_status_issues r = []" using st ended any by (simp add: run_status_issues_def)
  show "run_fine r \<longleftrightarrow> skips_explained r"
  proof
    assume "run_fine r"
    then have "\<forall>d \<in> set (gd_nodes (rs_graph r)). edge_fine r d" using table_fineD(6) by (auto simp: run_fine_def)
    then show "skips_explained r" by (simp add: skips_explained_def edge_fine_def list_all_iff)
  next
    assume "skips_explained r"
    then have "base_fine ?c" using sk closed_fine [OF assms(1,2)] by blast
    then have "base_fine ?ended" using ph by blast
    then have "base_fine r" unfolding r by (rule base_fine_summary)
    then show "run_fine r" using status by (simp add: run_fine_base)
  qed
qed

lemma closed_run_hydrated:
  assumes "run_fine run" "clock_ok now run" "close_run redact now reason run = Inr r"
  shows "hydrated_run r"
proof -
  let ?p = "prepare_run_for_resume redact now run" and ?c = "closed_nodes redact now reason run"
  have table: "table_fine run" using assms(1) by (simp add: run_fine_def)
  note T = table_fineD [OF table]
  have keys: "distinct (map fst (rs_nodes ?c))" using closed_frame(2) [OF T(4)] T(1) by (simp add: nodes_match_def)
  have hp: "base_fine ?p" using prepare_fine [OF assms(1,2)] by (simp add: run_fine_base)
  have r: "node_values r = node_values ?c" "header_hydrated r = header_hydrated ?c"
    using close_run_Inr(1) [OF assms(3)] by (simp_all add: Let_def node_values_def header_hydrated_def)
  have "hydrated_node st" if "st \<in> set (node_values ?c)" for st
  proof -
    have "\<exists>i. node_of ?c i = Some st" using that set_alist_map_of [OF keys] by (force simp: node_values_def node_of_def)
    then obtain i where i: "node_of ?c i = Some st" ..
    show ?thesis
    proof (rule closed_node [OF assms(1,2) i])
      fix d s assume d: "d \<in> set (gd_nodes (rs_graph run))" "nd_id d = i" "node_of run i = Some s"
        "st = close_node (close_notes redact reason) (fst (resume_node redact now d s))"
      have "node_fine (rs_run_id run) (rs_mode run) d (fst (resume_node redact now d s))"
        by (rule resume_node_fine [OF T(5) [OF d(1)]]) (use d(2,3) assms(2) in \<open>auto simp: clock_ok_def\<close>)
      moreover have "ns_status (fst (resume_node redact now d s)) \<noteq> Running"
        by (auto simp: resume_node_fields split: node_status.split)
      ultimately have "node_fine (rs_run_id run) (rs_mode run) d st" unfolding d(4) by (rule close_node_fine)
      then show ?thesis by (simp add: node_fine_def)
    qed
  qed
  moreover have "header_hydrated ?c"
    using hp same_but_nodes_fields(7) [OF closed_frame(1) [OF T(4)]] unfolding base_fine_def by metis
  ultimately show ?thesis using r by (simp add: hydrated_run_def header_hydrated_def list_all_iff)
qed

lemma close_run_keys:
  assumes "run_fine run" "close_run redact now reason run = Inr r"
  shows "map fst (rs_nodes r) = map fst (rs_nodes run)"
proof -
  have "distinct (map nd_id (gd_nodes (rs_graph run)))" using assms(1) by (simp add: run_fine_def table_fineD)
  then show ?thesis using closed_frame(2) close_run_Inr(1) [OF assms(2)] by (simp add: Let_def)
qed

lemma accepted_edges:
  assumes "graph_ok (rs_graph run)" "distinct (map fst (rs_nodes run))" "hydrated_run run" "run_issues sha run = []"
  shows "\<forall>d \<in> set (gd_nodes (rs_graph run)). edge_fine run d"
proof -
  have "run_table_issues sha run = []" using assms(4) by (simp add: run_issues_def)
  then show ?thesis unfolding run_table_issues_iff [OF assms(2,1,3)] by blast
qed


text \<open>
  C26. A node that checker feedback reopened waits although its last attempt passed. When all its
  dependencies are done, \<open>closeRun\<close> marks it skipped, and the schema then refuses the run: its
  owner cannot close it.
\<close>

theorem close_run_reopened_rejected:
  assumes "run_body_shape run" "run_issues sha run = []" "hydrated_run run" "clock_ok now run"
    and "d \<in> set (gd_nodes (rs_graph run))" "node_of run (nd_id d) = Some st"
    and "schedulable (ns_status st)" "final_status st = Some Done" "deps_done run d"
    and "close_run redact now reason run = Inr r"
  shows "run_issues sha r \<noteq> []"
proof -
  have fine: "run_fine run" by (rule accepted_run_fine [OF assms(1-3)])
  have table: "table_fine run" using fine by (simp add: run_fine_def)
  note T = table_fineD [OF table]
  note R = close_result [OF fine assms(4,10)]
  have same: "fst (resume_node redact now d st) = st" using assms(7) by (auto simp: resume_node_def schedulable_def)
  have "\<not> terminal (ns_status st)" using assms(7) by (auto simp: schedulable_def)
  then have "node_status_of r (nd_id d) = Some Skipped"
    using closed_lookup [OF fine assms(4,5,6), of redact reason] R(1) assms(8)
    by (simp add: same node_status_of_def close_node_fields)
  moreover have "\<not> blocked_by r x" if "x \<in> set (nd_depends_on d)" for x
  proof -
    have "node_status_of r x = Some Done"
      using assms(9) that closed_status(1) [OF fine assms(4), of redact reason x] R(1)
      by (simp add: deps_done_def list_all_iff node_status_of_def)
    then show ?thesis by (simp add: blocked_by_def)
  qed
  ultimately have "\<not> edge_fine r d" by (auto simp: edge_fine_def list_ex_iff)
  moreover have "graph_ok (rs_graph r)" "distinct (map fst (rs_nodes r))"
    using T(1,2) R(2) close_run_keys [OF fine assms(10)] by (simp_all add: nodes_match_def)
  ultimately show ?thesis
    using accepted_edges closed_run_hydrated [OF fine assms(4,10)] assms(5) R(2) by metis
qed

section \<open>Concrete runs\<close>

text \<open>The explorer passed and was then reopened; the other nodes wait.\<close>

definition example_reopened_run :: run_state where
  "example_reopened_run = set_node (js ''explore'') (example_done_state\<lparr>ns_status := Pending\<rparr>)
     (example_done_run\<lparr>rs_status := Run_blocked, rs_phase := js ''blocked''\<rparr>)"

lemma example_reopened_lookup:
  "node_of example_reopened_run (js ''explore'') = Some (example_done_state\<lparr>ns_status := Pending\<rparr>)"
  "node_of example_reopened_run (js ''implement'') = Some (initial_node_state (gd_nodes example_graph ! 1))"
  "node_of example_reopened_run (js ''check'') = Some (initial_node_state (gd_nodes example_graph ! 2))"
  "rs_graph example_reopened_run = example_graph" "rs_status example_reopened_run = Run_blocked"
  using example_done_lookup by (simp_all add: example_reopened_run_def node_of_def set_node_def)

lemma example_reopened_nodes:
  "rs_nodes example_reopened_run =
     [(js ''explore'', example_done_state\<lparr>ns_status := Pending\<rparr>),
      (js ''implement'', initial_node_state (gd_nodes example_graph ! 1)),
      (js ''check'', initial_node_state (gd_nodes example_graph ! 2))]"
  by (simp add: example_reopened_run_def set_node_def example_done_run_def demo_run_def)

lemma example_reopened_fine: "run_fine example_reopened_run" "clock_ok now example_reopened_run"
proof -
  let ?run = "example_done_run\<lparr>rs_status := Run_blocked, rs_phase := js ''blocked''\<rparr>"
  let ?d = "gd_nodes example_graph ! 0"
  have base: "base_fine ?run"
    by (rule base_fine_set_status) (use example_done_run_fine in \<open>simp_all add: run_fine_base sized_def\<close>)
  have look: "node_of ?run (js ''explore'') = Some example_done_state" "rs_graph ?run = example_graph"
    "node_of ?run (js ''implement'') = Some (initial_node_state (gd_nodes example_graph ! 1))"
    "node_of ?run (js ''check'') = Some (initial_node_state (gd_nodes example_graph ! 2))"
    using example_done_lookup by (simp_all add: node_of_def)
  have d: "?d \<in> set (gd_nodes (rs_graph ?run))" unfolding look(2) example_node_set by simp
  have ids: "rs_run_id ?run = js ''demo''" "rs_mode ?run = Live"
    by (simp_all add: example_done_run_def demo_run_def)
  have st: "ns_status example_done_state = Done" "ns_status (initial_node_state e) = Pending" for e
    by (simp_all add: example_done_state_def initial_node_state_def)
  have "node_fine (rs_run_id ?run) (rs_mode ?run) ?d (example_done_state\<lparr>ns_status := Pending\<rparr>)"
    unfolding ids by (rule pending_node_fine [OF example_done_node_fine]) (simp add: st)
  moreover have "step_allowed ?run ?d (ns_status example_done_state) (ns_status (example_done_state\<lparr>ns_status := Pending\<rparr>))"
    unfolding step_allowed_def look(2) example_node_set using look
    by (simp add: st node_status_of_def example_nodes)
  ultimately have "base_fine (set_node (nd_id ?d) (example_done_state\<lparr>ns_status := Pending\<rparr>) ?run)"
    by (intro base_fine_set_node [OF base d, of example_done_state]) (simp_all add: look example_nodes)
  then show "run_fine example_reopened_run"
    using example_reopened_lookup(5) by (intro base_fine_run_fine) (simp_all add: example_reopened_run_def example_nodes)
  show "clock_ok now example_reopened_run"
    by (simp add: clock_ok_def node_of_def example_reopened_nodes st)
qed

lemma example_close_result: "\<exists>r. close_run (\<lambda>s. s) 9 (js ''stop'') example_reopened_run = Inr r"
proof -
  let ?p = "prepare_run_for_resume (\<lambda>s. s) 9 example_reopened_run"
  have T: "distinct (map nd_id (gd_nodes (rs_graph example_reopened_run)))"
    using example_reopened_fine(1) by (simp add: run_fine_def table_fineD)
  note P = prepare_frame [OF T, of "\<lambda>s. s" 9]
  let ?d = "gd_nodes example_graph ! 1"
  have d: "?d \<in> set (gd_nodes (rs_graph example_reopened_run))"
    unfolding example_reopened_lookup(4) example_node_set by simp
  have "node_of ?p (nd_id ?d) = Some (initial_node_state ?d)"
    using resumed_lookup [OF T d, of "\<lambda>s. s" 9]
    by (simp add: P example_nodes example_reopened_lookup resume_node_def) (simp add: initial_node_state_def)
  moreover have "close_fails (initial_node_state ?d)"
    by (simp add: close_fails_def initial_node_state_def final_status_simps)
  moreover have pids: "distinct (map nd_id (gd_nodes (rs_graph ?p)))" using T by (simp add: P)
  moreover have "?d \<in> set (gd_nodes (rs_graph ?p))" using d by (simp add: P)
  ultimately have "snd (foldl (close_step ns) (?p, any_failed ?p) (gd_nodes (rs_graph ?p)))" for ns
    using walk_flag [OF close_walks pids] by blast
  then show ?thesis using example_reopened_lookup(5) by (simp add: close_run_def Let_def case_prod_unfold)
qed


theorem close_run_reopened_rejected_witness:
  "\<exists>r. close_run (\<lambda>s. s) 9 (js ''stop'') example_reopened_run = Inr r \<and> run_issues (\<lambda>s. s) r \<noteq> []"
proof -
  obtain r where r: "close_run (\<lambda>s. s) 9 (js ''stop'') example_reopened_run = Inr r" using example_close_result ..
  have 1: "gd_nodes example_graph ! 0 \<in> set (gd_nodes (rs_graph example_reopened_run))"
    unfolding example_reopened_lookup(4) example_node_set by simp
  have 2: "node_of example_reopened_run (nd_id (gd_nodes example_graph ! 0)) = Some (example_done_state\<lparr>ns_status := Pending\<rparr>)"
    by (simp add: example_nodes example_reopened_lookup)
  have 3: "schedulable (ns_status (example_done_state\<lparr>ns_status := Pending\<rparr>))"
    "final_status (example_done_state\<lparr>ns_status := Pending\<rparr>) = Some Done"
    "deps_done example_reopened_run (gd_nodes example_graph ! 0)"
    by (simp_all add: final_status_simps example_done_state_def example_done_attempt_def deps_done_def example_nodes)
  from close_run_reopened_rejected [OF run_fine_checks(1) [OF example_reopened_fine(1)]
      run_fine_checks(2) [OF example_reopened_fine(1)] run_fine_checks(3) [OF example_reopened_fine(1)]
      example_reopened_fine(2) 1 2 3 r, of "\<lambda>s. s"] r
  show ?thesis by blast
qed

end
