(* ===== verification/Feedback_Routing.thy ===== *)
theory Feedback_Routing
  imports Resume
begin

text \<open>
  What one pass of \<open>applyCheckerFeedback\<close> (\<open>src/executor.ts\<close>) promises: a rejection is routed at most
  once, only when the target, the checker and everything downstream of the target can run again
  within their own limits and the global budget, and it reopens exactly those nodes.
\<close>

lemma routed_shape:
  assumes "distinct (map nd_id (gd_nodes (rs_graph run)))" "feedback_action redact run checker = Routed run'"
  obtains target cs ts where "nd_feedback_to checker = Some (nd_id target)" "nd_id target \<noteq> []"
    "target \<in> set (gd_nodes (rs_graph run))" "node_of run (nd_id checker) = Some cs"
    "node_of run (nd_id target) = Some ts"
    "\<not> feedback_blocked run checker cs target ts (descendants_of (rs_graph run) (nd_id target))"
    "run' = feedback_result redact run checker (nd_id target) cs"
  using assms(1)
proof (cases rule: feedback_action_cases [where redact = redact and checker = checker])
  case none
  then show thesis using assms(2) by simp
next
  case (found target cs ts latest)
  then show thesis using assms(2) that [of target cs ts]
    by (auto simp: Let_def feedback_result_def split: if_splits)
qed

lemma no_feedback_unless_failed:
  "node_status_of run (nd_id checker) \<noteq> Some Failed \<Longrightarrow> feedback_action redact run checker = No_feedback"
  by (auto simp: feedback_action_def node_status_of_def split: option.split)


section \<open>A rejected implementation\<close>

definition example_implementer :: node_def where "example_implementer = gd_nodes example_graph ! 1"

definition example_checker :: node_def where "example_checker = gd_nodes example_graph ! 2"

definition example_rejection :: agent_output where
  "example_rejection = Check_output \<lparr>co_passed = False, co_failures = [js ''bug''], co_score = 2, co_notes = None\<rparr>"

definition example_implemented_state :: node_state where
  "example_implemented_state = (initial_node_state example_implementer)
     \<lparr>ns_status := Done, ns_current_attempt := 1, ns_output := Some (dry_output example_implementer example_open_run),
      ns_attempts := [example_done_attempt\<lparr>na_output := Some (dry_output example_implementer example_open_run)\<rparr>]\<rparr>"

definition example_rejected_state :: node_state where
  "example_rejected_state = (initial_node_state example_checker)
     \<lparr>ns_status := Failed, ns_current_attempt := 1, ns_output := Some example_rejection, ns_last_failures := [js ''bug''],
      ns_attempts := [example_done_attempt\<lparr>na_status := Failed, na_output := Some example_rejection, na_score := Some 2,
        na_failures := [js ''bug''], na_outcome := Some Substantive_rejection\<rparr>]\<rparr>"

definition example_rejected_run :: run_state where
  "example_rejected_run = (demo_run example_graph
     [(js ''explore'', example_done_state), (js ''implement'', example_implemented_state),
      (js ''check'', example_rejected_state)])
     \<lparr>rs_status := Run_running, rs_phase := js ''execute'', rs_global_attempts := 3\<rparr>"

lemma example_outputs_valid:
  "agent_output_valid Implementer (dry_output example_implementer example_open_run)"
  "agent_output_valid Checker example_rejection"
proof -
  have a: "nd_agent example_implementer = Implementer"
    by (simp add: example_implementer_def example_graph_def example_node_def)
  show "agent_output_valid Implementer (dry_output example_implementer example_open_run)"
    using dry_output_valid_lemma [of example_open_run example_implementer] a example_texts
    by (simp add: long_text_def exact_string_def bounded_strings_def short_text_def)
  have "enforce_output_bytes Checker example_rejection = []"
    using length_dec_le [of 2]
    by (intro enforce_bytes_bound) (simp add: example_rejection_def j_strs_def j_opt_def j_nat_def)
  moreover have "js_trimmed (js ''bug'')" by code_simp
  ultimately show "agent_output_valid Checker example_rejection"
    by (simp add: agent_output_valid_def example_rejection_def check_shape_def check_issues_def bounded_strings_def short_text_def)
qed

lemma example_definitions:
  "nd_agent example_implementer = Implementer" "nd_id example_implementer = js ''implement''"
  "nd_agent example_checker = Checker" "nd_id example_checker = js ''check''"
  "nd_feedback_to example_checker = Some (js ''implement'')"
  "max_attempts example_implementer = 3" "max_attempts example_checker = 3"
  "\<not> requires_shell example_implementer" "\<not> requires_shell example_checker"
  "nd_depends_on example_implementer = [js ''explore'']" "nd_depends_on example_checker = [js ''implement'']"
  "gd_nodes example_graph = [example_explorer, example_implementer, example_checker]"
  by (simp_all add: example_implementer_def example_checker_def example_explorer_def example_graph_def
      example_node_def max_attempts_def requires_shell_def shell_gated_def node_gate_def)

lemma example_attempt_shapes: "attempt_shape (example_done_attempt\<lparr>na_output := out\<rparr>)"
  "attempt_shape (example_done_attempt\<lparr>na_status := s, na_output := out, na_score := Some 2,
     na_failures := [js ''bug''], na_outcome := oc\<rparr>)"
proof -
  have "session_id_shape (js ''child'')" "js_trimmed (js ''bug'')" by code_simp+
  then show "attempt_shape (example_done_attempt\<lparr>na_output := out\<rparr>)"
    "attempt_shape (example_done_attempt\<lparr>na_status := s, na_output := out, na_score := Some 2,
       na_failures := [js ''bug''], na_outcome := oc\<rparr>)"
    by (simp_all add: attempt_shape_def example_done_attempt_def bounded_strings_def short_text_def)
qed

lemmas attempt_checks = attempt_issues_def attempt_identity_issues_def attempt_output_issues_def
  attempt_status_issues_def attempt_outcome_issues_def attempt_checker_issues_def attempt_implementer_issues_def
  attempt_score_issues_def

lemma example_implemented_fine: "node_fine (js ''demo'') Live example_implementer example_implemented_state"
proof -
  let ?out = "dry_output example_implementer example_open_run"
  let ?a = "example_done_attempt\<lparr>na_output := Some ?out\<rparr>"
  have "\<exists>v. ?out = Implement_output v \<and> io_done v \<and> io_artifact_path v = None"
    by (simp add: dry_output_def example_definitions)
  then have out: "output_done ?out = Some True" "output_artifact_path ?out = None" "output_passed ?out = None"
    "output_score ?out = None" by auto
  have detail: "is_attempt_detail ?a" by (simp add: is_attempt_detail_def example_done_attempt_def)
  moreover have "attempt_issues (node_context (js ''demo'') Live example_implementer (Suc 0)) ?a = []"
    using example_outputs_valid out
    by (simp add: attempt_checks node_context_def example_definitions example_done_attempt_def has_output_def
        example_ids artifact_of_run_def)
  ultimately have "attempt_fine (js ''demo'') Live example_implementer (Suc 0) ?a"
    using example_attempt_shapes by (simp add: attempt_fine_def)
  moreover have "na_status ?a = Done" by (simp add: example_done_attempt_def)
  ultimately show ?thesis using detail
    by (simp add: node_fine_def example_implemented_state_def initial_node_state_def hydrated_node_def
        history_fine_def bounded_strings_def final_status_simps latest_output_def example_definitions example_ids)
qed

lemma example_rejected_fine: "node_fine (js ''demo'') Live example_checker example_rejected_state"
proof -
  let ?a = "example_done_attempt\<lparr>na_status := Failed, na_output := Some example_rejection, na_score := Some 2,
        na_failures := [js ''bug''], na_outcome := Some Substantive_rejection\<rparr>"
  have out: "output_done example_rejection = None" "output_artifact_path example_rejection = None"
    "output_passed example_rejection = Some False" "output_score example_rejection = Some 2"
    by (simp_all add: example_rejection_def)
  have detail: "is_attempt_detail ?a" by (simp add: is_attempt_detail_def example_done_attempt_def)
  moreover have "attempt_issues (node_context (js ''demo'') Live example_checker (Suc 0)) ?a = []"
    using example_outputs_valid out
    by (simp add: attempt_checks node_context_def example_definitions example_done_attempt_def has_output_def
        example_ids artifact_of_run_def live_shell_gate_def)
  ultimately have "attempt_fine (js ''demo'') Live example_checker (Suc 0) ?a"
    using example_attempt_shapes by (simp add: attempt_fine_def)
  moreover have "short_text (js ''bug'')" unfolding short_text_def by code_simp
  ultimately show ?thesis using detail
    by (simp add: node_fine_def example_rejected_state_def initial_node_state_def hydrated_node_def
        history_fine_def bounded_strings_def final_status_simps latest_output_def example_definitions example_ids)
qed

lemma example_rejected_lookup:
  "node_of example_rejected_run (js ''explore'') = Some example_done_state"
  "node_of example_rejected_run (js ''implement'') = Some example_implemented_state"
  "node_of example_rejected_run (js ''check'') = Some example_rejected_state"
  "rs_graph example_rejected_run = example_graph" "rs_run_id example_rejected_run = js ''demo''"
  "rs_mode example_rejected_run = Live" "rs_status example_rejected_run = Run_running"
  by (simp_all add: example_rejected_run_def demo_run_def node_of_def)

lemma example_state_fields:
  "ns_status example_done_state = Done" "ns_status example_implemented_state = Done"
  "ns_status example_rejected_state = Failed" "ns_current_attempt example_done_state = 1"
  "ns_current_attempt example_implemented_state = 1" "ns_current_attempt example_rejected_state = 1"
  by (simp_all add: example_done_state_def example_implemented_state_def example_rejected_state_def)

lemma example_rejected_cases:
  assumes "d \<in> set (gd_nodes example_graph)" "node_of example_rejected_run (nd_id d) = Some st"
  obtains "d = example_explorer" "st = example_done_state"
  | "d = example_implementer" "st = example_implemented_state"
  | "d = example_checker" "st = example_rejected_state"
proof -
  have "d = example_explorer \<or> d = example_implementer \<or> d = example_checker"
    using assms(1) by (simp add: example_definitions(12))
  then show thesis
    using assms(2) that example_rejected_lookup(1-3) example_definitions(2,4) example_explorer_fields(2) by auto
qed

lemma example_rejected_keys: "map fst (rs_nodes example_rejected_run) = map nd_id (gd_nodes example_graph)"
  by (simp add: example_definitions example_explorer_fields) (simp add: example_rejected_run_def demo_run_def)

lemma example_rejected_match: "nodes_match example_rejected_run"
proof -
  have "distinct (map nd_id (gd_nodes example_graph))"
    using graph_ok_ordered [OF example_graph_ok] by (simp add: ordered_graph_def)
  then have "distinct (map fst (rs_nodes example_rejected_run))"
    "fst ` set (rs_nodes example_rejected_run) = nd_id ` set (gd_nodes example_graph)"
    using example_rejected_keys by (metis, metis list.set_map)
  then show ?thesis by (simp add: nodes_match_def example_rejected_lookup(4))
qed

lemma example_rejected_table: "table_fine example_rejected_run"
proof -
  let ?run = "example_rejected_run"
  have fine: "node_fine (js ''demo'') Live d st" if "d \<in> set (gd_nodes example_graph)" "node_of ?run (nd_id d) = Some st" for d st
    using that by (rule example_rejected_cases)
      (use example_done_node_fine example_implemented_fine example_rejected_fine in \<open>simp_all add: example_explorer_def\<close>)
  have stat: "node_status_of ?run (js ''explore'') = Some Done" "node_status_of ?run (js ''implement'') = Some Done"
    "node_status_of ?run (js ''check'') = Some Failed"
    using example_rejected_lookup example_state_fields by (simp_all add: node_status_of_def)
  have edge: "edge_fine ?run d" if "d \<in> set (gd_nodes example_graph)" for d
  proof -
    have "d = example_explorer \<or> d = example_implementer \<or> d = example_checker"
      using that by (simp add: example_definitions(12))
    then show ?thesis
      by (elim disjE) (simp_all add: edge_fine_def stat deps_done_def example_definitions example_explorer_fields)
  qed
  have vals: "node_values ?run = [example_done_state, example_implemented_state, example_rejected_state]"
    by (simp add: node_values_def example_rejected_run_def demo_run_def)
  have "total_attempts ?run = 3" unfolding total_attempts_def vals by (simp add: example_state_fields)
  moreover have "rs_global_attempts ?run = 3" "gd_max_global_attempts example_graph = 9"
    by (simp_all add: example_rejected_run_def example_graph_def)
  ultimately show ?thesis
    unfolding table_fine_def example_rejected_lookup(4-6)
    using example_rejected_match example_graph_ok fine edge by simp
qed

lemma example_rejected_run_fine: "run_fine example_rejected_run" "no_running example_rejected_run"
  "reopen_ok example_rejected_run"
proof -
  let ?run = "example_rejected_run"
  have "header_shape ?run"
    using example_texts by (simp add: header_shape_def example_rejected_run_def demo_run_def long_text_def
        exact_string_def bounded_strings_def short_text_def sized_def example_ids)
  moreover have "header_hydrated ?run" "run_ownership_issues ?run = []"
    by (simp_all add: header_hydrated_def run_ownership_issues_def example_rejected_run_def demo_run_def)
  ultimately show "run_fine ?run"
    using example_rejected_table example_rejected_lookup(7) by (intro base_fine_run_fine) (simp_all add: base_fine_def)
  have "ns_status st \<noteq> Running" if st: "node_of ?run i = Some st" for i st
  proof -
    obtain d where d: "d \<in> set (gd_nodes example_graph)" "nd_id d = i"
      using nodes_match_def_of [OF example_rejected_match st] example_rejected_lookup(4) by metis
    from d(1) st [folded d(2)] show ?thesis
      by (rule example_rejected_cases) (simp_all add: example_state_fields)
  qed
  then show "no_running ?run" by (simp add: no_running_def)
  have "ns_current_attempt st < max_attempts d" if "d \<in> set (gd_nodes example_graph)" "node_of ?run (nd_id d) = Some st" for d st
    using that by (rule example_rejected_cases)
      (simp_all add: example_state_fields example_definitions example_explorer_fields)
  then show "reopen_ok ?run" by (simp add: reopen_ok_def reopen_fine_def example_rejected_lookup(4))
qed

lemma example_descendants: "descendants_of example_graph (js ''implement'') = [js ''check'']"
  by (simp add: descendants_of_def descendant_step_def example_graph_def example_node_def)

lemma example_routed: "\<exists>run'. feedback_action (\<lambda>s. s) example_rejected_run example_checker = Routed run'"
proof -
  have ids: "distinct (map nd_id (gd_nodes example_graph))"
    using graph_ok_ordered [OF example_graph_ok] by (simp add: ordered_graph_def)
  have def_of: "node_def_of example_graph (js ''implement'') = Some example_implementer"
    using node_def_of_iff [OF ids] by (simp add: example_definitions)
  let ?a = "example_done_attempt\<lparr>na_status := Failed, na_output := Some example_rejection, na_score := Some 2,
        na_failures := [js ''bug''], na_outcome := Some Substantive_rejection\<rparr>"
  have fin: "final_attempt example_rejected_state = Some ?a"
    by (simp add: example_rejected_state_def final_attempt_def last_opt_def)
  have "substantive ?a" "na_feedback_applied ?a \<noteq> Some True"
    by (simp_all add: substantive_def example_done_attempt_def)
  moreover have "\<not> exhausted_descendant example_rejected_run [js ''check'']"
    by (simp add: exhausted_descendant_def example_rejected_lookup example_definitions example_explorer_fields
        has_attempts_left_def example_state_fields)
  then have "\<not> feedback_blocked example_rejected_run example_checker example_rejected_state example_implementer
      example_implemented_state [js ''check'']"
    by (simp add: feedback_blocked_def has_attempts_left_def example_definitions example_state_fields example_rejected_lookup)
      (simp add: example_rejected_run_def example_graph_def)
  ultimately show ?thesis
    by (simp add: feedback_action_def truthy_def example_definitions example_rejected_lookup def_of
        example_descendants example_state_fields fin Let_def)
qed


end
