(* ===== verification/Executor.thy ===== *)
theory Executor
  imports Feedback_Routing
begin

text \<open>
  The executor itself: \<open>executeRun\<close> of \<open>src/executor.ts\<close> with the saves it makes. The state is the
  run in memory, the run as it was last saved (\<open>lastSaved\<close>), the generations committed so far and a
  counter of the questions put to the environment. The environment answers each question by the
  value of the counter: the clock, the abort signal, the shell preflight, whether the store takes
  a generation, and the events of a batch of workers in the order they happen. Workers interleave
  freely: an event belongs to one node, and a save that waits for a lock is simply a later event.
\<close>

section \<open>State and environment\<close>

datatype run_failure =
    Root_unauthorized
  | Lock_unavailable
  | Not_owner
  | Hydration_failed
  | Directory_not_contained
  | Preflight_failed jstr
  | Schema_rejected
  | Store_refused
  | Link_failed
  | Handoff_failed
  | Worker_failed jstr

datatype worker_end = Fulfilled | Boundary run_failure | Rejected jstr

datatype worker_phase = Working | Saving_session | Saving_outcome | Ended worker_end

datatype batch_event =
    Session_created jstr jstr bool
  | Session_reported jstr jstr
  | Saved jstr bool
  | Settled jstr node_reply
  | Broke jstr jstr

record exec_env =
  ee_worker :: worker_env
  ee_sha :: "jstr \<Rightarrow> jstr"
  ee_now :: "nat \<Rightarrow> nat"
  ee_aborted :: "nat \<Rightarrow> bool"
  ee_refuses :: "nat \<Rightarrow> run_state \<Rightarrow> bool"
  ee_preflight :: "nat \<Rightarrow> (jstr \<times> shell_gate_def option) list \<Rightarrow> jstr option"
  ee_events :: "nat \<Rightarrow> batch_event list"
  ee_lock :: bool
  ee_filesystem_root :: bool
  ee_hydrates :: bool
  ee_directory :: "jstr \<Rightarrow> jstr option"

record exec_state =
  es_run :: run_state
  es_saved :: "run_state option"
  es_commits :: "run_state list"
  es_tick :: nat

datatype exec_result = Returned exec_state | Thrown run_failure exec_state | Stalled exec_state

definition and_then :: "exec_result \<Rightarrow> (exec_state \<Rightarrow> exec_result) \<Rightarrow> exec_result" where
  "and_then r f = (case r of Returned s \<Rightarrow> f s | Thrown e s \<Rightarrow> Thrown e s | Stalled s \<Rightarrow> Stalled s)"

definition ask :: "exec_state \<Rightarrow> exec_state" where
  "ask s = s\<lparr>es_tick := Suc (es_tick s)\<rparr>"

definition put_run :: "run_state \<Rightarrow> exec_state \<Rightarrow> exec_state" where
  "put_run run s = s\<lparr>es_run := run\<rparr>"

section \<open>Saving\<close>

text \<open>
  The candidate of \<open>persistRunInternal\<close> is the state with the next revision and the current time.
  A node whose output was cleared keeps the reference of the output it was last saved with, and
  the store materialises it (\<open>prepareRunForImmutableCommit\<close>, \<open>hydrateVisibleRunData\<close>).
\<close>

definition candidate :: "nat \<Rightarrow> run_state \<Rightarrow> run_state" where
  "candidate now run = run\<lparr>rs_revision := rs_revision run + 1, rs_updated_at := now, rs_state_projection := None\<rparr>"

definition restore_output :: "run_state option \<Rightarrow> jstr \<times> node_state \<Rightarrow> jstr \<times> node_state" where
  "restore_output saved e =
     (if ns_output (snd e) \<noteq> None then e
      else (fst e, (snd e)\<lparr>ns_output := Option.bind (Option.bind saved (\<lambda>r. node_of r (fst e))) ns_output\<rparr>))"

definition committed :: "run_state option \<Rightarrow> nat \<Rightarrow> run_state \<Rightarrow> run_state" where
  "committed saved now run = (candidate now run)\<lparr>rs_nodes := map (restore_output saved) (rs_nodes run)\<rparr>"

definition acceptable :: "(jstr \<Rightarrow> jstr) \<Rightarrow> run_state \<Rightarrow> bool" where
  "acceptable sha run \<longleftrightarrow> (case parse_run_state_for_projection sha run of Inl _ \<Rightarrow> False | Inr _ \<Rightarrow> True)"

definition save_run :: "exec_env \<Rightarrow> exec_state \<Rightarrow> exec_result" where
  "save_run env s =
     (let now = ee_now env (es_tick s); next_run = committed (es_saved s) now (es_run s); s' = ask s in
      if es_saved s = Some (es_run s) then Returned s
      else if \<not> acceptable (ee_sha env) (es_run s) \<or> \<not> acceptable (ee_sha env) (candidate now (es_run s))
      then Thrown Schema_rejected s'
      else if ee_refuses env (es_tick s) next_run then Thrown Store_refused s'
      else Returned (s'\<lparr>es_run := next_run, es_saved := Some next_run, es_commits := next_run # es_commits s\<rparr>))"

section \<open>A batch of workers\<close>

record batch_state =
  ba_exec :: exec_state
  ba_phase :: "(jstr \<times> worker_phase) list"

definition phase_of :: "batch_state \<Rightarrow> jstr \<Rightarrow> worker_phase option" where
  "phase_of b i = map_of (ba_phase b) i"

definition enter :: "jstr \<Rightarrow> worker_phase \<Rightarrow> batch_state \<Rightarrow> batch_state" where
  "enter i p b = b\<lparr>ba_phase := AList.update i p (ba_phase b)\<rparr>"

definition on_run :: "(run_state \<Rightarrow> run_state) \<Rightarrow> batch_state \<Rightarrow> batch_state" where
  "on_run f b = b\<lparr>ba_exec := put_run (f (es_run (ba_exec b))) (ba_exec b)\<rparr>"

definition record_session :: "jstr \<Rightarrow> jstr \<Rightarrow> run_state \<Rightarrow> run_state" where
  "record_session i sid run = modify_node i (\<lambda>st. st\<lparr>ns_attempts :=
     update_last (\<lambda>a. a\<lparr>na_session_id := Some sid\<rparr>) (ns_attempts st)\<rparr>) run"

definition has_session :: "run_state \<Rightarrow> jstr \<Rightarrow> bool" where
  "has_session run i \<longleftrightarrow>
     truthy (Option.bind (Option.bind (node_of run i) final_attempt) na_session_id) \<noteq> None"

text \<open>A save inside \<open>runOneNode\<close>: its failure rejects the worker with a persistence boundary error.\<close>

definition worker_save :: "exec_env \<Rightarrow> jstr \<Rightarrow> worker_phase \<Rightarrow> batch_state \<Rightarrow> batch_state" where
  "worker_save env i next_phase b =
     (case save_run env (ba_exec b) of
        Returned s \<Rightarrow> enter i next_phase (b\<lparr>ba_exec := s\<rparr>)
      | Thrown e s \<Rightarrow> enter i (Ended (Boundary e)) (b\<lparr>ba_exec := s\<rparr>)
      | Stalled s \<Rightarrow> b\<lparr>ba_exec := s\<rparr>)"

text \<open>
  One event of a batch. A session becomes known through the \<open>onSessionCreated\<close> callback, which
  links the child before it is recorded, or only with the result of the runner; either way the
  identifier is recorded and saved before the worker goes on. The flag of \<open>Saved\<close> tells whether the
  step after the save (the procedure handoff, or the late link) succeeded.
\<close>

definition apply_event :: "exec_env \<Rightarrow> execute_options \<Rightarrow> batch_event \<Rightarrow> batch_state \<Rightarrow> batch_state" where
  "apply_event env opts ev b =
     (case ev of
        Session_created i sid linked \<Rightarrow>
          if phase_of b i = Some Working
          then if linked then enter i Saving_session (on_run (record_session i sid) b)
               else enter i (Ended (Boundary Link_failed)) b
          else b
      | Session_reported i sid \<Rightarrow>
          if phase_of b i = Some Working \<and> sid \<noteq> [] \<and> \<not> has_session (es_run (ba_exec b)) i
          then enter i Saving_session (on_run (record_session i sid) b) else b
      | Saved i proceeds \<Rightarrow>
          if phase_of b i = Some Saving_session
          then worker_save env i (if proceeds then Working else Ended (Boundary Handoff_failed)) b
          else if phase_of b i = Some Saving_outcome then worker_save env i (Ended Fulfilled) b
          else b
      | Settled i reply \<Rightarrow>
          if phase_of b i = Some Working
          then (case node_def_of (rs_graph (es_run (ba_exec b))) i of
                  None \<Rightarrow> b
                | Some d \<Rightarrow>
                    let now = ee_now env (es_tick (ba_exec b)) in
                    enter i Saving_outcome
                      (on_run (\<lambda>run. settle_node (ee_worker env) opts run d reply now)
                        (b\<lparr>ba_exec := ask (ba_exec b)\<rparr>)))
          else b
      | Broke i reason \<Rightarrow>
          if phase_of b i = Some Working then enter i (Ended (Rejected reason)) b else b)"

fun run_events :: "exec_env \<Rightarrow> execute_options \<Rightarrow> batch_event list \<Rightarrow> batch_state \<Rightarrow> batch_state" where
  "run_events env opts [] b = b"
| "run_events env opts (ev # evs) b = run_events env opts evs (apply_event env opts ev b)"

text \<open>\<open>settled.forEach(...)\<close> after \<open>Promise.allSettled\<close>, in batch order.\<close>

fun settle_results :: "exec_env \<Rightarrow> (jstr \<times> worker_phase) list \<Rightarrow> exec_state \<Rightarrow> exec_result" where
  "settle_results env [] s = Returned s"
| "settle_results env ((i, p) # ps) s =
     (case p of
        Ended Fulfilled \<Rightarrow> settle_results env ps s
      | Ended (Boundary e) \<Rightarrow> Thrown e s
      | Ended (Rejected reason) \<Rightarrow>
          (case node_def_of (rs_graph (es_run s)) i of
             None \<Rightarrow> Thrown (Worker_failed reason) s
           | Some d \<Rightarrow>
               (case reject_node (ee_worker env) (es_run s) d reason (ee_now env (es_tick s)) of
                  None \<Rightarrow> Thrown (Worker_failed reason) s
                | Some run \<Rightarrow> settle_results env ps (put_run run (ask s))))
      | _ \<Rightarrow> Stalled s)"

definition reserve_step ::
  "exec_env \<Rightarrow> exec_state \<times> (jstr \<times> worker_phase) list \<Rightarrow> node_def \<Rightarrow> exec_state \<times> (jstr \<times> worker_phase) list" where
  "reserve_step env acc d =
     (let (s, phases) = acc; (run, ok) = reserve_attempt (ee_now env (es_tick s)) (es_run s) d
      in (put_run run (ask s), phases @ [(nd_id d, if ok then Working else Ended Fulfilled)]))"

definition reserve_batch :: "exec_env \<Rightarrow> node_def list \<Rightarrow> exec_state \<Rightarrow> exec_state \<times> (jstr \<times> worker_phase) list" where
  "reserve_batch env batch s = foldl (reserve_step env) (s, []) batch"

definition batch_open :: "(jstr \<times> worker_phase) list \<Rightarrow> bool" where
  "batch_open phases \<longleftrightarrow> list_ex (\<lambda>p. case snd p of Ended _ \<Rightarrow> False | _ \<Rightarrow> True) phases"

definition work_batch :: "exec_env \<Rightarrow> execute_options \<Rightarrow> (jstr \<times> worker_phase) list \<Rightarrow> exec_state \<Rightarrow> exec_result" where
  "work_batch env opts phases s =
     (let b = run_events env opts (ee_events env (es_tick s)) \<lparr>ba_exec = ask s, ba_phase = phases\<rparr>
      in if batch_open (ba_phase b) then Stalled (ba_exec b)
         else and_then (settle_results env (ba_phase b) (ba_exec b)) (save_run env))"

section \<open>Preflight\<close>

text \<open>
  \<open>preflightExecutableNodes\<close>: the nodes that can still become ready in this invocation, with the gate
  each would run; a failed or exhausted branch does not veto independent work.
\<close>

fun preflight_scan :: "run_state \<Rightarrow> jstr list \<Rightarrow> node_def list \<Rightarrow> node_def list" where
  "preflight_scan run reachable [] = []"
| "preflight_scan run reachable (d # ds) =
     (case node_of run (nd_id d) of
        None \<Rightarrow> preflight_scan run reachable ds
      | Some st \<Rightarrow>
          if ns_status st = Done then preflight_scan run (nd_id d # reachable) ds
          else if \<not> schedulable (ns_status st) \<or> \<not> has_attempts_left d st \<or>
                  \<not> list_all (\<lambda>x. x \<in> set reachable) (nd_depends_on d)
          then preflight_scan run reachable ds
          else d # preflight_scan run (nd_id d # reachable) ds)"

definition preflight_candidates :: "run_state \<Rightarrow> jstr list option \<Rightarrow> node_def list" where
  "preflight_candidates run batch =
     filter (\<lambda>d. case batch of None \<Rightarrow> True | Some ids \<Rightarrow> nd_id d \<in> set ids)
       (preflight_scan run [] (gd_nodes (rs_graph run)))"

definition preflight :: "exec_env \<Rightarrow> execute_options \<Rightarrow> jstr list option \<Rightarrow> exec_state \<Rightarrow> jstr option" where
  "preflight env opts batch s =
     (let run = es_run s; candidates = preflight_candidates run batch in
      if gd_max_global_attempts (rs_graph run) \<le> rs_global_attempts run \<or> candidates = [] then None
      else ee_preflight env (es_tick s)
             (map (\<lambda>d. (nd_id d, effective_shell_gate run d opts)) candidates))"

section \<open>Waves\<close>

definition summarized :: "run_state \<Rightarrow> run_state" where
  "summarized run = run\<lparr>rs_summary := Some (summarize run)\<rparr>"

definition blocked_run :: "run_state \<Rightarrow> run_state" where
  "blocked_run run = run\<lparr>rs_status := Run_blocked, rs_phase := js ''blocked''\<rparr>"

definition run_batch :: "exec_env \<Rightarrow> execute_options \<Rightarrow> node_def list \<Rightarrow> exec_state \<Rightarrow> exec_result" where
  "run_batch env opts batch s =
     (case preflight env opts (Some (map nd_id batch)) s of
        Some reason \<Rightarrow>
          and_then (save_run env (put_run (summarized (blocked_run (es_run s))) (ask s)))
            (Thrown (Preflight_failed reason))
      | None \<Rightarrow>
          let (s', phases) = reserve_batch env batch (ask s)
          in and_then (save_run env s') (work_batch env opts phases))"

fun batches_of :: "nat \<Rightarrow> nat \<Rightarrow> 'a list \<Rightarrow> 'a list list" where
  "batches_of 0 k xs = []"
| "batches_of (Suc n) k xs = (if xs = [] then [] else take k xs # batches_of n k (drop k xs))"

fun run_batches :: "exec_env \<Rightarrow> execute_options \<Rightarrow> node_def list list \<Rightarrow> exec_state \<Rightarrow> exec_result" where
  "run_batches env opts [] s = Returned s"
| "run_batches env opts (batch # rest) s =
     (if ee_aborted env (es_tick s) then Returned (ask s)
      else and_then (run_batch env opts batch (ask s)) (run_batches env opts rest))"

fun apply_checker_feedback :: "exec_env \<Rightarrow> node_def list \<Rightarrow> exec_state \<Rightarrow> exec_result" where
  "apply_checker_feedback env [] s = Returned s"
| "apply_checker_feedback env (checker # rest) s =
     (case feedback_action (we_redact (ee_worker env)) (es_run s) checker of
        No_feedback \<Rightarrow> apply_checker_feedback env rest s
      | Budget_spent run \<Rightarrow> and_then (save_run env (put_run run s)) (apply_checker_feedback env rest)
      | Routed run \<Rightarrow> save_run env (put_run run s))"

definition concurrency :: "execute_options \<Rightarrow> run_state \<Rightarrow> nat" where
  "concurrency opts run =
     (let limit = gd_max_concurrency (rs_graph run);
          asked = (case xo_max_concurrency opts of None \<Rightarrow> limit | Some n \<Rightarrow> n)
      in max 1 (min asked (min limit 8)))"

definition max_waves :: "execute_options \<Rightarrow> nat" where
  "max_waves opts = max 1 (min (case xo_max_waves opts of None \<Rightarrow> 128 | Some n \<Rightarrow> n) 1000)"

definition budget_spent :: "run_state \<Rightarrow> bool" where
  "budget_spent run \<longleftrightarrow> gd_max_global_attempts (rs_graph run) \<le> rs_global_attempts run"

definition after_batches :: "exec_env \<Rightarrow> exec_state \<Rightarrow> exec_result" where
  "after_batches env s =
     and_then (apply_checker_feedback env (gd_nodes (rs_graph (es_run s))) s)
       (\<lambda>s. save_run env (put_run (finish_global_limit (es_run s)) s))"

fun waves :: "exec_env \<Rightarrow> execute_options \<Rightarrow> nat \<Rightarrow> exec_state \<Rightarrow> exec_result" where
  "waves env opts 0 s = Returned s"
| "waves env opts (Suc n) s =
     (if all_terminal (es_run s) then Returned s
      else if ee_aborted env (es_tick s) then Returned (ask s)
      else
        let s1 = put_run (propagate_skips (es_run s)) (ask s); ready = ready_nodes (es_run s1) in
        if all_terminal (es_run s1) \<or> ready = [] then Returned s1
        else and_then
          (and_then (run_batches env opts (batches_of (length ready) (concurrency opts (es_run s1)) ready) s1)
             (after_batches env))
          (\<lambda>s. if budget_spent (es_run s) then Returned s else waves env opts n s))"

section \<open>The whole run\<close>

definition closing_status :: "run_state \<Rightarrow> run_state" where
  "closing_status run =
     (if all_terminal run
      then if any_failed run then run\<lparr>rs_status := Run_failed, rs_phase := js ''failed''\<rparr>
           else run\<lparr>rs_status := Run_done, rs_phase := js ''done''\<rparr>
      else blocked_run run)"

definition finish_run :: "exec_env \<Rightarrow> exec_state \<Rightarrow> exec_result" where
  "finish_run env s =
     save_run env (put_run (summarized (closing_status (finish_global_limit (propagate_skips (es_run s))))) s)"

definition authorize_root :: "exec_env \<Rightarrow> execute_options \<Rightarrow> nat \<Rightarrow> run_state \<Rightarrow> run_state" where
  "authorize_root env opts now run =
     (if ee_filesystem_root env
      then run\<lparr>rs_filesystem_root_authorizations := Some
             ((case rs_filesystem_root_authorizations run of None \<Rightarrow> [] | Some as \<Rightarrow> as) @
              [\<lparr>rauth_operation = xo_operation opts, rauth_by_session_id = xo_parent_session_id opts,
                rauth_authorized_at = now, rauth_authorized = True,
                rauth_path = Some (rs_project_directory run)\<rparr>])\<rparr>
      else run)"

definition start_run :: "execute_options \<Rightarrow> run_state \<Rightarrow> run_state" where
  "start_run opts run = run\<lparr>rs_status := Run_running, rs_phase := js ''execute'',
     rs_mode := (if xo_dry opts then Dry else rs_mode run)\<rparr>"

definition execute_run :: "exec_env \<Rightarrow> execute_options \<Rightarrow> exec_state \<Rightarrow> exec_result" where
  "execute_run env opts s =
     (if ee_filesystem_root env \<and> \<not> xo_allow_filesystem_root opts then Thrown Root_unauthorized s
      else if \<not> ee_lock env then Thrown Lock_unavailable s
      else if rs_owner_session_id (es_run s) \<noteq> xo_parent_session_id opts then Thrown Not_owner s
      else if \<not> ee_hydrates env then Thrown Hydration_failed s
      else
        (case ee_directory env (case rs_execution_directory (es_run s) of
             None \<Rightarrow> rs_project_directory (es_run s) | Some dir \<Rightarrow> dir) of
           None \<Rightarrow> Thrown Directory_not_contained s
         | Some dir \<Rightarrow>
             let s1 = put_run ((es_run s)\<lparr>rs_execution_directory := Some dir\<rparr>) s in
             (case preflight env opts None s1 of
                Some reason \<Rightarrow> Thrown (Preflight_failed reason) (ask s1)
              | None \<Rightarrow>
                  let s2 = ask s1;
                      run = start_run opts (authorize_root env opts (ee_now env (es_tick s2)) (es_run s2))
                  in and_then (save_run env (put_run run (ask s2)))
                       (\<lambda>s. and_then (waves env opts (max_waves opts) s) (finish_run env)))))"

end
