(* ===== verification/Executor_Steps.thy ===== *)
theory Executor_Steps
  imports Executor
begin

text \<open>
  The invariant of an execution between two of its steps, and its preservation by each step:
  saving, an event of a worker, a reservation, the handler of rejections, and the steps between
  waves. A node whose worker is active is running and its dependencies are done; a node outside
  the batch is not running; a cleared output can be restored from what was last saved.
\<close>

type_synonym phases = "(jstr \<times> worker_phase) list"

section \<open>The invariant\<close>

definition active :: "worker_phase \<Rightarrow> bool" where
  "active p \<longleftrightarrow> (case p of Working \<Rightarrow> True | Saving_session \<Rightarrow> True | Saving_outcome \<Rightarrow> False
     | Ended e \<Rightarrow> (case e of Rejected _ \<Rightarrow> True | _ \<Rightarrow> False))"

definition settled_phase :: "worker_phase \<Rightarrow> bool" where
  "settled_phase p \<longleftrightarrow> p = Saving_outcome \<or> p = Ended Fulfilled"

lemma phase_simps [simp]:
  "active Working" "active Saving_session" "\<not> active Saving_outcome" "active (Ended (Rejected r))"
  "\<not> active (Ended Fulfilled)" "\<not> active (Ended (Boundary e))"
  "\<not> settled_phase Working" "\<not> settled_phase Saving_session" "settled_phase Saving_outcome"
  "settled_phase (Ended Fulfilled)" "\<not> settled_phase (Ended (Rejected r))" "\<not> settled_phase (Ended (Boundary e))"
  by (simp_all add: active_def settled_phase_def)

definition output_same :: "run_state option \<Rightarrow> jstr \<Rightarrow> node_state \<Rightarrow> bool" where
  "output_same saved i st \<longleftrightarrow>
     (\<forall>r st0. saved = Some r \<and> node_of r i = Some st0 \<longrightarrow> ns_output st = ns_output st0)"

definition output_kept :: "run_state option \<Rightarrow> jstr \<Rightarrow> node_state \<Rightarrow> bool" where
  "output_kept saved i st \<longleftrightarrow>
     (\<forall>r st0 out. saved = Some r \<and> node_of r i = Some st0 \<and> ns_output st = None \<and> ns_output st0 = Some out \<longrightarrow>
        latest_output (ns_attempts st) = Some out)"

definition started_by :: "nat \<Rightarrow> node_state \<Rightarrow> bool" where
  "started_by now st \<longleftrightarrow> (\<forall>a. final_attempt st = Some a \<longrightarrow> na_started_at a \<le> now)"

definition entry_ok :: "nat \<Rightarrow> run_state option \<Rightarrow> worker_phase option \<Rightarrow> jstr \<Rightarrow> node_state \<Rightarrow> bool" where
  "entry_ok now saved p i st \<longleftrightarrow> output_kept saved i st \<and>
     (case p of
        None \<Rightarrow> ns_status st \<noteq> Running \<and> output_same saved i st
      | Some p \<Rightarrow>
          (active p \<longrightarrow> ns_status st = Running \<and> output_same saved i st \<and> started_by now st) \<and>
          (settled_phase p \<longrightarrow> ns_status st \<noteq> Running))"

definition saved_ok :: "exec_state \<Rightarrow> bool" where
  "saved_ok s \<longleftrightarrow>
     (case es_saved s of
        None \<Rightarrow> es_commits s = []
      | Some r \<Rightarrow> es_commits s \<noteq> [] \<and> hd (es_commits s) = r \<and> rs_revision r = rs_revision (es_run s) \<and>
          map fst (rs_nodes r) = map fst (rs_nodes (es_run s))) \<and>
     list_all run_fine (es_commits s)"

definition batch_ok :: "exec_env \<Rightarrow> execute_options \<Rightarrow> phases \<Rightarrow> exec_state \<Rightarrow> bool" where
  "batch_ok env opts ps s \<longleftrightarrow>
     base_fine (es_run s) \<and> reopen_ok (es_run s) \<and> rs_status (es_run s) = Run_running \<and>
     1 \<le> rs_revision (es_run s) \<and>
     (xo_dry opts \<longrightarrow> rs_mode (es_run s) = Dry) \<and> saved_ok s \<and>
     distinct (map fst ps) \<and>
     (\<forall>i st. node_of (es_run s) i = Some st \<longrightarrow> entry_ok (ee_now env (es_tick s)) (es_saved s) (map_of ps i) i st) \<and>
     (\<forall>i p. map_of ps i = Some p \<longrightarrow>
        (\<exists>d \<in> set (gd_nodes (rs_graph (es_run s))). nd_id d = i \<and> (active p \<longrightarrow> deps_done (es_run s) d)))"

definition todo_ok :: "node_def list \<Rightarrow> phases \<Rightarrow> run_state \<Rightarrow> bool" where
  "todo_ok todo ps run \<longleftrightarrow>
     distinct (map nd_id todo) \<and>
     (\<forall>d \<in> set todo. d \<in> set (gd_nodes (rs_graph run)) \<and> is_ready run d \<and> nd_id d \<notin> fst ` set ps)"

lemmas batch_ok_unfold = batch_ok_def [THEN iffD1]

lemma batch_okD:
  assumes "batch_ok env opts ps s"
  shows "base_fine (es_run s)" "reopen_ok (es_run s)" "rs_status (es_run s) = Run_running"
    "xo_dry opts \<Longrightarrow> rs_mode (es_run s) = Dry" "saved_ok s" "distinct (map fst ps)"
    "node_of (es_run s) i = Some st \<Longrightarrow> entry_ok (ee_now env (es_tick s)) (es_saved s) (map_of ps i) i st"
    "map_of ps i = Some p \<Longrightarrow>
       \<exists>d \<in> set (gd_nodes (rs_graph (es_run s))). nd_id d = i \<and> (active p \<longrightarrow> deps_done (es_run s) d)"
    "1 \<le> rs_revision (es_run s)"
  using assms unfolding batch_ok_def by blast+

lemma batch_ok_run_fine: "batch_ok env opts ps s \<Longrightarrow> run_fine (es_run s)"
  using batch_okD(1,3) base_fine_run_fine by blast

lemma entry_ok_later: "entry_ok now saved p i st \<Longrightarrow> now \<le> now' \<Longrightarrow> entry_ok now' saved p i st"
  by (auto simp: entry_ok_def started_by_def split: option.splits)

lemma ask_fields [simp]:
  "es_run (ask s) = es_run s" "es_saved (ask s) = es_saved s" "es_commits (ask s) = es_commits s"
  "es_tick (ask s) = Suc (es_tick s)"
  by (simp_all add: ask_def)

lemma put_run_fields [simp]:
  "es_run (put_run run s) = run" "es_saved (put_run run s) = es_saved s" "es_commits (put_run run s) = es_commits s"
  "es_tick (put_run run s) = es_tick s"
  by (simp_all add: put_run_def)

lemma batch_okI:
  assumes "base_fine (es_run s)" "reopen_ok (es_run s)" "rs_status (es_run s) = Run_running"
    "1 \<le> rs_revision (es_run s)"
    "xo_dry opts \<Longrightarrow> rs_mode (es_run s) = Dry" "saved_ok s" "distinct (map fst ps)"
    "\<And>i st. node_of (es_run s) i = Some st \<Longrightarrow> entry_ok (ee_now env (es_tick s)) (es_saved s) (map_of ps i) i st"
    "\<And>i p. map_of ps i = Some p \<Longrightarrow>
       \<exists>d \<in> set (gd_nodes (rs_graph (es_run s))). nd_id d = i \<and> (active p \<longrightarrow> deps_done (es_run s) d)"
  shows "batch_ok env opts ps s"
  using assms unfolding batch_ok_def by blast

lemma saved_ok_ask [simp]: "saved_ok (ask s) = saved_ok s"
  by (cases "es_saved s") (simp_all add: saved_ok_def)

lemma batch_ok_ask:
  assumes "batch_ok env opts ps s" "mono (ee_now env)"
  shows "batch_ok env opts ps (ask s)"
proof (rule batch_okI)
  have tick: "ee_now env (es_tick s) \<le> ee_now env (Suc (es_tick s))" using assms(2) by (simp add: mono_def)
  show "entry_ok (ee_now env (es_tick (ask s))) (es_saved (ask s)) (map_of ps i) i st"
    if n: "node_of (es_run (ask s)) i = Some st" for i st
    using n tick unfolding ask_fields by (rule entry_ok_later [OF batch_okD(7) [OF assms(1)]])
qed (use batch_okD [OF assms(1)] in simp_all)

section \<open>Saving\<close>

lemma run_status_issues_revision:
  "run_status_issues (run\<lparr>rs_revision := r, rs_updated_at := t, rs_state_projection := p\<rparr>) = run_status_issues run"
  by (simp add: run_status_issues_def node_status_of_def node_of_def any_failed_def all_terminal_def node_values_def)

lemma candidate_fields [simp]:
  "rs_nodes (candidate now run) = rs_nodes run" "rs_graph (candidate now run) = rs_graph run"
  "rs_run_id (candidate now run) = rs_run_id run" "rs_mode (candidate now run) = rs_mode run"
  "rs_global_attempts (candidate now run) = rs_global_attempts run" "rs_status (candidate now run) = rs_status run"
  "rs_revision (candidate now run) = rs_revision run + 1"
  by (simp_all add: candidate_def)

lemma candidate_fine:
  assumes "run_fine run"
  shows "run_fine (candidate now run)"
proof -
  have "base_fine run" "run_status_issues run = []" using assms by (simp_all add: run_fine_base)
  moreover have "table_fine (candidate now run) = table_fine run" by (rule table_fine_fields) simp_all
  ultimately have "base_fine (candidate now run)"
    by (simp add: base_fine_def) (simp add: candidate_def header_shape_def header_hydrated_def run_ownership_issues_def)
  then show ?thesis using assms
    by (simp add: run_fine_base) (simp add: candidate_def run_status_issues_revision)
qed

lemma acceptable_fine: "run_fine run \<Longrightarrow> acceptable sha run \<longleftrightarrow> revision_shape run"
  using run_fine_iff [of run sha] run_fine_hydrated [of run]
  by (auto simp: acceptable_def parse_run_state_for_projection_def)

lemma restored_lookup:
  "map_of (map (restore_output saved) al) i =
     map_option (\<lambda>st. snd (restore_output saved (i, st))) (map_of al i)"
  by (induction al) (auto simp: restore_output_def)

lemma committed_node_of:
  "node_of (committed saved now run) i = map_option (\<lambda>st. snd (restore_output saved (i, st))) (node_of run i)"
  by (simp add: committed_def node_of_def restored_lookup)

lemma committed_fields [simp]:
  "rs_graph (committed saved now run) = rs_graph run" "rs_mode (committed saved now run) = rs_mode run"
  "rs_status (committed saved now run) = rs_status run" "rs_revision (committed saved now run) = rs_revision run + 1"
  "rs_global_attempts (committed saved now run) = rs_global_attempts run" "rs_run_id (committed saved now run) = rs_run_id run"
  "map fst (rs_nodes (committed saved now run)) = map fst (rs_nodes run)"
  by (simp_all add: committed_def restore_output_def)

lemma restore_output_fields [simp]:
  "fst (restore_output saved e) = fst e" "ns_status (snd (restore_output saved e)) = ns_status (snd e)"
  "ns_attempts (snd (restore_output saved e)) = ns_attempts (snd e)"
  "ns_current_attempt (snd (restore_output saved e)) = ns_current_attempt (snd e)"
  "ns_last_failures (snd (restore_output saved e)) = ns_last_failures (snd e)"
  by (simp_all add: restore_output_def)

lemma restored_fine:
  assumes "node_fine run_id mode d st" "output_kept saved i st"
  shows "node_fine run_id mode d (snd (restore_output saved (i, st)))"
proof (cases "ns_output st")
  case (Some out)
  then show ?thesis using assms(1) by (simp add: restore_output_def)
next
  case None
  let ?out = "Option.bind (Option.bind saved (\<lambda>r. node_of r i)) ns_output"
  have eq: "snd (restore_output saved (i, st)) = st\<lparr>ns_output := ?out\<rparr>" using None by (simp add: restore_output_def)
  have out: "?out \<noteq> None \<longrightarrow> ?out = latest_output (ns_attempts st)"
    using assms(2) None by (auto simp: output_kept_def split: Option.bind_splits)
  have "ns_status st \<noteq> Done" using assms(1) None unfolding node_fine_def by blast
  moreover have "hydrated_node (st\<lparr>ns_output := ?out\<rparr>) = hydrated_node st" "final_status (st\<lparr>ns_output := ?out\<rparr>) = final_status st"
    by (simp_all add: hydrated_node_def final_status_simps)
  ultimately show ?thesis using assms(1) out unfolding eq node_fine_def by auto
qed

lemma restored_status [simp]: "node_status_of (committed saved now run) = node_status_of run"
  by (simp add: node_status_of_def committed_node_of option.map_comp o_def fun_eq_iff)

lemma restored_checks [simp]:
  "blocked_by (committed saved now run) = blocked_by run" "deps_done (committed saved now run) = deps_done run"
  "edge_fine (committed saved now run) = edge_fine run"
proof -
  show b: "blocked_by (committed saved now run) = blocked_by run" by (simp add: blocked_by_def fun_eq_iff)
  show d: "deps_done (committed saved now run) = deps_done run" by (simp add: deps_done_def fun_eq_iff)
  show "edge_fine (committed saved now run) = edge_fine run" by (simp add: edge_fine_def fun_eq_iff b d)
qed

lemma committed_pointwise: "same_but_nodes (candidate now run) (committed saved now run)"
  unfolding same_but_nodes_def committed_def by blast

lemma committed_base_fine:
  assumes "base_fine run" "run_fine run" "\<And>i st. node_of run i = Some st \<Longrightarrow> output_kept saved i st"
  shows "base_fine (committed saved now run)"
proof (rule base_fine_pointwise [OF _ committed_pointwise])
  note T = table_fineD [OF base_fine_table [OF assms(1)]]
  have look: "node_of (candidate now run) = node_of run" by (simp add: node_of_def fun_eq_iff)
  show "base_fine (candidate now run)" using candidate_fine [OF assms(2)] by (simp add: run_fine_base)
  show "map_option ns_current_attempt (node_of (committed saved now run) i) =
      map_option ns_current_attempt (node_of (candidate now run) i)" for i
    by (simp add: look committed_node_of option.map_comp o_def)
  show "node_fine (rs_run_id (candidate now run)) (rs_mode (candidate now run)) d st"
    if d: "d \<in> set (gd_nodes (rs_graph (candidate now run)))"
      and st: "node_of (committed saved now run) (nd_id d) = Some st" for d st
    using st restored_fine T(5) d assms(3) by (auto simp: committed_node_of)
  show "edge_fine (committed saved now run) d" if "d \<in> set (gd_nodes (rs_graph (candidate now run)))" for d
    using T(6) that by simp
qed simp

lemma committed_reopen_ok: "reopen_ok run \<Longrightarrow> reopen_ok (committed saved now run)"
  by (auto simp: reopen_ok_def reopen_fine_def committed_node_of final_status_simps)

text \<open>A save returns the state unchanged, commits the next generation, or leaves the run alone.\<close>

lemma save_cases:
  obtains (same) "save_run env s = Returned s" "es_saved s = Some (es_run s)"
  | (failed) e where "save_run env s = Thrown e (ask s)" "e = Store_refused \<or>
      e = Schema_rejected \<and> \<not> (acceptable (ee_sha env) (es_run s) \<and>
        acceptable (ee_sha env) (candidate (ee_now env (es_tick s)) (es_run s)))"
  | (committed) now where "now = ee_now env (es_tick s)"
      "save_run env s = Returned ((ask s)\<lparr>es_run := committed (es_saved s) now (es_run s),
         es_saved := Some (committed (es_saved s) now (es_run s)),
         es_commits := committed (es_saved s) now (es_run s) # es_commits s\<rparr>)"
      "acceptable (ee_sha env) (es_run s)"
proof (cases "es_saved s = Some (es_run s)")
  case True
  then show thesis using same by (simp add: save_run_def)
next
  case False
  let ?now = "ee_now env (es_tick s)"
  show thesis
  proof (cases "acceptable (ee_sha env) (es_run s) \<and> acceptable (ee_sha env) (candidate ?now (es_run s))")
    case ok: True
    show thesis
    proof (cases "ee_refuses env (es_tick s) (committed (es_saved s) ?now (es_run s))")
      case True
      then show thesis using failed [of Store_refused] False ok by (simp add: save_run_def Let_def)
    next
      case no: False
      then show thesis using committed [OF refl] False ok by (simp add: save_run_def Let_def)
    qed
  next
    case bad: False
    then show thesis using failed [of Schema_rejected] False by (simp add: save_run_def Let_def)
  qed
qed

definition save_post :: "exec_env \<Rightarrow> (exec_state \<Rightarrow> bool) \<Rightarrow> (exec_state \<Rightarrow> bool) \<Rightarrow> exec_result \<Rightarrow> bool" where
  "save_post env good bad r \<longleftrightarrow>
     (case r of
        Returned s \<Rightarrow> good s \<and> es_saved s = Some (es_run s)
      | Thrown e s \<Rightarrow> bad s \<and> (e = Store_refused \<or> e = Schema_rejected \<and> MAX_SAFE_INTEGER \<le> rs_revision (es_run s))
      | Stalled s \<Rightarrow> False)"

lemma run_fine_rejected:
  assumes "run_fine run" "1 \<le> rs_revision run"
    "\<not> (acceptable sha run \<and> acceptable sha (candidate now run))"
  shows "MAX_SAFE_INTEGER \<le> rs_revision run"
  using assms acceptable_fine [OF assms(1)] acceptable_fine [OF candidate_fine [OF assms(1)]]
  by (auto simp: revision_shape_def)

lemma committed_entry_ok:
  assumes "entry_ok now saved p i st" "node_of run i = Some st" "now \<le> now'"
  shows "entry_ok now' (Some (committed saved t run)) p i (snd (restore_output saved (i, st)))"
proof -
  have "output_same (Some (committed saved t run)) i (snd (restore_output saved (i, st)))"
    "output_kept (Some (committed saved t run)) i (snd (restore_output saved (i, st)))"
    using assms(2) by (auto simp: output_same_def output_kept_def committed_node_of)
  then show ?thesis
    using entry_ok_later [OF assms(1,3)]
    by (auto simp: entry_ok_def started_by_def final_attempt_def split: option.splits)
qed

lemma save_batch_ok:
  assumes "batch_ok env opts ps s" "mono (ee_now env)"
  shows "save_post env (batch_ok env opts ps) (batch_ok env opts ps) (save_run env s)"
proof (cases rule: save_cases [of env s])
  case same
  then show ?thesis using assms(1) by (simp add: save_post_def)
next
  case (failed e)
  then show ?thesis
    using batch_ok_ask [OF assms(1,2)] run_fine_rejected [OF batch_ok_run_fine [OF assms(1)] batch_okD(9) [OF assms(1)]]
    by (auto simp: save_post_def)
next
  case (committed now)
  note B = batch_okD [OF assms(1)]
  have kept: "output_kept (es_saved s) i st" if "node_of (es_run s) i = Some st" for i st
    using B(7) [OF that] by (simp add: entry_ok_def)
  let ?c = "committed (es_saved s) now (es_run s)"
  have c: "base_fine ?c" by (rule committed_base_fine [OF B(1) batch_ok_run_fine [OF assms(1)] kept])
  have fine: "run_fine ?c" using c B(3) by (intro base_fine_run_fine) simp_all
  have tick: "ee_now env (es_tick s) \<le> ee_now env (Suc (es_tick s))" using assms(2) by (simp add: mono_def)
  let ?s = "(ask s)\<lparr>es_run := ?c, es_saved := Some ?c, es_commits := ?c # es_commits s\<rparr>"
  have "batch_ok env opts ps ?s"
  proof (rule batch_okI)
    show "saved_ok ?s" using B(5) fine by (simp add: saved_ok_def)
    show "entry_ok (ee_now env (es_tick ?s)) (es_saved ?s) (map_of ps i) i st" if n: "node_of (es_run ?s) i = Some st" for i st
    proof -
      obtain st0 where "node_of (es_run s) i = Some st0" "st = snd (restore_output (es_saved s) (i, st0))"
        using n by (cases "node_of (es_run s) i") (auto simp: committed_node_of)
      then show ?thesis using committed_entry_ok [OF B(7) _ tick] by simp
    qed
  qed (use B c committed_reopen_ok in simp_all)
  then show ?thesis using committed(2) by (simp add: save_post_def)
qed

section \<open>One node of a batch\<close>

lemma deps_done_elsewhere:
  assumes "deps_done run e" "node_status_of run i \<noteq> Some Done" "\<And>j. j \<noteq> i \<Longrightarrow> node_of run' j = node_of run j"
  shows "deps_done run' e"
proof -
  have "x \<noteq> i" if "x \<in> set (nd_depends_on e)" for x
    using assms(1,2) that by (auto simp: deps_done_def list_all_iff)
  then show ?thesis using assms(1,3) by (simp add: deps_done_def list_all_iff node_status_of_def)
qed

definition wave_ok :: "exec_env \<Rightarrow> execute_options \<Rightarrow> node_def list \<Rightarrow> phases \<Rightarrow> exec_state \<Rightarrow> bool" where
  "wave_ok env opts todo ps s \<longleftrightarrow> batch_ok env opts ps s \<and> todo_ok todo ps (es_run s)"

text \<open>What a step that changes one active node has to show.\<close>

lemma wave_step:
  assumes "wave_ok env opts todo ps s" "mono (ee_now env)"
    and "d \<in> set (gd_nodes (rs_graph (es_run s)))" "map_of ps (nd_id d) = Some p" "active p"
    and "base_fine run'" "reopen_ok run'" "node_of run' (nd_id d) = Some st'"
    and "\<And>j. j \<noteq> nd_id d \<Longrightarrow> node_of run' j = node_of (es_run s) j"
    and "rs_graph run' = rs_graph (es_run s)" "rs_status run' = rs_status (es_run s)" "rs_mode run' = rs_mode (es_run s)"
      "rs_revision run' = rs_revision (es_run s)" "map fst (rs_nodes run') = map fst (rs_nodes (es_run s))"
    and "es_run s' = run'" "es_saved s' = es_saved s" "es_commits s' = es_commits s" "es_tick s \<le> es_tick s'"
    and "entry_ok (ee_now env (es_tick s')) (es_saved s) (Some p') (nd_id d) st'"
  shows "wave_ok env opts todo (AList.update (nd_id d) p' ps) s'"
proof -
  have B: "batch_ok env opts ps s" and todo: "todo_ok todo ps (es_run s)" using assms(1) by (simp_all add: wave_ok_def)
  note D = batch_okD [OF B]
  have now: "ee_now env (es_tick s) \<le> ee_now env (es_tick s')" using assms(2,18) by (simp add: mono_def)
  obtain st where st: "node_of (es_run s) (nd_id d) = Some st"
    using nodes_match_Some [OF table_fineD(1) [OF base_fine_table [OF D(1)]] assms(3)] by blast
  have "ns_status st = Running" using D(7) [OF st] assms(4,5) by (simp add: entry_ok_def)
  then have nd: "node_status_of (es_run s) (nd_id d) \<noteq> Some Done" using st by (simp add: node_status_of_def)
  have deps: "deps_done run' e" if "deps_done (es_run s) e" for e by (rule deps_done_elsewhere [OF that nd assms(9)])
  have "dom (map_of (AList.update (nd_id d) p' ps)) = dom (map_of ps)"
    using assms(4) by (simp add: insert_absorb domI)
  then have keys: "fst ` set (AList.update (nd_id d) p' ps) = fst ` set ps" by (simp only: dom_map_of_conv_image_fst)
  have "batch_ok env opts (AList.update (nd_id d) p' ps) s'"
  proof (rule batch_okI)
    show "saved_ok s'" using D(5) assms(13-17) by (cases "es_saved s") (simp_all add: saved_ok_def)
    show "base_fine (es_run s')" "reopen_ok (es_run s')" "rs_status (es_run s') = Run_running"
      "1 \<le> rs_revision (es_run s')"
      using D(3,9) assms(6,7,11,13,15) by simp_all
    show "rs_mode (es_run s') = Dry" if "xo_dry opts" using D(4) [OF that] assms(12,15) by simp
    show "distinct (map fst (AList.update (nd_id d) p' ps))" using D(6) by (rule distinct_update)
    show "entry_ok (ee_now env (es_tick s')) (es_saved s') (map_of (AList.update (nd_id d) p' ps) i) i t"
      if t: "node_of (es_run s') i = Some t" for i t
    proof (cases "i = nd_id d")
      case True
      then show ?thesis using t assms(8,15,16,19) by simp
    next
      case False
      then have "node_of (es_run s) i = Some t" using t assms(9,15) by simp
      from entry_ok_later [OF D(7) [OF this] now] show ?thesis using False assms(16) by simp
    qed
    show "\<exists>e \<in> set (gd_nodes (rs_graph (es_run s'))). nd_id e = i \<and> (active q \<longrightarrow> deps_done (es_run s') e)"
      if q: "map_of (AList.update (nd_id d) p' ps) i = Some q" for i q
    proof (cases "i = nd_id d")
      case True
      then show ?thesis using D(8) [OF assms(4)] assms(3,5,10,15) deps by auto
    next
      case False
      then show ?thesis using D(8) [of i q] q assms(10,15) deps by auto
    qed
  qed
  moreover have "is_ready run' e" if e: "e \<in> set todo" for e
  proof -
    have "is_ready (es_run s) e" "nd_id e \<noteq> nd_id d"
      using todo e map_of_SomeD [OF assms(4)] by (force simp: todo_ok_def)+
    then show ?thesis using deps [of e] assms(9) [of "nd_id e"] by (auto simp: is_ready_def split: option.splits)
  qed
  then have "todo_ok todo (AList.update (nd_id d) p' ps) (es_run s')"
    using todo unfolding todo_ok_def keys assms(15) assms(10) by blast
  ultimately show ?thesis by (simp add: wave_ok_def)
qed

lemma set_node_fields:
  "rs_status (set_node i st run) = rs_status run" "rs_mode (set_node i st run) = rs_mode run"
  "rs_revision (set_node i st run) = rs_revision run" "rs_run_id (set_node i st run) = rs_run_id run"
  by (simp_all add: set_node_def)

lemma wave_set_node:
  assumes "wave_ok env opts todo ps s" "mono (ee_now env)"
    and "d \<in> set (gd_nodes (rs_graph (es_run s)))" "map_of ps (nd_id d) = Some p" "active p"
    and "base_fine (set_node (nd_id d) st' (es_run s))" "reopen_ok (set_node (nd_id d) st' (es_run s))"
    and "entry_ok (ee_now env (es_tick s')) (es_saved s) (Some p') (nd_id d) st'"
    and "es_run s' = set_node (nd_id d) st' (es_run s)" "es_saved s' = es_saved s" "es_commits s' = es_commits s"
      "es_tick s \<le> es_tick s'"
  shows "wave_ok env opts todo (AList.update (nd_id d) p' ps) s'"
proof (rule wave_step [OF assms(1-7)])
  have B: "batch_ok env opts ps s" using assms(1) by (simp add: wave_ok_def)
  have "node_of (es_run s) (nd_id d) \<noteq> None"
    using nodes_match_Some [OF table_fineD(1) [OF base_fine_table [OF batch_okD(1) [OF B]]] assms(3)] by blast
  then show "map fst (rs_nodes (set_node (nd_id d) st' (es_run s))) = map fst (rs_nodes (es_run s))"
    by (rule keys_set_node)
qed (use assms(8-12) in \<open>simp_all add: set_node_fields\<close>)

text \<open>A change of phase alone.\<close>

lemma wave_phase:
  assumes "wave_ok env opts todo ps s" "map_of ps i = Some p"
    and "active p' \<Longrightarrow> active p" "settled_phase p' \<Longrightarrow> settled_phase p"
  shows "wave_ok env opts todo (AList.update i p' ps) s"
proof -
  have B: "batch_ok env opts ps s" and todo: "todo_ok todo ps (es_run s)" using assms(1) by (simp_all add: wave_ok_def)
  note D = batch_okD [OF B]
  have "dom (map_of (AList.update i p' ps)) = dom (map_of ps)" using assms(2) by (simp add: insert_absorb domI)
  then have keys: "fst ` set (AList.update i p' ps) = fst ` set ps" by (simp only: dom_map_of_conv_image_fst)
  have "batch_ok env opts (AList.update i p' ps) s"
  proof (rule batch_okI)
    show "entry_ok (ee_now env (es_tick s)) (es_saved s) (map_of (AList.update i p' ps) j) j st"
      if n: "node_of (es_run s) j = Some st" for j st
      using D(7) [OF n] assms(2-4) by (cases "j = i") (auto simp: entry_ok_def)
    show "\<exists>d \<in> set (gd_nodes (rs_graph (es_run s))). nd_id d = j \<and> (active q \<longrightarrow> deps_done (es_run s) d)"
      if q: "map_of (AList.update i p' ps) j = Some q" for j q
    proof (cases "j = i")
      case True
      then show ?thesis using D(8) [OF assms(2)] q assms(3) by auto
    next
      case False
      then show ?thesis using D(8) [of j q] q by simp
    qed
  qed (use D(1-6,9) in \<open>simp_all add: distinct_update\<close>)
  then show ?thesis using todo by (simp add: wave_ok_def todo_ok_def keys)
qed

section \<open>Sessions\<close>

lemma session_attempt_fine:
  assumes "attempt_fine run_id mode d n a" "session_id_shape sid"
  shows "attempt_fine run_id mode d n (a\<lparr>na_session_id := Some sid\<rparr>)"
proof -
  let ?a = "a\<lparr>na_session_id := Some sid\<rparr>" and ?c = "node_context run_id mode d n"
  have sel: "na_attempt ?a = na_attempt a" "na_status ?a = na_status a" "na_output_ref ?a = na_output_ref a"
    "na_detail_ref ?a = na_detail_ref a" "na_failures_omitted ?a = na_failures_omitted a"
    "na_failure_texts_truncated ?a = na_failure_texts_truncated a" "na_error_bytes_omitted ?a = na_error_bytes_omitted a"
    "na_failures ?a = na_failures a" "na_error ?a = na_error a" "na_output ?a = na_output a"
    "na_schema_ok ?a = na_schema_ok a" "na_finished_at ?a = na_finished_at a" "na_started_at ?a = na_started_at a"
    "na_outcome ?a = na_outcome a" "na_shell_ok ?a = na_shell_ok a" "na_score ?a = na_score a"
    by simp_all
  have "attempt_identity_issues ?c ?a = attempt_identity_issues ?c a"
    "attempt_output_issues ?c ?a = attempt_output_issues ?c a"
    "attempt_status_issues ?c ?a = attempt_status_issues ?c a"
    "attempt_outcome_issues ?c ?a = attempt_outcome_issues ?c a"
    "attempt_checker_issues ?c ?a = attempt_checker_issues ?c a"
    "attempt_implementer_issues ?c ?a = attempt_implementer_issues ?c a"
    "attempt_score_issues ?c ?a = attempt_score_issues ?c a"
    unfolding attempt_identity_issues_def attempt_output_issues_def attempt_status_issues_def
      attempt_outcome_issues_def attempt_checker_issues_def attempt_implementer_issues_def
      attempt_score_issues_def has_output_def sel
    by (rule refl)+
  moreover have "is_attempt_detail ?a = is_attempt_detail a" by (simp add: is_attempt_detail_def)
  moreover have "attempt_shape a \<Longrightarrow> attempt_shape ?a" using assms(2) by (simp add: attempt_shape_def)
  ultimately show ?thesis using assms(1) by (simp add: attempt_fine_def attempt_issues_def)
qed

definition with_session :: "jstr \<Rightarrow> node_state \<Rightarrow> node_state" where
  "with_session sid st = st\<lparr>ns_attempts := update_last (\<lambda>a. a\<lparr>na_session_id := Some sid\<rparr>) (ns_attempts st)\<rparr>"

lemma with_session_fine:
  assumes "node_fine run_id mode d st" "session_id_shape sid" "ns_status st = Running"
  shows "node_fine run_id mode d (with_session sid st)" "final_status (with_session sid st) = final_status st"
    "started_by now st \<Longrightarrow> started_by now (with_session sid st)"
    "latest_output (ns_attempts (with_session sid st)) = latest_output (ns_attempts st)"
proof -
  obtain as a where a: "ns_attempts st = as @ [a]" "na_status a = Running"
    "attempt_fine run_id mode d (Suc (length as)) a" "history_fine run_id mode d as"
    "\<forall>b \<in> set as. na_status b \<noteq> Running"
    using running_node_attempt [OF assms(1,3)] by metis
  let ?a = "a\<lparr>na_session_id := Some sid\<rparr>"
  have eq: "with_session sid st = st\<lparr>ns_attempts := as @ [?a]\<rparr>" by (simp add: with_session_def a(1))
  have hist: "history_fine run_id mode d (as @ [?a])"
    using a session_attempt_fine [OF a(3) assms(2)] by (simp add: history_fine_snoc)
  have hyd: "hydrated_node (st\<lparr>ns_attempts := as @ [?a]\<rparr>) = hydrated_node st"
    by (simp add: hydrated_node_def a(1) is_attempt_detail_def)
  have fin: "final_status (st\<lparr>ns_attempts := as @ [?a]\<rparr>) = final_status st" by (simp add: final_status_simps a(1))
  have out: "latest_output (as @ [?a]) = latest_output (as @ [a])" by (simp add: latest_output_snoc)
  show "node_fine run_id mode d (with_session sid st)"
    using assms(1) hist out unfolding eq node_fine_def hyd fin by (simp add: a(1))
  show "final_status (with_session sid st) = final_status st" using fin by (simp add: eq)
  show "latest_output (ns_attempts (with_session sid st)) = latest_output (ns_attempts st)" using out by (simp add: eq a(1))
  show "started_by now st \<Longrightarrow> started_by now (with_session sid st)"
    by (simp add: started_by_def eq a(1) final_attempt_def)
qed

lemma with_session_fields [simp]:
  "ns_status (with_session sid st) = ns_status st" "ns_output (with_session sid st) = ns_output st"
  "ns_current_attempt (with_session sid st) = ns_current_attempt st"
  by (simp_all add: with_session_def)

text \<open>An active node, its definition, its state and what is known of them.\<close>

lemma active_node:
  assumes "wave_ok env opts todo ps s" "map_of ps i = Some p" "active p"
  obtains d st where "d \<in> set (gd_nodes (rs_graph (es_run s)))" "nd_id d = i" "node_of (es_run s) i = Some st"
    "ns_status st = Running" "deps_done (es_run s) d" "node_fine (rs_run_id (es_run s)) (rs_mode (es_run s)) d st"
    "output_same (es_saved s) i st" "started_by (ee_now env (es_tick s)) st"
    "node_def_of (rs_graph (es_run s)) i = Some d"
proof -
  have B: "batch_ok env opts ps s" using assms(1) by (simp add: wave_ok_def)
  note D = batch_okD [OF B] and T = table_fineD [OF base_fine_table [OF batch_okD(1) [OF B]]]
  obtain d where d: "d \<in> set (gd_nodes (rs_graph (es_run s)))" "nd_id d = i" "deps_done (es_run s) d"
    using D(8) [OF assms(2)] assms(3) by blast
  obtain st where st: "node_of (es_run s) i = Some st" using nodes_match_Some [OF T(1) d(1)] d(2) by blast
  have e: "ns_status st = Running" "output_same (es_saved s) i st" "started_by (ee_now env (es_tick s)) st"
    using D(7) [OF st] assms(2,3) by (simp_all add: entry_ok_def)
  show thesis
    by (rule that [OF d(1,2) st e(1) d(3) T(5) [OF d(1)] e(2,3)])
      (use st d node_def_of_iff [OF T(4)] in auto)
qed

lemma reopen_ok_set_running:
  assumes "reopen_ok run" "distinct (map nd_id (gd_nodes (rs_graph run)))" "d \<in> set (gd_nodes (rs_graph run))"
    and "ns_status st' = Running \<or> final_status st' \<noteq> Some Done \<or> ns_status st' = Done"
  shows "reopen_ok (set_node (nd_id d) st' run)"
  by (rule reopen_ok_set_node [OF assms(1-3)]) (use assms(4) in \<open>auto simp: reopen_fine_def\<close>)

lemma record_session_ok:
  assumes "wave_ok env opts todo ps s" "mono (ee_now env)" "map_of ps i = Some p" "active p" "active p'"
    and "session_id_shape sid"
  shows "wave_ok env opts todo (AList.update i p' ps) (put_run (record_session i sid (es_run s)) s)"
proof -
  have B: "batch_ok env opts ps s" using assms(1) by (simp add: wave_ok_def)
  note D = batch_okD [OF B] and T = table_fineD [OF base_fine_table [OF batch_okD(1) [OF B]]]
  obtain d st where d: "d \<in> set (gd_nodes (rs_graph (es_run s)))" "nd_id d = i" "node_of (es_run s) i = Some st"
    "ns_status st = Running" "node_fine (rs_run_id (es_run s)) (rs_mode (es_run s)) d st"
    "output_same (es_saved s) i st" "started_by (ee_now env (es_tick s)) st"
    by (rule active_node [OF assms(1,3,4)]) blast
  note W = with_session_fine [OF d(5) assms(6) d(4)]
  let ?run = "set_node (nd_id d) (with_session sid st) (es_run s)"
  have eq: "record_session i sid (es_run s) = ?run"
    using d(2,3) by (simp add: record_session_def modify_node_def with_session_def)
  have st: "node_of (es_run s) (nd_id d) = Some st" using d by simp
  have base: "base_fine ?run"
    by (rule base_fine_set_node [OF D(1) d(1) st W(1)]) (auto simp: step_allowed_def d(4))
  have open': "reopen_ok ?run" by (rule reopen_ok_set_running [OF D(2) T(4) d(1)]) (simp add: d(4))
  have entry: "entry_ok (ee_now env (es_tick s)) (es_saved s) (Some p') (nd_id d) (with_session sid st)"
    using d(2,4,6,7) D(7) [OF st] W(3,4) assms(5)
    by (auto simp: entry_ok_def output_same_def output_kept_def settled_phase_def active_def)
  show ?thesis unfolding eq
    using wave_set_node [OF assms(1,2) d(1) _ assms(4) base open', of "put_run ?run s" p'] assms(3) d(2) entry by simp
qed

section \<open>Outcomes\<close>

lemma settled_node_facts:
  assumes "node_fine run_id mode d st" "ns_status st = Running" "output_same saved i st"
  shows "ns_status (settled_node env opts run d v now st) \<noteq> Running"
    "final_status (settled_node env opts run d v now st) = Some (if verdict_passed opts run d v then Done else Failed)"
    "ns_status (settled_node env opts run d v now st) = Done \<or>
       final_status (settled_node env opts run d v now st) = Some Failed"
    "output_kept saved i (settled_node env opts run d v now st)"
proof -
  let ?st = "settled_node env opts run d v now st"
  obtain as a where a: "ns_attempts st = as @ [a]" "na_status a = Running"
    "attempt_fine run_id mode d (Suc (length as)) a"
    using running_node_attempt [OF assms(1,2)] by metis
  show "ns_status ?st \<noteq> Running" by (simp add: settled_node_def)
  show fin: "final_status ?st = Some (if verdict_passed opts run d v then Done else Failed)"
    by (simp add: settled_node_def a(1) final_status_simps settled_attempt_def)
  then show "ns_status ?st = Done \<or> final_status ?st = Some Failed" by (simp add: settled_node_def)
  have "latest_output (ns_attempts ?st) = latest_output (ns_attempts st)" if "ns_output ?st = None"
    using that running_attempt_clean(7) [OF a(3,2)]
    by (simp add: settled_node_def a(1) latest_output_snoc settled_attempt_def)
  moreover have "ns_output st \<noteq> None \<longrightarrow> ns_output st = latest_output (ns_attempts st)"
    using assms(1) unfolding node_fine_def by blast
  ultimately show "output_kept saved i ?st"
    using assms(3) by (auto simp: output_kept_def output_same_def)
qed

lemma settle_node_lookup:
  "node_of (settle_node env opts run d reply now) j =
     (if j = nd_id d then map_option (settled_node env opts run d (verdict_of env opts run d reply) now) (node_of run j)
      else node_of run j)"
  by (simp add: settle_node_def Let_def)

lemma adopt_criteria_frame:
  "rs_revision (adopt_criteria d out run) = rs_revision run"
  by (auto simp: adopt_criteria_def split: option.splits agent_output.splits)

lemma settle_node_frame:
  "rs_graph (settle_node env opts run d reply now) = rs_graph run"
  "rs_status (settle_node env opts run d reply now) = rs_status run"
  "rs_mode (settle_node env opts run d reply now) = rs_mode run"
  "rs_revision (settle_node env opts run d reply now) = rs_revision run"
  "map fst (rs_nodes (settle_node env opts run d reply now)) = map fst (rs_nodes run)"
  by (simp_all add: settle_node_def Let_def adopt_criteria_frame)

lemma settle_ok:
  assumes "wave_ok env opts todo ps s" "mono (ee_now env)" "map_of ps i = Some Working"
    and "node_def_of (rs_graph (es_run s)) i = Some d" "reply_ok opts (es_run s) d reply"
  shows "wave_ok env opts todo (AList.update i Saving_outcome ps)
    (put_run (settle_node (ee_worker env) opts (es_run s) d reply (ee_now env (es_tick s))) (ask s))"
proof -
  have B: "batch_ok env opts ps s" using assms(1) by (simp add: wave_ok_def)
  note D = batch_okD [OF B] and T = table_fineD [OF base_fine_table [OF batch_okD(1) [OF B]]]
  obtain st where d: "d \<in> set (gd_nodes (rs_graph (es_run s)))" "nd_id d = i" "node_of (es_run s) i = Some st"
    "ns_status st = Running" "deps_done (es_run s) d" "node_fine (rs_run_id (es_run s)) (rs_mode (es_run s)) d st"
    "output_same (es_saved s) i st" "started_by (ee_now env (es_tick s)) st"
    by (rule active_node [OF assms(1,3)]) (use assms(4) in auto)
  let ?now = "ee_now env (es_tick s)" and ?v = "verdict_of (ee_worker env) opts (es_run s) d reply"
  let ?run = "settle_node (ee_worker env) opts (es_run s) d reply ?now"
  let ?st = "settled_node (ee_worker env) opts (es_run s) d ?v ?now st"
  note F = settled_node_facts [OF d(6,4,7), of "ee_worker env" opts "es_run s" ?v ?now]
  have st: "node_of (es_run s) (nd_id d) = Some st" using d(2,3) by simp
  have base: "base_fine ?run"
    by (rule settle_node_fine [OF D(1) d(1) st d(4,5) assms(5)]) (use D(4) d(8) in \<open>auto simp: started_by_def\<close>)
  have "reopen_ok ?run"
    unfolding reopen_ok_def
  proof (intro ballI allI impI)
    fix e t assume e: "e \<in> set (gd_nodes (rs_graph ?run))" "node_of ?run (nd_id e) = Some t"
    show "reopen_fine e t"
    proof (cases "nd_id e = nd_id d")
      case True
      then have "t = ?st" using e(2) st by (simp add: settle_node_lookup)
      then show ?thesis using F(3) by (auto simp: reopen_fine_def)
    next
      case False
      then show ?thesis using e reopen_okD [OF D(2)] by (simp add: settle_node_lookup settle_node_frame)
    qed
  qed
  moreover have "entry_ok t (es_saved s) (Some Saving_outcome) (nd_id d) ?st" for t
    using F(1,4) d(2) by (simp add: entry_ok_def)
  ultimately show ?thesis
    using wave_step [OF assms(1,2) d(1), of Working ?run ?st "put_run ?run (ask s)" Saving_outcome] base assms(3) d(2) st
    by (simp add: settle_node_lookup settle_node_frame)
qed

section \<open>Events\<close>

definition event_ok :: "execute_options \<Rightarrow> batch_event \<Rightarrow> bool" where
  "event_ok opts ev \<longleftrightarrow>
     (case ev of
        Session_created i sid linked \<Rightarrow> session_id_shape sid
      | Session_reported i sid \<Rightarrow> session_id_shape sid
      | Settled i reply \<Rightarrow> \<forall>run d. reply_ok opts run d reply
      | _ \<Rightarrow> True)"

definition boundary_ok :: "exec_state \<Rightarrow> run_failure \<Rightarrow> bool" where
  "boundary_ok s e \<longleftrightarrow> (e = Schema_rejected \<longrightarrow> MAX_SAFE_INTEGER \<le> rs_revision (es_run s))"

definition phases_ok :: "batch_state \<Rightarrow> bool" where
  "phases_ok b \<longleftrightarrow> (\<forall>i e. map_of (ba_phase b) i = Some (Ended (Boundary e)) \<longrightarrow> boundary_ok (ba_exec b) e)"

definition events_ok :: "exec_env \<Rightarrow> execute_options \<Rightarrow> node_def list \<Rightarrow> batch_state \<Rightarrow> bool" where
  "events_ok env opts todo b \<longleftrightarrow> wave_ok env opts todo (ba_phase b) (ba_exec b) \<and> phases_ok b"

lemma save_wave_ok:
  assumes "wave_ok env opts todo ps s" "mono (ee_now env)"
  shows "case save_run env s of
      Returned s' \<Rightarrow> wave_ok env opts todo ps s' \<and> es_saved s' = Some (es_run s') \<and> rs_revision (es_run s) \<le> rs_revision (es_run s')
    | Thrown e s' \<Rightarrow> wave_ok env opts todo ps s' \<and> boundary_ok s' e \<and> es_run s' = es_run s
    | Stalled s' \<Rightarrow> False"
proof -
  have B: "batch_ok env opts ps s" and todo: "todo_ok todo ps (es_run s)" using assms(1) by (simp_all add: wave_ok_def)
  have post: "save_post env (batch_ok env opts ps) (batch_ok env opts ps) (save_run env s)"
    by (rule save_batch_ok [OF B assms(2)])
  show ?thesis
  proof (cases rule: save_cases [of env s])
    case same
    then show ?thesis using assms(1) by simp
  next
    case (failed e)
    then show ?thesis using post todo by (auto simp: save_post_def wave_ok_def boundary_ok_def)
  next
    case (committed now)
    have "is_ready (Executor.committed (es_saved s) now (es_run s)) d" if "is_ready (es_run s) d" for d
      using that by (auto simp: is_ready_def committed_node_of split: option.splits)
    then show ?thesis using committed(2) post todo by (auto simp: save_post_def wave_ok_def todo_ok_def)
  qed
qed

lemma boundary_later:
  "boundary_ok s e \<Longrightarrow> rs_revision (es_run s) \<le> rs_revision (es_run s') \<Longrightarrow> boundary_ok s' e"
  by (auto simp: boundary_ok_def)

lemma events_okI:
  assumes "events_ok env opts todo b" "wave_ok env opts todo (AList.update i p (ba_phase b)) s"
    and "rs_revision (es_run (ba_exec b)) \<le> rs_revision (es_run s)" "\<And>e. p = Ended (Boundary e) \<Longrightarrow> boundary_ok s e"
  shows "events_ok env opts todo (enter i p (b\<lparr>ba_exec := s\<rparr>))"
  using assms boundary_later [OF _ assms(3)] by (auto simp: events_ok_def phases_ok_def enter_def)

lemma worker_save_ok:
  assumes "events_ok env opts todo b" "mono (ee_now env)" "phase_of b i = Some p"
    and "active q \<Longrightarrow> active p" "settled_phase q \<Longrightarrow> settled_phase p" "\<And>e. q = Ended (Boundary e) \<Longrightarrow> e = Handoff_failed"
  shows "events_ok env opts todo (worker_save env i q b)"
proof -
  have W: "wave_ok env opts todo (ba_phase b) (ba_exec b)" using assms(1) by (simp add: events_ok_def)
  have p: "map_of (ba_phase b) i = Some p" using assms(3) by (simp add: phase_of_def)
  note post = save_wave_ok [OF W assms(2)]
  show ?thesis
  proof (cases "save_run env (ba_exec b)")
    case (Returned s)
    then have w: "wave_ok env opts todo (ba_phase b) s" "rs_revision (es_run (ba_exec b)) \<le> rs_revision (es_run s)"
      using post by simp_all
    have "events_ok env opts todo (enter i q (b\<lparr>ba_exec := s\<rparr>))"
      by (rule events_okI [OF assms(1) wave_phase [OF w(1) p] w(2)])
        (use assms(4-6) in \<open>auto simp: boundary_ok_def\<close>)
    then show ?thesis using Returned by (simp add: worker_save_def)
  next
    case (Thrown e s)
    then have w: "wave_ok env opts todo (ba_phase b) s" "boundary_ok s e" "es_run s = es_run (ba_exec b)"
      using post by simp_all
    have "events_ok env opts todo (enter i (Ended (Boundary e)) (b\<lparr>ba_exec := s\<rparr>))"
      by (rule events_okI [OF assms(1) wave_phase [OF w(1) p]]) (use w in auto)
    then show ?thesis using Thrown by (simp add: worker_save_def)
  qed (use post in simp)
qed

lemma on_run_fields:
  "ba_phase (on_run f b) = ba_phase b" "ba_exec (on_run f b) = put_run (f (es_run (ba_exec b))) (ba_exec b)"
  by (simp_all add: on_run_def)

lemma apply_event_ok:
  assumes "events_ok env opts todo b" "mono (ee_now env)" "event_ok opts ev"
  shows "events_ok env opts todo (apply_event env opts ev b)"
proof -
  have W: "wave_ok env opts todo (ba_phase b) (ba_exec b)" using assms(1) by (simp add: events_ok_def)
  let ?run = "es_run (ba_exec b)"
  have session: "events_ok env opts todo (enter i Saving_session (on_run (record_session i sid) b))"
    if "phase_of b i = Some Working" "session_id_shape sid" for i sid
  proof -
    have w: "wave_ok env opts todo (AList.update i Saving_session (ba_phase b)) (put_run (record_session i sid ?run) (ba_exec b))"
      by (rule record_session_ok [OF W assms(2) _ _ _ that(2)]) (use that(1) in \<open>auto simp: phase_of_def\<close>)
    show ?thesis unfolding on_run_def
      by (rule events_okI [OF assms(1) w]) (simp_all add: record_session_def)
  qed
  have relabel: "events_ok env opts todo (enter i q b)"
    if "phase_of b i = Some Working" "\<not> settled_phase q" "\<And>e. q = Ended (Boundary e) \<Longrightarrow> e = Link_failed" for i q
  proof -
    have w: "wave_ok env opts todo (AList.update i q (ba_phase b)) (ba_exec b)"
      by (rule wave_phase [OF W, of i Working]) (use that in \<open>auto simp: phase_of_def\<close>)
    have "events_ok env opts todo (enter i q (b\<lparr>ba_exec := ba_exec b\<rparr>))"
      by (rule events_okI [OF assms(1) w]) (use that(3) in \<open>auto simp: boundary_ok_def\<close>)
    then show ?thesis by simp
  qed
  show ?thesis
  proof (cases ev)
    case (Session_created i sid linked)
    then show ?thesis
      using session [of i sid] relabel [of i "Ended (Boundary Link_failed)"] assms(1,3)
      by (auto simp: apply_event_def event_ok_def)
  next
    case (Session_reported i sid)
    then show ?thesis using session [of i sid] assms(1,3) by (auto simp: apply_event_def event_ok_def)
  next
    case (Saved i proceeds)
    show ?thesis
    proof (cases "phase_of b i = Some Saving_session")
      case True
      have "events_ok env opts todo (worker_save env i (if proceeds then Working else Ended (Boundary Handoff_failed)) b)"
        by (rule worker_save_ok [OF assms(1,2) True]) (auto split: if_splits)
      then show ?thesis using Saved True by (simp add: apply_event_def)
    next
      case not_session: False
      show ?thesis
      proof (cases "phase_of b i = Some Saving_outcome")
        case True
        have "events_ok env opts todo (worker_save env i (Ended Fulfilled) b)"
          by (rule worker_save_ok [OF assms(1,2) True]) auto
        then show ?thesis using Saved not_session True by (simp add: apply_event_def)
      next
        case False
        then show ?thesis using Saved not_session assms(1) by (simp add: apply_event_def)
      qed
    qed
  next
    case (Settled i reply)
    show ?thesis
    proof (cases "phase_of b i = Some Working")
      case True
      show ?thesis
      proof (cases "node_def_of (rs_graph ?run) i")
        case None
        then show ?thesis using Settled True assms(1) by (simp add: apply_event_def)
      next
        case (Some d)
        have p: "map_of (ba_phase b) i = Some Working" using True by (simp add: phase_of_def)
        have r: "reply_ok opts ?run d reply" using assms(3) Settled by (simp add: event_ok_def)
        let ?s = "put_run (settle_node (ee_worker env) opts ?run d reply (ee_now env (es_tick (ba_exec b)))) (ask (ba_exec b))"
        have "events_ok env opts todo (enter i Saving_outcome (b\<lparr>ba_exec := ?s\<rparr>))"
          by (rule events_okI [OF assms(1) settle_ok [OF W assms(2) p Some r]]) (simp_all add: settle_node_frame)
        then show ?thesis using Settled True Some by (simp add: apply_event_def Let_def on_run_def)
      qed
    next
      case False
      then show ?thesis using Settled assms(1) by (simp add: apply_event_def)
    qed
  next
    case (Broke i reason)
    then show ?thesis using relabel [of i "Ended (Rejected reason)"] assms(1) by (auto simp: apply_event_def)
  qed
qed

lemma run_events_ok:
  "events_ok env opts todo b \<Longrightarrow> mono (ee_now env) \<Longrightarrow> list_all (event_ok opts) evs \<Longrightarrow>
   events_ok env opts todo (run_events env opts evs b)"
  by (induction evs arbitrary: b) (simp_all add: apply_event_ok)

end
