(* ===== verification/Executor_Loop.thy ===== *)
theory Executor_Loop
  imports Executor_Steps
begin

text \<open>
  From the steps of a batch to the whole execution: reservations, the results of a batch, the
  passes between waves and the closing save each keep the invariant, and an interface
  (\<open>run_progress\<close>) carries any relation between runs that the elementary changes respect through
  all waves to every committed generation.
\<close>

section \<open>Reserving\<close>

lemma reserve_attempt_cases:
  assumes "node_of run (nd_id d) = Some st"
  obtains (limited) st' where "reserve_attempt now run d = (set_node (nd_id d) st' run, False)"
      "ns_status st' = Pending \<or> ns_status st' = Failed" "ns_output st' = ns_output st" "ns_attempts st' = ns_attempts st"
      "ns_status st' = Pending \<Longrightarrow> ns_current_attempt st < max_attempts d" "ns_current_attempt st' = ns_current_attempt st"
  | (reserved) "reserve_attempt now run d =
        ((set_node (nd_id d) (reserved_node now st) run)\<lparr>rs_global_attempts := rs_global_attempts run + 1\<rparr>, True)"
      "ns_current_attempt st < max_attempts d" "rs_global_attempts run < gd_max_global_attempts (rs_graph run)"
proof (cases "max_attempts d \<le> ns_current_attempt st")
  case True
  then show thesis
    using assms limited [of "st\<lparr>ns_status := Failed, ns_last_failures := local_limit_failure d\<rparr>"]
    by (simp add: reserve_attempt_def)
next
  case local_ok: False
  show thesis
  proof (cases "gd_max_global_attempts (rs_graph run) \<le> rs_global_attempts run")
    case True
    then show thesis
      using assms local_ok
        limited [of "st\<lparr>ns_status := exhausted_status st, ns_last_failures := global_limit_failure run\<rparr>"]
      by (simp add: reserve_attempt_def exhausted_status_def)
  next
    case False
    then show thesis using assms local_ok reserved by (simp add: reserve_attempt_def reserved_node_def)
  qed
qed

lemma reserved_node_fields [simp]:
  "ns_status (reserved_node now st) = Running" "ns_output (reserved_node now st) = ns_output st"
  "final_attempt (reserved_node now st) = Some (new_attempt (ns_current_attempt st + 1) now)"
  "latest_output (ns_attempts (reserved_node now st)) = latest_output (ns_attempts st)"
  by (simp_all add: reserved_node_def final_attempt_def latest_output_snoc new_attempt_def)

lemma wave_ok_ready:
  assumes "wave_ok env opts todo ps s" "d \<in> set todo"
  obtains st where "d \<in> set (gd_nodes (rs_graph (es_run s)))" "node_of (es_run s) (nd_id d) = Some st"
    "schedulable (ns_status st)" "deps_done (es_run s) d" "map_of ps (nd_id d) = None"
    "output_same (es_saved s) (nd_id d) st" "output_kept (es_saved s) (nd_id d) st"
proof -
  have B: "batch_ok env opts ps s" and t: "d \<in> set (gd_nodes (rs_graph (es_run s)))" "is_ready (es_run s) d"
    "nd_id d \<notin> fst ` set ps"
    using assms by (auto simp: wave_ok_def todo_ok_def)
  obtain st where st: "node_of (es_run s) (nd_id d) = Some st" "schedulable (ns_status st)" "deps_done (es_run s) d"
    using is_ready_lookup [OF t(2)] by blast
  have none: "map_of ps (nd_id d) = None" using t(3) by (simp add: map_of_eq_None_iff)
  show thesis
    using that [OF t(1) st none] batch_okD(7) [OF B st(1)] none by (simp add: entry_ok_def)
qed

text \<open>A reservation moves the first node of the list into the batch.\<close>

lemma reserve_step_ok:
  assumes "wave_ok env opts (d # todo) ps s" "mono (ee_now env)"
    and "reserve_step env (s, ps) d = (s', ps')"
  shows "wave_ok env opts todo ps' s'" "es_saved s' = es_saved s" "es_commits s' = es_commits s"
    "es_run s' = fst (reserve_attempt (ee_now env (es_tick s)) (es_run s) d)"
proof -
  have B: "batch_ok env opts ps s" and todo: "todo_ok (d # todo) ps (es_run s)" using assms(1) by (simp_all add: wave_ok_def)
  note D = batch_okD [OF B] and T = table_fineD [OF base_fine_table [OF batch_okD(1) [OF B]]]
  obtain st where st: "d \<in> set (gd_nodes (rs_graph (es_run s)))" "node_of (es_run s) (nd_id d) = Some st"
    "schedulable (ns_status st)" "deps_done (es_run s) d" "map_of ps (nd_id d) = None"
    "output_same (es_saved s) (nd_id d) st" "output_kept (es_saved s) (nd_id d) st"
    by (rule wave_ok_ready [OF assms(1)]) auto
  let ?now = "ee_now env (es_tick s)"
  obtain run ok where r: "reserve_attempt ?now (es_run s) d = (run, ok)" by fastforce
  let ?p = "if ok then Working else Ended Fulfilled"
  have s': "s' = put_run run (ask s)" "ps' = ps @ [(nd_id d, ?p)]"
    using assms(3) by (simp_all add: reserve_step_def r)
  show "es_saved s' = es_saved s" "es_commits s' = es_commits s" "es_run s' = fst (reserve_attempt ?now (es_run s) d)"
    by (simp_all add: s' r)
  have base: "base_fine run" using reserve_attempt_fine [OF D(1,2) st(1-3), of ?now] r by simp
  obtain st' where new: "\<And>j. node_of run j = (if j = nd_id d then Some st' else node_of (es_run s) j)"
    "rs_graph run = rs_graph (es_run s)" "rs_status run = rs_status (es_run s)" "rs_mode run = rs_mode (es_run s)"
    "rs_revision run = rs_revision (es_run s)" "map fst (rs_nodes run) = map fst (rs_nodes (es_run s))"
    "entry_ok (ee_now env (Suc (es_tick s))) (es_saved s) (Some ?p) (nd_id d) st'" "reopen_fine d st'"
    using st(2)
  proof (cases rule: reserve_attempt_cases [where now = ?now])
    case (limited st')
    have final: "reopen_fine d st'"
      using limited reopen_okD [OF D(2) st(1,2)] st(3) by (auto simp: reopen_fine_def)
    show thesis
      by (rule that [of st'])
        (use limited st r final keys_set_node [of "es_run s" "nd_id d"] in
          \<open>auto simp: set_node_fields entry_ok_def output_same_def output_kept_def settled_phase_def\<close>)
  next
    case reserved
    have keys: "map fst (rs_nodes (set_node (nd_id d) (reserved_node ?now st) (es_run s))) = map fst (rs_nodes (es_run s))"
      by (rule keys_set_node) (simp add: st(2))
    have look: "node_of run j = node_of (set_node (nd_id d) (reserved_node ?now st) (es_run s)) j" for j
      using reserved(1) r by (auto simp: node_of_def)
    have "?now \<le> ee_now env (Suc (es_tick s))" using assms(2) by (simp add: mono_def)
    then have "entry_ok (ee_now env (Suc (es_tick s))) (es_saved s) (Some Working) (nd_id d) (reserved_node ?now st)"
      using st(6,7) by (auto simp: entry_ok_def output_same_def output_kept_def started_by_def new_attempt_def)
    then show thesis
      by (intro that [of "reserved_node ?now st"])
        (use reserved r look keys in \<open>auto simp: set_node_fields reopen_fine_def\<close>)
  qed
  have nd: "node_status_of (es_run s) (nd_id d) \<noteq> Some Done" using st(2,3) by (auto simp: node_status_of_def)
  have deps: "deps_done run e" if "deps_done (es_run s) e" for e
    by (rule deps_done_elsewhere [OF that nd]) (simp add: new(1))
  have map: "map_of ps' i = (if i = nd_id d then Some ?p else map_of ps i)" for i
    using st(5) by (auto simp: s' map_add_def split: option.split)
  have "batch_ok env opts ps' s'"
  proof (rule batch_okI)
    show "base_fine (es_run s')" using base by (simp add: s')
    show "rs_status (es_run s') = Run_running" "1 \<le> rs_revision (es_run s')" using D(3,9) new by (simp_all add: s')
    show "rs_mode (es_run s') = Dry" if "xo_dry opts" using D(4) [OF that] new by (simp add: s')
    show "saved_ok s'" using D(5) new by (cases "es_saved s") (simp_all add: saved_ok_def s')
    show "distinct (map fst ps')" using D(6) todo by (simp add: s' todo_ok_def)
    show "reopen_ok (es_run s')"
      using D(2) new distinct_index_unique [OF T(4) _ st(1)] by (auto simp: reopen_ok_def s')
    show "entry_ok (ee_now env (es_tick s')) (es_saved s') (map_of ps' i) i t" if t: "node_of (es_run s') i = Some t" for i t
    proof (cases "i = nd_id d")
      case True
      then have "t = st'" using t new(1) by (simp add: s'(1))
      then show ?thesis using new(7) True unfolding map by (simp add: s'(1))
    next
      case False
      then have "node_of (es_run s) i = Some t" using t new(1) by (simp add: s')
      from entry_ok_later [OF D(7) [OF this], of "ee_now env (Suc (es_tick s))"] show ?thesis
        using False assms(2) unfolding map by (simp add: s'(1) mono_def)
    qed
    show "\<exists>e \<in> set (gd_nodes (rs_graph (es_run s'))). nd_id e = i \<and> (active q \<longrightarrow> deps_done (es_run s') e)"
      if q: "map_of ps' i = Some q" for i q
      using q st(1,4) D(8) [of i q] deps new(2) by (cases "i = nd_id d") (auto simp: s'(1) map)
  qed
  moreover have sep: "nd_id e \<noteq> nd_id d" if e: "e \<in> set todo" for e
  proof -
    have "nd_id e \<in> nd_id ` set todo" using e by (rule imageI)
    moreover have "nd_id d \<notin> nd_id ` set todo" using todo by (simp add: todo_ok_def)
    ultimately show ?thesis by metis
  qed
  have "is_ready run e" if e: "e \<in> set todo" for e
  proof -
    have "is_ready (es_run s) e" using todo e by (simp add: todo_ok_def)
    then show ?thesis using deps [of e] new(1) sep [OF e] by (auto simp: is_ready_def split: option.splits)
  qed
  then have "todo_ok todo ps' (es_run s')"
    using todo new(2) sep by (simp add: todo_ok_def s')
  ultimately show "wave_ok env opts todo ps' s'" by (simp add: wave_ok_def)
qed

section \<open>Results\<close>

definition result_ok :: "(exec_state \<Rightarrow> bool) \<Rightarrow> (run_failure \<Rightarrow> exec_state \<Rightarrow> bool) \<Rightarrow> (exec_state \<Rightarrow> bool) \<Rightarrow>
    exec_result \<Rightarrow> bool" where
  "result_ok good bad stuck r \<longleftrightarrow>
     (case r of Returned s \<Rightarrow> good s | Thrown e s \<Rightarrow> bad e s | Stalled s \<Rightarrow> stuck s)"

lemma result_ok_simps [simp]:
  "result_ok good bad stuck (Returned s) = good s" "result_ok good bad stuck (Thrown e s) = bad e s"
  "result_ok good bad stuck (Stalled s) = stuck s"
  by (simp_all add: result_ok_def)

lemma and_then_simps [simp]:
  "and_then (Returned s) f = f s" "and_then (Thrown e s) f = Thrown e s" "and_then (Stalled s) f = Stalled s"
  by (simp_all add: and_then_def)

lemma and_then_ok:
  "result_ok mid bad stuck r \<Longrightarrow> (\<And>s. mid s \<Longrightarrow> result_ok good bad stuck (f s)) \<Longrightarrow>
   result_ok good bad stuck (and_then r f)"
  by (cases r) simp_all

lemma result_ok_mono:
  "result_ok good bad stuck r \<Longrightarrow> (\<And>s. good s \<Longrightarrow> good' s) \<Longrightarrow> (\<And>e s. bad e s \<Longrightarrow> bad' e s) \<Longrightarrow>
   (\<And>s. stuck s \<Longrightarrow> stuck' s) \<Longrightarrow> result_ok good' bad' stuck' r"
  by (cases r) simp_all

text \<open>The batch is over: every worker fulfilled, and the last save covers the run.\<close>

lemma batch_over:
  assumes "wave_ok env opts todo ps s" "\<And>i p. map_of ps i = Some p \<Longrightarrow> p = Ended Fulfilled"
    and "es_saved s = Some (es_run s)"
  shows "wave_ok env opts todo [] s"
proof -
  have B: "batch_ok env opts ps s" using assms(1) by (simp add: wave_ok_def)
  note D = batch_okD [OF B]
  have "batch_ok env opts [] s"
  proof (rule batch_okI)
    show "entry_ok (ee_now env (es_tick s)) (es_saved s) (map_of [] i) i st" if n: "node_of (es_run s) i = Some st" for i st
      using D(7) [OF n] assms(2) [of i] assms(3) n by (cases "map_of ps i") (auto simp: entry_ok_def output_same_def)
  qed (use D(1-6,9) in simp_all)
  then show ?thesis using assms(1) by (simp add: wave_ok_def todo_ok_def)
qed

lemma rejected_ok:
  assumes "wave_ok env opts todo ps s" "mono (ee_now env)" "map_of ps i = Some (Ended (Rejected reason))"
  obtains d run where "node_def_of (rs_graph (es_run s)) i = Some d"
    "reject_node (ee_worker env) (es_run s) d reason (ee_now env (es_tick s)) = Some run"
    "wave_ok env opts todo (AList.update i (Ended Fulfilled) ps) (put_run run (ask s))"
proof -
  have B: "batch_ok env opts ps s" using assms(1) by (simp add: wave_ok_def)
  note D = batch_okD [OF B] and T = table_fineD [OF base_fine_table [OF batch_okD(1) [OF B]]]
  obtain d st where d: "d \<in> set (gd_nodes (rs_graph (es_run s)))" "nd_id d = i" "node_of (es_run s) i = Some st"
    "ns_status st = Running" "node_fine (rs_run_id (es_run s)) (rs_mode (es_run s)) d st"
    "output_same (es_saved s) i st" "started_by (ee_now env (es_tick s)) st"
    "node_def_of (rs_graph (es_run s)) i = Some d"
    by (rule active_node [OF assms(1,3)]) auto
  let ?now = "ee_now env (es_tick s)"
  let ?st = "rejected_node (ee_worker env) d reason ?now st"
  let ?run = "set_node (nd_id d) ?st (es_run s)"
  have st: "node_of (es_run s) (nd_id d) = Some st" using d(2,3) by simp
  have started: "na_started_at a \<le> ?now" if "final_attempt st = Some a" for a
    using d(7) that by (simp add: started_by_def)
  obtain run where run: "reject_node (ee_worker env) (es_run s) d reason ?now = Some run" "base_fine run" "run = ?run"
    using reject_node_fine [OF D(1) d(1) st d(4) started, of "ee_worker env" reason] by blast
  obtain as a where a: "ns_attempts st = as @ [a]" "na_status a = Running"
    "attempt_fine (rs_run_id (es_run s)) (rs_mode (es_run s)) d (Suc (length as)) a"
    using running_node_attempt [OF d(5,4)] by metis
  have new: "ns_status ?st \<noteq> Running" "final_status ?st = Some Failed" "ns_output ?st = ns_output st"
    "latest_output (ns_attempts ?st) = latest_output (ns_attempts st)"
    using running_attempt_clean(7) [OF a(3,2)]
    by (simp_all add: rejected_node_def Let_def a(1) final_status_simps rejected_attempt_def latest_output_snoc)
  have base: "base_fine ?run" using run(2,3) by simp
  have open': "reopen_ok ?run" by (rule reopen_ok_set_running [OF D(2) T(4) d(1)]) (simp add: new(2))
  have "entry_ok now (es_saved s) (Some (Ended Fulfilled)) (nd_id d) ?st" for now
    using D(7) [OF st] new d(2) by (auto simp: entry_ok_def output_kept_def)
  then have "wave_ok env opts todo (AList.update (nd_id d) (Ended Fulfilled) ps) (put_run ?run (ask s))"
    using wave_set_node [OF assms(1,2) d(1) _ _ base open', of "Ended (Rejected reason)" "put_run ?run (ask s)" "Ended Fulfilled"]
      assms(3) d(2) by simp
  then show thesis using that [OF d(8) run(1)] run(3) d(2) by simp
qed

lemma settle_results_ok:
  assumes "wave_ok env opts todo ps s" "mono (ee_now env)" "distinct (map fst rest)" "\<not> batch_open rest"
    and "\<And>i p. (i, p) \<in> set rest \<Longrightarrow> map_of ps i = Some p"
    and "\<And>i p. map_of ps i = Some p \<Longrightarrow> p = Ended Fulfilled \<or> i \<in> fst ` set rest"
    and "\<And>i e. map_of ps i = Some (Ended (Boundary e)) \<Longrightarrow> boundary_ok s e"
  shows "result_ok (\<lambda>s'. \<exists>ps'. wave_ok env opts todo ps' s' \<and> (\<forall>i p. map_of ps' i = Some p \<longrightarrow> p = Ended Fulfilled))
    (\<lambda>e s'. boundary_ok s' e \<and> (\<exists>ps'. wave_ok env opts todo ps' s')) (\<lambda>_. False) (settle_results env rest s)"
  using assms
proof (induction rest arbitrary: ps s)
  case Nil
  then show ?case by auto
next
  case (Cons x rest)
  obtain i p where x: "x = (i, p)" by fastforce
  have p: "map_of ps i = Some p" using Cons.prems(5) x by simp
  have ended: "\<exists>e. p = Ended e" using Cons.prems(4) x by (cases p) (auto simp: batch_open_def)
  have closed: "\<not> batch_open rest" "distinct (map fst rest)" using Cons.prems(3,4) by (simp_all add: batch_open_def)
  have not_in: "i \<notin> fst ` set rest" using Cons.prems(3) x by simp
  obtain e where e: "p = Ended e" using ended by blast
  show ?case
  proof (cases e)
    case Fulfilled
    have "q = Ended Fulfilled \<or> j \<in> fst ` set rest" if "map_of ps j = Some q" for j q
      using Cons.prems(6) [OF that] p that e Fulfilled x by auto
    then show ?thesis using Cons.IH [OF Cons.prems(1,2) closed(2,1)] Cons.prems(5,7) x e Fulfilled by simp
  next
    case (Boundary f)
    then show ?thesis using Cons.prems(1,7) p x e by auto
  next
    case (Rejected reason)
    obtain d run where r: "node_def_of (rs_graph (es_run s)) i = Some d"
      "reject_node (ee_worker env) (es_run s) d reason (ee_now env (es_tick s)) = Some run"
      "wave_ok env opts todo (AList.update i (Ended Fulfilled) ps) (put_run run (ask s))"
      using rejected_ok [OF Cons.prems(1,2)] p e Rejected by metis
    have rev: "rs_revision run = rs_revision (es_run s)"
      using r(2) by (auto simp: reject_node_def set_node_fields split: option.splits if_splits)
    let ?ps = "AList.update i (Ended Fulfilled) ps"
    have 5: "map_of ?ps j = Some q" if "(j, q) \<in> set rest" for j q
      using Cons.prems(5) that not_in x by (force simp: image_iff)
    have 6: "q = Ended Fulfilled \<or> j \<in> fst ` set rest" if "map_of ?ps j = Some q" for j q
      using Cons.prems(6) [of j q] that x by (auto split: if_splits)
    have 7: "boundary_ok (put_run run (ask s)) f" if "map_of ?ps j = Some (Ended (Boundary f))" for j f
      using Cons.prems(7) [of j f] that rev by (auto simp: boundary_ok_def split: if_splits)
    show ?thesis using Cons.IH [OF r(3) Cons.prems(2) closed(2,1) 5 6 7] x e Rejected r(1,2) by simp
  qed
qed

section \<open>Between waves\<close>

definition outputs_kept :: "run_state \<Rightarrow> run_state \<Rightarrow> bool" where
  "outputs_kept run run' \<longleftrightarrow>
     (\<forall>i st'. node_of run' i = Some st' \<longrightarrow>
        (\<exists>st. node_of run i = Some st \<and> ns_output st' = ns_output st \<and>
           latest_output (ns_attempts st') = latest_output (ns_attempts st)))"

lemma outputs_kept_refl: "outputs_kept run run"
  by (simp add: outputs_kept_def)

lemma outputs_kept_trans: "outputs_kept a b \<Longrightarrow> outputs_kept b c \<Longrightarrow> outputs_kept a c"
  unfolding outputs_kept_def by metis

lemma wave_ok_idle: "wave_ok env opts todo [] s \<Longrightarrow> idle_fine (es_run s)"
  using batch_okD(1,2) [of env opts "[]" s] batch_okD(7) [of env opts "[]" s]
  by (auto simp: wave_ok_def idle_fine_def no_running_def entry_ok_def)

lemma idle_step:
  assumes "wave_ok env opts todo [] s" "idle_fine run" "same_but_nodes (es_run s) run" "outputs_kept (es_run s) run"
    and "map fst (rs_nodes run) = map fst (rs_nodes (es_run s))" "es_run s' = run" "es_saved s' = es_saved s"
    "es_commits s' = es_commits s"
  shows "wave_ok env opts [] [] s'"
proof -
  have B: "batch_ok env opts [] s" using assms(1) by (simp add: wave_ok_def)
  note D = batch_okD [OF B] and F = same_but_nodes_fields [OF assms(3)]
  have rev: "rs_revision run = rs_revision (es_run s)" using assms(3) by (auto simp: same_but_nodes_def)
  have "batch_ok env opts [] s'"
  proof (rule batch_okI)
    show "entry_ok (ee_now env (es_tick s')) (es_saved s') (map_of [] i) i st'" if n: "node_of (es_run s') i = Some st'" for i st'
    proof -
      obtain st where st: "node_of (es_run s) i = Some st" "ns_output st' = ns_output st"
        "latest_output (ns_attempts st') = latest_output (ns_attempts st)"
        using assms(4,6) n unfolding outputs_kept_def by metis
      moreover have "ns_status st' \<noteq> Running" using assms(2,6) n by (auto simp: idle_fine_def no_running_def)
      ultimately show ?thesis using D(7) [OF st(1)] assms(7)
        by (simp add: entry_ok_def output_same_def output_kept_def) blast
    qed
    show "saved_ok s'" using D(5) assms(5-8) rev by (cases "es_saved s") (simp_all add: saved_ok_def)
  qed (use D(1-6,9) assms(2,6) F rev in \<open>simp_all add: idle_fine_def\<close>)
  then show ?thesis by (simp add: wave_ok_def todo_ok_def)
qed

lemma skips_outputs:
  assumes "skips run run'"
  shows "outputs_kept run run'"
  unfolding outputs_kept_def
proof (intro allI impI)
  fix i st' assume st': "node_of run' i = Some st'"
  show "\<exists>st. node_of run i = Some st \<and> ns_output st' = ns_output st \<and>
      latest_output (ns_attempts st') = latest_output (ns_attempts st)"
    using assms
  proof (cases rule: skips_cases [of run run' i])
    case same
    then have "node_of run i = Some st'" using st' by (simp only:)
    then show ?thesis by simp
  qed (use st' in auto)
qed

lemma propagate_skips_step:
  assumes "base_fine run"
  shows "outputs_kept run (propagate_skips run)" "map fst (rs_nodes (propagate_skips run)) = map fst (rs_nodes run)"
  using propagate_skips_skips [OF assms] skips_outputs by (auto simp: skips_def)

lemma modify_outputs:
  "(\<And>st. node_of run i = Some st \<Longrightarrow> ns_output (f st) = ns_output st \<and>
     latest_output (ns_attempts (f st)) = latest_output (ns_attempts st)) \<Longrightarrow> outputs_kept run (modify_node i f run)"
  by (auto simp: outputs_kept_def)

lemma limit_node_step:
  "outputs_kept run (limit_node run d)" "map fst (rs_nodes (limit_node run d)) = map fst (rs_nodes run)"
  by (auto simp: limit_node_def intro: modify_outputs outputs_kept_refl)

lemma limit_fold_step:
  "outputs_kept run (foldl limit_node run ds) \<and> map fst (rs_nodes (foldl limit_node run ds)) = map fst (rs_nodes run)"
proof (induction ds arbitrary: run)
  case Nil
  then show ?case by (simp add: outputs_kept_refl)
next
  case (Cons d ds)
  show ?case using Cons.IH [of "limit_node run d"] limit_node_step outputs_kept_trans by fastforce
qed

lemma finish_global_limit_step:
  assumes "idle_fine run"
  shows "outputs_kept run (finish_global_limit run)" "map fst (rs_nodes (finish_global_limit run)) = map fst (rs_nodes run)"
proof -
  let ?run = "foldl limit_node run (gd_nodes (rs_graph run))"
  have "base_fine ?run" using limit_fold_fine [OF assms order_refl] by (simp add: idle_fine_def)
  then have "outputs_kept run (propagate_skips ?run)" "map fst (rs_nodes (propagate_skips ?run)) = map fst (rs_nodes run)"
    using propagate_skips_step [of ?run] limit_fold_step [of run] outputs_kept_trans by metis+
  then show "outputs_kept run (finish_global_limit run)" "map fst (rs_nodes (finish_global_limit run)) = map fst (rs_nodes run)"
    by (simp_all add: finish_global_limit_def outputs_kept_refl)
qed

lemma latest_output_mark: "latest_output (ns_attempts (mark_feedback_applied st)) = latest_output (ns_attempts st)"
  by (cases "ns_attempts st" rule: rev_cases) (simp_all add: mark_feedback_applied_def latest_output_snoc)

lemma mark_outputs: "outputs_kept run (modify_node i mark_feedback_applied run)"
  by (intro modify_outputs) (simp add: latest_output_mark, simp add: mark_feedback_applied_def)

lemma reopen_outputs: "outputs_kept run (foldl reopen_descendant run ids)"
proof (induction ids arbitrary: run)
  case Nil
  then show ?case by (simp add: outputs_kept_refl)
next
  case (Cons i ids)
  have "outputs_kept run (reopen_descendant run i)"
  proof (cases "node_def_of (rs_graph run) i")
    case None
    then show ?thesis by (simp add: reopen_descendant_def outputs_kept_refl)
  next
    case (Some d)
    have "outputs_kept run (modify_node i (\<lambda>st. if has_attempts_left d st then st\<lparr>ns_status := Pending\<rparr> else st) run)"
      by (rule modify_outputs) simp
    then show ?thesis by (simp only: reopen_descendant_def Some option.case)
  qed
  then show ?case using Cons.IH [of "reopen_descendant run i"] outputs_kept_trans by (simp only: foldl_Cons)
qed

lemma feedback_outputs: "outputs_kept run (feedback_result redact run checker t cs)"
proof -
  have "outputs_kept (modify_node (nd_id checker) mark_feedback_applied run)
      (modify_node t (\<lambda>st. st\<lparr>ns_status := Pending,
        ns_last_failures := bound_diagnostic_list redact [] (ns_last_failures cs)\<rparr>)
        (modify_node (nd_id checker) mark_feedback_applied run))"
    by (rule modify_outputs) simp
  then show ?thesis
    unfolding feedback_result_def
    by (rule outputs_kept_trans [OF mark_outputs outputs_kept_trans [OF _ reopen_outputs]])
qed

lemma feedback_action_shape:
  assumes "distinct (map nd_id (gd_nodes (rs_graph run)))"
  shows "case feedback_action redact run checker of
      No_feedback \<Rightarrow> True
    | Budget_spent run' \<Rightarrow> run' = modify_node (nd_id checker) mark_feedback_applied run
    | Routed run' \<Rightarrow> \<exists>t cs. run' = feedback_result redact run checker t cs"
  using assms
proof (cases rule: feedback_action_cases [where redact = redact and checker = checker])
  case (found target cs ts latest)
  then show ?thesis by (auto simp: Let_def feedback_result_def)
qed simp

lemma feedback_action_step:
  assumes "idle_fine run" "feedback_action redact run checker = Budget_spent run' \<or> feedback_action redact run checker = Routed run'"
  shows "outputs_kept run run'" "map fst (rs_nodes run') = map fst (rs_nodes run)"
proof -
  have ids: "distinct (map nd_id (gd_nodes (rs_graph run)))"
    using assms(1) base_fine_table table_fineD(4) by (auto simp: idle_fine_def)
  show "outputs_kept run run'" "map fst (rs_nodes run') = map fst (rs_nodes run)"
    using feedback_action_shape [OF ids, where redact = redact and checker = checker] assms(2) mark_outputs feedback_outputs feedback_result_frame(2)
    by auto
qed

end
