(* ===== verification/Execution.thy ===== *)
theory Execution
  imports Executor_Loop
begin

text \<open>
  The whole execution. The interface \<open>run_progress\<close> lists what a relation between runs has to
  respect (a change of the node table that only extends histories, a reservation, new criteria, a
  new status or summary, a committed generation); inside it the invariant and the relation are
  carried through every batch, wave and save of \<open>executeRun\<close>. It is interpreted on two relations of
  the model: the growth of attempt histories and the identity of the task.
\<close>

section \<open>Evolving nodes\<close>

definition attempt_evolves :: "node_attempt \<Rightarrow> node_attempt \<Rightarrow> bool" where
  "attempt_evolves a b \<longleftrightarrow> na_attempt b = na_attempt a \<and> na_started_at b = na_started_at a \<and>
     (na_status a \<noteq> Running \<longrightarrow> b = a\<lparr>na_feedback_applied := na_feedback_applied b\<rparr>)"

definition node_evolves :: "node_state \<Rightarrow> node_state \<Rightarrow> bool" where
  "node_evolves st st' \<longleftrightarrow> list_all2 attempt_evolves (ns_attempts st) (ns_attempts st')"

definition nodes_evolve :: "run_state \<Rightarrow> run_state \<Rightarrow> bool" where
  "nodes_evolve run run' \<longleftrightarrow> same_but_nodes run run' \<and> map fst (rs_nodes run') = map fst (rs_nodes run) \<and>
     (\<forall>i st. node_of run i = Some st \<longrightarrow> (\<exists>st'. node_of run' i = Some st' \<and> node_evolves st st'))"

lemma attempt_evolves_refl [simp]: "attempt_evolves a a"
  by (simp add: attempt_evolves_def)

lemma node_evolves_same [simp]: "ns_attempts st' = ns_attempts st \<Longrightarrow> node_evolves st st'"
  by (simp add: node_evolves_def list.rel_refl)

lemma node_evolves_last:
  assumes "\<And>a. final_attempt st = Some a \<Longrightarrow> attempt_evolves a (f a)" "ns_attempts st' = update_last f (ns_attempts st)"
  shows "node_evolves st st'"
proof (cases "ns_attempts st" rule: rev_cases)
  case Nil
  then show ?thesis using assms(2) by (simp add: node_evolves_def update_last_def)
next
  case (snoc as a)
  then have "attempt_evolves a (f a)" using assms(1) by (simp add: final_attempt_def)
  then show ?thesis using snoc assms(2) by (simp add: node_evolves_def list_all2_appendI list.rel_refl)
qed

lemma running_final:
  assumes "node_fine r m d st" "ns_status st = Running" "final_attempt st = Some a"
  shows "na_status a = Running"
proof -
  obtain as b where b: "ns_attempts st = as @ [b]" "na_status b = Running"
    by (rule running_node_attempt [OF assms(1,2)])
  then show ?thesis using assms(3) by (simp add: final_attempt_def)
qed

lemma rejected_evolves:
  assumes "na_status a = Running"
  shows "attempt_evolves a (rejected_attempt env x now a)"
  using assms by (simp add: attempt_evolves_def) (simp add: rejected_attempt_def)

lemma settled_node_evolves:
  assumes "node_fine r m d st" "ns_status st = Running"
  shows "node_evolves st (settled_node env opts run d v now st)"
proof (rule node_evolves_last)
  show "attempt_evolves a (settled_attempt env opts run d v now a)" if "final_attempt st = Some a" for a
    using running_final [OF assms that] by (simp add: attempt_evolves_def) (simp add: settled_attempt_def)
  show "ns_attempts (settled_node env opts run d v now st) =
      update_last (settled_attempt env opts run d v now) (ns_attempts st)"
    by (simp add: settled_node_def)
qed

lemma rejected_node_evolves:
  assumes "final_status st = Some Running"
  shows "node_evolves st (rejected_node env d reason now st)"
proof (rule node_evolves_last)
  show "attempt_evolves a (rejected_attempt env (executor_diagnostic env reason) now a)" if "final_attempt st = Some a" for a
    by (rule rejected_evolves) (use assms that in \<open>simp add: final_status_def\<close>)
  show "ns_attempts (rejected_node env d reason now st) =
      update_last (rejected_attempt env (executor_diagnostic env reason) now) (ns_attempts st)"
    by (simp add: rejected_node_def Let_def)
qed

lemma nodes_evolve_pointwise:
  assumes "same_but_nodes run run'" "map fst (rs_nodes run') = map fst (rs_nodes run)"
    and "\<And>i st. node_of run i = Some st \<Longrightarrow> \<exists>st'. node_of run' i = Some st' \<and> node_evolves st st'"
  shows "nodes_evolve run run'"
  using assms by (simp add: nodes_evolve_def)

lemma nodes_evolve_set_node:
  assumes "node_of run i = Some st" "node_evolves st st'"
  shows "nodes_evolve run (set_node i st' run)"
  by (rule nodes_evolve_pointwise) (use assms keys_set_node [of run i st'] in auto)

lemma nodes_evolve_modify_node:
  assumes "\<And>st. node_of run i = Some st \<Longrightarrow> node_evolves st (f st)"
  shows "nodes_evolve run (modify_node i f run)"
  by (rule nodes_evolve_pointwise) (use assms in auto)

lemma nodes_evolve_skips:
  assumes "skips run run'"
  shows "nodes_evolve run run'"
proof (rule nodes_evolve_pointwise)
  show "same_but_nodes run run'" "map fst (rs_nodes run') = map fst (rs_nodes run)"
    using assms by (simp_all add: skips_def)
  show "\<exists>st'. node_of run' i = Some st' \<and> node_evolves st st'" if st: "node_of run i = Some st" for i st
    using assms
  proof (cases rule: skips_cases [of run run' i])
    case same
    then have "node_of run' i = Some st" using st by (simp only:)
    then show ?thesis by simp
  qed (use st in simp)
qed

section \<open>Closing\<close>

text \<open>A finished run without a failed node has every node done: a skipped node needs a failed one.\<close>

lemma no_failure_no_skip:
  assumes "table_fine run" "\<And>i. node_status_of run i \<noteq> Some Failed"
  shows "d \<in> set (gd_nodes (rs_graph run)) \<Longrightarrow> node_status_of run (nd_id d) \<noteq> Some Skipped"
proof -
  note T = table_fineD [OF assms(1)]
  let ?ns = "gd_nodes (rs_graph run)"
  have "k < length ?ns \<Longrightarrow> node_status_of run (nd_id (?ns ! k)) \<noteq> Some Skipped" for k
  proof (induction k rule: less_induct)
    case (less k)
    show ?case
    proof
      assume "node_status_of run (nd_id (?ns ! k)) = Some Skipped"
      then obtain x where x: "x \<in> set (nd_depends_on (?ns ! k))" "blocked_by run x"
        using T(6) [of "?ns ! k"] less.prems by (auto simp: edge_fine_def list_ex_iff)
      have "x \<in> nd_id ` set (take k ?ns)"
        using T(3) less.prems x(1) unfolding ordered_graph_def topological_def by blast
      then obtain j where j: "j < k" "nd_id (?ns ! j) = x"
        using less.prems by (auto simp: in_set_conv_nth)
      then show False using x(2) assms(2) less.IH [OF j(1)] less.prems by (auto simp: blocked_by_def)
    qed
  qed
  then show "d \<in> set ?ns \<Longrightarrow> node_status_of run (nd_id d) \<noteq> Some Skipped"
    by (metis in_set_conv_nth)
qed

lemma node_values_status:
  assumes "nodes_match run"
  shows "st \<in> set (node_values run) \<longleftrightarrow> (\<exists>i. node_of run i = Some st)"
proof -
  have keys: "distinct (map fst (rs_nodes run))" using assms by (simp add: nodes_match_def)
  show ?thesis using set_alist_map_of [OF keys] by (force simp: node_values_def node_of_def)
qed

lemma summarized_fine: "run_fine run \<Longrightarrow> run_fine (summarized run)"
  using base_fine_summary [of run]
  by (simp add: run_fine_base summarized_def)
    (simp add: run_status_issues_def node_status_of_def node_of_def any_failed_def all_terminal_def node_values_def)

lemma status_fine:
  assumes "base_fine run" "sized 1 128 p" "run_status_issues (run\<lparr>rs_status := s, rs_phase := p\<rparr>) = []"
  shows "run_fine (run\<lparr>rs_status := s, rs_phase := p\<rparr>)"
  using base_fine_set_status [OF assms(1,2)] assms(3) by (simp add: run_fine_base)

lemma status_lookups [simp]:
  "node_status_of (run\<lparr>rs_status := s, rs_phase := p\<rparr>) = node_status_of run"
  "all_terminal (run\<lparr>rs_status := s, rs_phase := p\<rparr>) = all_terminal run"
  "any_failed (run\<lparr>rs_status := s, rs_phase := p\<rparr>) = any_failed run"
  "node_values (run\<lparr>rs_status := s, rs_phase := p\<rparr>) = node_values run"
  by (simp_all add: node_status_of_def node_of_def fun_eq_iff all_terminal_def any_failed_def node_values_def)

lemma all_done:
  assumes "table_fine run" "all_terminal run" "\<not> any_failed run" "d \<in> set (gd_nodes (rs_graph run))"
  shows "node_status_of run (nd_id d) = Some Done"
proof -
  note T = table_fineD [OF assms(1)]
  note val = node_values_status [OF T(1)]
  obtain st where st: "node_of run (nd_id d) = Some st" using nodes_match_Some [OF T(1) assms(4)] by blast
  have "terminal (ns_status st)" using assms(2) val st unfolding all_terminal_def list_all_iff by blast
  moreover have nf: "node_status_of run i \<noteq> Some Failed" for i
    using assms(3) val unfolding any_failed_def list_ex_iff node_status_of_def by blast
  moreover have "node_status_of run (nd_id d) \<noteq> Some Skipped" by (rule no_failure_no_skip [OF assms(1) nf assms(4)])
  ultimately show ?thesis using nf [of "nd_id d"] st by (auto simp: node_status_of_def terminal_def)
qed

lemma closing_fine:
  assumes "base_fine run"
  shows "run_fine (closing_status run)"
proof -
  have table: "table_fine run" by (rule base_fine_table [OF assms])
  have phase: "sized 1 128 (js ''failed'')" "sized 1 128 (js ''done'')" "sized 1 128 (js ''blocked'')" by (simp_all add: sized_def)
  show ?thesis
  proof (cases "all_terminal run")
    case False
    then show ?thesis
      unfolding closing_status_def blocked_run_def using base_fine_set_status [OF assms phase(3)]
      by (simp add: base_fine_run_fine)
  next
    case True
    show ?thesis
    proof (cases "any_failed run")
      case fail: True
      then have "run_fine (run\<lparr>rs_status := Run_failed, rs_phase := js ''failed''\<rparr>)"
        using True by (intro status_fine [OF assms phase(1)]) (simp add: run_status_issues_def)
      then show ?thesis using True fail by (simp add: closing_status_def)
    next
      case False
      then have "run_fine (run\<lparr>rs_status := Run_done, rs_phase := js ''done''\<rparr>)"
        using True all_done [OF table True False]
        by (intro status_fine [OF assms phase(2)]) (simp add: run_status_issues_def list_ex_iff)
      then show ?thesis using True False by (simp add: closing_status_def)
    qed
  qed
qed

lemma committed_status_issues: "run_status_issues (committed saved now run) = run_status_issues run"
proof -
  have v: "node_values (committed saved now run) = map (\<lambda>e. snd (restore_output saved e)) (rs_nodes run)"
    by (simp add: node_values_def committed_def)
  show ?thesis
    unfolding run_status_issues_def any_failed_def all_terminal_def v
    by (simp add: node_values_def list_all_iff list_ex_iff)
qed

section \<open>Starting\<close>

text \<open>
  What an execution relies on. The environment: the clock does not go back, the session runner
  reports well formed session identifiers and parsed replies under its contract (\<open>reply_ok\<close>), the
  canonical execution directory is an absolute path of bounded length. The start: the run is idle
  and acceptable, nothing was saved yet, a dry execution is one of a dry run, and there is room
  for one more root authorization.
\<close>

definition env_ok :: "exec_env \<Rightarrow> execute_options \<Rightarrow> bool" where
  "env_ok env opts \<longleftrightarrow> mono (ee_now env) \<and> (\<forall>t. list_all (event_ok opts) (ee_events env t)) \<and>
     (\<forall>p. opt_all project_path_shape (ee_directory env p))"

definition start_ok :: "execute_options \<Rightarrow> exec_state \<Rightarrow> bool" where
  "start_ok opts s \<longleftrightarrow> idle_fine (es_run s) \<and> run_fine (es_run s) \<and> 1 \<le> rs_revision (es_run s) \<and>
     (xo_dry opts \<longrightarrow> rs_mode (es_run s) = Dry) \<and> es_saved s = None \<and> es_commits s = [] \<and>
     opt_all (\<lambda>as. length as < 10000) (rs_filesystem_root_authorizations (es_run s))"

definition started :: "exec_env \<Rightarrow> execute_options \<Rightarrow> nat \<Rightarrow> jstr \<Rightarrow> run_state \<Rightarrow> run_state" where
  "started env opts now dir run = start_run opts (authorize_root env opts now (run\<lparr>rs_execution_directory := Some dir\<rparr>))"

lemma start_run_same_mode:
  assumes "xo_dry opts \<longrightarrow> rs_mode run = Dry"
  shows "start_run opts run = run\<lparr>rs_status := Run_running, rs_phase := js ''execute''\<rparr>"
  using assms by (cases run) (simp add: start_run_def)

lemma started_eq:
  assumes "xo_dry opts \<longrightarrow> rs_mode run = Dry"
  shows "\<exists>as. started env opts now dir run =
    (run\<lparr>rs_execution_directory := Some dir, rs_filesystem_root_authorizations := as\<rparr>)
      \<lparr>rs_status := Run_running, rs_phase := js ''execute''\<rparr> \<and>
    (as = rs_filesystem_root_authorizations run \<or>
     (\<exists>x. as = Some ((case rs_filesystem_root_authorizations run of None \<Rightarrow> [] | Some as \<Rightarrow> as) @ [x]) \<and>
        rauth_by_session_id x = xo_parent_session_id opts \<and> rauth_authorized x \<and> rauth_path x = Some (rs_project_directory run)))"
proof -
  let ?auth = "authorize_root env opts now (run\<lparr>rs_execution_directory := Some dir\<rparr>)"
  have eq: "started env opts now dir run = ?auth\<lparr>rs_status := Run_running, rs_phase := js ''execute''\<rparr>"
    unfolding started_def by (rule start_run_same_mode) (use assms in \<open>simp add: authorize_root_def\<close>)
  show ?thesis
  proof (cases "ee_filesystem_root env")
    case False
    then have "?auth = run\<lparr>rs_execution_directory := Some dir,
        rs_filesystem_root_authorizations := rs_filesystem_root_authorizations run\<rparr>"
      by (simp add: authorize_root_def)
    then show ?thesis unfolding eq by (intro exI [of _ "rs_filesystem_root_authorizations run"] conjI disjI1) simp_all
  next
    case True
    let ?x = "\<lparr>rauth_operation = xo_operation opts, rauth_by_session_id = xo_parent_session_id opts,
      rauth_authorized_at = now, rauth_authorized = True, rauth_path = Some (rs_project_directory run)\<rparr>"
    let ?as = "Some ((case rs_filesystem_root_authorizations run of None \<Rightarrow> [] | Some as \<Rightarrow> as) @ [?x])"
    have "?auth = run\<lparr>rs_execution_directory := Some dir, rs_filesystem_root_authorizations := ?as\<rparr>"
      using True by (simp add: authorize_root_def)
    then show ?thesis unfolding eq
      by (intro exI [of _ ?as] conjI disjI2 exI [of _ ?x]) simp_all
  qed
qed

lemma started_fine:
  assumes "base_fine run" "xo_dry opts \<longrightarrow> rs_mode run = Dry" "project_path_shape dir"
    and "rs_owner_session_id run = xo_parent_session_id opts"
    and "opt_all (\<lambda>as. length as < 10000) (rs_filesystem_root_authorizations run)"
  shows "base_fine (started env opts now dir run)"
proof (rule exE [OF started_eq [OF assms(2), of env now dir]])
  fix as assume "started env opts now dir run =
      (run\<lparr>rs_execution_directory := Some dir, rs_filesystem_root_authorizations := as\<rparr>)
        \<lparr>rs_status := Run_running, rs_phase := js ''execute''\<rparr> \<and>
     (as = rs_filesystem_root_authorizations run \<or>
     (\<exists>x. as = Some ((case rs_filesystem_root_authorizations run of None \<Rightarrow> [] | Some as \<Rightarrow> as) @ [x]) \<and>
        rauth_by_session_id x = xo_parent_session_id opts \<and> rauth_authorized x \<and> rauth_path x = Some (rs_project_directory run)))"
  note as = this [THEN conjunct1] this [THEN conjunct2]
  have head: "header_shape run" using assms(1) by (simp add: base_fine_def)
  have old: "opt_all (\<lambda>as. length as \<le> 10000 \<and> list_all root_authorization_shape as) (rs_filesystem_root_authorizations run)"
    "session_id_shape (rs_owner_session_id run)" "project_path_shape (rs_project_directory run)"
    using head unfolding header_shape_def by blast+
  have "opt_all (\<lambda>as. length as \<le> 10000 \<and> list_all root_authorization_shape as) as"
    using as(2)
  proof
    assume "\<exists>x. as = Some ((case rs_filesystem_root_authorizations run of None \<Rightarrow> [] | Some as \<Rightarrow> as) @ [x]) \<and>
        rauth_by_session_id x = xo_parent_session_id opts \<and> rauth_authorized x \<and> rauth_path x = Some (rs_project_directory run)"
    then obtain x where x: "as = Some ((case rs_filesystem_root_authorizations run of None \<Rightarrow> [] | Some as \<Rightarrow> as) @ [x])"
      "root_authorization_shape x"
      using old(2,3) assms(4) by (auto simp: root_authorization_shape_def)
    show ?thesis using x old(1) assms(5) by (cases "rs_filesystem_root_authorizations run") simp_all
  qed (use old(1) in simp)
  then have "header_shape (run\<lparr>rs_execution_directory := Some dir, rs_filesystem_root_authorizations := as\<rparr>)"
    using head assms(3) by (simp add: header_shape_def)
  moreover have "table_fine (run\<lparr>rs_execution_directory := Some dir, rs_filesystem_root_authorizations := as\<rparr>) = table_fine run"
    by (rule table_fine_fields) simp_all
  ultimately have "base_fine (run\<lparr>rs_execution_directory := Some dir, rs_filesystem_root_authorizations := as\<rparr>)"
    using assms(1) by (simp add: base_fine_def header_hydrated_def run_ownership_issues_def)
  then show ?thesis unfolding as(1) by (rule base_fine_set_status) (simp add: sized_def)
qed

section \<open>The interface\<close>

locale run_progress =
  fixes progress :: "run_state \<Rightarrow> run_state \<Rightarrow> bool"
  assumes refl: "progress run run"
    and trans: "progress a b \<Longrightarrow> progress b c \<Longrightarrow> progress a c"
    and nodes: "nodes_evolve run run' \<Longrightarrow> progress run run'"
    and criteria: "progress run (adopt_criteria d out run)"
    and reserved: "node_of run i = Some st \<Longrightarrow> rs_global_attempts run < gd_max_global_attempts (rs_graph run) \<Longrightarrow>
      progress run ((set_node i (reserved_node now st) run)\<lparr>rs_global_attempts := rs_global_attempts run + 1\<rparr>)"
    and status: "progress run (run\<lparr>rs_status := s, rs_phase := p\<rparr>)"
    and summary: "progress run (run\<lparr>rs_summary := t\<rparr>)"
    and generation: "progress run (committed saved now run)"
    and header: "progress run (run\<lparr>rs_execution_directory := dir, rs_filesystem_root_authorizations := as\<rparr>)"
begin

text \<open>The committed generations form a chain that ends in the current run.\<close>

definition chained :: "run_state \<Rightarrow> exec_state \<Rightarrow> bool" where
  "chained run0 s \<longleftrightarrow> progress run0 (es_run s) \<and>
     list_all (\<lambda>c. progress run0 c \<and> progress c (es_run s)) (es_commits s) \<and>
     sorted_wrt (\<lambda>newer older. progress older newer) (es_commits s)"

lemma chained_change:
  assumes "chained run0 s" "progress (es_run s) (es_run s')" "es_commits s' = es_commits s"
  shows "chained run0 s'"
  using assms trans unfolding chained_def list_all_iff by metis

lemma chained_put: "chained run0 s \<Longrightarrow> progress (es_run s) run \<Longrightarrow> chained run0 (put_run run s)"
  by (rule chained_change) simp_all

lemma chained_ask: "chained run0 s \<Longrightarrow> chained run0 (ask s)"
  by (rule chained_change) (simp_all add: refl)

lemma chained_save:
  assumes "chained run0 s"
  shows "result_ok (chained run0) (\<lambda>e. chained run0) (\<lambda>s. False) (save_run env s)"
proof (cases rule: save_cases [of env s])
  case same
  then show ?thesis using assms by simp
next
  case (failed e)
  then show ?thesis using chained_ask [OF assms] by simp
next
  case (committed now)
  let ?c = "Executor.committed (es_saved s) now (es_run s)"
  have g: "progress (es_run s) ?c" by (rule generation)
  have c: "progress x ?c" if "progress x (es_run s)" for x using trans [OF that g] .
  show ?thesis
    using assms c refl unfolding committed(2) by (simp add: chained_def list_all_iff)
qed

lemma skip_progress: "base_fine run \<Longrightarrow> progress run (propagate_skips run)"
  by (rule nodes [OF nodes_evolve_skips [OF propagate_skips_skips]])

lemma modify_progress:
  "(\<And>st. node_of run i = Some st \<Longrightarrow> node_evolves st (f st)) \<Longrightarrow> progress run (modify_node i f run)"
  by (rule nodes [OF nodes_evolve_modify_node])

lemma fold_progress:
  "(\<And>run x. progress run (f run x)) \<Longrightarrow> progress run (foldl f run xs)"
  by (induction xs arbitrary: run) (auto intro: refl trans)

lemma limit_progress:
  assumes "idle_fine run"
  shows "progress run (finish_global_limit run)"
proof -
  have "progress r (limit_node r d)" for r d
    by (auto simp: limit_node_def intro: refl modify_progress)
  then have fold: "progress run (foldl limit_node run (gd_nodes (rs_graph run)))" by (rule fold_progress)
  have "base_fine (foldl limit_node run (gd_nodes (rs_graph run)))"
    using limit_fold_fine [OF assms order_refl] by (simp add: idle_fine_def)
  then show ?thesis using trans [OF fold skip_progress] refl by (simp add: finish_global_limit_def)
qed

lemma mark_progress: "progress run (modify_node i mark_feedback_applied run)"
proof (rule modify_progress)
  show "node_evolves st (mark_feedback_applied st)" for st
    by (rule node_evolves_last [of _ "\<lambda>a. a\<lparr>na_feedback_applied := Some True\<rparr>"])
      (simp_all add: attempt_evolves_def mark_feedback_applied_def)
qed

lemma feedback_progress: "progress run (feedback_result redact run checker t cs)"
proof -
  let ?m = "modify_node (nd_id checker) mark_feedback_applied run"
  let ?t = "modify_node t (\<lambda>st. st\<lparr>ns_status := Pending,
        ns_last_failures := bound_diagnostic_list redact [] (ns_last_failures cs)\<rparr>) ?m"
  have "progress r (reopen_descendant r i)" for r i
    by (auto simp: reopen_descendant_def intro: refl modify_progress split: option.split)
  then have "progress ?t (foldl reopen_descendant ?t (descendants_of (rs_graph run) t))" by (rule fold_progress)
  moreover have "progress ?m ?t" by (rule modify_progress) simp
  ultimately show ?thesis unfolding feedback_result_def using trans [OF trans [OF mark_progress]] by blast
qed

lemma feedback_action_progress:
  assumes "idle_fine run" "feedback_action redact run checker = Budget_spent run' \<or> feedback_action redact run checker = Routed run'"
  shows "progress run run'"
proof -
  have ids: "distinct (map nd_id (gd_nodes (rs_graph run)))"
    using assms(1) base_fine_table table_fineD(4) by (auto simp: idle_fine_def)
  show ?thesis
    using feedback_action_shape [OF ids, where redact = redact and checker = checker] assms(2)
      mark_progress feedback_progress by auto
qed

lemma session_progress:
  assumes "node_of run i = Some st" "ns_status st = Running" "node_fine r m d st"
  shows "progress run (record_session i sid run)"
  unfolding record_session_def
proof (rule modify_progress)
  fix st' assume "node_of run i = Some st'"
  then have st': "st' = st" using assms(1) by simp
  show "node_evolves st' (st'\<lparr>ns_attempts := update_last (\<lambda>a. a\<lparr>na_session_id := Some sid\<rparr>) (ns_attempts st')\<rparr>)"
    unfolding st'
    by (rule node_evolves_last [of _ "\<lambda>a. a\<lparr>na_session_id := Some sid\<rparr>"])
      (simp_all add: attempt_evolves_def running_final [OF assms(3,2)])
qed

lemma settle_progress:
  assumes "node_of run (nd_id d) = Some st" "ns_status st = Running" "node_fine r m d st"
  shows "progress run (settle_node env opts run d reply now)"
proof -
  let ?v = "verdict_of env opts run d reply"
  have "progress run (modify_node (nd_id d) (settled_node env opts run d ?v now) run)"
  proof (rule modify_progress)
    fix st' assume "node_of run (nd_id d) = Some st'"
    then have st': "st' = st" using assms(1) by simp
    show "node_evolves st' (settled_node env opts run d ?v now st')"
      unfolding st' by (rule settled_node_evolves [OF assms(3,2)])
  qed
  then show ?thesis using trans [OF _ criteria] by (simp add: settle_node_def Let_def)
qed

lemma reject_progress:
  assumes "reject_node env run d reason now = Some run'"
  shows "progress run run'"
proof (cases "node_of run (nd_id d)")
  case None
  then show ?thesis using assms by (simp add: reject_node_def)
next
  case (Some st)
  show ?thesis
  proof (cases "final_status st = Some Running")
    case True
    then have run': "run' = set_node (nd_id d) (rejected_node env d reason now st) run"
      using assms Some by (simp add: reject_node_def)
    have "node_evolves st (rejected_node env d reason now st)" by (rule rejected_node_evolves [OF True])
    then show ?thesis unfolding run' by (rule nodes [OF nodes_evolve_set_node [OF Some]])
  next
    case False
    then show ?thesis using assms Some by (simp add: reject_node_def)
  qed
qed

lemma reserve_progress:
  assumes "node_of run (nd_id d) = Some st"
  shows "progress run (fst (reserve_attempt now run d))"
  using assms
proof (cases rule: reserve_attempt_cases [where now = now])
  case (limited st')
  then show ?thesis using nodes [OF nodes_evolve_set_node [OF assms, of st']] by simp
next
  case reserved
  then show ?thesis using run_progress.reserved [OF run_progress_axioms assms] by simp
qed

section \<open>A batch\<close>

definition batch_inv :: "exec_env \<Rightarrow> execute_options \<Rightarrow> run_state \<Rightarrow> node_def list \<Rightarrow> batch_state \<Rightarrow> bool" where
  "batch_inv env opts run0 todo b \<longleftrightarrow> events_ok env opts todo b \<and> chained run0 (ba_exec b)"

lemma worker_save_chained:
  assumes "chained run0 (ba_exec b)"
  shows "chained run0 (ba_exec (worker_save env i q b))"
  using chained_save [OF assms, of env]
  by (cases "save_run env (ba_exec b)") (simp_all add: worker_save_def enter_def)

lemma apply_event_chained:
  assumes "batch_inv env opts run0 todo b"
  shows "chained run0 (ba_exec (apply_event env opts ev b))"
proof -
  have W: "wave_ok env opts todo (ba_phase b) (ba_exec b)" and C: "chained run0 (ba_exec b)"
    using assms by (simp_all add: batch_inv_def events_ok_def)
  let ?run = "es_run (ba_exec b)"
  have session: "chained run0 (put_run (record_session i sid ?run) (ba_exec b))" if "phase_of b i = Some Working" for i sid
  proof -
    have p: "map_of (ba_phase b) i = Some Working" using that by (simp add: phase_of_def)
    obtain d st where "node_of ?run i = Some st" "ns_status st = Running" "node_fine (rs_run_id ?run) (rs_mode ?run) d st"
      by (rule active_node [OF W p]) auto
    then show ?thesis using session_progress chained_put [OF C] by blast
  qed
  have settle: "chained run0 (put_run (settle_node (ee_worker env) opts ?run d reply now) (ask (ba_exec b)))"
    if "phase_of b i = Some Working" "node_def_of (rs_graph ?run) i = Some d" for i d reply now
  proof -
    have p: "map_of (ba_phase b) i = Some Working" using that by (simp add: phase_of_def)
    obtain e st where e: "nd_id e = i" "node_of ?run i = Some st" "ns_status st = Running"
      "node_fine (rs_run_id ?run) (rs_mode ?run) e st" "node_def_of (rs_graph ?run) i = Some e"
      by (rule active_node [OF W p]) auto
    then have "progress ?run (settle_node (ee_worker env) opts ?run d reply now)"
      using settle_progress [of ?run d st] that(2) by simp
    then show ?thesis using chained_put [OF chained_ask [OF C]] by simp
  qed
  show ?thesis
    using C session settle worker_save_chained
    by (cases ev) (simp_all add: apply_event_def enter_def on_run_def Let_def split: option.split)
qed

lemma apply_event_inv:
  assumes "batch_inv env opts run0 todo b" "mono (ee_now env)" "event_ok opts ev"
  shows "batch_inv env opts run0 todo (apply_event env opts ev b)"
  using apply_event_chained [OF assms(1)] apply_event_ok [OF _ assms(2,3)] assms(1) by (simp add: batch_inv_def)

lemma run_events_inv:
  "batch_inv env opts run0 todo b \<Longrightarrow> mono (ee_now env) \<Longrightarrow> list_all (event_ok opts) evs \<Longrightarrow>
   batch_inv env opts run0 todo (run_events env opts evs b)"
  by (induction evs arbitrary: b) (simp_all add: apply_event_inv)

lemma settle_results_chained:
  "chained run0 s \<Longrightarrow> result_ok (chained run0) (\<lambda>e. chained run0) (chained run0) (settle_results env ps s)"
proof (induction ps arbitrary: s)
  case (Cons x ps)
  obtain i p where x: "x = (i, p)" by fastforce
  have rej: "chained run0 (put_run run (ask s))"
    if "reject_node (ee_worker env) (es_run s) d reason now = Some run" for d reason now run
    using reject_progress [OF that] chained_put [OF chained_ask [OF Cons.prems]] by simp
  show ?case using Cons.IH Cons.prems rej unfolding x
    by (simp split: worker_phase.split worker_end.split option.split)
qed simp

text \<open>What is known between waves, and what is known however an execution ends.\<close>

definition wave_inv :: "exec_env \<Rightarrow> execute_options \<Rightarrow> run_state \<Rightarrow> node_def list \<Rightarrow> phases \<Rightarrow> exec_state \<Rightarrow> bool" where
  "wave_inv env opts run0 todo ps s \<longleftrightarrow> wave_ok env opts todo ps s \<and> chained run0 s"

definition ended_inv :: "run_state \<Rightarrow> exec_state \<Rightarrow> bool" where
  "ended_inv run0 s \<longleftrightarrow> saved_ok s \<and> chained run0 s"

definition thrown_inv :: "run_state \<Rightarrow> run_failure \<Rightarrow> exec_state \<Rightarrow> bool" where
  "thrown_inv run0 e s \<longleftrightarrow> ended_inv run0 s \<and> boundary_ok s e"

abbreviation proceeds :: "run_state \<Rightarrow> (exec_state \<Rightarrow> bool) \<Rightarrow> exec_result \<Rightarrow> bool" where
  "proceeds run0 good \<equiv> result_ok good (thrown_inv run0) (ended_inv run0)"

lemma wave_inv_ended: "wave_inv env opts run0 todo ps s \<Longrightarrow> ended_inv run0 s"
  using batch_okD(5) by (auto simp: wave_inv_def ended_inv_def wave_ok_def)

lemma save_inv:
  assumes "wave_inv env opts run0 todo ps s" "mono (ee_now env)"
  shows "proceeds run0 (\<lambda>s'. wave_inv env opts run0 todo ps s' \<and> es_saved s' = Some (es_run s')) (save_run env s)"
proof -
  have W: "wave_ok env opts todo ps s" and C: "chained run0 s" using assms(1) by (simp_all add: wave_inv_def)
  note w = save_wave_ok [OF W assms(2)] and c = chained_save [OF C, of env]
  show ?thesis
  proof (cases "save_run env s")
    case (Thrown e s')
    then have "wave_inv env opts run0 todo ps s'" using w c by (simp add: wave_inv_def)
    then show ?thesis using Thrown w wave_inv_ended by (simp add: thrown_inv_def)
  qed (use w c in \<open>simp_all add: wave_inv_def\<close>)
qed

lemma reserve_batch_inv:
  assumes "wave_inv env opts run0 (batch @ todo) [] s" "mono (ee_now env)"
    "reserve_batch env batch s = (s', ps)"
  shows "wave_inv env opts run0 todo ps s'"
proof -
  have "wave_inv env opts run0 (batch @ todo) ps0 s0 \<Longrightarrow> foldl (reserve_step env) (s0, ps0) batch = (s', ps) \<Longrightarrow>
      wave_inv env opts run0 todo ps s'" for s0 ps0
  proof (induction batch arbitrary: s0 ps0)
    case (Cons d batch)
    obtain s1 ps1 where r: "reserve_step env (s0, ps0) d = (s1, ps1)" by fastforce
    have W: "wave_ok env opts (d # batch @ todo) ps0 s0" and C: "chained run0 s0"
      using Cons.prems(1) by (simp_all add: wave_inv_def)
    note R = reserve_step_ok [OF W assms(2) r]
    obtain st where "node_of (es_run s0) (nd_id d) = Some st" by (rule wave_ok_ready [OF W, of d]) auto
    then have "chained run0 s1" using reserve_progress by (intro chained_change [OF C _ R(3)]) (simp add: R(4))
    then have "wave_inv env opts run0 (batch @ todo) ps1 s1" using R(1) by (simp add: wave_inv_def)
    then show ?case using Cons.IH Cons.prems(2) r by simp
  qed simp
  then show ?thesis using assms(1,3) by (simp add: reserve_batch_def)
qed

section \<open>Waves\<close>

definition closed_inv :: "run_state \<Rightarrow> run_state \<Rightarrow> exec_state \<Rightarrow> bool" where
  "closed_inv run0 run s \<longleftrightarrow> ended_inv run0 s \<and> es_saved s = Some (es_run s) \<and> run_fine (es_run s) \<and>
     rs_status (es_run s) = rs_status run \<and> rs_graph (es_run s) = rs_graph run \<and>
     node_status_of (es_run s) = node_status_of run \<and> rs_global_attempts (es_run s) = rs_global_attempts run"

lemma closing_save:
  assumes "wave_inv env opts run0 todo [] s" "run_fine run" "progress (es_run s) run" "rs_nodes run = rs_nodes (es_run s)"
    "rs_revision run = rs_revision (es_run s)"
  shows "proceeds run0 (closed_inv run0 run) (save_run env (put_run run s))"
proof -
  let ?s = "put_run run s"
  have W: "wave_ok env opts todo [] s" and C: "chained run0 s" using assms(1) by (simp_all add: wave_inv_def)
  then have B: "batch_ok env opts [] s" by (simp add: wave_ok_def)
  note D = batch_okD [OF B]
  have chain: "chained run0 ?s" by (rule chained_put [OF C assms(3)])
  have saved: "saved_ok ?s" using D(5) assms(4,5) by (cases "es_saved s") (simp_all add: saved_ok_def)
  have base: "base_fine run" using assms(2) by (simp add: run_fine_base)
  have kept: "output_kept (es_saved s) i st" if "node_of run i = Some st" for i st
  proof -
    have "node_of (es_run s) i = Some st" using that assms(4) by (simp add: node_of_def)
    then show ?thesis using D(7) by (simp add: entry_ok_def)
  qed
  note saves = chained_save [OF chain, of env]
  show ?thesis
  proof (cases rule: save_cases [of env ?s])
    case same
    then show ?thesis using chain saved assms(2) by (simp add: closed_inv_def ended_inv_def)
  next
    case (failed e)
    have "boundary_ok (ask ?s) e"
      using failed(2) run_fine_rejected [OF assms(2)] D(9) assms(5) by (auto simp: boundary_ok_def)
    then show ?thesis using failed(1) saved chained_ask [OF chain] by (simp add: thrown_inv_def ended_inv_def)
  next
    case (committed now)
    let ?c = "Executor.committed (es_saved s) now run"
    have cb: "base_fine ?c" by (rule committed_base_fine [OF base assms(2) kept])
    have "run_status_issues ?c = []" using assms(2) by (simp add: committed_status_issues run_fine_base)
    then have fine: "run_fine ?c" using cb by (simp add: run_fine_base)
    let ?s' = "(ask ?s)\<lparr>es_run := ?c, es_saved := Some ?c, es_commits := ?c # es_commits s\<rparr>"
    have eq: "save_run env ?s = Returned ?s'" using committed(2) by simp
    have "chained run0 ?s'" using saves unfolding eq by simp
    moreover have "saved_ok ?s'" using saved fine by (simp add: saved_ok_def)
    ultimately show ?thesis using fine unfolding eq by (simp add: closed_inv_def ended_inv_def)
  qed
qed

lemma work_batch_inv:
  assumes "wave_inv env opts run0 todo ps s" "env_ok env opts" "\<And>i e. map_of ps i \<noteq> Some (Ended (Boundary e))"
  shows "proceeds run0 (\<lambda>s'. wave_inv env opts run0 todo [] s' \<and> es_saved s' = Some (es_run s')) (work_batch env opts ps s)"
proof -
  have now: "mono (ee_now env)" and evs: "list_all (event_ok opts) (ee_events env t)" for t
    using assms(2) by (simp_all add: env_ok_def)
  let ?start = "\<lparr>ba_exec = ask s, ba_phase = ps\<rparr>"
  let ?b = "run_events env opts (ee_events env (es_tick s)) ?start"
  have W: "wave_ok env opts todo ps s" and C: "chained run0 s" using assms(1) by (simp_all add: wave_inv_def)
  have "wave_ok env opts todo ps (ask s)"
    using W batch_ok_ask [OF _ now] by (simp add: wave_ok_def)
  then have "batch_inv env opts run0 todo ?start"
    using assms(3) chained_ask [OF C] by (simp add: batch_inv_def events_ok_def phases_ok_def)
  from run_events_inv [OF this now evs [of "es_tick s"]]
  have b: "wave_ok env opts todo (ba_phase ?b) (ba_exec ?b)" "phases_ok ?b" "chained run0 (ba_exec ?b)"
    by (simp_all add: batch_inv_def events_ok_def)
  then have binv: "wave_inv env opts run0 todo (ba_phase ?b) (ba_exec ?b)" by (simp add: wave_inv_def)
  show ?thesis
  proof (cases "batch_open (ba_phase ?b)")
    case True
    then show ?thesis using wave_inv_ended [OF binv] by (simp add: work_batch_def Let_def)
  next
    case False
    have keys: "distinct (map fst (ba_phase ?b))" using b(1) batch_okD(6) by (auto simp: wave_ok_def)
    let ?good = "\<lambda>s'. \<exists>ps'. wave_inv env opts run0 todo ps' s' \<and> (\<forall>i p. map_of ps' i = Some p \<longrightarrow> p = Ended Fulfilled)"
    have r: "result_ok (\<lambda>s'. \<exists>ps'. wave_ok env opts todo ps' s' \<and> (\<forall>i p. map_of ps' i = Some p \<longrightarrow> p = Ended Fulfilled))
        (\<lambda>e s'. boundary_ok s' e \<and> (\<exists>ps'. wave_ok env opts todo ps' s')) (\<lambda>_. False)
        (settle_results env (ba_phase ?b) (ba_exec ?b))"
    proof (rule settle_results_ok [OF b(1) now keys False])
      show "map_of (ba_phase ?b) i = Some p" if "(i, p) \<in> set (ba_phase ?b)" for i p
        using that keys by simp
      show "p = Ended Fulfilled \<or> i \<in> fst ` set (ba_phase ?b)" if "map_of (ba_phase ?b) i = Some p" for i p
        using map_of_SomeD [OF that] by force
      show "boundary_ok (ba_exec ?b) e" if "map_of (ba_phase ?b) i = Some (Ended (Boundary e))" for i e
        using b(2) that by (auto simp: phases_ok_def)
    qed
    have "proceeds run0 ?good (settle_results env (ba_phase ?b) (ba_exec ?b))"
      using r settle_results_chained [OF b(3), of env "ba_phase ?b"] wave_inv_ended
      by (cases "settle_results env (ba_phase ?b) (ba_exec ?b)")
        (auto simp: wave_inv_def thrown_inv_def ended_inv_def wave_ok_def dest: batch_okD(5))
    moreover have "proceeds run0 (\<lambda>s'. wave_inv env opts run0 todo [] s' \<and> es_saved s' = Some (es_run s')) (save_run env s1)"
      if g: "?good s1" for s1
    proof -
      obtain ps' where ps': "wave_inv env opts run0 todo ps' s1" "\<And>i p. map_of ps' i = Some p \<Longrightarrow> p = Ended Fulfilled"
        using g by blast
      show ?thesis
        by (rule result_ok_mono [OF save_inv [OF ps'(1) now]])
          (use batch_over [OF _ ps'(2)] in \<open>auto simp: wave_inv_def\<close>)
    qed
    ultimately show ?thesis using False by (simp add: work_batch_def Let_def and_then_ok)
  qed
qed

lemma reserve_batch_phases:
  "reserve_batch env batch s = (s', ps) \<Longrightarrow> map_of ps i \<noteq> Some (Ended (Boundary e))"
proof -
  have "foldl (reserve_step env) (s0, ps0) batch = (s', ps) \<Longrightarrow> (i, Ended (Boundary e)) \<in> set ps \<Longrightarrow>
      (i, Ended (Boundary e)) \<in> set ps0" for s0 ps0
  proof (induction batch arbitrary: s0 ps0)
    case (Cons d batch)
    obtain s1 ps1 where r: "reserve_step env (s0, ps0) d = (s1, ps1)" by fastforce
    have "(i, Ended (Boundary e)) \<in> set ps1" using Cons.IH [of s1 ps1] Cons.prems r by simp
    then show ?case using r by (auto simp: reserve_step_def split: prod.splits if_splits)
  qed simp
  then show "reserve_batch env batch s = (s', ps) \<Longrightarrow> map_of ps i \<noteq> Some (Ended (Boundary e))"
    using map_of_SomeD by (fastforce simp: reserve_batch_def)
qed

lemma wave_inv_ask: "wave_inv env opts run0 todo ps s \<Longrightarrow> mono (ee_now env) \<Longrightarrow> wave_inv env opts run0 todo ps (ask s)"
  using batch_ok_ask chained_ask by (simp add: wave_inv_def wave_ok_def)

lemma run_batch_inv:
  assumes "wave_inv env opts run0 (batch @ todo) [] s" "env_ok env opts"
  shows "proceeds run0 (\<lambda>s'. wave_inv env opts run0 todo [] s' \<and> es_saved s' = Some (es_run s')) (run_batch env opts batch s)"
proof -
  have now: "mono (ee_now env)" using assms(2) by (simp add: env_ok_def)
  note A = wave_inv_ask [OF assms(1) now]
  show ?thesis
  proof (cases "preflight env opts (Some (map nd_id batch)) s")
    case None
    obtain s1 ps where r: "reserve_batch env batch (ask s) = (s1, ps)" by fastforce
    have i: "wave_inv env opts run0 todo ps s1" by (rule reserve_batch_inv [OF A now r])
    have "proceeds run0 (\<lambda>s'. wave_inv env opts run0 todo [] s' \<and> es_saved s' = Some (es_run s'))
        (and_then (save_run env s1) (work_batch env opts ps))"
      by (rule and_then_ok [OF save_inv [OF i now]])
        (use work_batch_inv [OF _ assms(2)] reserve_batch_phases [OF r] in blast)
    then show ?thesis using None r by (simp add: run_batch_def)
  next
    case (Some reason)
    have base: "base_fine (es_run s)" using assms(1) batch_okD(1) by (auto simp: wave_inv_def wave_ok_def)
    have fine: "run_fine (summarized (blocked_run (es_run s)))"
      unfolding blocked_run_def
      by (intro summarized_fine base_fine_run_fine base_fine_set_status [OF base]) (simp_all add: sized_def)
    have prog: "progress (es_run s) (summarized (blocked_run (es_run s)))"
      unfolding summarized_def blocked_run_def by (rule trans [OF status summary])
    have "proceeds run0 (closed_inv run0 (summarized (blocked_run (es_run s))))
        (save_run env (put_run (summarized (blocked_run (es_run s))) (ask s)))"
      by (rule closing_save [OF A fine]) (use prog in \<open>simp_all add: summarized_def blocked_run_def\<close>)
    then have "proceeds run0 (\<lambda>s'. wave_inv env opts run0 todo [] s' \<and> es_saved s' = Some (es_run s'))
        (and_then (save_run env (put_run (summarized (blocked_run (es_run s))) (ask s))) (Thrown (Preflight_failed reason)))"
      by (rule and_then_ok) (simp add: closed_inv_def thrown_inv_def boundary_ok_def)
    then show ?thesis using Some by (simp add: run_batch_def)
  qed
qed

lemma wave_inv_drop: "wave_inv env opts run0 todo [] s \<Longrightarrow> wave_inv env opts run0 [] [] s"
  by (simp add: wave_inv_def wave_ok_def todo_ok_def)

lemma run_batches_inv:
  "wave_inv env opts run0 (concat batches) [] s \<Longrightarrow> env_ok env opts \<Longrightarrow>
   proceeds run0 (wave_inv env opts run0 [] []) (run_batches env opts batches s)"
proof (induction batches arbitrary: s)
  case (Cons batch rest)
  have now: "mono (ee_now env)" using Cons.prems(2) by (simp add: env_ok_def)
  have A: "wave_inv env opts run0 (batch @ concat rest) [] (ask s)" using wave_inv_ask [OF Cons.prems(1) now] by simp
  have "proceeds run0 (wave_inv env opts run0 [] []) (and_then (run_batch env opts batch (ask s)) (run_batches env opts rest))"
    by (rule and_then_ok [OF run_batch_inv [OF A Cons.prems(2)]]) (use Cons.IH Cons.prems(2) in blast)
  then show ?case using wave_inv_drop [OF A] by simp
qed simp

lemma idle_put:
  assumes "wave_inv env opts run0 [] [] s" "idle_fine run" "same_but_nodes (es_run s) run" "outputs_kept (es_run s) run"
    and "map fst (rs_nodes run) = map fst (rs_nodes (es_run s))" "progress (es_run s) run"
  shows "wave_inv env opts run0 [] [] (put_run run s)"
  using idle_step [OF _ assms(2-5), of env opts "[]" "put_run run s"] chained_put [OF _ assms(6)] assms(1)
  by (simp add: wave_inv_def)

lemma wave_inv_idle: "wave_inv env opts run0 todo [] s \<Longrightarrow> idle_fine (es_run s)"
  using wave_ok_idle by (auto simp: wave_inv_def)

lemma save_idle:
  assumes "wave_inv env opts run0 [] [] s" "mono (ee_now env)"
  shows "proceeds run0 (wave_inv env opts run0 [] []) (save_run env s)"
  by (rule result_ok_mono [OF save_inv [OF assms]]) auto

lemma feedback_inv:
  "wave_inv env opts run0 [] [] s \<Longrightarrow> env_ok env opts \<Longrightarrow> set cs \<subseteq> set (gd_nodes (rs_graph (es_run s))) \<Longrightarrow>
   proceeds run0 (wave_inv env opts run0 [] []) (apply_checker_feedback env cs s)"
proof (induction cs arbitrary: s)
  case (Cons c cs)
  have now: "mono (ee_now env)" using Cons.prems(2) by (simp add: env_ok_def)
  have c: "c \<in> set (gd_nodes (rs_graph (es_run s)))" using Cons.prems(3) by simp
  note idle = wave_inv_idle [OF Cons.prems(1)]
  let ?act = "feedback_action (we_redact (ee_worker env)) (es_run s) c"
  have put: "wave_inv env opts run0 [] [] (put_run run s)" "rs_graph run = rs_graph (es_run s)"
    if "?act = Budget_spent run \<or> ?act = Routed run" for run
  proof -
    have post: "idle_fine run" "same_but_nodes (es_run s) run"
      using feedback_action_fine [OF idle c, of "we_redact (ee_worker env)"] that by (auto simp: feedback_post_def)
    then show "rs_graph run = rs_graph (es_run s)" using same_but_nodes_graph by blast
    show "wave_inv env opts run0 [] [] (put_run run s)"
      by (rule idle_put [OF Cons.prems(1) post feedback_action_step [OF idle that] feedback_action_progress [OF idle that]])
  qed
  show ?case
  proof (cases ?act)
    case No_feedback
    then show ?thesis using Cons.IH [OF Cons.prems(1,2)] Cons.prems(3) by simp
  next
    case (Budget_spent run)
    have w: "wave_inv env opts run0 [] [] (put_run run s)" and g: "rs_graph run = rs_graph (es_run s)"
      using put Budget_spent by blast+
    have graph: "rs_graph (es_run s') = rs_graph (es_run s)" if "save_run env (put_run run s) = Returned s'" for s'
      using that g by (cases rule: save_cases [of env "put_run run s"]) auto
    have "proceeds run0 (\<lambda>s'. wave_inv env opts run0 [] [] s' \<and> rs_graph (es_run s') = rs_graph (es_run s)) (save_run env (put_run run s))"
      using save_idle [OF w now] graph by (cases "save_run env (put_run run s)") simp_all
    then have "proceeds run0 (wave_inv env opts run0 [] [])
        (and_then (save_run env (put_run run s)) (apply_checker_feedback env cs))"
      by (rule and_then_ok) (use Cons.IH Cons.prems(2,3) in simp)
    then show ?thesis using Budget_spent by simp
  next
    case (Routed run)
    then show ?thesis using save_idle [OF put(1) now] by simp
  qed
qed simp

lemma after_batches_inv:
  assumes "wave_inv env opts run0 [] [] s" "env_ok env opts"
  shows "proceeds run0 (wave_inv env opts run0 [] []) (after_batches env s)"
  unfolding after_batches_def
proof (rule and_then_ok)
  have now: "mono (ee_now env)" using assms(2) by (simp add: env_ok_def)
  show "proceeds run0 (wave_inv env opts run0 [] []) (apply_checker_feedback env (gd_nodes (rs_graph (es_run s))) s)"
    by (rule feedback_inv [OF assms(1,2)]) simp
  show "proceeds run0 (wave_inv env opts run0 [] []) (save_run env (put_run (finish_global_limit (es_run s')) s'))"
    if w: "wave_inv env opts run0 [] [] s'" for s'
  proof (rule save_idle [OF _ now])
    note idle = wave_inv_idle [OF w]
    show "wave_inv env opts run0 [] [] (put_run (finish_global_limit (es_run s')) s')"
      by (rule idle_put [OF w finish_global_limit_fine [OF idle] finish_global_limit_step [OF idle] limit_progress [OF idle]])
  qed
qed

lemma skip_put:
  assumes "wave_inv env opts run0 [] [] s"
  shows "wave_inv env opts run0 [] [] (put_run (propagate_skips (es_run s)) s)"
proof -
  note idle = wave_inv_idle [OF assms]
  have base: "base_fine (es_run s)" using idle by (simp add: idle_fine_def)
  show ?thesis
    by (rule idle_put [OF assms propagate_skips_idle [OF idle] propagate_skips_step [OF base] skip_progress [OF base]])
qed

lemma ready_todo:
  assumes "wave_inv env opts run0 [] [] s" "ready = ready_nodes (es_run s)"
  shows "wave_inv env opts run0 ready [] s"
proof -
  have "distinct (map nd_id (gd_nodes (rs_graph (es_run s))))"
    using wave_inv_idle [OF assms(1)] base_fine_table table_fineD(4) by (auto simp: idle_fine_def)
  then have "distinct (map nd_id ready)" by (simp add: assms(2) ready_nodes_def distinct_map_filter)
  then show ?thesis using assms by (auto simp: wave_inv_def wave_ok_def todo_ok_def ready_nodes_def)
qed

lemma batches_concat:
  "0 < k \<Longrightarrow> length xs \<le> n \<Longrightarrow> concat (batches_of n k xs) = xs"
proof (induction n arbitrary: xs)
  case (Suc n)
  then show ?case by (cases "xs = []") simp_all
qed simp

lemma concurrency_pos: "0 < concurrency opts run"
  by (simp add: concurrency_def Let_def)

lemma waves_inv:
  "wave_inv env opts run0 [] [] s \<Longrightarrow> env_ok env opts \<Longrightarrow>
   proceeds run0 (wave_inv env opts run0 [] []) (waves env opts n s)"
proof (induction n arbitrary: s)
  case (Suc n)
  have now: "mono (ee_now env)" using Suc.prems(2) by (simp add: env_ok_def)
  note A = wave_inv_ask [OF Suc.prems(1) now]
  let ?s1 = "put_run (propagate_skips (es_run s)) (ask s)"
  have S: "wave_inv env opts run0 [] [] ?s1" using skip_put [OF A] by simp
  let ?ready = "ready_nodes (es_run ?s1)"
  let ?batches = "batches_of (length ?ready) (concurrency opts (es_run ?s1)) ?ready"
  have "wave_inv env opts run0 (concat ?batches) [] ?s1"
    using ready_todo [OF S HOL.refl] batches_concat [OF concurrency_pos order_refl] by metis
  then have "proceeds run0 (wave_inv env opts run0 [] []) (run_batches env opts ?batches ?s1)"
    by (rule run_batches_inv [OF _ Suc.prems(2)])
  then have "proceeds run0 (wave_inv env opts run0 [] []) (and_then (run_batches env opts ?batches ?s1) (after_batches env))"
    by (rule and_then_ok) (rule after_batches_inv [OF _ Suc.prems(2)])
  then have "proceeds run0 (wave_inv env opts run0 [] [])
      (and_then (and_then (run_batches env opts ?batches ?s1) (after_batches env))
        (\<lambda>s. if budget_spent (es_run s) then Returned s else waves env opts n s))"
    by (rule and_then_ok) (use Suc.IH Suc.prems(2) in simp)
  then show ?case using Suc.prems(1) A S by (simp add: Let_def)
qed simp

definition finished :: "run_state \<Rightarrow> run_state" where
  "finished run = summarized (closing_status (finish_global_limit (propagate_skips run)))"

definition over_inv :: "run_state \<Rightarrow> exec_state \<Rightarrow> bool" where
  "over_inv run0 s \<longleftrightarrow> ended_inv run0 s \<and> es_saved s = Some (es_run s) \<and> run_fine (es_run s) \<and>
     (\<exists>run. idle_fine run \<and> node_status_of (es_run s) = node_status_of run \<and> rs_graph (es_run s) = rs_graph run \<and>
        rs_status (es_run s) = rs_status (closing_status run))"

lemma closing_fields:
  "rs_nodes (closing_status run) = rs_nodes run" "rs_revision (closing_status run) = rs_revision run"
  "rs_graph (closing_status run) = rs_graph run" "node_status_of (closing_status run) = node_status_of run"
  by (auto simp: closing_status_def blocked_run_def)

lemma finish_run_inv:
  assumes "wave_inv env opts run0 [] [] s" "env_ok env opts"
  shows "proceeds run0 (over_inv run0) (finish_run env s)"
proof -
  let ?r1 = "propagate_skips (es_run s)"
  let ?r2 = "finish_global_limit ?r1" let ?r3 = "summarized (closing_status ?r2)"
  note S1 = skip_put [OF assms(1)]
  have idle1: "idle_fine ?r1" using wave_inv_idle [OF S1] by simp
  have "wave_inv env opts run0 [] [] (put_run ?r2 (put_run ?r1 s))"
    by (rule idle_put [OF S1]) (use finish_global_limit_fine [OF idle1] finish_global_limit_step [OF idle1]
        limit_progress [OF idle1] in simp_all)
  then have S2: "wave_inv env opts run0 [] [] (put_run ?r2 s)" by (simp add: put_run_def)
  have idle2: "idle_fine ?r2" using wave_inv_idle [OF S2] by simp
  have fine: "run_fine ?r3" by (rule summarized_fine [OF closing_fine]) (use idle2 in \<open>simp add: idle_fine_def\<close>)
  have prog: "progress ?r2 ?r3"
    unfolding summarized_def closing_status_def blocked_run_def
    using trans [OF status summary] by (simp split: if_split)
  have "proceeds run0 (closed_inv run0 ?r3) (save_run env (put_run ?r3 (put_run ?r2 s)))"
    by (rule closing_save [OF S2 fine]) (use prog in \<open>simp_all add: summarized_def closing_fields\<close>)
  then have "proceeds run0 (closed_inv run0 ?r3) (finish_run env s)" by (simp add: finish_run_def put_run_def)
  then show ?thesis
  proof (rule result_ok_mono)
    fix s' assume c: "closed_inv run0 ?r3 s'"
    have "node_status_of ?r3 = node_status_of ?r2"
      using closing_fields(4) by (simp add: summarized_def node_status_of_def node_of_def fun_eq_iff closing_fields)
    moreover have "rs_graph ?r3 = rs_graph ?r2" "rs_status ?r3 = rs_status (closing_status ?r2)"
      by (simp_all add: summarized_def closing_fields)
    ultimately show "over_inv run0 s'" using c idle2 unfolding over_inv_def closed_inv_def by metis
  qed
qed

lemma started_inv:
  assumes "start_ok opts s" "env_ok env opts" "project_path_shape dir" "rs_owner_session_id (es_run s) = xo_parent_session_id opts"
    and "es_run s' = started env opts now dir (es_run s)" "es_saved s' = None" "es_commits s' = []"
  shows "wave_inv env opts (es_run s) [] [] s'"
proof -
  let ?run = "started env opts now dir (es_run s)"
  have S: "idle_fine (es_run s)" "1 \<le> rs_revision (es_run s)" "xo_dry opts \<longrightarrow> rs_mode (es_run s) = Dry"
    "opt_all (\<lambda>as. length as < 10000) (rs_filesystem_root_authorizations (es_run s))"
    using assms(1) by (simp_all add: start_ok_def)
  then have base: "base_fine (es_run s)" "reopen_ok (es_run s)" "no_running (es_run s)" by (simp_all add: idle_fine_def)
  obtain as where as: "?run = ((es_run s)\<lparr>rs_execution_directory := Some dir, rs_filesystem_root_authorizations := as\<rparr>)
      \<lparr>rs_status := Run_running, rs_phase := js ''execute''\<rparr>"
    using started_eq [OF S(3), of env now dir] by blast
  have "base_fine ?run" by (rule started_fine [OF base(1) S(3) assms(3,4) S(4)])
  moreover have "reopen_ok ?run" "node_of ?run = node_of (es_run s)"
    using base(2) by (simp_all add: as reopen_ok_def node_of_def fun_eq_iff)
  ultimately have "batch_ok env opts [] s'"
    using S(2,3) base(3) assms(5-7)
    by (intro batch_okI) (auto simp: as saved_ok_def entry_ok_def output_kept_def output_same_def no_running_def)
  moreover have "progress (es_run s) ?run" unfolding as by (rule trans [OF header status])
  then have "chained (es_run s) s'" using assms(5,7) by (simp add: chained_def)
  ultimately show ?thesis by (simp add: wave_inv_def wave_ok_def todo_ok_def)
qed

lemma start_ended: "start_ok opts s \<Longrightarrow> es_run s' = es_run s \<Longrightarrow> es_saved s' = None \<Longrightarrow> es_commits s' = [] \<Longrightarrow> ended_inv (es_run s) s'"
  by (simp add: ended_inv_def saved_ok_def chained_def refl)

lemma execute_inv:
  assumes "start_ok opts s" "env_ok env opts"
  shows "proceeds (es_run s) (over_inv (es_run s)) (execute_run env opts s)"
proof -
  have now: "mono (ee_now env)" using assms(2) by (simp add: env_ok_def)
  have none: "es_saved s = None" "es_commits s = []" using assms(1) by (simp_all add: start_ok_def)
  have stop: "thrown_inv (es_run s) e s'" if "es_commits s' = []" "es_saved s' = None" "e \<noteq> Schema_rejected"
    "progress (es_run s) (es_run s')" for e s'
    using that by (simp add: thrown_inv_def ended_inv_def saved_ok_def chained_def boundary_ok_def)
  let ?from = "case rs_execution_directory (es_run s) of None \<Rightarrow> rs_project_directory (es_run s) | Some dir \<Rightarrow> dir"
  show ?thesis
  proof (cases "ee_filesystem_root env \<and> \<not> xo_allow_filesystem_root opts \<or> \<not> ee_lock env \<or>
      rs_owner_session_id (es_run s) \<noteq> xo_parent_session_id opts \<or> \<not> ee_hydrates env \<or> ee_directory env ?from = None")
    case True
    then show ?thesis using stop [OF none(2,1)] refl by (auto simp: execute_run_def)
  next
    case False
    then obtain dir where dir: "ee_directory env ?from = Some dir" by blast
    have go: "(ee_filesystem_root env \<and> \<not> xo_allow_filesystem_root opts) = False" "ee_lock env" "ee_hydrates env"
      "rs_owner_session_id (es_run s) = xo_parent_session_id opts" using False by blast+
    have shape: "project_path_shape dir" using assms(2) dir by (metis env_ok_def opt_all_simps(2))
    let ?s1 = "put_run ((es_run s)\<lparr>rs_execution_directory := Some dir\<rparr>) s"
    have eq: "(es_run s)\<lparr>rs_execution_directory := Some dir\<rparr> = (es_run s)\<lparr>rs_execution_directory := Some dir,
        rs_filesystem_root_authorizations := rs_filesystem_root_authorizations (es_run s)\<rparr>" by simp
    have p1: "progress (es_run s) ((es_run s)\<lparr>rs_execution_directory := Some dir\<rparr>)"
      by (subst eq) (rule header)
    show ?thesis
    proof (cases "preflight env opts None ?s1")
      case (Some reason)
      have "thrown_inv (es_run s) (Preflight_failed reason) (ask ?s1)" by (rule stop) (use none p1 in simp_all)
      then show ?thesis unfolding execute_run_def go(1) using go(2-4) dir Some by (simp add: Let_def)
    next
      case None
      let ?s2 = "ask ?s1"
      let ?run = "started env opts (ee_now env (es_tick ?s2)) dir (es_run s)"
      have w: "wave_inv env opts (es_run s) [] [] (put_run ?run (ask ?s2))"
        by (rule started_inv [OF assms shape]) (use go(4) none in simp_all)
      have "proceeds (es_run s) (over_inv (es_run s)) (and_then (waves env opts (max_waves opts) s') (finish_run env))"
        if "wave_inv env opts (es_run s) [] [] s'" for s'
        by (rule and_then_ok [OF waves_inv [OF that assms(2)]]) (rule finish_run_inv [OF _ assms(2)])
      then have "proceeds (es_run s) (over_inv (es_run s)) (and_then (save_run env (put_run ?run (ask ?s2)))
          (\<lambda>s. and_then (waves env opts (max_waves opts) s) (finish_run env)))"
        by (intro and_then_ok [OF save_idle [OF w now]])
      then show ?thesis unfolding execute_run_def go(1) using go(2-4) dir None by (simp add: Let_def started_def)
    qed
  qed
qed

end

end
