(* ===== verification/Execution_Properties.thy ===== *)
theory Execution_Properties
  imports Execution
begin

text \<open>
  What holds of \<open>executeRun\<close> as a whole: the interface \<open>run_progress\<close> interpreted on the growth of
  histories and on the identity of the task, the properties that follow, the protocol every
  worker of a batch keeps to, and the absence of deadlock in the scheduler.
\<close>

section \<open>Histories only grow\<close>

definition histories_grow :: "run_state \<Rightarrow> run_state \<Rightarrow> bool" where
  "histories_grow run run' \<longleftrightarrow>
     (\<forall>i st. node_of run i = Some st \<longrightarrow>
        (\<exists>st'. node_of run' i = Some st' \<and> length (ns_attempts st) \<le> length (ns_attempts st') \<and>
           list_all2 attempt_evolves (ns_attempts st) (take (length (ns_attempts st)) (ns_attempts st'))))"

lemma attempt_evolves_trans:
  assumes "attempt_evolves a b" "attempt_evolves b c"
  shows "attempt_evolves a c"
proof -
  have "c = a\<lparr>na_feedback_applied := na_feedback_applied c\<rparr>" if "na_status a \<noteq> Running"
  proof -
    have b: "b = a\<lparr>na_feedback_applied := na_feedback_applied b\<rparr>" using assms(1) that by (simp add: attempt_evolves_def)
    then have "na_status b = na_status a" by (metis node_attempt.select_convs(2) node_attempt.surjective node_attempt.update_convs(18))
    then have c: "c = b\<lparr>na_feedback_applied := na_feedback_applied c\<rparr>" using assms(2) that by (simp add: attempt_evolves_def)
    have "b\<lparr>na_feedback_applied := v\<rparr> = a\<lparr>na_feedback_applied := v\<rparr>" for v by (subst b) simp
    then show ?thesis using c by metis
  qed
  then show ?thesis using assms by (simp add: attempt_evolves_def)
qed

lemma histories_grow_trans:
  assumes "histories_grow a b" "histories_grow b c"
  shows "histories_grow a c"
  unfolding histories_grow_def
proof (intro allI impI)
  fix i st assume "node_of a i = Some st"
  then obtain st1 where 1: "node_of b i = Some st1" "length (ns_attempts st) \<le> length (ns_attempts st1)"
    "list_all2 attempt_evolves (ns_attempts st) (take (length (ns_attempts st)) (ns_attempts st1))"
    using assms(1) unfolding histories_grow_def by blast
  then obtain st2 where 2: "node_of c i = Some st2" "length (ns_attempts st1) \<le> length (ns_attempts st2)"
    "list_all2 attempt_evolves (ns_attempts st1) (take (length (ns_attempts st1)) (ns_attempts st2))"
    using assms(2) unfolding histories_grow_def by blast
  let ?n = "length (ns_attempts st)"
  have "list_all2 attempt_evolves (take ?n (ns_attempts st1)) (take ?n (take (length (ns_attempts st1)) (ns_attempts st2)))"
    by (rule list_all2_takeI [OF 2(3)])
  then have "list_all2 attempt_evolves (take ?n (ns_attempts st1)) (take ?n (ns_attempts st2))"
    using 1(2) by (simp add: min_absorb1)
  from list_all2_trans [OF attempt_evolves_trans 1(3) this] 1(2) 2(1,2)
  show "\<exists>st'. node_of c i = Some st' \<and> ?n \<le> length (ns_attempts st') \<and>
      list_all2 attempt_evolves (ns_attempts st) (take ?n (ns_attempts st'))" by auto
qed

lemma histories_grow_nodes:
  assumes "\<And>i st. node_of run i = Some st \<Longrightarrow> \<exists>st'. node_of run' i = Some st' \<and> node_evolves st st'"
  shows "histories_grow run run'"
  unfolding histories_grow_def
proof (intro allI impI)
  fix i st assume "node_of run i = Some st"
  then obtain st' where "node_of run' i = Some st'" "list_all2 attempt_evolves (ns_attempts st) (ns_attempts st')"
    using assms by (auto simp: node_evolves_def)
  moreover from this(2) have "length (ns_attempts st) = length (ns_attempts st')" by (rule list_all2_lengthD)
  ultimately show "\<exists>st'. node_of run' i = Some st' \<and> length (ns_attempts st) \<le> length (ns_attempts st') \<and>
      list_all2 attempt_evolves (ns_attempts st) (take (length (ns_attempts st)) (ns_attempts st'))" by simp
qed

lemma histories_grow_same: "node_of run' = node_of run \<Longrightarrow> histories_grow run run'"
  by (rule histories_grow_nodes) auto

interpretation history: run_progress histories_grow
proof unfold_locales
  show "histories_grow run run" for run by (rule histories_grow_same) simp
  show "histories_grow a b \<Longrightarrow> histories_grow b c \<Longrightarrow> histories_grow a c" for a b c by (rule histories_grow_trans)
  show "histories_grow run run'" if "nodes_evolve run run'" for run run'
    by (rule histories_grow_nodes) (use that in \<open>simp add: nodes_evolve_def\<close>)
  show "histories_grow run (adopt_criteria d out run)" for run d out
    by (rule histories_grow_same) (simp add: fun_eq_iff)
  show "histories_grow run ((set_node i (reserved_node now st) run)\<lparr>rs_global_attempts := rs_global_attempts run + 1\<rparr>)"
    if "node_of run i = Some st" for run i st now
    unfolding histories_grow_def
  proof (intro allI impI)
    fix j t assume t: "node_of run j = Some t"
    have look: "node_of ((set_node i (reserved_node now st) run)\<lparr>rs_global_attempts := rs_global_attempts run + 1\<rparr>) j =
        node_of (set_node i (reserved_node now st) run) j" by (simp add: node_of_def)
    show "\<exists>st'. node_of ((set_node i (reserved_node now st) run)\<lparr>rs_global_attempts := rs_global_attempts run + 1\<rparr>) j = Some st' \<and>
        length (ns_attempts t) \<le> length (ns_attempts st') \<and>
        list_all2 attempt_evolves (ns_attempts t) (take (length (ns_attempts t)) (ns_attempts st'))"
      unfolding look using t that by (cases "j = i") (auto simp: reserved_node_def list.rel_refl)
  qed
  show "histories_grow run (run\<lparr>rs_status := s, rs_phase := p\<rparr>)" for run s p
    by (rule histories_grow_same) (simp add: fun_eq_iff node_of_def)
  show "histories_grow run (run\<lparr>rs_summary := t\<rparr>)" for run t
    by (rule histories_grow_same) (simp add: fun_eq_iff node_of_def)
  show "histories_grow run (committed saved now run)" for run saved now
    by (rule histories_grow_nodes) (simp add: committed_node_of)
  show "histories_grow run (run\<lparr>rs_execution_directory := dir, rs_filesystem_root_authorizations := as\<rparr>)" for run dir as
    by (rule histories_grow_same) (simp add: fun_eq_iff node_of_def)
qed

section \<open>The task stays the same\<close>

definition same_task :: "run_state \<Rightarrow> run_state \<Rightarrow> bool" where
  "same_task run run' \<longleftrightarrow>
     rs_run_id run' = rs_run_id run \<and> rs_owner_session_id run' = rs_owner_session_id run \<and>
     rs_owner_transfers run' = rs_owner_transfers run \<and> rs_project_directory run' = rs_project_directory run \<and>
     rs_goal run' = rs_goal run \<and> rs_graph run' = rs_graph run \<and> rs_mode run' = rs_mode run \<and>
     rs_created_at run' = rs_created_at run \<and> rs_model_snapshot run' = rs_model_snapshot run \<and>
     (rs_criteria run \<noteq> [] \<longrightarrow> rs_criteria run' = rs_criteria run) \<and>
     rs_global_attempts run \<le> rs_global_attempts run' \<and>
     rs_global_attempts run' \<le> max (rs_global_attempts run) (gd_max_global_attempts (rs_graph run))"

lemma same_task_trans: "same_task a b \<Longrightarrow> same_task b c \<Longrightarrow> same_task a c"
  by (auto simp: same_task_def)

interpretation task: run_progress same_task
proof unfold_locales
  show "same_task a b \<Longrightarrow> same_task b c \<Longrightarrow> same_task a c" for a b c by (rule same_task_trans)
  show "nodes_evolve run run' \<Longrightarrow> same_task run run'" for run run'
    by (auto simp: nodes_evolve_def same_but_nodes_def same_task_def)
  show "same_task run (adopt_criteria d out run)" for run d out
    by (auto simp: same_task_def adopt_criteria_def split: option.split agent_output.split)
qed (auto simp: same_task_def set_node_def committed_def candidate_def)

section \<open>Executions\<close>

definition final_state :: "exec_result \<Rightarrow> exec_state" where
  "final_state r = (case r of Returned s \<Rightarrow> s | Thrown e s \<Rightarrow> s | Stalled s \<Rightarrow> s)"

lemma final_state_simps [simp]:
  "final_state (Returned s) = s" "final_state (Thrown e s) = s" "final_state (Stalled s) = s"
  by (simp_all add: final_state_def)



lemma table_values:
  assumes "table_fine run"
  shows "(\<forall>st \<in> set (node_values run). P (ns_status st)) \<longleftrightarrow>
    (\<forall>d \<in> set (gd_nodes (rs_graph run)). \<exists>x. node_status_of run (nd_id d) = Some x \<and> P x)"
proof -
  note T = table_fineD(1) [OF assms]
  have look: "\<exists>st. node_of run (nd_id d) = Some st" if "d \<in> set (gd_nodes (rs_graph run))" for d
    by (rule nodes_match_Some [OF T that])
  have def_of: "\<exists>d \<in> set (gd_nodes (rs_graph run)). nd_id d = i" if "node_of run i = Some st" for i st
    by (rule nodes_match_def_of [OF T that])
  show ?thesis
  proof
    assume all: "\<forall>st \<in> set (node_values run). P (ns_status st)"
    show "\<forall>d \<in> set (gd_nodes (rs_graph run)). \<exists>x. node_status_of run (nd_id d) = Some x \<and> P x"
    proof
      fix d assume "d \<in> set (gd_nodes (rs_graph run))"
      then obtain st where st: "node_of run (nd_id d) = Some st" using look by blast
      then have "st \<in> set (node_values run)" using node_values_status [OF T] by blast
      then show "\<exists>x. node_status_of run (nd_id d) = Some x \<and> P x" using all st by (simp add: node_status_of_def)
    qed
  next
    assume all: "\<forall>d \<in> set (gd_nodes (rs_graph run)). \<exists>x. node_status_of run (nd_id d) = Some x \<and> P x"
    show "\<forall>st \<in> set (node_values run). P (ns_status st)"
    proof
      fix st assume "st \<in> set (node_values run)"
      then obtain i where i: "node_of run i = Some st" using node_values_status [OF T] by blast
      obtain d where "d \<in> set (gd_nodes (rs_graph run))" "nd_id d = i" using def_of [OF i] by blast
      then have "\<exists>x. node_status_of run i = Some x \<and> P x" using all by blast
      then show "P (ns_status st)" using i by (simp add: node_status_of_def)
    qed
  qed
qed

lemma table_statuses:
  assumes "table_fine run"
  shows "all_terminal run \<longleftrightarrow> (\<forall>d \<in> set (gd_nodes (rs_graph run)). \<exists>x. node_status_of run (nd_id d) = Some x \<and> terminal x)"
    "any_failed run \<longleftrightarrow> (\<exists>d \<in> set (gd_nodes (rs_graph run)). node_status_of run (nd_id d) = Some Failed)"
proof -
  show "all_terminal run \<longleftrightarrow> (\<forall>d \<in> set (gd_nodes (rs_graph run)). \<exists>x. node_status_of run (nd_id d) = Some x \<and> terminal x)"
    using table_values [OF assms, of terminal] by (simp add: all_terminal_def list_all_iff)
  have look: "\<exists>x. node_status_of run (nd_id d) = Some x" if "d \<in> set (gd_nodes (rs_graph run))" for d
    using nodes_match_Some [OF table_fineD(1) [OF assms] that] by (auto simp: node_status_of_def)
  have "\<not> any_failed run \<longleftrightarrow> (\<forall>d \<in> set (gd_nodes (rs_graph run)). \<exists>x. node_status_of run (nd_id d) = Some x \<and> x \<noteq> Failed)"
    using table_values [OF assms, of "\<lambda>x. x \<noteq> Failed"] by (simp add: any_failed_def list_ex_iff)
  also have "\<dots> \<longleftrightarrow> (\<forall>d \<in> set (gd_nodes (rs_graph run)). node_status_of run (nd_id d) \<noteq> Some Failed)"
    using look by fastforce
  finally show "any_failed run \<longleftrightarrow> (\<exists>d \<in> set (gd_nodes (rs_graph run)). node_status_of run (nd_id d) = Some Failed)"
    by blast
qed


section \<open>No deadlock\<close>

text \<open>
  C16. The scheduler cannot deadlock: in an accepted run with no attempt in flight, once failures
  are propagated, either every node has ended or some node is ready to run.
\<close>

theorem no_deadlock:
  assumes "run_body_shape run" "run_issues sha run = []" "hydrated_run run" "no_running run"
  shows "all_terminal (propagate_skips run) \<or> ready_nodes (propagate_skips run) \<noteq> []"
proof (rule ccontr)
  assume stuck: "\<not> ?thesis"
  have fine: "run_fine run" by (rule accepted_run_fine [OF assms(1-3)])
  then have base: "base_fine run" by (simp add: run_fine_base)
  let ?run = "propagate_skips run"
  have sk: "skips run ?run" by (rule propagate_skips_skips [OF base])
  have g: "rs_graph ?run = rs_graph run" using sk by (simp add: skips_def same_but_nodes_graph)
  have base': "base_fine ?run" by (rule propagate_skips_fine [OF base])
  note T = table_fineD [OF base_fine_table [OF base']]
  let ?ns = "gd_nodes (rs_graph ?run)"
  have ord: "ordered_graph (rs_graph run)" using T(3) g by simp
  have quiet: "quiet ?run d" if "d \<in> set ?ns" for d
    using skip_failed_descendants_quiet [OF ord] propagate_skips_eq [OF ord] that g by metis
  have idle: "no_running ?run"
    unfolding no_running_def
  proof (intro allI impI)
    fix i st assume st: "node_of ?run i = Some st"
    show "ns_status st \<noteq> Running"
      using sk by (cases rule: skips_cases [of run ?run i]) (use st assms(4) in \<open>auto simp: no_running_def\<close>)
  qed
  have look: "\<exists>st. node_of ?run (nd_id d) = Some st" if "d \<in> set ?ns" for d using nodes_match_Some [OF T(1) that] by blast
  have "k < length ?ns \<Longrightarrow> \<exists>x. node_status_of ?run (nd_id (?ns ! k)) = Some x \<and> terminal x" for k
  proof (induction k rule: less_induct)
    case (less k)
    let ?d = "?ns ! k"
    have d: "?d \<in> set ?ns" using less.prems by simp
    obtain st where st: "node_of ?run (nd_id ?d) = Some st" using look [OF d] by blast
    show ?case
    proof (rule ccontr)
      assume "\<not> ?thesis"
      then have sched: "schedulable (ns_status st)"
        using st idle by (cases "ns_status st") (auto simp: node_status_of_def no_running_def)
      have "node_status_of ?run x = Some Done" if x: "x \<in> set (nd_depends_on ?d)" for x
      proof -
        have "x \<in> nd_id ` set (take k ?ns)"
          using T(3) less.prems x unfolding ordered_graph_def topological_def by blast
        then obtain j where j: "j < k" "nd_id (?ns ! j) = x" using less.prems by (auto simp: in_set_conv_nth)
        then obtain y where y: "node_status_of ?run x = Some y" "terminal y" using less.IH [OF j(1)] less.prems by auto
        have "\<not> blocked_by ?run x" using quiet [OF d] st sched x by (auto simp: quiet_def)
        then show ?thesis using y by (auto simp: blocked_by_def terminal_def)
      qed
      then have "is_ready ?run ?d" using st sched by (simp add: is_ready_def deps_done_def list_all_iff)
      then have "?d \<in> set (ready_nodes ?run)" using d by (simp add: ready_nodes_def)
      then show False using stuck by auto
    qed
  qed
  then have "all_terminal ?run" unfolding table_statuses(1) [OF base_fine_table [OF base']] by (metis in_set_conv_nth)
  then show False using stuck by simp
qed

section \<open>An example\<close>

text \<open>A run whose signal is aborted from the start, over a store that takes every generation.\<close>

definition example_exec_env :: exec_env where
  "example_exec_env = \<lparr>ee_worker = example_env, ee_sha = (\<lambda>s. s), ee_now = (\<lambda>t. 10 + t), ee_aborted = (\<lambda>t. True),
     ee_refuses = (\<lambda>t run. False), ee_preflight = (\<lambda>t gates. None), ee_events = (\<lambda>t. []), ee_lock = True,
     ee_filesystem_root = False, ee_hydrates = True, ee_directory = (\<lambda>p. Some (js ''/srv''))\<rparr>"

definition example_start :: exec_state where
  "example_start = \<lparr>es_run = example_open_run, es_saved = None, es_commits = [], es_tick = 0\<rparr>"

lemma example_start_fields [simp]:
  "es_run example_start = example_open_run" "es_saved example_start = None" "es_commits example_start = []"
  "rs_revision example_open_run = 1" "rs_owner_session_id example_open_run = js ''owner''"
  "rs_project_directory example_open_run = js ''/srv''" "rs_execution_directory example_open_run = None"
  "rs_filesystem_root_authorizations example_open_run = None"
  by (simp_all add: example_start_def example_open_run_def demo_run_def)

lemma example_options_fields [simp]:
  "xo_parent_session_id example_options = js ''owner''" "\<not> xo_dry example_options" "xo_max_waves example_options = None"
  "\<not> xo_allow_filesystem_root example_options"
  by (simp_all add: example_options_def)

lemma example_no_running: "no_running example_open_run"
  unfolding no_running_def
proof (intro allI impI)
  fix i st assume "node_of example_open_run i = Some st"
  then have "(i, st) \<in> set (init_node_states example_graph)" using node_of_SomeD by fastforce
  then have "\<exists>d. st = initial_node_state d"
    using init_node_states_map [of example_graph] graph_ok_ordered [OF example_graph_ok]
    by (auto simp: ordered_graph_def)
  then show "ns_status st \<noteq> Running" by (auto simp: initial_node_state_def)
qed

lemma example_start_ok: "start_ok example_options example_start"
  using example_open_run_fine example_no_running base_fine_run_fine [OF example_open_run_fine(1)]
  by (simp add: start_ok_def idle_fine_def)

lemma example_env_ok: "env_ok example_exec_env example_options"
proof -
  have "project_path_shape (rs_project_directory example_open_run)"
    using example_open_run_fine(1) by (simp add: base_fine_def header_shape_def)
  then show ?thesis by (simp add: env_ok_def example_exec_env_def mono_def)
qed

lemma save_willing:
  assumes "\<And>t run. \<not> ee_refuses env t run" "proceeds_post (save_run env s)" "rs_revision (es_run s) < MAX_SAFE_INTEGER"
    and "\<And>e s'. proceeds_post (Thrown e s') \<Longrightarrow> boundary_ok s' e"
  obtains s' where "save_run env s = Returned s'" "proceeds_post (Returned s')"
    "rs_revision (es_run s') \<le> Suc (rs_revision (es_run s))"
proof (cases rule: save_cases [of env s])
  case same
  then show thesis using that [of s] assms(2) by simp
next
  case (failed e)
  have "e \<noteq> Store_refused" using failed(1) assms(1) by (auto simp: save_run_def Let_def split: if_splits)
  then have "e = Schema_rejected" using failed(2) by blast
  moreover have "boundary_ok (ask s) e" by (rule assms(4)) (use assms(2) failed(1) in simp)
  ultimately have "MAX_SAFE_INTEGER \<le> rs_revision (es_run s)" by (simp add: boundary_ok_def)
  then show thesis using assms(3) by simp
next
  case (committed now)
  then show thesis using that [OF committed(2)] assms(2) by (simp add: Executor.committed_def candidate_def)
qed

lemma example_returns: "\<exists>s'. execute_run example_exec_env example_options example_start = Returned s'"
proof -
  let ?env = example_exec_env and ?opts = example_options and ?s = example_start and ?run = example_open_run
  have env: "\<And>t run. \<not> ee_refuses ?env t run" "\<And>t. ee_aborted ?env t" "ee_lock ?env" "ee_hydrates ?env"
    "\<not> ee_filesystem_root ?env" "\<And>p. ee_directory ?env p = Some (js ''/srv'')" "\<And>t gs. ee_preflight ?env t gs = None"
    by (simp_all add: example_exec_env_def)
  have now: "mono (ee_now ?env)" using example_env_ok by (simp add: env_ok_def)
  have waves_max: "waves ?env ?opts (max_waves ?opts) = waves ?env ?opts (Suc 127)" by (simp add: max_waves_def)
  have dir: "project_path_shape (js ''/srv'')"
    using example_open_run_fine(1) by (simp add: base_fine_def header_shape_def)
  have quiet: "preflight ?env ?opts None x = None" for x by (simp add: preflight_def Let_def env)
  let ?s2 = "ask (put_run (?run\<lparr>rs_execution_directory := Some (js ''/srv'')\<rparr>) ?s)"
  let ?r = "started ?env ?opts (ee_now ?env (es_tick ?s2)) (js ''/srv'') ?run"
  let ?s3 = "put_run ?r (ask ?s2)"
  have w: "history.wave_inv ?env ?opts ?run [] [] ?s3"
    using history.started_inv [OF example_start_ok example_env_ok dir, of ?s3] by simp
  have rev: "rs_revision (es_run ?s3) = 1"
    by (simp add: started_def start_run_def authorize_root_def env)
  obtain s4 where s4: "save_run ?env ?s3 = Returned s4" "history.wave_inv ?env ?opts ?run [] [] s4"
    "rs_revision (es_run s4) \<le> 2"
  proof (rule save_willing [of ?env "history.proceeds ?run (history.wave_inv ?env ?opts ?run [] [])" ?s3])
    show "history.proceeds ?run (history.wave_inv ?env ?opts ?run [] []) (save_run ?env ?s3)"
      by (rule history.save_idle [OF w now])
  qed (use env(1) rev in \<open>simp_all add: history.thrown_inv_def MAX_SAFE_INTEGER_def\<close>)
  obtain s5 where s5: "waves ?env ?opts (max_waves ?opts) s4 = Returned s5" "s5 = s4 \<or> s5 = ask s4"
  proof (cases "all_terminal (es_run s4)")
    case True
    have "waves ?env ?opts (max_waves ?opts) s4 = Returned s4" unfolding waves_max waves.simps using True by simp
    then show ?thesis using that by blast
  next
    case False
    have "waves ?env ?opts (max_waves ?opts) s4 = Returned (ask s4)"
      unfolding waves_max waves.simps using False env(2) by simp
    then show ?thesis using that by blast
  qed
  have w5: "history.wave_inv ?env ?opts ?run [] [] s5" using s5(2) s4(2) history.wave_inv_ask [OF s4(2) now] by auto
  have "rs_revision (es_run s5) \<le> 2" using s5(2) s4(3) by auto
  let ?s6 = "put_run (summarized (closing_status (finish_global_limit (propagate_skips (es_run s5))))) s5"
  have "rs_revision (es_run ?s6) \<le> 2"
  proof -
    let ?p = "propagate_skips (es_run s5)"
    have idle: "idle_fine ?p" using history.wave_inv_idle [OF history.skip_put [OF w5]] by simp
    have "base_fine (es_run s5)" using history.wave_inv_idle [OF w5] by (simp add: idle_fine_def)
    then have "rs_revision ?p = rs_revision (es_run s5)"
      using propagate_skips_skips unfolding skips_def same_but_nodes_def by force
    moreover have "rs_revision (finish_global_limit ?p) = rs_revision ?p"
      using finish_global_limit_fine(2) [OF idle] unfolding same_but_nodes_def by force
    ultimately show ?thesis using \<open>rs_revision (es_run s5) \<le> 2\<close> by (simp add: summarized_def history.closing_fields)
  qed
  then have "rs_revision (es_run ?s6) < MAX_SAFE_INTEGER" by (simp add: MAX_SAFE_INTEGER_def)
  moreover have "history.proceeds ?run (history.over_inv ?run) (save_run ?env ?s6)"
    using history.finish_run_inv [OF w5 example_env_ok] by (simp add: finish_run_def)
  moreover have "boundary_ok s' e" if "history.proceeds ?run (history.over_inv ?run) (Thrown e s')" for e s'
    using that by (simp add: history.thrown_inv_def)
  ultimately obtain s7 where "save_run ?env ?s6 = Returned s7"
    using save_willing [of ?env "history.proceeds ?run (history.over_inv ?run)" ?s6] env(1) by metis
  then have "execute_run ?env ?opts ?s = Returned s7"
    using s4(1) s5(1) by (simp add: execute_run_def env quiet Let_def started_def and_then_def finish_run_def)
  then show ?thesis by blast
qed




lemma example_open_checks: "run_body_shape example_open_run" "run_issues (\<lambda>s. s) example_open_run = []"
  "hydrated_run example_open_run"
  by (rule run_fine_checks, rule base_fine_run_fine [OF example_open_run_fine(1)], simp)+

theorem no_deadlock_witness:
  "all_terminal (propagate_skips example_open_run) \<or> (\<exists>d. d \<in> set (ready_nodes (propagate_skips example_open_run)))"
  using no_deadlock [OF example_open_checks example_no_running] list.set_sel(1) by blast

section \<open>The protocol of a worker\<close>

text \<open>
  What the promise of one worker goes through, without the run: it works, saves what it knows of
  its session any number of times, and ends once, after its outcome was saved or because a step
  failed. Every batch of events refines it.
\<close>

inductive phase_step :: "worker_phase \<Rightarrow> worker_phase \<Rightarrow> bool" where
  session: "phase_step Working Saving_session"
| unlinked: "phase_step Working (Ended (Boundary Link_failed))"
| settled: "phase_step Working Saving_outcome"
| broke: "phase_step Working (Ended (Rejected reason))"
| resumed: "phase_step Saving_session Working"
| handoff: "phase_step Saving_session (Ended (Boundary Handoff_failed))"
| unsaved_session: "e = Store_refused \<or> e = Schema_rejected \<Longrightarrow> phase_step Saving_session (Ended (Boundary e))"
| fulfilled: "phase_step Saving_outcome (Ended Fulfilled)"
| unsaved_outcome: "e = Store_refused \<or> e = Schema_rejected \<Longrightarrow> phase_step Saving_outcome (Ended (Boundary e))"

inductive_cases phase_step_EndedE: "phase_step (Ended x) p"
inductive_simps phase_step_simps: "phase_step Working p" "phase_step Saving_session p" "phase_step Saving_outcome p"
  "phase_step (Ended x) p"

lemma ended_stays: "phase_step\<^sup>*\<^sup>* p q \<Longrightarrow> p = Ended x \<Longrightarrow> q = p"
  by (induction rule: rtranclp_induct) (auto elim: phase_step_EndedE)

lemma phase_of_enter [simp]: "phase_of (enter i p b) j = (if j = i then Some p else phase_of b j)"
  by (simp add: phase_of_def enter_def update_conv')

lemma phase_of_unchanged [simp]: "phase_of (on_run f b) = phase_of b" "phase_of (b\<lparr>ba_exec := s\<rparr>) = phase_of b"
  by (simp_all add: phase_of_def on_run_def fun_eq_iff)

lemma save_failures:
  assumes "save_run env s = Thrown e s'"
  shows "e = Store_refused \<or> e = Schema_rejected"
  using assms by (cases rule: save_cases [of env s]) auto

lemma worker_save_phase:
  assumes "phase_of b i = Some p" "phase_step p q" "\<And>e. e = Store_refused \<or> e = Schema_rejected \<Longrightarrow> phase_step p (Ended (Boundary e))"
  shows "\<exists>r. phase_of (worker_save env i q b) i = Some r \<and> (r = p \<or> phase_step p r)"
proof (cases "save_run env (ba_exec b)")
  case (Thrown e s)
  then show ?thesis using assms(3) save_failures [OF Thrown] by (simp add: worker_save_def)
qed (use assms in \<open>simp_all add: worker_save_def\<close>)

lemma worker_save_other: "j \<noteq> i \<Longrightarrow> phase_of (worker_save env i q b) j = phase_of b j"
  by (simp add: worker_save_def split: exec_result.split)

lemma apply_event_phase:
  assumes "phase_of b i = Some p"
  shows "\<exists>q. phase_of (apply_event env opts ev b) i = Some q \<and> (q = p \<or> phase_step p q)"
proof (cases ev)
  case (Session_created j sid linked)
  then show ?thesis using assms by (auto simp: apply_event_def phase_step_simps)
next
  case (Session_reported j sid)
  then show ?thesis using assms by (auto simp: apply_event_def phase_step_simps)
next
  case (Settled j reply)
  then show ?thesis using assms
    by (cases "node_def_of (rs_graph (es_run (ba_exec b))) j") (auto simp: apply_event_def phase_step_simps Let_def)
next
  case (Broke j reason)
  then show ?thesis using assms by (auto simp: apply_event_def phase_step_simps)
next
  case (Saved j proceeds)
  show ?thesis
  proof (cases "j = i")
    case True
    then show ?thesis
      using Saved assms worker_save_phase [OF assms, of "if proceeds then Working else Ended (Boundary Handoff_failed)"]
        worker_save_phase [OF assms, of "Ended Fulfilled"]
      by (cases p) (simp_all add: apply_event_def phase_step_simps)
  next
    case False
    then show ?thesis using Saved assms worker_save_other [of i j env] by (simp add: apply_event_def)
  qed
qed

lemma run_events_phase:
  "phase_of b i = Some p \<Longrightarrow> \<exists>q. phase_of (run_events env opts evs b) i = Some q \<and> phase_step\<^sup>*\<^sup>* p q"
proof (induction evs arbitrary: b p)
  case (Cons ev evs)
  obtain q where q: "phase_of (apply_event env opts ev b) i = Some q" "phase_step\<^sup>*\<^sup>* p q"
    using apply_event_phase [OF Cons.prems] by blast
  then show ?case using Cons.IH [OF q(1)] by (auto intro: rtranclp_trans)
qed simp


end
