(* ===== verification/Persistence.thy ===== *)
theory Persistence
  imports Run_Invariant Results
begin

text \<open>
  \<open>src/persistence.ts\<close>: canonical JSON and its digest, content-addressed references, and
  \<open>projectRunState\<close>, which replaces outputs, old attempts and long diagnostics by references to
  immutable documents. The digest, the recorded text of a timestamp and the redaction of
  diagnostics are fields of \<open>persist_env\<close>.
\<close>

section \<open>Canonical JSON\<close>

text \<open>\<open>Array.prototype.sort\<close> on strings: the lexicographic order of their code units.\<close>

fun units_le :: "jstr \<Rightarrow> jstr \<Rightarrow> bool" where
  "units_le [] t \<longleftrightarrow> True"
| "units_le (c # s) [] \<longleftrightarrow> False"
| "units_le (c # s) (d # t) \<longleftrightarrow> c < d \<or> (c = d \<and> units_le s t)"

fun insert_member :: "jstr \<times> json \<Rightarrow> (jstr \<times> json) list \<Rightarrow> (jstr \<times> json) list" where
  "insert_member m [] = [m]"
| "insert_member m (n # ms) = (if units_le (fst m) (fst n) then m # n # ms else n # insert_member m ms)"

definition sort_members :: "(jstr \<times> json) list \<Rightarrow> (jstr \<times> json) list" where
  "sort_members ms = foldr insert_member ms []"

fun canonicalize :: "json \<Rightarrow> json"
  and canonicalize_items :: "json list \<Rightarrow> json list"
  and canonicalize_members :: "(jstr \<times> json) list \<Rightarrow> (jstr \<times> json) list" where
  "canonicalize J_null = J_null"
| "canonicalize (J_bool b) = J_bool b"
| "canonicalize (J_num n) = J_num n"
| "canonicalize (J_str s) = J_str s"
| "canonicalize (J_arr xs) = J_arr (canonicalize_items xs)"
| "canonicalize (J_obj ms) = J_obj (sort_members (canonicalize_members ms))"
| "canonicalize_items [] = []"
| "canonicalize_items (x # xs) = canonicalize x # canonicalize_items xs"
| "canonicalize_members [] = []"
| "canonicalize_members ((k, v) # ms) = (k, canonicalize v) # canonicalize_members ms"

definition canonical_json :: "json \<Rightarrow> jstr" where
  "canonical_json v = stringify (canonicalize v)"

definition sha256_json :: "(jstr \<Rightarrow> jstr) \<Rightarrow> json \<Rightarrow> jstr" where
  "sha256_json sha v = sha (canonical_json v)"

section \<open>Documents\<close>

text \<open>
  The values that are stored as immutable files: an output, a full attempt, a failure list, an
  attempt history and the history of root authorizations.
\<close>

record history_document =
  hd_schema_version :: nat
  hd_kind :: "jstr option"
  hd_owner_session_id :: "jstr option"
  hd_run_id :: jstr
  hd_node_id :: jstr
  hd_attempts :: "node_attempt list"

record roots_document =
  rd_run_id :: jstr
  rd_owner_session_id :: jstr
  rd_authorizations :: "root_authorization list"

datatype document =
    Output_document agent_output
  | Detail_document node_attempt
  | Failures_document "jstr list"
  | History_document history_document
  | Roots_document roots_document

record persist_env =
  pe_sha :: "jstr \<Rightarrow> jstr"
  pe_stamp :: "nat \<Rightarrow> jstr"
  pe_redact :: "jstr \<Rightarrow> jstr"

definition data_ref_json :: "data_ref \<Rightarrow> json" where
  "data_ref_json r = J_obj
     [(js ''artifact_path'', J_str (dr_artifact_path r)), (js ''sha256'', J_str (dr_sha256 r)),
      (js ''byte_size'', j_nat (dr_byte_size r))]"

definition commitment_json :: "failure_commitment \<Rightarrow> json" where
  "commitment_json c = J_obj
     [(js ''algorithm'', J_str (js ''sha256'')), (js ''sha256'', J_str (fc_sha256 c)),
      (js ''entry_count'', j_nat (fc_entry_count c))]"

definition attempt_json :: "(nat \<Rightarrow> jstr) \<Rightarrow> node_attempt \<Rightarrow> json" where
  "attempt_json stamp a = J_obj
     ([(js ''attempt'', j_nat (na_attempt a)), (js ''status'', J_str (node_status_name (na_status a)))] @
      j_opt ''session_id'' J_str (na_session_id a) @
      [(js ''started_at'', J_str (stamp (na_started_at a)))] @
      j_opt ''finished_at'' (\<lambda>t. J_str (stamp t)) (na_finished_at a) @
      j_opt ''output'' output_json (na_output a) @
      j_opt ''output_ref'' data_ref_json (na_output_ref a) @
      j_opt ''detail_ref'' data_ref_json (na_detail_ref a) @
      [(js ''failures'', j_strs (na_failures a))] @
      j_opt ''failures_commitment'' commitment_json (na_failures_commitment a) @
      j_opt ''failures_omitted'' j_nat (na_failures_omitted a) @
      j_opt ''failure_texts_truncated'' j_nat (na_failure_texts_truncated a) @
      j_opt ''score'' j_nat (na_score a) @
      j_opt ''shell_ok'' J_bool (na_shell_ok a) @
      j_opt ''schema_ok'' J_bool (na_schema_ok a) @
      j_opt ''error'' J_str (na_error a) @
      j_opt ''error_bytes_omitted'' j_nat (na_error_bytes_omitted a) @
      j_opt ''feedback_applied'' J_bool (na_feedback_applied a) @
      j_opt ''outcome'' (\<lambda>x. J_str (outcome_name x)) (na_outcome a))"

definition history_json :: "(nat \<Rightarrow> jstr) \<Rightarrow> history_document \<Rightarrow> json" where
  "history_json stamp h = J_obj
     ([(js ''schema_version'', j_nat (hd_schema_version h))] @
      j_opt ''kind'' J_str (hd_kind h) @
      j_opt ''owner_session_id'' J_str (hd_owner_session_id h) @
      [(js ''run_id'', J_str (hd_run_id h)), (js ''node_id'', J_str (hd_node_id h)),
       (js ''attempts'', J_arr (map (attempt_json stamp) (hd_attempts h)))])"

fun operation_name :: "root_operation \<Rightarrow> jstr" where
  "operation_name Op_plan = js ''plan''"
| "operation_name Op_run = js ''run''"
| "operation_name Op_resume = js ''resume''"

definition authorization_json :: "(nat \<Rightarrow> jstr) \<Rightarrow> root_authorization \<Rightarrow> json" where
  "authorization_json stamp a = J_obj
     ([(js ''operation'', J_str (operation_name (rauth_operation a))),
       (js ''by_session_id'', J_str (rauth_by_session_id a)),
       (js ''authorized_at'', J_str (stamp (rauth_authorized_at a)))] @
      (if rauth_authorized a then [(js ''authorized'', J_bool True)] else []) @
      j_opt ''path'' J_str (rauth_path a))"

definition roots_json :: "(nat \<Rightarrow> jstr) \<Rightarrow> roots_document \<Rightarrow> json" where
  "roots_json stamp r = J_obj
     [(js ''schema_version'', j_nat 1), (js ''kind'', J_str (js ''filesystem_root_authorizations'')),
      (js ''run_id'', J_str (rd_run_id r)), (js ''owner_session_id'', J_str (rd_owner_session_id r)),
      (js ''authorizations'', J_arr (map (authorization_json stamp) (rd_authorizations r)))]"

fun document_json :: "(nat \<Rightarrow> jstr) \<Rightarrow> document \<Rightarrow> json" where
  "document_json stamp (Output_document v) = output_json v"
| "document_json stamp (Detail_document a) = attempt_json stamp a"
| "document_json stamp (Failures_document fs) = j_strs fs"
| "document_json stamp (History_document h) = history_json stamp h"
| "document_json stamp (Roots_document r) = roots_json stamp r"

definition digest :: "persist_env \<Rightarrow> document \<Rightarrow> jstr" where
  "digest env doc = sha256_json (pe_sha env) (document_json (pe_stamp env) doc)"

definition document_size :: "persist_env \<Rightarrow> document \<Rightarrow> nat" where
  "document_size env doc = serialized_bytes (document_json (pe_stamp env) doc)"

section \<open>References\<close>

definition attempt_artifact_path :: "jstr \<Rightarrow> jstr \<Rightarrow> nat \<Rightarrow> jstr \<Rightarrow> jstr" where
  "attempt_artifact_path run_id node_id n h =
     run_base run_id ''artifacts'' @ node_id @ js ''-attempt-'' @ dec n @ js ''-output-'' @ h @ dot_json"

definition node_artifact_path :: "jstr \<Rightarrow> jstr \<Rightarrow> jstr \<Rightarrow> jstr" where
  "node_artifact_path run_id node_id h = run_base run_id ''artifacts'' @ node_id @ js ''-output-'' @ h @ dot_json"

definition attempt_history_path :: "jstr \<Rightarrow> jstr \<Rightarrow> jstr \<Rightarrow> jstr" where
  "attempt_history_path run_id node_id h = run_base run_id ''history'' @ node_id @ js ''-attempts-'' @ h @ dot_json"

definition attempt_detail_path :: "jstr \<Rightarrow> jstr \<Rightarrow> nat \<Rightarrow> jstr \<Rightarrow> jstr" where
  "attempt_detail_path run_id node_id n h =
     run_base run_id ''history'' @ node_id @ js ''-attempt-'' @ dec n @ js ''-detail-'' @ h @ dot_json"

definition node_failures_path :: "jstr \<Rightarrow> jstr \<Rightarrow> jstr \<Rightarrow> jstr" where
  "node_failures_path run_id node_id h = run_base run_id ''history'' @ node_id @ js ''-failures-'' @ h @ dot_json"

definition root_authorizations_path :: "jstr \<Rightarrow> jstr \<Rightarrow> jstr" where
  "root_authorizations_path run_id h =
     run_base run_id ''history'' @ js ''filesystem-root-authorizations-'' @ h @ dot_json"

definition content_addressed_reference :: "persist_env \<Rightarrow> document \<Rightarrow> (jstr \<Rightarrow> jstr) \<Rightarrow> data_ref" where
  "content_addressed_reference env doc path_for_hash =
     \<lparr>dr_artifact_path = path_for_hash (digest env doc), dr_sha256 = digest env doc,
      dr_byte_size = document_size env doc\<rparr>"

definition node_output_reference :: "persist_env \<Rightarrow> jstr \<Rightarrow> jstr \<Rightarrow> agent_output \<Rightarrow> data_ref" where
  "node_output_reference env run_id node_id out =
     content_addressed_reference env (Output_document out) (node_artifact_path run_id node_id)"

definition root_authorization_counts :: "root_authorization list \<Rightarrow> root_operation_counts" where
  "root_authorization_counts as =
     (let count = (\<lambda>x. length (filter (\<lambda>a. rauth_operation a = x) as))
      in \<lparr>roc_plan = count Op_plan, roc_run = count Op_run, roc_resume = count Op_resume\<rparr>)"

definition attempt_outcome_counts :: "node_attempt list \<Rightarrow> outcome_counts" where
  "attempt_outcome_counts as =
     (let count = (\<lambda>x. length (filter (\<lambda>a. na_outcome a = x) as))
      in \<lparr>oc_passed = count (Some Passed), oc_schema_invalid = count (Some Schema_invalid),
          oc_sdk_error = count (Some Sdk_error), oc_substantive_rejection = count (Some Substantive_rejection),
          oc_incomplete = count (Some Incomplete), oc_gate_failure = count (Some Gate_failure),
          oc_legacy_unknown = count None\<rparr>)"

definition root_authorization_reference :: "persist_env \<Rightarrow> jstr \<Rightarrow> roots_document \<Rightarrow> root_authorization_ref" where
  "root_authorization_reference env run_id doc =
     (let r = content_addressed_reference env (Roots_document doc) (root_authorizations_path run_id)
      in \<lparr>dr_artifact_path = dr_artifact_path r, dr_sha256 = dr_sha256 r, dr_byte_size = dr_byte_size r,
          ra_authorization_count = length (rd_authorizations doc),
          ra_operation_counts = root_authorization_counts (rd_authorizations doc)\<rparr>)"

section \<open>Attempts\<close>

text \<open>\<open>attemptDetailDocument\<close>: an attempt without its projection fields.\<close>

definition attempt_detail_document :: "node_attempt \<Rightarrow> node_attempt" where
  "attempt_detail_document a = a\<lparr>
     na_output_ref := None, na_detail_ref := None, na_failures_omitted := None,
     na_failure_texts_truncated := None, na_failures_commitment := None, na_error_bytes_omitted := None\<rparr>"

definition attempt_has_complete_detail :: "node_attempt \<Rightarrow> bool" where
  "attempt_has_complete_detail a \<longleftrightarrow>
     na_detail_ref a = None \<or>
     na_failures_omitted a = None \<and> na_failure_texts_truncated a = None \<and> na_error_bytes_omitted a = None \<and>
     (na_output_ref a = None \<or> na_output a \<noteq> None)"

text \<open>A value that is left out when it is zero or the empty string.\<close>

definition positive :: "nat \<Rightarrow> nat option" where
  "positive n = (if n = 0 then None else Some n)"

definition non_empty :: "jstr option \<Rightarrow> jstr option" where
  "non_empty s = (if s = Some [] then None else s)"

record projected_failures =
  pf_values :: "jstr list"
  pf_omitted :: nat
  pf_truncated :: nat

definition project_failures ::
  "persist_env \<Rightarrow> jstr list \<Rightarrow> nat option \<Rightarrow> nat option \<Rightarrow> nat \<Rightarrow> nat \<Rightarrow> projected_failures" where
  "project_failures env vals previous_omitted previous_truncated maximum maximum_bytes =
     (let selected = take maximum vals in
      \<lparr>pf_values = map (\<lambda>v. safe_diagnostic_text_max (pe_redact env) v maximum_bytes) selected,
       pf_omitted = or_zero previous_omitted + (length vals - length selected),
       pf_truncated = or_zero previous_truncated + length (filter (\<lambda>v. maximum_bytes < utf8_bytes v) vals)\<rparr>)"

definition project_error :: "persist_env \<Rightarrow> jstr option \<Rightarrow> nat option \<Rightarrow> jstr option \<times> nat" where
  "project_error env error previous_omitted =
     (case error of
        None \<Rightarrow> (None, or_zero previous_omitted)
      | Some e \<Rightarrow>
          let projected = safe_diagnostic_text_max (pe_redact env) e MAX_PROJECTED_ERROR_BYTES
          in (Some projected, or_zero previous_omitted + (utf8_bytes e - utf8_bytes projected)))"

definition project_attempt :: "persist_env \<Rightarrow> jstr \<Rightarrow> jstr \<Rightarrow> node_attempt \<Rightarrow> node_attempt" where
  "project_attempt env run_id node_id a =
     (let failures = project_failures env (na_failures a) (na_failures_omitted a) (na_failure_texts_truncated a)
            MAX_PROJECTED_ATTEMPT_FAILURES MAX_PROJECTED_FAILURE_BYTES;
          (error, error_omitted) = project_error env (na_error a) (na_error_bytes_omitted a)
      in \<lparr>na_attempt = na_attempt a, na_status = na_status a, na_session_id = non_empty (na_session_id a),
          na_started_at = na_started_at a, na_finished_at = na_finished_at a, na_output = None,
          na_output_ref =
            (case na_output a of
               None \<Rightarrow> na_output_ref a
             | Some out \<Rightarrow> Some (content_addressed_reference env (Output_document out)
                 (attempt_artifact_path run_id node_id (na_attempt a)))),
          na_detail_ref =
            (if attempt_has_complete_detail a
             then Some (content_addressed_reference env (Detail_document (attempt_detail_document a))
               (attempt_detail_path run_id node_id (na_attempt a)))
             else na_detail_ref a),
          na_failures = pf_values failures,
          na_failures_commitment = Some (failure_list_commitment (pe_sha env) (na_failures a)),
          na_failures_omitted = positive (pf_omitted failures),
          na_failure_texts_truncated = positive (pf_truncated failures),
          na_score = na_score a, na_shell_ok = na_shell_ok a, na_schema_ok = na_schema_ok a,
          na_error = error, na_error_bytes_omitted = positive error_omitted,
          na_feedback_applied = na_feedback_applied a, na_outcome = na_outcome a\<rparr>)"

definition history_reference :: "persist_env \<Rightarrow> jstr \<Rightarrow> jstr \<Rightarrow> history_document \<Rightarrow> attempt_history_ref" where
  "history_reference env run_id node_id doc =
     (let as = hd_attempts doc;
          count = (\<lambda>P. length (filter P as));
          total = (\<lambda>f. sum_list (map (\<lambda>a. or_zero (f a)) as));
          r = content_addressed_reference env (History_document doc) (attempt_history_path run_id node_id)
      in \<lparr>dr_artifact_path = dr_artifact_path r, dr_sha256 = dr_sha256 r, dr_byte_size = dr_byte_size r,
          ah_attempt_count = length as,
          ah_output_count = count (\<lambda>a. na_output_ref a \<noteq> None),
          ah_session_count = Some (count (\<lambda>a. na_session_id a \<noteq> None)),
          ah_failure_entries_omitted = total na_failures_omitted,
          ah_failure_texts_truncated = total na_failure_texts_truncated,
          ah_error_bytes_omitted = total na_error_bytes_omitted,
          ah_failure_commitment_count = Some (count (\<lambda>a. na_failures_commitment a \<noteq> None)),
          ah_outcome_counts = Some (attempt_outcome_counts as),
          ah_feedback_applied_count = Some (count (\<lambda>a. na_feedback_applied a = Some True))\<rparr>)"

section \<open>The projection\<close>

datatype store_error =
    Missing_run
  | Revision_conflict nat nat
  | Run_invalid issues
  | Run_too_large
  | Path_not_contained
  | Foreign_reference data_ref
  | Missing_reference data_ref
  | Integrity_mismatch data_ref
  | Detail_invalid data_ref
  | Detail_mismatch data_ref
  | Detail_missing nat
  | Commitment_mismatch
  | Output_invalid
  | Failures_mismatch data_ref
  | History_invalid data_ref
  | History_unhydrated jstr
  | Roots_invalid data_ref
  | Roots_mismatch
  | Node_missing jstr

text \<open>\<open>array.slice(-n)\<close> and \<open>array.slice(0, -n)\<close>.\<close>

definition take_last :: "nat \<Rightarrow> 'a list \<Rightarrow> 'a list" where
  "take_last n xs = drop (length xs - n) xs"

definition drop_last :: "nat \<Rightarrow> 'a list \<Rightarrow> 'a list" where
  "drop_last n xs = take (length xs - n) xs"

text \<open>The visible attempts of a node, its history reference and the history to publish.\<close>

definition project_history ::
  "persist_env \<Rightarrow> run_state \<Rightarrow> node_state \<Rightarrow>
   store_error + node_attempt list \<times> attempt_history_ref option \<times> history_document option" where
  "project_history env run st =
     (let projected = map (project_attempt env (rs_run_id run) (ns_id st)) (ns_attempts st) in
      if length projected \<le> MAX_INLINE_ATTEMPTS_PER_NODE
      then Inr (projected, ns_attempt_history_ref st, None)
      else if ns_attempt_history_ref st \<noteq> None then Inl (History_unhydrated (ns_id st))
      else
        let doc = \<lparr>hd_schema_version = 2, hd_kind = Some (js ''attempt_history''),
                   hd_owner_session_id = Some (rs_owner_session_id run), hd_run_id = rs_run_id run,
                   hd_node_id = ns_id st, hd_attempts = drop_last MAX_INLINE_ATTEMPTS_PER_NODE projected\<rparr>
        in Inr (take_last MAX_INLINE_ATTEMPTS_PER_NODE projected,
             Some (history_reference env (rs_run_id run) (ns_id st) doc), Some doc))"

definition has_complete_last_failures :: "node_state \<Rightarrow> bool" where
  "has_complete_last_failures st \<longleftrightarrow>
     ns_last_failures_ref st = None \<or>
     ns_last_failures_omitted st = None \<and> ns_last_failure_texts_truncated st = None"

definition last_failures_reference :: "persist_env \<Rightarrow> jstr \<Rightarrow> node_state \<Rightarrow> data_ref option" where
  "last_failures_reference env run_id st =
     (if ns_last_failures st = [] then None
      else if has_complete_last_failures st
      then Some (content_addressed_reference env (Failures_document (ns_last_failures st))
        (node_failures_path run_id (ns_id st)))
      else ns_last_failures_ref st)"

definition project_node ::
  "persist_env \<Rightarrow> run_state \<Rightarrow> node_state \<Rightarrow> store_error + node_state \<times> history_document option" where
  "project_node env run st =
     sbind (project_history env run st) (\<lambda>(visible, history_ref, history).
       let failures = project_failures env (ns_last_failures st) (ns_last_failures_omitted st)
             (ns_last_failure_texts_truncated st) MAX_PROJECTED_NODE_FAILURES MAX_PROJECTED_NODE_FAILURE_BYTES
       in Inr (\<lparr>ns_id = ns_id st, ns_agent = ns_agent st, ns_status = ns_status st, ns_attempts = visible,
            ns_attempt_history_ref = history_ref, ns_current_attempt = ns_current_attempt st,
            ns_output = None,
            ns_output_ref =
              (case ns_output st of
                 None \<Rightarrow> ns_output_ref st
               | Some out \<Rightarrow> Some (node_output_reference env (rs_run_id run) (ns_id st) out)),
            ns_last_failures = pf_values failures,
            ns_last_failures_commitment = Some (failure_list_commitment (pe_sha env) (ns_last_failures st)),
            ns_last_failures_ref = last_failures_reference env (rs_run_id run) st,
            ns_last_failures_omitted = positive (pf_omitted failures),
            ns_last_failure_texts_truncated = positive (pf_truncated failures)\<rparr>, history))"

definition project_entry ::
  "persist_env \<Rightarrow> run_state \<Rightarrow> node_def \<Rightarrow> store_error + (jstr \<times> node_state) \<times> history_document option" where
  "project_entry env run d =
     (case node_of run (nd_id d) of
        None \<Rightarrow> Inl (Node_missing (nd_id d))
      | Some st \<Rightarrow> sbind (project_node env run st) (\<lambda>(st', history). Inr ((ns_id st, st'), history)))"

definition authorizations_of :: "run_state \<Rightarrow> root_authorization list" where
  "authorizations_of run = (case rs_filesystem_root_authorizations run of None \<Rightarrow> [] | Some as \<Rightarrow> as)"

definition project_roots :: "persist_env \<Rightarrow> run_state \<Rightarrow> root_authorization_ref option \<times> roots_document option" where
  "project_roots env run =
     (if rs_filesystem_root_authorizations_ref run = None \<and>
         or_zero (rs_filesystem_root_authorizations_omitted run) = 0 \<and>
         MAX_PROJECTED_ROOT_AUTHORIZATIONS < length (authorizations_of run)
      then let doc = \<lparr>rd_run_id = rs_run_id run, rd_owner_session_id = rs_owner_session_id run,
                      rd_authorizations = authorizations_of run\<rparr>
           in (Some (root_authorization_reference env (rs_run_id run) doc), Some doc)
      else (rs_filesystem_root_authorizations_ref run, None))"

text \<open>The closing loop of \<open>projectRunState\<close> over the projected nodes.\<close>

definition count_attempt :: "state_projection \<Rightarrow> node_attempt \<Rightarrow> state_projection" where
  "count_attempt p a = p\<lparr>
     sp_outputs_externalized := sp_outputs_externalized p + opt_count (na_output_ref a),
     sp_failure_entries_omitted := sp_failure_entries_omitted p + or_zero (na_failures_omitted a),
     sp_failure_texts_truncated := sp_failure_texts_truncated p + or_zero (na_failure_texts_truncated a),
     sp_error_bytes_omitted := sp_error_bytes_omitted p + or_zero (na_error_bytes_omitted a)\<rparr>"

definition count_history :: "attempt_history_ref option \<Rightarrow> state_projection \<Rightarrow> state_projection" where
  "count_history h p =
     (case h of
        None \<Rightarrow> p
      | Some r \<Rightarrow> p\<lparr>
          sp_outputs_externalized := sp_outputs_externalized p + ah_output_count r,
          sp_attempts_archived := sp_attempts_archived p + ah_attempt_count r,
          sp_failure_entries_omitted := sp_failure_entries_omitted p + ah_failure_entries_omitted r,
          sp_failure_texts_truncated := sp_failure_texts_truncated p + ah_failure_texts_truncated r,
          sp_error_bytes_omitted := sp_error_bytes_omitted p + ah_error_bytes_omitted r\<rparr>)"

definition count_node :: "state_projection \<Rightarrow> node_state \<Rightarrow> state_projection" where
  "count_node p st =
     (let p1 = count_history (ns_attempt_history_ref st)
            (p\<lparr>sp_outputs_externalized := sp_outputs_externalized p + opt_count (ns_output_ref st)\<rparr>);
          p2 = p1\<lparr>
            sp_failure_entries_omitted := sp_failure_entries_omitted p1 + or_zero (ns_last_failures_omitted st),
            sp_failure_texts_truncated :=
              sp_failure_texts_truncated p1 + or_zero (ns_last_failure_texts_truncated st)\<rparr>
      in foldl count_attempt p2 (ns_attempts st))"

definition projection_counts :: "node_state list \<Rightarrow> nat \<Rightarrow> state_projection" where
  "projection_counts sts roots_omitted =
     foldl count_node \<lparr>sp_outputs_externalized = 0, sp_attempts_archived = 0, sp_failure_entries_omitted = 0,
       sp_failure_texts_truncated = 0, sp_error_bytes_omitted = 0,
       sp_root_authorizations_omitted = roots_omitted\<rparr> sts"

record projected_run =
  pr_state :: run_state
  pr_histories :: "(jstr \<times> history_document) list"
  pr_roots :: "roots_document option"

definition project_run_state :: "persist_env \<Rightarrow> run_state \<Rightarrow> store_error + projected_run" where
  "project_run_state env run =
     sbind (smap (project_entry env run) (gd_nodes (rs_graph run))) (\<lambda>entries.
       let nodes = map fst entries;
           histories = concat (map (\<lambda>(e, h). case h of None \<Rightarrow> [] | Some doc \<Rightarrow> [(fst e, doc)]) entries);
           visible = take_last MAX_PROJECTED_ROOT_AUTHORIZATIONS (authorizations_of run);
           (roots_ref, roots) = project_roots env run;
           omitted = (case roots_ref of
             Some r \<Rightarrow> ra_authorization_count r - length visible
           | None \<Rightarrow> or_zero (rs_filesystem_root_authorizations_omitted run) +
               (length (authorizations_of run) - length visible));
           state = run\<lparr>rs_nodes := nodes,
             rs_filesystem_root_authorizations :=
               (if rs_filesystem_root_authorizations run = None then None else Some visible),
             rs_filesystem_root_authorizations_ref := roots_ref,
             rs_filesystem_root_authorizations_omitted :=
               (if omitted = 0 then rs_filesystem_root_authorizations_omitted run else Some omitted),
             rs_state_projection := Some (projection_counts (map snd nodes) omitted)\<rparr>
       in Inr \<lparr>pr_state = state, pr_histories = histories, pr_roots = roots\<rparr>)"

end
