(* ===== verification/Hydration.thy ===== *)
theory Hydration
  imports Persistence
begin

text \<open>
  Reading and writing a run in \<open>src/store.ts\<close>: the verification of referenced documents, the
  hydration of attempts, nodes and runs, the materialisation before a save, the publication of
  immutable documents and the save itself with its comparison of revisions. A document is kept as
  the value its file holds, under the path of its reference; its digest and size are those of its
  canonical and its plain JSON text. The canonical resolution of paths, the size of a serialised
  state and the containment of path metadata are answers of the environment.
\<close>

section \<open>Documents behind references\<close>

type_synonym objects = "jstr \<rightharpoonup> document"

record store_env = persist_env +
  se_resolves :: "jstr \<Rightarrow> bool"
  se_state_bytes :: "run_state \<Rightarrow> nat"
  se_metadata_contained :: "run_state \<Rightarrow> bool"

abbreviation base_env :: "store_env \<Rightarrow> persist_env" where
  "base_env env \<equiv> persist_env.truncate env"

definition local_reference :: "store_env \<Rightarrow> jstr \<Rightarrow> data_ref \<Rightarrow> bool" where
  "local_reference env run_id r \<longleftrightarrow>
     take 3 (split_slash (dr_artifact_path r)) = [js ''.opencode'', js ''runs'', run_id] \<and>
     se_resolves env (dr_artifact_path r)"

definition read_and_verify :: "store_env \<Rightarrow> objects \<Rightarrow> jstr \<Rightarrow> data_ref \<Rightarrow> store_error + document" where
  "read_and_verify env objs run_id r =
     guard (local_reference env run_id r) (Foreign_reference r)
       (case objs (dr_artifact_path r) of
          None \<Rightarrow> Inl (Missing_reference r)
        | Some doc \<Rightarrow>
            guard (document_size (base_env env) doc = dr_byte_size r \<and> digest (base_env env) doc = dr_sha256 r)
              (Integrity_mismatch r) (Inr doc))"

definition base_ref :: "'a data_ref_scheme \<Rightarrow> data_ref" where
  "base_ref r = \<lparr>dr_artifact_path = dr_artifact_path r, dr_sha256 = dr_sha256 r, dr_byte_size = dr_byte_size r\<rparr>"

fun parse_referenced_output :: "alg_agent \<Rightarrow> document \<Rightarrow> store_error + agent_output" where
  "parse_referenced_output agent (Output_document out) = guard (agent_output_valid agent out) Output_invalid (Inr out)"
| "parse_referenced_output agent _ = Inl Output_invalid"

definition matches_reference :: "store_env \<Rightarrow> agent_output \<Rightarrow> data_ref \<Rightarrow> bool" where
  "matches_reference env out r \<longleftrightarrow>
     document_size (base_env env) (Output_document out) = dr_byte_size r \<and>
     digest (base_env env) (Output_document out) = dr_sha256 r"

definition commitment_holds :: "store_env \<Rightarrow> jstr list \<Rightarrow> failure_commitment option \<Rightarrow> bool" where
  "commitment_holds env failures c \<longleftrightarrow> opt_all (\<lambda>c. c = failure_list_commitment (pe_sha env) failures) c"

definition parsed :: "store_error \<Rightarrow> 'e + 'a \<Rightarrow> store_error + 'a" where
  "parsed e r = (case r of Inl x \<Rightarrow> Inl e | Inr y \<Rightarrow> Inr y)"

section \<open>Attempts\<close>

definition definition_of :: "graph_def \<Rightarrow> jstr \<Rightarrow> node_def option" where
  "definition_of g i = find (\<lambda>n. nd_id n = i) (gd_nodes g)"

text \<open>\<open>ATTEMPT_DETAIL_IDENTITY_FIELDS\<close>\<close>

definition same_identity :: "node_attempt \<Rightarrow> node_attempt \<Rightarrow> bool" where
  "same_identity a b \<longleftrightarrow>
     na_attempt a = na_attempt b \<and> na_status a = na_status b \<and> na_session_id a = na_session_id b \<and>
     na_started_at a = na_started_at b \<and> na_finished_at a = na_finished_at b \<and> na_score a = na_score b \<and>
     na_shell_ok a = na_shell_ok b \<and> na_schema_ok a = na_schema_ok b \<and>
     na_feedback_applied a = na_feedback_applied b \<and> na_outcome a = na_outcome b"

definition complete_diagnostics :: "node_attempt \<Rightarrow> node_attempt \<Rightarrow> bool" where
  "complete_diagnostics p d \<longleftrightarrow>
     na_failures p = na_failures d \<and> na_failures_omitted p = None \<and> na_failure_texts_truncated p = None \<and>
     na_error p = na_error d \<and> na_error_bytes_omitted p = None"

definition projected_diagnostics :: "store_env \<Rightarrow> node_attempt \<Rightarrow> node_attempt \<Rightarrow> bool" where
  "projected_diagnostics env p d \<longleftrightarrow>
     (let failures = project_failures (base_env env) (na_failures d) None None
            MAX_PROJECTED_ATTEMPT_FAILURES MAX_PROJECTED_FAILURE_BYTES;
          (error, omitted) = project_error (base_env env) (na_error d) None
      in na_failures p = pf_values failures \<and> or_zero (na_failures_omitted p) = pf_omitted failures \<and>
         or_zero (na_failure_texts_truncated p) = pf_truncated failures \<and>
         na_error p = error \<and> or_zero (na_error_bytes_omitted p) = omitted)"

definition read_detail ::
  "store_env \<Rightarrow> objects \<Rightarrow> run_state \<Rightarrow> jstr \<Rightarrow> node_attempt \<Rightarrow> data_ref \<Rightarrow> store_error + node_attempt" where
  "read_detail env objs run i p r =
     sbind (read_and_verify env objs (rs_run_id run) r) (\<lambda>doc.
       case (doc, definition_of (rs_graph run) i) of
         (Detail_document d, Some nd) \<Rightarrow>
           sbind (parsed (Detail_invalid r) (parse_persisted_attempt_detail (pe_sha env)
               (attempt_context_of run nd i (na_attempt p)) d)) (\<lambda>detail.
             guard (same_identity p detail) (Detail_mismatch r)
               (guard (na_output p = None \<or> na_output p = na_output detail) (Detail_mismatch r)
                 (guard (complete_diagnostics p detail \<or> projected_diagnostics env p detail) (Detail_mismatch r)
                   (guard (commitment_holds env (na_failures detail) (na_failures_commitment p)) Commitment_mismatch
                     (Inr detail)))))
       | _ \<Rightarrow> Inl (Detail_invalid r))"

definition complete_attempt_data ::
  "store_env \<Rightarrow> objects \<Rightarrow> run_state \<Rightarrow> jstr \<Rightarrow> node_attempt \<Rightarrow> store_error + node_attempt" where
  "complete_attempt_data env objs run i p =
     (case na_detail_ref p of
        Some r \<Rightarrow> read_detail env objs run i p r
      | None \<Rightarrow>
          guard (or_zero (na_failures_omitted p) = 0 \<and> or_zero (na_failure_texts_truncated p) = 0 \<and>
                 or_zero (na_error_bytes_omitted p) = 0) (Detail_missing (na_attempt p))
            (guard (commitment_holds env (na_failures p) (na_failures_commitment p)) Commitment_mismatch (Inr p)))"

definition hydrate_output ::
  "store_env \<Rightarrow> objects \<Rightarrow> jstr \<Rightarrow> alg_agent \<Rightarrow> data_ref option \<Rightarrow> agent_output option \<Rightarrow>
   store_error + agent_output option" where
  "hydrate_output env objs run_id agent ref out =
     (case ref of
        None \<Rightarrow> Inr out
      | Some r \<Rightarrow>
          sbind (read_and_verify env objs run_id r) (\<lambda>doc.
            sbind (parse_referenced_output agent doc) (\<lambda>parsed_out.
              guard (opt_all (\<lambda>o'. matches_reference env o' r) out) (Integrity_mismatch r)
                (Inr (Some parsed_out)))))"

definition hydrate_attempt_data ::
  "store_env \<Rightarrow> objects \<Rightarrow> run_state \<Rightarrow> jstr \<Rightarrow> alg_agent \<Rightarrow> bool \<Rightarrow> node_attempt \<Rightarrow> store_error + node_attempt" where
  "hydrate_attempt_data env objs run i agent retain p =
     sbind (complete_attempt_data env objs run i p) (\<lambda>complete.
       guard (na_output_ref p \<noteq> None \<or> opt_all (agent_output_valid agent) (na_output complete)) Output_invalid
         (sbind (hydrate_output env objs (rs_run_id run) agent (na_output_ref p) (na_output complete)) (\<lambda>out.
           Inr (complete\<lparr>na_output := out, na_failures_omitted := None, na_failure_texts_truncated := None,
             na_error_bytes_omitted := None,
             na_output_ref := (if retain then na_output_ref p else None),
             na_detail_ref := (if retain then na_detail_ref p else None),
             na_failures_commitment := None\<rparr>))))"

section \<open>Nodes\<close>

definition node_failures_match :: "store_env \<Rightarrow> node_state \<Rightarrow> jstr list \<Rightarrow> bool" where
  "node_failures_match env st failures \<longleftrightarrow>
     (let expected = project_failures (base_env env) failures None None
            MAX_PROJECTED_NODE_FAILURES MAX_PROJECTED_NODE_FAILURE_BYTES
      in ns_last_failures st = failures \<and> ns_last_failures_omitted st = None \<and>
           ns_last_failure_texts_truncated st = None \<or>
         ns_last_failures st = pf_values expected \<and> or_zero (ns_last_failures_omitted st) = pf_omitted expected \<and>
           or_zero (ns_last_failure_texts_truncated st) = pf_truncated expected)"

definition hydrate_node_failures :: "store_env \<Rightarrow> objects \<Rightarrow> jstr \<Rightarrow> node_state \<Rightarrow> store_error + node_state" where
  "hydrate_node_failures env objs run_id st =
     (case ns_last_failures_ref st of
        None \<Rightarrow> Inr st
      | Some r \<Rightarrow>
          sbind (read_and_verify env objs run_id r) (\<lambda>doc.
            case doc of
              Failures_document failures \<Rightarrow>
                guard (bounded_strings failures) (Failures_mismatch r)
                  (guard (node_failures_match env st failures) (Failures_mismatch r)
                    (guard (commitment_holds env failures (ns_last_failures_commitment st)) Commitment_mismatch
                      (Inr (st\<lparr>ns_last_failures := failures, ns_last_failures_omitted := None,
                         ns_last_failure_texts_truncated := None, ns_last_failures_commitment := None\<rparr>))))
            | _ \<Rightarrow> Inl (Failures_mismatch r)))"

text \<open>\<open>for (const definition of candidate.graph.nodes)\<close> over the mutable node table.\<close>

definition update_entry ::
  "(node_def \<Rightarrow> run_state \<Rightarrow> node_state \<Rightarrow> store_error + node_state) \<Rightarrow> node_def \<Rightarrow> run_state \<Rightarrow> store_error + run_state" where
  "update_entry f d run =
     (case node_of run (nd_id d) of
        None \<Rightarrow> Inl (Node_missing (nd_id d))
      | Some st \<Rightarrow> sbind (f d run st) (\<lambda>st'. Inr (set_node (nd_id d) st' run)))"

definition update_nodes ::
  "(node_def \<Rightarrow> run_state \<Rightarrow> node_state \<Rightarrow> store_error + node_state) \<Rightarrow> run_state \<Rightarrow> store_error + run_state" where
  "update_nodes f run = sfold (update_entry f) (gd_nodes (rs_graph run)) run"

definition hydrate_visible_node ::
  "store_env \<Rightarrow> objects \<Rightarrow> node_def \<Rightarrow> run_state \<Rightarrow> node_state \<Rightarrow> store_error + node_state" where
  "hydrate_visible_node env objs d run st =
     sbind (smap (hydrate_attempt_data env objs run (nd_id d) (ns_agent st) True) (ns_attempts st)) (\<lambda>as.
       sbind (hydrate_output env objs (rs_run_id run) (ns_agent st) (ns_output_ref st) (ns_output st)) (\<lambda>out.
         sbind (hydrate_node_failures env objs (rs_run_id run) (st\<lparr>ns_attempts := as, ns_output := out\<rparr>)) (\<lambda>st'.
           Inr (st'\<lparr>ns_last_failures_commitment := None\<rparr>))))"

definition parse_runtime :: "store_env \<Rightarrow> run_state \<Rightarrow> store_error + run_state" where
  "parse_runtime env run =
     (case parse_run_state_for_projection (pe_sha env) run of Inl is \<Rightarrow> Inl (Run_invalid is) | Inr r \<Rightarrow> Inr r)"

section \<open>Root authorizations\<close>

definition roots_document_valid :: "run_state \<Rightarrow> jstr \<Rightarrow> root_authorization_ref \<Rightarrow> roots_document \<Rightarrow> bool" where
  "roots_document_valid run owner r doc \<longleftrightarrow>
     length (rd_authorizations doc) \<le> 10000 \<and> list_all root_authorization_shape (rd_authorizations doc) \<and>
     rd_run_id doc = rs_run_id run \<and> rd_owner_session_id doc = owner \<and>
     list_all (\<lambda>a. opt_all (\<lambda>p. p = rs_project_directory run) (rauth_path a)) (rd_authorizations doc) \<and>
     length (rd_authorizations doc) = ra_authorization_count r \<and>
     root_authorization_counts (rd_authorizations doc) = ra_operation_counts r"

definition read_roots_document ::
  "store_env \<Rightarrow> objects \<Rightarrow> run_state \<Rightarrow> jstr \<Rightarrow> store_error + roots_document option" where
  "read_roots_document env objs run owner =
     (case rs_filesystem_root_authorizations_ref run of
        None \<Rightarrow> Inr None
      | Some r \<Rightarrow>
          sbind (read_and_verify env objs (rs_run_id run) (base_ref r)) (\<lambda>doc.
            case doc of
              Roots_document d \<Rightarrow>
                guard (roots_document_valid run owner r d) (Roots_invalid (base_ref r)) (Inr (Some d))
            | _ \<Rightarrow> Inl (Roots_invalid (base_ref r))))"

definition retains_roots :: "run_state \<Rightarrow> roots_document option \<Rightarrow> bool" where
  "retains_roots run doc \<longleftrightarrow>
     opt_all (\<lambda>d. let retained = take_last MAX_PROJECTED_ROOT_AUTHORIZATIONS (rd_authorizations d)
        in authorizations_of run = retained \<and>
           or_zero (rs_filesystem_root_authorizations_omitted run) =
             length (rd_authorizations d) - length retained) doc"

definition hydrate_visible_run_data :: "store_env \<Rightarrow> objects \<Rightarrow> run_state \<Rightarrow> store_error + run_state" where
  "hydrate_visible_run_data env objs projected =
     sbind (update_nodes (hydrate_visible_node env objs) (projected\<lparr>rs_state_projection := None\<rparr>)) (\<lambda>run.
       sbind (read_roots_document env objs run (rs_owner_session_id run)) (\<lambda>roots.
         guard (retains_roots run roots) Roots_mismatch (parse_runtime env run)))"

section \<open>Histories\<close>

definition history_document_owner :: "history_document \<Rightarrow> jstr \<Rightarrow> bool option" where
  "history_document_owner doc owner =
     (if hd_schema_version doc = 1 \<and> hd_kind doc = None \<and> hd_owner_session_id doc = None then Some False
      else if hd_schema_version doc = 2 \<and> hd_kind doc = Some (js ''attempt_history'') \<and>
              hd_owner_session_id doc = Some owner then Some True
      else None)"

definition possible_projection :: "node_attempt \<Rightarrow> bool" where
  "possible_projection a \<longleftrightarrow>
     na_output a = None \<and> na_detail_ref a \<noteq> None \<and>
     length (na_failures a) \<le> MAX_PROJECTED_ATTEMPT_FAILURES \<and>
     list_all (\<lambda>f. utf8_bytes f \<le> MAX_PROJECTED_FAILURE_BYTES) (na_failures a) \<and>
     opt_all (\<lambda>e. utf8_bytes e \<le> MAX_PROJECTED_ERROR_BYTES) (na_error a)"

definition history_counts_match :: "attempt_history_ref \<Rightarrow> node_attempt list \<Rightarrow> bool" where
  "history_counts_match r as \<longleftrightarrow>
     (let count = (\<lambda>P. length (filter P as)); total = (\<lambda>f. sum_list (map (\<lambda>a. or_zero (f a)) as)) in
      length as = ah_attempt_count r \<and> count (\<lambda>a. na_output_ref a \<noteq> None) = ah_output_count r \<and>
      opt_all (\<lambda>n. count (\<lambda>a. na_session_id a \<noteq> None) = n) (ah_session_count r) \<and>
      total na_failures_omitted = ah_failure_entries_omitted r \<and>
      total na_failure_texts_truncated = ah_failure_texts_truncated r \<and>
      total na_error_bytes_omitted = ah_error_bytes_omitted r \<and>
      opt_all (\<lambda>n. count (\<lambda>a. na_failures_commitment a \<noteq> None) = n) (ah_failure_commitment_count r) \<and>
      opt_all (\<lambda>c. attempt_outcome_counts as = c) (ah_outcome_counts r) \<and>
      opt_all (\<lambda>n. count (\<lambda>a. na_feedback_applied a = Some True) = n) (ah_feedback_applied_count r))"

definition read_attempt_history ::
  "store_env \<Rightarrow> objects \<Rightarrow> run_state \<Rightarrow> jstr \<Rightarrow> node_state \<Rightarrow> jstr \<Rightarrow> store_error + node_attempt list" where
  "read_attempt_history env objs run i st owner =
     (case ns_attempt_history_ref st of
        None \<Rightarrow> Inr []
      | Some r \<Rightarrow>
          sbind (read_and_verify env objs (rs_run_id run) (base_ref r)) (\<lambda>doc.
            case (doc, definition_of (rs_graph run) i) of
              (History_document h, Some nd) \<Rightarrow>
                guard (history_document_owner h owner \<noteq> None \<and> hd_run_id h = rs_run_id run \<and> hd_node_id h = i)
                  (History_invalid (base_ref r))
                  (sbind (smap (\<lambda>(n, a). parsed (History_invalid (base_ref r))
                      (parse_persisted_node_attempt (pe_sha env) (attempt_context_of run nd i (Suc n)) a))
                      (enumerate 0 (hd_attempts h))) (\<lambda>as.
                    guard (history_document_owner h owner = Some True \<longrightarrow> list_all possible_projection as)
                      (History_invalid (base_ref r))
                      (guard (history_counts_match r as) (History_invalid (base_ref r)) (Inr as))))
            | _ \<Rightarrow> Inl (History_invalid (base_ref r))))"

definition hydrate_full_node ::
  "store_env \<Rightarrow> objects \<Rightarrow> node_def \<Rightarrow> run_state \<Rightarrow> node_state \<Rightarrow> store_error + node_state" where
  "hydrate_full_node env objs d run st =
     sbind (read_attempt_history env objs run (nd_id d) st (rs_owner_session_id run)) (\<lambda>archived.
       sbind (smap (hydrate_attempt_data env objs run (nd_id d) (ns_agent st) True) (archived @ ns_attempts st)) (\<lambda>as.
         Inr (st\<lparr>ns_attempts := as, ns_attempt_history_ref := None\<rparr>)))"

definition restore_roots :: "roots_document option \<Rightarrow> run_state \<Rightarrow> run_state" where
  "restore_roots doc run =
     (case doc of
        None \<Rightarrow> run
      | Some d \<Rightarrow> run\<lparr>rs_filesystem_root_authorizations := Some (rd_authorizations d),
          rs_filesystem_root_authorizations_ref := None, rs_filesystem_root_authorizations_omitted := None\<rparr>)"

definition hydrate_run_fully :: "store_env \<Rightarrow> objects \<Rightarrow> run_state \<Rightarrow> store_error + run_state" where
  "hydrate_run_fully env objs state =
     sbind (hydrate_visible_run_data env objs state) (\<lambda>visible.
       sbind (update_nodes (hydrate_full_node env objs) visible) (\<lambda>run.
         sbind (read_roots_document env objs run (rs_owner_session_id run)) (\<lambda>roots.
           parse_runtime env ((restore_roots roots run)\<lparr>rs_state_projection := None\<rparr>))))"

definition drop_attempt_references :: "node_attempt \<Rightarrow> node_attempt" where
  "drop_attempt_references a = a\<lparr>na_output_ref := None, na_detail_ref := None\<rparr>"

definition drop_references :: "node_state \<Rightarrow> node_state" where
  "drop_references st = st\<lparr>ns_output_ref := None, ns_last_failures_ref := None,
     ns_attempts := map drop_attempt_references (ns_attempts st)\<rparr>"

definition hydrate_run_for_execution :: "store_env \<Rightarrow> objects \<Rightarrow> run_state \<Rightarrow> store_error + run_state" where
  "hydrate_run_for_execution env objs state =
     sbind (hydrate_run_fully env objs state) (\<lambda>full.
       sbind (update_nodes (\<lambda>d run st. Inr (drop_references st)) full) (\<lambda>run.
         parse_runtime env (run\<lparr>rs_state_projection := None\<rparr>)))"

text \<open>\<open>verifyArchivedAttemptData\<close> and \<open>readAuthoritativeRun\<close>.\<close>

definition with_archive ::
  "store_env \<Rightarrow> objects \<Rightarrow> run_state \<Rightarrow> node_def \<Rightarrow> run_state \<Rightarrow> node_state \<Rightarrow> store_error + node_state" where
  "with_archive env objs projected d run st =
     (case node_of projected (nd_id d) of
        None \<Rightarrow> Inl (Node_missing (nd_id d))
      | Some p \<Rightarrow>
          if ns_attempt_history_ref p = None then Inr st
          else
            sbind (read_attempt_history env objs projected (nd_id d) p (rs_owner_session_id projected)) (\<lambda>history.
              sbind (smap (hydrate_attempt_data env objs projected (nd_id d) (ns_agent p) True) history) (\<lambda>archived.
                Inr (st\<lparr>ns_attempts := archived @ ns_attempts st, ns_attempt_history_ref := None\<rparr>))))"

definition verify_archived :: "store_env \<Rightarrow> objects \<Rightarrow> run_state \<Rightarrow> run_state \<Rightarrow> store_error + run_state" where
  "verify_archived env objs projected visible =
     sbind (update_nodes (with_archive env objs projected) visible) (\<lambda>candidate.
       parse_runtime env (candidate\<lparr>rs_state_projection := None\<rparr>))"

section \<open>Materialisation before a save\<close>

definition rehydrate_incomplete ::
  "store_env \<Rightarrow> objects \<Rightarrow> run_state \<Rightarrow> jstr \<Rightarrow> alg_agent \<Rightarrow> node_attempt \<Rightarrow> store_error + node_attempt" where
  "rehydrate_incomplete env objs run i agent a =
     (if \<not> attempt_has_complete_detail a \<or> (na_output_ref a \<noteq> None \<and> na_output a = None)
      then hydrate_attempt_data env objs run i agent False a else Inr a)"

definition materialize_output ::
  "store_env \<Rightarrow> objects \<Rightarrow> jstr \<Rightarrow> node_state \<Rightarrow> store_error + node_state" where
  "materialize_output env objs run_id st =
     (case (ns_output_ref st, ns_output st) of
        (Some r, None) \<Rightarrow>
          sbind (read_and_verify env objs run_id r) (\<lambda>doc.
            sbind (parse_referenced_output (ns_agent st) doc) (\<lambda>out.
              Inr (st\<lparr>ns_output := Some out, ns_output_ref := None\<rparr>)))
      | _ \<Rightarrow> Inr st)"

definition materialize_failures :: "store_env \<Rightarrow> objects \<Rightarrow> jstr \<Rightarrow> node_state \<Rightarrow> store_error + node_state" where
  "materialize_failures env objs run_id st =
     (if ns_last_failures_ref st \<noteq> None \<and>
         (ns_last_failures_omitted st \<noteq> None \<or> ns_last_failure_texts_truncated st \<noteq> None)
      then sbind (hydrate_node_failures env objs run_id st) (\<lambda>st'. Inr (st'\<lparr>ns_last_failures_ref := None\<rparr>))
      else Inr st)"

definition prepare_node ::
  "store_env \<Rightarrow> objects \<Rightarrow> jstr \<Rightarrow> node_def \<Rightarrow> run_state \<Rightarrow> node_state \<Rightarrow> store_error + node_state" where
  "prepare_node env objs owner d run st =
     sbind (read_attempt_history env objs run (nd_id d) st owner) (\<lambda>history.
       sbind (smap (hydrate_attempt_data env objs run (nd_id d) (ns_agent st) False) history) (\<lambda>archived.
         sbind (smap (rehydrate_incomplete env objs run (nd_id d) (ns_agent st)) (archived @ ns_attempts st)) (\<lambda>as.
           sbind (materialize_output env objs (rs_run_id run)
               (st\<lparr>ns_attempts := as, ns_attempt_history_ref := None\<rparr>)) (\<lambda>st1.
             sbind (materialize_failures env objs (rs_run_id run) st1) (\<lambda>st2.
               guard (list_all (\<lambda>a. opt_all (agent_output_valid (ns_agent st2)) (na_output a)) (ns_attempts st2) \<and>
                      opt_all (agent_output_valid (ns_agent st2)) (ns_output st2)) Output_invalid (Inr st2))))))"

definition roots_extend :: "run_state \<Rightarrow> root_authorization_ref \<Rightarrow> roots_document \<Rightarrow> bool" where
  "roots_extend run r d \<longleftrightarrow>
     (let old_tail = take_last MAX_PROJECTED_ROOT_AUTHORIZATIONS (rd_authorizations d) in
      length old_tail \<le> length (authorizations_of run) \<and>
      take (length old_tail) (authorizations_of run) = old_tail \<and>
      or_zero (rs_filesystem_root_authorizations_omitted run) = ra_authorization_count r - length old_tail)"

definition prepare_roots :: "store_env \<Rightarrow> objects \<Rightarrow> jstr \<Rightarrow> run_state \<Rightarrow> store_error + run_state" where
  "prepare_roots env objs owner run =
     (case rs_filesystem_root_authorizations_ref run of
        None \<Rightarrow> Inr run
      | Some r \<Rightarrow>
          sbind (read_roots_document env objs run owner) (\<lambda>doc.
            case doc of
              None \<Rightarrow> Inl (Roots_invalid (base_ref r))
            | Some d \<Rightarrow>
                guard (roots_extend run r d) (Roots_invalid (base_ref r))
                  (Inr (run\<lparr>
                    rs_filesystem_root_authorizations := Some (rd_authorizations d @
                      drop (length (take_last MAX_PROJECTED_ROOT_AUTHORIZATIONS (rd_authorizations d)))
                        (authorizations_of run)),
                    rs_filesystem_root_authorizations_ref := None,
                    rs_filesystem_root_authorizations_omitted := None\<rparr>))))"

definition prepare_run_for_immutable_commit ::
  "store_env \<Rightarrow> objects \<Rightarrow> jstr \<Rightarrow> run_state \<Rightarrow> store_error + run_state" where
  "prepare_run_for_immutable_commit env objs owner run =
     sbind (update_nodes (prepare_node env objs owner) run) (\<lambda>run1.
       sbind (prepare_roots env objs owner run1) (\<lambda>run2.
         parse_runtime env (run2\<lparr>rs_state_projection := None\<rparr>)))"

section \<open>Publication\<close>

type_synonym derived_entry = "data_ref \<times> document option"

definition output_entry :: "data_ref option \<Rightarrow> agent_output option \<Rightarrow> derived_entry list" where
  "output_entry ref out = (case ref of None \<Rightarrow> [] | Some r \<Rightarrow> [(r, map_option Output_document out)])"

definition projected_attempts :: "projected_run \<Rightarrow> jstr \<Rightarrow> node_state \<Rightarrow> node_attempt list" where
  "projected_attempts p i st =
     (case map_of (pr_histories p) i of None \<Rightarrow> [] | Some h \<Rightarrow> hd_attempts h) @ ns_attempts st"

definition full_attempt :: "node_state \<Rightarrow> node_attempt \<Rightarrow> node_attempt option" where
  "full_attempt st a = find (\<lambda>b. na_attempt b = na_attempt a) (rev (ns_attempts st))"

definition artifact_entries :: "projected_run \<Rightarrow> jstr \<times> node_state \<Rightarrow> derived_entry list" where
  "artifact_entries p e =
     (case node_of (pr_state p) (fst e) of
        None \<Rightarrow> []
      | Some st \<Rightarrow>
          output_entry (ns_output_ref st) (ns_output (snd e)) @
          concat (map (\<lambda>a. output_entry (na_output_ref a) (Option.bind (full_attempt (snd e) a) na_output))
            (projected_attempts p (fst e) st)))"

definition detail_entry :: "node_state \<Rightarrow> node_attempt \<Rightarrow> derived_entry list" where
  "detail_entry st a =
     (case na_detail_ref a of
        None \<Rightarrow> []
      | Some r \<Rightarrow> [(r,
          case full_attempt st a of
            None \<Rightarrow> None
          | Some full \<Rightarrow>
              if attempt_has_complete_detail full then Some (Detail_document (attempt_detail_document full))
              else None)])"

definition history_entries :: "projected_run \<Rightarrow> jstr \<times> node_state \<Rightarrow> derived_entry list" where
  "history_entries p e =
     (case node_of (pr_state p) (fst e) of
        None \<Rightarrow> []
      | Some st \<Rightarrow>
          concat (map (detail_entry (snd e)) (projected_attempts p (fst e) st)) @
          (case ns_attempt_history_ref st of
             None \<Rightarrow> []
           | Some r \<Rightarrow> [(base_ref r, map_option History_document (map_of (pr_histories p) (fst e)))]) @
          (case ns_last_failures_ref st of
             None \<Rightarrow> []
           | Some r \<Rightarrow> [(r,
               if opt_all (\<lambda>old. dr_artifact_path old \<noteq> dr_artifact_path r) (ns_last_failures_ref (snd e))
               then Some (Failures_document (ns_last_failures (snd e))) else None)]))"

definition expected_derived :: "run_state \<Rightarrow> projected_run \<Rightarrow> derived_entry list" where
  "expected_derived runtime p =
     concat (map (artifact_entries p) (rs_nodes runtime)) @
     concat (map (history_entries p) (rs_nodes runtime)) @
     (case rs_filesystem_root_authorizations_ref (pr_state p) of
        None \<Rightarrow> []
      | Some r \<Rightarrow> [(base_ref r, map_option Roots_document (pr_roots p))])"

text \<open>
  \<open>writeReferencedEntries\<close>: a document is written once; an existing object is verified, never
  repaired.
\<close>

definition write_entry :: "store_env \<Rightarrow> jstr \<Rightarrow> derived_entry \<Rightarrow> objects \<Rightarrow> objects \<times> store_error option" where
  "write_entry env run_id e objs =
     (let r = fst e; verified = (\<lambda>objs. (objs, case read_and_verify env objs run_id r of
            Inl x \<Rightarrow> Some x | Inr doc \<Rightarrow> None)) in
      case snd e of
        None \<Rightarrow> verified objs
      | Some doc \<Rightarrow>
          if document_size (base_env env) doc \<noteq> dr_byte_size r \<or> digest (base_env env) doc \<noteq> dr_sha256 r
          then (objs, Some (Integrity_mismatch r))
          else if objs (dr_artifact_path r) \<noteq> None then verified objs
          else verified (objs(dr_artifact_path r \<mapsto> doc)))"

fun write_entries :: "store_env \<Rightarrow> jstr \<Rightarrow> derived_entry list \<Rightarrow> objects \<Rightarrow> objects \<times> store_error option" where
  "write_entries env run_id [] objs = (objs, None)"
| "write_entries env run_id (e # es) objs =
     (case write_entry env run_id e objs of
        (objs', Some x) \<Rightarrow> (objs', Some x)
      | (objs', None) \<Rightarrow> write_entries env run_id es objs')"

section \<open>The save and the load\<close>

record disk =
  dk_objects :: objects
  dk_progress :: "jstr \<rightharpoonup> run_state"

definition parse_run_state :: "store_env \<Rightarrow> run_state \<Rightarrow> store_error + run_state" where
  "parse_run_state env run =
     sbind (parse_runtime env run) (\<lambda>r.
       guard (se_state_bytes env r \<le> MAX_PERSISTED_STATE_BYTES) Run_too_large (Inr r))"

definition reuses_archive :: "projected_run \<Rightarrow> bool" where
  "reuses_archive p \<longleftrightarrow>
     list_ex (\<lambda>d. (case node_of (pr_state p) (nd_id d) of
         None \<Rightarrow> False | Some st \<Rightarrow> ns_attempt_history_ref st \<noteq> None) \<and> map_of (pr_histories p) (nd_id d) = None)
       (gd_nodes (rs_graph (pr_state p)))"

definition next_candidate :: "nat \<Rightarrow> run_state \<Rightarrow> run_state" where
  "next_candidate now run = run\<lparr>rs_revision := rs_revision run + 1, rs_updated_at := now, rs_state_projection := None\<rparr>"

text \<open>\<open>readProjectedAuthoritativeRun\<close>\<close>

definition read_projected :: "store_env \<Rightarrow> disk \<Rightarrow> jstr \<Rightarrow> store_error + run_state" where
  "read_projected env disk run_id =
     (case dk_progress disk run_id of
        None \<Rightarrow> Inl Missing_run
      | Some stored \<Rightarrow>
          sbind (parse_run_state env stored) (\<lambda>state.
            guard (rs_run_id state = run_id \<and> se_metadata_contained env state) Path_not_contained (Inr state)))"

text \<open>The part of a save before anything is written.\<close>

definition plan_save :: "store_env \<Rightarrow> nat \<Rightarrow> disk \<Rightarrow> run_state \<Rightarrow> store_error + run_state \<times> projected_run" where
  "plan_save env now disk run =
     sbind (parse_runtime env run) (\<lambda>valid.
       sbind (parse_runtime env (next_candidate now valid)) (\<lambda>runtime.
         guard (se_metadata_contained env runtime) Path_not_contained
           (sbind (read_projected env disk (rs_run_id run)) (\<lambda>current.
             guard (rs_revision current = rs_revision run) (Revision_conflict (rs_revision run) (rs_revision current))
               (sbind (prepare_run_for_immutable_commit env (dk_objects disk) (rs_owner_session_id current) runtime)
                 (\<lambda>prepared.
                   sbind (project_run_state (base_env env) prepared) (\<lambda>projection.
                     sbind (parse_run_state env (pr_state projection)) (\<lambda>validated.
                       guard (se_metadata_contained env validated) Path_not_contained
                         (Inr (prepared, projection))))))))))"

text \<open>
  The rest: documents first, then the forms the committed state hydrates to, then the manifest.
\<close>

definition verify_written :: "store_env \<Rightarrow> objects \<Rightarrow> projected_run \<Rightarrow> store_error + run_state" where
  "verify_written env objs p =
     sbind (if reuses_archive p then hydrate_run_fully env objs (pr_state p) else Inr (pr_state p)) (\<lambda>x.
       sbind (hydrate_visible_run_data env objs (pr_state p)) (\<lambda>visible.
         sbind (hydrate_run_fully env objs (pr_state p)) (\<lambda>full. Inr visible)))"

definition persist_run :: "store_env \<Rightarrow> nat \<Rightarrow> disk \<Rightarrow> run_state \<Rightarrow> disk \<times> (store_error + run_state)" where
  "persist_run env now disk run =
     (case plan_save env now disk run of
        Inl x \<Rightarrow> (disk, Inl x)
      | Inr (prepared, p) \<Rightarrow>
          (case write_entries env (rs_run_id prepared) (expected_derived prepared p) (dk_objects disk) of
             (objs, Some x) \<Rightarrow> (disk\<lparr>dk_objects := objs\<rparr>, Inl x)
           | (objs, None) \<Rightarrow>
               (case verify_written env objs p of
                  Inl x \<Rightarrow> (disk\<lparr>dk_objects := objs\<rparr>, Inl x)
                | Inr visible \<Rightarrow>
                    (disk\<lparr>dk_objects := objs,
                       dk_progress := (dk_progress disk)(rs_run_id (pr_state p) \<mapsto> pr_state p)\<rparr>, Inr visible))))"

text \<open>\<open>readAuthoritativeRun\<close>, and the form an execution starts from.\<close>

definition load_run :: "store_env \<Rightarrow> disk \<Rightarrow> jstr \<Rightarrow> store_error + run_state" where
  "load_run env disk run_id =
     sbind (read_projected env disk run_id) (\<lambda>state.
       sbind (hydrate_visible_run_data env (dk_objects disk) state) (\<lambda>visible.
         sbind (verify_archived env (dk_objects disk) state visible) (\<lambda>x. Inr visible)))"

definition load_run_for_execution :: "store_env \<Rightarrow> disk \<Rightarrow> jstr \<Rightarrow> store_error + run_state" where
  "load_run_for_execution env disk run_id =
     sbind (load_run env disk run_id) (hydrate_run_for_execution env (dk_objects disk))"

end
