(* ===== verification/Roundtrip.thy ===== *)
theory Roundtrip
  imports Hydration
begin

text \<open>
  What is read back from the store. Under the one assumption on the digest that no other object
  in the store shares the digest of a document of the run (\<open>faithful\<close>), hydration returns exactly
  the attempts, outputs, failure lists and histories that the projection replaced.
\<close>

section \<open>The loop over the node table\<close>

lemma same_but_nodes_selectors:
  assumes "same_but_nodes run run'"
  shows "rs_run_id run' = rs_run_id run" "rs_graph run' = rs_graph run" "rs_mode run' = rs_mode run"
    "rs_owner_session_id run' = rs_owner_session_id run"
    "rs_filesystem_root_authorizations run' = rs_filesystem_root_authorizations run"
    "rs_filesystem_root_authorizations_ref run' = rs_filesystem_root_authorizations_ref run"
    "rs_filesystem_root_authorizations_omitted run' = rs_filesystem_root_authorizations_omitted run"
    "rs_state_projection run' = rs_state_projection run" "rs_project_directory run' = rs_project_directory run"
    "rs_revision run' = rs_revision run"
  using assms by (auto simp: same_but_nodes_def)

definition node_local :: "run_state \<Rightarrow> (node_def \<Rightarrow> run_state \<Rightarrow> node_state \<Rightarrow> store_error + node_state) \<Rightarrow> bool" where
  "node_local run f \<longleftrightarrow> (\<forall>d r st. same_but_nodes run r \<longrightarrow> f d r st = f d run st)"

lemma sfold_entries:
  assumes "sfold (update_entry f) ds r = Inr r'" "node_local run f" "same_but_nodes run r" "distinct (map nd_id ds)"
  shows "same_but_nodes run r' \<and> map fst (rs_nodes r') = map fst (rs_nodes r) \<and>
    (\<forall>d \<in> set ds. \<exists>st st'. node_of r (nd_id d) = Some st \<and> f d run st = Inr st' \<and> node_of r' (nd_id d) = Some st') \<and>
    (\<forall>i. i \<notin> nd_id ` set ds \<longrightarrow> node_of r' i = node_of r i)"
  using assms(1,3,4)
proof (induction ds arbitrary: r)
  case (Cons d ds)
  obtain r1 where r1: "update_entry f d r = Inr r1" "sfold (update_entry f) ds r1 = Inr r'"
    using Cons.prems(1) by auto
  obtain st st' where "node_of r (nd_id d) = Some st" "f d r st = Inr st'" "r1 = set_node (nd_id d) st' r"
    using r1(1) by (auto simp: update_entry_def split: option.splits)
  then have st: "node_of r (nd_id d) = Some st" "f d r st = Inr st'"
    "sfold (update_entry f) ds (set_node (nd_id d) st' r) = Inr r'" using r1(2) by simp_all
  let ?r = "set_node (nd_id d) st' r"
  have r: "same_but_nodes run ?r" by (rule same_but_nodes_trans [OF Cons.prems(2) same_but_nodes_set_node])
  have local: "f d run st = Inr st'" using st(2) assms(2) Cons.prems(2) unfolding node_local_def by metis
  have keys: "map fst (rs_nodes ?r) = map fst (rs_nodes r)" using st(1) keys_set_node by simp
  have fresh: "nd_id d \<notin> nd_id ` set ds" using Cons.prems(3) by auto
  have ih: "same_but_nodes run r' \<and> map fst (rs_nodes r') = map fst (rs_nodes ?r) \<and>
    (\<forall>e \<in> set ds. \<exists>u u'. node_of ?r (nd_id e) = Some u \<and> f e run u = Inr u' \<and> node_of r' (nd_id e) = Some u') \<and>
    (\<forall>i. i \<notin> nd_id ` set ds \<longrightarrow> node_of r' i = node_of ?r i)"
    by (rule Cons.IH [OF st(3) r]) (use Cons.prems(3) in simp)
  have other: "node_of ?r (nd_id e) = node_of r (nd_id e)" if "e \<in> set ds" for e
  proof -
    have "nd_id e \<noteq> nd_id d" using that fresh by (metis image_eqI)
    then show ?thesis by simp
  qed
  have "\<exists>u u'. node_of r (nd_id e) = Some u \<and> f e run u = Inr u' \<and> node_of r' (nd_id e) = Some u'"
    if "e \<in> set (d # ds)" for e
  proof (cases "e = d")
    case True
    have "node_of r' (nd_id d) = Some st'" using ih fresh by simp
    then show ?thesis using st(1) local True by blast
  next
    case False
    then have e: "e \<in> set ds" using that by simp
    have "\<exists>u u'. node_of ?r (nd_id e) = Some u \<and> f e run u = Inr u' \<and> node_of r' (nd_id e) = Some u'"
      using ih e by blast
    then show ?thesis unfolding other [OF e] .
  qed
  moreover have "node_of r' i = node_of r i" if "i \<notin> nd_id ` set (d # ds)" for i using ih that by simp
  moreover have "same_but_nodes run r'" "map fst (rs_nodes r') = map fst (rs_nodes r)" using ih keys by simp_all
  ultimately show ?case by blast
qed simp

text \<open>What a successful pass over the table has done to each node.\<close>

lemma update_nodes_Inr:
  assumes "update_nodes f run = Inr run'" "node_local run f" "distinct (map nd_id (gd_nodes (rs_graph run)))"
  shows "same_but_nodes run run'" "map fst (rs_nodes run') = map fst (rs_nodes run)"
    "\<And>d. d \<in> set (gd_nodes (rs_graph run)) \<Longrightarrow>
       \<exists>st st'. node_of run (nd_id d) = Some st \<and> f d run st = Inr st' \<and> node_of run' (nd_id d) = Some st'"
  using sfold_entries [OF assms(1) [unfolded update_nodes_def] assms(2) same_but_nodes_refl assms(3)] by blast+

lemma sfold_entries_ok:
  assumes "node_local run f" "same_but_nodes run r" "distinct (map nd_id ds)"
    "\<And>d. d \<in> set ds \<Longrightarrow> \<exists>st st'. node_of r (nd_id d) = Some st \<and> f d run st = Inr st'"
  shows "\<exists>r'. sfold (update_entry f) ds r = Inr r'"
  using assms(2-)
proof (induction ds arbitrary: r)
  case (Cons d ds)
  obtain st st' where st: "node_of r (nd_id d) = Some st" "f d run st = Inr st'" using Cons.prems(3) by force
  let ?r = "set_node (nd_id d) st' r"
  have local: "f d r st = Inr st'" using st(2) assms(1) Cons.prems(1) unfolding node_local_def by metis
  have "\<exists>r'. sfold (update_entry f) ds ?r = Inr r'"
  proof (rule Cons.IH)
    show "same_but_nodes run ?r" by (rule same_but_nodes_trans [OF Cons.prems(1) same_but_nodes_set_node])
    show "distinct (map nd_id ds)" using Cons.prems(2) by simp
    show "\<exists>u u'. node_of ?r (nd_id e) = Some u \<and> f e run u = Inr u'" if e: "e \<in> set ds" for e
    proof -
      have "nd_id d \<notin> nd_id ` set ds" using Cons.prems(2) by simp
      then have "nd_id e \<noteq> nd_id d" using e by (metis image_eqI)
      then show ?thesis using Cons.prems(3) [of e] e by simp
    qed
  qed
  moreover have "update_entry f d r = Inr ?r" using st(1) local by (simp add: update_entry_def)
  ultimately show ?case by simp
qed simp

lemma update_nodes_ok:
  assumes "node_local run f" "distinct (map nd_id (gd_nodes (rs_graph run)))"
    "\<And>d. d \<in> set (gd_nodes (rs_graph run)) \<Longrightarrow> \<exists>st st'. node_of run (nd_id d) = Some st \<and> f d run st = Inr st'"
  shows "\<exists>run'. update_nodes f run = Inr run'"
  unfolding update_nodes_def by (rule sfold_entries_ok [OF assms(1) same_but_nodes_refl assms(2,3)])

lemma alist_eqI:
  assumes "map fst xs = map fst ys" "distinct (map fst xs)" "\<And>k. k \<in> set (map fst xs) \<Longrightarrow> map_of xs k = map_of ys k"
  shows "xs = ys"
proof (rule nth_equalityI)
  show len: "length xs = length ys" using assms(1) map_eq_imp_length_eq by blast
  fix n assume n: "n < length xs"
  then have k: "fst (xs ! n) = fst (ys ! n)" using assms(1) len by (metis nth_map)
  have "map_of xs (fst (xs ! n)) = Some (snd (xs ! n))"
    using assms(2) n by (metis map_of_is_SomeI nth_mem prod.collapse)
  moreover have "map_of ys (fst (ys ! n)) = Some (snd (ys ! n))"
    using assms(1,2) n len by (metis map_of_is_SomeI nth_mem prod.collapse)
  ultimately have "snd (xs ! n) = snd (ys ! n)" using assms(3) n k by (metis nth_map nth_mem length_map option.inject)
  then show "xs ! n = ys ! n" using k by (metis prod.collapse)
qed

lemma run_eqI:
  assumes "same_but_nodes run run'" "rs_nodes run = rs_nodes run'"
  shows "run = run'"
  using assms by (auto simp: same_but_nodes_def)

section \<open>Reading a document\<close>

definition faithful :: "store_env \<Rightarrow> objects \<Rightarrow> document \<Rightarrow> bool" where
  "faithful env objs doc \<longleftrightarrow>
     (\<forall>p d. objs p = Some d \<longrightarrow> digest (base_env env) d = digest (base_env env) doc \<longrightarrow> d = doc)"

lemma read_value:
  assumes "read_and_verify env objs run_id r = Inr d" "dr_sha256 r = digest (base_env env) doc" "faithful env objs doc"
  shows "d = doc"
  using assms by (auto simp: read_and_verify_def faithful_def split: option.splits)

definition refers_to :: "store_env \<Rightarrow> data_ref option \<Rightarrow> document option \<Rightarrow> bool" where
  "refers_to env ref doc \<longleftrightarrow>
     (case doc of None \<Rightarrow> ref = None | Some d \<Rightarrow> \<exists>r. ref = Some r \<and> dr_sha256 r = digest (base_env env) d \<and>
        dr_byte_size r = document_size (base_env env) d)"

lemma refers_to_simps [simp]:
  "refers_to env ref None \<longleftrightarrow> ref = None"
  "refers_to env ref (Some d) \<longleftrightarrow> (\<exists>r. ref = Some r \<and> dr_sha256 r = digest (base_env env) d \<and>
     dr_byte_size r = document_size (base_env env) d)"
  by (simp_all add: refers_to_def)

lemma content_addressed_fields [simp]:
  "dr_sha256 (content_addressed_reference env doc f) = digest env doc"
  "dr_byte_size (content_addressed_reference env doc f) = document_size env doc"
  "dr_artifact_path (content_addressed_reference env doc f) = f (digest env doc)"
  by (simp_all add: content_addressed_reference_def)

lemma hydrate_output_value:
  assumes "hydrate_output env objs run_id agent ref out = Inr v" "refers_to env ref (map_option Output_document want)"
    "\<And>x. want = Some x \<Longrightarrow> faithful env objs (Output_document x)" "want = None \<longrightarrow> out = None"
  shows "v = want"
proof (cases want)
  case (Some x)
  then obtain r where r: "ref = Some r" "dr_sha256 r = digest (base_env env) (Output_document x)" using assms(2) by auto
  then obtain doc y where doc: "read_and_verify env objs run_id r = Inr doc" "parse_referenced_output agent doc = Inr y" "v = Some y"
    using assms(1) by (auto simp: hydrate_output_def)
  have "doc = Output_document x" by (rule read_value [OF doc(1) r(2) assms(3) [OF Some]])
  then show ?thesis using doc(2,3) Some by simp
qed (use assms in \<open>simp add: hydrate_output_def\<close>)

lemma parse_persisted_same: "parse_persisted_node_attempt sha ctx a = Inr b \<Longrightarrow> b = a"
  by (auto simp: parse_persisted_node_attempt_def Let_def split: if_splits)

lemma parsed_Inr [simp]: "parsed e r = Inr y \<longleftrightarrow> r = Inr y"
  by (cases r) (simp_all add: parsed_def)

section \<open>Attempts\<close>

lemma attempt_detail_fields [simp]:
  "na_attempt (attempt_detail_document a) = na_attempt a" "na_output (attempt_detail_document a) = na_output a"
  "is_attempt_detail (attempt_detail_document a)"
  "na_output_ref (attempt_detail_document a) = None" "na_detail_ref (attempt_detail_document a) = None"
  "na_status (attempt_detail_document a) = na_status a" "na_failures (attempt_detail_document a) = na_failures a"
  "na_error (attempt_detail_document a) = na_error a"
  by (simp_all add: attempt_detail_document_def is_attempt_detail_def)

lemma attempt_detail_id: "is_attempt_detail a \<Longrightarrow> attempt_detail_document a = a"
  by (cases a) (simp add: attempt_detail_document_def is_attempt_detail_def)

text \<open>An attempt whose references denote the complete attempt \<open>a\<close>.\<close>

definition denotes :: "store_env \<Rightarrow> node_attempt \<Rightarrow> node_attempt \<Rightarrow> bool" where
  "denotes env a p \<longleftrightarrow>
     refers_to env (na_detail_ref p) (Some (Detail_document (attempt_detail_document a))) \<and>
     refers_to env (na_output_ref p) (map_option Output_document (na_output a))"

definition hydrated_form :: "node_attempt \<Rightarrow> node_attempt \<Rightarrow> node_attempt" where
  "hydrated_form a p = (attempt_detail_document a)\<lparr>na_output_ref := na_output_ref p, na_detail_ref := na_detail_ref p\<rparr>"

definition faithful_attempt :: "store_env \<Rightarrow> objects \<Rightarrow> node_attempt \<Rightarrow> bool" where
  "faithful_attempt env objs a \<longleftrightarrow>
     faithful env objs (Detail_document (attempt_detail_document a)) \<and>
     opt_all (\<lambda>v. faithful env objs (Output_document v)) (na_output a)"

lemma read_detail_Inr:
  "read_detail env objs run i p r = Inr c \<longleftrightarrow>
     (\<exists>d nd. read_and_verify env objs (rs_run_id run) r = Inr (Detail_document d) \<and>
        definition_of (rs_graph run) i = Some nd \<and>
        parse_persisted_attempt_detail (pe_sha env) (attempt_context_of run nd i (na_attempt p)) d = Inr c \<and>
        same_identity p c \<and> (na_output p = None \<or> na_output p = na_output c) \<and>
        (complete_diagnostics p c \<or> projected_diagnostics env p c) \<and>
        commitment_holds env (na_failures c) (na_failures_commitment p))"
proof (cases "read_and_verify env objs (rs_run_id run) r")
  case (Inr doc)
  show ?thesis
  proof (cases doc)
    case (Detail_document d)
    then show ?thesis using Inr by (cases "definition_of (rs_graph run) i") (auto simp: read_detail_def)
  qed (use Inr in \<open>simp_all add: read_detail_def\<close>)
qed (simp add: read_detail_def)

lemma read_detail_value:
  assumes "read_detail env objs run i p r = Inr c" "dr_sha256 r = digest (base_env env) (Detail_document x)"
    "faithful env objs (Detail_document x)"
  shows "c = x"
proof -
  obtain d nd where d: "read_and_verify env objs (rs_run_id run) r = Inr (Detail_document d)"
    "parse_persisted_attempt_detail (pe_sha env) (attempt_context_of run nd i (na_attempt p)) d = Inr c"
    using assms(1) unfolding read_detail_Inr by blast
  have "Detail_document d = Detail_document x" by (rule read_value [OF d(1) assms(2,3)])
  then show ?thesis using d(2) parse_persisted_same by (auto simp: parse_persisted_attempt_detail_def split: if_splits)
qed

lemma hydrate_attempt_value:
  assumes "hydrate_attempt_data env objs run i agent retain p = Inr b" "denotes env a p" "faithful_attempt env objs a"
  shows "b = (if retain then hydrated_form a p else attempt_detail_document a)"
proof -
  obtain r where r: "na_detail_ref p = Some r" "dr_sha256 r = digest (base_env env) (Detail_document (attempt_detail_document a))"
    using assms(2) by (auto simp: denotes_def)
  obtain c out where c: "read_detail env objs run i p r = Inr c"
    "hydrate_output env objs (rs_run_id run) agent (na_output_ref p) (na_output c) = Inr out"
    "b = c\<lparr>na_output := out, na_failures_omitted := None, na_failure_texts_truncated := None,
             na_error_bytes_omitted := None,
             na_output_ref := (if retain then na_output_ref p else None),
             na_detail_ref := (if retain then na_detail_ref p else None),
             na_failures_commitment := None\<rparr>"
    using assms(1) r(1) by (auto simp: hydrate_attempt_data_def complete_attempt_data_def)
  have x: "c = attempt_detail_document a"
    by (rule read_detail_value [OF c(1) r(2)]) (use assms(3) in \<open>simp add: faithful_attempt_def\<close>)
  have "out = na_output a"
    by (rule hydrate_output_value [OF c(2)]) (use assms(2,3) x in \<open>auto simp: denotes_def faithful_attempt_def\<close>)
  then show ?thesis using c(3) x
    by (cases a) (simp add: hydrated_form_def attempt_detail_document_def)
qed

lemma denotes_hydrated: "denotes env a p \<Longrightarrow> denotes env a (hydrated_form a p)"
  by (simp add: denotes_def hydrated_form_def)

lemma hydrated_form_again [simp]: "hydrated_form a (hydrated_form a p) = hydrated_form a p"
  by (simp add: hydrated_form_def)

text \<open>Hydrating a hydrated attempt verifies it again and changes nothing.\<close>

lemma hydrate_attempt_again:
  assumes "hydrate_attempt_data env objs run i agent True p = Inr b" "denotes env a p" "faithful_attempt env objs a"
  shows "hydrate_attempt_data env objs run i agent True b = Inr b"
proof -
  have b: "b = hydrated_form a p" using hydrate_attempt_value [OF assms] by simp
  obtain r where r: "na_detail_ref p = Some r" using assms(2) by (auto simp: denotes_def)
  obtain c out where c: "read_detail env objs run i p r = Inr c"
    "hydrate_output env objs (rs_run_id run) agent (na_output_ref p) (na_output c) = Inr out"
    "na_output_ref p \<noteq> None \<or> opt_all (agent_output_valid agent) (na_output c)"
    using assms(1) r by (auto simp: hydrate_attempt_data_def complete_attempt_data_def)
  have x: "c = attempt_detail_document a"
    by (rule read_detail_value [OF c(1)]) (use assms(2,3) r in \<open>auto simp: faithful_attempt_def denotes_def\<close>)
  have out: "out = na_output a"
    by (rule hydrate_output_value [OF c(2)]) (use assms(2,3) x in \<open>auto simp: denotes_def faithful_attempt_def\<close>)
  have same: "na_attempt p = na_attempt a"
    using c(1) x unfolding read_detail_Inr same_identity_def by auto
  have "read_detail env objs run i b r = Inr c"
  proof -
    have 1: "na_attempt b = na_attempt p" using b same by (simp add: hydrated_form_def)
    have 2: "same_identity b c" by (simp add: same_identity_def b x hydrated_form_def)
    have 3: "na_output b = na_output c" by (simp add: b x hydrated_form_def)
    have 4: "complete_diagnostics b c"
      by (simp add: complete_diagnostics_def b x hydrated_form_def) (simp add: attempt_detail_document_def)
    have 5: "commitment_holds env (na_failures c) (na_failures_commitment b)"
      by (simp add: commitment_holds_def b hydrated_form_def) (simp add: attempt_detail_document_def)
    show ?thesis using c(1) 2 3 4 5 unfolding read_detail_Inr 1 by blast
  qed
  moreover have "na_detail_ref b = Some r" "na_output_ref b = na_output_ref p"
    using b r by (simp_all add: hydrated_form_def)
  moreover have "c\<lparr>na_output := out, na_failures_omitted := None, na_failure_texts_truncated := None,
             na_error_bytes_omitted := None, na_output_ref := na_output_ref p, na_detail_ref := Some r,
             na_failures_commitment := None\<rparr> = b"
    unfolding x out b hydrated_form_def r by (cases a) (simp add: attempt_detail_document_def)
  ultimately show ?thesis using c(2,3) by (simp add: hydrate_attempt_data_def complete_attempt_data_def)
qed

definition complete_attempt :: "node_attempt \<Rightarrow> bool" where
  "complete_attempt a \<longleftrightarrow> attempt_has_complete_detail a \<and> (na_output a = None \<longrightarrow> na_output_ref a = None)"

lemma project_attempt_denotes:
  assumes "complete_attempt a"
  shows "denotes env a (project_attempt (base_env env) run_id i a)"
  using assms by (cases "na_output a") (auto simp: denotes_def project_attempt_def Let_def split_beta complete_attempt_def)

section \<open>Nodes\<close>

lemma take_last_all [simp]: "length xs \<le> n \<Longrightarrow> take_last n xs = xs"
  by (simp add: take_last_def)

lemma drop_last_all [simp]: "length xs \<le> n \<Longrightarrow> drop_last n xs = []"
  by (simp add: drop_last_def)

lemma drop_take_last: "drop_last n xs @ take_last n xs = xs"
  by (simp add: drop_last_def take_last_def)

lemma map_take_last: "map f (take_last n xs) = take_last n (map f xs)" "map f (drop_last n xs) = drop_last n (map f xs)"
  by (simp_all add: take_last_def drop_last_def drop_map take_map)

lemma set_take_last: "set (take_last n xs) \<subseteq> set xs" "set (drop_last n xs) \<subseteq> set xs"
  by (simp_all add: take_last_def drop_last_def set_drop_subset set_take_subset)

definition complete_node :: "node_state \<Rightarrow> bool" where
  "complete_node st \<longleftrightarrow>
     list_all complete_attempt (ns_attempts st) \<and> ns_attempt_history_ref st = None \<and>
     (ns_output st = None \<longrightarrow> ns_output_ref st = None) \<and>
     ns_last_failures_omitted st = None \<and> ns_last_failure_texts_truncated st = None"

definition history_of :: "store_env \<Rightarrow> run_state \<Rightarrow> node_state \<Rightarrow> history_document" where
  "history_of env run st =
     \<lparr>hd_schema_version = 2, hd_kind = Some (js ''attempt_history''),
      hd_owner_session_id = Some (rs_owner_session_id run), hd_run_id = rs_run_id run, hd_node_id = ns_id st,
      hd_attempts = drop_last MAX_INLINE_ATTEMPTS_PER_NODE
        (map (project_attempt (base_env env) (rs_run_id run) (ns_id st)) (ns_attempts st))\<rparr>"

definition archives :: "node_state \<Rightarrow> bool" where
  "archives st \<longleftrightarrow> MAX_INLINE_ATTEMPTS_PER_NODE < length (ns_attempts st)"

text \<open>The documents a node is projected to.\<close>

definition node_documents :: "store_env \<Rightarrow> run_state \<Rightarrow> node_state \<Rightarrow> document list" where
  "node_documents env run st =
     (case ns_output st of None \<Rightarrow> [] | Some v \<Rightarrow> [Output_document v]) @
     concat (map (\<lambda>a. Detail_document (attempt_detail_document a) #
       (case na_output a of None \<Rightarrow> [] | Some v \<Rightarrow> [Output_document v])) (ns_attempts st)) @
     (if archives st then [History_document (history_of env run st)] else []) @
     [Failures_document (ns_last_failures st)]"

definition faithful_node :: "store_env \<Rightarrow> objects \<Rightarrow> run_state \<Rightarrow> node_state \<Rightarrow> bool" where
  "faithful_node env objs run st \<longleftrightarrow> list_all (faithful env objs) (node_documents env run st)"

lemma faithful_nodeD:
  assumes "faithful_node env objs run st"
  shows "a \<in> set (ns_attempts st) \<Longrightarrow> faithful_attempt env objs a"
    "ns_output st = Some v \<Longrightarrow> faithful env objs (Output_document v)"
    "archives st \<Longrightarrow> faithful env objs (History_document (history_of env run st))"
    "faithful env objs (Failures_document (ns_last_failures st))"
proof -
  have all: "doc \<in> set (node_documents env run st) \<Longrightarrow> faithful env objs doc" for doc
    using assms by (simp add: faithful_node_def list_all_iff)
  show "faithful_attempt env objs a" if "a \<in> set (ns_attempts st)"
  proof -
    have "faithful env objs (Detail_document (attempt_detail_document a))"
      by (rule all) (use that in \<open>auto simp: node_documents_def\<close>)
    moreover have "faithful env objs (Output_document v)" if v: "na_output a = Some v" for v
    proof (rule all)
      have "Output_document v \<in> set (Detail_document (attempt_detail_document a) #
          (case na_output a of None \<Rightarrow> [] | Some v \<Rightarrow> [Output_document v]))" using v by simp
      then show "Output_document v \<in> set (node_documents env run st)"
        using \<open>a \<in> set (ns_attempts st)\<close> unfolding node_documents_def set_append set_concat set_map by blast
    qed
    ultimately show ?thesis by (cases "na_output a") (simp_all add: faithful_attempt_def)
  qed
  show "ns_output st = Some v \<Longrightarrow> faithful env objs (Output_document v)"
    "archives st \<Longrightarrow> faithful env objs (History_document (history_of env run st))"
    "faithful env objs (Failures_document (ns_last_failures st))"
    by (rule all, simp add: node_documents_def)+
qed

lemma project_history_Inr:
  assumes "project_history (base_env env) run st = Inr (visible, ref, doc)" "ns_attempt_history_ref st = None"
  shows "visible = take_last MAX_INLINE_ATTEMPTS_PER_NODE
      (map (project_attempt (base_env env) (rs_run_id run) (ns_id st)) (ns_attempts st))"
    "ref = (if archives st then Some (history_reference (base_env env) (rs_run_id run) (ns_id st) (history_of env run st)) else None)"
    "doc = (if archives st then Some (history_of env run st) else None)"
  using assms by (auto simp: project_history_def Let_def archives_def history_of_def split: if_splits)

lemma project_node_Inr:
  assumes "project_node (base_env env) run st = Inr (p, doc)" "complete_node st"
  shows "ns_id p = ns_id st" "ns_agent p = ns_agent st" "ns_status p = ns_status st"
    "ns_current_attempt p = ns_current_attempt st" "ns_output p = None"
    "ns_attempts p = take_last MAX_INLINE_ATTEMPTS_PER_NODE
      (map (project_attempt (base_env env) (rs_run_id run) (ns_id st)) (ns_attempts st))"
    "ns_attempt_history_ref p = (if archives st
       then Some (history_reference (base_env env) (rs_run_id run) (ns_id st) (history_of env run st)) else None)"
    "refers_to env (ns_output_ref p) (map_option Output_document (ns_output st))"
    "refers_to env (ns_last_failures_ref p)
       (if ns_last_failures st = [] then None else Some (Failures_document (ns_last_failures st)))"
    "ns_last_failures st = [] \<Longrightarrow> ns_last_failures p = [] \<and> ns_last_failures_omitted p = None \<and>
       ns_last_failure_texts_truncated p = None"
    "doc = (if archives st then Some (history_of env run st) else None)"
  using assms project_history_Inr [of env run st]
  by (auto simp: project_node_def Let_def complete_node_def node_output_reference_def last_failures_reference_def
      has_complete_last_failures_def project_failures_def positive_def split: option.splits)

text \<open>A node as a reader of the store sees it: its last attempts with their references, complete texts.\<close>

definition visible_node :: "store_env \<Rightarrow> run_state \<Rightarrow> node_state \<Rightarrow> node_state \<Rightarrow> node_state" where
  "visible_node env run st p = st\<lparr>
     ns_attempts := map (\<lambda>a. hydrated_form a (project_attempt (base_env env) (rs_run_id run) (ns_id st) a))
       (take_last MAX_INLINE_ATTEMPTS_PER_NODE (ns_attempts st)),
     ns_attempt_history_ref := ns_attempt_history_ref p, ns_output_ref := ns_output_ref p,
     ns_last_failures_commitment := None, ns_last_failures_ref := ns_last_failures_ref p,
     ns_last_failures_omitted := None, ns_last_failure_texts_truncated := None\<rparr>"

lemma smap_value:
  assumes "smap f (map g xs) = Inr ys" "\<And>x y. x \<in> set xs \<Longrightarrow> f (g x) = Inr y \<Longrightarrow> y = h x"
  shows "ys = map h xs"
  using assms by (induction xs arbitrary: ys) auto

lemma hydrate_failures_value:
  assumes "hydrate_node_failures env objs run_id st = Inr st'"
    "refers_to env (ns_last_failures_ref st) (if fs = [] then None else Some (Failures_document fs))"
    "faithful env objs (Failures_document fs)"
    "fs = [] \<Longrightarrow> ns_last_failures st = [] \<and> ns_last_failures_omitted st = None \<and> ns_last_failure_texts_truncated st = None"
  shows "st'\<lparr>ns_last_failures_commitment := None\<rparr> = st\<lparr>ns_last_failures := fs, ns_last_failures_omitted := None,
      ns_last_failure_texts_truncated := None, ns_last_failures_commitment := None\<rparr>"
proof (cases "fs = []")
  case True
  then have "ns_last_failures_ref st = None" using assms(2) by simp
  then have "st' = st" using assms(1) by (simp add: hydrate_node_failures_def)
  then show ?thesis using assms(4) True by (cases st) simp
next
  case False
  then obtain r where r: "ns_last_failures_ref st = Some r" "dr_sha256 r = digest (base_env env) (Failures_document fs)"
    using assms(2) by auto
  obtain doc where doc: "read_and_verify env objs run_id r = Inr doc" using assms(1) r(1)
    by (auto simp: hydrate_node_failures_def)
  have "doc = Failures_document fs" by (rule read_value [OF doc r(2) assms(3)])
  then show ?thesis using assms(1) r(1) doc by (auto simp: hydrate_node_failures_def)
qed

lemma hydrate_visible_value:
  assumes "hydrate_visible_node env objs d run p = Inr v" "project_node (base_env env) run0 st = Inr (p, doc)"
    "complete_node st" "faithful_node env objs run0 st"
  shows "v = visible_node env run0 st p"
proof -
  note P = project_node_Inr [OF assms(2,3)] and F = faithful_nodeD [OF assms(4)]
  obtain as out st' where h: "smap (hydrate_attempt_data env objs run (nd_id d) (ns_agent p) True) (ns_attempts p) = Inr as"
    "hydrate_output env objs (rs_run_id run) (ns_agent p) (ns_output_ref p) (ns_output p) = Inr out"
    "hydrate_node_failures env objs (rs_run_id run) (p\<lparr>ns_attempts := as, ns_output := out\<rparr>) = Inr st'"
    "v = st'\<lparr>ns_last_failures_commitment := None\<rparr>"
    using assms(1) unfolding hydrate_visible_node_def sbind_Inr sum.inject by metis
  let ?proj = "project_attempt (base_env env) (rs_run_id run0) (ns_id st)"
  have as: "as = map (\<lambda>a. hydrated_form a (?proj a)) (take_last MAX_INLINE_ATTEMPTS_PER_NODE (ns_attempts st))"
  proof (rule smap_value)
    show "smap (hydrate_attempt_data env objs run (nd_id d) (ns_agent p) True)
        (map ?proj (take_last MAX_INLINE_ATTEMPTS_PER_NODE (ns_attempts st))) = Inr as"
      using h(1) unfolding P(6) map_take_last(1) .
    fix a y assume a: "a \<in> set (take_last MAX_INLINE_ATTEMPTS_PER_NODE (ns_attempts st))"
      "hydrate_attempt_data env objs run (nd_id d) (ns_agent p) True (?proj a) = Inr y"
    have a2: "a \<in> set (ns_attempts st)" by (rule subsetD [OF set_take_last(1) a(1)])
    then have "complete_attempt a" using assms(3) by (simp add: complete_node_def list_all_iff)
    then show "y = hydrated_form a (?proj a)"
      using hydrate_attempt_value [OF a(2) project_attempt_denotes F(1) [OF a2]] by simp
  qed
  have out: "out = ns_output st"
    by (rule hydrate_output_value [OF h(2) P(8)]) (use F(2) P(5) in auto)
  have "st'\<lparr>ns_last_failures_commitment := None\<rparr> = p\<lparr>ns_attempts := as, ns_output := out,
      ns_last_failures := ns_last_failures st, ns_last_failures_omitted := None,
      ns_last_failure_texts_truncated := None, ns_last_failures_commitment := None\<rparr>"
    using hydrate_failures_value [OF h(3) _ F(4)] P(9,10) by simp
  then show ?thesis using h(4) as out P(1-4) by (cases st; cases p) (simp add: visible_node_def)
qed

lemma hydrate_visible_parts:
  assumes "hydrate_visible_node env objs d run p = Inr v"
  obtains as out st' where
    "smap (hydrate_attempt_data env objs run (nd_id d) (ns_agent p) True) (ns_attempts p) = Inr as"
    "hydrate_output env objs (rs_run_id run) (ns_agent p) (ns_output_ref p) (ns_output p) = Inr out"
    "hydrate_node_failures env objs (rs_run_id run) (p\<lparr>ns_attempts := as, ns_output := out\<rparr>) = Inr st'"
    "v = st'\<lparr>ns_last_failures_commitment := None\<rparr>"
  using assms unfolding hydrate_visible_node_def sbind_Inr sum.inject by metis

lemma smap_each:
  assumes "smap f xs = Inr ys" "x \<in> set xs"
  shows "\<exists>y. f x = Inr y"
  using assms by (induction xs arbitrary: ys) auto

lemma visible_node_fields [simp]:
  "ns_id (visible_node env run st p) = ns_id st" "ns_agent (visible_node env run st p) = ns_agent st"
  "ns_output (visible_node env run st p) = ns_output st" "ns_output_ref (visible_node env run st p) = ns_output_ref p"
  "ns_last_failures (visible_node env run st p) = ns_last_failures st"
  "ns_last_failures_ref (visible_node env run st p) = ns_last_failures_ref p"
  "ns_attempt_history_ref (visible_node env run st p) = ns_attempt_history_ref p"
  "ns_last_failures_omitted (visible_node env run st p) = None"
  "ns_last_failure_texts_truncated (visible_node env run st p) = None"
  "ns_last_failures_commitment (visible_node env run st p) = None"
  "ns_attempts (visible_node env run st p) =
     map (\<lambda>a. hydrated_form a (project_attempt (base_env env) (rs_run_id run) (ns_id st) a))
       (take_last MAX_INLINE_ATTEMPTS_PER_NODE (ns_attempts st))"
  by (simp_all add: visible_node_def)

text \<open>Hydrating the projection succeeds on every attempt, and again on what it returned.\<close>

lemma visible_attempts_again:
  assumes "hydrate_visible_node env objs d run p = Inr v" "project_node (base_env env) run0 st = Inr (p, doc)"
    "complete_node st" "faithful_node env objs run0 st" "a \<in> set (take_last MAX_INLINE_ATTEMPTS_PER_NODE (ns_attempts st))"
  shows "hydrate_attempt_data env objs run (nd_id d) (ns_agent st) True
      (hydrated_form a (project_attempt (base_env env) (rs_run_id run0) (ns_id st) a)) =
    Inr (hydrated_form a (project_attempt (base_env env) (rs_run_id run0) (ns_id st) a))"
proof -
  note P = project_node_Inr [OF assms(2,3)]
  let ?proj = "project_attempt (base_env env) (rs_run_id run0) (ns_id st)"
  obtain as where as: "smap (hydrate_attempt_data env objs run (nd_id d) (ns_agent p) True) (ns_attempts p) = Inr as"
    by (rule hydrate_visible_parts [OF assms(1)])
  have "?proj a \<in> set (ns_attempts p)" using assms(5) unfolding P(6) map_take_last(1) [symmetric] by simp
  then obtain b where b: "hydrate_attempt_data env objs run (nd_id d) (ns_agent p) True (?proj a) = Inr b"
    using smap_each [OF as] by blast
  have a: "a \<in> set (ns_attempts st)" by (rule subsetD [OF set_take_last(1) assms(5)])
  then have c: "complete_attempt a" using assms(3) by (simp add: complete_node_def list_all_iff)
  note D = project_attempt_denotes [OF c, of env "rs_run_id run0" "ns_id st"] and F = faithful_nodeD(1) [OF assms(4) a]
  have "b = hydrated_form a (?proj a)" using hydrate_attempt_value [OF b D F] by simp
  then show ?thesis using hydrate_attempt_again [OF b D F] P(2) by simp
qed

lemma hydrate_visible_again:
  assumes "hydrate_visible_node env objs d run p = Inr v" "project_node (base_env env) run0 st = Inr (p, doc)"
    "complete_node st" "faithful_node env objs run0 st"
  shows "hydrate_visible_node env objs d run v = Inr v"
proof -
  note P = project_node_Inr [OF assms(2,3)] and F = faithful_nodeD [OF assms(4)]
  have v: "v = visible_node env run0 st p" by (rule hydrate_visible_value [OF assms])
  obtain as out st' where h: "smap (hydrate_attempt_data env objs run (nd_id d) (ns_agent p) True) (ns_attempts p) = Inr as"
    "hydrate_output env objs (rs_run_id run) (ns_agent p) (ns_output_ref p) (ns_output p) = Inr out"
    "hydrate_node_failures env objs (rs_run_id run) (p\<lparr>ns_attempts := as, ns_output := out\<rparr>) = Inr st'"
    "v = st'\<lparr>ns_last_failures_commitment := None\<rparr>"
    by (rule hydrate_visible_parts [OF assms(1)])
  have as: "smap (hydrate_attempt_data env objs run (nd_id d) (ns_agent v) True) (ns_attempts v) = Inr (ns_attempts v)"
  proof -
    have "smap (hydrate_attempt_data env objs run (nd_id d) (ns_agent v) True) (ns_attempts v) = Inr (map (\<lambda>x. x) (ns_attempts v))"
    proof (rule smap_eq)
      fix x assume "x \<in> set (ns_attempts v)"
      then obtain a where "a \<in> set (take_last MAX_INLINE_ATTEMPTS_PER_NODE (ns_attempts st))"
        "x = hydrated_form a (project_attempt (base_env env) (rs_run_id run0) (ns_id st) a)"
        by (auto simp: v)
      then show "hydrate_attempt_data env objs run (nd_id d) (ns_agent v) True x = Inr x"
        using visible_attempts_again [OF assms] by (simp add: v)
    qed
    then show ?thesis by simp
  qed
  have out: "hydrate_output env objs (rs_run_id run) (ns_agent v) (ns_output_ref v) (ns_output v) = Inr (ns_output v)"
  proof (cases "ns_output st")
    case None
    then show ?thesis using P(8) by (simp add: v hydrate_output_def)
  next
    case (Some y)
    then obtain r where r: "ns_output_ref p = Some r" "dr_sha256 r = digest (base_env env) (Output_document y)"
      "dr_byte_size r = document_size (base_env env) (Output_document y)" using P(8) by auto
    obtain dd z where dd: "read_and_verify env objs (rs_run_id run) r = Inr dd" "parse_referenced_output (ns_agent p) dd = Inr z"
      using h(2) r(1) by (auto simp: hydrate_output_def)
    have "dd = Output_document y" by (rule read_value [OF dd(1) r(2) F(2) [OF Some]])
    then have "agent_output_valid (ns_agent p) y" using dd(2) by auto
    then show ?thesis using dd(1) \<open>dd = _\<close> r P(2) Some by (simp add: v hydrate_output_def matches_reference_def)
  qed
  have failures: "hydrate_node_failures env objs (rs_run_id run) v = Inr v"
  proof (cases "ns_last_failures st = []")
    case True
    then show ?thesis using P(9) by (simp add: v hydrate_node_failures_def)
  next
    case False
    then obtain r where r: "ns_last_failures_ref p = Some r"
      "dr_sha256 r = digest (base_env env) (Failures_document (ns_last_failures st))" using P(9) by auto
    obtain dd where dd: "read_and_verify env objs (rs_run_id run) r = Inr dd"
      using h(3) r(1) by (auto simp: hydrate_node_failures_def)
    have doc: "dd = Failures_document (ns_last_failures st)" by (rule read_value [OF dd r(2) F(4)])
    have "bounded_strings (ns_last_failures st)"
      using h(3) r(1) dd doc by (simp add: hydrate_node_failures_def)
    then show ?thesis using r(1) dd doc
      by (simp add: v hydrate_node_failures_def node_failures_match_def commitment_holds_def)
  qed
  have same: "v\<lparr>ns_attempts := ns_attempts v, ns_output := ns_output v\<rparr> = v" by simp
  have "v\<lparr>ns_last_failures_commitment := None\<rparr> = v" by (cases st) (simp add: v visible_node_def)
  then show ?thesis unfolding hydrate_visible_node_def as out sbind_simps same failures by simp
qed

section \<open>Archives\<close>

lemma base_ref_fields [simp]:
  "dr_sha256 (base_ref r) = dr_sha256 r" "dr_artifact_path (base_ref r) = dr_artifact_path r"
  "dr_byte_size (base_ref r) = dr_byte_size r"
  by (simp_all add: base_ref_def)

lemma history_reference_sha [simp]:
  "dr_sha256 (history_reference env run_id i h) = digest env (History_document h)"
  by (simp add: history_reference_def Let_def)

lemma parsed_attempts_same:
  "smap (\<lambda>(n, a). parsed e (parse_persisted_node_attempt sha (f n) a)) (enumerate k as) = Inr bs \<Longrightarrow> bs = as"
proof (induction as arbitrary: k bs)
  case (Cons a as)
  then obtain b cs where "parse_persisted_node_attempt sha (f k) a = Inr b" "bs = b # cs"
    "smap (\<lambda>(n, a). parsed e (parse_persisted_node_attempt sha (f n) a)) (enumerate (Suc k) as) = Inr cs" by auto
  then show ?case using Cons.IH parse_persisted_same by blast
qed simp

lemma read_history_value:
  assumes "read_attempt_history env objs run i st owner = Inr as"
    "ns_attempt_history_ref st = (if b then Some (history_reference (base_env env) rid nid h) else None)"
    "b \<Longrightarrow> faithful env objs (History_document h)"
  shows "as = (if b then hd_attempts h else [])"
proof (cases b)
  case True
  let ?r = "history_reference (base_env env) rid nid h"
  have ref: "ns_attempt_history_ref st = Some ?r" using assms(2) True by simp
  obtain doc where doc: "read_and_verify env objs (rs_run_id run) (base_ref ?r) = Inr doc"
    using assms(1) ref by (auto simp: read_attempt_history_def)
  have "doc = History_document h" by (rule read_value [OF doc _ assms(3) [OF True]]) simp
  then show ?thesis using assms(1) ref doc True parsed_attempts_same
    by (cases "definition_of (rs_graph run) i") (auto simp: read_attempt_history_def)
qed (use assms in \<open>simp add: read_attempt_history_def\<close>)

definition full_node :: "store_env \<Rightarrow> run_state \<Rightarrow> node_state \<Rightarrow> node_state \<Rightarrow> node_state" where
  "full_node env run st p = (visible_node env run st p)\<lparr>
     ns_attempts := map (\<lambda>a. hydrated_form a (project_attempt (base_env env) (rs_run_id run) (ns_id st) a)) (ns_attempts st),
     ns_attempt_history_ref := None\<rparr>"

lemma archive_and_tail:
  "(if archives st then drop_last MAX_INLINE_ATTEMPTS_PER_NODE (map f (ns_attempts st)) else []) =
   map f (drop_last MAX_INLINE_ATTEMPTS_PER_NODE (ns_attempts st))"
  by (simp add: map_take_last archives_def)

lemma hydrate_full_value:
  assumes "hydrate_full_node env objs d run (visible_node env run0 st p) = Inr f"
    "project_node (base_env env) run0 st = Inr (p, doc)" "complete_node st" "faithful_node env objs run0 st"
  shows "f = full_node env run0 st p"
proof -
  note P = project_node_Inr [OF assms(2,3)] and F = faithful_nodeD [OF assms(4)]
  let ?v = "visible_node env run0 st p" let ?n = MAX_INLINE_ATTEMPTS_PER_NODE
  let ?proj = "project_attempt (base_env env) (rs_run_id run0) (ns_id st)"
  obtain archived as where h: "read_attempt_history env objs run (nd_id d) ?v (rs_owner_session_id run) = Inr archived"
    "smap (hydrate_attempt_data env objs run (nd_id d) (ns_agent ?v) True) (archived @ ns_attempts ?v) = Inr as"
    "f = ?v\<lparr>ns_attempts := as, ns_attempt_history_ref := None\<rparr>"
    using assms(1) unfolding hydrate_full_node_def sbind_Inr sum.inject by metis
  have "archived = (if archives st then hd_attempts (history_of env run0 st) else [])"
    by (rule read_history_value [OF h(1)]) (use P(7) F(3) in simp_all)
  then have archived: "archived = map ?proj (drop_last ?n (ns_attempts st))"
    unfolding archive_and_tail [symmetric] by (simp add: history_of_def)
  obtain us vs where uv: "smap (hydrate_attempt_data env objs run (nd_id d) (ns_agent ?v) True) archived = Inr us"
    "smap (hydrate_attempt_data env objs run (nd_id d) (ns_agent ?v) True) (ns_attempts ?v) = Inr vs" "as = us @ vs"
    using h(2) unfolding smap_append sbind_Inr sum.inject by metis
  have den: "denotes env a (?proj a)" "faithful_attempt env objs a" if "a \<in> set (ns_attempts st)" for a
    using that assms(3) F(1) project_attempt_denotes by (simp_all add: complete_node_def list_all_iff)
  have us: "us = map (\<lambda>a. hydrated_form a (?proj a)) (drop_last ?n (ns_attempts st))"
  proof (rule smap_value [OF uv(1) [unfolded archived]])
    fix a y assume a: "a \<in> set (drop_last ?n (ns_attempts st))"
      "hydrate_attempt_data env objs run (nd_id d) (ns_agent ?v) True (?proj a) = Inr y"
    note m = subsetD [OF set_take_last(2) a(1)]
    show "y = hydrated_form a (?proj a)" using hydrate_attempt_value [OF a(2) den [OF m]] by simp
  qed
  have vs: "vs = map (\<lambda>a. hydrated_form a (?proj a)) (take_last ?n (ns_attempts st))"
  proof (rule smap_value)
    show "smap (hydrate_attempt_data env objs run (nd_id d) (ns_agent ?v) True)
        (map (\<lambda>a. hydrated_form a (?proj a)) (take_last ?n (ns_attempts st))) = Inr vs" using uv(2) by simp
    fix a y assume a: "a \<in> set (take_last ?n (ns_attempts st))"
      "hydrate_attempt_data env objs run (nd_id d) (ns_agent ?v) True (hydrated_form a (?proj a)) = Inr y"
    note m = subsetD [OF set_take_last(1) a(1)]
    show "y = hydrated_form a (?proj a)"
      using hydrate_attempt_value [OF a(2) denotes_hydrated [OF den(1) [OF m]] den(2) [OF m]] by simp
  qed
  have "as = map (\<lambda>a. hydrated_form a (?proj a)) (ns_attempts st)"
    unfolding uv(3) us vs map_append [symmetric] drop_take_last ..
  then show ?thesis using h(3) by (simp add: full_node_def)
qed

text \<open>A node in execution form: complete, without any reference.\<close>

definition execution_node :: "node_state \<Rightarrow> node_state" where
  "execution_node st = st\<lparr>ns_attempts := map attempt_detail_document (ns_attempts st),
     ns_attempt_history_ref := None, ns_output_ref := None, ns_last_failures_commitment := None,
     ns_last_failures_ref := None, ns_last_failures_omitted := None, ns_last_failure_texts_truncated := None\<rparr>"

lemma drop_references_full: "drop_references (full_node env run st p) = execution_node st"
proof -
  have "drop_attempt_references (hydrated_form a q) = attempt_detail_document a" for a q
    by (cases a) (simp add: drop_attempt_references_def hydrated_form_def attempt_detail_document_def)
  then show ?thesis by (cases st) (simp add: drop_references_def full_node_def visible_node_def execution_node_def)
qed

lemma hydrated_execution_node: "hydrated_node (execution_node st)"
  by (simp add: hydrated_node_def execution_node_def list_all_iff)

lemma execution_node_id: "hydrated_node st \<Longrightarrow> execution_node st = st"
  by (cases st) (auto simp: hydrated_node_def execution_node_def list_all_iff attempt_detail_id map_idI)

end
