(* ===== verification/Saved_Runs.thy ===== *)
theory Saved_Runs
  imports Roundtrip
begin

text \<open>
  Whole runs through the store: what a save publishes, what it leaves alone, and that the run an
  execution starts from after loading is exactly the run that was saved.
\<close>

section \<open>Passes that look at one node only\<close>

lemma parse_runtime_Inr [simp]:
  "parse_runtime env run = Inr r \<longleftrightarrow>
     r = run \<and> run_body_shape run \<and> revision_shape run \<and> run_issues (pe_sha env) run = []"
  by (auto simp: parse_runtime_def parse_run_state_for_projection_def)

text \<open>What the hydration of an attempt reads of the run.\<close>

definition same_context :: "run_state \<Rightarrow> run_state \<Rightarrow> bool" where
  "same_context run r \<longleftrightarrow> rs_run_id r = rs_run_id run \<and> rs_graph r = rs_graph run \<and> rs_mode r = rs_mode run"

lemma same_but_nodes_context: "same_but_nodes run r \<Longrightarrow> same_context run r"
  by (auto simp: same_but_nodes_def same_context_def)

lemma hydrate_attempt_local:
  assumes "same_context run r"
  shows "hydrate_attempt_data env objs r = hydrate_attempt_data env objs run"
proof -
  have ids: "rs_run_id r = rs_run_id run" "rs_graph r = rs_graph run" "rs_mode r = rs_mode run"
    using assms by (simp_all add: same_context_def)
  have ctx: "attempt_context_of r = attempt_context_of run" by (intro ext) (simp add: ids attempt_context_of_def)
  have "read_detail env objs r = read_detail env objs run"
    by (intro ext) (simp only: read_detail_def ctx ids)
  then have "complete_attempt_data env objs r = complete_attempt_data env objs run"
    by (intro ext) (simp only: complete_attempt_data_def)
  then show ?thesis by (intro ext) (simp only: hydrate_attempt_data_def ids)
qed

lemma read_history_local:
  assumes "same_context run r"
  shows "read_attempt_history env objs r = read_attempt_history env objs run"
proof -
  have ids: "rs_run_id r = rs_run_id run" "rs_graph r = rs_graph run" "rs_mode r = rs_mode run"
    using assms by (simp_all add: same_context_def)
  have ctx: "attempt_context_of r = attempt_context_of run" by (intro ext) (simp add: ids attempt_context_of_def)
  show ?thesis by (intro ext) (simp only: read_attempt_history_def ctx ids)
qed

lemma visible_local: "node_local run (hydrate_visible_node env objs)"
  by (simp add: node_local_def hydrate_visible_node_def hydrate_attempt_local [OF same_but_nodes_context]
      same_but_nodes_selectors)

lemma full_local: "node_local run (hydrate_full_node env objs)"
  by (simp add: node_local_def hydrate_full_node_def hydrate_attempt_local [OF same_but_nodes_context]
      read_history_local [OF same_but_nodes_context] same_but_nodes_selectors)

lemma archive_local: "node_local run (with_archive env objs projected)"
  by (simp add: node_local_def with_archive_def)

lemma drop_local: "node_local run (\<lambda>d run st. Inr (drop_references st))"
  by (simp add: node_local_def)

section \<open>The projected run\<close>

definition complete_run :: "run_state \<Rightarrow> bool" where
  "complete_run run \<longleftrightarrow>
     map fst (rs_nodes run) = map nd_id (gd_nodes (rs_graph run)) \<and>
     distinct (map nd_id (gd_nodes (rs_graph run))) \<and>
     (\<forall>i st. node_of run i = Some st \<longrightarrow> complete_node st \<and> ns_id st = i) \<and>
     rs_filesystem_root_authorizations_ref run = None \<and> rs_filesystem_root_authorizations_omitted run = None \<and>
     rs_state_projection run = None"

definition roots_of :: "run_state \<Rightarrow> roots_document" where
  "roots_of run = \<lparr>rd_run_id = rs_run_id run, rd_owner_session_id = rs_owner_session_id run,
     rd_authorizations = authorizations_of run\<rparr>"

definition archives_roots :: "run_state \<Rightarrow> bool" where
  "archives_roots run \<longleftrightarrow> MAX_PROJECTED_ROOT_AUTHORIZATIONS < length (authorizations_of run)"

text \<open>Every document a save of the run publishes.\<close>

definition run_documents :: "store_env \<Rightarrow> run_state \<Rightarrow> document list" where
  "run_documents env run =
     concat (map (node_documents env run) (node_values run)) @
     (if archives_roots run then [Roots_document (roots_of run)] else [])"

definition faithful_run :: "store_env \<Rightarrow> objects \<Rightarrow> run_state \<Rightarrow> bool" where
  "faithful_run env objs run \<longleftrightarrow> list_all (faithful env objs) (run_documents env run)"

lemma faithful_runD:
  assumes "faithful_run env objs run"
  shows "node_of run i = Some st \<Longrightarrow> faithful_node env objs run st"
    "archives_roots run \<Longrightarrow> faithful env objs (Roots_document (roots_of run))"
proof -
  show "faithful_node env objs run st" if "node_of run i = Some st"
  proof -
    have "st \<in> set (node_values run)" using node_of_SomeD [OF that] by (force simp: node_values_def)
    then show ?thesis using assms by (auto simp: faithful_run_def run_documents_def faithful_node_def list_all_iff)
  qed
  show "faithful env objs (Roots_document (roots_of run))" if "archives_roots run"
    using assms that by (simp add: faithful_run_def run_documents_def)
qed

lemma graph_lookup:
  assumes "map fst (rs_nodes run) = map nd_id (gd_nodes (rs_graph run))" "d \<in> set (gd_nodes (rs_graph run))"
  obtains st where "node_of run (nd_id d) = Some st"
proof -
  have "nd_id d \<in> set (map fst (rs_nodes run))" unfolding assms(1) using assms(2) by simp
  then show thesis using that by (cases "node_of run (nd_id d)") (auto simp: node_of_def map_of_eq_None_iff)
qed

lemma project_entries:
  assumes "smap (project_entry env run) ds = Inr es" "\<forall>d \<in> set ds. \<forall>st. node_of run (nd_id d) = Some st \<longrightarrow> ns_id st = nd_id d"
    "distinct (map nd_id ds)"
  shows "map fst (map fst es) = map nd_id ds"
    "\<And>d. d \<in> set ds \<Longrightarrow> \<exists>st p doc. node_of run (nd_id d) = Some st \<and> project_node env run st = Inr (p, doc) \<and>
       map_of (map fst es) (nd_id d) = Some p"
proof -
  have "map fst (map fst es) = map nd_id ds \<and>
    (\<forall>d \<in> set ds. \<exists>st p doc. node_of run (nd_id d) = Some st \<and> project_node env run st = Inr (p, doc) \<and>
       map_of (map fst es) (nd_id d) = Some p)"
    using assms
  proof (induction ds arbitrary: es)
    case (Cons d ds)
    obtain e es' where e: "project_entry env run d = Inr e" "smap (project_entry env run) ds = Inr es'" "es = e # es'"
      using Cons.prems(1) by auto
    obtain st p doc where st: "node_of run (nd_id d) = Some st" "project_node env run st = Inr (p, doc)" "e = ((ns_id st, p), doc)"
      using e(1) by (auto simp: project_entry_def split: option.splits)
    have id: "ns_id st = nd_id d" using Cons.prems(2) st(1) by simp
    have ih: "map fst (map fst es') = map nd_id ds \<and>
      (\<forall>d \<in> set ds. \<exists>st p doc. node_of run (nd_id d) = Some st \<and> project_node env run st = Inr (p, doc) \<and>
         map_of (map fst es') (nd_id d) = Some p)"
      by (rule Cons.IH [OF e(2)]) (use Cons.prems(2,3) in auto)
    have fresh: "nd_id d \<notin> nd_id ` set ds" using Cons.prems(3) by simp
    have "map fst (map fst es) = map nd_id (d # ds)" using ih e(3) st(3) id by simp
    moreover have "\<exists>u p doc. node_of run (nd_id x) = Some u \<and> project_node env run u = Inr (p, doc) \<and>
         map_of (map fst es) (nd_id x) = Some p" if x: "x \<in> set (d # ds)" for x
    proof (cases "x = d")
      case True
      then show ?thesis using st id e(3) by auto
    next
      case False
      then have "x \<in> set ds" using x by simp
      moreover from this have "nd_id x \<noteq> nd_id d" using fresh by (metis image_eqI)
      ultimately show ?thesis using ih e(3) st(3) id by simp
    qed
    ultimately show ?case by blast
  qed simp
  then show "map fst (map fst es) = map nd_id ds"
    "\<And>d. d \<in> set ds \<Longrightarrow> \<exists>st p doc. node_of run (nd_id d) = Some st \<and> project_node env run st = Inr (p, doc) \<and>
       map_of (map fst es) (nd_id d) = Some p" by blast+
qed

lemma project_roots_eq:
  assumes "rs_filesystem_root_authorizations_ref run = None" "rs_filesystem_root_authorizations_omitted run = None"
  shows "project_roots env run =
    (if archives_roots run then (Some (root_authorization_reference env (rs_run_id run) (roots_of run)), Some (roots_of run))
     else (None, None))"
  using assms by (simp add: project_roots_def Let_def archives_roots_def roots_of_def)

lemma project_run_Inr:
  assumes "project_run_state (base_env env) run = Inr pr" "complete_run run"
  shows "map fst (rs_nodes (pr_state pr)) = map nd_id (gd_nodes (rs_graph run))"
    "\<And>d. d \<in> set (gd_nodes (rs_graph run)) \<Longrightarrow> \<exists>st p doc. node_of run (nd_id d) = Some st \<and>
       project_node (base_env env) run st = Inr (p, doc) \<and> node_of (pr_state pr) (nd_id d) = Some p"
    "\<exists>nodes proj omitted. pr_state pr = run\<lparr>rs_nodes := nodes,
       rs_filesystem_root_authorizations := map_option (take_last MAX_PROJECTED_ROOT_AUTHORIZATIONS) (rs_filesystem_root_authorizations run),
       rs_filesystem_root_authorizations_ref := (if archives_roots run
          then Some (root_authorization_reference (base_env env) (rs_run_id run) (roots_of run)) else None),
       rs_filesystem_root_authorizations_omitted := omitted, rs_state_projection := Some proj\<rparr> \<and>
       (\<not> archives_roots run \<longrightarrow> omitted = None)"
proof -
  have C: "distinct (map nd_id (gd_nodes (rs_graph run)))" "rs_filesystem_root_authorizations_ref run = None"
    "rs_filesystem_root_authorizations_omitted run = None"
    "\<And>i st. node_of run i = Some st \<Longrightarrow> ns_id st = i"
    using assms(2) by (auto simp: complete_run_def)
  obtain es where es: "smap (project_entry (base_env env) run) (gd_nodes (rs_graph run)) = Inr es"
    using assms(1) by (auto simp: project_run_state_def Let_def split_beta)
  have ids: "\<forall>d \<in> set (gd_nodes (rs_graph run)). \<forall>st. node_of run (nd_id d) = Some st \<longrightarrow> ns_id st = nd_id d"
    using C(4) by blast
  note E = project_entries [OF es ids C(1)]
  let ?roots = "project_roots (base_env env) run"
  let ?visible = "take_last MAX_PROJECTED_ROOT_AUTHORIZATIONS (authorizations_of run)"
  let ?omitted = "case fst ?roots of Some r \<Rightarrow> ra_authorization_count r - length ?visible
    | None \<Rightarrow> length (authorizations_of run) - length ?visible"
  have state: "pr_state pr = run\<lparr>rs_nodes := map fst es,
      rs_filesystem_root_authorizations := (if rs_filesystem_root_authorizations run = None then None else Some ?visible),
      rs_filesystem_root_authorizations_ref := fst ?roots,
      rs_filesystem_root_authorizations_omitted := (if ?omitted = 0 then None else Some ?omitted),
      rs_state_projection := Some (projection_counts (map snd (map fst es)) ?omitted)\<rparr>"
    using assms(1) es C(3) by (auto simp: project_run_state_def Let_def split_beta cong: option.case_cong)
  then have nodes: "rs_nodes (pr_state pr) = map fst es" by simp
  show "map fst (rs_nodes (pr_state pr)) = map nd_id (gd_nodes (rs_graph run))" using E(1) by (simp add: nodes)
  show "\<exists>st p doc. node_of run (nd_id d) = Some st \<and> project_node (base_env env) run st = Inr (p, doc) \<and>
      node_of (pr_state pr) (nd_id d) = Some p" if "d \<in> set (gd_nodes (rs_graph run))" for d
    using E(2) [OF that] by (simp add: node_of_def nodes)
  have auth: "(if rs_filesystem_root_authorizations run = None then None else Some ?visible) =
      map_option (take_last MAX_PROJECTED_ROOT_AUTHORIZATIONS) (rs_filesystem_root_authorizations run)"
    by (cases "rs_filesystem_root_authorizations run") (simp_all add: authorizations_of_def)
  have roots: "fst ?roots = (if archives_roots run
      then Some (root_authorization_reference (base_env env) (rs_run_id run) (roots_of run)) else None)"
    using project_roots_eq [OF C(2,3)] by simp
  have "\<not> archives_roots run \<longrightarrow> ?omitted = 0" using roots by (simp add: archives_roots_def)
  then show "\<exists>nodes proj omitted. pr_state pr = run\<lparr>rs_nodes := nodes,
       rs_filesystem_root_authorizations := map_option (take_last MAX_PROJECTED_ROOT_AUTHORIZATIONS) (rs_filesystem_root_authorizations run),
       rs_filesystem_root_authorizations_ref := (if archives_roots run
          then Some (root_authorization_reference (base_env env) (rs_run_id run) (roots_of run)) else None),
       rs_filesystem_root_authorizations_omitted := omitted, rs_state_projection := Some proj\<rparr> \<and>
       (\<not> archives_roots run \<longrightarrow> omitted = None)"
    unfolding state auth roots by fastforce
qed

lemma complete_runD:
  assumes "complete_run run"
  shows "map fst (rs_nodes run) = map nd_id (gd_nodes (rs_graph run))" "distinct (map nd_id (gd_nodes (rs_graph run)))"
    "node_of run i = Some st \<Longrightarrow> complete_node st" "node_of run i = Some st \<Longrightarrow> ns_id st = i"
    "rs_filesystem_root_authorizations_ref run = None" "rs_filesystem_root_authorizations_omitted run = None"
    "rs_state_projection run = None"
  using assms by (auto simp: complete_run_def)

section \<open>The visible run\<close>

text \<open>The run \<open>hydrateVisibleRunData\<close> makes of the projection \<open>state\<close> of \<open>run\<close>.\<close>

definition shows_run :: "store_env \<Rightarrow> run_state \<Rightarrow> run_state \<Rightarrow> run_state \<Rightarrow> bool" where
  "shows_run env run state v \<longleftrightarrow>
     same_but_nodes (state\<lparr>rs_state_projection := None\<rparr>) v \<and>
     map fst (rs_nodes v) = map nd_id (gd_nodes (rs_graph run)) \<and>
     (\<forall>d \<in> set (gd_nodes (rs_graph run)). \<exists>st p doc. node_of run (nd_id d) = Some st \<and>
        project_node (base_env env) run st = Inr (p, doc) \<and> node_of v (nd_id d) = Some (visible_node env run st p))"

lemma state_fields:
  assumes "project_run_state (base_env env) run = Inr pr" "complete_run run"
  shows "rs_run_id (pr_state pr) = rs_run_id run" "rs_graph (pr_state pr) = rs_graph run"
    "rs_owner_session_id (pr_state pr) = rs_owner_session_id run" "rs_revision (pr_state pr) = rs_revision run"
  using project_run_Inr(3) [OF assms] by auto

lemma hydrate_visible_run_value:
  assumes "hydrate_visible_run_data env objs (pr_state pr) = Inr v" "project_run_state (base_env env) run = Inr pr"
    "complete_run run" "faithful_run env objs run"
  shows "shows_run env run (pr_state pr) v"
    "hydrate_visible_run_data env objs v = Inr v"
proof -
  note C = complete_runD [OF assms(3)] and P = project_run_Inr [OF assms(2,3)] and S = state_fields [OF assms(2,3)]
  let ?s = "(pr_state pr)\<lparr>rs_state_projection := None\<rparr>" let ?f = "hydrate_visible_node env objs"
  obtain roots where h: "update_nodes ?f ?s = Inr v" "read_roots_document env objs v (rs_owner_session_id v) = Inr roots"
    "retains_roots v roots" "run_body_shape v" "revision_shape v" "run_issues (pe_sha env) v = []"
    using assms(1) by (auto simp: hydrate_visible_run_data_def)
  have g: "gd_nodes (rs_graph ?s) = gd_nodes (rs_graph run)" using S(2) by simp
  have dist: "distinct (map nd_id (gd_nodes (rs_graph ?s)))" using C(2) g by simp
  note U = update_nodes_Inr [OF h(1) visible_local dist, unfolded g]
  have node: "\<exists>st p doc. node_of run (nd_id d) = Some st \<and> project_node (base_env env) run st = Inr (p, doc) \<and>
      node_of v (nd_id d) = Some (visible_node env run st p) \<and>
      ?f d ?s (visible_node env run st p) = Inr (visible_node env run st p)"
    if d: "d \<in> set (gd_nodes (rs_graph run))" for d
  proof -
    obtain st p doc where st: "node_of run (nd_id d) = Some st" "project_node (base_env env) run st = Inr (p, doc)"
      "node_of (pr_state pr) (nd_id d) = Some p" using P(2) [OF d] by blast
    obtain q w where w: "node_of ?s (nd_id d) = Some q" "?f d ?s q = Inr w" "node_of v (nd_id d) = Some w" using U(3) [OF d] by blast
    have "q = p" using w(1) st(3) by (simp add: node_of_def)
    then have fp: "?f d ?s p = Inr w" using w(2) by simp
    note V = hydrate_visible_value [OF fp st(2) C(3) [OF st(1)] faithful_runD(1) [OF assms(4) st(1)]]
      and A = hydrate_visible_again [OF fp st(2) C(3) [OF st(1)] faithful_runD(1) [OF assms(4) st(1)]]
    show ?thesis using st(1,2) w(3) V A by auto
  qed
  have keys: "map fst (rs_nodes v) = map nd_id (gd_nodes (rs_graph run))" using U(2) P(1) by simp
  show "shows_run env run (pr_state pr) v"
    unfolding shows_run_def using U(1) keys node by fast
  have local: "?f d v x = ?f d ?s x" for d x using visible_local [of ?s env objs, unfolded node_local_def] U(1) by blast
  have proj: "v\<lparr>rs_state_projection := None\<rparr> = v" using same_but_nodes_selectors(8) [OF U(1)] by (cases v) simp
  have gv: "rs_graph v = rs_graph run" using same_but_nodes_selectors(2) [OF U(1)] S(2) by simp
  obtain v' where v': "update_nodes ?f v = Inr v'"
  proof (rule exE [OF update_nodes_ok [OF visible_local [of v env objs]]])
    show "distinct (map nd_id (gd_nodes (rs_graph v)))" using C(2) gv by simp
    show "\<exists>st st'. node_of v (nd_id d) = Some st \<and> ?f d v st = Inr st'" if "d \<in> set (gd_nodes (rs_graph v))" for d
      using node [OF that [unfolded gv]] unfolding local by blast
  qed
  note U2 = update_nodes_Inr [OF v' visible_local, unfolded gv, OF C(2)]
  have "rs_nodes v' = rs_nodes v"
  proof (rule alist_eqI)
    show "map fst (rs_nodes v') = map fst (rs_nodes v)" by (rule U2(2))
    show "distinct (map fst (rs_nodes v'))" using U2(2) keys C(2) by simp
    fix k assume "k \<in> set (map fst (rs_nodes v'))"
    then obtain d where d: "d \<in> set (gd_nodes (rs_graph run))" "k = nd_id d" using U2(2) keys by auto
    have "node_of v' (nd_id d) = node_of v (nd_id d)" using U2(3) [OF d(1)] node [OF d(1)] local by auto
    then show "map_of (rs_nodes v') k = map_of (rs_nodes v) k" by (simp add: node_of_def d(2))
  qed
  then have "v' = v" using run_eqI [OF U2(1)] by simp
  then show "hydrate_visible_run_data env objs v = Inr v"
    using v' h(2-6) by (simp add: hydrate_visible_run_data_def proj)
qed

section \<open>The complete run\<close>

lemma shows_run_eq:
  assumes "same_but_nodes a b" "map fst (rs_nodes a) = map fst (rs_nodes b)" "distinct (map fst (rs_nodes a))"
    "\<And>i. i \<in> set (map fst (rs_nodes a)) \<Longrightarrow> node_of a i = node_of b i"
  shows "a = b"
proof (rule run_eqI [OF assms(1)])
  show "rs_nodes a = rs_nodes b" by (rule alist_eqI [OF assms(2,3)]) (use assms(4) in \<open>simp add: node_of_def\<close>)
qed

lemma same_but_nodes_sym:
  assumes "same_but_nodes a b"
  shows "same_but_nodes b a"
proof -
  obtain nodes where b: "b = a\<lparr>rs_nodes := nodes\<rparr>" using assms by (auto simp: same_but_nodes_def)
  have "a = b\<lparr>rs_nodes := rs_nodes a\<rparr>" by (simp add: b)
  then show ?thesis unfolding same_but_nodes_def by blast
qed

definition execution_run :: "run_state \<Rightarrow> run_state" where
  "execution_run run = run\<lparr>rs_nodes := map (\<lambda>e. (fst e, execution_node (snd e))) (rs_nodes run)\<rparr>"

lemma map_of_map_values: "map_of (map (\<lambda>e. (fst e, f (snd e))) xs) i = map_option f (map_of xs i)"
  by (induction xs) auto

lemma node_of_execution_run: "node_of (execution_run run) i = map_option execution_node (node_of run i)"
  by (simp add: node_of_def execution_run_def map_of_map_values)

lemma execution_run_id:
  assumes "list_all hydrated_node (node_values run)"
  shows "execution_run run = run"
proof -
  have "map (\<lambda>e. (fst e, execution_node (snd e))) (rs_nodes run) = rs_nodes run"
    using assms by (intro map_idI) (auto simp: node_values_def list_all_iff execution_node_id)
  then show ?thesis by (simp add: execution_run_def)
qed

text \<open>The history of root authorizations, read back.\<close>

lemma read_roots_value:
  assumes "read_roots_document env objs v owner = Inr roots"
    "rs_filesystem_root_authorizations_ref v = (if archives_roots run
      then Some (root_authorization_reference (base_env env) (rs_run_id run) (roots_of run)) else None)"
    "archives_roots run \<Longrightarrow> faithful env objs (Roots_document (roots_of run))"
  shows "roots = (if archives_roots run then Some (roots_of run) else None)"
proof (cases "archives_roots run")
  case True
  let ?r = "root_authorization_reference (base_env env) (rs_run_id run) (roots_of run)"
  have ref: "rs_filesystem_root_authorizations_ref v = Some ?r" using assms(2) True by simp
  obtain doc where doc: "read_and_verify env objs (rs_run_id v) (base_ref ?r) = Inr doc"
    using assms(1) ref by (auto simp: read_roots_document_def)
  have "doc = Roots_document (roots_of run)"
    by (rule read_value [OF doc _ assms(3) [OF True]]) (simp add: root_authorization_reference_def Let_def)
  then show ?thesis using assms(1) ref doc True by (auto simp: read_roots_document_def)
qed (use assms in \<open>simp add: read_roots_document_def\<close>)

lemma restored_roots:
  assumes "same_but_nodes ((pr_state pr)\<lparr>rs_state_projection := None\<rparr>) w" "project_run_state (base_env env) run = Inr pr"
    "complete_run run" "roots = (if archives_roots run then Some (roots_of run) else None)"
  shows "same_but_nodes run ((restore_roots roots w)\<lparr>rs_state_projection := None\<rparr>)"
proof -
  obtain nodes0 proj omitted where s: "pr_state pr = run\<lparr>rs_nodes := nodes0,
       rs_filesystem_root_authorizations := map_option (take_last MAX_PROJECTED_ROOT_AUTHORIZATIONS) (rs_filesystem_root_authorizations run),
       rs_filesystem_root_authorizations_ref := (if archives_roots run
          then Some (root_authorization_reference (base_env env) (rs_run_id run) (roots_of run)) else None),
       rs_filesystem_root_authorizations_omitted := omitted, rs_state_projection := Some proj\<rparr>"
    "\<not> archives_roots run \<longrightarrow> omitted = None"
    using project_run_Inr(3) [OF assms(2,3)] by blast
  obtain nodes where w: "w = (pr_state pr)\<lparr>rs_state_projection := None, rs_nodes := nodes\<rparr>"
    using assms(1) by (auto simp: same_but_nodes_def)
  note C = complete_runD(5-7) [OF assms(3)]
  show ?thesis
  proof (cases "archives_roots run")
    case True
    then have as: "rs_filesystem_root_authorizations run = Some (rd_authorizations (roots_of run))"
      by (cases "rs_filesystem_root_authorizations run") (simp_all add: archives_roots_def authorizations_of_def roots_of_def)
    have "(restore_roots (Some d) w)\<lparr>rs_state_projection := None\<rparr> = run\<lparr>rs_nodes := nodes\<rparr>"
      if "rs_filesystem_root_authorizations run = Some (rd_authorizations d)" for d
      using C that unfolding w s(1) by (cases run) (simp add: restore_roots_def)
    from this [OF as] have "(restore_roots roots w)\<lparr>rs_state_projection := None\<rparr> = run\<lparr>rs_nodes := nodes\<rparr>"
      using True assms(4) by simp
    then show ?thesis by (auto simp: same_but_nodes_def)
  next
    case False
    have "map_option (take_last MAX_PROJECTED_ROOT_AUTHORIZATIONS) (rs_filesystem_root_authorizations run) =
        rs_filesystem_root_authorizations run"
      using False by (cases "rs_filesystem_root_authorizations run") (simp_all add: archives_roots_def authorizations_of_def)
    then have "pr_state pr = run\<lparr>rs_nodes := nodes0, rs_filesystem_root_authorizations := rs_filesystem_root_authorizations run,
        rs_filesystem_root_authorizations_ref := None, rs_filesystem_root_authorizations_omitted := None,
        rs_state_projection := Some proj\<rparr>" using s False by simp
    then have "w\<lparr>rs_state_projection := None\<rparr> = run\<lparr>rs_nodes := nodes\<rparr>" using C w by (cases run) simp
    moreover have "roots = None" using False assms(4) by simp
    ultimately have "(restore_roots roots w)\<lparr>rs_state_projection := None\<rparr> = run\<lparr>rs_nodes := nodes\<rparr>"
      by (simp add: restore_roots_def)
    then show ?thesis by (auto simp: same_but_nodes_def)
  qed
qed

text \<open>The run after the archives were read: every attempt with its references.\<close>

definition full_run :: "store_env \<Rightarrow> run_state \<Rightarrow> run_state \<Rightarrow> bool" where
  "full_run env run w \<longleftrightarrow>
     map fst (rs_nodes w) = map nd_id (gd_nodes (rs_graph run)) \<and>
     (\<forall>d \<in> set (gd_nodes (rs_graph run)). \<exists>st p doc. node_of run (nd_id d) = Some st \<and>
        project_node (base_env env) run st = Inr (p, doc) \<and> node_of w (nd_id d) = Some (full_node env run st p))"

lemma hydrate_full_table:
  assumes "update_nodes (hydrate_full_node env objs) v = Inr w" "shows_run env run state v"
    "rs_graph v = rs_graph run" "complete_run run" "faithful_run env objs run"
  shows "full_run env run w" "same_but_nodes v w"
proof -
  note C = complete_runD [OF assms(4)]
  note U = update_nodes_Inr [OF assms(1) full_local, unfolded assms(3), OF C(2)]
  show "same_but_nodes v w" by (rule U(1))
  have "\<exists>st p doc. node_of run (nd_id d) = Some st \<and> project_node (base_env env) run st = Inr (p, doc) \<and>
      node_of w (nd_id d) = Some (full_node env run st p)" if d: "d \<in> set (gd_nodes (rs_graph run))" for d
  proof -
    obtain st p doc where st: "node_of run (nd_id d) = Some st" "project_node (base_env env) run st = Inr (p, doc)"
      "node_of v (nd_id d) = Some (visible_node env run st p)" using assms(2) d unfolding shows_run_def by blast
    obtain q f where f: "node_of v (nd_id d) = Some q" "hydrate_full_node env objs d v q = Inr f" "node_of w (nd_id d) = Some f"
      using U(3) [OF d] by blast
    have "hydrate_full_node env objs d v (visible_node env run st p) = Inr f" using st(3) f(1,2) by simp
    from hydrate_full_value [OF this st(2) C(3) [OF st(1)] faithful_runD(1) [OF assms(5) st(1)]]
    show ?thesis using st(1,2) f(3) by blast
  qed
  moreover have "map fst (rs_nodes w) = map nd_id (gd_nodes (rs_graph run))"
    using U(2) assms(2) by (simp add: shows_run_def)
  ultimately show "full_run env run w" unfolding full_run_def by blast
qed

lemma hydrate_fully_value:
  assumes "hydrate_run_fully env objs (pr_state pr) = Inr full" "hydrate_visible_run_data env objs (pr_state pr) = Inr v"
    "project_run_state (base_env env) run = Inr pr" "complete_run run" "faithful_run env objs run"
  shows "full_run env run full" "same_but_nodes run full" "hydrate_run_fully env objs v = Inr full"
proof -
  note V = hydrate_visible_run_value [OF assms(2-5)]
  obtain w roots where h: "update_nodes (hydrate_full_node env objs) v = Inr w"
    "read_roots_document env objs w (rs_owner_session_id w) = Inr roots"
    "full = (restore_roots roots w)\<lparr>rs_state_projection := None\<rparr>"
    using assms(1,2) by (auto simp: hydrate_run_fully_def)
  have sv: "same_but_nodes ((pr_state pr)\<lparr>rs_state_projection := None\<rparr>) v" using V(1) by (simp add: shows_run_def)
  have g: "rs_graph v = rs_graph run" using same_but_nodes_selectors(2) [OF sv] state_fields(2) [OF assms(3,4)] by simp
  note W = hydrate_full_table [OF h(1) V(1) g assms(4,5)]
  have sw: "same_but_nodes ((pr_state pr)\<lparr>rs_state_projection := None\<rparr>) w" by (rule same_but_nodes_trans [OF sv W(2)])
  have roots: "roots = (if archives_roots run then Some (roots_of run) else None)"
  proof (rule read_roots_value [OF h(2) _ faithful_runD(2) [OF assms(5)]])
    show "rs_filesystem_root_authorizations_ref w = (if archives_roots run
        then Some (root_authorization_reference (base_env env) (rs_run_id run) (roots_of run)) else None)"
      using same_but_nodes_selectors(6) [OF sw] project_run_Inr(3) [OF assms(3,4)] by auto
  qed
  have "rs_nodes full = rs_nodes w" by (simp add: h(3) restore_roots_def split: option.split)
  then show "full_run env run full" using W(1) by (simp add: full_run_def node_of_def)
  show "same_but_nodes run full" unfolding h(3) by (rule restored_roots [OF sw assms(3,4) roots])
  show "hydrate_run_fully env objs v = Inr full" using assms(1,2) V(2) by (simp add: hydrate_run_fully_def)
qed

lemma hydrate_execution_value:
  assumes "hydrate_run_fully env objs state = Inr full" "full_run env run full" "same_but_nodes run full" "complete_run run"
    "parse_runtime env (execution_run run) = Inr x"
  shows "hydrate_run_for_execution env objs state = Inr (execution_run run)"
proof -
  note C = complete_runD [OF assms(4)]
  have g: "rs_graph full = rs_graph run" by (rule same_but_nodes_selectors(2) [OF assms(3)])
  let ?drop = "\<lambda>(d::node_def) (r::run_state) st. Inr (drop_references st) :: store_error + node_state"
  obtain x where x: "update_nodes ?drop full = Inr x"
  proof (rule exE [OF update_nodes_ok [OF drop_local]])
    show "distinct (map nd_id (gd_nodes (rs_graph full)))" using C(2) g by simp
    show "\<exists>st st'. node_of full (nd_id d) = Some st \<and> ?drop d full st = Inr st'"
      if "d \<in> set (gd_nodes (rs_graph full))" for d
      using assms(2) that unfolding full_run_def g by blast
  qed
  note U = update_nodes_Inr [OF x drop_local, unfolded g, OF C(2)]
  have keys: "map fst (rs_nodes x) = map nd_id (gd_nodes (rs_graph run))" using U(2) assms(2) by (simp add: full_run_def)
  have ekeys: "map fst (rs_nodes (execution_run run)) = map fst (rs_nodes run)" by (simp add: execution_run_def)
  have "x = execution_run run"
  proof (rule shows_run_eq)
    show "same_but_nodes x (execution_run run)"
    proof (rule same_but_nodes_trans)
      show "same_but_nodes x run"
        by (rule same_but_nodes_sym [OF same_but_nodes_trans [OF assms(3) U(1)]])
      show "same_but_nodes run (execution_run run)" by (auto simp: same_but_nodes_def execution_run_def)
    qed
    show "map fst (rs_nodes x) = map fst (rs_nodes (execution_run run))" using keys C(1) ekeys by simp
    show "distinct (map fst (rs_nodes x))" using keys C(2) by simp
    fix i assume "i \<in> set (map fst (rs_nodes x))"
    then obtain d where d: "d \<in> set (gd_nodes (rs_graph run))" "i = nd_id d" using keys by auto
    obtain st p doc where st: "node_of run (nd_id d) = Some st" "node_of full (nd_id d) = Some (full_node env run st p)"
      using assms(2) d(1) unfolding full_run_def by blast
    then have "node_of x (nd_id d) = Some (execution_node st)" using U(3) [OF d(1)] drop_references_full by auto
    then show "node_of x i = node_of (execution_run run) i" using st(1) d(2) by (simp add: node_of_execution_run)
  qed
  moreover have "(execution_run run)\<lparr>rs_state_projection := None\<rparr> = execution_run run"
    using C(7) by (cases run) (simp add: execution_run_def)
  ultimately show ?thesis using assms(1,5) x by (auto simp: hydrate_run_for_execution_def)
qed

section \<open>What the schema reads of a run\<close>

definition same_table :: "run_state \<Rightarrow> run_state \<Rightarrow> bool" where
  "same_table run r \<longleftrightarrow> same_context run r \<and> rs_nodes r = rs_nodes run \<and> rs_global_attempts r = rs_global_attempts run"

lemma table_issues_local:
  assumes "same_table run r"
  shows "run_table_issues sha r = run_table_issues sha run"
proof -
  have ids: "rs_run_id r = rs_run_id run" "rs_graph r = rs_graph run" "rs_mode r = rs_mode run"
    "rs_nodes r = rs_nodes run" "rs_global_attempts r = rs_global_attempts run"
    using assms by (simp_all add: same_table_def same_context_def)
  have ctx: "attempt_context_of r = attempt_context_of run" by (intro ext) (simp only: ids attempt_context_of_def)
  have n: "node_of r = node_of run" by (intro ext) (simp only: node_of_def ids)
  have s: "node_status_of r = node_status_of run" by (intro ext) (simp only: node_status_of_def n)
  have b: "blocked_by r = blocked_by run" by (intro ext) (simp only: blocked_by_def s)
  have 1: "run_attempt_reference_issues r = run_attempt_reference_issues run"
    by (intro ext) (simp only: run_attempt_reference_issues_def ids)
  have 2: "run_attempt_output_issues r = run_attempt_output_issues run"
    by (intro ext) (simp only: run_attempt_output_issues_def ids)
  have 3: "run_attempt_done_issues r = run_attempt_done_issues run"
    by (intro ext) (simp only: run_attempt_done_issues_def ids)
  have 4: "run_attempt_issues sha r = run_attempt_issues sha run"
    by (intro ext) (simp only: run_attempt_issues_def ctx 1 2 3)
  have 5: "node_history_issues sha r = node_history_issues sha run"
    by (intro ext) (simp only: node_history_issues_def ids 4)
  have 6: "node_output_issues r = node_output_issues run"
    by (intro ext) (simp only: node_output_issues_def ids)
  have 7: "node_status_issues r = node_status_issues run"
    by (intro ext) (simp only: node_status_issues_def s b)
  have 8: "node_entry_issues sha r = node_entry_issues sha run"
    by (intro ext) (simp only: node_entry_issues_def 5 6 7)
  have "counted_attempts r = counted_attempts run" by (simp only: counted_attempts_def ids)
  then show ?thesis by (simp only: run_table_issues_def ids n 8)
qed

text \<open>A run between two accepted ones: the table of the one, the root authorizations of the other.\<close>

lemma accepted_between:
  assumes "run_body_shape v" "run_issues sha v = []" "same_but_nodes v w" "rs_state_projection w = None"
    "run_body_shape (restore_roots roots w)" "run_issues sha (restore_roots roots w) = []"
  shows "run_body_shape w" "run_issues sha w = []"
proof -
  obtain nodes where w: "w = v\<lparr>rs_nodes := nodes\<rparr>" using assms(3) by (auto simp: same_but_nodes_def)
  obtain a b c where f: "restore_roots roots w = w\<lparr>rs_filesystem_root_authorizations := a,
      rs_filesystem_root_authorizations_ref := b, rs_filesystem_root_authorizations_omitted := c\<rparr>"
  proof (cases roots)
    case None
    then show ?thesis using that [of "rs_filesystem_root_authorizations_omitted w" "rs_filesystem_root_authorizations_ref w"
      "rs_filesystem_root_authorizations w"] by (simp add: restore_roots_def)
  next
    case (Some d)
    then show ?thesis using that [of None None "Some (rd_authorizations d)"] by (simp add: restore_roots_def)
  qed
  let ?f = "w\<lparr>rs_filesystem_root_authorizations := a,
      rs_filesystem_root_authorizations_ref := b, rs_filesystem_root_authorizations_omitted := c\<rparr>"
  have F: "run_body_shape ?f" "run_issues sha ?f = []" using assms(5,6) f by simp_all
  show "run_body_shape w" using assms(1) F(1) unfolding run_body_shape_def w by simp
  have "run_table_issues sha ?f = run_table_issues sha w"
    by (rule table_issues_local) (simp add: same_table_def same_context_def)
  moreover have "run_status_issues ?f = run_status_issues w"
    by (simp add: run_status_issues_def any_failed_def all_terminal_def node_values_def node_status_of_def node_of_def)
  moreover have "run_ownership_issues ?f = run_ownership_issues w" by (simp add: run_ownership_issues_def)
  moreover have "run_authorization_issues v = run_authorization_issues w"
    by (simp only: run_authorization_issues_def same_but_nodes_selectors [OF assms(3)])
  moreover have "run_projection_issues w = []" using assms(4) by (simp add: run_projection_issues_def)
  ultimately show "run_issues sha w = []" using F(2) assms(2) by (simp add: run_issues_def)
qed

section \<open>Loading\<close>

lemma full_is_visible:
  assumes "\<not> archives st" "project_node (base_env env) run st = Inr (p, doc)" "complete_node st"
  shows "full_node env run st p = visible_node env run st p"
proof -
  have "ns_attempt_history_ref p = None" using project_node_Inr(7) [OF assms(2,3)] assms(1) by simp
  then show ?thesis using assms(1) by (cases st) (simp add: full_node_def visible_node_def archives_def)
qed

lemma take_last_suffix: "length vs = length (take_last n (us @ vs)) \<Longrightarrow> vs = take_last n (us @ vs)"
  by (simp add: take_last_def)

lemma smap_length: "smap f xs = Inr ys \<Longrightarrow> length ys = length xs"
  by (induction xs arbitrary: ys) auto

lemma verify_archived_ok:
  assumes "hydrate_visible_run_data env objs (pr_state pr) = Inr v" "hydrate_run_fully env objs (pr_state pr) = Inr full"
    "project_run_state (base_env env) run = Inr pr" "complete_run run" "faithful_run env objs run"
  shows "\<exists>x. verify_archived env objs (pr_state pr) v = Inr x"
proof -
  note V = hydrate_visible_run_value [OF assms(1,3-5)] and C = complete_runD [OF assms(4)]
  note S = state_fields [OF assms(3,4)]
  let ?s = "pr_state pr"
  have sv: "same_but_nodes (?s\<lparr>rs_state_projection := None\<rparr>) v" using V(1) by (simp add: shows_run_def)
  have g: "rs_graph v = rs_graph run" using same_but_nodes_selectors(2) [OF sv] S(2) by simp
  have ctx: "same_context v ?s" using same_but_nodes_selectors(1-3) [OF sv] by (simp add: same_context_def)
  have owner: "rs_owner_session_id ?s = rs_owner_session_id v" using same_but_nodes_selectors(4) [OF sv] by simp
  obtain w roots where w: "update_nodes (hydrate_full_node env objs) v = Inr w"
    "full = (restore_roots roots w)\<lparr>rs_state_projection := None\<rparr>"
    "run_body_shape full" "revision_shape full" "run_issues (pe_sha env) full = []"
    using assms(1,2) by (auto simp: hydrate_run_fully_def)
  note W = hydrate_full_table [OF w(1) V(1) g assms(4,5)]
  note U = update_nodes_Inr [OF w(1) full_local, unfolded g, OF C(2)]
  have node: "\<exists>st. node_of v (nd_id d) = Some st \<and> with_archive env objs ?s d v st = Inr (the (node_of w (nd_id d)))"
    if d: "d \<in> set (gd_nodes (rs_graph run))" for d
  proof -
    obtain st p doc where st: "node_of run (nd_id d) = Some st" "project_node (base_env env) run st = Inr (p, doc)"
      "node_of v (nd_id d) = Some (visible_node env run st p)" using V(1) d unfolding shows_run_def by blast
    note PN = project_node_Inr [OF st(2) C(3) [OF st(1)]]
    have p: "node_of ?s (nd_id d) = Some p" using project_run_Inr(2) [OF assms(3,4) d] st(1,2) by auto
    obtain f where f: "hydrate_full_node env objs d v (visible_node env run st p) = Inr f" "node_of w (nd_id d) = Some f"
      using U(3) [OF d] st(3) by auto
    have fv: "f = full_node env run st p"
      by (rule hydrate_full_value [OF f(1) st(2) C(3) [OF st(1)] faithful_runD(1) [OF assms(5) st(1)]])
    show ?thesis
    proof (cases "archives st")
      case False
      then have "ns_attempt_history_ref p = None" using PN(7) by simp
      then show ?thesis using st(3) p f(2) fv full_is_visible [OF False st(2) C(3) [OF st(1)]]
        by (simp add: with_archive_def)
    next
      case True
      obtain archived as where h: "read_attempt_history env objs v (nd_id d) (visible_node env run st p) (rs_owner_session_id v) = Inr archived"
        "smap (hydrate_attempt_data env objs v (nd_id d) (ns_agent st) True) (archived @ ns_attempts (visible_node env run st p)) = Inr as"
        "f = (visible_node env run st p)\<lparr>ns_attempts := as, ns_attempt_history_ref := None\<rparr>"
        using f(1) unfolding hydrate_full_node_def sbind_Inr sum.inject visible_node_fields(2) by metis
      obtain us vs where uv: "smap (hydrate_attempt_data env objs v (nd_id d) (ns_agent st) True) archived = Inr us"
        "smap (hydrate_attempt_data env objs v (nd_id d) (ns_agent st) True) (ns_attempts (visible_node env run st p)) = Inr vs"
        "as = us @ vs" using h(2) unfolding smap_append sbind_Inr sum.inject by metis
      let ?h = "\<lambda>a. hydrated_form a (project_attempt (base_env env) (rs_run_id run) (ns_id st) a)"
      let ?n = MAX_INLINE_ATTEMPTS_PER_NODE
      have vs: "vs = ns_attempts (visible_node env run st p)"
      proof -
        have "ns_attempts f = us @ vs" using h(3) uv(3) by simp
        moreover have "ns_attempts f = map ?h (ns_attempts st)" unfolding fv by (simp add: full_node_def)
        ultimately have as: "us @ vs = map ?h (ns_attempts st)" by simp
        have "length vs = length (take_last ?n (map ?h (ns_attempts st)))"
          using smap_length [OF uv(2)] by (simp add: take_last_def)
        then have "vs = take_last ?n (us @ vs)" unfolding as [symmetric] by (rule take_last_suffix)
        then show ?thesis unfolding as by (simp add: map_take_last)
      qed
      have "ns_attempt_history_ref p \<noteq> None" using PN(7) True by simp
      moreover have "read_attempt_history env objs ?s (nd_id d) p (rs_owner_session_id ?s) = Inr archived"
        using h(1) by (simp add: read_history_local [OF ctx] owner read_attempt_history_def)
      moreover have "smap (hydrate_attempt_data env objs ?s (nd_id d) (ns_agent p) True) archived = Inr us"
        using uv(1) PN(2) by (simp add: hydrate_attempt_local [OF ctx])
      ultimately show ?thesis using st(3) p f(2) h(3) uv(3) vs by (auto simp: with_archive_def)
    qed
  qed
  obtain x where x: "update_nodes (with_archive env objs ?s) v = Inr x"
  proof (rule exE [OF update_nodes_ok [OF archive_local]])
    show "distinct (map nd_id (gd_nodes (rs_graph v)))" using C(2) g by simp
    show "\<exists>st st'. node_of v (nd_id d) = Some st \<and> with_archive env objs ?s d v st = Inr st'"
      if "d \<in> set (gd_nodes (rs_graph v))" for d
      using node [OF that [unfolded g]] by blast
  qed
  note X = update_nodes_Inr [OF x archive_local, unfolded g, OF C(2)]
  have keys: "map fst (rs_nodes v) = map nd_id (gd_nodes (rs_graph run))" using V(1) by (simp add: shows_run_def)
  have "x = w"
  proof (rule shows_run_eq)
    show "same_but_nodes x w" by (rule same_but_nodes_trans [OF same_but_nodes_sym [OF X(1)] U(1)])
    show "map fst (rs_nodes x) = map fst (rs_nodes w)" using X(2) U(2) by simp
    show "distinct (map fst (rs_nodes x))" using X(2) keys C(2) by simp
    fix i assume "i \<in> set (map fst (rs_nodes x))"
    then obtain d where d: "d \<in> set (gd_nodes (rs_graph run))" "i = nd_id d" using X(2) keys by auto
    obtain y where "node_of w (nd_id d) = Some y" using U(3) [OF d(1)] by blast
    then show "node_of x i = node_of w i" using X(3) [OF d(1)] node [OF d(1)] d(2) by auto
  qed
  moreover have "w\<lparr>rs_state_projection := None\<rparr> = w"
    using same_but_nodes_selectors(8) [OF sv] same_but_nodes_selectors(8) [OF W(2)] by (cases w) simp
  moreover have "run_body_shape w \<and> revision_shape w \<and> run_issues (pe_sha env) w = []"
  proof -
    have acc: "run_body_shape v" "revision_shape v" "run_issues (pe_sha env) v = []"
      using assms(1) by (auto simp: hydrate_visible_run_data_def)
    have none: "rs_state_projection w = None"
      using same_but_nodes_selectors(8) [OF sv] same_but_nodes_selectors(8) [OF W(2)] by simp
    have full: "full = restore_roots roots w"
      using w(2) none by (cases w) (simp add: restore_roots_def split: option.split)
    note A = accepted_between [OF acc(1,3) W(2) none w(3) [unfolded full] w(5) [unfolded full]]
    have "revision_shape w" using acc(2) same_but_nodes_selectors(10) [OF W(2)] by (simp add: revision_shape_def)
    then show ?thesis using A by blast
  qed
  ultimately show ?thesis using x by (simp add: verify_archived_def)
qed

end
