(* ===== verification/Revisions.thy ===== *)
theory Revisions
  imports Results
begin

text \<open>
  The interface of a store of numbered generations: a save names the generation it starts from and is
  refused when the stored one is another. The laws are those of one save; the lemmas follow for any
  sequence of saves by any number of writers.
\<close>

text \<open>Saves one after the other, whatever each of them answers.\<close>

fun after_saves :: "('w \<Rightarrow> 'd \<Rightarrow> 'd \<times> ('e + 'r)) \<Rightarrow> 'w list \<Rightarrow> 'd \<Rightarrow> 'd" where
  "after_saves save [] d = d"
| "after_saves save (w # ws) d = after_saves save ws (fst (save w d))"

lemma after_saves_append: "after_saves save (us @ ws) d = after_saves save ws (after_saves save us d)"
  by (induction us arbitrary: d) auto

locale revisioned_store =
  fixes save :: "'w \<Rightarrow> 'd \<Rightarrow> 'd \<times> ('e + 'r)"
    and revision :: "'k \<Rightarrow> 'd \<Rightarrow> nat option"
    and target :: "'w \<Rightarrow> 'k"
    and base :: "'w \<Rightarrow> nat"
  assumes refused: "snd (save w d) = Inl x \<Longrightarrow> revision k (fst (save w d)) = revision k d"
    and committed: "snd (save w d) = Inr v \<Longrightarrow>
      revision (target w) d = Some (base w) \<and> revision (target w) (fst (save w d)) = Some (Suc (base w))"
    and elsewhere: "k \<noteq> target w \<Longrightarrow> revision k (fst (save w d)) = revision k d"
begin

lemma save_advances:
  assumes "revision k d = Some n"
  shows "\<exists>m. revision k (fst (save w d)) = Some m \<and> n \<le> m"
proof (cases "snd (save w d)")
  case (Inl x)
  then show ?thesis using refused[OF Inl, of k] assms by simp
next
  case (Inr v)
  then show ?thesis using committed[OF Inr] elsewhere[of k w d] assms by (cases "k = target w") auto
qed

text \<open>A generation is never taken back.\<close>

lemma saves_advance:
  "revision k d = Some n \<Longrightarrow> \<exists>m. revision k (after_saves save ws d) = Some m \<and> n \<le> m"
proof (induction ws arbitrary: d n)
  case (Cons w ws)
  obtain m where m: "revision k (fst (save w d)) = Some m" "n \<le> m" using save_advances[OF Cons(2)] by blast
  then show ?case using Cons(1)[OF m(1)] order_trans by fastforce
qed simp

text \<open>After a save, no save that starts from its base or from before is ever accepted again.\<close>

lemma no_lost_update:
  assumes "snd (save w d) = Inr v" "target w' = target w" "base w' \<le> base w"
  shows "\<exists>x. snd (save w' (after_saves save ws (fst (save w d)))) = Inl x"
proof (rule ccontr)
  let ?d = "after_saves save ws (fst (save w d))"
  assume "\<nexists>x. snd (save w' ?d) = Inl x"
  then obtain v' where "snd (save w' ?d) = Inr v'" by (cases "snd (save w' ?d)") auto
  then have "revision (target w) ?d = Some (base w')" using committed assms(2) by metis
  moreover obtain m where "revision (target w) ?d = Some m" "Suc (base w) \<le> m"
    using saves_advance committed[OF assms(1)] by metis
  ultimately show False using assms(3) by simp
qed

text \<open>So two accepted saves of one target in a history start from different generations, in order.\<close>

lemma accepted_bases_increase:
  assumes "snd (save w d) = Inr v" "snd (save w' (after_saves save ws (fst (save w d)))) = Inr v'" "target w' = target w"
  shows "base w < base w'"
  using no_lost_update[OF assms(1,3), of ws] assms(2) by (cases "base w' \<le> base w") auto

end

end
