(* ===== verification/Store_Properties.thy ===== *)
theory Store_Properties
  imports Saved_Runs Run_Steps Revisions
begin

text \<open>
  What the store promises: a saved run is loaded unchanged, published documents are never
  rewritten, a save that fails leaves the manifest alone and a stale save is refused.
\<close>

section \<open>The materialisation of a hydrated run\<close>

lemma attempt_detail_complete: "is_attempt_detail a \<Longrightarrow> attempt_has_complete_detail a \<and> na_output_ref a = None"
  by (simp add: is_attempt_detail_def attempt_has_complete_detail_def)

lemma prepare_node_hydrated:
  assumes "prepare_node env objs owner d run st = Inr st'" "hydrated_node st"
  shows "st' = st"
proof -
  have "smap (rehydrate_incomplete env objs run (nd_id d) (ns_agent st)) (ns_attempts st) = Inr (map (\<lambda>a. a) (ns_attempts st))"
  proof (rule smap_eq)
    fix a assume "a \<in> set (ns_attempts st)"
    then have "is_attempt_detail a" using assms(2) by (simp add: hydrated_node_def list_all_iff)
    then show "rehydrate_incomplete env objs run (nd_id d) (ns_agent st) a = Inr a"
      using attempt_detail_complete by (simp add: rehydrate_incomplete_def)
  qed
  then have "st' = st\<lparr>ns_attempts := ns_attempts st, ns_attempt_history_ref := None\<rparr>"
    using assms by (simp add: prepare_node_def read_attempt_history_def hydrated_node_def materialize_output_def
        materialize_failures_def)
  then show ?thesis using assms(2) by (cases st) (simp add: hydrated_node_def)
qed

lemma prepare_local: "node_local run (prepare_node env objs owner)"
proof -
  have "prepare_node env objs owner d r st = prepare_node env objs owner d run st" if "same_but_nodes run r" for d r st
  proof -
    note h = hydrate_attempt_local [OF same_but_nodes_context [OF that]]
    have "rehydrate_incomplete env objs r = rehydrate_incomplete env objs run"
      by (intro ext) (simp only: rehydrate_incomplete_def h)
    then show ?thesis
      by (simp only: prepare_node_def h read_history_local [OF same_but_nodes_context [OF that]] same_but_nodes_selectors [OF that])
  qed
  then show ?thesis unfolding node_local_def by blast
qed

lemma prepare_hydrated:
  assumes "prepare_run_for_immutable_commit env objs owner run = Inr prepared" "hydrated_run run"
    "distinct (map fst (rs_nodes run))" "distinct (map nd_id (gd_nodes (rs_graph run)))"
    "set (map fst (rs_nodes run)) \<subseteq> set (map nd_id (gd_nodes (rs_graph run)))"
  shows "prepared = run"
proof -
  obtain run1 where u: "update_nodes (prepare_node env objs owner) run = Inr run1"
    "sbind (prepare_roots env objs owner run1) (\<lambda>run2. parse_runtime env (run2\<lparr>rs_state_projection := None\<rparr>)) = Inr prepared"
    using assms(1) unfolding prepare_run_for_immutable_commit_def sbind_Inr by blast
  note U = update_nodes_Inr [OF u(1) prepare_local assms(4)]
  have "run = run1"
  proof (rule shows_run_eq [OF U(1)])
    show "map fst (rs_nodes run) = map fst (rs_nodes run1)" using U(2) by simp
    show "distinct (map fst (rs_nodes run))" by (rule assms(3))
    fix i assume "i \<in> set (map fst (rs_nodes run))"
    then obtain d where d: "d \<in> set (gd_nodes (rs_graph run))" "i = nd_id d" using assms(5) by auto
    obtain st st' where st: "node_of run (nd_id d) = Some st" "prepare_node env objs owner d run st = Inr st'"
      "node_of run1 (nd_id d) = Some st'" using U(3) [OF d(1)] by blast
    then show "node_of run i = node_of run1 i"
      using prepare_node_hydrated [OF st(2) hydrated_run_node [OF assms(2) st(1)]] d(2) by simp
  qed
  moreover have "run\<lparr>rs_state_projection := None\<rparr> = run" using assms(2) by (cases run) (simp add: hydrated_run_def)
  ultimately show ?thesis using u(2) assms(2) by (auto simp: prepare_roots_def hydrated_run_def)
qed

section \<open>The parts of a save\<close>

lemma next_candidate_fields [simp]:
  "rs_run_id (next_candidate now run) = rs_run_id run" "rs_graph (next_candidate now run) = rs_graph run"
  "rs_nodes (next_candidate now run) = rs_nodes run" "rs_revision (next_candidate now run) = rs_revision run + 1"
  "node_values (next_candidate now run) = node_values run" "node_of (next_candidate now run) i = node_of run i"
  "rs_owner_session_id (next_candidate now run) = rs_owner_session_id run"
  by (simp_all add: next_candidate_def node_values_def node_of_def)

lemma hydrated_next_candidate: "hydrated_run run \<Longrightarrow> hydrated_run (next_candidate now run)"
  by (simp add: hydrated_run_def) (simp add: next_candidate_def)

lemma plan_save_Inr:
  assumes "plan_save env now disk run = Inr (prepared, p)"
  obtains current where "parse_runtime env run = Inr run"
    "parse_runtime env (next_candidate now run) = Inr (next_candidate now run)"
    "read_projected env disk (rs_run_id run) = Inr current" "rs_revision current = rs_revision run"
    "prepare_run_for_immutable_commit env (dk_objects disk) (rs_owner_session_id current) (next_candidate now run) = Inr prepared"
    "project_run_state (base_env env) prepared = Inr p"
    "parse_run_state env (pr_state p) = Inr (pr_state p)" "se_metadata_contained env (pr_state p)"
  using assms that by (auto simp: plan_save_def parse_run_state_def)

lemma read_projected_Inr:
  assumes "read_projected env disk i = Inr current"
  shows "dk_progress disk i = Some current" "rs_run_id current = i" "parse_run_state env current = Inr current"
    "se_metadata_contained env current"
  using assms by (auto simp: read_projected_def parse_run_state_def split: option.splits)

lemma read_projectedI:
  assumes "dk_progress disk i = Some s" "rs_run_id s = i" "parse_run_state env s = Inr s" "se_metadata_contained env s"
  shows "read_projected env disk i = Inr s"
  using assms by (simp add: read_projected_def)

lemma persist_run_Inr:
  assumes "persist_run env now disk run = (disk', Inr visible)"
  obtains prepared p objs where "plan_save env now disk run = Inr (prepared, p)"
    "write_entries env (rs_run_id prepared) (expected_derived prepared p) (dk_objects disk) = (objs, None)"
    "verify_written env objs p = Inr visible"
    "disk' = disk\<lparr>dk_objects := objs, dk_progress := (dk_progress disk)(rs_run_id (pr_state p) \<mapsto> pr_state p)\<rparr>"
  using assms that by (auto simp: persist_run_def split: sum.splits prod.splits option.splits)

lemma accepted_ids:
  assumes "parse_runtime env run = Inr run" "hydrated_run run" "node_of run i = Some st"
    "map fst (rs_nodes run) = map nd_id (gd_nodes (rs_graph run))"
  shows "ns_id st = i"
proof -
  have "run_fine run" using accepted_run_fine assms(1,2) by auto
  moreover have "i \<in> set (map fst (rs_nodes run))" using node_of_SomeD [OF assms(3)] by force
  then obtain d where "d \<in> set (gd_nodes (rs_graph run))" "i = nd_id d" unfolding assms(4) by auto
  ultimately show ?thesis using assms(3) by (simp add: run_fine_def table_fine_def node_fine_def)
qed

lemma hydrated_complete_node: "hydrated_node st \<Longrightarrow> complete_node st"
  using attempt_detail_complete by (auto simp: hydrated_node_def complete_node_def complete_attempt_def list_all_iff)

lemma hydrated_complete_run:
  assumes "parse_runtime env run = Inr run" "hydrated_run run"
    "map fst (rs_nodes run) = map nd_id (gd_nodes (rs_graph run))"
  shows "complete_run run"
proof -
  have "distinct (map fst (rs_nodes run))" using assms(1) by (simp add: run_body_shape_def)
  then show ?thesis unfolding complete_run_def
    using assms(2,3) accepted_ids [OF assms(1,2) _ assms(3)] hydrated_complete_node hydrated_run_node
    by (auto simp: hydrated_run_def)
qed

text \<open>C29. A run that is in its hydrated form and whose save succeeds is read back by an
execution exactly as the save committed it: the same run with the next revision and the time of
the save. Every output, attempt, failure list and root authorization that the projection replaced
by a reference comes back, provided the digest tells the saved documents from the objects in the
store.\<close>

theorem saved_run_is_loaded:
  assumes "hydrated_run run" "map fst (rs_nodes run) = map nd_id (gd_nodes (rs_graph run))"
    "persist_run env now disk run = (disk', Inr visible)"
    "faithful_run env (dk_objects disk') (next_candidate now run)"
  shows "load_run_for_execution env disk' (rs_run_id run) = Inr (next_candidate now run)"
proof -
  let ?run = "next_candidate now run"
  obtain prepared p objs where s: "plan_save env now disk run = Inr (prepared, p)"
    "verify_written env objs p = Inr visible"
    "disk' = disk\<lparr>dk_objects := objs, dk_progress := (dk_progress disk)(rs_run_id (pr_state p) \<mapsto> pr_state p)\<rparr>"
    by (rule persist_run_Inr [OF assms(3)])
  obtain current :: run_state where c: "parse_runtime env ?run = Inr ?run"
    "prepare_run_for_immutable_commit env (dk_objects disk) (rs_owner_session_id current) ?run = Inr prepared"
    "project_run_state (base_env env) prepared = Inr p"
    "parse_run_state env (pr_state p) = Inr (pr_state p)" "se_metadata_contained env (pr_state p)"
    by (rule plan_save_Inr [OF s(1)]) blast
  have hyd: "hydrated_run ?run" by (rule hydrated_next_candidate [OF assms(1)])
  have complete: "complete_run ?run" by (rule hydrated_complete_run [OF c(1) hyd]) (use assms(2) in simp)
  have prepared: "prepared = ?run"
    by (rule prepare_hydrated [OF c(2) hyd]) (use complete_runD(1,2) [OF complete] in simp_all)
  note proj = c(3) [unfolded prepared]
  have faithful: "faithful_run env objs ?run" using assms(4) s(3) by simp
  obtain full where v: "hydrate_visible_run_data env objs (pr_state p) = Inr visible"
    "hydrate_run_fully env objs (pr_state p) = Inr full" using s(2) by (auto simp: verify_written_def)
  obtain x where x: "verify_archived env objs (pr_state p) visible = Inr x"
    using verify_archived_ok [OF v proj complete faithful] by blast
  have id: "rs_run_id (pr_state p) = rs_run_id run" using state_fields(1) [OF proj complete] by simp
  have "read_projected env disk' (rs_run_id run) = Inr (pr_state p)"
    by (rule read_projectedI) (use s(3) id c(4,5) in simp_all)
  then have load: "load_run env disk' (rs_run_id run) = Inr visible" using v(1) x s(3) by (simp add: load_run_def)
  note H = hydrate_fully_value [OF v(2,1) proj complete faithful]
  have same: "execution_run ?run = ?run"
    by (rule execution_run_id) (use hyd in \<open>simp add: hydrated_run_def\<close>)
  have "hydrate_run_for_execution env objs visible = Inr (execution_run ?run)"
    by (rule hydrate_execution_value [OF H(3,1,2) complete]) (use same c(1) in simp)
  then show ?thesis using load same s(3) by (simp add: load_run_for_execution_def)
qed

section \<open>What a save leaves alone\<close>

lemma write_entry_grows:
  "write_entry env run_id e objs = (objs', r) \<Longrightarrow> objs \<subseteq>\<^sub>m objs'"
  by (auto simp: write_entry_def Let_def map_le_def split: option.splits if_splits)

lemma write_entries_grow:
  "write_entries env run_id es objs = (objs', r) \<Longrightarrow> objs \<subseteq>\<^sub>m objs'"
proof (induction es arbitrary: objs)
  case (Cons e es)
  obtain objs1 x where e: "write_entry env run_id e objs = (objs1, x)" by fastforce
  note le = write_entry_grows [OF e]
  show ?case
  proof (cases x)
    case None
    then show ?thesis using Cons.prems e map_le_trans [OF le] Cons.IH by simp
  qed (use Cons.prems e le in simp)
qed simp

lemma update_nodes_same: "update_nodes f run = Inr run' \<Longrightarrow> same_but_nodes run run'"
  unfolding update_nodes_def
proof (erule sfold_invariant [where P = "same_but_nodes run"])
  fix d r r' assume "same_but_nodes run r" "update_entry f d r = Inr r'"
  then show "same_but_nodes run r'"
    by (auto simp: update_entry_def split: option.splits intro: same_but_nodes_trans same_but_nodes_set_node)
qed (simp_all add: same_but_nodes_refl)

lemma prepare_keeps:
  assumes "prepare_run_for_immutable_commit env objs owner run = Inr prepared"
  shows "rs_run_id prepared = rs_run_id run" "rs_revision prepared = rs_revision run"
    "rs_owner_session_id prepared = rs_owner_session_id run"
proof -
  obtain run1 run2 where u: "update_nodes (prepare_node env objs owner) run = Inr run1"
    "prepare_roots env objs owner run1 = Inr run2" "prepared = run2\<lparr>rs_state_projection := None\<rparr>"
    using assms by (auto simp: prepare_run_for_immutable_commit_def)
  have "rs_run_id run2 = rs_run_id run1 \<and> rs_revision run2 = rs_revision run1 \<and>
      rs_owner_session_id run2 = rs_owner_session_id run1"
    using u(2) by (auto simp: prepare_roots_def split: option.splits)
  then show "rs_run_id prepared = rs_run_id run" "rs_revision prepared = rs_revision run"
    "rs_owner_session_id prepared = rs_owner_session_id run"
    using same_but_nodes_selectors [OF update_nodes_same [OF u(1)]] u(3) by simp_all
qed

lemma project_run_keeps:
  assumes "project_run_state env run = Inr p"
  shows "rs_run_id (pr_state p) = rs_run_id run" "rs_revision (pr_state p) = rs_revision run"
    "rs_owner_session_id (pr_state p) = rs_owner_session_id run"
  using assms by (auto simp: project_run_state_def Let_def split_beta)

text \<open>What a save has done to the disk when it is over.\<close>

definition save_outcome :: "run_state \<Rightarrow> disk \<Rightarrow> disk \<times> (store_error + run_state) \<Rightarrow> bool" where
  "save_outcome run disk r \<longleftrightarrow>
     (case snd r of
        Inl x \<Rightarrow> dk_progress (fst r) = dk_progress disk
      | Inr visible \<Rightarrow> (\<exists>old new. dk_progress disk (rs_run_id run) = Some old \<and> rs_revision old = rs_revision run \<and>
          rs_revision new = rs_revision run + 1 \<and>
          dk_progress (fst r) = (dk_progress disk)(rs_run_id run \<mapsto> new)))"

lemma persist_outcome:
  "dk_objects disk \<subseteq>\<^sub>m dk_objects (fst (persist_run env now disk run)) \<and>
   save_outcome run disk (persist_run env now disk run)"
proof (cases "plan_save env now disk run")
  case (Inl x)
  then show ?thesis by (simp add: persist_run_def save_outcome_def)
next
  case (Inr q)
  obtain prepared p where q: "q = (prepared, p)" by fastforce
  obtain current :: run_state where c: "read_projected env disk (rs_run_id run) = Inr current"
    "rs_revision current = rs_revision run"
    "prepare_run_for_immutable_commit env (dk_objects disk) (rs_owner_session_id current) (next_candidate now run) = Inr prepared"
    "project_run_state (base_env env) prepared = Inr p"
    by (rule plan_save_Inr [OF Inr [unfolded q]]) blast
  have keep: "rs_run_id (pr_state p) = rs_run_id run" "rs_revision (pr_state p) = rs_revision run + 1"
    using project_run_keeps [OF c(4)] prepare_keeps [OF c(3)] by simp_all
  obtain objs y where w: "write_entries env (rs_run_id prepared) (expected_derived prepared p) (dk_objects disk) = (objs, y)"
    by fastforce
  have le: "dk_objects disk \<subseteq>\<^sub>m objs" by (rule write_entries_grow [OF w])
  show ?thesis
  proof (cases y)
    case (Some x)
    then show ?thesis using Inr q w le by (simp add: persist_run_def save_outcome_def)
  next
    case None
    show ?thesis
    proof (cases "verify_written env objs p")
      case (Inl x)
      then show ?thesis using Inr q w None le by (simp add: persist_run_def save_outcome_def \<open>plan_save _ _ _ _ = _\<close>)
    next
      case (Inr v)
      then show ?thesis using q w None le keep read_projected_Inr(1) [OF c(1)] c(2)
        by (auto simp: persist_run_def save_outcome_def \<open>plan_save _ _ _ _ = _\<close>)
    qed
  qed
qed

text \<open>C30. A save never removes or rewrites a published document. When it fails, the stored
manifests are as they were; when it succeeds, the stored generation of the run had the revision
the caller started from, the new one has the next revision, and the manifest of no other run
changed.\<close>

theorem save_is_atomic:
  "dk_objects disk \<subseteq>\<^sub>m dk_objects (fst (persist_run env now disk run)) \<and>
   save_outcome run disk (persist_run env now disk run)"
  by (rule persist_outcome)

section \<open>Generations\<close>

text \<open>The save of a run as a request to a store of numbered generations.\<close>

fun save_request :: "store_env \<times> nat \<times> run_state \<Rightarrow> disk \<Rightarrow> disk \<times> (store_error + run_state)" where
  "save_request (env, now, run) disk = persist_run env now disk run"

fun requested_run :: "store_env \<times> nat \<times> run_state \<Rightarrow> run_state" where
  "requested_run (env, now, run) = run"

definition stored_revision :: "jstr \<Rightarrow> disk \<Rightarrow> nat option" where
  "stored_revision run_id disk = map_option rs_revision (dk_progress disk run_id)"

interpretation generations: revisioned_store save_request stored_revision
  "\<lambda>w. rs_run_id (requested_run w)" "\<lambda>w. rs_revision (requested_run w)"
proof (unfold_locales, goal_cases)
  case (1 w d x k)
  then show ?case using persist_outcome [of d "fst w" "fst (snd w)" "snd (snd w)"]
    by (cases w) (simp add: save_outcome_def stored_revision_def)
next
  case (2 w d v)
  then show ?case using persist_outcome [of d "fst w" "fst (snd w)" "snd (snd w)"]
    by (cases w) (auto simp: save_outcome_def stored_revision_def)
next
  case (3 k w d)
  then show ?case using persist_outcome [of d "fst w" "fst (snd w)" "snd (snd w)"]
    by (cases w) (auto simp: save_outcome_def stored_revision_def split: sum.splits)
qed

lemma plan_save_base:
  assumes "plan_save env now disk run = Inr q"
  shows "stored_revision (rs_run_id run) disk = Some (rs_revision run)"
proof -
  obtain prepared p where q: "q = (prepared, p)" by fastforce
  obtain current :: run_state where "read_projected env disk (rs_run_id run) = Inr current"
    "rs_revision current = rs_revision run"
    by (rule plan_save_Inr [OF assms [unfolded q]]) blast
  then show ?thesis using read_projected_Inr(1) by (auto simp: stored_revision_def)
qed

text \<open>C31. After a save, and whatever other saves any writer makes of any run in the meantime, a save
that starts from the same generation as the first one or from an older one is refused and leaves the
disk exactly as it was.\<close>

theorem stale_save_is_refused:
  assumes "persist_run env now disk run = (disk', Inr visible)" "rs_run_id other = rs_run_id run"
    "rs_revision other \<le> rs_revision run"
  shows "\<exists>x. persist_run env' later (after_saves save_request requests disk') other =
    (after_saves save_request requests disk', Inl x)"
proof -
  let ?disk = "after_saves save_request requests disk'"
  have "stored_revision (rs_run_id run) disk' = Some (Suc (rs_revision run))"
    using generations.committed [of "(env, now, run)" disk visible] assms(1) by simp
  then obtain m where m: "stored_revision (rs_run_id run) ?disk = Some m" "Suc (rs_revision run) \<le> m"
    using generations.saves_advance by blast
  have "\<exists>x. plan_save env' later ?disk other = Inl x"
  proof (cases "plan_save env' later ?disk other")
    case (Inr q)
    then show ?thesis using plan_save_base [OF Inr] m assms(2,3) by simp
  qed simp
  then show ?thesis by (auto simp: persist_run_def)
qed

section \<open>A save the schema refuses for ever\<close>

lemma parse_runtime_total: "(\<exists>x. parse_runtime env run = Inl x) \<or> parse_runtime env run = Inr run"
  by (cases "parse_runtime env run") auto

lemma hidden_output_issue:
  assumes "node_of run i = Some st" "distinct (map fst (rs_nodes run))"
    "ns_output_ref st \<noteq> None" "ns_output st = None" "latest_output_attempt st = None"
  shows "run_issues sha run \<noteq> []"
proof -
  have "(i, st) \<in> set (rs_nodes run)" using node_of_SomeD [OF assms(1)] .
  moreover have "node_entry_issues sha run (definitions_of (rs_graph run)) (i, st) \<noteq> []"
    using assms(3-5) by (simp add: node_entry_issues_def Let_def node_output_issues_def split: option.split)
  ultimately have "run_table_issues sha run \<noteq> []" by (force simp: run_table_issues_def)
  then show ?thesis by (simp add: run_issues_def)
qed

lemma project_attempt_refs [simp]:
  "na_output (project_attempt env run_id i a) = None"
  "na_output a = None \<Longrightarrow> na_output_ref (project_attempt env run_id i a) = na_output_ref a"
  by (simp_all add: project_attempt_def Let_def split_beta)

text \<open>C33. A node can keep the output of an early attempt while its later attempts have none. Once
the four attempts that stay inline are without an output, the run schema accepts the run but not
its projection: no save succeeds, whatever is stored, and the disk stays as it is.\<close>

theorem hidden_output_blocks_saves:
  assumes "hydrated_run run" "map fst (rs_nodes run) = map nd_id (gd_nodes (rs_graph run))"
    "node_of run i = Some st" "ns_output st = Some out"
    "list_all (\<lambda>a. na_output a = None) (take_last MAX_INLINE_ATTEMPTS_PER_NODE (ns_attempts st))"
  shows "\<exists>x. persist_run env now disk run = (disk, Inl x)"
proof -
  have "\<exists>x. plan_save env now disk run = Inl x"
  proof (cases "plan_save env now disk run")
    case (Inr q)
    let ?run = "next_candidate now run"
    obtain prepared p where q: "q = (prepared, p)" by fastforce
    obtain current :: run_state where c: "parse_runtime env ?run = Inr ?run"
      "prepare_run_for_immutable_commit env (dk_objects disk) (rs_owner_session_id current) ?run = Inr prepared"
      "project_run_state (base_env env) prepared = Inr p"
      "parse_run_state env (pr_state p) = Inr (pr_state p)"
      by (rule plan_save_Inr [OF Inr [unfolded q]]) blast
    have hyd: "hydrated_run ?run" by (rule hydrated_next_candidate [OF assms(1)])
    have complete: "complete_run ?run" by (rule hydrated_complete_run [OF c(1) hyd]) (use assms(2) in simp)
    have "prepared = ?run"
      by (rule prepare_hydrated [OF c(2) hyd]) (use complete_runD(1,2) [OF complete] in simp_all)
    then have proj: "project_run_state (base_env env) ?run = Inr p" using c(3) by simp
    have st: "node_of ?run i = Some st" using assms(3) by simp
    have "i \<in> set (map fst (rs_nodes run))" using node_of_SomeD [OF assms(3)] by force
    then obtain d where d: "d \<in> set (gd_nodes (rs_graph ?run))" "i = nd_id d" unfolding assms(2) by auto
    obtain u n doc where n: "node_of ?run (nd_id d) = Some u" "project_node (base_env env) ?run u = Inr (n, doc)"
      "node_of (pr_state p) (nd_id d) = Some n" using project_run_Inr(2) [OF proj complete d(1)] by blast
    have u: "u = st" using n(1) st d(2) by simp
    have hst: "hydrated_node st" by (rule hydrated_run_node [OF assms(1,3)])
    note P = project_node_Inr [OF n(2) [unfolded u] hydrated_complete_node [OF hst]]
    have "ns_output_ref n \<noteq> None" using P(8) assms(4) by auto
    moreover have "latest_output_attempt n = None"
    proof -
      have "\<not> has_output (project_attempt (base_env env) (rs_run_id ?run) (ns_id st) a)"
        if a: "a \<in> set (take_last MAX_INLINE_ATTEMPTS_PER_NODE (ns_attempts st))" for a
      proof -
        have "na_output a = None" using a assms(5) by (simp add: list_all_iff)
        moreover have "is_attempt_detail a" using subsetD [OF set_take_last(1) a] hst by (simp add: hydrated_node_def list_all_iff)
        ultimately show ?thesis by (simp add: has_output_def is_attempt_detail_def)
      qed
      then show ?thesis unfolding latest_output_attempt_def P(6) map_take_last(1) [symmetric] by (auto simp: find_None_iff)
    qed
    moreover have "distinct (map fst (rs_nodes (pr_state p)))"
      using project_run_Inr(1) [OF proj complete] complete_runD(2) [OF complete] by simp
    ultimately have "run_issues (pe_sha env) (pr_state p) \<noteq> []"
      using hidden_output_issue [OF n(3)] P(5) by blast
    then show ?thesis using c(4) by (simp add: parse_run_state_def)
  qed simp
  then show ?thesis by (auto simp: persist_run_def)
qed

end
