(* ===== verification/Projection_Properties.thy ===== *)
theory Projection_Properties
  imports Persistence
begin

text \<open>
  Properties of \<open>projectRunState\<close> on its own: how much of a run stays inline, and that the counts
  it records are the ones the run schema recomputes.
\<close>

section \<open>Bounds\<close>

definition inline_attempt_bounded :: "node_attempt \<Rightarrow> bool" where
  "inline_attempt_bounded a \<longleftrightarrow>
     na_output a = None \<and> length (na_failures a) \<le> 1 \<and> list_all (\<lambda>f. utf8_bytes f \<le> 128) (na_failures a) \<and>
     opt_all (\<lambda>e. utf8_bytes e \<le> 128) (na_error a)"

definition inline_node_bounded :: "node_state \<Rightarrow> bool" where
  "inline_node_bounded st \<longleftrightarrow>
     ns_output st = None \<and> length (ns_attempts st) \<le> 4 \<and> list_all inline_attempt_bounded (ns_attempts st) \<and>
     length (ns_last_failures st) \<le> 3 \<and> list_all (\<lambda>f. utf8_bytes f \<le> 256) (ns_last_failures st)"

definition inline_run_bounded :: "run_state \<Rightarrow> bool" where
  "inline_run_bounded run \<longleftrightarrow>
     list_all inline_node_bounded (node_values run) \<and> length (authorizations_of run) \<le> 64"

lemmas projection_limits = MAX_PROJECTED_ATTEMPT_FAILURES_def MAX_PROJECTED_NODE_FAILURES_def
  MAX_PROJECTED_FAILURE_BYTES_def MAX_PROJECTED_NODE_FAILURE_BYTES_def MAX_PROJECTED_ERROR_BYTES_def
  MAX_PROJECTED_ROOT_AUTHORIZATIONS_def MAX_INLINE_ATTEMPTS_PER_NODE_def

lemma projected_text_bytes:
  "32 \<le> m \<Longrightarrow> m \<le> 2000 \<Longrightarrow> utf8_bytes (safe_diagnostic_text_max redact v m) \<le> m"
  using safe_diagnostic_text_max_bytes [of redact v m] by simp

lemma project_failures_bounded:
  assumes "32 \<le> m" "m \<le> 2000"
  shows "length (pf_values (project_failures env vs x y n m)) \<le> n"
    "list_all (\<lambda>f. utf8_bytes f \<le> m) (pf_values (project_failures env vs x y n m))"
  using projected_text_bytes [OF assms] by (simp_all add: project_failures_def Let_def list_all_iff)

lemma project_attempt_bounded: "inline_attempt_bounded (project_attempt env run_id i a)"
proof -
  note P = project_failures_bounded [of 128 env _ _ _ 1, simplified]
  show ?thesis using P projected_text_bytes [of 128]
    by (cases "na_error a") (simp_all add: inline_attempt_bounded_def project_attempt_def Let_def project_error_def projection_limits)
qed

lemma project_history_bounded:
  assumes "project_history env run st = Inr (visible, ref, doc)"
  shows "length visible \<le> 4 \<and> list_all inline_attempt_bounded visible"
proof -
  let ?ps = "map (project_attempt env (rs_run_id run) (ns_id st)) (ns_attempts st)"
  have "list_all inline_attempt_bounded ?ps" using project_attempt_bounded by (simp add: list_all_iff)
  moreover have "set visible \<subseteq> set ?ps \<and> length visible \<le> 4"
    using assms by (auto simp: project_history_def Let_def take_last_def projection_limits split: if_splits dest: in_set_dropD)
  ultimately show ?thesis by (auto simp: list_all_iff)
qed

lemma smap_origin: "smap f xs = Inr ys \<Longrightarrow> y \<in> set ys \<Longrightarrow> \<exists>x. f x = Inr y"
  by (induction xs arbitrary: ys) auto

lemma project_node_bounded:
  assumes "project_node env run st = Inr (p, doc)"
  shows "inline_node_bounded p"
proof -
  obtain visible ref where "project_history env run st = Inr (visible, ref, doc)"
    "ns_output p = None" "ns_attempts p = visible"
    "ns_last_failures p = pf_values (project_failures env (ns_last_failures st) (ns_last_failures_omitted st)
       (ns_last_failure_texts_truncated st) MAX_PROJECTED_NODE_FAILURES MAX_PROJECTED_NODE_FAILURE_BYTES)"
    using assms by (auto simp: project_node_def Let_def)
  then show ?thesis
    using project_history_bounded project_failures_bounded [of 256 env _ _ _ 3, simplified]
    by (simp add: inline_node_bounded_def projection_limits)
qed

text \<open>C32. Whatever the run holds, its projection is small: no output inline, at most four attempts
per node with at most one failure of 128 bytes and an error of 128 bytes each, at most three
failures of 256 bytes per node, and at most 64 root authorizations.\<close>

theorem projection_is_bounded:
  "case project_run_state env run of Inl x \<Rightarrow> True | Inr p \<Rightarrow> inline_run_bounded (pr_state p)"
proof (cases "project_run_state env run")
  case (Inr p)
  obtain es where es: "smap (project_entry env run) (gd_nodes (rs_graph run)) = Inr es"
    "rs_nodes (pr_state p) = map fst es"
    "authorizations_of (pr_state p) = (if rs_filesystem_root_authorizations run = None then []
       else take_last MAX_PROJECTED_ROOT_AUTHORIZATIONS (authorizations_of run))"
    using Inr by (auto simp: project_run_state_def Let_def split_beta authorizations_of_def)
  have "inline_node_bounded (snd (fst e))" if e: "e \<in> set es" for e
  proof -
    obtain d where "project_entry env run d = Inr e" using smap_origin [OF es(1) e] by blast
    then show ?thesis using project_node_bounded by (auto simp: project_entry_def split: option.splits)
  qed
  then have "list_all inline_node_bounded (node_values (pr_state p))"
    by (simp add: node_values_def es(2) list_all_iff)
  moreover have "length (authorizations_of (pr_state p)) \<le> 64" unfolding es(3) take_last_def projection_limits by (cases "rs_filesystem_root_authorizations run") simp_all
  ultimately show ?thesis using Inr by (simp add: inline_run_bounded_def)
qed simp

section \<open>Counts\<close>

definition no_counts :: "nat \<Rightarrow> state_projection" where
  "no_counts n = \<lparr>sp_outputs_externalized = 0, sp_attempts_archived = 0, sp_failure_entries_omitted = 0,
       sp_failure_texts_truncated = 0, sp_error_bytes_omitted = 0, sp_root_authorizations_omitted = n\<rparr>"

lemma count_attempts:
  "foldl count_attempt p as = p\<lparr>
     sp_outputs_externalized := sp_outputs_externalized p + sum_list (map (\<lambda>a. opt_count (na_output_ref a)) as),
     sp_failure_entries_omitted := sp_failure_entries_omitted p + sum_list (map (\<lambda>a. or_zero (na_failures_omitted a)) as),
     sp_failure_texts_truncated := sp_failure_texts_truncated p + sum_list (map (\<lambda>a. or_zero (na_failure_texts_truncated a)) as),
     sp_error_bytes_omitted := sp_error_bytes_omitted p + sum_list (map (\<lambda>a. or_zero (na_error_bytes_omitted a)) as)\<rparr>"
  by (induction as arbitrary: p) (simp_all add: count_attempt_def add.assoc)

lemma count_node_fields:
  "sp_outputs_externalized (count_node p st) = sp_outputs_externalized p + (opt_count (ns_output_ref st) +
     history_sum ah_output_count st + sum_list (map (\<lambda>a. opt_count (na_output_ref a)) (ns_attempts st)))"
  "sp_attempts_archived (count_node p st) = sp_attempts_archived p + history_sum ah_attempt_count st"
  "sp_failure_entries_omitted (count_node p st) = sp_failure_entries_omitted p + (history_sum ah_failure_entries_omitted st +
     or_zero (ns_last_failures_omitted st) + sum_list (map (\<lambda>a. or_zero (na_failures_omitted a)) (ns_attempts st)))"
  "sp_failure_texts_truncated (count_node p st) = sp_failure_texts_truncated p + (history_sum ah_failure_texts_truncated st +
     or_zero (ns_last_failure_texts_truncated st) + sum_list (map (\<lambda>a. or_zero (na_failure_texts_truncated a)) (ns_attempts st)))"
  "sp_error_bytes_omitted (count_node p st) = sp_error_bytes_omitted p + (history_sum ah_error_bytes_omitted st +
     sum_list (map (\<lambda>a. or_zero (na_error_bytes_omitted a)) (ns_attempts st)))"
  "sp_root_authorizations_omitted (count_node p st) = sp_root_authorizations_omitted p"
  by (cases "ns_attempt_history_ref st"; simp add: count_node_def count_history_def count_attempts history_sum_def Let_def)+

lemma foldl_total:
  assumes "\<And>p st. g (f p st) = g p + (h st :: nat)"
  shows "g (foldl f p sts) = g p + sum_list (map h sts)"
  by (induction sts arbitrary: p) (simp_all add: assms)

lemma foldl_fixed:
  assumes "\<And>p st. g (f p st) = g p"
  shows "g (foldl f p sts) = g p"
  by (induction sts arbitrary: p) (simp_all add: assms)

lemma projection_counts_expected:
  "node_values run = sts \<Longrightarrow> or_zero (rs_filesystem_root_authorizations_omitted run) = n \<Longrightarrow>
   projection_counts sts n = expected_projection run"
  unfolding projection_counts_def
  by (rule state_projection.equality)
    (simp_all add: expected_projection_def Let_def
      foldl_total [where f = count_node, OF count_node_fields(1)] foldl_total [where f = count_node, OF count_node_fields(2)]
      foldl_total [where f = count_node, OF count_node_fields(3)] foldl_total [where f = count_node, OF count_node_fields(4)]
      foldl_total [where f = count_node, OF count_node_fields(5)] foldl_fixed [where f = count_node, OF count_node_fields(6)])

lemma project_run_counts:
  assumes "project_run_state env run = Inr p" "rs_filesystem_root_authorizations_ref run = None"
  shows "rs_state_projection (pr_state p) = Some (expected_projection (pr_state p))"
proof -
  obtain es where es: "smap (project_entry env run) (gd_nodes (rs_graph run)) = Inr es"
    using assms(1) by (auto simp: project_run_state_def Let_def split_beta)
  let ?visible = "take_last MAX_PROJECTED_ROOT_AUTHORIZATIONS (authorizations_of run)"
  let ?omitted = "case fst (project_roots env run) of Some r \<Rightarrow> ra_authorization_count r - length ?visible
    | None \<Rightarrow> or_zero (rs_filesystem_root_authorizations_omitted run) + (length (authorizations_of run) - length ?visible)"
  let ?s = "pr_state p"
  have s: "rs_state_projection ?s = Some (projection_counts (map snd (map fst es)) ?omitted)"
    "rs_nodes ?s = map fst es"
    "rs_filesystem_root_authorizations_omitted ?s =
       (if ?omitted = 0 then rs_filesystem_root_authorizations_omitted run else Some ?omitted)"
    using assms(1) es by (auto simp: project_run_state_def Let_def split_beta)
  have "or_zero (rs_filesystem_root_authorizations_omitted ?s) = ?omitted"
    using assms(2) by (auto simp: s(3) project_roots_def Let_def split: if_splits)
  then have "projection_counts (map snd (map fst es)) ?omitted = expected_projection ?s"
    by (intro projection_counts_expected) (simp_all add: node_values_def s(2))
  then show ?thesis using s(1) by simp
qed

text \<open>The counts that the projection records are the ones that the run schema recomputes
from the projected state, so the check on the projection metadata never rejects a save.\<close>

theorem projection_counts_are_expected:
  assumes "project_run_state env run = Inr p" "rs_filesystem_root_authorizations_ref run = None"
  shows "run_projection_issues (pr_state p) = []"
  using project_run_counts [OF assms] by (simp add: run_projection_issues_def)

end
