(* ===== verification/Fresh_Saves.thy ===== *)
theory Fresh_Saves
  imports Store_Properties Projection_Properties Feedback_Routing
begin

text \<open>
  Saves that are carried through: the save of a run in which nothing has started yet, and the
  concrete runs and stores at which the properties of the store are applied.
\<close>

section \<open>A pass that maps every node\<close>

lemma update_nodes_map:
  assumes "node_local run f" "map fst (rs_nodes run) = map nd_id (gd_nodes (rs_graph run))"
    "distinct (map nd_id (gd_nodes (rs_graph run)))"
    "\<And>d st. d \<in> set (gd_nodes (rs_graph run)) \<Longrightarrow> node_of run (nd_id d) = Some st \<Longrightarrow> f d run st = Inr (h st)"
  shows "update_nodes f run = Inr (run\<lparr>rs_nodes := map (\<lambda>e. (fst e, h (snd e))) (rs_nodes run)\<rparr>)"
proof -
  let ?r = "run\<lparr>rs_nodes := map (\<lambda>e. (fst e, h (snd e))) (rs_nodes run)\<rparr>"
  have look: "\<exists>st. node_of run (nd_id d) = Some st" if "d \<in> set (gd_nodes (rs_graph run))" for d
    using graph_lookup [OF assms(2) that] by blast
  obtain r where r: "update_nodes f run = Inr r"
    using update_nodes_ok [OF assms(1,3)] look assms(4) by blast
  note U = update_nodes_Inr [OF r assms(1,3)]
  have "r = ?r"
  proof (rule shows_run_eq)
    show "same_but_nodes r ?r"
      by (rule same_but_nodes_trans [OF same_but_nodes_sym [OF U(1)]]) (auto simp: same_but_nodes_def)
    show "map fst (rs_nodes r) = map fst (rs_nodes ?r)" using U(2) by simp
    show "distinct (map fst (rs_nodes r))" using U(2) assms(2,3) by simp
    fix i assume "i \<in> set (map fst (rs_nodes r))"
    then obtain d where d: "d \<in> set (gd_nodes (rs_graph run))" "i = nd_id d" using U(2) assms(2) by auto
    obtain st st' where st: "node_of run (nd_id d) = Some st" "f d run st = Inr st'" "node_of r (nd_id d) = Some st'"
      using U(3) [OF d(1)] by blast
    moreover have "node_of ?r i = map_option h (node_of run i)" by (simp add: node_of_def map_of_map_values)
    ultimately show "node_of r i = node_of ?r i" using assms(4) [OF d(1) st(1)] d(2) by simp
  qed
  then show ?thesis using r by simp
qed

section \<open>Runs in which nothing has started\<close>

definition fresh_run :: "run_state \<Rightarrow> bool" where
  "fresh_run run \<longleftrightarrow>
     rs_nodes run = map (\<lambda>d. (nd_id d, initial_node_state d)) (gd_nodes (rs_graph run)) \<and>
     hydrated_run run \<and> rs_filesystem_root_authorizations run = None"

definition pledged :: "persist_env \<Rightarrow> node_state \<Rightarrow> node_state" where
  "pledged env st = st\<lparr>ns_last_failures_commitment := Some (failure_list_commitment (pe_sha env) [])\<rparr>"

definition pledged_run :: "persist_env \<Rightarrow> run_state \<Rightarrow> run_state" where
  "pledged_run env run = run\<lparr>rs_nodes := map (\<lambda>e. (fst e, pledged env (snd e))) (rs_nodes run),
     rs_state_projection := Some (no_counts 0)\<rparr>"

lemma project_initial:
  "project_node env run (initial_node_state d) = Inr (pledged env (initial_node_state d), None)"
  by (simp add: project_node_def project_history_def initial_node_state_def Let_def project_failures_def
      positive_def last_failures_reference_def pledged_def)

lemma distinct_lookup:
  assumes "distinct (map nd_id ds)" "d \<in> set ds"
  shows "map_of (map (\<lambda>d. (nd_id d, f d)) ds) (nd_id d) = Some (f d)"
  using assms
proof (induction ds)
  case (Cons a ds)
  then show ?case by (cases "d = a") (auto, metis image_eqI)
qed simp

lemma fresh_lookup:
  assumes "fresh_run run" "distinct (map nd_id (gd_nodes (rs_graph run)))" "d \<in> set (gd_nodes (rs_graph run))"
  shows "node_of run (nd_id d) = Some (initial_node_state d)"
  using assms distinct_lookup [OF assms(2,3), of initial_node_state] by (simp add: fresh_run_def node_of_def)

lemma project_fresh:
  assumes "fresh_run run" "distinct (map nd_id (gd_nodes (rs_graph run)))"
  shows "project_run_state env run = Inr \<lparr>pr_state = pledged_run env run, pr_histories = [], pr_roots = None\<rparr>"
proof -
  let ?e = "\<lambda>d. ((nd_id d, pledged env (initial_node_state d)), None :: history_document option)"
  have "smap (project_entry env run) (gd_nodes (rs_graph run)) = Inr (map ?e (gd_nodes (rs_graph run)))"
  proof (rule smap_eq)
    fix d assume "d \<in> set (gd_nodes (rs_graph run))"
    then show "project_entry env run d = Inr (?e d)"
      using fresh_lookup [OF assms] by (simp add: project_entry_def project_initial) (simp add: initial_node_state_def)
  qed
  moreover have "foldl count_node p (map (\<lambda>d. pledged env (initial_node_state d)) ds) = p" for p ds
  proof (induction ds arbitrary: p)
    case (Cons d ds)
    have "count_node p (pledged env (initial_node_state d)) = p"
      by (cases p) (simp add: count_node_def count_history_def pledged_def initial_node_state_def opt_count_def Let_def)
    then show ?case using Cons.IH by simp
  qed simp
  moreover have "rs_filesystem_root_authorizations_ref run = None" "rs_filesystem_root_authorizations_omitted run = None"
    "rs_filesystem_root_authorizations run = None"
    using assms(1) by (simp_all add: fresh_run_def hydrated_run_def)
  ultimately show ?thesis using assms(1)
    by (cases run) (simp add: project_run_state_def Let_def project_roots_def authorizations_of_def projection_counts_def
        pledged_run_def no_counts_def fresh_run_def o_def)
qed

text \<open>The pending nodes carry nothing that a check could object to.\<close>

lemma pledged_entry:
  assumes "definitions_of (rs_graph run) i = Some d" "nd_id d = i"
  shows "node_entry_issues sha run (definitions_of (rs_graph run)) (i, initial_node_state d) = []"
    "node_entry_issues (pe_sha env) run (definitions_of (rs_graph run)) (i, pledged env (initial_node_state d)) = []"
  using assms by (simp_all add: node_entry_issues_def Let_def pledged_def initial_node_state_def node_history_issues_def
      node_commitment_issues_def commitment_issues_def failure_list_commitment_def archived_attempts_def
      node_output_issues_def artifact_of_run_def node_status_issues_def final_status_simps)

lemma fresh_keys:
  assumes "fresh_run run"
  shows "map fst (rs_nodes run) = map nd_id (gd_nodes (rs_graph run))"
    "map fst (rs_nodes (pledged_run env run)) = map nd_id (gd_nodes (rs_graph run))"
  using assms by (simp_all add: fresh_run_def pledged_run_def o_def)

lemma pledged_fields [simp]:
  "rs_graph (pledged_run env run) = rs_graph run" "rs_run_id (pledged_run env run) = rs_run_id run"
  "rs_revision (pledged_run env run) = rs_revision run" "rs_mode (pledged_run env run) = rs_mode run"
  "rs_status (pledged_run env run) = rs_status run"
  "rs_owner_session_id (pledged_run env run) = rs_owner_session_id run"
  "rs_filesystem_root_authorizations_ref (pledged_run env run) = rs_filesystem_root_authorizations_ref run"
  "node_of (pledged_run env run) i = map_option (pledged env) (node_of run i)"
  "rs_global_attempts (pledged_run env run) = rs_global_attempts run"
  by (simp_all add: pledged_run_def node_of_def map_of_map_values)

lemma pledged_status: "ns_status (pledged env st) = ns_status st" "ns_id (pledged env st) = ns_id st"
  "ns_agent (pledged env st) = ns_agent st" "ns_current_attempt (pledged env st) = ns_current_attempt st"
  by (simp_all add: pledged_def)

lemma pledged_node_status [simp]: "node_status_of (pledged_run env run) i = node_status_of run i"
  by (cases "node_of run i") (simp_all add: node_status_of_def pledged_status)

lemma pledged_table:
  assumes "fresh_run run" "distinct (map nd_id (gd_nodes (rs_graph run)))" "run_table_issues sha run = []"
  shows "run_table_issues (pe_sha env) (pledged_run env run) = []"
proof -
  let ?p = "pledged_run env run" let ?ds = "gd_nodes (rs_graph run)"
  have nodes: "rs_nodes ?p = map (\<lambda>d. (nd_id d, pledged env (initial_node_state d))) ?ds"
    using assms(1) by (simp add: fresh_run_def pledged_run_def o_def)
  have "node_entry_issues (pe_sha env) ?p (definitions_of (rs_graph ?p)) e = []" if "e \<in> set (rs_nodes ?p)" for e
    using that pledged_entry(2) [of ?p] definitions_of_Some [OF assms(2)] by (auto simp: nodes)
  moreover have "counted_attempts ?p = counted_attempts run"
    unfolding counted_attempts_def pledged_run_def
    by (auto simp: o_def pledged_status split: option.split intro!: arg_cong [where f = sum_list])
  moreover have "length (rs_nodes ?p) = length (rs_nodes run)" by (simp add: pledged_run_def)
  moreover have "node_of ?p (nd_id d) \<noteq> None" if "d \<in> set ?ds" for d
    using fresh_lookup [OF assms(1,2) that] by simp
  ultimately show ?thesis using assms(3) by (simp add: run_table_issues_def)
qed

lemma pledged_accepted:
  assumes "fresh_run run" "run_body_shape run" "run_issues sha run = []"
    "sha256_text (pe_sha env (stringify (j_strs [])))"
  shows "run_body_shape (pledged_run env run)" "run_issues (pe_sha env) (pledged_run env run) = []"
proof -
  let ?p = "pledged_run env run"
  have dist: "distinct (map nd_id (gd_nodes (rs_graph run)))" using fresh_keys(1) [OF assms(1)] assms(2)
    by (simp add: run_body_shape_def)
  have h: "rs_filesystem_root_authorizations_ref run = None" "rs_filesystem_root_authorizations_omitted run = None"
    using assms(1) by (simp_all add: fresh_run_def hydrated_run_def)
  have "node_state_shape (pledged env st)" if "node_state_shape st" for st
    using that assms(4) by (simp add: node_state_shape_def pledged_def commitment_shape_def failure_list_commitment_def)
  moreover have "state_projection_shape (no_counts 0)" by (simp add: state_projection_shape_def no_counts_def)
  moreover have "map fst (rs_nodes ?p) = map fst (rs_nodes run)" by (simp add: pledged_run_def)
  ultimately show "run_body_shape ?p" using assms(2) unfolding run_body_shape_def
    by (simp add: list_all_iff) (auto simp: pledged_run_def)
  have "any_failed ?p = any_failed run" "all_terminal ?p = all_terminal run"
    by (simp_all add: any_failed_def all_terminal_def node_values_def pledged_run_def list_ex_iff list_all_iff pledged_status)
  moreover have "list_ex (\<lambda>st. ns_status st \<noteq> Pending) (node_values ?p) = list_ex (\<lambda>st. ns_status st \<noteq> Pending) (node_values run)"
    by (simp add: node_values_def pledged_run_def list_ex_iff pledged_status)
  ultimately have "run_status_issues ?p = run_status_issues run" by (simp add: run_status_issues_def)
  moreover have "run_ownership_issues ?p = run_ownership_issues run" by (simp add: run_ownership_issues_def pledged_run_def)
  moreover have "run_projection_issues ?p = []"
    using project_run_counts [OF project_fresh [OF assms(1) dist, of env] h(1)] by (simp add: run_projection_issues_def)
  moreover have "run_table_issues (pe_sha env) ?p = []"
    by (rule pledged_table [OF assms(1) dist, of sha]) (use assms(3) in \<open>simp add: run_issues_def\<close>)
  ultimately show "run_issues (pe_sha env) ?p = []"
    using assms(3) h by (simp add: run_issues_def run_authorization_issues_def)
qed

section \<open>The save of such a run\<close>

lemma hydrate_pledged:
  assumes "fresh_run run" "run_body_shape run" "revision_shape run" "run_issues (pe_sha env) run = []"
  shows "hydrate_visible_run_data env objs (pledged_run (base_env env) run) = Inr run"
    "hydrate_run_fully env objs (pledged_run (base_env env) run) = Inr run"
proof -
  let ?p = "pledged_run (base_env env) run" let ?s = "?p\<lparr>rs_state_projection := None\<rparr>"
  let ?drop = "\<lambda>st. st\<lparr>ns_last_failures_commitment := None\<rparr>"
  have dist: "distinct (map nd_id (gd_nodes (rs_graph run)))" using fresh_keys(1) [OF assms(1)] assms(2)
    by (simp add: run_body_shape_def)
  have h: "rs_filesystem_root_authorizations_ref run = None" "rs_state_projection run = None"
    using assms(1) by (simp_all add: fresh_run_def hydrated_run_def)
  have sid: "node_of ?s i = node_of ?p i" for i by (simp add: node_of_def)
  have "update_nodes (hydrate_visible_node env objs) ?s =
      Inr (?s\<lparr>rs_nodes := map (\<lambda>e. (fst e, ?drop (snd e))) (rs_nodes ?s)\<rparr>)"
  proof (rule update_nodes_map [OF visible_local])
    show "map fst (rs_nodes ?s) = map nd_id (gd_nodes (rs_graph ?s))" using fresh_keys(2) [OF assms(1)] by simp
    show "distinct (map nd_id (gd_nodes (rs_graph ?s)))" using dist by simp
    fix d st assume "d \<in> set (gd_nodes (rs_graph ?s))" "node_of ?s (nd_id d) = Some st"
    then have "st = pledged (base_env env) (initial_node_state d)"
      using fresh_lookup [OF assms(1) dist] by (simp add: sid)
    then show "hydrate_visible_node env objs d ?s st = Inr (?drop st)"
      by (simp add: hydrate_visible_node_def pledged_def initial_node_state_def hydrate_output_def hydrate_node_failures_def)
  qed
  moreover have "?s\<lparr>rs_nodes := map (\<lambda>e. (fst e, ?drop (snd e))) (rs_nodes ?s)\<rparr> = run"
  proof -
    have "map (\<lambda>e. (fst e, ?drop (snd e))) (rs_nodes ?s) = rs_nodes run"
      using assms(1) by (simp add: fresh_run_def pledged_run_def pledged_def initial_node_state_def o_def)
    then show ?thesis using h(2) by (cases run) (simp add: pledged_run_def)
  qed
  ultimately have "update_nodes (hydrate_visible_node env objs) ?s = Inr run" by simp
  moreover have roots: "read_roots_document env objs run owner = Inr None" for owner
    using h(1) by (simp add: read_roots_document_def)
  ultimately show v: "hydrate_visible_run_data env objs ?p = Inr run"
    using assms(2-4) by (simp add: hydrate_visible_run_data_def retains_roots_def)
  have "update_nodes (hydrate_full_node env objs) run = Inr (run\<lparr>rs_nodes := map (\<lambda>e. (fst e, snd e)) (rs_nodes run)\<rparr>)"
  proof (rule update_nodes_map [OF full_local fresh_keys(1) [OF assms(1)] dist])
    fix d st assume "d \<in> set (gd_nodes (rs_graph run))" "node_of run (nd_id d) = Some st"
    then have "st = initial_node_state d" using fresh_lookup [OF assms(1) dist] by simp
    then show "hydrate_full_node env objs d run st = Inr st"
      by (simp add: hydrate_full_node_def read_attempt_history_def initial_node_state_def)
  qed
  moreover have "run\<lparr>rs_state_projection := None\<rparr> = run" using h(2) by (cases run) simp
  ultimately show "hydrate_run_fully env objs ?p = Inr run"
    using v roots assms(2-4) by (simp add: hydrate_run_fully_def restore_roots_def)
qed

lemma prepare_fresh:
  assumes "fresh_run run" "run_body_shape run" "revision_shape run" "run_issues (pe_sha env) run = []"
  shows "prepare_run_for_immutable_commit env objs owner run = Inr run"
proof -
  have dist: "distinct (map nd_id (gd_nodes (rs_graph run)))" using fresh_keys(1) [OF assms(1)] assms(2)
    by (simp add: run_body_shape_def)
  have h: "rs_filesystem_root_authorizations_ref run = None" "rs_state_projection run = None"
    using assms(1) by (simp_all add: fresh_run_def hydrated_run_def)
  have "update_nodes (prepare_node env objs owner) run = Inr (run\<lparr>rs_nodes := map (\<lambda>e. (fst e, snd e)) (rs_nodes run)\<rparr>)"
  proof (rule update_nodes_map [OF prepare_local fresh_keys(1) [OF assms(1)] dist])
    fix d st assume "d \<in> set (gd_nodes (rs_graph run))" "node_of run (nd_id d) = Some st"
    then have "st = initial_node_state d" using fresh_lookup [OF assms(1) dist] by simp
    then show "prepare_node env objs owner d run st = Inr st"
      by (simp add: prepare_node_def read_attempt_history_def initial_node_state_def materialize_output_def materialize_failures_def)
  qed
  moreover have same: "run\<lparr>rs_state_projection := None\<rparr> = run" using h(2) by (cases run) simp
  ultimately show ?thesis using h(1) assms(2-4)
    by (simp add: prepare_run_for_immutable_commit_def prepare_roots_def same)
qed

lemma no_entries: "fresh_run run \<Longrightarrow> distinct (map nd_id (gd_nodes (rs_graph run))) \<Longrightarrow>
  expected_derived run \<lparr>pr_state = pledged_run env run, pr_histories = [], pr_roots = None\<rparr> = []"
  using fresh_lookup [of run]
  by (auto simp: expected_derived_def artifact_entries_def history_entries_def output_entry_def projected_attempts_def
      fresh_run_def hydrated_run_def pledged_def initial_node_state_def)

lemma fresh_next: "fresh_run run \<Longrightarrow> fresh_run (next_candidate now run)"
  by (simp add: fresh_run_def hydrated_next_candidate) (simp add: next_candidate_def)

lemma body_next:
  "run_body_shape run \<Longrightarrow> run_body_shape (next_candidate now run)"
  "rs_state_projection run = None \<Longrightarrow> run_issues sha (next_candidate now run) = run_issues sha run"
proof -
  show "run_body_shape run \<Longrightarrow> run_body_shape (next_candidate now run)"
    by (simp add: run_body_shape_def next_candidate_def)
  assume "rs_state_projection run = None"
  have "run_table_issues sha (next_candidate now run) = run_table_issues sha run"
    by (rule table_issues_local) (simp add: same_table_def same_context_def next_candidate_def)
  moreover have authorizations: "run_authorization_issues (next_candidate now run) = run_authorization_issues run"
  proof -
    have "rs_filesystem_root_authorizations (next_candidate now run) = rs_filesystem_root_authorizations run"
      "rs_filesystem_root_authorizations_ref (next_candidate now run) = rs_filesystem_root_authorizations_ref run"
      "rs_filesystem_root_authorizations_omitted (next_candidate now run) = rs_filesystem_root_authorizations_omitted run"
      by (simp_all add: next_candidate_def)
    then show ?thesis by (simp only: run_authorization_issues_def next_candidate_fields)
  qed
  moreover have "run_status_issues (next_candidate now run) = run_status_issues run"
    by (simp add: run_status_issues_def any_failed_def all_terminal_def node_status_of_def) (simp add: next_candidate_def)
  ultimately show "run_issues sha (next_candidate now run) = run_issues sha run"
    using \<open>rs_state_projection run = None\<close> authorizations
    by (simp add: run_issues_def) (simp add: next_candidate_def run_ownership_issues_def run_projection_issues_def)
qed

text \<open>The save of a run in which nothing has started goes through, and publishes nothing.\<close>

lemma fresh_save:
  assumes "fresh_run run" "run_body_shape run" "run_issues (pe_sha env) run = []" "1 \<le> rs_revision run"
    "rs_revision run < MAX_SAFE_INTEGER" "sha256_text (pe_sha env (stringify (j_strs [])))"
    "\<And>r. se_metadata_contained env r" "\<And>r. se_state_bytes env r \<le> MAX_PERSISTED_STATE_BYTES"
    "read_projected env disk (rs_run_id run) = Inr (current :: run_state)" "rs_revision current = rs_revision run"
  shows "persist_run env now disk run =
    (disk\<lparr>dk_progress := (dk_progress disk)(rs_run_id run \<mapsto> pledged_run (base_env env) (next_candidate now run))\<rparr>,
     Inr (next_candidate now run))"
proof -
  let ?n = "next_candidate now run" let ?p = "pledged_run (base_env env) ?n"
  have acc: "run_body_shape ?n" "run_issues (pe_sha env) ?n = []" "revision_shape ?n" "revision_shape run"
    using assms(1-5) body_next by (simp_all add: revision_shape_def fresh_run_def hydrated_run_def)
  note fresh = fresh_next [OF assms(1), of now]
  have dist: "distinct (map nd_id (gd_nodes (rs_graph ?n)))" using fresh_keys(1) [OF fresh] acc(1)
    by (simp add: run_body_shape_def)
  have proj: "project_run_state (base_env env) ?n = Inr \<lparr>pr_state = ?p, pr_histories = [], pr_roots = None\<rparr>"
    by (rule project_fresh [OF fresh dist])
  have sha: "pe_sha (base_env env) = pe_sha env" by (simp add: persist_env.truncate_def)
  have p: "run_body_shape ?p" "run_issues (pe_sha env) ?p = []" "revision_shape ?p"
    using pledged_accepted [OF fresh acc(1,2), of "base_env env"] assms(6) acc(3) by (simp_all add: sha revision_shape_def)
  have "plan_save env now disk run = Inr (?n, \<lparr>pr_state = ?p, pr_histories = [], pr_roots = None\<rparr>)"
    using assms(2,3,7-10) acc p proj prepare_fresh [OF fresh acc(1,3,2)]
    by (simp add: plan_save_def parse_runtime_Inr [THEN iffD2] parse_run_state_def)
  moreover note hydrate_pledged [OF fresh acc(1,3,2)]
  ultimately show ?thesis using no_entries [OF fresh dist]
    by (simp add: persist_run_def verify_written_def)
qed

text \<open>Loading it back needs no document.\<close>

lemma load_pledged:
  assumes "fresh_run run" "run_body_shape run" "run_issues (pe_sha env) run = []" "revision_shape run"
    "sha256_text (pe_sha env (stringify (j_strs [])))" "\<And>r. se_metadata_contained env r"
    "\<And>r. se_state_bytes env r \<le> MAX_PERSISTED_STATE_BYTES"
    "dk_progress disk (rs_run_id run) = Some (pledged_run (base_env env) run)"
  shows "read_projected env disk (rs_run_id run) = Inr (pledged_run (base_env env) run)"
    "load_run env disk (rs_run_id run) = Inr run"
proof -
  let ?p = "pledged_run (base_env env) run" let ?objs = "dk_objects disk"
  have sha: "pe_sha (base_env env) = pe_sha env" by (simp add: persist_env.truncate_def)
  have p: "run_body_shape ?p" "run_issues (pe_sha env) ?p = []" "revision_shape ?p"
    using pledged_accepted [OF assms(1-3), of "base_env env"] assms(4,5) by (simp_all add: sha revision_shape_def)
  show read: "read_projected env disk (rs_run_id run) = Inr ?p"
    by (rule read_projectedI [OF assms(8)])
      (simp_all add: parse_run_state_def parse_runtime_Inr [THEN iffD2] p assms(6,7))
  have dist: "distinct (map nd_id (gd_nodes (rs_graph run)))" using fresh_keys(1) [OF assms(1)] assms(2)
    by (simp add: run_body_shape_def)
  have "update_nodes (with_archive env ?objs ?p) run = Inr (run\<lparr>rs_nodes := map (\<lambda>e. (fst e, snd e)) (rs_nodes run)\<rparr>)"
  proof (rule update_nodes_map [OF archive_local fresh_keys(1) [OF assms(1)] dist])
    fix d st assume "d \<in> set (gd_nodes (rs_graph run))" "node_of run (nd_id d) = Some st"
    then have "node_of run (nd_id d) = Some st" "ns_attempt_history_ref st = None"
      using fresh_lookup [OF assms(1) dist] by (auto simp: initial_node_state_def)
    then show "with_archive env ?objs ?p d run st = Inr st" by (simp add: with_archive_def pledged_def)
  qed
  moreover have "run\<lparr>rs_state_projection := None\<rparr> = run"
    using assms(1) by (cases run) (simp add: fresh_run_def hydrated_run_def)
  ultimately show "load_run env disk (rs_run_id run) = Inr run"
    using read hydrate_pledged(1) [OF assms(1,2,4,3), of ?objs] assms(2-4)
    by (simp add: load_run_def verify_archived_def parse_runtime_Inr [THEN iffD2])
qed

section \<open>A concrete store\<close>

definition example_store :: store_env where
  "example_store = \<lparr>pe_sha = (\<lambda>s. replicate 64 0x30), pe_stamp = (\<lambda>t. js ''now''), pe_redact = (\<lambda>s. s),
     se_resolves = (\<lambda>p. True), se_state_bytes = (\<lambda>r. 0), se_metadata_contained = (\<lambda>r. True)\<rparr>"

definition example_disk :: disk where
  "example_disk = \<lparr>dk_objects = Map.empty, dk_progress = [js ''demo'' \<mapsto> example_open_run]\<rparr>"

lemma example_fresh: "fresh_run example_open_run"
proof -
  have "hydrated_run example_open_run"
    by (rule run_fine_checks(3)) (rule base_fine_run_fine [OF example_open_run_fine(1)], simp)
  moreover have "rs_filesystem_root_authorizations example_open_run = None"
    by (simp add: example_open_run_def demo_run_def)
  ultimately show ?thesis
    by (simp add: fresh_run_def example_init_nodes) (simp add: example_graph_def example_node_def)
qed

lemma example_store_answers: "sha256_text (pe_sha example_store s)" "se_metadata_contained example_store r"
  "se_state_bytes example_store r = 0"
  by (simp_all add: example_store_def sha256_text_def list_all_iff hex_lower_def digit_def)

lemma example_saved:
  "persist_run example_store 9 example_disk example_open_run =
    (example_disk\<lparr>dk_progress := [js ''demo'' \<mapsto> pledged_run (base_env example_store) (next_candidate 9 example_open_run)]\<rparr>,
     Inr (next_candidate 9 example_open_run))"
proof -
  have fine: "run_fine example_open_run" by (rule base_fine_run_fine [OF example_open_run_fine(1)]) simp
  have rev: "rs_revision example_open_run = 1" by (simp add: example_open_run_def demo_run_def)
  have read: "read_projected example_store example_disk (rs_run_id example_open_run) = Inr example_open_run"
    by (rule read_projectedI)
      (simp_all add: example_disk_def parse_run_state_def parse_runtime_Inr [THEN iffD2] run_fine_checks [OF fine]
        revision_shape_def rev MAX_SAFE_INTEGER_def example_store_answers)
  have "persist_run example_store 9 example_disk example_open_run =
    (example_disk\<lparr>dk_progress := (dk_progress example_disk)(rs_run_id example_open_run \<mapsto>
        pledged_run (base_env example_store) (next_candidate 9 example_open_run))\<rparr>,
     Inr (next_candidate 9 example_open_run))"
    by (rule fresh_save [OF example_fresh run_fine_checks(1) [OF fine] run_fine_checks(2) [OF fine], where current = example_open_run])
      (use read in \<open>simp_all add: rev MAX_SAFE_INTEGER_def example_store_answers\<close>)
  then show ?thesis by (simp add: example_disk_def)
qed

theorem saved_run_is_loaded_witness:
  "load_run_for_execution example_store
     (example_disk\<lparr>dk_progress := [js ''demo'' \<mapsto> pledged_run (base_env example_store) (next_candidate 9 example_open_run)]\<rparr>)
     (js ''demo'') = Inr (next_candidate 9 example_open_run)"
proof -
  have 1: "hydrated_run example_open_run" using example_fresh by (simp add: fresh_run_def)
  have "faithful example_store Map.empty doc" for doc by (simp add: faithful_def)
  then have "faithful_run example_store (dk_objects example_disk) run" for run
    by (simp add: faithful_run_def list_all_iff example_disk_def)
  then show ?thesis
    using saved_run_is_loaded [OF 1 fresh_keys(1) [OF example_fresh] example_saved] by simp
qed

definition example_saved_disk :: disk where
  "example_saved_disk =
     example_disk\<lparr>dk_progress := [js ''demo'' \<mapsto> pledged_run (base_env example_store) (next_candidate 9 example_open_run)]\<rparr>"

theorem stale_save_is_refused_witness:
  "\<exists>x. persist_run example_store 11
     (after_saves save_request [(example_store, 10, example_done_run)] example_saved_disk) example_open_run =
     (after_saves save_request [(example_store, 10, example_done_run)] example_saved_disk, Inl x)"
  unfolding example_saved_disk_def by (rule stale_save_is_refused [OF example_saved]) simp_all

theorem projection_counts_are_expected_witness:
  "run_projection_issues (pledged_run (base_env example_store) example_open_run) = []"
proof -
  have "distinct (map nd_id (gd_nodes (rs_graph example_open_run)))" by (simp add: example_graph_def example_node_def)
  from projection_counts_are_expected [OF project_fresh [OF example_fresh this, of "base_env example_store"]] show ?thesis
    by (simp add: example_open_run_def demo_run_def)
qed

section \<open>A run that can no longer be saved\<close>

text \<open>
  An implementer with five attempts: the first one reports that it is incomplete, the next four
  end in errors of the session. The output of the first stays the output of the node.
\<close>

definition stubborn_node :: node_def where
  "stubborn_node = (example_node ''implement'' Implementer [])
     \<lparr>nd_loop := Some \<lparr>nl_max_attempts = 5, nl_gate = Gate_schema\<rparr>\<rparr>"

definition stubborn_graph :: graph_def where
  "stubborn_graph = \<lparr>gd_name = js ''demo'', gd_description = None, gd_nodes = [stubborn_node],
     gd_max_global_attempts = 9, gd_max_concurrency = 2\<rparr>"

definition incomplete_output :: agent_output where
  "incomplete_output = Implement_output \<lparr>io_summary = [js ''bug''], io_files_touched = [], io_commands_run = [],
     io_risks = [], io_done = False, io_blockers = Some [js ''bug''], io_artifact_path = None\<rparr>"

definition incomplete_attempt :: node_attempt where
  "incomplete_attempt = example_done_attempt\<lparr>na_status := Failed, na_output := Some incomplete_output,
     na_failures := [js ''bug''], na_outcome := Some Incomplete\<rparr>"

definition broken_attempt :: "nat \<Rightarrow> node_attempt" where
  "broken_attempt n = example_done_attempt\<lparr>na_attempt := n, na_status := Failed, na_output := None,
     na_schema_ok := Some False, na_error := Some (js ''bug''), na_failures := [js ''bug''], na_outcome := Some Sdk_error\<rparr>"

definition stubborn_state :: node_state where
  "stubborn_state = (initial_node_state stubborn_node)
     \<lparr>ns_status := Failed, ns_current_attempt := 5, ns_output := Some incomplete_output, ns_last_failures := [js ''bug''],
      ns_attempts := [incomplete_attempt, broken_attempt 2, broken_attempt 3, broken_attempt 4, broken_attempt 5]\<rparr>"

definition stubborn_run :: run_state where
  "stubborn_run = (demo_run stubborn_graph [(js ''implement'', stubborn_state)])
     \<lparr>rs_status := Run_running, rs_phase := js ''execute'', rs_global_attempts := 5\<rparr>"

lemma stubborn_graph_ok: "graph_ok stubborn_graph"
proof -
  let ?index = "snd (index_nodes 0 Map.empty (gd_nodes stubborn_graph))"
  have "json_bound (j_graph stubborn_graph) \<le> MAX_GRAPH_STATE_BYTES"
    by (simp add: stubborn_graph_def stubborn_node_def example_node_def j_graph_def j_node_def j_opt_def j_strs_def
        j_loop_def j_nat_def MAX_GRAPH_STATE_BYTES_def)
  then have "graph_size_issues stubborn_graph = []"
    using serialized_bytes_bound [of "j_graph stubborn_graph"] by (simp add: graph_size_issues_Nil)
  moreover have "fst (index_nodes 0 Map.empty (gd_nodes stubborn_graph)) = []"
    by (simp add: stubborn_graph_def stubborn_node_def example_node_def check_def)
  moreover have "scan_nodes ?index Map.empty 0 (gd_nodes stubborn_graph) = []"
    by (simp add: stubborn_graph_def stubborn_node_def example_node_def node_issues_with_def gate_issues_Nil
        gates_ok_def requires_shell_def shell_gated_def node_gate_def node_inputs_def)
  ultimately have "graph_issues stubborn_graph = []" by (simp add: graph_issues_def split_beta)
  moreover have "graph_shape stubborn_graph"
    by (simp add: graph_shape_def stubborn_graph_def stubborn_node_def example_node_def node_shape_def sized_def example_ids)
  ultimately show ?thesis by (simp add: graph_ok_def)
qed

lemma stubborn_fields:
  "nd_agent stubborn_node = Implementer" "nd_id stubborn_node = js ''implement''" "max_attempts stubborn_node = 5"
  "\<not> requires_shell stubborn_node" "nd_depends_on stubborn_node = []"
  by (simp_all add: stubborn_node_def example_node_def max_attempts_def requires_shell_def shell_gated_def node_gate_def)

lemma bug_text: "short_text (js ''bug'')" "session_id_shape (js ''child'')"
  unfolding short_text_def by code_simp+

lemma incomplete_output_valid: "agent_output_valid Implementer incomplete_output"
proof -
  have "enforce_output_bytes Implementer incomplete_output = []"
    by (intro enforce_bytes_bound) (simp add: incomplete_output_def j_strs_def j_opt_def j_nat_def)
  then show ?thesis using bug_text
    by (simp add: agent_output_valid_def incomplete_output_def implement_shape_def implement_issues_def
        blocker_count_def bounded_strings_def)
qed

lemma stubborn_attempts_fine:
  "attempt_fine (js ''demo'') Live stubborn_node (Suc 0) incomplete_attempt"
  "1 \<le> n \<Longrightarrow> n \<le> 10000 \<Longrightarrow> attempt_fine (js ''demo'') Live stubborn_node n (broken_attempt n)"
proof -
  have out: "output_done incomplete_output = Some False" "output_artifact_path incomplete_output = None"
    by (simp_all add: incomplete_output_def)
  show "attempt_fine (js ''demo'') Live stubborn_node (Suc 0) incomplete_attempt"
    using incomplete_output_valid out bug_text
    by (simp add: attempt_fine_def attempt_checks node_context_def stubborn_fields example_done_attempt_def has_output_def
        example_ids artifact_of_run_def live_shell_gate_def incomplete_attempt_def is_attempt_detail_def attempt_shape_def
        bounded_strings_def)
  assume "1 \<le> n" "n \<le> 10000"
  then show "attempt_fine (js ''demo'') Live stubborn_node n (broken_attempt n)"
    using bug_text
    by (simp add: attempt_fine_def attempt_checks node_context_def stubborn_fields example_done_attempt_def has_output_def
        example_ids artifact_of_run_def live_shell_gate_def broken_attempt_def is_attempt_detail_def attempt_shape_def
        bounded_strings_def)
qed

lemma stubborn_node_fine: "node_fine (js ''demo'') Live stubborn_node stubborn_state"
proof -
  let ?as = "[incomplete_attempt, broken_attempt 2, broken_attempt 3, broken_attempt 4, broken_attempt 5]"
  have status: "na_status incomplete_attempt = Failed" "\<And>n. na_status (broken_attempt n) = Failed"
    "na_output incomplete_attempt = Some incomplete_output" "\<And>n. na_output (broken_attempt n) = None"
    by (simp_all add: incomplete_attempt_def broken_attempt_def)
  have detail: "is_attempt_detail incomplete_attempt" "is_attempt_detail (broken_attempt n)" for n
    by (simp_all add: incomplete_attempt_def broken_attempt_def is_attempt_detail_def example_done_attempt_def)
  have "history_fine (js ''demo'') Live stubborn_node ?as"
    unfolding history_fine_def
  proof (intro allI impI)
    fix k assume "k < length ?as"
    then have "k = 0 \<or> k = 1 \<or> k = 2 \<or> k = 3 \<or> k = 4" by auto
    then show "attempt_fine (js ''demo'') Live stubborn_node (Suc k) (?as ! k) \<and>
        (na_status (?as ! k) = Running \<longrightarrow> Suc k = length ?as)"
      using stubborn_attempts_fine(1) stubborn_attempts_fine(2) [of 2] stubborn_attempts_fine(2) [of 3]
        stubborn_attempts_fine(2) [of 4] stubborn_attempts_fine(2) [of 5] status
      by (elim disjE) (simp_all add: numeral_2_eq_2 numeral_3_eq_3 eval_nat_numeral)
  qed
  then show ?thesis using detail status bug_text
    by (simp add: node_fine_def stubborn_state_def initial_node_state_def hydrated_node_def bounded_strings_def
        final_status_simps latest_output_def stubborn_fields example_ids)
qed

lemma stubborn_lookup: "node_of stubborn_run i = (if i = js ''implement'' then Some stubborn_state else None)"
  "rs_graph stubborn_run = stubborn_graph" "rs_run_id stubborn_run = js ''demo''" "rs_mode stubborn_run = Live"
  "rs_nodes stubborn_run = [(js ''implement'', stubborn_state)]" "rs_status stubborn_run = Run_running"
  "gd_nodes stubborn_graph = [stubborn_node]"
  by (simp_all add: stubborn_run_def demo_run_def node_of_def stubborn_graph_def)

lemma stubborn_run_fine: "run_fine stubborn_run"
proof -
  have state: "ns_current_attempt stubborn_state = 5" "ns_status stubborn_state = Failed"
    by (simp_all add: stubborn_state_def)
  have "table_fine stubborn_run"
    unfolding table_fine_def stubborn_lookup
    using stubborn_graph_ok stubborn_node_fine
    by (simp add: nodes_match_def stubborn_lookup stubborn_fields edge_fine_def node_status_of_def total_attempts_def
        node_values_def state) (simp add: stubborn_run_def stubborn_graph_def)
  moreover have "header_shape stubborn_run"
    using example_texts by (simp add: header_shape_def stubborn_run_def demo_run_def long_text_def
        exact_string_def bounded_strings_def short_text_def sized_def example_ids)
  moreover have "header_hydrated stubborn_run" "run_ownership_issues stubborn_run = []"
    by (simp_all add: header_hydrated_def run_ownership_issues_def stubborn_run_def demo_run_def)
  ultimately show ?thesis using stubborn_lookup(6) by (intro base_fine_run_fine) (simp_all add: base_fine_def)
qed

theorem hidden_output_blocks_saves_witness:
  "run_issues (pe_sha example_store) stubborn_run = [] \<and>
   (\<exists>x. persist_run example_store 9 example_disk stubborn_run = (example_disk, Inl x))"
proof -
  have keys: "map fst (rs_nodes stubborn_run) = map nd_id (gd_nodes (rs_graph stubborn_run))"
    by (simp add: stubborn_lookup stubborn_fields)
  have node: "node_of stubborn_run (js ''implement'') = Some stubborn_state" "ns_output stubborn_state = Some incomplete_output"
    by (simp_all add: stubborn_lookup stubborn_state_def)
  have "list_all (\<lambda>a. na_output a = None) (take_last MAX_INLINE_ATTEMPTS_PER_NODE (ns_attempts stubborn_state))"
    by (simp add: stubborn_state_def take_last_def MAX_INLINE_ATTEMPTS_PER_NODE_def broken_attempt_def)
  from hidden_output_blocks_saves [OF run_fine_checks(3) [OF stubborn_run_fine] keys node this]
  show ?thesis using run_fine_checks(2) [OF stubborn_run_fine] by blast
qed

end
