(* ===== verification/Ownership.thy ===== *)
theory Ownership
  imports Fresh_Saves
begin

text \<open>
  \<open>src/ownership.ts\<close> with \<open>loadRunForOwner\<close> of \<open>src/store.ts\<close>: loading a run for the session
  that owns it, mutating it under its lock, and handing it to another session. Whether the lock is
  obtained, whether a corrupt manifest can be moved away and which session links lie beside the run
  are answers of the environment.
\<close>

section \<open>Loading for an owner\<close>

datatype ownership_error =
    Not_owner
  | Owned_run_missing
  | Target_invalid
  | Target_is_owner
  | Lock_unavailable
  | Store_failed store_error

text \<open>The session links by node and attempt, as far as they name the run, its owner and its directory.\<close>

type_synonym session_links = "jstr \<Rightarrow> nat \<Rightarrow> jstr option"

definition missing_session :: "node_attempt \<Rightarrow> bool" where
  "missing_session a \<longleftrightarrow> na_status a = Running \<and> non_empty (na_session_id a) = None"

definition reconcile_attempt :: "session_links \<Rightarrow> jstr \<Rightarrow> node_attempt \<Rightarrow> node_attempt" where
  "reconcile_attempt links i a =
     (if missing_session a
      then case links i (na_attempt a) of None \<Rightarrow> a | Some s \<Rightarrow> a\<lparr>na_session_id := Some s\<rparr>
      else a)"

definition reconcile_sessions :: "session_links \<Rightarrow> run_state \<Rightarrow> run_state" where
  "reconcile_sessions links run = run\<lparr>rs_nodes := map (\<lambda>e. (fst e,
     (snd e)\<lparr>ns_attempts := map (reconcile_attempt links (ns_id (snd e))) (ns_attempts (snd e))\<rparr>)) (rs_nodes run)\<rparr>"

definition sessions_recovered :: "session_links \<Rightarrow> run_state \<Rightarrow> bool" where
  "sessions_recovered links run \<longleftrightarrow>
     list_ex (\<lambda>st. list_ex (\<lambda>a. missing_session a \<and> links (ns_id st) (na_attempt a) \<noteq> None) (ns_attempts st))
       (node_values run)"

definition quarantined :: "bool \<Rightarrow> jstr \<Rightarrow> disk \<Rightarrow> disk" where
  "quarantined movable run_id disk =
     (if movable then disk\<lparr>dk_progress := (dk_progress disk)(run_id := None)\<rparr> else disk)"

definition stored_result :: "disk \<times> (store_error + run_state) \<Rightarrow> disk \<times> (ownership_error + run_state)" where
  "stored_result r = (fst r, case snd r of Inl x \<Rightarrow> Inl (Store_failed x) | Inr v \<Rightarrow> Inr v)"

definition load_run_for_owner ::
  "store_env \<Rightarrow> session_links \<Rightarrow> bool \<Rightarrow> nat \<Rightarrow> disk \<Rightarrow> jstr \<Rightarrow> jstr \<Rightarrow> disk \<times> (ownership_error + run_state)" where
  "load_run_for_owner env links movable now disk run_id session =
     (case dk_progress disk run_id of
        None \<Rightarrow> (disk, Inl Owned_run_missing)
      | Some stored \<Rightarrow>
          if rs_owner_session_id stored \<noteq> session then (disk, Inl Not_owner)
          else (case read_projected env disk run_id of
              Inl x \<Rightarrow> (quarantined movable run_id disk, Inl (Store_failed x))
            | Inr state \<Rightarrow>
                (case load_run env disk run_id of
                   Inl x \<Rightarrow> (disk, Inl (Store_failed x))
                 | Inr loaded \<Rightarrow>
                     if rs_owner_session_id loaded \<noteq> session then (disk, Inl Not_owner)
                     else if sessions_recovered links loaded
                     then stored_result (persist_run env now disk (reconcile_sessions links loaded))
                     else (disk, Inr loaded))))"

definition mutate_owned_run ::
  "store_env \<Rightarrow> session_links \<Rightarrow> bool \<Rightarrow> bool \<Rightarrow> nat \<Rightarrow> disk \<Rightarrow> jstr \<Rightarrow> jstr \<Rightarrow> (run_state \<Rightarrow> run_state) \<Rightarrow>
   disk \<times> (ownership_error + run_state)" where
  "mutate_owned_run env links movable locked now disk run_id session mutate =
     (if \<not> locked then (disk, Inl Lock_unavailable)
      else (case load_run_for_owner env links movable now disk run_id session of
          (disk', Inl x) \<Rightarrow> (disk', Inl x)
        | (disk', Inr fresh) \<Rightarrow>
            if rs_owner_session_id fresh \<noteq> session then (disk', Inl Not_owner)
            else stored_result (persist_run env now disk' (mutate fresh))))"

section \<open>Transfer\<close>

definition transfer_target :: "jstr \<Rightarrow> jstr \<Rightarrow> ownership_error + jstr" where
  "transfer_target current new =
     (let target = js_trim new in
      if target = [] \<or> 256 < length target then Inl Target_invalid
      else if target = current then Inl Target_is_owner
      else Inr target)"

definition apply_transfer :: "nat \<Rightarrow> jstr \<Rightarrow> jstr \<Rightarrow> run_state \<Rightarrow> run_state" where
  "apply_transfer now current target run = run\<lparr>
     rs_owner_transfers := rs_owner_transfers run @
       [\<lparr>ot_from_session_id = current, ot_to_session_id = target, ot_by_session_id = current, ot_transferred_at = now\<rparr>],
     rs_owner_session_id := target\<rparr>"

definition transfer_run_ownership ::
  "store_env \<Rightarrow> session_links \<Rightarrow> bool \<Rightarrow> bool \<Rightarrow> nat \<Rightarrow> disk \<Rightarrow> jstr \<Rightarrow> jstr \<Rightarrow> jstr \<Rightarrow>
   disk \<times> (ownership_error + run_state)" where
  "transfer_run_ownership env links movable locked now disk run_id current new =
     (case transfer_target current new of
        Inl x \<Rightarrow> (disk, Inl x)
      | Inr target \<Rightarrow>
          mutate_owned_run env links movable locked now disk run_id current (apply_transfer now current target))"

section \<open>The audited chain\<close>

lemma apply_transfer_fields [simp]:
  "rs_owner_session_id (apply_transfer now current target run) = target"
  "rs_nodes (apply_transfer now current target run) = rs_nodes run"
  "rs_graph (apply_transfer now current target run) = rs_graph run"
  "rs_run_id (apply_transfer now current target run) = rs_run_id run"
  "rs_revision (apply_transfer now current target run) = rs_revision run"
  "node_of (apply_transfer now current target run) i = node_of run i"
  "node_values (apply_transfer now current target run) = node_values run"
  "rs_state_projection (apply_transfer now current target run) = rs_state_projection run"
  by (simp_all add: apply_transfer_def node_of_def node_values_def)

definition last_transfer_at :: "nat option \<Rightarrow> owner_transfer list \<Rightarrow> nat option" where
  "last_transfer_at previous ts = (if ts = [] then previous else Some (ot_transferred_at (last ts)))"

text \<open>A chain that ends at the acting owner is extended by a transfer to somebody else.\<close>

lemma transfer_chain_snoc:
  assumes "fst (transfer_issues expected previous ts) = []" "snd (transfer_issues expected previous ts) = current"
    "opt_all (\<lambda>p. p \<le> now) (last_transfer_at previous ts)" "current \<noteq> target"
  shows "transfer_issues expected previous (ts @
      [\<lparr>ot_from_session_id = current, ot_to_session_id = target, ot_by_session_id = current, ot_transferred_at = now\<rparr>]) =
    ([], target)"
  using assms
proof (induction ts arbitrary: expected previous)
  case (Cons t ts)
  then show ?case
    by (cases "ts = []") (auto simp: Let_def split_beta last_transfer_at_def)
qed (auto simp: last_transfer_at_def)

lemma transfer_accepted:
  assumes "run_body_shape run" "run_issues sha run = []" "rs_state_projection run = None"
    "transfer_target (rs_owner_session_id run) new = Inr target" "utf8_bytes target \<le> 256"
    "length (rs_owner_transfers run) < 1000" "opt_all (\<lambda>t. t \<le> now) (last_transfer_at None (rs_owner_transfers run))"
  shows "run_body_shape (apply_transfer now (rs_owner_session_id run) target run) \<and>
    run_issues sha (apply_transfer now (rs_owner_session_id run) target run) = [] \<and>
    rs_owner_session_id (apply_transfer now (rs_owner_session_id run) target run) = target"
proof -
  let ?current = "rs_owner_session_id run" let ?run = "apply_transfer now ?current target run"
  have target: "target = js_trim new" "target \<noteq> []" "length target \<le> 256" "target \<noteq> ?current"
    using assms(4) by (auto simp: transfer_target_def Let_def split: if_splits)
  have shape: "session_id_shape target"
    using target assms(5) js_trim_idem [of new] by (simp add: session_id_shape_def exact_string_def Suc_le_eq)
  moreover have "session_id_shape ?current" using assms(1) by (simp add: run_body_shape_def)
  ultimately have "run_body_shape ?run" using assms(1,6)
    unfolding run_body_shape_def by (simp add: apply_transfer_def transfer_shape_def)
  moreover have "run_ownership_issues ?run = []"
  proof -
    obtain chain owner where c: "transfer_issues (rs_parent_session_id run) None (rs_owner_transfers run) = (chain, owner)"
      by fastforce
    have "run_ownership_issues run = []" using assms(2) by (simp add: run_issues_def)
    then have "chain = []" "owner = ?current" using c by (simp_all add: run_ownership_issues_def)
    then have "transfer_issues (rs_parent_session_id run) None (rs_owner_transfers ?run) = ([], target)"
      using transfer_chain_snoc [of "rs_parent_session_id run" None "rs_owner_transfers run" ?current now target] c
        assms(7) target(4) by (simp add: apply_transfer_def)
    then show ?thesis by (simp add: run_ownership_issues_def) (simp add: apply_transfer_def)
  qed
  moreover have "run_table_issues sha ?run = run_table_issues sha run"
    by (rule table_issues_local) (simp add: same_table_def same_context_def apply_transfer_def)
  moreover have "run_status_issues ?run = run_status_issues run"
    by (simp add: run_status_issues_def any_failed_def all_terminal_def node_status_of_def) (simp add: apply_transfer_def)
  moreover have "run_authorization_issues ?run = run_authorization_issues run"
  proof -
    have "rs_filesystem_root_authorizations ?run = rs_filesystem_root_authorizations run"
      "rs_filesystem_root_authorizations_ref ?run = rs_filesystem_root_authorizations_ref run"
      "rs_filesystem_root_authorizations_omitted ?run = rs_filesystem_root_authorizations_omitted run"
      by (simp_all add: apply_transfer_def)
    then show ?thesis by (simp only: run_authorization_issues_def apply_transfer_fields)
  qed
  ultimately show ?thesis using assms(2,3) by (simp add: run_issues_def run_projection_issues_def)
qed



section \<open>Exclusive ownership\<close>

lemma hydrate_visible_keeps:
  assumes "hydrate_visible_run_data env objs state = Inr v"
  shows "rs_run_id v = rs_run_id state"
proof -
  obtain run where "update_nodes (hydrate_visible_node env objs) (state\<lparr>rs_state_projection := None\<rparr>) = Inr run" "v = run"
    using assms by (auto simp: hydrate_visible_run_data_def)
  then show ?thesis using same_but_nodes_selectors(1) [OF update_nodes_same] by fastforce
qed

text \<open>What a successful save stores and returns.\<close>

lemma persist_run_stores:
  assumes "persist_run env now disk run = (disk', Inr v)"
  shows "\<exists>new. dk_progress disk' (rs_run_id run) = Some new \<and> rs_owner_session_id new = rs_owner_session_id run"
    "rs_run_id v = rs_run_id run"
proof -
  obtain prepared p objs where s: "plan_save env now disk run = Inr (prepared, p)" "verify_written env objs p = Inr v"
    "disk' = disk\<lparr>dk_objects := objs, dk_progress := (dk_progress disk)(rs_run_id (pr_state p) \<mapsto> pr_state p)\<rparr>"
    by (rule persist_run_Inr [OF assms])
  obtain current :: run_state where c: 
    "prepare_run_for_immutable_commit env (dk_objects disk) (rs_owner_session_id current) (next_candidate now run) = Inr prepared"
    "project_run_state (base_env env) prepared = Inr p"
    by (rule plan_save_Inr [OF s(1)]) blast
  note K = project_run_keeps [OF c(2)] prepare_keeps [OF c(1)]
  show "\<exists>new. dk_progress disk' (rs_run_id run) = Some new \<and> rs_owner_session_id new = rs_owner_session_id run"
    using K s(3) by simp
  have "hydrate_visible_run_data env objs (pr_state p) = Inr v" using s(2) by (auto simp: verify_written_def)
  then show "rs_run_id v = rs_run_id run" using hydrate_visible_keeps K by simp
qed

lemma load_run_for_owner_Inr:
  assumes "load_run_for_owner env links movable now disk i session = (disk', Inr fresh)"
  shows "rs_run_id fresh = i" "\<exists>stored. dk_progress disk i = Some stored \<and> rs_owner_session_id stored = session"
proof -
  obtain stored where stored: "dk_progress disk i = Some stored" "rs_owner_session_id stored = session"
    using assms by (auto simp: load_run_for_owner_def split: option.splits if_splits)
  then show "\<exists>stored. dk_progress disk i = Some stored \<and> rs_owner_session_id stored = session" by blast
  obtain state where state: "read_projected env disk i = Inr state"
    using assms stored by (auto simp: load_run_for_owner_def split: sum.splits)
  obtain loaded where loaded: "load_run env disk i = Inr loaded"
    using assms stored state by (auto simp: load_run_for_owner_def split: sum.splits)
  have id: "rs_run_id loaded = i"
    using loaded state read_projected_Inr(2) [OF state] hydrate_visible_keeps by (auto simp: load_run_def)
  show "rs_run_id fresh = i"
  proof (cases "rs_owner_session_id loaded = session \<and> sessions_recovered links loaded")
    case True
    then have "stored_result (persist_run env now disk (reconcile_sessions links loaded)) = (disk', Inr fresh)"
      using assms stored state loaded by (simp add: load_run_for_owner_def)
    then have "persist_run env now disk (reconcile_sessions links loaded) = (disk', Inr fresh)"
      by (cases "persist_run env now disk (reconcile_sessions links loaded)") (auto simp: stored_result_def split: sum.splits)
    from persist_run_stores(2) [OF this] show ?thesis using id by (simp add: reconcile_sessions_def)
  next
    case False
    then show ?thesis using assms stored state loaded id
      by (auto simp: load_run_for_owner_def split: if_splits)
  qed
qed

lemma foreign_session_refused:
  assumes "dk_progress disk i = Some stored" "rs_owner_session_id stored \<noteq> session"
  shows "\<exists>x. mutate_owned_run env links movable locked now disk i session f = (disk, Inl x)"
  using assms by (simp add: mutate_owned_run_def load_run_for_owner_def)


text \<open>The stored run of the example after its first save, and its transfer.\<close>

definition saved_example_disk :: disk where
  "saved_example_disk = example_disk\<lparr>dk_progress :=
     [js ''demo'' \<mapsto> pledged_run (base_env example_store) (next_candidate 9 example_open_run)]\<rparr>"

lemma example_transferred:
  "\<exists>disk' v. transfer_run_ownership example_store (\<lambda>i n. None) True True 11 saved_example_disk (js ''demo'')
     (js ''owner'') (js ''child'') = (disk', Inr v)"
proof -
  let ?run = "next_candidate 9 example_open_run" let ?new = "apply_transfer 11 (js ''owner'') (js ''child'') ?run"
  have fine: "run_fine example_open_run" by (rule base_fine_run_fine [OF example_open_run_fine(1)]) simp
  have run: "rs_owner_session_id ?run = js ''owner''" "rs_owner_transfers ?run = []" "rs_state_projection ?run = None"
    "rs_revision ?run = 2"
    by (simp_all add: next_candidate_def example_open_run_def demo_run_def)
  have acc: "run_body_shape ?run" "run_issues sha ?run = []" for sha
    using body_next run_fine_checks [OF fine] by (simp_all add: example_open_run_def demo_run_def)
  have fresh: "fresh_run ?run" by (rule fresh_next [OF example_fresh])
  have rev: "revision_shape ?run" by (simp only: revision_shape_def run) (simp add: MAX_SAFE_INTEGER_def)
  note L = load_pledged [OF fresh acc rev example_store_answers(1,2), of saved_example_disk]
  have load: "read_projected example_store saved_example_disk (js ''demo'') = Inr (pledged_run (base_env example_store) ?run)"
    "load_run example_store saved_example_disk (js ''demo'') = Inr ?run"
    using L by (simp_all add: saved_example_disk_def example_store_answers)
  have child: "js_trim (js ''child'') = js ''child''" "utf8_bytes (js ''child'') \<le> 256" by code_simp+
  then have target: "transfer_target (js ''owner'') (js ''child'') = Inr (js ''child'')" by (simp add: transfer_target_def)
  have new: "run_body_shape ?new" "run_issues (pe_sha example_store) ?new = []"
    using transfer_accepted [OF acc run(3), of "js ''child''" "js ''child''" 11 "pe_sha example_store"] child target run
    by (simp_all add: last_transfer_at_def)
  have fresh_new: "fresh_run ?new"
    using fresh by (simp add: fresh_run_def hydrated_run_def) (simp add: apply_transfer_def)
  have "\<exists>disk'. persist_run example_store 11 saved_example_disk ?new = (disk', Inr (next_candidate 11 ?new))"
    by (rule exI, rule fresh_save [OF fresh_new new, where current = "pledged_run (base_env example_store) ?run"])
      (use load(1) run(4) in \<open>simp_all add: MAX_SAFE_INTEGER_def example_store_answers\<close>)
  then obtain disk' where p: "persist_run example_store 11 saved_example_disk ?new = (disk', Inr (next_candidate 11 ?new))"
    by blast
  have stored: "dk_progress saved_example_disk (js ''demo'') = Some (pledged_run (base_env example_store) ?run)"
    by (simp add: saved_example_disk_def)
  have "\<not> sessions_recovered (\<lambda>i n. None) ?run" by (simp add: sessions_recovered_def list_ex_iff)
  then have "load_run_for_owner example_store (\<lambda>i n. None) True 11 saved_example_disk (js ''demo'') (js ''owner'') =
      (saved_example_disk, Inr ?run)"
    using load stored run(1) by (simp add: load_run_for_owner_def del: next_candidate_fields)
  then have "transfer_run_ownership example_store (\<lambda>i n. None) True True 11 saved_example_disk (js ''demo'')
      (js ''owner'') (js ''child'') = stored_result (persist_run example_store 11 saved_example_disk ?new)"
    using target run(1) by (simp add: transfer_run_ownership_def mutate_owned_run_def)
  then show ?thesis using p by (auto simp: stored_result_def)
qed


end
