(* ===== verification/Models.thy ===== *)
theory Models
  imports Graph_Schema Revisions
begin

text \<open>
  \<open>src/models.ts\<close>: reading model names from the host configuration, the provenance of the model
  of every role, and the project's own settings with their compare-and-swap update. The content of
  the settings file is an argument: absent, refused by its schema, or a settings object.
\<close>

section \<open>References to models\<close>

definition parse_trimmed :: "nat \<Rightarrow> jstr \<Rightarrow> jstr option" where
  "parse_trimmed maximum s = (if sized 1 maximum (js_trim s) then Some (js_trim s) else None)"

text \<open>\<open>ModelVariantSchema\<close> and \<open>ModelRefSchema\<close>; parsing trims.\<close>

definition parse_variant :: "json option \<Rightarrow> jstr option" where
  "parse_variant v = (case v of Some (J_str s) \<Rightarrow> parse_trimmed 128 s | _ \<Rightarrow> None)"

definition parse_model_ref :: "model_ref \<Rightarrow> model_ref option" where
  "parse_model_ref m =
     (case (parse_trimmed 128 (mr_providerID m), parse_trimmed 256 (mr_modelID m)) of
        (Some p, Some i) \<Rightarrow>
          (case mr_variant m of
             None \<Rightarrow> Some \<lparr>mr_providerID = p, mr_modelID = i, mr_variant = None\<rparr>
           | Some v \<Rightarrow> map_option (\<lambda>w. \<lparr>mr_providerID = p, mr_modelID = i, mr_variant = Some w\<rparr>)
               (parse_trimmed 128 v))
      | _ \<Rightarrow> None)"

definition index_of :: "code_unit \<Rightarrow> jstr \<Rightarrow> nat option" where
  "index_of c s = (let k = length (takeWhile (\<lambda>d. d \<noteq> c) s) in if k < length s then Some k else None)"

definition parse_configured_model :: "json option \<Rightarrow> model_ref option" where
  "parse_configured_model v =
     (case v of
        Some (J_str s) \<Rightarrow>
          (case index_of 0x2F s of
             None \<Rightarrow> None
           | Some slash \<Rightarrow>
               if slash = 0 \<or> slash = length s - 1 then None
               else parse_model_ref \<lparr>mr_providerID = take slash s, mr_modelID = drop (slash + 1) s, mr_variant = None\<rparr>)
      | _ \<Rightarrow> None)"

section \<open>Resolutions\<close>

text \<open>\<open>Record<ModelRole, ModelResolution>\<close> and \<open>Partial<Record<ModelAgent, ModelRef>>\<close>.\<close>

type_synonym resolution_map = "model_role \<Rightarrow> model_resolution"
type_synonym agent_models = "alg_agent \<Rightarrow> model_ref option"

definition truthy_text :: "jstr option \<Rightarrow> jstr option" where
  "truthy_text s = (if s = Some [] then None else s)"

definition resolved :: "model_ref \<Rightarrow> model_resolution_source \<Rightarrow> model_resolution" where
  "resolved m source = \<lparr>mres_source = source, mres_providerID = Some (mr_providerID m),
     mres_modelID = Some (mr_modelID m), mres_variant = truthy_text (mr_variant m)\<rparr>"

definition inherited :: "model_resolution_source \<Rightarrow> model_resolution" where
  "inherited source = \<lparr>mres_source = source, mres_providerID = None, mres_modelID = None, mres_variant = None\<rparr>"

definition field_of :: "json option \<Rightarrow> string \<Rightarrow> json option" where
  "field_of v key = (case v of Some (J_obj ms) \<Rightarrow> map_of ms (js key) | _ \<Rightarrow> None)"

fun role_model :: "json option \<Rightarrow> string list \<Rightarrow> model_ref option" where
  "role_model config [] = None"
| "role_model config (name # names) =
     (let entry = field_of (field_of config ''agent'') name in
      case parse_configured_model (field_of entry ''model'') of
        None \<Rightarrow> role_model config names
      | Some explicit \<Rightarrow>
          (case parse_variant (field_of entry ''variant'') of
             Some v \<Rightarrow> Some (explicit\<lparr>mr_variant := Some v\<rparr>)
           | None \<Rightarrow> Some explicit))"

fun role_names :: "model_role \<Rightarrow> string list" where
  "role_names Role_planner = [''planner'', ''orchestrator'']"
| "role_names (Role_agent Explorer) = [''explorer'']"
| "role_names (Role_agent Researcher) = [''researcher'']"
| "role_names (Role_agent Implementer) = [''implementer'']"
| "role_names (Role_agent Checker) = [''checker'']"
| "role_names r = []"

text \<open>\<open>ModelResolutionSchema\<close> and \<open>ModelResolutionMapSchema\<close>.\<close>

definition parse_optional :: "nat \<Rightarrow> jstr option \<Rightarrow> jstr option option" where
  "parse_optional maximum s = (case s of None \<Rightarrow> Some None | Some t \<Rightarrow> map_option Some (parse_trimmed maximum t))"

definition parse_resolution :: "model_resolution \<Rightarrow> model_resolution option" where
  "parse_resolution m =
     (case (parse_optional 128 (mres_providerID m), parse_optional 256 (mres_modelID m), parse_optional 128 (mres_variant m)) of
        (Some p, Some i, Some v) \<Rightarrow>
          if (p = None) \<noteq> (i = None) \<or> v \<noteq> None \<and> i = None then None
          else Some \<lparr>mres_source = mres_source m, mres_providerID = p, mres_modelID = i, mres_variant = v\<rparr>
      | _ \<Rightarrow> None)"

definition parse_resolution_map :: "resolution_map \<Rightarrow> resolution_map option" where
  "parse_resolution_map f =
     (if list_all (\<lambda>r. parse_resolution (f r) \<noteq> None) MODEL_ROLES
      then Some (\<lambda>r. case parse_resolution (f r) of None \<Rightarrow> f r | Some m \<Rightarrow> m) else None)"

text \<open>\<open>{...resolutions, repair: {...resolutions.implementer}}\<close>\<close>

definition with_repair :: "resolution_map \<Rightarrow> resolution_map" where
  "with_repair f = f(Role_repair := f (Role_agent Implementer))"

definition configured_model_resolutions :: "json option \<Rightarrow> resolution_map option" where
  "configured_model_resolutions config =
     (let fallback = parse_configured_model (field_of config ''model'');
          base = (case fallback of Some m \<Rightarrow> resolved m Opencode_top_level_default | None \<Rightarrow> inherited Inherited_sdk_default)
      in parse_resolution_map ((with_repair (\<lambda>r.
           case role_model config (role_names r) of
             Some m \<Rightarrow> resolved m Opencode_role_config
           | None \<Rightarrow> base))(Role_default := base)))"

text \<open>\<open>AgentModelMapSchema\<close>\<close>

definition parse_agent_models :: "agent_models \<Rightarrow> agent_models option" where
  "parse_agent_models f =
     (if list_all (\<lambda>a. opt_all (\<lambda>m. parse_model_ref m \<noteq> None) (f a)) MODEL_AGENTS
      then Some (\<lambda>a. Option.bind (f a) parse_model_ref) else None)"

definition model_snapshot_from_resolution :: "resolution_map \<Rightarrow> agent_models option" where
  "model_snapshot_from_resolution f =
     parse_agent_models (\<lambda>a. if a \<notin> set MODEL_AGENTS then None else
       (case (truthy_text (mres_providerID (f (Role_agent a))), truthy_text (mres_modelID (f (Role_agent a)))) of
          (Some p, Some i) \<Rightarrow> Some \<lparr>mr_providerID = p, mr_modelID = i, mr_variant = truthy_text (mres_variant (f (Role_agent a)))\<rparr>
        | _ \<Rightarrow> None))"

definition configured_agent_models :: "json option \<Rightarrow> agent_models option" where
  "configured_agent_models config = Option.bind (configured_model_resolutions config) model_snapshot_from_resolution"

definition override :: "agent_models \<Rightarrow> model_resolution_source \<Rightarrow> resolution_map \<Rightarrow> resolution_map" where
  "override models source f = (\<lambda>r.
     case r of
       Role_agent a \<Rightarrow> if a \<in> set MODEL_AGENTS
         then (case models a of Some m \<Rightarrow> resolved m source | None \<Rightarrow> f r) else f r
     | _ \<Rightarrow> f r)"

text \<open>The models of the project come from \<open>loadModelSettings\<close>.\<close>

definition snapshot_model_resolutions ::
  "agent_models \<Rightarrow> resolution_map option \<Rightarrow> agent_models \<Rightarrow> resolution_map option" where
  "snapshot_model_resolutions project_models configured legacy =
     (let base = (case configured of
          Some f \<Rightarrow> f
        | None \<Rightarrow> with_repair (override legacy Legacy_unknown (\<lambda>r. inherited Inherited_sdk_default)))
      in parse_resolution_map (with_repair (override project_models Alg_project_override base)))"

definition snapshot_effective_models :: "agent_models \<Rightarrow> agent_models \<Rightarrow> agent_models option" where
  "snapshot_effective_models project_models configured =
     Option.bind (snapshot_model_resolutions project_models None configured) model_snapshot_from_resolution"

definition model_resolutions_for_run :: "agent_models \<Rightarrow> resolution_map option \<Rightarrow> resolution_map option" where
  "model_resolutions_for_run snapshot resolution =
     (case resolution of
        Some f \<Rightarrow> Some f
      | None \<Rightarrow> parse_resolution_map (with_repair (override snapshot Legacy_unknown (\<lambda>r. inherited Legacy_unknown))))"

section \<open>Project settings\<close>

record model_settings =
  ms_revision :: nat
  ms_models :: agent_models
  ms_updated_at :: nat

datatype settings_file = No_file | Refused_file | Settings_file model_settings

datatype settings_error = Settings_corrupt | Settings_changed | Settings_invalid | Settings_missing_selection

definition empty_model_settings :: model_settings where
  "empty_model_settings = \<lparr>ms_revision = 0, ms_models = (\<lambda>a. None), ms_updated_at = 0\<rparr>"

definition load_model_settings :: "settings_file \<Rightarrow> settings_error + model_settings" where
  "load_model_settings file =
     (case file of No_file \<Rightarrow> Inr empty_model_settings | Refused_file \<Rightarrow> Inl Settings_corrupt | Settings_file s \<Rightarrow> Inr s)"

definition parse_model_settings :: "model_settings \<Rightarrow> settings_error + model_settings" where
  "parse_model_settings s =
     (case parse_agent_models (ms_models s) of
        None \<Rightarrow> Inl Settings_invalid
      | Some m \<Rightarrow> guard (ms_revision s \<le> 9007199254740991) Settings_invalid (Inr (s\<lparr>ms_models := m\<rparr>)))"

definition save_model_settings ::
  "nat \<Rightarrow> settings_file \<Rightarrow> agent_models \<Rightarrow> nat option \<Rightarrow> settings_error + model_settings" where
  "save_model_settings now file models previous_revision =
     (case parse_agent_models models of
        None \<Rightarrow> Inl Settings_invalid
      | Some parsed_models \<Rightarrow>
          sbind (load_model_settings file) (\<lambda>previous.
            guard (opt_all (\<lambda>n. ms_revision previous = n) previous_revision) Settings_changed
              (parse_model_settings \<lparr>ms_revision = ms_revision previous + 1, ms_models = parsed_models, ms_updated_at = now\<rparr>)))"

definition or_else :: "'a option \<Rightarrow> 'a \<Rightarrow> 'a" where
  "or_else v d = (case v of None \<Rightarrow> d | Some x \<Rightarrow> x)"

text \<open>
  The settings are read once to edit them and again under the lock; \<open>before\<close> and \<open>file\<close> are the
  two contents.
\<close>

definition set_agent_model ::
  "nat \<Rightarrow> settings_file \<Rightarrow> settings_file \<Rightarrow> alg_agent \<Rightarrow> model_ref option \<Rightarrow> nat option \<Rightarrow> settings_error + model_settings" where
  "set_agent_model now before file agent model previous_revision =
     guard (agent \<in> set MODEL_AGENTS) Settings_invalid
       (sbind (load_model_settings before) (\<lambda>current.
         case model of
           None \<Rightarrow> save_model_settings now file ((ms_models current)(agent := None))
             (Some (or_else previous_revision (ms_revision current)))
         | Some m \<Rightarrow>
             (case parse_model_ref m of
                None \<Rightarrow> Inl Settings_invalid
              | Some x \<Rightarrow> save_model_settings now file ((ms_models current)(agent := Some x))
                  (Some (or_else previous_revision (ms_revision current))))))"

definition set_agent_model_variant ::
  "nat \<Rightarrow> settings_file \<Rightarrow> settings_file \<Rightarrow> alg_agent \<Rightarrow> jstr option \<Rightarrow> nat option \<Rightarrow> settings_error + model_settings" where
  "set_agent_model_variant now before file agent variant previous_revision =
     guard (agent \<in> set MODEL_AGENTS) Settings_invalid
       (sbind (load_model_settings before) (\<lambda>current.
         case ms_models current agent of
           None \<Rightarrow> Inl Settings_missing_selection
         | Some selected \<Rightarrow>
             guard (opt_all (\<lambda>v. parse_trimmed 128 v \<noteq> None) variant) Settings_invalid
               (case parse_model_ref (selected\<lparr>mr_variant := Option.bind variant (parse_trimmed 128)\<rparr>) of
                  None \<Rightarrow> Inl Settings_invalid
                | Some x \<Rightarrow> save_model_settings now file ((ms_models current)(agent := Some x))
                    (Some (or_else previous_revision (ms_revision current))))))"

text \<open>
  A save as a request: the time, the models and the revision it starts from. A file that cannot be read
  is moved away if that is possible.
\<close>

fun settings_request ::
  "bool \<times> nat \<times> agent_models \<times> nat \<Rightarrow> settings_file \<Rightarrow> settings_file \<times> (settings_error + model_settings)" where
  "settings_request (movable, now, models, previous) file =
     (case save_model_settings now file models (Some previous) of
        Inl x \<Rightarrow> (if file = Refused_file \<and> x = Settings_corrupt \<and> movable then No_file else file, Inl x)
      | Inr s \<Rightarrow> (Settings_file s, Inr s))"

definition settings_base :: "bool \<times> nat \<times> agent_models \<times> nat \<Rightarrow> nat" where
  "settings_base w = snd (snd (snd w))"

definition settings_revision :: "unit \<Rightarrow> settings_file \<Rightarrow> nat option" where
  "settings_revision k file = Some (case file of Settings_file s \<Rightarrow> ms_revision s | _ \<Rightarrow> 0)"

interpretation settings: revisioned_store settings_request settings_revision "\<lambda>w. ()" settings_base
proof (unfold_locales, goal_cases)
  case (1 w d x k)
  then show ?case by (cases w) (auto simp: settings_revision_def split: sum.splits if_splits)
next
  case (2 w d v)
  then show ?case
    by (cases w; cases d)
      (auto simp: settings_revision_def settings_base_def save_model_settings_def parse_model_settings_def
        load_model_settings_def empty_model_settings_def split: sum.splits option.splits if_splits)
qed simp

text \<open>Two writers of the project's settings never overwrite each other unseen.\<close>

lemma settings_update_not_lost:
  assumes "settings_request w file = (file', Inr s)" "settings_base w' \<le> settings_base w"
  shows "\<exists>x. snd (settings_request w' (after_saves settings_request ws file')) = Inl x"
proof -
  have "snd (settings_request w file) = Inr s" using assms(1) by simp
  from settings.no_lost_update [OF this _ assms(2)] show ?thesis using assms(1) by simp
qed

section \<open>Every resolution is valid\<close>

definition model_valid :: "model_ref \<Rightarrow> bool" where
  "model_valid m \<longleftrightarrow> parse_model_ref m = Some m"

definition resolution_valid :: "model_resolution \<Rightarrow> bool" where
  "resolution_valid m \<longleftrightarrow> parse_resolution m = Some m"

lemma parse_trimmed_again: "parse_trimmed n s = Some t \<Longrightarrow> parse_trimmed n t = Some t"
  using js_trim_idem [of s] by (auto simp: parse_trimmed_def js_trimmed_def split: if_splits)

lemma parse_trimmed_not_empty: "parse_trimmed n s \<noteq> Some []"
  by (auto simp: parse_trimmed_def sized_def split: if_splits)

lemma parse_model_ref_valid:
  assumes "parse_model_ref m = Some x"
  shows "model_valid x"
  using assms parse_trimmed_again
  by (fastforce simp: model_valid_def parse_model_ref_def split: option.splits)

lemma model_valid_texts:
  assumes "model_valid m"
  shows "parse_trimmed 128 (mr_providerID m) = Some (mr_providerID m)"
    "parse_trimmed 256 (mr_modelID m) = Some (mr_modelID m)"
    "mr_variant m = Some v \<Longrightarrow> parse_trimmed 128 v = Some v"
  using assms by (cases m; auto simp: model_valid_def parse_model_ref_def split: option.splits)+

lemma resolved_valid:
  assumes "model_valid m"
  shows "resolution_valid (resolved m source)"
proof (cases "mr_variant m")
  case None
  then show ?thesis using model_valid_texts [OF assms]
    by (simp add: resolution_valid_def resolved_def parse_resolution_def parse_optional_def truthy_text_def)
next
  case (Some v)
  then have "v \<noteq> []" using model_valid_texts(3) [OF assms] parse_trimmed_not_empty by metis
  then show ?thesis using model_valid_texts [OF assms] Some
    by (simp add: resolution_valid_def resolved_def parse_resolution_def parse_optional_def truthy_text_def)
qed

lemma inherited_valid: "resolution_valid (inherited source)"
  by (simp add: resolution_valid_def inherited_def parse_resolution_def parse_optional_def)

lemma parse_resolution_map_valid:
  assumes "\<And>r. r \<in> set MODEL_ROLES \<Longrightarrow> resolution_valid (f r)"
  shows "\<exists>g. parse_resolution_map f = Some g \<and> (\<forall>r \<in> set MODEL_ROLES. g r = f r)"
  using assms by (simp add: parse_resolution_map_def resolution_valid_def list_all_iff)

lemma parse_configured_valid: "parse_configured_model v = Some m \<Longrightarrow> model_valid m"
  by (auto simp: parse_configured_model_def Let_def split: option.splits json.splits if_splits
      intro: parse_model_ref_valid)

lemma with_variant_valid:
  assumes "model_valid m" "parse_trimmed 128 s = Some v"
  shows "model_valid (m\<lparr>mr_variant := Some v\<rparr>)"
  using model_valid_texts(1,2) [OF assms(1)] parse_trimmed_again [OF assms(2)]
  by (simp add: model_valid_def parse_model_ref_def)

lemma role_model_valid: "role_model config names = Some m \<Longrightarrow> model_valid m"
proof (induction names)
  case (Cons name names)
  then show ?case
    using parse_configured_valid with_variant_valid
    by (auto simp: Let_def parse_variant_def split: option.splits json.splits)
qed simp

lemma override_valid:
  assumes "list_all (\<lambda>a. opt_all model_valid (models a)) MODEL_AGENTS" "resolution_valid (f r)"
  shows "resolution_valid (override models source f r)"
proof (cases r)
  case (Role_agent a)
  then show ?thesis using assms resolved_valid
    by (cases "models a") (auto simp: override_def list_all_iff)
qed (use assms in \<open>simp_all add: override_def\<close>)

lemma configured_base_valid:
  "resolution_valid (case parse_configured_model v of Some m \<Rightarrow> resolved m source | None \<Rightarrow> inherited source')"
  using parse_configured_valid resolved_valid inherited_valid by (cases "parse_configured_model v") auto

lemma with_repair_simps [simp]:
  "with_repair f Role_repair = f (Role_agent Implementer)" "with_repair f Role_planner = f Role_planner"
  "with_repair f (Role_agent a) = f (Role_agent a)" "with_repair f Role_default = f Role_default"
  by (simp_all add: with_repair_def)

lemma roles: "set MODEL_ROLES = {Role_planner, Role_repair, Role_default} \<union> Role_agent ` set MODEL_AGENTS"
  by (auto simp: MODEL_ROLES_def MODEL_AGENTS_def)

text \<open>The model of an agent and where it comes from: the project, its role in the host
configuration, or the default model of the configuration.\<close>

definition selected_model :: "agent_models \<Rightarrow> json option \<Rightarrow> alg_agent \<Rightarrow> (model_ref \<times> model_resolution_source) option" where
  "selected_model project_models config a =
     (case project_models a of
        Some m \<Rightarrow> Some (m, Alg_project_override)
      | None \<Rightarrow>
          (case role_model config (role_names (Role_agent a)) of
             Some m \<Rightarrow> Some (m, Opencode_role_config)
           | None \<Rightarrow> map_option (\<lambda>m. (m, Opencode_top_level_default)) (parse_configured_model (field_of config ''model''))))"

definition resolution_of :: "(model_ref \<times> model_resolution_source) option \<Rightarrow> model_resolution" where
  "resolution_of sel = (case sel of None \<Rightarrow> inherited Inherited_sdk_default | Some (m, source) \<Rightarrow> resolved m source)"

lemma selected_valid:
  assumes "list_all (\<lambda>a. opt_all model_valid (project_models a)) MODEL_AGENTS" "a \<in> set MODEL_AGENTS"
    "selected_model project_models config a = Some (m, source)"
  shows "model_valid m"
  using assms role_model_valid parse_configured_valid
  by (auto simp: selected_model_def list_all_iff split: option.splits)

lemma configured_resolutions:
  "\<exists>c. configured_model_resolutions config = Some c \<and>
     (\<forall>r \<in> set MODEL_ROLES. resolution_valid (c r)) \<and>
     (\<forall>a \<in> set MODEL_AGENTS. c (Role_agent a) = resolution_of (selected_model (\<lambda>a. None) config a))"
proof -
  let ?base = "case parse_configured_model (field_of config ''model'') of
      Some m \<Rightarrow> resolved m Opencode_top_level_default | None \<Rightarrow> inherited Inherited_sdk_default"
  let ?f = "(with_repair (\<lambda>r. case role_model config (role_names r) of
      Some m \<Rightarrow> resolved m Opencode_role_config | None \<Rightarrow> ?base))(Role_default := ?base)"
  have base: "resolution_valid ?base" by (rule configured_base_valid)
  have role: "resolution_valid (case role_model config names of Some m \<Rightarrow> resolved m Opencode_role_config | None \<Rightarrow> ?base)" for names
    using base resolved_valid role_model_valid by (auto split: option.split)
  have valid: "resolution_valid (?f r)" if "r \<in> set MODEL_ROLES" for r
    using that base role unfolding roles by (auto simp del: role_names.simps)
  obtain g where g: "parse_resolution_map ?f = Some g" "\<forall>r \<in> set MODEL_ROLES. g r = ?f r"
    using parse_resolution_map_valid [of ?f] valid by blast
  have "g (Role_agent a) = resolution_of (selected_model (\<lambda>a. None) config a)" if "a \<in> set MODEL_AGENTS" for a
  proof -
    have "g (Role_agent a) = ?f (Role_agent a)" using g(2) that by (simp add: roles)
    then show ?thesis by (auto simp: resolution_of_def selected_model_def simp del: role_names.simps split: option.split)
  qed
  then show ?thesis using g valid unfolding configured_model_resolutions_def Let_def by auto
qed

lemma snapshot_of_resolution:
  assumes "\<forall>a \<in> set MODEL_AGENTS. f (Role_agent a) = resolution_of (sel a)"
    "\<And>a m source. a \<in> set MODEL_AGENTS \<Longrightarrow> sel a = Some (m, source) \<Longrightarrow> model_valid m"
  shows "\<exists>s. model_snapshot_from_resolution f = Some s \<and> (\<forall>a \<in> set MODEL_AGENTS. s a = map_option fst (sel a))"
proof -
  let ?g = "\<lambda>a. if a \<notin> set MODEL_AGENTS then None else
       (case (truthy_text (mres_providerID (f (Role_agent a))), truthy_text (mres_modelID (f (Role_agent a)))) of
          (Some p, Some i) \<Rightarrow> Some \<lparr>mr_providerID = p, mr_modelID = i, mr_variant = truthy_text (mres_variant (f (Role_agent a)))\<rparr>
        | _ \<Rightarrow> None)"
  have g: "?g a = map_option fst (sel a)" if a: "a \<in> set MODEL_AGENTS" for a
  proof (cases "sel a")
    case None
    then show ?thesis using assms(1) a by (simp add: resolution_of_def inherited_def truthy_text_def)
  next
    case (Some q)
    obtain m source where q: "q = (m, source)" by fastforce
    have v: "model_valid m" using assms(2) [OF a] Some q by simp
    have "mr_providerID m \<noteq> []" "mr_modelID m \<noteq> []" "mr_variant m \<noteq> Some []"
      using model_valid_texts [OF v] parse_trimmed_not_empty by metis+
    then show ?thesis using assms(1) a Some q by (cases m) (simp add: resolution_of_def resolved_def truthy_text_def)
  qed
  have "opt_all (\<lambda>m. parse_model_ref m \<noteq> None) (?g a) \<and> Option.bind (?g a) parse_model_ref = map_option fst (sel a)"
    if a: "a \<in> set MODEL_AGENTS" for a
    using assms(2) [OF a] unfolding g [OF a] by (cases "sel a") (auto simp: model_valid_def)
  then show ?thesis unfolding model_snapshot_from_resolution_def parse_agent_models_def by (auto simp: list_all_iff)
qed

text \<open>C34. Whatever the host configuration contains, the resolution of the models is valid and is
never refused by its own schema: every agent gets the model of the project settings, else the one
of its role in the configuration, else the default of the configuration, else the host's; repair
uses the implementer's; and the snapshot stored with a run is exactly these choices.\<close>

theorem model_resolution_precedence:
  assumes "list_all (\<lambda>a. opt_all model_valid (project_models a)) MODEL_AGENTS"
  shows "\<exists>c r s. configured_model_resolutions config = Some c \<and>
    snapshot_model_resolutions project_models (Some c) legacy = Some r \<and>
    model_snapshot_from_resolution r = Some s \<and>
    list_all (\<lambda>role. resolution_valid (r role)) MODEL_ROLES \<and>
    list_all (\<lambda>a. r (Role_agent a) = resolution_of (selected_model project_models config a) \<and>
      s a = map_option fst (selected_model project_models config a)) MODEL_AGENTS \<and>
    r Role_repair = r (Role_agent Implementer)"
proof -
  obtain c where c: "configured_model_resolutions config = Some c" "\<forall>r \<in> set MODEL_ROLES. resolution_valid (c r)"
    "\<forall>a \<in> set MODEL_AGENTS. c (Role_agent a) = resolution_of (selected_model (\<lambda>a. None) config a)"
    using configured_resolutions by blast
  let ?f = "with_repair (override project_models Alg_project_override c)"
  have valid: "resolution_valid (?f r)" if "r \<in> set MODEL_ROLES" for r
    using that c(2) override_valid [OF assms, of c] unfolding roles by (auto simp: MODEL_AGENTS_def)
  obtain r where r: "parse_resolution_map ?f = Some r" "\<forall>x \<in> set MODEL_ROLES. r x = ?f x"
    using parse_resolution_map_valid [of ?f] valid by blast
  have agent: "r (Role_agent a) = resolution_of (selected_model project_models config a)" if "a \<in> set MODEL_AGENTS" for a
  proof -
    have "r (Role_agent a) = ?f (Role_agent a)" using r(2) that by (simp add: roles)
    then show ?thesis using c(3) that
      by (cases "project_models a") (simp_all add: override_def selected_model_def resolution_of_def)
  qed
  obtain s where s: "model_snapshot_from_resolution r = Some s"
    "\<forall>a \<in> set MODEL_AGENTS. s a = map_option fst (selected_model project_models config a)"
    using snapshot_of_resolution [of r "selected_model project_models config"] agent selected_valid [OF assms] by blast
  have "r Role_repair = r (Role_agent Implementer)" using r(2) by (simp add: roles MODEL_AGENTS_def)
  moreover have "snapshot_model_resolutions project_models (Some c) legacy = Some r"
    using r(1) by (simp add: snapshot_model_resolutions_def)
  ultimately show ?thesis using c(1) s agent r(2) valid by (auto simp: list_all_iff)
qed

theorem model_resolution_precedence_witness:
  "\<exists>c r s. configured_model_resolutions (Some (J_obj [(js ''model'', J_str (js ''host/large''))])) = Some c \<and>
    snapshot_model_resolutions (\<lambda>a. None) (Some c) (\<lambda>a. None) = Some r \<and>
    model_snapshot_from_resolution r = Some s \<and>
    s Checker = Some \<lparr>mr_providerID = js ''host'', mr_modelID = js ''large'', mr_variant = None\<rparr>"
proof -
  let ?config = "Some (J_obj [(js ''model'', J_str (js ''host/large''))])"
  have "parse_configured_model (field_of ?config ''model'') =
      Some \<lparr>mr_providerID = js ''host'', mr_modelID = js ''large'', mr_variant = None\<rparr>"
    by (simp add: field_of_def) code_simp
  then have sel: "selected_model (\<lambda>a. None) ?config Checker =
      Some (\<lparr>mr_providerID = js ''host'', mr_modelID = js ''large'', mr_variant = None\<rparr>, Opencode_top_level_default)"
    by (simp add: selected_model_def) (simp add: field_of_def parse_configured_model_def)
  have "list_all (\<lambda>a. opt_all model_valid None) MODEL_AGENTS" by (simp add: list_all_iff)
  from model_resolution_precedence [OF this, of ?config "\<lambda>a. None"] show ?thesis
    using sel by (force simp: MODEL_AGENTS_def)
qed

end
