(* ===== verification/Interleaving.thy ===== *)
theory Interleaving
  imports Main
begin

text \<open>
  Systems of interleaved steps: an event may happen in a state and then gives the next one. The states
  reached by admitted events, the play of a concrete history, and the interface of an invariant.
\<close>

inductive reached :: "('e \<Rightarrow> 's \<Rightarrow> 's option) \<Rightarrow> ('e \<Rightarrow> 's \<Rightarrow> bool) \<Rightarrow> 's \<Rightarrow> 's \<Rightarrow> bool"
  for step admitted start where
  start: "reached step admitted start start"
| event: "reached step admitted start s \<Longrightarrow> admitted e s \<Longrightarrow> step e s = Some s' \<Longrightarrow> reached step admitted start s'"

fun play :: "('e \<Rightarrow> 's \<Rightarrow> 's option) \<Rightarrow> ('e \<Rightarrow> 's \<Rightarrow> bool) \<Rightarrow> 'e list \<Rightarrow> 's \<Rightarrow> 's option" where
  "play step admitted [] s = Some s"
| "play step admitted (e # es) s =
     (if admitted e s then (case step e s of None \<Rightarrow> None | Some s' \<Rightarrow> play step admitted es s') else None)"

lemma play_reached:
  "reached step admitted start s \<Longrightarrow> play step admitted es s = Some s' \<Longrightarrow> reached step admitted start s'"
  by (induction es arbitrary: s) (auto intro: reached.event split: option.splits if_splits)

lemma reached_mono:
  "reached step admitted start s \<Longrightarrow> (\<And>e s. admitted e s \<Longrightarrow> permitted e s) \<Longrightarrow> reached step permitted start s"
  by (induction rule: reached.induct) (auto intro: reached.intros)

locale interleaving_invariant =
  fixes step :: "'e \<Rightarrow> 's \<Rightarrow> 's option"
    and admitted :: "'e \<Rightarrow> 's \<Rightarrow> bool"
    and start :: 's
    and holds :: "'s \<Rightarrow> bool"
  assumes initially: "holds start"
    and preserved: "holds s \<Longrightarrow> admitted e s \<Longrightarrow> step e s = Some s' \<Longrightarrow> holds s'"
begin

lemma always: "reached step admitted start s \<Longrightarrow> holds s"
  by (induction rule: reached.induct) (auto intro: initially preserved)

lemma always_in_play: "play step admitted es start = Some s \<Longrightarrow> holds s"
  using always play_reached reached.start by metis

end

end
