(* ===== verification/Filesystem_Mutex.thy ===== *)
theory Filesystem_Mutex
  imports Interleaving
begin

text \<open>
  \<open>src/filesystem-mutex.ts\<close>: a mutex file guarded by a short-lived claim file. Every participant is
  a process that moves from one system call to the next; the calls of different processes interleave
  in any order, time passes and processes die. The creation of a file with its content is one step,
  and each process drives one mutex handle at a time.
\<close>

section \<open>Files and participants\<close>

record lock_record =
  lr_token :: nat
  lr_pid :: nat
  lr_host :: nat
  lr_expires :: int

datatype goal = Acquire | Renew nat | Release nat

text \<open>
  Where a process stands: waiting for the claim, taking over a stale claim, inside the section that
  the claim \<open>c\<close> protects, or giving the claim back.
\<close>

datatype control =
    Resting
  | Claiming goal
  | Claim_observed goal nat
  | Claim_moving goal
  | Claimed goal nat
  | Mutex_observed nat nat
  | Mutex_moving nat
  | Creating nat
  | Renewing nat nat
  | Removing nat
  | Unclaiming nat
  | Claim_removing nat

record mutex_state =
  mu_now :: int
  mu_alive :: "nat \<Rightarrow> bool"
  mu_claim :: "lock_record option"
  mu_file :: "lock_record option"
  mu_next_token :: nat
  mu_control :: "nat \<Rightarrow> control"
  mu_held :: "nat \<Rightarrow> nat option"

record mutex_config =
  mc_host :: "nat \<Rightarrow> nat"
  mc_lease :: int

definition claim_lease :: int where "claim_lease = 5000"

datatype disposition = Held | Takeover | Unverifiable

definition mutex_disposition :: "mutex_config \<Rightarrow> mutex_state \<Rightarrow> nat \<Rightarrow> lock_record \<Rightarrow> disposition" where
  "mutex_disposition cfg s i r =
     (if mu_now s < lr_expires r then Held
      else if lr_host r \<noteq> mc_host cfg i then Unverifiable
      else if \<not> mu_alive s (lr_pid r) then Takeover
      else Held)"

definition can_take_over :: "mutex_config \<Rightarrow> mutex_state \<Rightarrow> nat \<Rightarrow> lock_record \<Rightarrow> bool" where
  "can_take_over cfg s i r \<longleftrightarrow> mutex_disposition cfg s i r = Takeover"

definition goto :: "nat \<Rightarrow> control \<Rightarrow> mutex_state \<Rightarrow> mutex_state" where
  "goto i c s = s\<lparr>mu_control := (mu_control s)(i := c)\<rparr>"

definition new_record :: "mutex_config \<Rightarrow> nat \<Rightarrow> nat \<Rightarrow> int \<Rightarrow> mutex_state \<Rightarrow> lock_record" where
  "new_record cfg i token lease s =
     \<lparr>lr_token = token, lr_pid = i, lr_host = mc_host cfg i, lr_expires = mu_now s + lease\<rparr>"

definition owns :: "lock_record option \<Rightarrow> nat \<Rightarrow> bool" where
  "owns file token \<longleftrightarrow> map_option lr_token file = Some token"

section \<open>One system call\<close>

text \<open>\<open>acquireTakeoverClaim\<close> up to the creation of the claim.\<close>

definition open_claim :: "mutex_config \<Rightarrow> nat \<Rightarrow> goal \<Rightarrow> mutex_state \<Rightarrow> mutex_state" where
  "open_claim cfg i g s =
     (case mu_claim s of
        None \<Rightarrow> goto i (Claimed g (mu_next_token s))
          (s\<lparr>mu_claim := Some (new_record cfg i (mu_next_token s) claim_lease s), mu_next_token := Suc (mu_next_token s)\<rparr>)
      | Some r \<Rightarrow>
          if can_take_over cfg s i r then goto i (Claim_observed g (lr_token r)) s
          else goto i Resting s)"

definition confirm_claim :: "mutex_config \<Rightarrow> nat \<Rightarrow> goal \<Rightarrow> nat \<Rightarrow> mutex_state \<Rightarrow> mutex_state" where
  "confirm_claim cfg i g token s =
     (case mu_claim s of
        None \<Rightarrow> goto i Resting s
      | Some r \<Rightarrow> goto i (if lr_token r = token \<and> can_take_over cfg s i r then Claim_moving g else Resting) s)"

definition move_claim :: "nat \<Rightarrow> goal \<Rightarrow> mutex_state \<Rightarrow> mutex_state" where
  "move_claim i g s =
     (case mu_claim s of
        None \<Rightarrow> goto i Resting s
      | Some r \<Rightarrow> goto i (Claiming g) (s\<lparr>mu_claim := None\<rparr>))"

text \<open>The section under the claim: the takeover and the creation, the renewal, the release.\<close>

definition inspect_mutex :: "mutex_config \<Rightarrow> nat \<Rightarrow> nat \<Rightarrow> mutex_state \<Rightarrow> mutex_state" where
  "inspect_mutex cfg i c s =
     (case mu_file s of
        None \<Rightarrow> goto i (Creating c) s
      | Some r \<Rightarrow> goto i (if can_take_over cfg s i r then Mutex_observed c (lr_token r) else Unclaiming c) s)"

definition confirm_mutex :: "mutex_config \<Rightarrow> nat \<Rightarrow> nat \<Rightarrow> nat \<Rightarrow> mutex_state \<Rightarrow> mutex_state" where
  "confirm_mutex cfg i c token s =
     (case mu_file s of
        None \<Rightarrow> goto i (Unclaiming c) s
      | Some r \<Rightarrow> goto i (if lr_token r = token \<and> can_take_over cfg s i r then Mutex_moving c else Unclaiming c) s)"

definition move_mutex :: "nat \<Rightarrow> nat \<Rightarrow> mutex_state \<Rightarrow> mutex_state" where
  "move_mutex i c s =
     (case mu_file s of
        None \<Rightarrow> goto i (Unclaiming c) s
      | Some r \<Rightarrow> goto i (Creating c) (s\<lparr>mu_file := None\<rparr>))"

definition create_mutex :: "mutex_config \<Rightarrow> nat \<Rightarrow> nat \<Rightarrow> mutex_state \<Rightarrow> mutex_state" where
  "create_mutex cfg i c s =
     (case mu_file s of
        Some r \<Rightarrow> goto i (Unclaiming c) s
      | None \<Rightarrow> goto i (Unclaiming c)
          (s\<lparr>mu_file := Some (new_record cfg i (mu_next_token s) (mc_lease cfg) s),
             mu_held := (mu_held s)(i := Some (mu_next_token s)), mu_next_token := Suc (mu_next_token s)\<rparr>))"

fun enter_section :: "mutex_config \<Rightarrow> nat \<Rightarrow> goal \<Rightarrow> nat \<Rightarrow> mutex_state \<Rightarrow> mutex_state" where
  "enter_section cfg i Acquire c s = inspect_mutex cfg i c s"
| "enter_section cfg i (Renew t) c s =
     (if owns (mu_file s) t then goto i (Renewing c t) s
      else goto i (Unclaiming c) (s\<lparr>mu_held := (mu_held s)(i := None)\<rparr>))"
| "enter_section cfg i (Release t) c s = goto i (if owns (mu_file s) t then Removing c else Unclaiming c) s"

definition advance :: "mutex_config \<Rightarrow> nat \<Rightarrow> mutex_state \<Rightarrow> mutex_state" where
  "advance cfg i s =
     (case mu_control s i of
        Resting \<Rightarrow> s
      | Claiming g \<Rightarrow> open_claim cfg i g s
      | Claim_observed g t \<Rightarrow> confirm_claim cfg i g t s
      | Claim_moving g \<Rightarrow> move_claim i g s
      | Claimed g c \<Rightarrow> enter_section cfg i g c s
      | Mutex_observed c t \<Rightarrow> confirm_mutex cfg i c t s
      | Mutex_moving c \<Rightarrow> move_mutex i c s
      | Creating c \<Rightarrow> create_mutex cfg i c s
      | Renewing c t \<Rightarrow> goto i (Unclaiming c) (s\<lparr>mu_file := Some (new_record cfg i t (mc_lease cfg) s)\<rparr>)
      | Removing c \<Rightarrow> goto i (Unclaiming c) (s\<lparr>mu_file := None\<rparr>)
      | Unclaiming c \<Rightarrow> goto i (if owns (mu_claim s) c then Claim_removing c else Resting) s
      | Claim_removing c \<Rightarrow> goto i Resting (s\<lparr>mu_claim := None\<rparr>))"

section \<open>Calls and the environment\<close>

datatype event =
    Call_acquire nat
  | Call_renew nat
  | Call_release nat
  | Give_up nat
  | Advance nat
  | Pass int
  | Die nat

definition asserts_held :: "mutex_state \<Rightarrow> nat \<Rightarrow> bool" where
  "asserts_held s i \<longleftrightarrow>
     (case (mu_held s i, mu_file s) of
        (Some t, Some r) \<Rightarrow> lr_token r = t \<and> mu_now s < lr_expires r
      | _ \<Rightarrow> False)"

text \<open>The look at the mutex before the claim is taken.\<close>

definition worth_claiming :: "mutex_config \<Rightarrow> mutex_state \<Rightarrow> nat \<Rightarrow> bool" where
  "worth_claiming cfg s i \<longleftrightarrow> (case mu_file s of None \<Rightarrow> True | Some r \<Rightarrow> can_take_over cfg s i r)"

fun happens :: "mutex_config \<Rightarrow> event \<Rightarrow> mutex_state \<Rightarrow> mutex_state option" where
  "happens cfg (Call_acquire i) s =
     (if mu_alive s i \<and> mu_control s i = Resting \<and> mu_held s i = None \<and> worth_claiming cfg s i
      then Some (goto i (Claiming Acquire) s) else None)"
| "happens cfg (Call_renew i) s =
     (case mu_held s i of
        Some t \<Rightarrow> if mu_alive s i \<and> mu_control s i = Resting then Some (goto i (Claiming (Renew t)) s) else None
      | None \<Rightarrow> None)"
| "happens cfg (Call_release i) s =
     (case mu_held s i of
        Some t \<Rightarrow> if mu_alive s i \<and> mu_control s i = Resting
          then Some (goto i (Claiming (Release t)) (s\<lparr>mu_held := (mu_held s)(i := None)\<rparr>)) else None
      | None \<Rightarrow> None)"
| "happens cfg (Give_up i) s =
     (if mu_alive s i \<and> mu_control s i = Resting then Some (s\<lparr>mu_held := (mu_held s)(i := None)\<rparr>) else None)"
| "happens cfg (Advance i) s = (if mu_alive s i then Some (advance cfg i s) else None)"
| "happens cfg (Pass n) s = (if 0 \<le> n then Some (s\<lparr>mu_now := mu_now s + n\<rparr>) else None)"
| "happens cfg (Die i) s = Some (s\<lparr>mu_alive := (mu_alive s)(i := False)\<rparr>)"

definition initial_mutex :: mutex_state where
  "initial_mutex = \<lparr>mu_now = 0, mu_alive = (\<lambda>i. True), mu_claim = None, mu_file = None, mu_next_token = 0,
     mu_control = (\<lambda>i. Resting), mu_held = (\<lambda>i. None)\<rparr>"

fun claim_of :: "control \<Rightarrow> nat option" where
  "claim_of (Claimed g c) = Some c"
| "claim_of (Mutex_observed c t) = Some c"
| "claim_of (Mutex_moving c) = Some c"
| "claim_of (Creating c) = Some c"
| "claim_of (Renewing c t) = Some c"
| "claim_of (Removing c) = Some c"
| "claim_of (Unclaiming c) = Some c"
| "claim_of (Claim_removing c) = Some c"
| "claim_of k = None"

text \<open>A death between the creation of a claim and its removal leaves the claim behind.\<close>

fun orphans_claim :: "event \<Rightarrow> mutex_state \<Rightarrow> bool" where
  "orphans_claim (Die i) s \<longleftrightarrow> mu_alive s i \<and> claim_of (mu_control s i) \<noteq> None"
| "orphans_claim e s \<longleftrightarrow> False"

definition mutex_reachable :: "mutex_config \<Rightarrow> mutex_state \<Rightarrow> bool" where
  "mutex_reachable cfg = reached (happens cfg) (\<lambda>e s. True) initial_mutex"

definition orderly :: "mutex_config \<Rightarrow> mutex_state \<Rightarrow> bool" where
  "orderly cfg = reached (happens cfg) (\<lambda>e s. \<not> orphans_claim e s) initial_mutex"

section \<open>What an orderly history keeps\<close>

text \<open>A token names one holder, and a process that renews or releases knows the token it was given.\<close>

fun goal_ok :: "mutex_state \<Rightarrow> nat \<Rightarrow> goal \<Rightarrow> bool" where
  "goal_ok s i Acquire \<longleftrightarrow> True"
| "goal_ok s i (Renew t) \<longleftrightarrow> mu_held s i = Some t"
| "goal_ok s i (Release t) \<longleftrightarrow> mu_held s i = None \<and> t < mu_next_token s \<and>
     (\<forall>r. mu_file s = Some r \<longrightarrow> lr_token r = t \<longrightarrow> lr_pid r = i)"

definition abandoned :: "mutex_state \<Rightarrow> bool" where
  "abandoned s \<longleftrightarrow> (\<exists>r. mu_file s = Some r \<and> \<not> mu_alive s (lr_pid r))"

fun control_ok :: "mutex_state \<Rightarrow> nat \<Rightarrow> control \<Rightarrow> bool" where
  "control_ok s i (Claiming g) \<longleftrightarrow> goal_ok s i g"
| "control_ok s i (Claim_observed g t) \<longleftrightarrow> False"
| "control_ok s i (Claim_moving g) \<longleftrightarrow> False"
| "control_ok s i (Claimed g c) \<longleftrightarrow> goal_ok s i g"
| "control_ok s i (Mutex_observed c t) \<longleftrightarrow> abandoned s"
| "control_ok s i (Mutex_moving c) \<longleftrightarrow> abandoned s"
| "control_ok s i (Renewing c t) \<longleftrightarrow> mu_held s i = Some t"
| "control_ok s i (Removing c) \<longleftrightarrow> mu_held s i = None \<and> (\<exists>r. mu_file s = Some r \<and> lr_pid r = i)"
| "control_ok s i _ \<longleftrightarrow> True"

definition claim_ok :: "mutex_state \<Rightarrow> bool" where
  "claim_ok s \<longleftrightarrow>
     (\<forall>r. mu_claim s = Some r \<longrightarrow> mu_alive s (lr_pid r) \<and> claim_of (mu_control s (lr_pid r)) = Some (lr_token r)) \<and>
     (\<forall>i c. mu_alive s i \<longrightarrow> claim_of (mu_control s i) = Some c \<longrightarrow>
        (\<exists>r. mu_claim s = Some r \<and> lr_token r = c \<and> lr_pid r = i))"

definition holder_ok :: "mutex_state \<Rightarrow> bool" where
  "holder_ok s \<longleftrightarrow>
     (\<forall>i t. mu_alive s i \<longrightarrow> mu_held s i = Some t \<longrightarrow> (\<exists>r. mu_file s = Some r \<and> lr_token r = t \<and> lr_pid r = i)) \<and>
     (\<forall>r. mu_file s = Some r \<longrightarrow> lr_token r < mu_next_token s)"

definition mutex_ok :: "mutex_state \<Rightarrow> bool" where
  "mutex_ok s \<longleftrightarrow> claim_ok s \<and> holder_ok s \<and> (\<forall>i. mu_alive s i \<longrightarrow> control_ok s i (mu_control s i))"

lemma takeover_needs_dead_pid: "can_take_over cfg s i r \<Longrightarrow> \<not> mu_alive s (lr_pid r)"
  by (auto simp: can_take_over_def mutex_disposition_def split: if_splits)

lemma goto_sel [simp]:
  "mu_now (goto i k s) = mu_now s" "mu_alive (goto i k s) = mu_alive s" "mu_claim (goto i k s) = mu_claim s"
  "mu_file (goto i k s) = mu_file s" "mu_next_token (goto i k s) = mu_next_token s"
  "mu_held (goto i k s) = mu_held s" "mu_control (goto i k s) = (mu_control s)(i := k)"
  by (simp_all add: goto_def)

lemma new_record_sel [simp]:
  "lr_token (new_record cfg i t l s) = t" "lr_pid (new_record cfg i t l s) = i"
  "lr_host (new_record cfg i t l s) = mc_host cfg i" "lr_expires (new_record cfg i t l s) = mu_now s + l"
  by (simp_all add: new_record_def)

lemma goal_ok_frame:
  "goal_ok s j g \<Longrightarrow> mu_file s' = mu_file s \<Longrightarrow> mu_held s' j = mu_held s j \<Longrightarrow>
   mu_next_token s \<le> mu_next_token s' \<Longrightarrow> goal_ok s' j g"
  by (cases g) auto

lemma control_ok_frame:
  "control_ok s j k \<Longrightarrow> mu_file s' = mu_file s \<Longrightarrow> mu_held s' j = mu_held s j \<Longrightarrow>
   mu_next_token s \<le> mu_next_token s' \<Longrightarrow> (\<forall>i. mu_alive s' i \<longrightarrow> mu_alive s i) \<Longrightarrow> control_ok s' j k"
  by (cases k) (auto intro: goal_ok_frame simp: abandoned_def)

lemma goal_ok_later [simp]: "goal_ok (s\<lparr>mu_now := n\<rparr>) j g = goal_ok s j g"
  by (cases g) auto

lemma control_ok_later [simp]: "control_ok (s\<lparr>mu_now := n\<rparr>) j k = control_ok s j k"
  by (cases k) (auto simp: abandoned_def)

lemma mutex_ok_later [simp]: "mutex_ok (s\<lparr>mu_now := n\<rparr>) = mutex_ok s"
  by (simp add: mutex_ok_def claim_ok_def holder_ok_def)

text \<open>Only one live process is past its claim.\<close>

lemma claim_names_section:
  "claim_ok s \<Longrightarrow> mu_alive s j \<Longrightarrow> claim_of (mu_control s j) = Some c \<Longrightarrow>
   \<exists>r. mu_claim s = Some r \<and> lr_token r = c \<and> lr_pid r = j"
  by (simp add: claim_ok_def)

lemma section_is_exclusive:
  assumes "claim_ok s" "mu_alive s i" "mu_alive s j" "claim_of (mu_control s i) = Some c" "claim_of (mu_control s j) = Some d"
  shows "i = j"
  using assms unfolding claim_ok_def by (metis option.inject)

lemma outside_the_section:
  "claim_of k = None \<Longrightarrow> control_ok s j k \<Longrightarrow> k = Resting \<or> (\<exists>g. k = Claiming g)"
  by (cases k) auto

text \<open>
  The cases of a step: it moves one process on and leaves the files alone, it takes or removes the
  claim, or, inside the section, it changes the mutex file.
\<close>

lemma local_step_ok:
  assumes "mutex_ok s" "mu_alive s i" "control_ok s i k" "claim_of k = claim_of (mu_control s i)"
  shows "mutex_ok (goto i k s)"
  using assms unfolding mutex_ok_def claim_ok_def holder_ok_def
  by (auto intro: control_ok_frame)

lemma controls_frame:
  assumes "mutex_ok s" "mu_control s' = (mu_control s)(i := k)" "control_ok s' i k"
    and "mu_file s' = mu_file s" "\<forall>j. j \<noteq> i \<longrightarrow> mu_held s' j = mu_held s j" "mu_next_token s \<le> mu_next_token s'"
    and "\<forall>j. mu_alive s' j \<longrightarrow> mu_alive s j"
  shows "\<forall>j. mu_alive s' j \<longrightarrow> control_ok s' j (mu_control s' j)"
proof (intro allI impI)
  fix j assume j: "mu_alive s' j"
  show "control_ok s' j (mu_control s' j)"
  proof (cases "j = i")
    case False
    then have "control_ok s j (mu_control s j)" using assms(1,7) j unfolding mutex_ok_def by blast
    then show ?thesis using control_ok_frame[of s j "mu_control s j" s'] assms False by simp
  qed (use assms in simp)
qed

lemma leave_section_ok:
  assumes ok: "mutex_ok s" and alive: "mu_alive s i"
    and claim: "mu_claim s = None \<or> (\<exists>r. mu_claim s = Some r \<and> lr_pid r = i)"
  shows "mutex_ok (goto i Resting (s\<lparr>mu_claim := None\<rparr>))"
proof -
  let ?s = "goto i Resting (s\<lparr>mu_claim := None\<rparr>)"
  have old: "claim_ok s" "holder_ok s" using ok unfolding mutex_ok_def by auto
  have "claim_of (mu_control s j) = None" if j: "mu_alive s j" "j \<noteq> i" for j
  proof (rule ccontr)
    assume "claim_of (mu_control s j) \<noteq> None"
    then obtain c where "claim_of (mu_control s j) = Some c" by blast
    then obtain r where "mu_claim s = Some r" "lr_pid r = j" using claim_names_section[OF old(1) j(1)] by blast
    then show False using claim j(2) by auto
  qed
  then have "claim_ok ?s" by (auto simp: claim_ok_def)
  moreover have "holder_ok ?s" using old(2) by (simp add: holder_ok_def)
  moreover have "\<forall>j. mu_alive ?s j \<longrightarrow> control_ok ?s j (mu_control ?s j)"
    by (rule controls_frame[OF ok, where i = i and k = Resting]) simp_all
  ultimately show ?thesis unfolding mutex_ok_def by blast
qed

lemma rest_ok:
  assumes "mutex_ok s" "mu_alive s i" "\<not> owns (mu_claim s) c \<and> claim_of (mu_control s i) = Some c \<or> claim_of (mu_control s i) = None"
  shows "mutex_ok (goto i Resting s)"
proof (cases "claim_of (mu_control s i)")
  case None
  then show ?thesis using assms by (auto intro!: local_step_ok)
next
  case (Some d)
  then show ?thesis using assms unfolding mutex_ok_def claim_ok_def owns_def by fastforce
qed

lemma open_claim_ok:
  assumes ok: "mutex_ok s" and alive: "mu_alive s i" and at: "mu_control s i = Claiming g"
  shows "mutex_ok (open_claim cfg i g s)"
proof (cases "mu_claim s")
  case None
  have "goal_ok s i g" using ok alive at unfolding mutex_ok_def by fastforce
  then show ?thesis
    using ok alive None unfolding mutex_ok_def claim_ok_def holder_ok_def
    by (auto simp: open_claim_def intro: control_ok_frame goal_ok_frame less_SucI)
next
  case (Some r)
  then have "\<not> can_take_over cfg s i r"
    using ok takeover_needs_dead_pid unfolding mutex_ok_def claim_ok_def by blast
  then show ?thesis using Some rest_ok[OF ok alive] at by (simp add: open_claim_def)
qed

lemma section_step_ok:
  assumes ok: "mutex_ok s" and alive: "mu_alive s i" "claim_of (mu_control s i) = Some c"
    and same: "mu_alive s' = mu_alive s" "mu_claim s' = mu_claim s" "mu_control s' = (mu_control s)(i := k)"
      "\<forall>j. j \<noteq> i \<longrightarrow> mu_held s' j = mu_held s j" "mu_next_token s \<le> mu_next_token s'"
    and k: "claim_of k = Some c" "control_ok s' i k"
    and content: "\<forall>j t. j \<noteq> i \<longrightarrow> mu_alive s j \<longrightarrow> mu_held s j = Some t \<longrightarrow> mu_file s' = mu_file s"
      "\<forall>r. mu_file s' = Some r \<longrightarrow> mu_file s' = mu_file s \<or> lr_pid r = i \<and> lr_token r < mu_next_token s' \<and>
         (lr_token r < mu_next_token s \<longrightarrow> (\<exists>r0. mu_file s = Some r0 \<and> lr_pid r0 = i \<and> lr_token r0 = lr_token r))"
    and held: "\<forall>t. mu_held s' i = Some t \<longrightarrow> (\<exists>r. mu_file s' = Some r \<and> lr_token r = t \<and> lr_pid r = i)"
  shows "mutex_ok s'"
proof -
  have claim: "claim_ok s'"
    using ok alive same k unfolding mutex_ok_def claim_ok_def by auto
  have holder: "holder_ok s'"
    using ok same content held unfolding mutex_ok_def holder_ok_def
    by (metis (no_types, lifting) order_less_le_trans)
  have "control_ok s' j (mu_control s' j)" if j: "mu_alive s' j" for j
  proof (cases "j = i")
    case True
    then show ?thesis using k same by simp
  next
    case False
    let ?k = "mu_control s j"
    have old: "mu_alive s j" "control_ok s j ?k" using j ok same unfolding mutex_ok_def by auto
    have "claim_of ?k = None"
      using section_is_exclusive[of s i j c] ok alive old(1) False
      unfolding mutex_ok_def by (cases "claim_of ?k") auto
    then have "?k = Resting \<or> (\<exists>g. ?k = Claiming g)" using outside_the_section old(2) by blast
    then show ?thesis
    proof (elim disjE exE)
      fix g assume g: "?k = Claiming g"
      show ?thesis
      proof (cases g)
        case (Release t)
        have "\<forall>r. mu_file s' = Some r \<longrightarrow> lr_token r = t \<longrightarrow> lr_pid r = j"
          using content(2) old(2) g Release by fastforce
        then show ?thesis using old(2) g Release same False by simp
      qed (use old g same False in auto)
    qed (use same False in simp)
  qed
  then show ?thesis using claim holder unfolding mutex_ok_def by blast
qed

lemma holder_file:
  assumes "mutex_ok s" "mu_alive s j" "mu_held s j = Some t"
  shows "\<exists>r. mu_file s = Some r \<and> lr_token r = t \<and> lr_pid r = j"
  using assms unfolding mutex_ok_def holder_ok_def by blast

lemma unheld_mutex:
  assumes "mutex_ok s" "mu_alive s j" "mu_file s = None \<or> mu_file s = Some r \<and> lr_pid r \<noteq> j"
  shows "mu_held s j = None"
  using holder_file[OF assms(1,2)] assms(3) by (cases "mu_held s j") auto

lemma move_mutex_ok:
  assumes ok: "mutex_ok s" and alive: "mu_alive s i" and at: "mu_control s i = Mutex_moving c"
  shows "mutex_ok (move_mutex i c s)"
proof (cases "mu_file s")
  case None
  then show ?thesis using ok alive at by (simp add: move_mutex_def local_step_ok)
next
  case (Some r)
  have "control_ok s i (Mutex_moving c)" using ok alive at unfolding mutex_ok_def by metis
  then have dead: "\<not> mu_alive s (lr_pid r)" using Some by (simp add: abandoned_def)
  have none: "mu_held s j = None" if "mu_alive s j" for j
    using unheld_mutex[OF ok that] Some dead that by blast
  have "mutex_ok (goto i (Creating c) (s\<lparr>mu_file := None\<rparr>))"
    by (rule section_step_ok[OF ok alive, where c = c and k = "Creating c"]) (simp_all add: at none alive)
  then show ?thesis by (simp add: move_mutex_def Some)
qed

lemma create_mutex_ok:
  assumes ok: "mutex_ok s" and alive: "mu_alive s i" and at: "mu_control s i = Creating c"
  shows "mutex_ok (create_mutex cfg i c s)"
proof (cases "mu_file s")
  case None
  have none: "mu_held s j = None" if "mu_alive s j" for j
    using unheld_mutex[OF ok that] None by blast
  have "mutex_ok (goto i (Unclaiming c)
      (s\<lparr>mu_file := Some (new_record cfg i (mu_next_token s) (mc_lease cfg) s),
         mu_held := (mu_held s)(i := Some (mu_next_token s)), mu_next_token := Suc (mu_next_token s)\<rparr>))"
    by (rule section_step_ok[OF ok alive, where c = c and k = "Unclaiming c"]) (simp_all add: at none)
  then show ?thesis by (simp add: create_mutex_def None)
next
  case (Some r)
  then show ?thesis using ok alive at by (simp add: create_mutex_def local_step_ok)
qed

lemma renew_mutex_ok:
  assumes ok: "mutex_ok s" and alive: "mu_alive s i" and at: "mu_control s i = Renewing c t"
  shows "mutex_ok (goto i (Unclaiming c) (s\<lparr>mu_file := Some (new_record cfg i t (mc_lease cfg) s)\<rparr>))"
proof -
  have "control_ok s i (Renewing c t)" using ok alive at unfolding mutex_ok_def by metis
  then have held: "mu_held s i = Some t" by simp
  from holder_file[OF ok alive this]
  obtain r where r: "mu_file s = Some r" "lr_token r = t" "lr_pid r = i" by blast
  then have "t < mu_next_token s" using ok unfolding mutex_ok_def holder_ok_def by blast
  moreover have "mu_held s j = None" if "mu_alive s j" "j \<noteq> i" for j
    using unheld_mutex[OF ok that(1)] that(2) r by blast
  ultimately show ?thesis
    by (intro section_step_ok[OF ok alive, where c = c and k = "Unclaiming c"]) (simp_all add: at held r)
qed

lemma remove_mutex_ok:
  assumes ok: "mutex_ok s" and alive: "mu_alive s i" and at: "mu_control s i = Removing c"
  shows "mutex_ok (goto i (Unclaiming c) (s\<lparr>mu_file := None\<rparr>))"
proof -
  have "control_ok s i (Removing c)" using ok alive at unfolding mutex_ok_def by metis
  then obtain r where r: "mu_held s i = None" "mu_file s = Some r" "lr_pid r = i" by auto
  have none: "mu_held s j = None" if "mu_alive s j" for j
    using unheld_mutex[OF ok that] r by blast
  show ?thesis
    by (rule section_step_ok[OF ok alive, where c = c and k = "Unclaiming c"]) (simp_all add: at none alive)
qed

lemma enter_section_ok:
  assumes ok: "mutex_ok s" and alive: "mu_alive s i" and at: "mu_control s i = Claimed g c"
  shows "mutex_ok (enter_section cfg i g c s)"
proof -
  have g: "goal_ok s i g" using ok alive at unfolding mutex_ok_def by fastforce
  show ?thesis
  proof (cases g)
    case Acquire
    then show ?thesis
      using ok alive at takeover_needs_dead_pid
      by (auto simp: inspect_mutex_def abandoned_def intro!: local_step_ok split: option.splits)
  next
    case (Renew t)
    have "mutex_ok (goto i (Unclaiming c) (s\<lparr>mu_held := (mu_held s)(i := None)\<rparr>))"
      by (rule section_step_ok[OF ok alive, where c = c]) (use at in auto)
    then show ?thesis using ok alive at g Renew by (auto intro!: local_step_ok)
  next
    case (Release t)
    then show ?thesis using ok alive at g by (auto simp: owns_def intro!: local_step_ok)
  qed
qed

lemma advance_ok:
  assumes ok: "mutex_ok s" and alive: "mu_alive s i"
  shows "mutex_ok (advance cfg i s)"
proof -
  have k: "control_ok s i (mu_control s i)" and claim: "claim_ok s"
    using ok alive unfolding mutex_ok_def by auto
  show ?thesis
  proof (cases "mu_control s i")
    case (Unclaiming c)
    then show ?thesis
      using ok alive rest_ok[OF ok alive, of c] by (auto simp: advance_def intro!: local_step_ok)
  next
    case (Claim_removing c)
    then show ?thesis
      using claim alive leave_section_ok[OF ok alive] by (fastforce simp: advance_def claim_ok_def)
  next
    case (Mutex_observed c t)
    then show ?thesis
      using ok alive k takeover_needs_dead_pid
      by (auto simp: advance_def confirm_mutex_def abandoned_def intro!: local_step_ok split: option.splits)
  qed (use ok alive k in \<open>auto simp: advance_def open_claim_ok move_mutex_ok create_mutex_ok renew_mutex_ok
      remove_mutex_ok enter_section_ok\<close>)
qed

lemma happens_ok:
  assumes ok: "mutex_ok s" and step: "happens cfg e s = Some s'" and quiet: "\<not> orphans_claim e s"
  shows "mutex_ok s'"
proof (cases e)
  case (Advance i)
  then show ?thesis using advance_ok[OF ok, of i cfg] step by (auto split: if_splits)
next
  case (Call_acquire i)
  then show ?thesis using ok step by (auto intro!: local_step_ok split: if_splits)
next
  case (Call_renew i)
  then show ?thesis using ok step by (auto intro!: local_step_ok split: if_splits option.splits)
next
  case (Call_release i)
  then obtain t where held: "mu_held s i = Some t" and alive: "mu_alive s i" and at: "mu_control s i = Resting"
    and s': "s' = goto i (Claiming (Release t)) (s\<lparr>mu_held := (mu_held s)(i := None)\<rparr>)"
    using step by (auto split: option.splits if_splits)
  obtain r where r: "mu_file s = Some r" "lr_token r = t" "lr_pid r = i" using holder_file[OF ok alive held] by blast
  have "claim_ok s" "holder_ok s" using ok unfolding mutex_ok_def by auto
  then have "claim_ok s'" "holder_ok s'" "t < mu_next_token s"
    using at r by (auto simp: s' claim_ok_def holder_ok_def)
  moreover have "\<forall>j. mu_alive s' j \<longrightarrow> control_ok s' j (mu_control s' j)"
    by (rule controls_frame[OF ok, where i = i and k = "Claiming (Release t)"])
      (use r \<open>t < mu_next_token s\<close> in \<open>simp_all add: s'\<close>)
  ultimately show ?thesis unfolding mutex_ok_def by blast
next
  case (Give_up i)
  then have at: "mu_control s i = Resting" and s': "s' = s\<lparr>mu_held := (mu_held s)(i := None)\<rparr>"
    using step by (auto split: if_splits)
  have "claim_ok s" "holder_ok s" using ok unfolding mutex_ok_def by auto
  then have "claim_ok s'" "holder_ok s'" by (auto simp: s' claim_ok_def holder_ok_def)
  moreover have "\<forall>j. mu_alive s' j \<longrightarrow> control_ok s' j (mu_control s' j)"
    by (rule controls_frame[OF ok, where i = i and k = Resting]) (simp_all add: s' at fun_upd_idem)
  ultimately show ?thesis unfolding mutex_ok_def by blast
next
  case (Pass n)
  then have "s' = s\<lparr>mu_now := mu_now s + n\<rparr>" using step by (simp split: if_splits)
  then show ?thesis using ok by simp
next
  case (Die i)
  then have s': "s' = s\<lparr>mu_alive := (mu_alive s)(i := False)\<rparr>" using step by simp
  have old: "claim_ok s" "holder_ok s" using ok unfolding mutex_ok_def by auto
  have "claim_ok s'" using old(1) quiet Die by (auto simp: s' claim_ok_def)
  moreover have "holder_ok s'" using old(2) by (simp add: s' holder_ok_def)
  moreover have "control_ok s' j (mu_control s' j)" if "mu_alive s' j" for j
  proof -
    have "control_ok s j (mu_control s j)" using ok that unfolding mutex_ok_def by (simp add: s' split: if_splits)
    from control_ok_frame[OF this, of s'] show ?thesis by (simp add: s')
  qed
  ultimately show ?thesis unfolding mutex_ok_def by blast
qed

interpretation orderly_mutex: interleaving_invariant "happens cfg" "\<lambda>e s. \<not> orphans_claim e s" initial_mutex mutex_ok
  for cfg
proof
  show "mutex_ok initial_mutex" by (simp add: mutex_ok_def claim_ok_def holder_ok_def initial_mutex_def)
qed (rule happens_ok)

section \<open>Properties\<close>

text \<open>
  C37. As long as no process dies between taking the claim and giving it back, the mutex excludes: a
  live process that believes it holds the mutex is the one the mutex file names, and no other live
  process believes so too. Expired leases, takeovers of the mutexes of dead processes, renewals and
  deferred releases may interleave in any order.
\<close>

theorem orderly_mutex_excludes:
  assumes "orderly cfg s" "mu_alive s i" "mu_held s i = Some t"
  shows "(\<exists>r. mu_file s = Some r \<and> lr_token r = t \<and> lr_pid r = i) \<and>
    (\<forall>j u. mu_alive s j \<longrightarrow> mu_held s j = Some u \<longrightarrow> j = i)"
proof -
  note ok = orderly_mutex.always[OF assms(1)[unfolded orderly_def]]
  obtain r where r: "mu_file s = Some r" "lr_token r = t" "lr_pid r = i" using holder_file[OF ok assms(2,3)] by blast
  have "j = i" if "mu_alive s j" "mu_held s j = Some u" for j u
    using holder_file[OF ok that] r by auto
  then show ?thesis using r by blast
qed

text \<open>A token names at most one believer, whatever dies.\<close>

definition tokens_ok :: "mutex_state \<Rightarrow> bool" where
  "tokens_ok s \<longleftrightarrow>
     (\<forall>i t. mu_held s i = Some t \<longrightarrow> t < mu_next_token s) \<and>
     (\<forall>i j t. mu_held s i = Some t \<longrightarrow> mu_held s j = Some t \<longrightarrow> i = j)"

lemma tokens_ok_frame:
  "tokens_ok s \<Longrightarrow> (\<forall>i. mu_held s' i = mu_held s i \<or> mu_held s' i = None) \<Longrightarrow>
   mu_next_token s \<le> mu_next_token s' \<Longrightarrow> tokens_ok s'"
  unfolding tokens_ok_def by (metis option.distinct(1) order_less_le_trans)

lemma create_mutex_tokens: "tokens_ok s \<Longrightarrow> tokens_ok (create_mutex cfg i c s)"
  by (auto simp: create_mutex_def tokens_ok_def less_SucI split: option.splits)

lemma enter_section_tokens:
  assumes "tokens_ok s"
  shows "tokens_ok (enter_section cfg i g c s)"
proof -
  have "tokens_ok (goto i k s)" "tokens_ok (goto i k (s\<lparr>mu_held := (mu_held s)(i := None)\<rparr>))" for k
    by (rule tokens_ok_frame[OF assms]; simp)+
  then show ?thesis by (cases g) (auto simp: inspect_mutex_def split: option.splits)
qed

lemma advance_tokens: "tokens_ok s \<Longrightarrow> tokens_ok (advance cfg i s)"
  by (cases "mu_control s i")
    (auto simp: advance_def create_mutex_tokens enter_section_tokens open_claim_def confirm_claim_def move_claim_def
      confirm_mutex_def move_mutex_def intro: tokens_ok_frame[of s] split: option.splits)

lemma happens_tokens: "tokens_ok s \<Longrightarrow> happens cfg e s = Some s' \<Longrightarrow> tokens_ok s'"
  by (cases e) (auto simp: advance_tokens intro: tokens_ok_frame[of s] split: if_splits option.splits)

interpretation mutex_tokens: interleaving_invariant "happens cfg" "\<lambda>e s. True" initial_mutex tokens_ok
  for cfg
proof
  show "tokens_ok initial_mutex" by (simp add: tokens_ok_def initial_mutex_def)
qed (rule happens_tokens)


section \<open>Concrete histories\<close>

definition one_host :: mutex_config where
  "one_host = \<lparr>mc_host = (\<lambda>i. 0), mc_lease = 30000\<rparr>"

text \<open>
  Process 0 takes the mutex and dies resting; long after, process 1 takes it over.
\<close>

definition handover :: "event list" where
  "handover = Call_acquire 0 # replicate 5 (Advance 0) @ [Die 0, Pass 40000, Call_acquire 1] @ replicate 6 (Advance 1)"

definition after_handover :: mutex_state where
  "after_handover =
     (case play (happens one_host) (\<lambda>e s. \<not> orphans_claim e s) handover initial_mutex of
        Some s \<Rightarrow> s | None \<Rightarrow> initial_mutex)"

lemma handover_orderly: "orderly one_host after_handover"
proof -
  have "(case play (happens one_host) (\<lambda>e s. \<not> orphans_claim e s) handover initial_mutex of
      Some s \<Rightarrow> True | None \<Rightarrow> False)" by code_simp
  then have "play (happens one_host) (\<lambda>e s. \<not> orphans_claim e s) handover initial_mutex = Some after_handover"
    by (simp add: after_handover_def split: option.splits)
  then show ?thesis unfolding orderly_def by (rule play_reached [OF reached.start])
qed

lemma handover_reachable: "mutex_reachable one_host after_handover"
  using handover_orderly unfolding orderly_def mutex_reachable_def by (rule reached_mono) simp

lemma handover_state: "mu_alive after_handover 1 \<and> mu_held after_handover 1 = Some 3"
  by code_simp

lemma orderly_mutex_excludes_witness:
  "(\<exists>r. mu_file after_handover = Some r \<and> lr_token r = 3 \<and> lr_pid r = 1) \<and> mu_held after_handover 1 = Some 3"
  using orderly_mutex_excludes[of one_host after_handover 1 3] handover_state
    handover_orderly by blast

lemma after_handover_asserts: "asserts_held after_handover 1"
  by code_simp


text \<open>
  Process 0 dies while it renews, so its claim and its mutex both go stale. Processes 1 and 2 confirm
  the stale claim before either moves it; process 1 moves it and creates its own, which process 2 then
  moves away. Both confirm the stale mutex; process 1 moves it and creates its own, which process 2
  moves away in turn.
\<close>

definition racing :: "event list" where
  "racing = Call_acquire 0 # replicate 5 (Advance 0) @ [Call_renew 0, Advance 0, Die 0, Pass 40000,
     Call_acquire 1, Call_acquire 2, Advance 1, Advance 2, Advance 1, Advance 2,
     Advance 1, Advance 1, Advance 2, Advance 2,
     Advance 1, Advance 2, Advance 1, Advance 2, Advance 1, Advance 1, Advance 2, Advance 2]"

text \<open>
  C39. Without that assumption the exclusion fails: the takeover of a stale claim, and of a stale
  mutex, renames whatever is at the path after an earlier check. In a reachable state two live
  processes both believe they hold the mutex; only the one the file names passes \<open>assertHeld\<close>.
\<close>

theorem takeover_race:
  "\<exists>s. mutex_reachable one_host s \<and> mu_alive s 1 \<and> mu_alive s 2 \<and> mu_held s 1 \<noteq> None \<and> mu_held s 2 \<noteq> None \<and>
     asserts_held s 2 \<and> \<not> asserts_held s 1"
proof -
  have "(case play (happens one_host) (\<lambda>e s. True) racing initial_mutex of
           Some s \<Rightarrow> mu_alive s 1 \<and> mu_alive s 2 \<and> mu_held s 1 \<noteq> None \<and> mu_held s 2 \<noteq> None \<and>
             asserts_held s 2 \<and> \<not> asserts_held s 1
         | None \<Rightarrow> False)"
    by code_simp
  then show ?thesis unfolding mutex_reachable_def
    by (auto split: option.splits intro: play_reached [OF reached.start])
qed

end
