(* ===== verification/Json_Roundtrip.thy ===== *)
theory Json_Roundtrip
  imports Json_Values
begin

text \<open>
  \<open>JSON.parse\<close> reads back what \<open>JSON.stringify\<close> printed: every value with distinct keys and
  well-formed numbers, in front of anything that cannot continue a number.
\<close>

section \<open>Numbers\<close>

definition number_unit :: "code_unit \<Rightarrow> bool" where
  "number_unit c \<longleftrightarrow> json_digit c \<or> c = 0x2E \<or> c = 0x65 \<or> c = 0x45 \<or> c = 0x2B \<or> c = 0x2D"

definition ends_number :: "jstr \<Rightarrow> bool" where
  "ends_number r \<longleftrightarrow> (case r of [] \<Rightarrow> True | c # _ \<Rightarrow> \<not> number_unit c)"

definition json_number :: "jstr \<Rightarrow> bool" where
  "json_number n \<longleftrightarrow> parse_number n = Some (J_num n, [])"

lemma ends_number_simps [simp]:
  "ends_number []" "ends_number (c # s) = (\<not> number_unit c)"
  by (simp_all add: ends_number_def)

lemma parse_digits_append:
  assumes "parse_digits s = Some (ds, q)" "ends_number r"
  shows "parse_digits (s @ r) = Some (ds, q @ r)"
proof -
  have ds: "takeWhile json_digit s = ds" "ds \<noteq> []" and q: "dropWhile json_digit s = q"
    using assms(1) by (auto simp: parse_digits_def Let_def split: if_splits)
  have "takeWhile json_digit (s @ r) = ds \<and> dropWhile json_digit (s @ r) = q @ r"
  proof (cases "q = []")
    case True
    then have all: "\<forall>c\<in>set s. json_digit c" using q by simp
    have "takeWhile json_digit r = [] \<and> dropWhile json_digit r = r"
      using assms(2) by (cases r) (auto simp: number_unit_def)
    then show ?thesis using all ds True by (simp add: takeWhile_append2 dropWhile_append2 takeWhile_eq_all_conv[THEN iffD2])
  next
    case False
    then obtain c where "c \<in> set s" "\<not> json_digit c" using q by (auto simp: dropWhile_eq_Nil_conv)
    then show ?thesis using ds q by (simp add: takeWhile_append1 dropWhile_append1)
  qed
  then show ?thesis using ds(2) by (simp add: parse_digits_def)
qed

lemma parse_integer_part_append:
  "parse_integer_part s = Some (i, q) \<Longrightarrow> ends_number r \<Longrightarrow> parse_integer_part (s @ r) = Some (i, q @ r)"
  using parse_digits_append [of s i q r]
  by (auto simp: parse_integer_part_def split: list.splits if_splits)

lemma parse_fraction_append:
  assumes "parse_fraction s = Some (f, q)" "ends_number r"
  shows "parse_fraction (s @ r) = Some (f, q @ r)"
proof (cases s)
  case Nil
  then show ?thesis using assms by (cases r) (auto simp: parse_fraction_def number_unit_def)
next
  case (Cons c t)
  then show ?thesis
    using assms parse_digits_append [of t _ q r] by (auto simp: parse_fraction_def split: if_splits)
qed

lemma parse_exponent_append:
  assumes "parse_exponent s = Some (e, q)" "ends_number r"
  shows "parse_exponent (s @ r) = Some (e, q @ r)"
proof (cases s)
  case Nil
  then show ?thesis using assms by (cases r) (auto simp: parse_exponent_def number_unit_def)
next
  case (Cons c t)
  show ?thesis
  proof (cases "c = 0x65 \<or> c = 0x45")
    case True
    then obtain d u where t: "t = d # u" using assms(1) Cons by (cases t) (auto simp: parse_exponent_def)
    then show ?thesis
      using assms True Cons parse_digits_append [of u _ q r] parse_digits_append [of "d # u" _ q r]
      by (cases "d = 0x2B \<or> d = 0x2D") (auto simp: parse_exponent_def)
  next
    case False
    then show ?thesis using assms(1) Cons by (auto simp: parse_exponent_def)
  qed
qed

lemma parse_number_append:
  assumes "parse_number s = Some (v, q)" "ends_number r"
  shows "parse_number (s @ r) = Some (v, q @ r)"
proof -
  have "s \<noteq> []" using assms(1) by (auto simp: parse_number_def parse_integer_part_def)
  then show ?thesis
    using assms(1) parse_integer_part_append [OF _ assms(2)] parse_fraction_append [OF _ assms(2)]
      parse_exponent_append [OF _ assms(2)]
    by (auto simp: parse_number_def Let_def split: option.splits if_splits) 
qed

lemma json_number_append: "json_number n \<Longrightarrow> ends_number r \<Longrightarrow> parse_number (n @ r) = Some (J_num n, r)"
  using parse_number_append [of n "J_num n" "[]" r] by (simp add: json_number_def)

lemma json_number_head: "json_number n \<Longrightarrow> \<exists>c t. n = c # t \<and> (json_digit c \<or> c = 0x2D)"
  by (cases n)
    (auto simp: json_number_def parse_number_def parse_integer_part_def parse_digits_def Let_def json_digit_def
      split: if_splits option.splits)

section \<open>Strings\<close>

lemma hex_value_digit: "n < 16 \<Longrightarrow> hex_value (hex_digit n) = Some n"
proof -
  assume "n < 16"
  then have "n \<in> set [0..<16]" by simp
  moreover have "list_all (\<lambda>n. hex_value (hex_digit n) = Some n) [0..<16]" by code_simp
  ultimately show ?thesis by (simp add: list_all_iff)
qed

lemma four_digits:
  fixes n :: nat
  assumes "n < 65536"
  shows "((n div 4096 mod 16 * 16 + n div 256 mod 16) * 16 + n div 16 mod 16) * 16 + n mod 16 = n"
proof -
  have step: "m div 16 * 16 + m mod 16 = m" for m :: nat by simp
  have "n div 4096 mod 16 = n div 256 div 16" "n div 256 = n div 16 div 16"
    using assms by (simp_all flip: div_mult2_eq)
  then show ?thesis by (simp only: step)
qed

lemma hex4_digits:
  "hex4 (hex_digit (unat c div 4096 mod 16)) (hex_digit (unat c div 256 mod 16))
     (hex_digit (unat c div 16 mod 16)) (hex_digit (unat c mod 16)) = Some (c :: code_unit)"
proof -
  have "unat c < 65536" using unsigned_less [of c] by simp
  note eq = four_digits [OF this]
  have digit: "hex_value (hex_digit (k mod 16)) = Some (k mod 16)" for k by (simp add: hex_value_digit)
  show ?thesis unfolding hex4_def digit by (simp only: option.case prod.case eq of_nat_unat ucast_id)
qed

lemma parse_chars_unicode: "parse_chars (unicode_escape c @ s) = map_option (\<lambda>(t, z). (c # t, z)) (parse_chars s)"
  by (simp add: unicode_escape_def Let_def hex4_digits)

lemma parse_chars_quote_unit: "parse_chars (quote_unit c @ s) = map_option (\<lambda>(t, z). (c # t, z)) (parse_chars s)"
  using parse_chars_unicode [of c s] by (simp add: quote_unit_def simple_escape_def)

lemma surrogates_plain: "high_surrogate c \<or> low_surrogate c \<Longrightarrow> c \<noteq> 0x22 \<and> c \<noteq> 0x5C \<and> \<not> c < 0x20"
  by (auto simp: high_surrogate_def low_surrogate_def word_le_nat_alt word_less_nat_alt)

lemma parse_chars_quoted: "parse_chars (quote_units s @ 0x22 # r) = Some (s, r)"
proof (induction s rule: quote_units.induct)
  case (2 c)
  then show ?case by (simp add: parse_chars_unicode parse_chars_quote_unit)
next
  case (3 c d s)
  then show ?case
    using surrogates_plain [of c] surrogates_plain [of d]
    by (cases "high_surrogate c \<and> low_surrogate d") (auto simp: parse_chars_unicode parse_chars_quote_unit)
qed simp

section \<open>Values\<close>

fun json_ok :: "json \<Rightarrow> bool"
  and items_ok :: "json list \<Rightarrow> bool"
  and members_ok :: "(jstr \<times> json) list \<Rightarrow> bool" where
  "json_ok J_null \<longleftrightarrow> True"
| "json_ok (J_bool b) \<longleftrightarrow> True"
| "json_ok (J_num n) \<longleftrightarrow> json_number n"
| "json_ok (J_str s) \<longleftrightarrow> True"
| "json_ok (J_arr xs) \<longleftrightarrow> items_ok xs"
| "json_ok (J_obj ms) \<longleftrightarrow> distinct (map fst ms) \<and> members_ok ms"
| "items_ok [] \<longleftrightarrow> True"
| "items_ok (x # xs) \<longleftrightarrow> json_ok x \<and> items_ok xs"
| "members_ok [] \<longleftrightarrow> True"
| "members_ok ((k, v) # ms) \<longleftrightarrow> json_ok v \<and> members_ok ms"

lemma json_chars [simp]:
  "js ''['' = [0x5B]" "js '']'' = [0x5D]" "js ''{'' = [0x7B]" "js ''}'' = [0x7D]" "js '','' = [0x2C]" "js '':'' = [0x3A]"
  by (simp_all add: js_def of_char_def)

lemma skip_space_keeps: "\<not> json_space c \<Longrightarrow> skip_space (c # s) = c # s"
  by (simp add: skip_space_def)

definition value_head :: "code_unit \<Rightarrow> bool" where
  "value_head c \<longleftrightarrow> c \<in> {0x22, 0x5B, 0x7B, 0x6E, 0x74, 0x66, 0x2D} \<or> json_digit c"

lemma value_head_not: "value_head c \<Longrightarrow> \<not> json_space c \<and> c \<noteq> 0x5D \<and> c \<noteq> 0x7D \<and> c \<noteq> 0x2C"
  by (auto simp: value_head_def json_space_def json_digit_def)

lemma stringify_head: "json_ok v \<Longrightarrow> \<exists>c t. stringify v = c # t \<and> value_head c"
  using json_number_head
  by (cases v) (fastforce simp: value_head_def quote_string_def js_def of_char_def)+

lemma skip_space_stringify: "json_ok v \<Longrightarrow> skip_space (stringify v @ s) = stringify v @ s"
  using stringify_head [of v] value_head_not skip_space_keeps by fastforce

lemma js_join_Cons: "xs \<noteq> [] \<Longrightarrow> js_join sep (x # xs) = x @ sep @ js_join sep xs"
  by (cases xs) auto

lemma stringify_items_Nil [simp]: "stringify_items xs = [] \<longleftrightarrow> xs = []"
  by (cases xs) auto

lemma stringify_members_Nil [simp]: "stringify_members ms = [] \<longleftrightarrow> ms = []"
  by (cases ms) auto

lemma update_fresh: "k \<notin> fst ` set acc \<Longrightarrow> AList.update k v acc = acc @ [(k, v)]"
  by (induction acc) auto

text \<open>One unit of fuel for each printed code unit is enough.\<close>

lemma parse_stringify:
  "json_ok v \<Longrightarrow> length (stringify v) \<le> n \<Longrightarrow> ends_number r \<Longrightarrow> parse_value n (stringify v @ r) = Some (v, r)"
  "items_ok xs \<Longrightarrow> xs \<noteq> [] \<Longrightarrow> length (js_join (js '','') (stringify_items xs)) < n \<Longrightarrow>
   parse_elements n acc (js_join (js '','') (stringify_items xs) @ 0x5D # r) = Some (J_arr (acc @ xs), r)"
  "members_ok ms \<Longrightarrow> ms \<noteq> [] \<Longrightarrow> distinct (map fst (acc' @ ms)) \<Longrightarrow>
   length (js_join (js '','') (stringify_members ms)) < n \<Longrightarrow>
   parse_members n acc' (js_join (js '','') (stringify_members ms) @ 0x7D # r) = Some (J_obj (acc' @ ms), r)"
proof (induction v and xs and ms arbitrary: n r and n acc r and n acc' r rule: stringify_stringify_items_stringify_members.induct)
  case 1
  then show ?case by (cases n) (auto simp: js_def of_char_def skip_space_def json_space_def)
next
  case (2 b)
  then show ?case by (cases n; cases b) (auto simp: js_def of_char_def skip_space_def json_space_def)
next
  case (3 x)
  then obtain c t where x: "x = c # t" "json_digit c \<or> c = 0x2D" using json_number_head by fastforce
  then have c: "\<not> json_space c" "c \<notin> {0x22, 0x5B, 0x7B, 0x6E, 0x74, 0x66}"
    by (auto simp: json_space_def json_digit_def)
  have "parse_number (c # t @ r) = Some (J_num x, r)" using json_number_append [of x r] 3 x by simp
  then show ?case using 3 x c by (cases n) (auto simp: skip_space_keeps)
next
  case (4 s)
  then show ?case
    by (cases n) (auto simp: quote_string_def skip_space_def json_space_def parse_chars_quoted)
next
  case (5 xs)
  then obtain m where n: "n = Suc m" "length (js_join (js '','') (stringify_items xs)) < m \<or> xs = []"
    by (cases n) auto
  show ?case
  proof (cases xs)
    case Nil
    then show ?thesis using n by (simp add: skip_space_def json_space_def)
  next
    case (Cons y ys)
    have "parse_elements m [] (js_join (js '','') (stringify_items xs) @ 0x5D # r) = Some (J_arr xs, r)"
      using 5(1) [of m "[]" r] 5(2) n Cons by simp
    moreover obtain c t where "js_join (js '','') (stringify_items xs) = c # t" "value_head c"
      using stringify_head [of y] 5(2) Cons by (cases ys) auto
    ultimately show ?thesis
      using n value_head_not [of c] by (simp add: skip_space_def json_space_def)
  qed
next
  case (6 ms)
  then obtain m where n: "n = Suc m" "length (js_join (js '','') (stringify_members ms)) < m \<or> ms = []"
    by (cases n) auto
  show ?case
  proof (cases ms)
    case Nil
    then show ?thesis using n by (simp add: skip_space_def json_space_def)
  next
    case (Cons y ys)
    have "parse_members m [] (js_join (js '','') (stringify_members ms) @ 0x7D # r) = Some (J_obj ms, r)"
      using 6(1) [of "[]" m r] 6(2) n Cons by simp
    moreover obtain t where "js_join (js '','') (stringify_members ms) = 0x22 # t"
      using Cons by (cases y; cases ys) (auto simp: quote_string_def)
    ultimately show ?thesis using n by (simp add: skip_space_def json_space_def)
  qed
next
  case (8 x xs)
  then obtain m where n: "n = Suc m" by (cases n) auto
  show ?case
  proof (cases "xs = []")
    case True
    then show ?thesis
      using 8 n by (simp add: skip_space_def json_space_def number_unit_def json_digit_def)
  next
    case False
    have "parse_elements m (acc @ [x]) (js_join (js '','') (stringify_items xs) @ 0x5D # r) = Some (J_arr ((acc @ [x]) @ xs), r)"
      using 8(2) [of m "acc @ [x]" r] 8(3-) n False by (simp add: js_join_Cons)
    moreover have "parse_value m (stringify x @ 0x2C # js_join (js '','') (stringify_items xs) @ 0x5D # r) =
        Some (x, 0x2C # js_join (js '','') (stringify_items xs) @ 0x5D # r)"
      using 8(1) [of m] 8(3-) n False by (simp add: js_join_Cons number_unit_def json_digit_def)
    ultimately show ?thesis
      using n False by (simp add: js_join_Cons skip_space_def json_space_def)
  qed
next
  case (10 k v ms)
  then obtain m where n: "n = Suc m" by (cases n) auto
  have fresh: "AList.update k v acc' = acc' @ [(k, v)]" using 10(5) by (intro update_fresh) auto
  show ?case
  proof (cases "ms = []")
    case True
    then show ?thesis
      using 10 n fresh
      by (simp add: skip_space_def json_space_def number_unit_def json_digit_def quote_string_def parse_chars_quoted)
  next
    case False
    have "parse_members m (acc' @ [(k, v)]) (js_join (js '','') (stringify_members ms) @ 0x7D # r) =
        Some (J_obj ((acc' @ [(k, v)]) @ ms), r)"
      using 10(2) [of "acc' @ [(k, v)]" m r] 10(3-) n False by (simp add: js_join_Cons)
    moreover have "parse_value m (stringify v @ 0x2C # js_join (js '','') (stringify_members ms) @ 0x7D # r) =
        Some (v, 0x2C # js_join (js '','') (stringify_members ms) @ 0x7D # r)"
      using 10(1) [of m] 10(3-) n False by (simp add: js_join_Cons number_unit_def json_digit_def)
    ultimately show ?thesis
      using n False fresh
      by (simp add: js_join_Cons skip_space_def json_space_def quote_string_def parse_chars_quoted)
  qed
qed auto

text \<open>\<open>JSON.parse(JSON.stringify(v))\<close>\<close>

lemma json_parse_stringify:
  assumes "json_ok v"
  shows "json_parse (stringify v) = Some v"
  using parse_stringify(1) [OF assms, of "2 * length (stringify v) + 2" "[]"]
  by (simp add: json_parse_def skip_space_def)

end
