(* ===== verification/Sessions.thy ===== *)
theory Sessions
  imports Json_Roundtrip Outputs
begin

text \<open>
  \<open>src/sessions.ts\<close>: reading the one JSON object out of the text of a model's reply. Positions in
  the text are natural numbers, as in the source; \<open>drop i text\<close> is \<open>text.slice(i)\<close>.
\<close>

section \<open>Scanning for an object\<close>

datatype extraction_reason =
  Empty_text | No_json | Truncated_json | Oversized_json | Too_many | Invalid_json | Not_object | Ambiguous

definition MAX_JSON_CANDIDATES :: nat where "MAX_JSON_CANDIDATES = 8"
definition MAX_JSON_CANDIDATE_BYTES :: nat where "MAX_JSON_CANDIDATE_BYTES = MAX_AGENT_RESPONSE_TEXT_BYTES"

definition opener :: "code_unit \<Rightarrow> bool" where "opener c \<longleftrightarrow> c = 0x7B \<or> c = 0x5B"

definition closer :: "code_unit \<Rightarrow> bool" where "closer c \<longleftrightarrow> c = 0x7D \<or> c = 0x5D"

definition closer_of :: "code_unit \<Rightarrow> code_unit" where
  "closer_of c = (if c = 0x7B then 0x7D else 0x5D)"

definition blank :: "code_unit \<Rightarrow> bool" where "blank c \<longleftrightarrow> c = 0x20 \<or> c = 0x09"

definition json_word :: "jstr \<Rightarrow> bool" where
  "json_word s \<longleftrightarrow> map (\<lambda>c. if 0x41 \<le> c \<and> c \<le> 0x5A then c + 0x20 else c) s = js ''json''"

text \<open>The length of a match of the fence pattern at the start of \<open>s\<close>.\<close>

definition fence_match :: "jstr \<Rightarrow> nat option" where
  "fence_match s =
     (if take 3 s \<noteq> js ''```'' then None
      else let k = (if json_word (take 4 (drop 3 s)) then 7 else 3);
               m = k + length (takeWhile blank (drop k s))
           in if take 2 (drop m s) = [0x0D, 0x0A] then Some (m + 2)
              else (case drop m s of
                  c # _ \<Rightarrow> if c = 0x0A then Some (m + 1) else if opener c then Some m else None
                | [] \<Rightarrow> None))"

text \<open>Whether a fence closes the body outside of a JSON string.\<close>

fun fence_closes :: "bool \<Rightarrow> bool \<Rightarrow> jstr \<Rightarrow> bool" where
  "fence_closes in_string escaped [] = False"
| "fence_closes in_string escaped (c # s) =
     (if in_string then
        (if escaped then fence_closes True False s
         else if c = 0x5C then fence_closes True True s
         else fence_closes (c \<noteq> 0x22) False s)
      else if c = 0x22 then fence_closes True False s
      else take 3 (c # s) = js ''```'' \<or> fence_closes False False s)"

text \<open>Where the opener of the fence and its body start.\<close>

definition next_json_fence :: "jstr \<Rightarrow> nat \<Rightarrow> (nat \<times> nat) option" where
  "next_json_fence text from =
     (case find (\<lambda>i. fence_match (drop i text) \<noteq> None) [from..<length text] of
        None \<Rightarrow> None
      | Some i \<Rightarrow>
          (let body = i + (case fence_match (drop i text) of None \<Rightarrow> 0 | Some n \<Rightarrow> n);
               rest = drop body text
           in if (case dropWhile json_space rest of c # _ \<Rightarrow> opener c | [] \<Rightarrow> False) \<and> fence_closes False False rest
              then Some (i, body) else None))"

definition word_unit :: "code_unit \<Rightarrow> bool" where
  "word_unit c \<longleftrightarrow> json_digit c \<or> (0x41 \<le> c \<and> c \<le> 0x5A) \<or> (0x61 \<le> c \<and> c \<le> 0x7A) \<or> c = 0x5F"

definition starts_word :: "string \<Rightarrow> jstr \<Rightarrow> bool" where
  "starts_word w s \<longleftrightarrow> take (length w) s = js w \<and>
     (case drop (length w) s of c # _ \<Rightarrow> \<not> word_unit c | [] \<Rightarrow> True)"

text \<open>Whether what follows an opener in the prose may be JSON.\<close>

definition json_continuation :: "jstr \<Rightarrow> bool" where
  "json_continuation s \<longleftrightarrow>
     (case dropWhile js_space s of
        [] \<Rightarrow> True
      | c # t \<Rightarrow> c \<in> set (js [CHR 0x22, CHR ''{'', CHR ''}'', CHR ''['', CHR '']'', CHR ''-'']) \<or> json_digit c \<or>
          starts_word ''true'' (c # t) \<or> starts_word ''false'' (c # t) \<or> starts_word ''null'' (c # t))"

datatype recovery = No_recovery | Recovery_too_many | Recovered nat nat

text \<open>The openers of the prose before the fence: \<open>first\<close> says the current one is already charged.\<close>

fun skip_openers :: "bool \<Rightarrow> nat \<Rightarrow> nat \<Rightarrow> nat \<Rightarrow> jstr \<Rightarrow> recovery" where
  "skip_openers first body skipped budget [] = Recovered body skipped"
| "skip_openers first body skipped budget (c # s) =
     (if \<not> opener c then skip_openers False body skipped budget s
      else let skipped' = (if first then skipped else Suc skipped)
        in if \<not> first \<and> budget < skipped' then Recovery_too_many
           else if json_continuation s then No_recovery
           else skip_openers False body skipped' budget s)"

definition prose_fence_recovery :: "jstr \<Rightarrow> nat \<Rightarrow> nat \<Rightarrow> recovery" where
  "prose_fence_recovery text start budget =
     (case next_json_fence text (start + 1) of
        None \<Rightarrow> No_recovery
      | Some (fence, body) \<Rightarrow>
          (let line = rev (takeWhile (\<lambda>c. c \<noteq> 0x0A) (rev (take start text)));
               prefix = drop start (take fence text)
           in if list_all js_space line then No_recovery
              else if 0x3A \<in> set prefix then No_recovery
              else skip_openers True body 0 budget prefix))"

text \<open>
  From an opener to its matching closer: the number of units read, the closers still expected,
  whether the scan ended inside a string and whether it met a wrong closer.
\<close>

type_synonym span = "nat \<times> jstr \<times> bool \<times> bool"

definition longer :: "span \<Rightarrow> span" where "longer r = (case r of (n, z) \<Rightarrow> (Suc n, z))"

fun scan_span :: "jstr \<Rightarrow> bool \<Rightarrow> bool \<Rightarrow> jstr \<Rightarrow> span" where
  "scan_span stack in_string escaped [] = (0, stack, in_string, False)"
| "scan_span stack in_string escaped (c # s) =
     (if in_string then
        longer (if escaped then scan_span stack True False s
          else if c = 0x5C then scan_span stack True True s
          else scan_span stack (c \<noteq> 0x22) False s)
      else if c = 0x22 then longer (scan_span stack True False s)
      else if opener c then longer (scan_span (closer_of c # stack) False False s)
      else if closer c then
        (if stack = [] \<or> hd stack \<noteq> c then (1, tl stack, False, True)
         else if tl stack = [] then (1, [], False, False)
         else longer (scan_span (tl stack) False False s))
      else longer (scan_span stack False False s))"

definition first_reason :: "extraction_reason option \<Rightarrow> extraction_reason \<Rightarrow> extraction_reason option" where
  "first_reason r x = (case r of None \<Rightarrow> Some x | Some y \<Rightarrow> Some y)"

text \<open>\<open>JSON.parse\<close> of a span, when it is not too large.\<close>

definition read_candidate ::
  "jstr \<Rightarrow> json list \<times> extraction_reason option \<Rightarrow> json list \<times> extraction_reason option" where
  "read_candidate source st =
     (let (candidates, reason) = st in
      if MAX_JSON_CANDIDATE_BYTES < utf8_bytes source then (candidates, first_reason reason Oversized_json)
      else (case json_parse source of
          None \<Rightarrow> (candidates, first_reason reason Invalid_json)
        | Some (J_obj ms) \<Rightarrow> (candidates @ [J_obj ms], reason)
        | Some v \<Rightarrow> (candidates, first_reason reason Not_object)))"

definition closing_reason :: "json list \<times> extraction_reason option \<Rightarrow> json list \<times> extraction_reason option" where
  "closing_reason st =
     (fst st, case snd st of None \<Rightarrow> if fst st = [] then Some No_json else None | Some r \<Rightarrow> Some r)"

lemma scan_span_consumes: "c # s = text \<Longrightarrow> 0 < fst (scan_span stack in_string escaped text)"
  by (auto simp: longer_def split: prod.splits)

lemma skip_openers_body: "skip_openers first body skipped budget s = Recovered b k \<Longrightarrow> b = body"
  by (induction first body skipped budget s rule: skip_openers.induct) (auto simp: Let_def split: if_splits)

lemma find_upt_Some: "find P [i..<j] = Some k \<Longrightarrow> i \<le> k \<and> k < j \<and> P k"
  by (auto simp: find_Some_iff)

lemma recovery_advances:
  assumes "prose_fence_recovery text start budget = Recovered body skipped"
  shows "start < body"
  using assms skip_openers_body find_upt_Some
  by (fastforce simp: prose_fence_recovery_def next_json_fence_def Let_def split: option.splits if_splits)

function candidates_from ::
  "jstr \<Rightarrow> nat \<Rightarrow> nat \<Rightarrow> json list \<times> extraction_reason option \<Rightarrow> json list \<times> extraction_reason option" where
  "candidates_from text start scanned st =
     (if length text \<le> start then closing_reason st
      else if \<not> opener (text ! start) then candidates_from text (start + 1) scanned st
      else if MAX_JSON_CANDIDATES \<le> scanned then (fst st, Some Too_many)
      else let (n, stack, in_string, wrong) = scan_span [] False False (drop start text);
               st' = (if wrong then (fst st, first_reason (snd st) Invalid_json) else st)
        in if stack \<noteq> [] \<or> in_string then
             (case prose_fence_recovery text start (MAX_JSON_CANDIDATES - (scanned + 1)) of
                Recovery_too_many \<Rightarrow> (fst st', Some Too_many)
              | Recovered body skipped \<Rightarrow> candidates_from text body (scanned + 1 + skipped) st'
              | No_recovery \<Rightarrow> closing_reason (fst st', Some Truncated_json))
           else candidates_from text (start + n) (scanned + 1) (read_candidate (take n (drop start text)) st'))"
  by pat_completeness auto

termination
proof (relation "measure (\<lambda>(text, start, scanned, st). length text - start)", goal_cases)
  case (4 t start scanned st p n q stack r in_string wrong st')
  then have "0 < n" using scan_span_consumes [of "t ! start" "drop (Suc start) t"]
    by (metis Cons_nth_drop_Suc fst_conv not_le_imp_less)
  then show ?case using 4(1) by simp
qed (use recovery_advances in \<open>fastforce+\<close>)

declare candidates_from.simps [simp del]

definition json_object_candidates :: "jstr \<Rightarrow> json list \<times> extraction_reason option" where
  "json_object_candidates text =
     (if js_trim text = [] then ([], Some Empty_text)
      else if MAX_JSON_CANDIDATE_BYTES < utf8_bytes text then ([], Some Oversized_json)
      else candidates_from text 0 0 ([], None))"

section \<open>Choosing one\<close>

definition forward_slashes :: "jstr \<Rightarrow> jstr" where
  "forward_slashes = map (\<lambda>c. if c = 0x5C then 0x2F else c)"

definition slash_value :: "json \<Rightarrow> json" where
  "slash_value v = (case v of J_str s \<Rightarrow> J_str (forward_slashes s) | _ \<Rightarrow> v)"

definition normalize_response_json :: "json \<Rightarrow> json" where
  "normalize_response_json v =
     (case v of
        J_obj ms \<Rightarrow> J_obj (map (\<lambda>(k, x).
          (k, if k = js ''files_touched'' then (case x of J_arr xs \<Rightarrow> J_arr (map slash_value xs) | _ \<Rightarrow> x)
              else if k = js ''artifact_path'' then slash_value x else x)) ms)
      | _ \<Rightarrow> v)"

record json_extraction =
  je_value :: "json option"
  je_reason :: "extraction_reason option"
  je_candidate_count :: nat

text \<open>\<open>accepts\<close> says whether \<open>parseAndValidate\<close> accepts a candidate for the agent, if one is given.\<close>

definition extract_json_detailed :: "(json \<Rightarrow> bool) option \<Rightarrow> jstr \<Rightarrow> json_extraction" where
  "extract_json_detailed accepts text =
     (let (found, reason) = json_object_candidates text;
          candidates = map normalize_response_json found;
          n = length candidates;
          failed = (\<lambda>r. \<lparr>je_value = None, je_reason = r, je_candidate_count = n\<rparr>)
      in if reason \<in> {Some Too_many, Some Oversized_json, Some Truncated_json} then failed reason
         else (case candidates of
             [v] \<Rightarrow> \<lparr>je_value = Some v, je_reason = None, je_candidate_count = 1\<rparr>
           | [] \<Rightarrow> failed reason
           | _ \<Rightarrow> (case map_option (\<lambda>f. filter f candidates) accepts of
                 Some [v] \<Rightarrow> \<lparr>je_value = Some v, je_reason = None, je_candidate_count = n\<rparr>
               | _ \<Rightarrow> failed (Some Ambiguous))))"

definition extract_json :: "jstr \<Rightarrow> json option" where
  "extract_json text = je_value (extract_json_detailed None text)"

section \<open>The reply of a child session\<close>

datatype reply_part = Text_part jstr | Other_part

text \<open>The chunks so far, their bytes with the separators, their number, and whether they are too large.\<close>

fun collect_parts :: "reply_part list \<Rightarrow> jstr list \<Rightarrow> nat \<Rightarrow> nat \<Rightarrow> bool \<Rightarrow> jstr list \<times> nat \<times> bool" where
  "collect_parts [] chunks bytes n oversized = (chunks, n, oversized)"
| "collect_parts (Other_part # ps) chunks bytes n oversized = collect_parts ps chunks bytes n oversized"
| "collect_parts (Text_part chunk # ps) chunks bytes n oversized =
     (if oversized then collect_parts ps chunks bytes (Suc n) True
      else let bytes' = bytes + utf8_bytes chunk + (if n = 0 then 0 else 1)
        in if MAX_AGENT_RESPONSE_TEXT_BYTES < bytes' then collect_parts ps chunks bytes' (Suc n) True
           else collect_parts ps (chunks @ [chunk]) bytes' (Suc n) False)"

definition parts_to_text :: "reply_part list \<Rightarrow> jstr \<times> nat \<times> bool" where
  "parts_to_text parts =
     (case collect_parts parts [] 0 0 False of
        (chunks, n, oversized) \<Rightarrow> (if oversized then [] else js_join [0x0A] chunks, n, oversized))"

text \<open>\<open>toLowerCase\<close> where its result can be ASCII; U+212A is the Kelvin sign.\<close>

definition lower_unit :: "code_unit \<Rightarrow> code_unit" where
  "lower_unit c = (if 0x41 \<le> c \<and> c \<le> 0x5A then c + 0x20 else if c = 0x212A then 0x6B else c)"

definition finish_reason :: "jstr option \<Rightarrow> jstr option" where
  "finish_reason raw = map_option (\<lambda>s.
     let normalized = map lower_unit s
     in if normalized \<in> set (map js [''stop'', ''length'', ''tool_calls'', ''content_filter'', ''error'', ''unknown''])
        then normalized else js ''other'') raw"

fun reason_name :: "extraction_reason \<Rightarrow> jstr" where
  "reason_name Empty_text = js ''empty''"
| "reason_name No_json = js ''no_json''"
| "reason_name Truncated_json = js ''truncated''"
| "reason_name Oversized_json = js ''oversized''"
| "reason_name Too_many = js ''too_many''"
| "reason_name Invalid_json = js ''invalid_json''"
| "reason_name Not_object = js ''not_object''"
| "reason_name Ambiguous = js ''ambiguous''"

text \<open>What the host returned: the parts, the failure of the model call (its category and text) and the finish reason.\<close>

record host_reply =
  hr_parts :: "reply_part list"
  hr_failure :: "(jstr \<times> jstr) option"
  hr_finish :: "jstr option"

record node_prompt_result =
  np_session_id :: jstr
  np_text :: jstr
  np_parsed :: "json option"
  np_error :: "jstr option"
  np_response_diagnostic :: "jstr option"

definition read_reply :: "(json \<Rightarrow> bool) option \<Rightarrow> jstr \<Rightarrow> host_reply \<Rightarrow> node_prompt_result" where
  "read_reply accepts session reply =
     (let (txt, text_parts, oversized) = parts_to_text (hr_parts reply);
          parts = length (hr_parts reply);
          extraction = (if oversized then \<lparr>je_value = None, je_reason = Some Oversized_json, je_candidate_count = 0\<rparr>
            else extract_json_detailed accepts txt);
          failure = (if je_value extraction = None then hr_failure reply else None)
      in \<lparr>np_session_id = session, np_text = txt, np_parsed = je_value extraction, np_error = map_option snd failure,
          np_response_diagnostic =
            (if je_value extraction \<noteq> None then None
             else Some (js ''Response parse: '' @ reason_name (case je_reason extraction of None \<Rightarrow> No_json | Some r \<Rightarrow> r) @
               js ''; error_category='' @ (case failure of None \<Rightarrow> js ''none'' | Some (c, _) \<Rightarrow> c) @
               js ''; parts='' @ dec parts @ js ''; text_parts='' @ dec text_parts @
               js ''; non_text_parts='' @ dec (parts - text_parts) @
               (case finish_reason (hr_finish reply) of None \<Rightarrow> [] | Some f \<Rightarrow> js ''; finish='' @ f)))\<rparr>)"

section \<open>One child session\<close>

text \<open>A call of the host's client answers, reports an error, or throws; an error is kept as its text.\<close>

datatype 'a client_answer = Answered 'a | Reported jstr | Threw jstr

text \<open>The body of the prompt request: absent members are \<open>None\<close>.\<close>

record prompt_body =
  pb_agent :: alg_agent
  pb_tools :: "(jstr \<times> bool) list option"
  pb_model :: "(jstr \<times> jstr) option"
  pb_variant :: "jstr option"
  pb_text :: jstr

definition prompt_body_of :: "alg_agent \<Rightarrow> jstr list \<Rightarrow> model_ref option \<Rightarrow> jstr \<Rightarrow> prompt_body" where
  "prompt_body_of agent disabled_tools model full =
     \<lparr>pb_agent = agent,
      pb_tools = (if disabled_tools = [] then None else Some (map (\<lambda>i. (i, False)) disabled_tools)),
      pb_model = map_option (\<lambda>m. (mr_providerID m, mr_modelID m)) model,
      pb_variant = (case model of None \<Rightarrow> None | Some m \<Rightarrow> if mr_variant m = Some [] then None else mr_variant m),
      pb_text = full\<rparr>"

definition session_title :: "alg_agent \<Rightarrow> jstr \<Rightarrow> jstr" where
  "session_title agent title = js ''alg:'' @ title @ js '' (@'' @ agent_name agent @ js '' subagent)''"

text \<open>The host creates a session for a title and answers a prompt in it.\<close>

record session_answers =
  sa_aborted :: bool
  sa_create :: "jstr \<Rightarrow> jstr client_answer"
  sa_callback_fails :: bool
  sa_aborted_later :: bool
  sa_prompt :: "jstr \<Rightarrow> prompt_body \<Rightarrow> host_reply client_answer"

record node_prompt_opts =
  no_agent :: alg_agent
  no_title :: jstr
  no_user_prompt :: jstr
  no_model :: "model_ref option"
  no_disabled_tools :: "jstr list"

definition prompt_limit :: "alg_agent \<Rightarrow> nat" where
  "prompt_limit agent = (if agent = Checker then MAX_CHECKER_PROMPT_BYTES else MAX_WORKER_PROMPT_BYTES)"

definition full_prompt :: "alg_agent \<Rightarrow> jstr \<Rightarrow> jstr \<Rightarrow> jstr" where
  "full_prompt agent schema_hint user_prompt =
     user_prompt @ [0x0A, 0x0A] @ js ''---'' @ [0x0A] @ js ''OUTPUT CONTRACT (mandatory):'' @ [0x0A] @
     js ''Return a single JSON object matching this strict schema for agent '' @ [0x22] @ agent_name agent @ [0x22] @
     js ''.'' @ [0x0A] @ js ''No prose outside the JSON (markdown fences allowed).'' @ [0x0A, 0x0A] @ schema_hint @ [0x0A]"

definition failed_prompt :: "jstr \<Rightarrow> jstr \<Rightarrow> node_prompt_result" where
  "failed_prompt session message =
     \<lparr>np_session_id = session, np_text = [], np_parsed = None, np_error = Some message, np_response_diagnostic = None\<rparr>"

text \<open>The error of \<open>assertTextBytes\<close>.\<close>

definition size_message :: "jstr \<Rightarrow> nat \<Rightarrow> jstr \<Rightarrow> jstr" where
  "size_message label maximum v =
     label @ js '' exceeds '' @ dec maximum @ js '' UTF-8 bytes (received '' @ dec (utf8_bytes v) @ js '')''"

definition format_sdk_diagnostic :: "(jstr \<Rightarrow> jstr) \<Rightarrow> (jstr \<Rightarrow> jstr) \<Rightarrow> jstr \<Rightarrow> jstr \<Rightarrow> jstr" where
  "format_sdk_diagnostic redact format_error prefix e = safe_diagnostic_text redact (prefix @ format_error e)"

text \<open>
  \<open>None\<close> is the error of the caller's own callback, the only one that is thrown again;
  \<open>format_error\<close> is \<open>formatSdkError\<close>.
\<close>

definition run_node_session ::
  "(jstr \<Rightarrow> jstr) \<Rightarrow> (jstr \<Rightarrow> jstr) \<Rightarrow> (json \<Rightarrow> bool) \<Rightarrow> jstr \<Rightarrow> session_answers \<Rightarrow> node_prompt_opts \<Rightarrow>
   node_prompt_result option" where
  "run_node_session redact format_error accepts schema_hint answers opts =
     (let agent = no_agent opts; limit = prompt_limit agent;
          full = full_prompt agent schema_hint (no_user_prompt opts) in
      if sa_aborted answers then Some (failed_prompt [] (format_error (js ''Execution cancelled before child launch'')))
      else if limit < utf8_bytes (no_user_prompt opts)
      then Some (failed_prompt [] (format_error (size_message (agent_name agent @ js '' prompt'') limit (no_user_prompt opts))))
      else if limit < utf8_bytes full
      then Some (failed_prompt [] (format_error (size_message (agent_name agent @ js '' full prompt'') limit full)))
      else (case sa_create answers (session_title agent (no_title opts)) of
          Threw e \<Rightarrow> Some (failed_prompt [] (format_error e))
        | Reported e \<Rightarrow> Some (failed_prompt [] (format_sdk_diagnostic redact format_error (js ''session.create failed: '') e))
        | Answered session \<Rightarrow>
            if session = [] then Some (failed_prompt [] (js ''session.create returned no session id''))
            else if sa_callback_fails answers then None
            else if sa_aborted_later answers
            then Some (failed_prompt session (format_error (js ''Execution cancelled before child prompt'')))
            else (case sa_prompt answers session (prompt_body_of agent (no_disabled_tools opts) (no_model opts) full) of
                Threw e \<Rightarrow> Some (failed_prompt session (format_error e))
              | Reported e \<Rightarrow> Some (failed_prompt session (format_sdk_diagnostic redact format_error (js ''session.prompt failed: '') e))
              | Answered reply \<Rightarrow> Some (read_reply (Some accepts) session reply))))"

section \<open>Prompts\<close>

text \<open>\<open>JSON.stringify(value, null, 2)\<close>\<close>

definition new_line :: "nat \<Rightarrow> jstr" where "new_line k = 0x0A # replicate k 0x20"

fun pretty :: "nat \<Rightarrow> json \<Rightarrow> jstr"
  and pretty_items :: "nat \<Rightarrow> json list \<Rightarrow> jstr list"
  and pretty_members :: "nat \<Rightarrow> (jstr \<times> json) list \<Rightarrow> jstr list" where
  "pretty k (J_arr xs) =
     (if xs = [] then js ''[]''
      else js ''['' @ new_line (k + 2) @ js_join (js '','' @ new_line (k + 2)) (pretty_items (k + 2) xs) @ new_line k @ js '']'')"
| "pretty k (J_obj ms) =
     (if ms = [] then js ''{}''
      else js ''{'' @ new_line (k + 2) @ js_join (js '','' @ new_line (k + 2)) (pretty_members (k + 2) ms) @ new_line k @ js ''}'')"
| "pretty k J_null = stringify J_null"
| "pretty k (J_bool b) = stringify (J_bool b)"
| "pretty k (J_num n) = stringify (J_num n)"
| "pretty k (J_str s) = stringify (J_str s)"
| "pretty_items k [] = []"
| "pretty_items k (x # xs) = pretty k x # pretty_items k xs"
| "pretty_members k [] = []"
| "pretty_members k ((key, v) # ms) = (quote_string key @ js '': '' @ pretty k v) # pretty_members k ms"

definition retry_guidance :: "jstr list \<Rightarrow> attempt_outcome option \<Rightarrow> jstr list" where
  "retry_guidance failures outcome =
     (if failures = [] then []
      else (if outcome = Some Schema_invalid then
          [js ''PRIOR OUTPUT CONTRACT FAILURES:'',
           js ''The previous response did not satisfy the output contract. These diagnostics are not new acceptance criteria or a substantive verdict on the work.'',
           js ''Return one JSON object matching the supplied schema: use the required fields and JSON types, omit unsupported keys, and satisfy field constraints. Do not change facts or claim success just to pass validation.'']
        else if outcome = Some Sdk_error then [js ''PRIOR EXECUTION/TRANSPORT FAILURE (not a checker verdict):'']
        else if outcome = Some Gate_failure then [js ''PRIOR GATE FAILURE (not necessarily an output-format problem):'']
        else [js ''PRIOR ATTEMPT OR CHECKER FEEDBACK (address against the original criteria):'']) @
        map (\<lambda>f. js ''- '' @ f) failures)"

record worker_prompt =
  wp_goal :: jstr
  wp_run_id :: "jstr option"
  wp_criteria :: "jstr list"
  wp_agent :: alg_agent
  wp_inputs :: json
  wp_prior_failures :: "jstr list"
  wp_prior_outcome :: "attempt_outcome option"
  wp_description :: "jstr option"

definition numbered :: "jstr list \<Rightarrow> jstr list" where
  "numbered xs = map (\<lambda>(i, x). dec (i + 1) @ js ''. '' @ x) (enumerate 0 xs)"

definition run_id_lines :: "jstr \<Rightarrow> jstr list" where
  "run_id_lines run_id =
     [[], js ''RUN ID: '' @ run_id,
      js ''Return files_touched as project-relative paths using forward slashes (for example, src/file.ts).'',
      js ''If you create a report artifact, save it under exactly .opencode/runs/'' @ run_id @
        js ''/artifacts/ and return that project-relative path as artifact_path.'',
      js ''If you did not create an artifact, omit artifact_path.'']"

text \<open>\<open>None\<close> when the prompt exceeds its limit.\<close>

definition bounded_prompt :: "nat \<Rightarrow> jstr \<Rightarrow> jstr option" where
  "bounded_prompt maximum prompt = (if utf8_bytes prompt \<le> maximum then Some prompt else None)"

definition build_worker_prompt :: "worker_prompt \<Rightarrow> jstr option" where
  "build_worker_prompt p =
     bounded_prompt MAX_WORKER_PROMPT_BYTES (js_join [0x0A] (filter (\<lambda>l. l \<noteq> [])
       ([js ''You are the '' @ [0x22] @ agent_name (wp_agent p) @ [0x22] @ js '' node in an Agents+Loops+Graphs run.'',
         case wp_description p of Some d \<Rightarrow> if d = [] then [] else js ''Node task: '' @ d | None \<Rightarrow> [],
         [], js ''GOAL:'' @ [0x0A] @ wp_goal p, [], js ''HARD CRITERIA:''] @
        (if wp_criteria p = [] then [js ''(none locked)''] else numbered (wp_criteria p)) @
        [[], js ''WIRED INPUTS (validated dependencies):'', js ''```json'', pretty 0 (wp_inputs p), js ''```''] @
        (case wp_run_id p of
           Some r \<Rightarrow> if wp_agent p = Implementer \<and> r \<noteq> [] then run_id_lines r else []
         | None \<Rightarrow> []) @
        retry_guidance (wp_prior_failures p) (wp_prior_outcome p) @
        [[], js ''Do the work with your tools, then return the JSON output contract.'',
         js ''Do not launch nested orchestration graphs.''])))"

definition build_checker_prompt :: "jstr list \<Rightarrow> json \<Rightarrow> jstr list \<Rightarrow> attempt_outcome option \<Rightarrow> jstr option" where
  "build_checker_prompt criteria claimed prior_failures prior_outcome =
     bounded_prompt MAX_CHECKER_PROMPT_BYTES (js_join [0x0A]
       ([js ''You are a checker in a fresh child session.'',
         js ''ALG'' @ [0x27] @ js ''s explicit task payload contains bounded claimed output and original hard criteria.'',
         js ''OpenCode SDK/project/system/tool/filesystem context may still apply.'',
         js ''Find reasons to reject. Never improve the work.'', [], js ''CRITERIA:''] @
        numbered criteria @
        [[], js ''CLAIMED OUTPUT:'', js ''```json'', pretty 0 claimed, js ''```'', [],
         js ''Return only the CheckOut JSON verdict.'',
         js ''score is an integer 0'' @ [0x2013] @ js ''10; passed must equal (score >= 7). Pass only when every hard criterion is met, with failures=[]. Otherwise score 0'' @
           [0x2013] @ js ''6 and provide specific failures.''] @
        retry_guidance prior_failures prior_outcome))"

text \<open>A reply that does not parse always says why; a parsed one never carries an error.\<close>

lemma read_reply_diagnosed:
  "np_parsed (read_reply accepts session reply) = None \<longleftrightarrow> np_response_diagnostic (read_reply accepts session reply) \<noteq> None"
  "np_parsed (read_reply accepts session reply) \<noteq> None \<Longrightarrow> np_error (read_reply accepts session reply) = None"
  by (auto simp: read_reply_def Let_def split: prod.splits)

end
