(* ===== verification/Reply_Extraction.thy ===== *)
theory Reply_Extraction
  imports Sessions
begin

text \<open>
  What the extraction guarantees: a printed object inside prose without brackets is read back
  exactly, whatever its strings contain.
\<close>

section \<open>The scanner over printed values\<close>

definition lengthen :: "nat \<Rightarrow> span \<Rightarrow> span" where "lengthen k r = (case r of (n, z) \<Rightarrow> (k + n, z))"

lemma lengthen_simps [simp]:
  "lengthen 0 r = r" "lengthen j (lengthen k r) = lengthen (j + k) r" "longer (lengthen k r) = lengthen (Suc k) r"
  "longer r = lengthen (Suc 0) r" "lengthen k (n, z) = (k + n, z)"
  by (cases r; simp add: lengthen_def longer_def)+

definition plain_unit :: "code_unit \<Rightarrow> bool" where
  "plain_unit c \<longleftrightarrow> c \<noteq> 0x22 \<and> \<not> opener c \<and> \<not> closer c"

lemma scan_plain:
  "list_all plain_unit s \<Longrightarrow> scan_span stack False False (s @ t) = lengthen (length s) (scan_span stack False False t)"
  by (induction s) (auto simp: plain_unit_def)

definition quoted_unit :: "code_unit \<Rightarrow> bool" where "quoted_unit c \<longleftrightarrow> c \<noteq> 0x22 \<and> c \<noteq> 0x5C"

lemma scan_quoted_units:
  "list_all quoted_unit s \<Longrightarrow> scan_span stack True False (s @ t) = lengthen (length s) (scan_span stack True False t)"
  by (induction s) (auto simp: quoted_unit_def)

lemma hex_digit_quoted: "n < 16 \<Longrightarrow> quoted_unit (hex_digit n)"
proof -
  assume "n < 16"
  then have "n \<in> set [0..<16]" by simp
  moreover have "list_all (\<lambda>n. quoted_unit (hex_digit n)) [0..<16]" by code_simp
  ultimately show ?thesis by (simp add: list_all_iff)
qed

lemma scan_escape:
  "list_all quoted_unit s \<Longrightarrow>
   scan_span stack True False (0x5C # c # s @ t) = lengthen (2 + length s) (scan_span stack True False t)"
  by (simp add: scan_quoted_units)

lemma scan_unicode:
  "scan_span stack True False (unicode_escape c @ t) = lengthen (length (unicode_escape c)) (scan_span stack True False t)"
  using hex_digit_quoted by (simp add: unicode_escape_def Let_def quoted_unit_def del: hex_digit_def)

lemma scan_quote_unit:
  "scan_span stack True False (quote_unit c @ t) = lengthen (length (quote_unit c)) (scan_span stack True False t)"
  using scan_unicode [of stack c t] by (auto simp: quote_unit_def)

lemma scan_quoted:
  "scan_span stack True False (quote_units s @ 0x22 # t) =
   lengthen (Suc (length (quote_units s))) (scan_span stack False False t)"
proof (induction s rule: quote_units.induct)
  case (2 c)
  then show ?case by (simp add: scan_unicode scan_quote_unit)
next
  case (3 c d s)
  then show ?case
    using surrogates_plain [of c] surrogates_plain [of d]
    by (cases "high_surrogate c \<and> low_surrogate d") (auto simp: scan_unicode scan_quote_unit)
qed simp

lemma scan_string:
  "scan_span stack False False (quote_string s @ t) = lengthen (length (quote_string s)) (scan_span stack False False t)"
  by (simp add: quote_string_def scan_quoted)

lemma takeWhile_digits: "list_all number_unit (takeWhile json_digit s)"
  by (induction s) (auto simp: number_unit_def)

lemma parse_digits_units: "parse_digits s = Some (ds, q) \<Longrightarrow> list_all number_unit ds"
  using takeWhile_digits [of s] by (auto simp: parse_digits_def Let_def split: if_splits)

lemma json_number_units: "json_number n \<Longrightarrow> list_all number_unit n"
proof -
  assume n: "json_number n"
  have i: "list_all number_unit i" if "parse_integer_part s = Some (i, q)" for s i q
    using that parse_digits_units
    by (auto simp: parse_integer_part_def number_unit_def json_digit_def split: list.splits if_splits)
  have f: "list_all number_unit f" if "parse_fraction s = Some (f, q)" for s f q
    using that parse_digits_units by (auto simp: parse_fraction_def number_unit_def split: list.splits if_splits)
  have e: "list_all number_unit e" if "parse_exponent s = Some (e, q)" for s e q
    using that parse_digits_units by (auto simp: parse_exponent_def number_unit_def split: list.splits if_splits)
  show ?thesis
    using n i f e by (auto simp: json_number_def parse_number_def Let_def number_unit_def split: option.splits if_splits)
qed

lemma number_plain: "number_unit c \<Longrightarrow> plain_unit c"
  by (auto simp: number_unit_def json_digit_def plain_unit_def opener_def closer_def)

lemma scan_values:
  "json_ok v \<Longrightarrow> stack \<noteq> [] \<Longrightarrow>
   scan_span stack False False (stringify v @ t) = lengthen (length (stringify v)) (scan_span stack False False t)"
  "items_ok xs \<Longrightarrow> stack \<noteq> [] \<Longrightarrow>
   scan_span stack False False (js_join (js '','') (stringify_items xs) @ t) =
   lengthen (length (js_join (js '','') (stringify_items xs))) (scan_span stack False False t)"
  "members_ok ms \<Longrightarrow> stack \<noteq> [] \<Longrightarrow>
   scan_span stack False False (js_join (js '','') (stringify_members ms) @ t) =
   lengthen (length (js_join (js '','') (stringify_members ms))) (scan_span stack False False t)"
proof (induction v and xs and ms arbitrary: stack t and stack t and stack t
    rule: stringify_stringify_items_stringify_members.induct)
  case 1
  have "list_all plain_unit (js ''null'')" by code_simp
  then show ?case by (simp add: scan_plain)
next
  case (2 b)
  have "list_all plain_unit (js ''true'')" "list_all plain_unit (js ''false'')" by code_simp+
  then show ?case by (simp add: scan_plain)
next
  case (3 n)
  then have "list_all plain_unit n" using json_number_units number_plain by (auto simp: list_all_iff)
  then show ?case by (simp add: scan_plain)
next
  case (4 s)
  then show ?case by (simp add: scan_string)
next
  case (5 xs)
  then show ?case by (simp add: opener_def closer_def closer_of_def)
next
  case (6 ms)
  then show ?case by (simp add: opener_def closer_def closer_of_def)
next
  case (8 x xs)
  then show ?case by (cases "xs = []") (auto simp: js_join_Cons opener_def closer_def)
next
  case (10 k v ms)
  then show ?case by (cases "ms = []") (auto simp: js_join_Cons opener_def closer_def scan_string)
qed auto

lemma scan_object:
  "json_ok (J_obj ms) \<Longrightarrow>
   scan_span [] False False (stringify (J_obj ms) @ t) = (length (stringify (J_obj ms)), [], False, False)"
  using scan_values(3) [of ms "[0x7D]" "0x7D # t"] by (simp add: opener_def closer_def closer_of_def)

section \<open>Sizes and blanks\<close>

lemma utf8_bytes_suffix_le:
  "(case t of [] \<Rightarrow> True | c # _ \<Rightarrow> \<not> low_surrogate c) \<Longrightarrow> utf8_bytes t \<le> utf8_bytes (s @ t)"
proof (induction s rule: utf8_bytes.induct)
  case (2 c)
  then show ?case by (cases t) auto
qed auto

lemma js_trim_Nil: "js_trim s = [] \<Longrightarrow> c \<in> set s \<Longrightarrow> js_space c"
proof -
  assume "js_trim s = []" and c: "c \<in> set s"
  then have all: "\<forall>x\<in>set (dropWhile js_space s). js_space x" by (simp add: js_trim_def dropWhile_eq_Nil_conv)
  have "dropWhile js_space s = []"
  proof (rule ccontr)
    assume n: "dropWhile js_space s \<noteq> []"
    show False using hd_dropWhile [OF n] all list.set_sel(1) [OF n] by blast
  qed
  then show ?thesis using c by (simp add: dropWhile_eq_Nil_conv)
qed

section \<open>The object in the text\<close>

lemma candidates_skip:
  assumes "list_all (\<lambda>c. \<not> opener c) s"
  shows "candidates_from (pre @ s @ post) (length pre) k st = candidates_from (pre @ s @ post) (length pre + length s) k st"
  using assms
proof (induction s arbitrary: pre)
  case (Cons c s)
  have "candidates_from (pre @ (c # s) @ post) (length pre) k st = candidates_from ((pre @ [c]) @ s @ post) (length (pre @ [c])) k st"
    using Cons(2) by (subst candidates_from.simps) (simp add: nth_append)
  then show ?case using Cons(1) [of "pre @ [c]"] Cons(2) by simp
qed simp

lemma candidates_end: "length text \<le> start \<Longrightarrow> candidates_from text start k st = closing_reason st"
  by (subst candidates_from.simps) simp

lemma candidates_object:
  assumes ok: "json_ok (J_obj ms)" and pre: "list_all (\<lambda>c. \<not> opener c) pre" and post: "list_all (\<lambda>c. \<not> opener c) post"
    and small: "utf8_bytes (stringify (J_obj ms)) \<le> MAX_JSON_CANDIDATE_BYTES"
  shows "candidates_from (pre @ stringify (J_obj ms) @ post) 0 0 ([], None) = ([J_obj ms], None)"
proof -
  let ?v = "stringify (J_obj ms)" let ?text = "pre @ ?v @ post"
  have head: "?v \<noteq> []" "opener (?text ! length pre)" by (simp_all add: opener_def)
  have "candidates_from ?text 0 0 ([], None) = candidates_from ?text (length pre) 0 ([], None)"
    using candidates_skip [OF pre, of "[]" "?v @ post" 0 "([], None)"] by simp
  also have "\<dots> = candidates_from ?text (length pre + length ?v) 1 (read_candidate ?v ([], None))"
    using head scan_object [OF ok, of post]
    by (subst candidates_from.simps) (auto simp: MAX_JSON_CANDIDATES_def simp del: stringify.simps)
  also have "read_candidate ?v ([], None) = ([J_obj ms], None)"
    using small json_parse_stringify [OF ok] by (simp add: read_candidate_def del: stringify.simps)
  also have "candidates_from ?text (length pre + length ?v) 1 ([J_obj ms], None) = closing_reason ([J_obj ms], None)"
    using candidates_skip [OF post, of "pre @ ?v" "[]" 1 "([J_obj ms], None)"] candidates_end
    by (simp del: stringify.simps)
  finally show ?thesis by (simp add: closing_reason_def)
qed

text \<open>
  C40. A model's reply that contains one printed JSON object between prose without brackets (a
  Markdown fence included) is read back to that object, whatever its strings, numbers and nesting, up
  to the forward slashes of its path metadata.
\<close>

theorem printed_object_is_extracted:
  assumes "json_ok (J_obj ms)"
    and "list_all (\<lambda>c. \<not> opener c) pre" "list_all (\<lambda>c. \<not> opener c) post"
    and "utf8_bytes (pre @ stringify (J_obj ms) @ post) \<le> MAX_JSON_CANDIDATE_BYTES"
  shows "extract_json_detailed accepts (pre @ stringify (J_obj ms) @ post) =
    \<lparr>je_value = Some (normalize_response_json (J_obj ms)), je_reason = None, je_candidate_count = 1\<rparr>"
proof -
  let ?v = "stringify (J_obj ms)" let ?text = "pre @ ?v @ post"
  have "utf8_bytes (?v @ post) \<le> utf8_bytes ?text"
    by (rule utf8_bytes_suffix_le) (simp add: low_surrogate_def)
  then have small: "utf8_bytes ?v \<le> MAX_JSON_CANDIDATE_BYTES"
    using utf8_bytes_prefix_mono [of ?v post] assms(4) by linarith
  have "js_trim ?text \<noteq> []"
    using js_trim_Nil [of ?text "0x7B"] by (auto simp: js_space_def)
  then have "json_object_candidates ?text = ([J_obj ms], None)"
    using candidates_object [OF assms(1-3) small] assms(4) by (simp add: json_object_candidates_def del: stringify.simps)
  then show ?thesis by (simp add: extract_json_detailed_def)
qed

definition example_members :: "(jstr \<times> json) list" where
  "example_members = [(js ''done'', J_bool True), (js ''summary'', J_str (js [CHR 0x22, CHR ''}'', CHR ''{''])),
     (js ''files_touched'', J_arr [J_str (js [CHR ''a'', CHR 0x5C, CHR ''b''])])]"

definition example_prose :: jstr where "example_prose = js ''Here is the result: ```json''"

lemma printed_object_is_extracted_witness:
  "je_value (extract_json_detailed None (example_prose @ stringify (J_obj example_members) @ js ''```'')) =
   Some (J_obj [(js ''done'', J_bool True), (js ''summary'', J_str (js [CHR 0x22, CHR ''}'', CHR ''{''])),
     (js ''files_touched'', J_arr [J_str (js ''a/b'')])])"
proof -
  have "json_ok (J_obj example_members)" "list_all (\<lambda>c. \<not> opener c) example_prose"
    "list_all (\<lambda>c. \<not> opener c) (js ''```'')"
    "utf8_bytes (example_prose @ stringify (J_obj example_members) @ js ''```'') \<le> 1000"
    by code_simp+
  moreover have "normalize_response_json (J_obj example_members) =
      J_obj [(js ''done'', J_bool True), (js ''summary'', J_str (js [CHR 0x22, CHR ''}'', CHR ''{''])),
        (js ''files_touched'', J_arr [J_str (js ''a/b'')])]"
    by code_simp
  ultimately show ?thesis
    using printed_object_is_extracted [of example_members example_prose "js ''```''" None]
    by (simp add: MAX_JSON_CANDIDATE_BYTES_def MAX_AGENT_RESPONSE_TEXT_BYTES_def del: stringify.simps)
qed

end
