(* ===== verification/Spec2Isabelle.thy ===== *)
theory Spec2Isabelle
  imports Live_Progress Compaction Skill_Crashes Execution_Properties Fresh_Saves Ownership Models Filesystem_Mutex Reply_Extraction
begin

text \<open>
  ALG is a plugin that runs a task as a graph of agent sessions: a validated workflow graph is
  executed in waves, every node is attempted by a child session whose reply is checked, gated and
  recorded, and every step is saved as a new generation of a durable run. This development models that
  core, translated from \<open>src/*.ts\<close>, and proves what the parts promise each other.

  \<^bold>\<open>How the parts interact.\<close> A workflow is parsed by the graph schema; \<open>executeRun\<close> takes waves of ready
  nodes from the graph operations, reserves attempts, lets the sessions of a wave interleave, settles
  each reply through the output schemas and the gates, propagates failures, routes the feedback of
  checkers and closes the run with a summary. Whatever it changes is saved by the store: the run is
  projected to a bounded manifest and content-addressed documents, published, verified and swapped in
  when the stored revision is still the one the save started from. Sessions read the object out of a
  model's reply; ownership decides whose saves are accepted at all; models record which model answers
  for which role; the filesystem mutex guards the files.

  \<^bold>\<open>Shared vocabulary.\<close>
  \<^item> \<open>Alg_Prelude\<close>: JavaScript strings as lists of 16-bit code units, keyed updates of
    insertion-ordered objects (association lists), issue lists, and the lemma collections
    \<open>issue_simps\<close> and \<open>frame_simps\<close>.
  \<^item> \<open>Results\<close>: computations that may throw, as sums. \<open>Revisions\<close>: the interface of a store of numbered
    generations, with what follows for any sequence of saves by any writers; the run store and the
    project's model settings are its interpretations. \<open>Interleaving\<close>: states reached by interleaved
    steps and the interface of an invariant, interpreted twice for the mutex.
  \<^item> \<open>Limits\<close> (\<open>limits.ts\<close>): byte limits, UTF-8 sizes, the bisecting truncation.
    \<open>Json_Values\<close>: JSON values, \<open>JSON.stringify\<close> and \<open>JSON.parse\<close> of the language;
    \<open>Json_Roundtrip\<close>: parsing a printed value gives it back.
  \<^item> \<open>Alg_Types\<close> (\<open>types.ts\<close> and the shapes in \<open>schemas.ts\<close>): graph, attempt, node and run records.
    \<open>Paths\<close> (\<open>paths.ts\<close>), \<open>Diagnostics\<close> (\<open>diagnostics.ts\<close>): lexical path safety, bounded failure lists.

  \<^bold>\<open>Schemas.\<close> \<open>Outputs\<close>, \<open>Graph_Schema\<close>, \<open>Attempts\<close> and \<open>Run_Invariant\<close> model \<open>schemas.ts\<close>: the node
  outputs and their byte limits, workflow graphs and input expressions, persisted attempts, and
  \<open>RunStateCoreSchema\<close>. A schema is the function that lists its issues; its characterisation lemmas say
  which values have none (graphs: distinct ids, earlier dependencies, inputs among the transitive
  dependencies; runs: the execution invariant \<open>run_fine\<close>, which the executor proofs use).

  \<^bold>\<open>Execution.\<close> \<open>Graph\<close> (\<open>graph.ts\<close>): ready nodes, failure propagation, descendants, input resolution.
  \<open>Run_Steps\<close>: the invariant under single updates. \<open>Settlement\<close>, \<open>Scheduling\<close>, \<open>Resume\<close> and
  \<open>Feedback_Routing\<close> (\<open>executor.ts\<close>): one attempt from reservation to verdict, the global limit,
  \<open>prepareRunForResume\<close>, \<open>closeRun\<close>, checker feedback. \<open>Executor\<close>: \<open>executeRun\<close> itself; the state holds
  the run, the last saved generation, all commits and a clock; the workers of a batch are phases moved
  by events in any order, and a save that waits for a lock is an event of its own. \<open>Executor_Steps\<close>,
  \<open>Executor_Loop\<close>, \<open>Execution\<close> and \<open>Execution_Properties\<close> carry the invariant from single steps to whole
  executions; the interface \<open>run_progress\<close> transports any relation between runs that the elementary
  changes respect, and is interpreted for the growth of histories and for the identity of the task.
  \<open>Summary\<close>: the final summary and its bounds. The recursion of an execution is bounded by the option
  \<open>maxWaves\<close> of the code (1 to 1,000, 128 by default), which is a fuel the program has itself: when it is
  used up the code returns the run blocked, and so does the model.

  \<^bold>\<open>Store.\<close> \<open>Persistence\<close> (\<open>persistence.ts\<close>): canonical JSON, references, \<open>projectRunState\<close>. \<open>Hydration\<close>
  (\<open>store.ts\<close>): reading referenced documents, \<open>persistRunInternal\<close> with its candidate, preparation,
  publication, verification and compare-and-swap, and loading. \<open>Roundtrip\<close> and \<open>Saved_Runs\<close> relate a
  projection to the run it shows; \<open>Store_Properties\<close>, \<open>Projection_Properties\<close> and \<open>Fresh_Saves\<close> state what
  a save promises and carry concrete saves through. \<open>Ownership\<close> (\<open>ownership.ts\<close> and \<open>loadRunForOwner\<close>):
  loading for an owner, owned changes and transfers. \<open>Models\<close> (\<open>models.ts\<close>): model names, the provenance
  of every role, project settings.

  \<^bold>\<open>Sessions and locks.\<close> \<open>Sessions\<close> (\<open>sessions.ts\<close>): the extraction scanner, prompts, and one child
  session over the answers of the host; \<open>Reply_Extraction\<close>: the scanner finds a printed object inside prose.
  The scanner is a total function: every turn of its loop moves the position forward. \<open>Filesystem_Mutex\<close>
  (\<open>filesystem-mutex.ts\<close>): claim, takeover, renewal and release as single system calls of many processes
  in any interleaving, with time and deaths; exclusion as long as no process dies inside the guarded
  section, exclusion of \<open>assertHeld\<close> always, and the race that breaks the former without that assumption.

  \<^bold>\<open>Views of a run.\<close> \<open>Live_Progress\<close> (\<open>run-progress.ts\<close>): the bounded snapshot published while a run
  executes and the reader that checks it. \<open>Compaction\<close> (\<open>compaction.ts\<close>, \<open>owned-context.ts\<close>): which run is
  offered to a session, its summaries within a byte allowance, and the replacement of the plugin's own
  entries in an array that other plugins extend.

  \<^bold>\<open>Publication of skills.\<close> \<open>Skill_Files\<close> and \<open>Skill_Publication\<close> (\<open>skill-evolution-store.ts\<close>): a file
  system of names that link to nodes, candidates, journals, and the promotion, rollback and recovery of a
  skill as lists of phases, each one change on disk. \<open>Skill_Recovery\<close> follows a publication through its
  phases and a recovery through its actions; \<open>Skill_Crashes\<close> states what a process may die in the middle of
  without harm, and what it may not: a file created and not yet written blocks every later publication.

  \<^bold>\<open>Conventions.\<close> Objects keyed by strings are association lists in insertion order; timestamps are
  natural numbers whose recorded text is an argument where it matters; numbers in JSON are their
  lexemes; optional members are \<open>option\<close>s. Arguments of the model stand for code outside the
  repository or for the outside world: SHA-256 (a function; only the properties that speak of documents
  read back assume that it separates the documents at hand), the redaction patterns of diagnostics,
  the type-directed decoder of the schema library, the answers of sessions, shells, locks and the file
  system. In the executor the run is kept hydrated and a save is accepted or refused by the
  environment; the store theories model the save itself.

  \<^bold>\<open>Not modelled.\<close> File-system I/O below the documents (atomic replacement, mirrors, backups, quarantine
  files, garbage collection, symbolic links), the owner index and its listing; process execution of
  shell gates and the lexical preflight of commands; the plugin's tools and hooks, the terminal
  interface, configuration editing, templates (constant graphs), context budgets (binary
  floating point), run cards, and of the skill-evolution subsystem all but publication: the audit ledger,
  reviews, evidence, historical audits and the content rules of a skill. Waiting wrappers repeat the
  modelled operations on a timer. \<open>PROJECT.json\<close> lists every part with its status.
\<close>

end
